(* ===== verification/Prelude.thy ===== *)
theory Prelude
  imports Main "HOL-Library.Word" "HOL-Library.AList" "HOL-Library.Multiset"
    "HOL-Library.Monad_Syntax"
begin

text \<open>
  Shared vocabulary of the development: the machine integers of Go, byte slices, Go maps,
  bounded channels, loops whose body may panic, and the generic lemmas the components use.

  \<^item> A Go map is an association list with distinct keys. Go fixes no iteration order for
    \<^verbatim>\<open>range\<close> over a map; the order of the list stands for the order the next
    iteration takes. Every lemma holds for every order of the list, and the step relations
    of the components may permute a map between two steps.
  \<^item> A run-time panic (nil dereference, index out of range, failed type assertion) is the
    value \<open>None\<close> of an option; an error returned by the Go code is an ordinary value.
\<close>

section \<open>Types\<close>

type_synonym u8 = "8 word"
type_synonym u32 = "32 word"
type_synonym u64 = "64 word"
type_synonym bytes = "8 word list"
type_synonym ('k, 'v) gomap = "('k \<times> 'v) list"

named_theorems gomap_simps \<open>lookup after update, delete and map over a Go map\<close>
named_theorems frame_simps \<open>fields that an operation leaves unchanged\<close>

section \<open>Go maps\<close>

abbreviation mget :: "('k, 'v) gomap \<Rightarrow> 'k \<Rightarrow> 'v option" where
  "mget m k \<equiv> map_of m k"

definition mput :: "'k \<Rightarrow> 'v \<Rightarrow> ('k, 'v) gomap \<Rightarrow> ('k, 'v) gomap" where
  "mput k v m = AList.update k v m"

definition mdel :: "'k \<Rightarrow> ('k, 'v) gomap \<Rightarrow> ('k, 'v) gomap" where
  "mdel k m = filter (\<lambda>p. fst p \<noteq> k) m"

definition mkeys :: "('k, 'v) gomap \<Rightarrow> 'k list" where
  "mkeys m = map fst m"

definition mvals :: "('k, 'v) gomap \<Rightarrow> 'v list" where
  "mvals m = map snd m"

definition mmap :: "('v \<Rightarrow> 'w) \<Rightarrow> ('k, 'v) gomap \<Rightarrow> ('k, 'w) gomap" where
  "mmap f m = map (\<lambda>p. (fst p, f (snd p))) m"

definition mwf :: "('k, 'v) gomap \<Rightarrow> bool" where
  "mwf m = distinct (map fst m)"

lemma mget_mput [simp, gomap_simps]: "mget (mput k v m) k' = (if k' = k then Some v else mget m k')"
  by (simp add: mput_def update_conv')

lemma mget_mdel [simp, gomap_simps]: "mget (mdel k m) k' = (if k' = k then None else mget m k')"
  by (induction m) (auto simp: mdel_def)

lemma mget_mmap [simp, gomap_simps]: "mget (mmap f m) k = map_option f (mget m k)"
  by (induction m) (auto simp: mmap_def)

lemma mput_code [simp]:
  "mput k v [] = [(k, v)]"
  "mput k v (p # ps) = (if fst p = k then (k, v) # ps else p # mput k v ps)"
  by (cases p, auto simp: mput_def)

lemma mdel_code [simp]:
  "mdel k [] = []"
  "mdel k (p # ps) = (if fst p = k then mdel k ps else p # mdel k ps)"
  by (simp_all add: mdel_def)

lemma mkeys_code [simp]: "mkeys [] = []" "mkeys (p # ps) = fst p # mkeys ps"
  by (simp_all add: mkeys_def)

lemma mvals_code [simp]: "mvals [] = []" "mvals (p # ps) = snd p # mvals ps"
  by (simp_all add: mvals_def)

lemma mmap_code [simp]: "mmap f [] = []" "mmap f (p # ps) = (fst p, f (snd p)) # mmap f ps"
  by (simp_all add: mmap_def)

lemma mput_same: "mget m k = Some v \<Longrightarrow> mput k v m = m"
  by (induction m) (auto split: if_splits)

lemma mput_mput [simp]: "mput k v (mput k w m) = mput k v m"
  by (induction m) auto

lemma mwf_Nil [simp, intro]: "mwf []"
  by (simp add: mwf_def)

lemma mwf_mput [simp, intro]: "mwf m \<Longrightarrow> mwf (mput k v m)"
  by (simp add: mwf_def mput_def distinct_update)

lemma mwf_mdel [simp, intro]: "mwf m \<Longrightarrow> mwf (mdel k m)"
  by (auto simp: mwf_def mdel_def distinct_map_filter)

lemma mkeys_mmap [simp]: "mkeys (mmap f m) = mkeys m"
  by (induction m) auto

lemma mwf_mmap [simp]: "mwf (mmap f m) = mwf m"
  by (simp add: mwf_def mmap_def o_def)

lemma mget_in_set: "mwf m \<Longrightarrow> mget m k = Some v \<longleftrightarrow> (k, v) \<in> set m"
  by (simp add: mwf_def)

lemma mget_Some_in_set: "mget m k = Some v \<Longrightarrow> (k, v) \<in> set m"
  by (rule map_of_SomeD)

lemma mget_None_keys: "mget m k = None \<longleftrightarrow> k \<notin> set (mkeys m)"
  by (simp add: mkeys_def map_of_eq_None_iff)

lemma mget_Some_keys: "mget m k = Some v \<Longrightarrow> k \<in> set (mkeys m)"
  by (force simp: mkeys_def dest: map_of_SomeD)

lemma in_mkeys_iff: "k \<in> set (mkeys m) \<longleftrightarrow> (\<exists>v. mget m k = Some v)"
  using mget_None_keys [of m k] by (cases "mget m k") auto

lemma mkeys_mput_set [simp]: "set (mkeys (mput k v m)) = insert k (set (mkeys m))"
  by (induction m) auto

lemma mkeys_mdel_set [simp]: "set (mkeys (mdel k m)) = set (mkeys m) - {k}"
  by (induction m) auto

lemma distinct_mkeys [simp]: "distinct (mkeys m) = mwf m"
  by (simp add: mkeys_def mwf_def)

lemma in_mvals_iff: "mwf m \<Longrightarrow> v \<in> set (mvals m) \<longleftrightarrow> (\<exists>k. mget m k = Some v)"
  by (force simp: mvals_def mget_in_set)

lemma mget_mem_mvals: "mget m k = Some v \<Longrightarrow> v \<in> set (mvals m)"
  by (force simp: mvals_def dest!: map_of_SomeD)

lemma mvals_mput_new: "mget m k = None \<Longrightarrow> set (mvals (mput k v m)) = insert v (set (mvals m))"
  by (induction m) (auto split: if_splits)

text \<open>Reordering a map changes no lookup: the iteration order is not observable through keys.\<close>

lemma mget_perm:
  assumes "mwf m" "mset m' = mset m"
  shows "mwf m' \<and> mget m' k = mget m k"
proof -
  have "set m' = set m" using assms(2) by (metis set_mset_mset)
  moreover have "mset (map fst m') = mset (map fst m)" using assms(2) by (metis mset_map)
  then have wf: "mwf m'" using assms(1) unfolding mwf_def by (metis mset_eq_imp_distinct_iff)
  ultimately show ?thesis using assms(1) mget_in_set
    by (metis (no_types, lifting) not_None_eq)
qed

section \<open>Loops whose body may panic\<close>

fun rangeM :: "('a \<Rightarrow> 's \<Rightarrow> 's option) \<Rightarrow> 'a list \<Rightarrow> 's \<Rightarrow> 's option" where
  "rangeM f [] s = Some s"
| "rangeM f (x # xs) s = do { s' \<leftarrow> f x s; rangeM f xs s' }"

lemma rangeM_inv:
  assumes "rangeM f xs s = Some s'" and "P s"
    and "\<And>x t t'. x \<in> set xs \<Longrightarrow> f x t = Some t' \<Longrightarrow> P t \<Longrightarrow> P t'"
  shows "P s'"
  using assms
proof (induction xs arbitrary: s)
  case (Cons x xs)
  then obtain t where "f x s = Some t" "rangeM f xs t = Some s'"
    by (auto split: Option.bind_splits)
  with Cons show ?case by (metis list.set_intros)
qed simp

lemma rangeM_total:
  assumes "P s" and "\<And>x t. x \<in> set xs \<Longrightarrow> P t \<Longrightarrow> \<exists>t'. f x t = Some t' \<and> P t'"
  shows "\<exists>s'. rangeM f xs s = Some s' \<and> P s'"
  using assms
proof (induction xs arbitrary: s)
  case (Cons x xs)
  from Cons.prems obtain t where "f x s = Some t" "P t" by (meson list.set_intros(1))
  moreover from Cons.IH [OF this(2)] Cons.prems(2) obtain s' where "rangeM f xs t = Some s'" "P s'"
    by (meson list.set_intros(2))
  ultimately show ?case by simp
qed simp

lemma rangeM_append: "rangeM f (xs @ ys) s = do { t \<leftarrow> rangeM f xs s; rangeM f ys t }"
  by (induction xs arbitrary: s) (auto split: Option.bind_splits)

lemma rangeM_pure:
  assumes "\<And>x t. x \<in> set xs \<Longrightarrow> f x t = Some (g x t)"
  shows "rangeM f xs s = Some (fold g xs s)"
  using assms by (induction xs arbitrary: s) auto

section \<open>Bounded channels\<close>

text \<open>
  A buffered channel is the list of its elements; \<open>chan_offer\<close> is the non-blocking send
  \<^verbatim>\<open>select { case c <- x: default: }\<close>, which drops the element when the buffer is full.
\<close>

definition chan_offer :: "nat \<Rightarrow> 'a list \<Rightarrow> 'a \<Rightarrow> 'a list \<times> bool" where
  "chan_offer cap q x = (if length q < cap then (q @ [x], True) else (q, False))"

lemma chan_offer_bound: "length q \<le> cap \<Longrightarrow> length (fst (chan_offer cap q x)) \<le> cap"
  by (simp add: chan_offer_def)

section \<open>Channels and tickers\<close>

text \<open>
  A channel of negative size and a ticker whose interval is not positive are panics. The interval is
  the number of seconds times \<open>10 ^ 9\<close> in a 64-bit integer.
\<close>

definition make_chan :: "int \<Rightarrow> unit option" where
  "make_chan n = (if n < 0 then None else Some ())"

definition NewTicker :: "int \<Rightarrow> unit option" where
  "NewTicker seconds = (if sint (word_of_int (seconds * 10 ^ 9) :: u64) \<le> 0 then None else Some ())"

lemma NewTicker_small:
  assumes "- 9223372036 \<le> n" "n \<le> 9223372036"
  shows "NewTicker n = (if n \<le> 0 then None else Some ())"
proof -
  have "signed_take_bit 63 (n * 10 ^ 9) = n * 10 ^ 9" using assms by (intro signed_take_bit_int_eq_self) simp_all
  then have "sint (word_of_int (n * 10 ^ 9) :: u64) = n * 10 ^ 9" unfolding sint_sbintrunc' by simp
  then show ?thesis unfolding NewTicker_def by simp
qed

lemma NewTicker_ok: "0 < n \<Longrightarrow> n \<le> 9223372036 \<Longrightarrow> NewTicker n = Some ()"
  by (simp add: NewTicker_small)

end
