(* ===== verification/Smpack.thy ===== *)
theory Smpack
  imports Prelude
begin

text \<open>
  The wire framing of \<^verbatim>\<open>src/proto/pack.go\<close>: a four-byte big-endian body length and the
  body. \<open>Pack\<close> and \<open>Unpack\<close> are the two functions of that file; the reads and writes of
  \<^verbatim>\<open>encoding/binary\<close> they use are written out on 32-bit words.
\<close>

unbundle bit_operations_syntax

section \<open>encoding/binary, big endian\<close>

definition be_PutUint32 :: "u32 \<Rightarrow> bytes" where
  "be_PutUint32 v = [ucast (drop_bit 24 v), ucast (drop_bit 16 v), ucast (drop_bit 8 v), ucast v]"

fun be_Uint32 :: "bytes \<Rightarrow> u32 option" where
  "be_Uint32 (b0 # b1 # b2 # b3 # _) =
     Some (ucast b3 OR push_bit 8 (ucast b2) OR push_bit 16 (ucast b1) OR push_bit 24 (ucast b0))"
| "be_Uint32 _ = None"

section \<open>Pack and Unpack\<close>

definition PkgHeadLen :: nat where
  "PkgHeadLen = 4"

definition Pack :: "bytes \<Rightarrow> bytes" where
  "Pack b = (let bodyLen = length b in be_PutUint32 (word_of_nat bodyLen) @ b)"

definition Unpack :: "bytes \<Rightarrow> nat \<times> bytes" where
  "Unpack b =
     (if length b < PkgHeadLen then (0, [])
      else case be_Uint32 b of
        None \<Rightarrow> (0, [])
      | Some w \<Rightarrow>
          (let bodyLen = unat w in
           if length b < PkgHeadLen + bodyLen then (0, [])
           else let msgLen = PkgHeadLen + bodyLen in
             (msgLen, drop PkgHeadLen (take msgLen b))))"

section \<open>Lemmas\<close>

lemma be_Uint32_PutUint32 [simp]: "be_Uint32 (be_PutUint32 v @ bs) = Some v"
proof -
  have "ucast (ucast v :: u8) OR push_bit 8 (ucast (ucast (drop_bit 8 v) :: u8)) OR
      push_bit 16 (ucast (ucast (drop_bit 16 v) :: u8)) OR
      push_bit 24 (ucast (ucast (drop_bit 24 v) :: u8)) = v" (is "?l = v")
  proof (rule bit_word_eqI)
    fix n assume "n < LENGTH(32)"
    then consider "n < 8" | "8 \<le> n" "n < 16" | "16 \<le> n" "n < 24" | "24 \<le> n" "n < 32" by fastforce
    then show "bit ?l n = bit v n" by cases (auto simp: bit_simps)
  qed
  then show ?thesis by (simp add: be_PutUint32_def)
qed

lemma length_be_PutUint32 [simp]: "length (be_PutUint32 v) = 4"
  by (simp add: be_PutUint32_def)

lemma be_Uint32_append: "be_Uint32 b = Some w \<Longrightarrow> be_Uint32 (b @ c) = Some w"
  by (cases b rule: be_Uint32.cases) auto

lemma be_Uint32_defined: "4 \<le> length b \<Longrightarrow> \<exists>w. be_Uint32 b = Some w"
  by (cases b rule: be_Uint32.cases) auto

lemma be_PutUint32_Uint32: "be_Uint32 b = Some w \<Longrightarrow> be_PutUint32 w = take 4 b"
proof (cases b rule: be_Uint32.cases)
  case (1 b0 b1 b2 b3 bs)
  assume "be_Uint32 b = Some w"
  then have w: "w = ucast b3 OR push_bit 8 (ucast b2) OR push_bit 16 (ucast b1) OR push_bit 24 (ucast b0)"
    using 1 by simp
  have "ucast (drop_bit 24 w) = b0" "ucast (drop_bit 16 w) = b1"
    "ucast (drop_bit 8 w) = b2" "ucast w = b3"
    unfolding w by (rule bit_word_eqI, auto simp: bit_simps dest: bit_imp_le_length)+
  then show ?thesis using 1 by (simp add: be_PutUint32_def)
qed auto

lemma Unpack_append:
  assumes "Unpack b = (n, d)" and "0 < n"
  shows "Unpack (b @ c) = (n, d)"
  using assms
  by (auto simp: Unpack_def Let_def be_Uint32_append split: if_splits option.splits)

lemma Unpack_bounds: "Unpack b = (n, d) \<Longrightarrow> n \<le> length b \<and> (0 < n \<longrightarrow> n = length d + 4)"
  by (auto simp: Unpack_def Let_def PkgHeadLen_def split: if_splits option.splits)

lemma Unpack_zero_body: "Unpack b = (0, d) \<Longrightarrow> d = []"
  by (auto simp: Unpack_def Let_def PkgHeadLen_def split: if_splits option.splits)

lemma Unpack_is_Pack:
  assumes "Unpack b = (n, d)" and "0 < n"
  shows "take n b = Pack d \<and> length d < 2 ^ 32"
proof -
  from assms obtain w where w: "be_Uint32 b = Some w" "n = 4 + unat w" "n \<le> length b"
    and d: "d = drop 4 (take n b)"
    by (auto simp: Unpack_def Let_def PkgHeadLen_def split: if_splits option.splits)
  from w d have len: "length d = unat w" by simp
  moreover have "unat w < 2 ^ LENGTH(32)" by (rule unsigned_less)
  ultimately have "length d < 2 ^ 32" by simp
  moreover have "take n b = be_PutUint32 w @ d"
    using be_PutUint32_Uint32 [OF w(1)] d w(2,3) by (simp add: take_add)
  moreover have "word_of_nat (length d) = w" using len by simp
  ultimately show ?thesis by (simp add: Pack_def)
qed

lemma length_Pack [simp]: "length (Pack b) = 4 + length b"
  by (simp add: Pack_def)

lemma Pack_nonempty [simp]: "Pack b \<noteq> []"
  by (simp add: Pack_def be_PutUint32_def Let_def)

lemma Unpack_Pack_append:
  assumes "length b < 2 ^ 32"
  shows "Unpack (Pack b @ rest) = (4 + length b, b)"
proof -
  have "unat (word_of_nat (length b) :: u32) = length b"
    using assms by (simp add: unat_of_nat)
  then show ?thesis by (simp add: Unpack_def Pack_def PkgHeadLen_def)
qed

lemma Unpack_incomplete:
  assumes "length b < 2 ^ 32" and "k < length (Pack b)"
  shows "Unpack (take k (Pack b)) = (0, [])"
proof (rule ccontr)
  obtain n d where nd: "Unpack (take k (Pack b)) = (n, d)" by fastforce
  assume "Unpack (take k (Pack b)) \<noteq> (0, [])"
  then have "0 < n" using nd Unpack_zero_body [of "take k (Pack b)"] by (cases n) auto
  from Unpack_append [OF nd this, of "drop k (Pack b)"] have "Unpack (Pack b) = (n, d)" by simp
  with Unpack_Pack_append [OF assms(1), of "[]"] have "n = length (Pack b)" by simp
  moreover from Unpack_bounds [OF nd] have "n \<le> k" using assms(2) by simp
  ultimately show False using assms(2) by simp
qed

section \<open>Properties\<close>

text \<open>
  \<open>Unpack\<close> recognises a message exactly when the buffer starts with a packed body of less
  than \<open>2 ^ 32\<close> bytes, and then it returns that body and the length of the frame, whatever follows.
\<close>

theorem unpack_exact:
  "(0 < n \<and> Unpack b = (n, d)) \<longleftrightarrow> (\<exists>rest. b = Pack d @ rest \<and> length d < 2 ^ 32 \<and> n = length (Pack d))"
proof
  assume *: "0 < n \<and> Unpack b = (n, d)"
  then have "take n b = Pack d" "length d < 2 ^ 32" "n = length d + 4"
    using Unpack_is_Pack [of b n d] Unpack_bounds [of b n d] by auto
  then show "\<exists>rest. b = Pack d @ rest \<and> length d < 2 ^ 32 \<and> n = length (Pack d)"
    by (intro exI [of _ "drop n b"]) (metis add.commute append_take_drop_id length_Pack)
next
  assume "\<exists>rest. b = Pack d @ rest \<and> length d < 2 ^ 32 \<and> n = length (Pack d)"
  then show "0 < n \<and> Unpack b = (n, d)" by (auto simp: Unpack_Pack_append)
qed

text \<open>
  A prefix of a frame that is not the whole frame is never taken for a message: \<open>Unpack\<close>
  asks for more data.
\<close>

theorem unpack_waits:
  assumes "length b < 2 ^ 32" and "k < length (Pack b)"
  shows "Unpack (take k (Pack b)) = (0, [])"
  using assms by (rule Unpack_incomplete)

theorem unpack_waits_witness: "Unpack (take 5 (Pack [7, 8, 9])) = (0, [])"
  by (rule unpack_waits) (simp_all add: Pack_def be_PutUint32_def)

end
