(* ===== verification/Ssproto.thy ===== *)
theory Ssproto
  imports Smpack
begin

text \<open>
  The messages exchanged by agents and the name server (\<^verbatim>\<open>src/proto/ssproto.proto\<close>,
  compiled to \<^verbatim>\<open>src/proto/generate/ssproto.pb.go\<close>) and \<open>PackSSMsg\<close> of
  \<^verbatim>\<open>src/proto/pack.go\<close>. The enumeration is open in proto3, so a command that is not
  declared is \<open>UnknownCmd\<close>; a message-typed field may be absent, which is \<open>None\<close>, as is
  an unset oneof. The protobuf encoder and decoder themselves are parameters (\<open>mar\<close>,
  \<open>unm\<close>) of the operations that call them.
\<close>

datatype SSCmd =
    INVALID_CMD
  | REQ_REGISTER_APP | RSP_REGISTER_APP | REQ_REGISTER_SERVICE | RSP_REGISTER_SERVICE
  | NOTIFY_SERVICE_ONLINE | REQ_UNREGISTER_SERVICE | NOTIFY_NAMESERVER_HEARTBEAT
  | NOTIFY_NAMESERVER_SYNCATTR | NOTIFY_SERVICE_SYNCATTR | NOTIFY_NAMESERVER_ELECTION
  | NOTIFY_SERVICE_ELECTION_RESULT | NOTIFY_SERVICE_KICK_OFF | NOTIFY_NAMESERVER_AGENT_INFO
  | NOTIFY_NAMESERVER_REGISTER_ROUTER | REQ_AGENT_ROUTER_UPDATE | RSP_NAMESERVER_ROUTER_UPDATE
  | NOTIFY_SERVICE_MESSAGE | REQ_PING_SERVICE | RSP_PING_SERVICE
  | UnknownCmd int

datatype SSError =
    SSError_OK | ERR_APP_NOT_REGISTER | ERR_SERVICE_REGISTER_AGAIN | ERR_APP_SESSION_LOST
  | ERR_ROUTER_PREPARE_ERR | ERR_ROUTER_PREPARE_TIMEOUT | ERR_SERVICE_REGISTER_LINEUP

fun SSError_value :: "SSError \<Rightarrow> int" where
  "SSError_value SSError_OK = 0"
| "SSError_value ERR_APP_NOT_REGISTER = -1000"
| "SSError_value ERR_SERVICE_REGISTER_AGAIN = -1001"
| "SSError_value ERR_APP_SESSION_LOST = -1002"
| "SSError_value ERR_ROUTER_PREPARE_ERR = -1003"
| "SSError_value ERR_ROUTER_PREPARE_TIMEOUT = -1004"
| "SSError_value ERR_SERVICE_REGISTER_LINEUP = -1005"

datatype PbServiceInfo = PbServiceInfo (pbServiceName: string) (pbServiceId: u64) (pbAddrHandle: u64)

datatype PbServiceOptions = PbServiceOptions (pbConsistentHashKey: u64)

datatype SSBody =
    RegisterAppReq string string
  | RegisterAppRsp "PbServiceInfo list" int
  | RegisterServiceReq "PbServiceInfo option" "PbServiceOptions option"
  | RegisterServiceRsp u64 int
  | NotifyServiceOnline string "PbServiceInfo option" "PbServiceOptions option" bool
  | UnregisterServiceReq u64
  | NotifyNameserverHb u64
  | NotifyNameserverAttr u64 bytes
  | NotifyServiceAttr "PbServiceInfo option" bytes
  | NotifyNameserverElection u64 int
  | NotifyServiceElectionResult "PbServiceInfo option" int int
  | NotifyServiceKickoff u64
  | NotifyNameserverAgentInfo string string
  | NotifyNameserverRegisterRouter string
  | AgentRouterUpdateReq int string
  | NameserverRouterUpdateRsp int string
  | NotifyServiceMessage "PbServiceInfo option" u64 bytes
  | ServicePingReq u64 u64 string
  | ServicePingRsp u64 u64

datatype SSMsg = SSMsg (ssCmd: SSCmd) (ssMsg: "SSBody option")

type_synonym marshal = "SSMsg \<Rightarrow> bytes option"
type_synonym unmarshal = "bytes \<Rightarrow> SSMsg option"

definition PackSSMsg :: "marshal \<Rightarrow> SSMsg \<Rightarrow> bytes option" where
  "PackSSMsg mar msg = (case mar msg of None \<Rightarrow> None | Some b \<Rightarrow> Some (Pack b))"

lemma PackSSMsg_None: "PackSSMsg mar msg = None \<longleftrightarrow> mar msg = None"
  by (simp add: PackSSMsg_def split: option.splits)

text \<open>
  What the receivers rely on of the protobuf library: the decoder inverts the encoder, and a
  body fits the four-byte length field.
\<close>

definition codec_ok :: "marshal \<Rightarrow> unmarshal \<Rightarrow> bool" where
  "codec_ok mar unm \<longleftrightarrow> (\<forall>m b. mar m = Some b \<longrightarrow> unm b = Some m \<and> length b < 2 ^ 32)"

lemma Unpack_PackSSMsg:
  "codec_ok mar unm \<Longrightarrow> PackSSMsg mar m = Some f \<Longrightarrow>
     \<exists>b. Unpack (f @ rest) = (length f, b) \<and> unm b = Some m \<and> 0 < length f"
  by (auto simp: codec_ok_def PackSSMsg_def Unpack_Pack_append split: option.splits)

lemma PackSSMsg_inj:
  "codec_ok mar unm \<Longrightarrow> PackSSMsg mar m = Some f \<Longrightarrow> PackSSMsg mar m' = Some f \<Longrightarrow> m = m'"
  using Unpack_PackSSMsg [of mar unm m f "[]"] Unpack_PackSSMsg [of mar unm m' f "[]"] by auto

text \<open>
  A codec over a table of at most 256 messages, which encodes a message as its position: an
  instance of the assumption, used where a property is shown at a concrete input.
\<close>

definition tab_mar :: "SSMsg list \<Rightarrow> marshal" where
  "tab_mar ms m = map_option (\<lambda>i. [of_nat i]) (find (\<lambda>i. ms ! i = m) [0..<length ms])"

definition tab_unm :: "SSMsg list \<Rightarrow> unmarshal" where
  "tab_unm ms b = (case b of [x] \<Rightarrow> (if unat x < length ms then Some (ms ! unat x) else None) | _ \<Rightarrow> None)"

lemma tab_mar_mem: "m \<in> set ms \<Longrightarrow> tab_mar ms m \<noteq> None"
  by (auto simp: tab_mar_def find_None_iff in_set_conv_nth)

lemma tab_codec_ok:
  assumes "length ms \<le> 256"
  shows "codec_ok (tab_mar ms) (tab_unm ms)"
  unfolding codec_ok_def
proof (intro allI impI)
  fix m b assume "tab_mar ms m = Some b"
  then obtain i where i: "i < length ms" "ms ! i = m" "b = [of_nat i]"
    by (auto simp: tab_mar_def find_Some_iff)
  have "unat (of_nat i :: 8 word) = i" using i(1) assms by (simp add: unat_of_nat take_bit_nat_eq_self)
  then show "tab_unm ms b = Some m \<and> length b < 2 ^ 32" using i by (simp add: tab_unm_def)
qed

end
