(* ===== verification/AgentDefs.thy ===== *)
theory AgentDefs
  imports Ssproto
begin

text \<open>
  The data of \<^verbatim>\<open>src/agent/define.go\<close> and \<^verbatim>\<open>src/agent/options.go\<close>: constants, addresses,
  options, the configuration and its check, the messages of the receive queue and the events
  of the event queue. Names and values are those of the source.
\<close>

definition INVALID_ROUTER_ID :: u64 where [simp]: "INVALID_ROUTER_ID = 0"
definition INVALID_SERVICE_HANDLE :: u64 where [simp]: "INVALID_SERVICE_HANDLE = 0"
definition INVALID_CONSISTENT_HASH_KEY :: u64 where [simp]: "INVALID_CONSISTENT_HASH_KEY = 0"
definition AVERAGE_RTT_SAMPLING_NUM :: nat where [simp]: "AVERAGE_RTT_SAMPLING_NUM = 5"

definition KElectionRunForLeader :: int where [simp]: "KElectionRunForLeader = 1001"
definition KElectionGiveUpLeader :: int where [simp]: "KElectionGiveUpLeader = 1002"
definition KElectionResultOK :: int where [simp]: "KElectionResultOK = 0"
definition KElectionResultRunForFail :: int where [simp]: "KElectionResultRunForFail = -1001"
definition KElectionResultAlreadyLeader :: int where [simp]: "KElectionResultAlreadyLeader = -1002"
definition KElectionResultQuitCandidate :: int where [simp]: "KElectionResultQuitCandidate = -1003"

datatype LeaderChangeEvent = KGotElectionLeader | KLostElectionLeader

fun LeaderChangeEvent_String :: "LeaderChangeEvent \<Rightarrow> string" where
  "LeaderChangeEvent_String KGotElectionLeader = ''GotLeader''"
| "LeaderChangeEvent_String KLostElectionLeader = ''LostLeader''"

datatype AgentRouterState = NameRouterSwitching | NameRouterReady

definition KNotifyAgentPrepare :: int where [simp]: "KNotifyAgentPrepare = 1"
definition KReplyNSPrepareOK :: int where [simp]: "KReplyNSPrepareOK = 2"
definition KReplyNSPrepareError :: int where [simp]: "KReplyNSPrepareError = 3"
definition KNotifyAgentPrepareAbort :: int where [simp]: "KNotifyAgentPrepareAbort = 4"
definition KNotifyAgentCommit :: int where [simp]: "KNotifyAgentCommit = 5"

datatype ServiceStateType = KStatefulService | KStatelessService | KUnknowStateService

section \<open>Addresses and options\<close>

record Addr =
  ServiceName :: string
  ServiceId :: u64
  AddrHandle :: u64

record ServiceOptions =
  ConsistentHashKey :: u64

type_synonym RegisterOption = "ServiceOptions \<Rightarrow> ServiceOptions"

definition WithConsistentHashKey :: "u64 \<Rightarrow> RegisterOption" where
  "WithConsistentHashKey key = (\<lambda>ro. ro\<lparr>ConsistentHashKey := key\<rparr>)"

definition defaultRegisterOptions :: ServiceOptions where
  "defaultRegisterOptions = \<lparr>ConsistentHashKey = INVALID_CONSISTENT_HASH_KEY\<rparr>"

definition GetServiceStateType :: "ServiceOptions \<Rightarrow> ServiceStateType" where
  "GetServiceStateType sopts =
     (if ConsistentHashKey sopts \<noteq> INVALID_CONSISTENT_HASH_KEY then KStatefulService
      else KStatelessService)"

text \<open>Conversions between addresses and their wire form, as written in every sender and receiver.\<close>

definition pbOfAddr :: "Addr \<Rightarrow> PbServiceInfo" where
  "pbOfAddr a = PbServiceInfo (ServiceName a) (ServiceId a) (AddrHandle a)"

definition addrOfPb :: "PbServiceInfo \<Rightarrow> Addr" where
  "addrOfPb p = \<lparr>ServiceName = pbServiceName p, ServiceId = pbServiceId p, AddrHandle = pbAddrHandle p\<rparr>"

definition pbOfOpts :: "ServiceOptions \<Rightarrow> PbServiceOptions" where
  "pbOfOpts opts = PbServiceOptions (ConsistentHashKey opts)"

definition optsOfPb :: "PbServiceOptions \<Rightarrow> ServiceOptions" where
  "optsOfPb p = \<lparr>ConsistentHashKey = pbConsistentHashKey p\<rparr>"

lemma addrOfPb_pbOfAddr [simp]: "addrOfPb (pbOfAddr a) = a"
  by (simp add: addrOfPb_def pbOfAddr_def)

lemma optsOfPb_pbOfOpts [simp]: "optsOfPb (pbOfOpts opts) = opts"
  by (simp add: optsOfPb_def pbOfOpts_def)

section \<open>Configuration\<close>

record AgentConfig =
  NameserverAddress :: string
  MeshserverAddress :: string
  RecvQueueSize :: int
  ServiceQueueSize :: int
  EventQueueSize :: int
  ServicePingInterval :: int
  ServiceKeepAliveInterval :: int

definition CheckConfig :: "AgentConfig \<Rightarrow> string + AgentConfig" where
  "CheckConfig c =
     (if length (NameserverAddress c) < 3 then Inl (''err nameserver address: '' @ NameserverAddress c)
      else if length (MeshserverAddress c) < 3 then Inl (''err meshserver address: '' @ MeshserverAddress c)
      else
        let c = (if RecvQueueSize c \<le> 0 then c\<lparr>RecvQueueSize := 1000\<rparr> else c);
            c = (if ServiceQueueSize c \<le> 0 then c\<lparr>ServiceQueueSize := 5000\<rparr> else c);
            c = (if EventQueueSize c \<le> 0 then c\<lparr>EventQueueSize := 2000\<rparr> else c);
            c = (if ServicePingInterval c \<le> 0 then c\<lparr>ServicePingInterval := 5\<rparr> else c);
            c = (if ServiceKeepAliveInterval c \<le> 0 then c\<lparr>ServiceKeepAliveInterval := 5\<rparr> else c)
        in Inr c)"

section \<open>Messages of the receive queue and events of the event queue\<close>

datatype Message =
    DataMessage Addr u64 bytes
  | PingMessage string u64 u64
  | RegisterMessage int u64

fun GetMessageType :: "Message \<Rightarrow> nat" where
  "GetMessageType (DataMessage srcAddr dstHandle data) = 1"
| "GetMessageType (PingMessage srcServerAddr seq dstHandle) = 2"
| "GetMessageType (RegisterMessage result svcHandle) = 3"

fun GetDstHandle :: "Message \<Rightarrow> u64" where
  "GetDstHandle (DataMessage srcAddr dstHandle data) = dstHandle"
| "GetDstHandle (PingMessage srcServerAddr seq dstHandle) = dstHandle"
| "GetDstHandle (RegisterMessage result svcHandle) = svcHandle"

text \<open>
  A value of type \<^verbatim>\<open>interface{}\<close>: the framework never inspects it; an application of the repository
  stores an \<^verbatim>\<open>int\<close> and asserts its type. Everything else is an opaque token.
\<close>

datatype GoAny = GoInt int | GoAny nat

type_synonym ServiceAttr = "(string, GoAny) gomap"

datatype AgentEvent =
    OnlineEvent Addr string bool ServiceOptions
  | RegAppEvent "Addr list" int
  | RegServiceEvent u64 int
  | SyncAttrEvent Addr ServiceAttr
  | ElectionEvent Addr int int
  | KickOffEvent u64
  | RouterUpdateEvent string int

end
