(* ===== verification/NsDefs.thy ===== *)
theory NsDefs
  imports AgentDefs
begin

text \<open>
  The state of the name server (\<^verbatim>\<open>src/nameserver/define.go\<close>, \<^verbatim>\<open>server.go\<close>,
  \<^verbatim>\<open>app.go\<close>, \<^verbatim>\<open>router.go\<close>, \<^verbatim>\<open>receiver.go\<close>): sessions, services, applications,
  name routers, and the operations that send to an agent.

  \<^verbatim>\<open>ServiceInfo\<close> objects are shared by pointer between \<open>handleServices\<close>, the LRU list,
  the candidates and the leaders, and their heartbeat time is mutable, so they live in an
  explicit memory \<open>s_mem\<close> under a reference \<open>sref\<close>. A service is pushed on the LRU list
  exactly once, so the \<^verbatim>\<open>*list.Element\<close> that carries it has the same reference. Memory is
  total because Go has no dangling pointers; \<open>s_next\<close> is the next free reference. The
  \<^verbatim>\<open>AppInfo\<close> objects are reached only through \<open>s_apps\<close>, so the key stands for the
  pointer; calling a method through an absent key is a nil dereference.
\<close>

type_synonym sref = nat
type_synonym connid = nat

datatype AppSession = AppSession (as_serverAddress: string) (as_appid: string)

record SessionMgr =
  sm_sessions :: "(AppSession, connid) gomap"

record ServiceInfo =
  si_serverAddr :: string
  si_appID :: string
  si_serviceAddr :: Addr
  si_lastRecvHbTime :: int
  si_serviceOpts :: ServiceOptions

abbreviation si_handle :: "ServiceInfo \<Rightarrow> u64" where
  "si_handle si \<equiv> AddrHandle (si_serviceAddr si)"

abbreviation si_name :: "ServiceInfo \<Rightarrow> string" where
  "si_name si \<equiv> ServiceName (si_serviceAddr si)"

datatype NsRouterState = Preparing | Ready

record NameRouter =
  nr_svcName :: string
  nr_routers :: "(AppSession, NsRouterState) gomap"
  nr_confirmDeadline :: int
  nr_onlineSvcHandle :: u64

record AppInfo =
  ai_appID :: string
  ai_services :: "(u64, sref) gomap"
  ai_svclruList :: "sref list"
  ai_electionCandidates :: "(string, (u64, sref) gomap) gomap"
  ai_electionLeaders :: "(string, sref option) gomap"
  ai_nameRouters :: "(string, NameRouter) gomap"

record NsConfig =
  ServerAddress :: string
  MsgQueueSize :: nat
  ServiceKeepaliveTime :: int
  ServerTickInterval :: int

datatype NsMsg =
    RegAppMsg string string
  | RegServiceMsg string string Addr ServiceOptions
  | UnRegServiceMsg u64
  | TickMsg
  | ServiceHeartbeat u64
  | ServiceSyncAttr u64 bytes
  | ServiceElection u64 int
  | RegisterNameRouter string string string
  | OtherMsg

datatype NsError =
    SessionNotFind | ReRegisterService | RegisterNotExistApp | UnregisterNotExistHandle
  | UnregisterNotExistApp | HeartbeatNotExistHandle | HeartbeatNotExistApp
  | SyncAttrNotExistHandle | SyncAttrNotExistApp | ElectionNotExistHandle | ElectionNotExistApp
  | NameRouterNotExistApp | AddNameRouterRepeat | RouterSessionNotFind | PbMarshalErr
  | RegisterLineup | UnknowMsgType

record NsReceiver =
  lr_serverAddress :: string
  lr_appid :: string
  lr_sender :: bool
  lr_sent :: "bytes list"

record NsServer =
  s_cfg :: NsConfig
  s_sess_mgr :: bool
  s_sm :: SessionMgr
  s_msg_queue :: "NsMsg list"
  s_handleServices :: "(u64, sref) gomap"
  s_apps :: "(string, AppInfo) gomap"
  s_quit :: bool
  s_mem :: "sref \<Rightarrow> ServiceInfo"
  s_next :: sref
  s_conns :: "connid \<Rightarrow> NsReceiver option"

definition CheckAliveMaxNumPerTickPerApp :: nat where
  "CheckAliveMaxNumPerTickPerApp = 200"

definition ConfirmExpiredSecond :: int where
  "ConfirmExpiredSecond = 5"

section \<open>Sessions\<close>

definition SessionMgr_Init :: SessionMgr where
  "SessionMgr_Init = \<lparr>sm_sessions = []\<rparr>"

definition SessionMgr_AddSession :: "SessionMgr \<Rightarrow> string \<Rightarrow> string \<Rightarrow> connid \<Rightarrow> SessionMgr" where
  "SessionMgr_AddSession sm serverAddress appid lr =
     sm\<lparr>sm_sessions := mput (AppSession serverAddress appid) lr (sm_sessions sm)\<rparr>"

definition SessionMgr_GetSession :: "SessionMgr \<Rightarrow> string \<Rightarrow> string \<Rightarrow> connid option" where
  "SessionMgr_GetSession sm serverAddress appid = mget (sm_sessions sm) (AppSession serverAddress appid)"

definition SessionMgr_RemoveSession :: "SessionMgr \<Rightarrow> string \<Rightarrow> string \<Rightarrow> SessionMgr" where
  "SessionMgr_RemoveSession sm serverAddress appid =
     sm\<lparr>sm_sessions := mdel (AppSession serverAddress appid) (sm_sessions sm)\<rparr>"

definition SessionMgr_Release :: "SessionMgr \<Rightarrow> SessionMgr" where
  "SessionMgr_Release sm = sm\<lparr>sm_sessions := []\<rparr>"

text \<open>The server's pointer to the session manager is nil once \<open>GracefulStop\<close> has run.\<close>

definition Server_GetSession :: "NsServer \<Rightarrow> string \<Rightarrow> string \<Rightarrow> connid option option" where
  "Server_GetSession s serverAddr appID =
     (if s_sess_mgr s then Some (SessionMgr_GetSession (s_sm s) serverAddr appID) else None)"

section \<open>Sending\<close>

definition NsReceiver_Send :: "NsServer \<Rightarrow> connid \<Rightarrow> bytes \<Rightarrow> NsServer" where
  "NsReceiver_Send s c b =
     (case s_conns s c of
        None \<Rightarrow> s
      | Some lr \<Rightarrow>
          if lr_sender lr then s\<lparr>s_conns := (s_conns s)(c \<mapsto> lr\<lparr>lr_sent := lr_sent lr @ [b]\<rparr>)\<rparr>
          else s)"

definition ServiceInfo_NotifyApp :: "NsServer \<Rightarrow> ServiceInfo \<Rightarrow> bytes \<Rightarrow> NsServer" where
  "ServiceInfo_NotifyApp s si b =
     (case SessionMgr_GetSession (s_sm s) (si_serverAddr si) (si_appID si) of
        None \<Rightarrow> s
      | Some lr \<Rightarrow> NsReceiver_Send s lr b)"

definition ServiceInfo_IsStateful :: "ServiceInfo \<Rightarrow> bool" where
  "ServiceInfo_IsStateful si = (GetServiceStateType (si_serviceOpts si) = KStatefulService)"

text \<open>\<open>lr := server.GetSession(...); if lr != nil \{ lr.Send(b) \}\<close>, the send of every broadcast.\<close>

definition sendToSession :: "string \<Rightarrow> bytes \<Rightarrow> string \<Rightarrow> NsServer \<Rightarrow> NsServer option" where
  "sendToSession appID b saddr s = do {
     lr \<leftarrow> Server_GetSession s saddr appID;
     case lr of None \<Rightarrow> Some s | Some c \<Rightarrow> Some (NsReceiver_Send s c b) }"

section \<open>Messages written by several handlers\<close>

definition msgRegisterServiceRsp :: "u64 \<Rightarrow> SSError \<Rightarrow> SSMsg" where
  "msgRegisterServiceRsp handle result =
     SSMsg RSP_REGISTER_SERVICE (Some (RegisterServiceRsp handle (SSError_value result)))"

definition msgServiceOnline :: "ServiceInfo \<Rightarrow> bool \<Rightarrow> SSMsg" where
  "msgServiceOnline si is_online =
     SSMsg NOTIFY_SERVICE_ONLINE
       (Some (NotifyServiceOnline (si_serverAddr si) (Some (pbOfAddr (si_serviceAddr si)))
          (Some (pbOfOpts (si_serviceOpts si))) is_online))"

definition msgElectionResult :: "ServiceInfo \<Rightarrow> int \<Rightarrow> int \<Rightarrow> SSMsg" where
  "msgElectionResult si event result =
     SSMsg NOTIFY_SERVICE_ELECTION_RESULT
       (Some (NotifyServiceElectionResult (Some (pbOfAddr (si_serviceAddr si))) event result))"

definition msgRouterUpdate :: "int \<Rightarrow> string \<Rightarrow> SSMsg" where
  "msgRouterUpdate cmd svcName =
     SSMsg REQ_AGENT_ROUTER_UPDATE (Some (AgentRouterUpdateReq cmd svcName))"

section \<open>Frame of the sending operations\<close>

text \<open>
  Sending changes nothing but the output of a connection. \<open>only_sends\<close> says so; every
  invariant of the directory state is stable under it.
\<close>

definition only_sends :: "NsServer \<Rightarrow> NsServer \<Rightarrow> bool" where
  "only_sends s t = (t = s\<lparr>s_conns := s_conns t\<rparr>)"

lemma only_sends_refl [simp, intro]: "only_sends s s"
  by (simp add: only_sends_def)

lemma only_sends_trans [trans]: "only_sends s t \<Longrightarrow> only_sends t u \<Longrightarrow> only_sends s u"
  unfolding only_sends_def by (metis NsServer.surjective NsServer.update_convs(10))

lemma only_sends_fields:
  assumes "only_sends s t"
  shows "s_cfg t = s_cfg s" "s_sess_mgr t = s_sess_mgr s" "s_sm t = s_sm s"
    "s_msg_queue t = s_msg_queue s" "s_handleServices t = s_handleServices s"
    "s_apps t = s_apps s" "s_quit t = s_quit s" "s_mem t = s_mem s" "s_next t = s_next s"
  using assms unfolding only_sends_def by (metis NsServer.select_convs NsServer.surjective NsServer.update_convs(10))+

lemma NsReceiver_Send_only_sends [simp, intro]: "only_sends s (NsReceiver_Send s c b)"
  by (auto simp: only_sends_def NsReceiver_Send_def split: option.splits)

lemma ServiceInfo_NotifyApp_only_sends [simp, intro]: "only_sends s (ServiceInfo_NotifyApp s si b)"
  by (auto simp: ServiceInfo_NotifyApp_def split: option.splits)

lemma sendToSession_only_sends: "sendToSession a b c s = Some t \<Longrightarrow> only_sends s t"
  by (auto simp: sendToSession_def split: Option.bind_splits option.splits)

lemma sendToSession_total: "s_sess_mgr s \<Longrightarrow> \<exists>t. sendToSession a b c s = Some t"
  by (auto simp: sendToSession_def Server_GetSession_def split: option.splits)

lemma rangeM_only_sends:
  assumes "\<And>x t t'. f x t = Some t' \<Longrightarrow> only_sends t t'" and "rangeM f xs s = Some s'"
  shows "only_sends s s'"
  by (rule rangeM_inv [where P = "only_sends s", OF assms(2)]) (auto intro: only_sends_trans assms(1))

lemma rangeM_sends_total:
  assumes "\<And>x t t'. f x t = Some t' \<Longrightarrow> only_sends t t'"
    and "\<And>x t. s_sess_mgr t \<Longrightarrow> \<exists>t'. f x t = Some t'" and "s_sess_mgr s"
  shows "\<exists>s'. rangeM f xs s = Some s'"
proof -
  have "\<exists>s'. rangeM f xs s = Some s' \<and> s_sess_mgr s'"
    by (rule rangeM_total) (use assms only_sends_fields(2) in metis)+
  then show ?thesis by blast
qed

end
