(* ===== verification/NsApp.thy ===== *)
theory NsApp
  imports NsDefs
begin

text \<open>
  \<^verbatim>\<open>src/nameserver/app.go\<close>, first half: the service table of an application with its LRU
  list, the broadcasts to the agents of the application and the confirmation of a
  registration.
\<close>

section \<open>The service table\<close>

definition AppInfo_Init :: "string \<Rightarrow> AppInfo" where
  "AppInfo_Init appid =
     \<lparr>ai_appID = appid, ai_services = [], ai_svclruList = [], ai_electionCandidates = [],
      ai_electionLeaders = [], ai_nameRouters = []\<rparr>"

definition AppInfo_AddItem :: "(sref \<Rightarrow> ServiceInfo) \<Rightarrow> AppInfo \<Rightarrow> sref \<Rightarrow> AppInfo" where
  "AppInfo_AddItem mem a si =
     a\<lparr>ai_services := mput (si_handle (mem si)) si (ai_services a),
       ai_svclruList := ai_svclruList a @ [si]\<rparr>"

definition AppInfo_GetItem :: "AppInfo \<Rightarrow> u64 \<Rightarrow> sref option" where
  "AppInfo_GetItem a handle = mget (ai_services a) handle"

definition AppInfo_RemoveItem :: "AppInfo \<Rightarrow> u64 \<Rightarrow> AppInfo" where
  "AppInfo_RemoveItem a handle =
     (case mget (ai_services a) handle of
        None \<Rightarrow> a
      | Some siItem \<Rightarrow>
          a\<lparr>ai_services := mdel handle (ai_services a),
            ai_svclruList := filter (\<lambda>r. r \<noteq> siItem) (ai_svclruList a)\<rparr>)"

definition AppInfo_Release :: "AppInfo \<Rightarrow> AppInfo" where
  "AppInfo_Release a =
     a\<lparr>ai_services := [], ai_electionCandidates := [], ai_electionLeaders := [],
       ai_svclruList := [], ai_nameRouters := []\<rparr>"

section \<open>Broadcasts\<close>

text \<open>
  The set \<open>notifys\<close> of agent addresses: those of the services of the application, less the
  process of the excluded service.
\<close>

definition Broadcast_notifys ::
  "(sref \<Rightarrow> ServiceInfo) \<Rightarrow> AppInfo \<Rightarrow> ServiceInfo option \<Rightarrow> string list" where
  "Broadcast_notifys mem a excludeSi =
     remdups (filter
       (\<lambda>saddr. case excludeSi of None \<Rightarrow> True | Some ex \<Rightarrow> saddr \<noteq> si_serverAddr ex)
       (map (\<lambda>siItem. si_serverAddr (mem siItem)) (mvals (ai_services a))))"

definition AppInfo_Broadcast ::
  "NsServer \<Rightarrow> AppInfo \<Rightarrow> ServiceInfo option \<Rightarrow> bytes \<Rightarrow> NsServer option" where
  "AppInfo_Broadcast s a excludeSi b =
     rangeM (sendToSession (ai_appID a) b) (Broadcast_notifys (s_mem s) a excludeSi) s"

definition AppInfo_BroadcastSyncServiceAttr ::
  "marshal \<Rightarrow> NsServer \<Rightarrow> AppInfo \<Rightarrow> ServiceInfo \<Rightarrow> bytes \<Rightarrow> NsServer option" where
  "AppInfo_BroadcastSyncServiceAttr mar s a si attrs =
     (let msg = SSMsg NOTIFY_SERVICE_SYNCATTR
                  (Some (NotifyServiceAttr (Some (pbOfAddr (si_serviceAddr si))) attrs)) in
      case PackSSMsg mar msg of
        None \<Rightarrow> Some s
      | Some b \<Rightarrow> AppInfo_Broadcast s a (Some si) b)"

definition AppInfo_BroadcastOnlineToOthers ::
  "marshal \<Rightarrow> NsServer \<Rightarrow> AppInfo \<Rightarrow> ServiceInfo \<Rightarrow> bool \<Rightarrow> NsServer option" where
  "AppInfo_BroadcastOnlineToOthers mar s a si is_online =
     (case PackSSMsg mar (msgServiceOnline si is_online) of
        None \<Rightarrow> Some s
      | Some b \<Rightarrow> AppInfo_Broadcast s a (Some si) b)"

definition AppInfo_NotifyOthersOnlineToSelf ::
  "marshal \<Rightarrow> NsServer \<Rightarrow> AppInfo \<Rightarrow> string \<Rightarrow> connid \<Rightarrow> NsServer" where
  "AppInfo_NotifyOthersOnlineToSelf mar s a serverAddr lr =
     fold (\<lambda>siItem s.
         let service = s_mem s siItem in
         if si_serverAddr service = serverAddr then s
         else case PackSSMsg mar (msgServiceOnline service True) of
             None \<Rightarrow> s
           | Some b \<Rightarrow> NsReceiver_Send s lr b)
       (mvals (ai_services a)) s"

definition AppInfo_NotifyConfirmResult ::
  "marshal \<Rightarrow> NsServer \<Rightarrow> AppInfo \<Rightarrow> u64 \<Rightarrow> SSError \<Rightarrow> NsServer option" where
  "AppInfo_NotifyConfirmResult mar s a handle result =
     (case AppInfo_GetItem a handle of
        None \<Rightarrow> Some s
      | Some siItem \<Rightarrow>
          (let si = s_mem s siItem in
           case PackSSMsg mar (msgRegisterServiceRsp (si_handle si) result) of
             None \<Rightarrow> Some s
           | Some b \<Rightarrow>
               (let s = ServiceInfo_NotifyApp s si b in
                if result = SSError_OK then AppInfo_BroadcastOnlineToOthers mar s a si True
                else Some s)))"

section \<open>Heartbeats\<close>

text \<open>
  \<^verbatim>\<open>container/list\<close>: \<open>MoveToBack\<close> does nothing for an element of another list.
\<close>

definition list_MoveToBack :: "'a \<Rightarrow> 'a list \<Rightarrow> 'a list" where
  "list_MoveToBack x xs = (if x \<in> set xs then remove1 x xs @ [x] else xs)"

definition AppInfo_OnServiceHeartbeat :: "int \<Rightarrow> NsServer \<Rightarrow> string \<Rightarrow> u64 \<Rightarrow> NsServer option" where
  "AppInfo_OnServiceHeartbeat now s app handle = do {
     a \<leftarrow> mget (s_apps s) app;
     case mget (ai_services a) handle of
       None \<Rightarrow> Some s
     | Some siItem \<Rightarrow>
         Some (s\<lparr>s_mem := (s_mem s)(siItem := (s_mem s siItem)\<lparr>si_lastRecvHbTime := now\<rparr>),
                 s_apps := mput app
                   (a\<lparr>ai_svclruList := list_MoveToBack siItem (ai_svclruList a)\<rparr>) (s_apps s)\<rparr>) }"

section \<open>Lemmas\<close>

lemma Broadcast_only_sends: "AppInfo_Broadcast s a ex b = Some t \<Longrightarrow> only_sends s t"
  unfolding AppInfo_Broadcast_def
  by (erule rangeM_only_sends [rotated]) (rule sendToSession_only_sends)

lemma Broadcast_total: "s_sess_mgr s \<Longrightarrow> \<exists>t. AppInfo_Broadcast s a ex b = Some t"
  unfolding AppInfo_Broadcast_def
  by (rule rangeM_sends_total) (auto intro: sendToSession_only_sends sendToSession_total)

lemma BroadcastOnline_only_sends:
  "AppInfo_BroadcastOnlineToOthers mar s a si o' = Some t \<Longrightarrow> only_sends s t"
  by (auto simp: AppInfo_BroadcastOnlineToOthers_def dest: Broadcast_only_sends split: option.splits)

lemma BroadcastOnline_total:
  "s_sess_mgr s \<Longrightarrow> \<exists>t. AppInfo_BroadcastOnlineToOthers mar s a si o' = Some t"
  by (auto simp: AppInfo_BroadcastOnlineToOthers_def intro: Broadcast_total split: option.splits)

lemma BroadcastSyncAttr_only_sends:
  "AppInfo_BroadcastSyncServiceAttr mar s a si d = Some t \<Longrightarrow> only_sends s t"
  by (auto simp: AppInfo_BroadcastSyncServiceAttr_def Let_def dest: Broadcast_only_sends
      split: option.splits)

lemma BroadcastSyncAttr_total:
  "s_sess_mgr s \<Longrightarrow> \<exists>t. AppInfo_BroadcastSyncServiceAttr mar s a si d = Some t"
  by (auto simp: AppInfo_BroadcastSyncServiceAttr_def Let_def intro: Broadcast_total split: option.splits)

lemma fold_only_sends:
  "(\<And>x t. only_sends t (f x t)) \<Longrightarrow> only_sends s (fold f xs s)"
  by (induction xs arbitrary: s) (auto intro: only_sends_trans)

lemma NotifyOthers_only_sends: "only_sends s (AppInfo_NotifyOthersOnlineToSelf mar s a addr lr)"
  unfolding AppInfo_NotifyOthersOnlineToSelf_def
  by (rule fold_only_sends) (auto simp: Let_def split: option.splits)

lemma NotifyConfirmResult_only_sends:
  "AppInfo_NotifyConfirmResult mar s a h r = Some t \<Longrightarrow> only_sends s t"
  by (auto simp: AppInfo_NotifyConfirmResult_def Let_def split: option.splits if_splits
      dest!: BroadcastOnline_only_sends intro: only_sends_trans [OF ServiceInfo_NotifyApp_only_sends])

lemma NotifyConfirmResult_total:
  "s_sess_mgr s \<Longrightarrow> \<exists>t. AppInfo_NotifyConfirmResult mar s a h r = Some t"
  by (auto simp: AppInfo_NotifyConfirmResult_def Let_def only_sends_fields [OF ServiceInfo_NotifyApp_only_sends]
      split: option.splits intro: BroadcastOnline_total)

lemma set_Broadcast_notifys:
  "set (Broadcast_notifys mem a ex) =
     {si_serverAddr (mem r) |r. r \<in> set (mvals (ai_services a)) \<and>
        (\<forall>e. ex = Some e \<longrightarrow> si_serverAddr (mem r) \<noteq> si_serverAddr e)}"
  by (auto simp: Broadcast_notifys_def split: option.splits)

subsection \<open>What a broadcast delivers\<close>

definition sent_to :: "NsServer \<Rightarrow> connid \<Rightarrow> bytes list" where
  "sent_to s c = (case s_conns s c of None \<Rightarrow> [] | Some lr \<Rightarrow> lr_sent lr)"

definition is_open :: "NsServer \<Rightarrow> connid \<Rightarrow> bool" where
  "is_open s c = (\<exists>lr. s_conns s c = Some lr \<and> lr_sender lr)"

lemma is_open_Send [simp]: "is_open (NsReceiver_Send s c b) d = is_open s d"
  by (auto simp: is_open_def NsReceiver_Send_def split: option.splits)

lemma sent_to_Send:
  "sent_to (NsReceiver_Send s c b) d =
     (if d = c \<and> is_open s c then sent_to s d @ [b] else sent_to s d)"
  by (auto simp: sent_to_def is_open_def NsReceiver_Send_def split: option.splits)

lemma sent_to_NotifyApp:
  "sent_to (ServiceInfo_NotifyApp s si b) d =
     (if SessionMgr_GetSession (s_sm s) (si_serverAddr si) (si_appID si) = Some d \<and> is_open s d
      then sent_to s d @ [b] else sent_to s d)"
  by (auto simp: ServiceInfo_NotifyApp_def sent_to_Send split: option.splits)

lemma rangeM_sendToSession:
  assumes "rangeM (sendToSession app b) xs s = Some t" and "s_sess_mgr s"
  shows "is_open t c = is_open s c \<and>
    sent_to t c = sent_to s c @ (if is_open s c
       then replicate (length (filter (\<lambda>a. SessionMgr_GetSession (s_sm s) a app = Some c) xs)) b else [])"
  using assms
proof (induction xs arbitrary: s)
  case (Cons x xs)
  from Cons.prems obtain u where u: "sendToSession app b x s = Some u"
    and r: "rangeM (sendToSession app b) xs u = Some t"
    by (auto split: Option.bind_splits)
  note f = only_sends_fields [OF sendToSession_only_sends [OF u]]
  have u': "u = (case SessionMgr_GetSession (s_sm s) x app of None \<Rightarrow> s | Some d \<Rightarrow> NsReceiver_Send s d b)"
    using u Cons.prems(2) by (auto simp: sendToSession_def Server_GetSession_def split: option.splits)
  have "is_open u c = is_open s c" by (simp add: u' split: option.split)
  moreover have "sent_to u c = sent_to s c @
      (if is_open s c \<and> SessionMgr_GetSession (s_sm s) x app = Some c then [b] else [])"
    by (auto simp: u' sent_to_Send split: option.split)
  ultimately show ?case using Cons.IH [OF r] f Cons.prems(2) by (auto simp: replicate_append_same [symmetric])
qed simp

text \<open>
  A broadcast reaches a connection once for every notified agent address whose session it is,
  and appends nothing else.
\<close>

lemma Broadcast_sent:
  assumes "AppInfo_Broadcast s a ex b = Some t" and "s_sess_mgr s"
  shows "sent_to t c = sent_to s c @ (if is_open s c then
      replicate (length (filter (\<lambda>x. SessionMgr_GetSession (s_sm s) x (ai_appID a) = Some c)
        (Broadcast_notifys (s_mem s) a ex))) b else [])"
  using rangeM_sendToSession [OF assms(1) [unfolded AppInfo_Broadcast_def] assms(2)] by blast

lemma length_filter_one:
  "distinct xs \<Longrightarrow> (\<And>y. P y \<longleftrightarrow> y = x) \<Longrightarrow> length (filter P xs) = (if x \<in> set xs then 1 else 0)"
proof (induction xs)
  case (Cons y ys)
  then show ?case by (cases "y = x") auto
qed simp

lemma Broadcast_once:
  assumes "s_sess_mgr s" "is_open s c"
    and "\<forall>y. SessionMgr_GetSession (s_sm s) y (ai_appID a) = Some c \<longleftrightarrow> y = x"
  shows "\<exists>t. AppInfo_Broadcast s a ex b = Some t \<and>
    sent_to t c = sent_to s c @
      (if (\<exists>r \<in> set (mvals (ai_services a)). si_serverAddr (s_mem s r) = x) \<and>
          (\<forall>e. ex = Some e \<longrightarrow> si_serverAddr e \<noteq> x) then [b] else [])"
proof -
  obtain t where t: "AppInfo_Broadcast s a ex b = Some t" using Broadcast_total [OF assms(1)] by blast
  have "distinct (Broadcast_notifys (s_mem s) a ex)" by (simp add: Broadcast_notifys_def)
  from length_filter_one [OF this, of "\<lambda>y. SessionMgr_GetSession (s_sm s) y (ai_appID a) = Some c" x] assms(3)
  have "length (filter (\<lambda>y. SessionMgr_GetSession (s_sm s) y (ai_appID a) = Some c) (Broadcast_notifys (s_mem s) a ex)) =
      (if x \<in> set (Broadcast_notifys (s_mem s) a ex) then 1 else 0)" by blast
  with Broadcast_sent [OF t assms(1), of c] assms(2) t show ?thesis
    by (intro exI [of _ t]) (auto simp: set_Broadcast_notifys)
qed

text \<open>
  A broadcast to an application returns, and the agent whose open connection is the session of
  one process address gets the frame exactly once when a service of the application runs in that
  process and the process is not the one of the excluded service, and nothing otherwise.
\<close>

theorem broadcast_delivery:
  assumes "s_sess_mgr s" "is_open s c"
    and "\<forall>y. SessionMgr_GetSession (s_sm s) y (ai_appID a) = Some c \<longleftrightarrow> y = x"
  shows "\<exists>t. AppInfo_Broadcast s a ex b = Some t \<and>
    sent_to t c = sent_to s c @
      (if (\<exists>r \<in> set (mvals (ai_services a)). si_serverAddr (s_mem s r) = x) \<and>
          (\<forall>e. ex = Some e \<longrightarrow> si_serverAddr e \<noteq> x) then [b] else [])"
  by (rule Broadcast_once [OF assms])

definition ex_cast :: NsServer where
  "ex_cast = \<lparr>s_cfg = \<lparr>ServerAddress = ''ns'', MsgQueueSize = 10, ServiceKeepaliveTime = 30, ServerTickInterval = 1\<rparr>,
     s_sess_mgr = True, s_sm = \<lparr>sm_sessions = [(AppSession ''h1'' ''app'', 4), (AppSession ''h2'' ''app'', 5)]\<rparr>,
     s_msg_queue = [], s_handleServices = [], s_apps = [], s_quit = False,
     s_mem = (\<lambda>r. \<lparr>si_serverAddr = (if r = 0 then ''h1'' else ''h2''), si_appID = ''app'',
        si_serviceAddr = \<lparr>ServiceName = ''svc'', ServiceId = of_nat r, AddrHandle = of_nat r\<rparr>,
        si_lastRecvHbTime = 0, si_serviceOpts = defaultRegisterOptions\<rparr>),
     s_next = 3, s_conns = (\<lambda>_. Some \<lparr>lr_serverAddress = [], lr_appid = [], lr_sender = True, lr_sent = []\<rparr>)\<rparr>"

theorem broadcast_delivery_witness:
  "\<exists>t. AppInfo_Broadcast ex_cast ((AppInfo_Init ''app'')\<lparr>ai_services := [(0, 0), (1, 1), (2, 2)]\<rparr>)
       (Some (s_mem ex_cast 0)) [7] = Some t \<and> sent_to t 5 = [[7]]"
  using broadcast_delivery [of ex_cast 5 "(AppInfo_Init ''app'')\<lparr>ai_services := [(0, 0), (1, 1), (2, 2)]\<rparr>" "''h2''"
      "Some (s_mem ex_cast 0)" "[7]"]
  by (simp add: ex_cast_def is_open_def sent_to_def SessionMgr_GetSession_def AppInfo_Init_def)

end
