(* ===== verification/NsElection.thy ===== *)
theory NsElection
  imports NsApp
begin

text \<open>
  \<^verbatim>\<open>src/nameserver/app.go\<close>, second half: leader election among the services of one name.
  The two handlers are split where the code first changes the tables and then notifies:
  \<open>RunForElection_update\<close> and \<open>GiveupElection_update\<close> are the table changes,
  \<open>AppInfo_OnServiceRunForElection\<close> and \<open>AppInfo_OnServiceGiveupElection\<close> the whole handlers.
\<close>

section \<open>Operations\<close>

definition leaderOf :: "AppInfo \<Rightarrow> string \<Rightarrow> sref option" where
  "leaderOf a n = (case mget (ai_electionLeaders a) n of Some (Some r) \<Rightarrow> Some r | _ \<Rightarrow> None)"

definition candOf :: "AppInfo \<Rightarrow> string \<Rightarrow> (u64, sref) gomap" where
  "candOf a n = (case mget (ai_electionCandidates a) n of None \<Rightarrow> [] | Some v \<Rightarrow> v)"

fun AppInfo_GetLeaders :: "(string, sref option) gomap \<Rightarrow> sref list option" where
  "AppInfo_GetLeaders [] = Some []"
| "AppInfo_GetLeaders ((n, siItem) # rest) = do {
     si \<leftarrow> siItem;
     leaders \<leftarrow> AppInfo_GetLeaders rest;
     Some (si # leaders) }"

definition RunForElection_update :: "(sref \<Rightarrow> ServiceInfo) \<Rightarrow> AppInfo \<Rightarrow> u64 \<Rightarrow> sref \<Rightarrow> AppInfo \<times> int" where
  "RunForElection_update mem a handle siItem =
     (let svcName = si_name (mem siItem);
          v = candOf a svcName;
          a = a\<lparr>ai_electionCandidates := mput svcName v (ai_electionCandidates a)\<rparr> in
      if mget v handle \<noteq> None then
        (case leaderOf a svcName of
           Some leader \<Rightarrow>
             (a, if si_handle (mem leader) = handle then KElectionResultAlreadyLeader
                 else KElectionResultRunForFail)
         | None \<Rightarrow> (a, KElectionResultRunForFail))
      else
        let a = a\<lparr>ai_electionCandidates := mput svcName (mput handle siItem v) (ai_electionCandidates a)\<rparr> in
        if leaderOf a svcName \<noteq> None then (a, KElectionResultRunForFail)
        else (a\<lparr>ai_electionLeaders := mput svcName (Some siItem) (ai_electionLeaders a)\<rparr>,
              KElectionResultOK))"

definition AppInfo_OnServiceRunForElection ::
  "marshal \<Rightarrow> NsServer \<Rightarrow> string \<Rightarrow> u64 \<Rightarrow> NsServer option" where
  "AppInfo_OnServiceRunForElection mar s app handle = do {
     a \<leftarrow> mget (s_apps s) app;
     siItem \<leftarrow> mget (ai_services a) handle;
     let si = s_mem s siItem;
     let (a, result) = RunForElection_update (s_mem s) a handle siItem;
     let s = s\<lparr>s_apps := mput app a (s_apps s)\<rparr>;
     case PackSSMsg mar (msgElectionResult si KElectionRunForLeader result) of
       None \<Rightarrow> Some s
     | Some b \<Rightarrow>
         if result = KElectionResultOK then AppInfo_Broadcast s a None b
         else sendToSession (ai_appID a) b (si_serverAddr si) s }"

text \<open>The re-election loop: the first candidate in iteration order with the newest heartbeat.\<close>

fun reelect :: "(sref \<Rightarrow> ServiceInfo) \<Rightarrow> sref list \<Rightarrow> sref option \<Rightarrow> sref option" where
  "reelect mem [] newLeader = newLeader"
| "reelect mem (item # items) None = reelect mem items (Some item)"
| "reelect mem (item # items) (Some newLeader) =
     reelect mem items
       (if si_lastRecvHbTime (mem item) > si_lastRecvHbTime (mem newLeader) then Some item
        else Some newLeader)"

datatype GiveupOutcome = NotCandidate | QuitCandidate | LeaderTo sref | LeaderGone

definition GiveupElection_update ::
  "(sref \<Rightarrow> ServiceInfo) \<Rightarrow> AppInfo \<Rightarrow> u64 \<Rightarrow> sref \<Rightarrow> AppInfo \<times> GiveupOutcome" where
  "GiveupElection_update mem a handle siItem =
     (let svcName = si_name (mem siItem) in
      if mget (candOf a svcName) handle = None then (a, NotCandidate)
      else
        let v = mdel handle (candOf a svcName);
            a = a\<lparr>ai_electionCandidates := mput svcName v (ai_electionCandidates a)\<rparr> in
        case leaderOf a svcName of
          None \<Rightarrow> (a, QuitCandidate)
        | Some leader \<Rightarrow>
            if si_handle (mem leader) \<noteq> handle then (a, QuitCandidate)
            else
              let a = a\<lparr>ai_electionLeaders := mdel svcName (ai_electionLeaders a)\<rparr> in
              case reelect mem (mvals v) None of
                Some newLeader \<Rightarrow>
                  (a\<lparr>ai_electionLeaders :=
                       mput svcName (mget (ai_services a) (si_handle (mem newLeader)))
                         (ai_electionLeaders a)\<rparr>, LeaderTo newLeader)
              | None \<Rightarrow> (a, LeaderGone))"

definition AppInfo_OnServiceGiveupElection ::
  "marshal \<Rightarrow> NsServer \<Rightarrow> string \<Rightarrow> u64 \<Rightarrow> NsServer option" where
  "AppInfo_OnServiceGiveupElection mar s app handle = do {
     a \<leftarrow> mget (s_apps s) app;
     siItem \<leftarrow> mget (ai_services a) handle;
     let si = s_mem s siItem;
     let (a, outcome) = GiveupElection_update (s_mem s) a handle siItem;
     let s = s\<lparr>s_apps := mput app a (s_apps s)\<rparr>;
     case outcome of
       NotCandidate \<Rightarrow> Some s
     | QuitCandidate \<Rightarrow>
         (case PackSSMsg mar (msgElectionResult si KElectionGiveUpLeader KElectionResultQuitCandidate) of
            None \<Rightarrow> Some s
          | Some b \<Rightarrow> sendToSession (ai_appID a) b (si_serverAddr si) s)
     | LeaderTo newLeader \<Rightarrow>
         (case PackSSMsg mar (msgElectionResult (s_mem s newLeader) KElectionRunForLeader KElectionResultOK) of
            None \<Rightarrow> Some s
          | Some b \<Rightarrow> AppInfo_Broadcast s a None b)
     | LeaderGone \<Rightarrow>
         (case PackSSMsg mar (msgElectionResult si KElectionGiveUpLeader KElectionResultOK) of
            None \<Rightarrow> Some s
          | Some b \<Rightarrow> AppInfo_Broadcast s a None b) }"

section \<open>Invariants of one application\<close>

definition services_ok :: "(sref \<Rightarrow> ServiceInfo) \<Rightarrow> AppInfo \<Rightarrow> bool" where
  "services_ok mem a \<longleftrightarrow>
     mwf (ai_services a) \<and> distinct (ai_svclruList a) \<and>
     set (ai_svclruList a) = set (mvals (ai_services a)) \<and>
     (\<forall>h r. mget (ai_services a) h = Some r \<longrightarrow> si_handle (mem r) = h \<and> si_appID (mem r) = ai_appID a)"

definition election_ok :: "(sref \<Rightarrow> ServiceInfo) \<Rightarrow> AppInfo \<Rightarrow> bool" where
  "election_ok mem a \<longleftrightarrow>
     mwf (ai_electionCandidates a) \<and> mwf (ai_electionLeaders a) \<and>
     (\<forall>n. mwf (candOf a n)) \<and>
     (\<forall>n h r. mget (candOf a n) h = Some r \<longrightarrow> mget (ai_services a) h = Some r \<and> si_name (mem r) = n) \<and>
     (\<forall>n x. mget (ai_electionLeaders a) n = Some x \<longrightarrow>
        (\<exists>r. x = Some r \<and> mget (candOf a n) (si_handle (mem r)) = Some r)) \<and>
     (\<forall>n. candOf a n \<noteq> [] \<longrightarrow> mget (ai_electionLeaders a) n \<noteq> None)"

lemma election_okI:
  assumes "mwf (ai_electionCandidates a)" "mwf (ai_electionLeaders a)" "\<And>n. mwf (candOf a n)"
    and "\<And>n h r. mget (candOf a n) h = Some r \<Longrightarrow> mget (ai_services a) h = Some r \<and> si_name (mem r) = n"
    and "\<And>n x. mget (ai_electionLeaders a) n = Some x \<Longrightarrow>
        (\<exists>r. x = Some r \<and> mget (candOf a n) (si_handle (mem r)) = Some r)"
    and "\<And>n. candOf a n \<noteq> [] \<Longrightarrow> mget (ai_electionLeaders a) n \<noteq> None"
  shows "election_ok mem a"
  using assms by (auto simp: election_ok_def)

lemma election_okD:
  assumes "election_ok mem a"
  shows "mwf (ai_electionCandidates a)" "mwf (ai_electionLeaders a)" "mwf (candOf a n)"
    and "mget (candOf a n) h = Some r \<Longrightarrow> mget (ai_services a) h = Some r \<and> si_name (mem r) = n"
    and "mget (ai_electionLeaders a) n = Some x \<Longrightarrow>
        (\<exists>r. x = Some r \<and> mget (candOf a n) (si_handle (mem r)) = Some r)"
    and "candOf a n \<noteq> [] \<Longrightarrow> mget (ai_electionLeaders a) n \<noteq> None"
  using assms unfolding election_ok_def by blast+

lemma leaderOf_iff:
  "election_ok mem a \<Longrightarrow> mget (ai_electionLeaders a) n = map_option Some (leaderOf a n)"
  using election_okD(5) [of mem a n] by (auto simp: leaderOf_def split: option.splits)

lemma leaderOf_Some: "leaderOf a n = Some r \<longleftrightarrow> mget (ai_electionLeaders a) n = Some (Some r)"
  by (auto simp: leaderOf_def split: option.splits)

lemma candOf_simps [simp]:
  "candOf (a\<lparr>ai_electionCandidates := mput n v cs\<rparr>) m =
     (if m = n then v else candOf (a\<lparr>ai_electionCandidates := cs\<rparr>) m)"
  "candOf (a\<lparr>ai_electionLeaders := x\<rparr>) m = candOf a m"
  "candOf (a\<lparr>ai_services := y\<rparr>) m = candOf a m"
  "candOf (a\<lparr>ai_svclruList := z\<rparr>) m = candOf a m"
  by (simp_all add: candOf_def)

lemma candOf_same [simp]: "candOf (a\<lparr>ai_electionCandidates := ai_electionCandidates a\<rparr>) m = candOf a m"
  by (simp add: candOf_def)

lemma leaderOf_simps [simp]:
  "leaderOf (a\<lparr>ai_electionCandidates := x\<rparr>) m = leaderOf a m"
  "leaderOf (a\<lparr>ai_services := y\<rparr>) m = leaderOf a m"
  "leaderOf (a\<lparr>ai_svclruList := z\<rparr>) m = leaderOf a m"
  by (simp_all add: leaderOf_def)

lemma GetLeaders_total:
  assumes "\<And>n x. (n, x) \<in> set m \<Longrightarrow> x \<noteq> None"
  shows "\<exists>rs. AppInfo_GetLeaders m = Some rs"
  using assms
proof (induction m)
  case (Cons p m)
  from Cons.prems have "\<exists>rs. AppInfo_GetLeaders m = Some rs"
    by (rule Cons.IH) (use Cons.prems in auto)
  moreover obtain n x where "p = (n, x)" by fastforce
  moreover from this Cons.prems have "x \<noteq> None" by auto
  ultimately show ?case by auto
qed simp

lemma reelect_in:
  "reelect mem xs best = Some r \<Longrightarrow> r \<in> set xs \<or> best = Some r"
  by (induction mem xs best rule: reelect.induct) (auto split: if_splits)

lemma reelect_None: "reelect mem xs best = None \<longleftrightarrow> xs = [] \<and> best = None"
  by (induction mem xs best rule: reelect.induct) auto

lemma reelect_max:
  "reelect mem xs best = Some r \<Longrightarrow>
     (\<forall>x \<in> set xs. si_lastRecvHbTime (mem x) \<le> si_lastRecvHbTime (mem r)) \<and>
     (\<forall>b. best = Some b \<longrightarrow> si_lastRecvHbTime (mem b) \<le> si_lastRecvHbTime (mem r))"
  by (induction mem xs best rule: reelect.induct) (force split: if_splits)+

section \<open>Preservation\<close>

lemma mput_nonempty [simp]: "mput k v m \<noteq> []"
  by (cases m) auto

lemma RunFor_services [simp]:
  "ai_services (fst (RunForElection_update mem a h r)) = ai_services a"
  "ai_svclruList (fst (RunForElection_update mem a h r)) = ai_svclruList a"
  "ai_appID (fst (RunForElection_update mem a h r)) = ai_appID a"
  "ai_nameRouters (fst (RunForElection_update mem a h r)) = ai_nameRouters a"
  by (simp_all add: RunForElection_update_def Let_def split: option.split)

lemma Giveup_services [simp]:
  "ai_services (fst (GiveupElection_update mem a h r)) = ai_services a"
  "ai_svclruList (fst (GiveupElection_update mem a h r)) = ai_svclruList a"
  "ai_appID (fst (GiveupElection_update mem a h r)) = ai_appID a"
  "ai_nameRouters (fst (GiveupElection_update mem a h r)) = ai_nameRouters a"
  by (simp_all add: GiveupElection_update_def Let_def split: option.split)

lemma services_ok_election_update:
  "services_ok mem a \<Longrightarrow> services_ok mem (fst (RunForElection_update mem a h r))"
  "services_ok mem a \<Longrightarrow> services_ok mem (fst (GiveupElection_update mem a h r))"
  by (simp_all add: services_ok_def)

lemma RunFor_candOf:
  "candOf (fst (RunForElection_update mem a h r)) n =
     (if n = si_name (mem r) \<and> mget (candOf a n) h = None then mput h r (candOf a n) else candOf a n)"
  by (auto simp: RunForElection_update_def Let_def split: option.split)

lemma RunFor_leaders:
  "mget (ai_electionLeaders (fst (RunForElection_update mem a h r))) n =
     (if n = si_name (mem r) \<and> mget (candOf a n) h = None \<and> leaderOf a n = None then Some (Some r)
      else mget (ai_electionLeaders a) n)"
  by (auto simp: RunForElection_update_def Let_def split: option.split)

lemma RunFor_election_ok:
  assumes ok: "election_ok mem a" and r: "mget (ai_services a) h = Some r" "si_handle (mem r) = h"
  shows "election_ok mem (fst (RunForElection_update mem a h r))" (is "election_ok mem ?a")
proof (rule election_okI)
  show "mwf (ai_electionCandidates ?a)" "mwf (ai_electionLeaders ?a)"
    using election_okD(1,2) [OF ok]
    by (auto simp: RunForElection_update_def Let_def split: option.split)
next
  fix n show "mwf (candOf ?a n)" using election_okD(3) [OF ok] by (simp add: RunFor_candOf)
next
  fix n h' r' assume "mget (candOf ?a n) h' = Some r'"
  then show "mget (ai_services ?a) h' = Some r' \<and> si_name (mem r') = n"
    using election_okD(4) [OF ok] r by (auto simp: RunFor_candOf split: if_splits)
next
  fix n x assume x: "mget (ai_electionLeaders ?a) n = Some x"
  show "\<exists>r'. x = Some r' \<and> mget (candOf ?a n) (si_handle (mem r')) = Some r'"
  proof (cases "n = si_name (mem r) \<and> mget (candOf a n) h = None \<and> leaderOf a n = None")
    case True
    with x have "x = Some r" by (auto simp: RunFor_leaders)
    with True r show ?thesis by (intro exI [of _ r]) (auto simp: RunFor_candOf)
  next
    case False
    with x have "mget (ai_electionLeaders a) n = Some x" by (simp add: RunFor_leaders)
    with election_okD(5) [OF ok this] show ?thesis by (auto simp: RunFor_candOf)
  qed
next
  fix n assume "candOf ?a n \<noteq> []"
  then show "mget (ai_electionLeaders ?a) n \<noteq> None"
    using election_okD(6) [OF ok, of n] leaderOf_iff [OF ok, of n]
    by (auto simp: RunFor_candOf RunFor_leaders split: if_splits)
qed

lemma Giveup_candOf:
  "candOf (fst (GiveupElection_update mem a h r)) n =
     (if n = si_name (mem r) \<and> mget (candOf a n) h \<noteq> None then mdel h (candOf a n) else candOf a n)"
  by (auto simp: GiveupElection_update_def Let_def split: option.split)

lemma Giveup_leaders:
  "mget (ai_electionLeaders (fst (GiveupElection_update mem a h r))) n =
     (if n = si_name (mem r) \<and> mget (candOf a n) h \<noteq> None \<and>
         (\<exists>l. leaderOf a n = Some l \<and> si_handle (mem l) = h)
      then map_option (\<lambda>l. mget (ai_services a) (si_handle (mem l)))
             (reelect mem (mvals (mdel h (candOf a n))) None)
      else mget (ai_electionLeaders a) n)"
  by (auto simp: GiveupElection_update_def Let_def split: option.split)

text \<open>A re-elected leader is one of the remaining candidates.\<close>

lemma reelect_candidate:
  assumes ok: "election_ok mem a" and so: "services_ok mem a"
    and "reelect mem (mvals (mdel h (candOf a n))) None = Some l"
  shows "mget (candOf a n) (si_handle (mem l)) = Some l" "si_handle (mem l) \<noteq> h"
    "mget (ai_services a) (si_handle (mem l)) = Some l"
proof -
  have "l \<in> set (mvals (mdel h (candOf a n)))" using reelect_in [OF assms(3)] by simp
  moreover have "mwf (mdel h (candOf a n))" using election_okD(3) [OF ok] by simp
  ultimately obtain k where "mget (mdel h (candOf a n)) k = Some l" using in_mvals_iff by fast
  then have k: "k \<noteq> h" "mget (candOf a n) k = Some l" by (auto split: if_splits)
  moreover from this election_okD(4) [OF ok] so have "si_handle (mem l) = k"
    by (auto simp: services_ok_def)
  ultimately show "mget (candOf a n) (si_handle (mem l)) = Some l" "si_handle (mem l) \<noteq> h"
    "mget (ai_services a) (si_handle (mem l)) = Some l"
    using election_okD(4) [OF ok] by auto
qed

lemma mdel_nonempty_D: "mdel h m \<noteq> [] \<Longrightarrow> mvals (mdel h m) \<noteq> [] \<and> m \<noteq> []"
  by (auto simp: mvals_def)

lemma Giveup_election_ok:
  assumes ok: "election_ok mem a" and so: "services_ok mem a"
  shows "election_ok mem (fst (GiveupElection_update mem a h r))" (is "election_ok mem ?a")
proof (rule election_okI)
  show "mwf (ai_electionCandidates ?a)" "mwf (ai_electionLeaders ?a)"
    using election_okD(1,2) [OF ok]
    by (auto simp: GiveupElection_update_def Let_def split: option.split)
next
  fix n show "mwf (candOf ?a n)" using election_okD(3) [OF ok] by (simp add: Giveup_candOf)
next
  fix n h' r' assume "mget (candOf ?a n) h' = Some r'"
  then show "mget (ai_services ?a) h' = Some r' \<and> si_name (mem r') = n"
    using election_okD(4) [OF ok] by (auto simp: Giveup_candOf split: if_splits)
next
  fix n x assume x: "mget (ai_electionLeaders ?a) n = Some x"
  show "\<exists>r'. x = Some r' \<and> mget (candOf ?a n) (si_handle (mem r')) = Some r'"
  proof (cases "n = si_name (mem r) \<and> mget (candOf a n) h \<noteq> None \<and>
         (\<exists>l. leaderOf a n = Some l \<and> si_handle (mem l) = h)")
    case True
    with x obtain l where l: "reelect mem (mvals (mdel h (candOf a n))) None = Some l"
      and "x = mget (ai_services a) (si_handle (mem l))" by (auto simp: Giveup_leaders)
    with True reelect_candidate [OF ok so l] show ?thesis by (auto simp: Giveup_candOf)
  next
    case False
    with x have *: "mget (ai_electionLeaders a) n = Some x" by (auto simp: Giveup_leaders split: if_splits)
    with False election_okD(5) [OF ok *] show ?thesis
      by (auto simp: Giveup_candOf leaderOf_Some split: if_splits)
  qed
next
  fix n assume ne: "candOf ?a n \<noteq> []"
  then have "candOf a n \<noteq> []" by (auto simp: Giveup_candOf split: if_splits)
  with election_okD(6) [OF ok, of n] ne show "mget (ai_electionLeaders ?a) n \<noteq> None"
    by (auto simp: Giveup_leaders Giveup_candOf reelect_None simp del: not_None_eq
        dest!: mdel_nonempty_D split: if_splits)
qed

lemma Giveup_not_candidate:
  assumes ok: "election_ok mem a" and r: "mget (ai_services a) h = Some r"
  shows "mget (candOf (fst (GiveupElection_update mem a h r)) n) h = None"
proof (cases "mget (candOf a n) h")
  case (Some r')
  with election_okD(4) [OF ok this] r show ?thesis by (simp add: Giveup_candOf)
qed (simp add: Giveup_candOf)

lemma RemoveItem_election_ok:
  assumes ok: "election_ok mem a" and nc: "\<And>n. mget (candOf a n) h = None"
  shows "election_ok mem (AppInfo_RemoveItem a h)"
proof (cases "mget (ai_services a) h")
  case (Some r)
  let ?a = "AppInfo_RemoveItem a h"
  have [simp]: "candOf ?a n = candOf a n" "ai_electionLeaders ?a = ai_electionLeaders a"
    "ai_electionCandidates ?a = ai_electionCandidates a" for n
    using Some by (simp_all add: AppInfo_RemoveItem_def candOf_def)
  show ?thesis
  proof (rule election_okI)
    fix n h' r' assume "mget (candOf ?a n) h' = Some r'"
    with nc have "h' \<noteq> h" by auto
    with election_okD(4) [OF ok, of n h' r'] \<open>mget (candOf ?a n) h' = Some r'\<close> Some
    show "mget (ai_services ?a) h' = Some r' \<and> si_name (mem r') = n"
      by (simp add: AppInfo_RemoveItem_def)
  qed (use election_okD [OF ok] in auto)
qed (simp add: AppInfo_RemoveItem_def ok)

lemma RemoveItem_services_ok:
  assumes "services_ok mem a" shows "services_ok mem (AppInfo_RemoveItem a h)"
proof (cases "mget (ai_services a) h")
  case (Some r)
  have "set (mvals (mdel h (ai_services a))) = set (mvals (ai_services a)) - {r}"
  proof -
    have wf: "mwf (ai_services a)" and hd: "\<And>h r. mget (ai_services a) h = Some r \<Longrightarrow> si_handle (mem r) = h"
      using assms by (auto simp: services_ok_def)
    have "x \<in> set (mvals (mdel h (ai_services a))) \<longleftrightarrow> x \<in> set (mvals (ai_services a)) \<and> x \<noteq> r" for x
    proof
      assume "x \<in> set (mvals (mdel h (ai_services a)))"
      then obtain k where "k \<noteq> h" "mget (ai_services a) k = Some x"
        using in_mvals_iff [OF mwf_mdel [OF wf]] by (fastforce split: if_splits)
      with hd Some show "x \<in> set (mvals (ai_services a)) \<and> x \<noteq> r"
        by (metis mget_mem_mvals)
    next
      assume "x \<in> set (mvals (ai_services a)) \<and> x \<noteq> r"
      then obtain k where "mget (ai_services a) k = Some x" "x \<noteq> r" using in_mvals_iff [OF wf] by fast
      with Some have "mget (mdel h (ai_services a)) k = Some x" by auto
      then show "x \<in> set (mvals (mdel h (ai_services a)))" by (rule mget_mem_mvals)
    qed
    then show ?thesis by auto
  qed
  with assms Some show ?thesis by (auto simp: AppInfo_RemoveItem_def services_ok_def)
qed (simp add: AppInfo_RemoveItem_def assms)

section \<open>The election contract\<close>

text \<open>
  What a service may rely on, for one service name: \<open>run\<close> enters a member into the election
  and reports the outcome, \<open>quit\<close> takes it out. The operations are those of the table; the
  contract names only handles, the leader and the set of candidates.
\<close>

datatype ElectionOp = Run (op_handle: u64) | Quit (op_handle: u64)

locale leader_election =
  fixes run :: "u64 \<Rightarrow> 'e \<Rightarrow> 'e \<times> int" and quit :: "u64 \<Rightarrow> 'e \<Rightarrow> 'e"
    and leader :: "'e \<Rightarrow> u64 option" and cands :: "'e \<Rightarrow> u64 set"
    and member :: "'e \<Rightarrow> u64 \<Rightarrow> bool" and invar :: "'e \<Rightarrow> bool"
  assumes invar_run: "invar e \<Longrightarrow> member e h \<Longrightarrow> invar (fst (run h e))"
    and invar_quit: "invar e \<Longrightarrow> member e h \<Longrightarrow> invar (quit h e)"
    and member_run: "member (fst (run h e)) k = member e k"
    and member_quit: "member (quit h e) k = member e k"
    and leader_cand: "invar e \<Longrightarrow> leader e = Some l \<Longrightarrow> l \<in> cands e"
    and led: "invar e \<Longrightarrow> cands e \<noteq> {} \<Longrightarrow> leader e \<noteq> None"
    and cands_run: "invar e \<Longrightarrow> member e h \<Longrightarrow> cands (fst (run h e)) = insert h (cands e)"
    and leader_run: "invar e \<Longrightarrow> member e h \<Longrightarrow>
      leader (fst (run h e)) = (case leader e of None \<Rightarrow> Some h | Some l \<Rightarrow> Some l)"
    and result_run: "invar e \<Longrightarrow> member e h \<Longrightarrow>
      snd (run h e) = (case leader e of None \<Rightarrow> KElectionResultOK
        | Some l \<Rightarrow> if l = h then KElectionResultAlreadyLeader else KElectionResultRunForFail)"
    and cands_quit: "invar e \<Longrightarrow> member e h \<Longrightarrow> cands (quit h e) = cands e - {h}"
    and leader_quit_other: "invar e \<Longrightarrow> member e h \<Longrightarrow> leader e \<noteq> Some h \<Longrightarrow> leader (quit h e) = leader e"
begin

primrec exec :: "ElectionOp list \<Rightarrow> 'e \<Rightarrow> 'e" where
  "exec [] e = e"
| "exec (op # ops) e = exec ops (case op of Run h \<Rightarrow> fst (run h e) | Quit h \<Rightarrow> quit h e)"

lemma member_exec [simp]: "member (exec ops e) k = member e k"
  by (induction ops arbitrary: e) (auto simp: member_run member_quit split: ElectionOp.split)

lemma exec_invar: "invar e \<Longrightarrow> (\<And>op. op \<in> set ops \<Longrightarrow> member e (op_handle op)) \<Longrightarrow> invar (exec ops e)"
proof (induction ops arbitrary: e)
  case (Cons op ops)
  have "invar (case op of Run h \<Rightarrow> fst (run h e) | Quit h \<Rightarrow> quit h e)"
    using Cons.prems(1) Cons.prems(2) [of op] by (cases op) (auto intro: invar_run invar_quit)
  then show ?case using Cons.prems(2)
    by (simp, intro Cons.IH) (auto simp: member_run member_quit split: ElectionOp.split)
qed simp

text \<open>A leader stays leader until it quits, whatever the others do.\<close>

lemma leader_stable:
  assumes "invar e" "leader e = Some l" "\<And>op. op \<in> set ops \<Longrightarrow> member e (op_handle op)"
    "Quit l \<notin> set ops"
  shows "leader (exec ops e) = Some l"
  using assms
proof (induction ops arbitrary: e)
  case (Cons op ops)
  let ?e = "case op of Run h \<Rightarrow> fst (run h e) | Quit h \<Rightarrow> quit h e"
  have m: "member e (op_handle op)" using Cons.prems(3) by simp
  have "leader ?e = Some l"
  proof (cases op)
    case (Run h) with m Cons.prems(1,2) show ?thesis by (simp add: leader_run)
  next
    case (Quit h) with m Cons.prems(1,2,4) show ?thesis by (simp add: leader_quit_other)
  qed
  moreover have "invar ?e" using m Cons.prems(1) by (cases op) (auto intro: invar_run invar_quit)
  moreover have "member ?e (op_handle op')" if "op' \<in> set ops" for op'
    using Cons.prems(3) [of op'] that by (cases op) (simp_all add: member_run member_quit)
  ultimately show ?case using Cons.prems(4) by (simp add: Cons.IH)
qed simp

text \<open>After any run of operations there is a leader exactly when there is a candidate.\<close>

lemma led_exec:
  assumes "invar e" "\<And>op. op \<in> set ops \<Longrightarrow> member e (op_handle op)"
  shows "leader (exec ops e) = None \<longleftrightarrow> cands (exec ops e) = {}"
  using exec_invar [OF assms] led leader_cand
  by (metis empty_iff not_Some_eq)

end

definition run_for :: "(sref \<Rightarrow> ServiceInfo) \<Rightarrow> u64 \<Rightarrow> AppInfo \<Rightarrow> AppInfo \<times> int" where
  "run_for mem h a = RunForElection_update mem a h (the (mget (ai_services a) h))"

definition give_up :: "(sref \<Rightarrow> ServiceInfo) \<Rightarrow> u64 \<Rightarrow> AppInfo \<Rightarrow> AppInfo" where
  "give_up mem h a = fst (GiveupElection_update mem a h (the (mget (ai_services a) h)))"

definition leader_handle :: "(sref \<Rightarrow> ServiceInfo) \<Rightarrow> string \<Rightarrow> AppInfo \<Rightarrow> u64 option" where
  "leader_handle mem n a = map_option (\<lambda>r. si_handle (mem r)) (leaderOf a n)"

definition cand_handles :: "string \<Rightarrow> AppInfo \<Rightarrow> u64 set" where
  "cand_handles n a = set (mkeys (candOf a n))"

definition registered_as :: "(sref \<Rightarrow> ServiceInfo) \<Rightarrow> string \<Rightarrow> AppInfo \<Rightarrow> u64 \<Rightarrow> bool" where
  "registered_as mem n a h = (\<exists>r. mget (ai_services a) h = Some r \<and> si_name (mem r) = n)"

definition app_election_ok :: "(sref \<Rightarrow> ServiceInfo) \<Rightarrow> AppInfo \<Rightarrow> bool" where
  "app_election_ok mem a = (services_ok mem a \<and> election_ok mem a)"

lemma cand_empty: "cand_handles n a = {} \<longleftrightarrow> candOf a n = []"
  by (simp add: cand_handles_def mkeys_def)

lemma leader_is_cand:
  "election_ok mem a \<Longrightarrow> leaderOf a n = Some r \<Longrightarrow> mget (candOf a n) (si_handle (mem r)) = Some r"
  using election_okD(5) [of mem a n "Some r"] by (auto simp: leaderOf_Some)

interpretation ns_election: leader_election "run_for mem" "give_up mem" "leader_handle mem n"
  "cand_handles n" "registered_as mem n" "app_election_ok mem" for mem n
proof unfold_locales
  fix e h assume inv: "app_election_ok mem e" and m: "registered_as mem n e h"
  obtain r where r: "mget (ai_services e) h = Some r" "si_name (mem r) = n" "si_handle (mem r) = h"
    using m inv by (auto simp: registered_as_def app_election_ok_def services_ok_def)
  have ok: "election_ok mem e" and so: "services_ok mem e" using inv by (auto simp: app_election_ok_def)
  show "app_election_ok mem (fst (run_for mem h e))"
    using RunFor_election_ok [OF ok r(1,3)] so r(1)
    by (simp add: app_election_ok_def run_for_def services_ok_election_update)
  show "app_election_ok mem (give_up mem h e)"
    using Giveup_election_ok [OF ok so] so
    by (simp add: app_election_ok_def give_up_def services_ok_election_update)
  show "cand_handles n (fst (run_for mem h e)) = insert h (cand_handles n e)"
    using r by (auto simp: cand_handles_def run_for_def RunFor_candOf in_mkeys_iff)
  show "cand_handles n (give_up mem h e) = cand_handles n e - {h}"
    using r by (auto simp: cand_handles_def give_up_def Giveup_candOf in_mkeys_iff)
  have lead: "leaderOf e n = None \<Longrightarrow> mget (candOf e n) h = None"
    using election_okD(6) [OF ok, of n] leaderOf_iff [OF ok, of n] by (cases "candOf e n = []") auto
  show "leader_handle mem n (fst (run_for mem h e)) =
      (case leader_handle mem n e of None \<Rightarrow> Some h | Some l \<Rightarrow> Some l)"
    using r lead leaderOf_iff [OF ok, of n]
    by (cases "leaderOf e n") (auto simp: leader_handle_def leaderOf_def [of "fst _"] run_for_def RunFor_leaders)
  show "snd (run_for mem h e) = (case leader_handle mem n e of None \<Rightarrow> KElectionResultOK
        | Some l \<Rightarrow> if l = h then KElectionResultAlreadyLeader else KElectionResultRunForFail)"
    using r lead leader_is_cand [OF ok, of n]
    by (auto simp: leader_handle_def run_for_def RunForElection_update_def Let_def split: option.split)
  show "leader_handle mem n (give_up mem h e) = leader_handle mem n e"
    if "leader_handle mem n e \<noteq> Some h"
    using that r leaderOf_iff [OF ok, of n]
    by (auto simp: leader_handle_def leaderOf_def [of "fst _"] give_up_def Giveup_leaders split: option.split)
next
  fix e l assume "app_election_ok mem e" "leader_handle mem n e = Some l"
  then show "l \<in> cand_handles n e"
    using leader_is_cand [of mem e n]
    by (auto simp: leader_handle_def cand_handles_def app_election_ok_def in_mkeys_iff)
next
  fix e assume "app_election_ok mem e" "cand_handles n e \<noteq> {}"
  then show "leader_handle mem n e \<noteq> None"
    using election_okD(6) [of mem e n] leaderOf_iff [of mem e n]
    by (auto simp: leader_handle_def cand_empty app_election_ok_def)
qed (simp_all add: registered_as_def run_for_def give_up_def)

section \<open>Properties\<close>

primrec election_run :: "(sref \<Rightarrow> ServiceInfo) \<Rightarrow> ElectionOp list \<Rightarrow> AppInfo \<Rightarrow> AppInfo" where
  "election_run mem [] a = a"
| "election_run mem (op # ops) a =
     election_run mem ops (case op of Run h \<Rightarrow> fst (run_for mem h a) | Quit h \<Rightarrow> give_up mem h a)"

lemma election_run_exec: "election_run mem ops a = ns_election.exec mem ops a"
  by (induction ops arbitrary: a) (simp_all split: ElectionOp.split)

text \<open>Two instances of one service, for the witnesses: references 0 and 1 under handles 10 and 11.\<close>

definition ex_mem :: "sref \<Rightarrow> ServiceInfo" where
  "ex_mem r = \<lparr>si_serverAddr = (if r = 0 then ''h1'' else ''h2''), si_appID = ''app'',
     si_serviceAddr = \<lparr>ServiceName = ''svc'', ServiceId = of_nat r, AddrHandle = (if r = 0 then 10 else 11)\<rparr>,
     si_lastRecvHbTime = 100 + int r, si_serviceOpts = defaultRegisterOptions\<rparr>"

definition ex_app :: AppInfo where
  "ex_app = (AppInfo_Init ''app'')\<lparr>ai_services := [(10, 0), (11, 1)], ai_svclruList := [0, 1]\<rparr>"

lemma ex_app_ok: "app_election_ok ex_mem ex_app"
  by (auto simp: app_election_ok_def services_ok_def election_ok_def ex_app_def ex_mem_def AppInfo_Init_def
      candOf_def mvals_def mwf_def mkeys_def split: if_splits)

lemma ex_app_registered: "registered_as ex_mem ''svc'' ex_app 10" "registered_as ex_mem ''svc'' ex_app 11"
  by (auto simp: registered_as_def ex_app_def ex_mem_def)

text \<open>
  C12: At most one leader at a time, and never a vacancy: after any sequence of candidacies and
  resignations of registered services, the name has a leader exactly when it has a candidate, and
  the leader is one of the candidates.
\<close>

theorem election_leader_iff_candidates:
  assumes "app_election_ok mem a" "\<forall>op \<in> set ops. registered_as mem n a (op_handle op)"
  shows "(leader_handle mem n (election_run mem ops a) = None \<longleftrightarrow> cand_handles n (election_run mem ops a) = {}) \<and>
    (\<forall>l. leader_handle mem n (election_run mem ops a) = Some l \<longrightarrow> l \<in> cand_handles n (election_run mem ops a))"
proof -
  have m: "op \<in> set ops \<Longrightarrow> registered_as mem n a (op_handle op)" for op using assms(2) by blast
  from ns_election.led_exec [OF assms(1) m] ns_election.leader_cand [OF ns_election.exec_invar [OF assms(1) m]]
  show ?thesis by (simp add: election_run_exec)
qed

theorem election_leader_iff_candidates_witness:
  "leader_handle ex_mem ''svc'' (election_run ex_mem [Run 11, Run 10, Quit 11] ex_app) = Some 10 \<and>
   10 \<in> cand_handles ''svc'' (election_run ex_mem [Run 11, Run 10, Quit 11] ex_app)"
  using election_leader_iff_candidates [OF ex_app_ok, of "[Run 11, Run 10, Quit 11]" "''svc''"] ex_app_registered
  by (simp add: leader_handle_def leaderOf_def run_for_def give_up_def RunForElection_update_def
      GiveupElection_update_def Let_def candOf_def ex_app_def ex_mem_def AppInfo_Init_def)

text \<open>
  Leadership is stable: a leader stays leader through any sequence of candidacies and resignations
  of the services of its name that does not contain its own resignation.
\<close>

theorem election_leader_stable:
  assumes "app_election_ok mem a" "\<forall>op \<in> set ops. registered_as mem n a (op_handle op)"
    and "leader_handle mem n a = Some l" "Quit l \<notin> set ops"
  shows "leader_handle mem n (election_run mem ops a) = Some l"
  using ns_election.leader_stable [OF assms(1,3) _ assms(4)] assms(2) by (simp add: election_run_exec)

definition ex_led :: AppInfo where
  "ex_led = election_run ex_mem [Run 11, Run 10] ex_app"

lemma ex_led_ok: "app_election_ok ex_mem ex_led" "registered_as ex_mem ''svc'' ex_led h = registered_as ex_mem ''svc'' ex_app h"
proof -
  have "registered_as ex_mem ''svc'' ex_app (op_handle op)" if "op \<in> set [Run 11, Run 10]" for op
    using that ex_app_registered by auto
  from ns_election.exec_invar [OF ex_app_ok this] ns_election.member_exec [of ex_mem "''svc''" "[Run 11, Run 10]" ex_app h]
  show "app_election_ok ex_mem ex_led" "registered_as ex_mem ''svc'' ex_led h = registered_as ex_mem ''svc'' ex_app h"
    unfolding ex_led_def election_run_exec by blast+
qed

lemma ex_led_leader: "leader_handle ex_mem ''svc'' ex_led = Some 11" "cand_handles ''svc'' ex_led = {11, 10}"
  by (simp_all add: ex_led_def leader_handle_def leaderOf_def run_for_def RunForElection_update_def
      Let_def cand_handles_def candOf_def ex_app_def ex_mem_def AppInfo_Init_def)

theorem election_leader_stable_witness:
  "leader_handle ex_mem ''svc'' (election_run ex_mem [Run 10, Quit 10, Run 11] ex_led) = Some 11"
  by (rule election_leader_stable) (simp_all add: ex_led_ok ex_led_leader ex_app_registered)

text \<open>
  C13: When the leader quits, the remaining candidate with the newest heartbeat takes over, and the
  name is left without a leader only when no candidate remains.
\<close>

theorem reelection_newest:
  assumes "app_election_ok mem a" "registered_as mem n a h" "leader_handle mem n a = Some h"
  shows "case leader_handle mem n (give_up mem h a) of
      None \<Rightarrow> cand_handles n a = {h}
    | Some l \<Rightarrow> l \<in> cand_handles n a - {h} \<and>
        (\<forall>k \<in> cand_handles n a - {h}. \<forall>rk rl. mget (candOf a n) k = Some rk \<and> mget (candOf a n) l = Some rl \<longrightarrow>
           si_lastRecvHbTime (mem rk) \<le> si_lastRecvHbTime (mem rl))"
proof -
  have ok: "election_ok mem a" and so: "services_ok mem a" using assms(1) by (auto simp: app_election_ok_def)
  obtain r where r: "mget (ai_services a) h = Some r" "si_name (mem r) = n"
    using assms(2) by (auto simp: registered_as_def)
  obtain l where l: "leaderOf a n = Some l" "si_handle (mem l) = h" using assms(3) by (auto simp: leader_handle_def)
  have c: "mget (candOf a n) h \<noteq> None" using leader_is_cand [OF ok l(1)] l(2) by simp
  have hc: "h \<in> cand_handles n a" using c by (auto simp: cand_handles_def in_mkeys_iff)
  let ?re = "reelect mem (mvals (mdel h (candOf a n))) None"
  have lead: "mget (ai_electionLeaders (give_up mem h a)) n =
      map_option (\<lambda>l. mget (ai_services a) (si_handle (mem l))) ?re"
    using r l c by (simp add: give_up_def Giveup_leaders)
  show ?thesis
  proof (cases ?re)
    case None
    then have "mdel h (candOf a n) = []" by (simp add: reelect_None mvals_def)
    then have "cand_handles n a - {h} = {}" using mkeys_mdel_set [of h "candOf a n"] by (simp add: cand_handles_def)
    then show ?thesis using hc lead None by (auto simp: leader_handle_def leaderOf_def)
  next
    case (Some m)
    note rc = reelect_candidate [OF ok so Some]
    have new: "leader_handle mem n (give_up mem h a) = Some (si_handle (mem m))"
      using lead Some rc(3) by (simp add: leader_handle_def leaderOf_def)
    have "si_lastRecvHbTime (mem rk) \<le> si_lastRecvHbTime (mem m)"
      if "k \<noteq> h" "mget (candOf a n) k = Some rk" for k rk
      using reelect_max [OF Some] mget_mem_mvals [of "mdel h (candOf a n)" k rk] that by simp
    then show ?thesis using new rc by (auto simp: cand_handles_def in_mkeys_iff)
  qed
qed

theorem reelection_newest_witness:
  "leader_handle ex_mem ''svc'' (give_up ex_mem 11 ex_led) = Some 10 \<and> 10 \<in> cand_handles ''svc'' ex_led - {11}"
proof -
  have "leader_handle ex_mem ''svc'' (give_up ex_mem 11 ex_led) \<noteq> Some 11"
    "leader_handle ex_mem ''svc'' (give_up ex_mem 11 ex_led) \<noteq> None"
    using reelection_newest [OF ex_led_ok(1), of "''svc''" 11]
    by (auto simp: ex_led_ok ex_app_registered ex_led_leader split: option.splits)
  then show ?thesis using reelection_newest [OF ex_led_ok(1), of "''svc''" 11]
    by (auto simp: ex_led_ok ex_app_registered ex_led_leader split: option.splits)
qed

end
