(* ===== verification/NsRouter.thy ===== *)
theory NsRouter
  imports NsApp
begin

text \<open>
  \<^verbatim>\<open>src/nameserver/router.go\<close> and the operations of \<^verbatim>\<open>app.go\<close> that use it: the two-stage
  confirmation of a stateful instance by the agents that route its service name. In stage one
  every router is told to prepare; the instance goes online when all have answered, and the
  routers are released when one refuses or the deadline passes.
\<close>

definition NameRouter_BroadcastCmd ::
  "marshal \<Rightarrow> NsServer \<Rightarrow> NameRouter \<Rightarrow> int \<Rightarrow> NsServer option" where
  "NameRouter_BroadcastCmd mar s nr cmd =
     (if cmd = KNotifyAgentCommit then Some s
      else rangeM
        (\<lambda>app s. do {
           lr \<leftarrow> Server_GetSession s (as_serverAddress app) (as_appid app);
           case lr of
             None \<Rightarrow> Some s
           | Some c \<Rightarrow>
               (case PackSSMsg mar (msgRouterUpdate cmd (nr_svcName nr)) of
                  None \<Rightarrow> Some s
                | Some b \<Rightarrow> Some (NsReceiver_Send s c b)) })
        (mkeys (nr_routers nr)) s)"

definition NameRouter_AddItem ::
  "marshal \<Rightarrow> NsServer \<Rightarrow> NameRouter \<Rightarrow> string \<Rightarrow> string \<Rightarrow> (NsServer \<times> NameRouter \<times> NsError option) option" where
  "NameRouter_AddItem mar s nr appID serverAddr =
     (let as = AppSession serverAddr appID in
      if mget (nr_routers nr) as \<noteq> None then Some (s, nr, Some AddNameRouterRepeat)
      else if nr_onlineSvcHandle nr \<noteq> INVALID_SERVICE_HANDLE then do {
        let nr = nr\<lparr>nr_routers := mput as Preparing (nr_routers nr)\<rparr>;
        lr \<leftarrow> Server_GetSession s serverAddr appID;
        case lr of
          None \<Rightarrow> Some (s, nr, Some RouterSessionNotFind)
        | Some c \<Rightarrow>
            (case PackSSMsg mar (msgRouterUpdate KNotifyAgentPrepare (nr_svcName nr)) of
               None \<Rightarrow> Some (s, nr, Some PbMarshalErr)
             | Some b \<Rightarrow> Some (NsReceiver_Send s c b, nr, None)) }
      else Some (s, nr\<lparr>nr_routers := mput as Ready (nr_routers nr)\<rparr>, None))"

definition NameRouter_StartConfirm ::
  "marshal \<Rightarrow> int \<Rightarrow> NsServer \<Rightarrow> AppInfo \<Rightarrow> NameRouter \<Rightarrow> ServiceInfo \<Rightarrow>
     (NsServer \<times> NameRouter \<times> NsError option) option" where
  "NameRouter_StartConfirm mar now s a nr si =
     (if nr_onlineSvcHandle nr \<noteq> INVALID_SERVICE_HANDLE then do {
        s \<leftarrow> AppInfo_NotifyConfirmResult mar s a (si_handle si) ERR_SERVICE_REGISTER_LINEUP;
        Some (s, nr, Some RegisterLineup) }
      else
        let nr = nr\<lparr>nr_routers := mmap (\<lambda>st. if st \<noteq> Ready then Ready else st) (nr_routers nr)\<rparr>;
            readyNum = length (nr_routers nr) in
        if readyNum = 0 then do {
          s \<leftarrow> AppInfo_NotifyConfirmResult mar s a (si_handle si) SSError_OK;
          Some (s, nr, None) }
        else do {
          let nr = nr\<lparr>nr_routers := mmap (\<lambda>_. Preparing) (nr_routers nr),
                      nr_confirmDeadline := now + ConfirmExpiredSecond,
                      nr_onlineSvcHandle := si_handle si\<rparr>;
          s \<leftarrow> NameRouter_BroadcastCmd mar s nr KNotifyAgentPrepare;
          Some (s, nr, None) })"

definition NameRouter_CommitConfirm ::
  "marshal \<Rightarrow> NsServer \<Rightarrow> AppInfo \<Rightarrow> NameRouter \<Rightarrow> int \<Rightarrow> SSError \<Rightarrow> (NsServer \<times> NameRouter) option" where
  "NameRouter_CommitConfirm mar s a nr cmd result =
     (if nr_onlineSvcHandle nr = INVALID_SERVICE_HANDLE then Some (s, nr)
      else do {
        s \<leftarrow> NameRouter_BroadcastCmd mar s nr cmd;
        s \<leftarrow> AppInfo_NotifyConfirmResult mar s a (nr_onlineSvcHandle nr) result;
        Some (s, nr\<lparr>nr_confirmDeadline := 0,
                    nr_onlineSvcHandle := INVALID_SERVICE_HANDLE,
                    nr_routers := mmap (\<lambda>st. if st \<noteq> Ready then Ready else st) (nr_routers nr)\<rparr>) })"

definition NameRouter_CheckConfirm ::
  "marshal \<Rightarrow> NsServer \<Rightarrow> AppInfo \<Rightarrow> NameRouter \<Rightarrow> string \<Rightarrow> int \<Rightarrow> (NsServer \<times> NameRouter) option" where
  "NameRouter_CheckConfirm mar s a nr serverAddr cmd =
     (let as = AppSession serverAddr (ai_appID a) in
      case mget (nr_routers nr) as of
        None \<Rightarrow> Some (s, nr)
      | Some st \<Rightarrow>
          if st \<noteq> Preparing then Some (s, nr)
          else if cmd = KReplyNSPrepareOK then
            (let nr = nr\<lparr>nr_routers := mput as Ready (nr_routers nr)\<rparr>;
                 allPrepared = list_all (\<lambda>st. st = Ready) (mvals (nr_routers nr)) in
             if allPrepared then NameRouter_CommitConfirm mar s a nr KNotifyAgentCommit SSError_OK
             else Some (s, nr))
          else if cmd = KReplyNSPrepareError then
            (let nr = nr\<lparr>nr_routers := mput as Ready (nr_routers nr)\<rparr> in
             NameRouter_CommitConfirm mar s a nr KNotifyAgentPrepareAbort ERR_ROUTER_PREPARE_ERR)
          else Some (s, nr))"

definition NameRouter_CheckExpired ::
  "marshal \<Rightarrow> int \<Rightarrow> NsServer \<Rightarrow> AppInfo \<Rightarrow> NameRouter \<Rightarrow> (NsServer \<times> NameRouter) option" where
  "NameRouter_CheckExpired mar now s a nr =
     (if nr_onlineSvcHandle nr = INVALID_SERVICE_HANDLE then Some (s, nr)
      else if nr_confirmDeadline nr > now then Some (s, nr)
      else NameRouter_CommitConfirm mar s a nr KNotifyAgentPrepareAbort ERR_ROUTER_PREPARE_TIMEOUT)"

section \<open>The operations of an application on its routers\<close>

definition AppInfo_AddNameRouter ::
  "marshal \<Rightarrow> NsServer \<Rightarrow> string \<Rightarrow> string \<Rightarrow> string \<Rightarrow> (NsServer \<times> NsError option) option" where
  "AppInfo_AddNameRouter mar s app serverAddr watchSvcName = do {
     a \<leftarrow> mget (s_apps s) app;
     let nr = (case mget (ai_nameRouters a) watchSvcName of
                 Some nr \<Rightarrow> nr
               | None \<Rightarrow> \<lparr>nr_svcName = watchSvcName, nr_routers = [], nr_confirmDeadline = 0,
                          nr_onlineSvcHandle = INVALID_SERVICE_HANDLE\<rparr>);
     (s, nr, err) \<leftarrow> NameRouter_AddItem mar s nr (ai_appID a) serverAddr;
     Some (s\<lparr>s_apps := mput app
               (a\<lparr>ai_nameRouters := mput watchSvcName nr (ai_nameRouters a)\<rparr>) (s_apps s)\<rparr>, err) }"

definition AppInfo_Start2StageConfirm ::
  "marshal \<Rightarrow> int \<Rightarrow> NsServer \<Rightarrow> string \<Rightarrow> ServiceInfo \<Rightarrow> NsServer option" where
  "AppInfo_Start2StageConfirm mar now s app si = do {
     a \<leftarrow> mget (s_apps s) app;
     let watchSvcName = si_name si;
     case mget (ai_nameRouters a) watchSvcName of
       None \<Rightarrow> AppInfo_NotifyConfirmResult mar s a (si_handle si) SSError_OK
     | Some nr \<Rightarrow> do {
         (s, nr, _) \<leftarrow> NameRouter_StartConfirm mar now s a nr si;
         Some (s\<lparr>s_apps := mput app
                   (a\<lparr>ai_nameRouters := mput watchSvcName nr (ai_nameRouters a)\<rparr>) (s_apps s)\<rparr>) } }"

definition AppInfo_checkConfirmExpired ::
  "marshal \<Rightarrow> int \<Rightarrow> NsServer \<Rightarrow> string \<Rightarrow> NsServer option" where
  "AppInfo_checkConfirmExpired mar now s app = do {
     a \<leftarrow> mget (s_apps s) app;
     rangeM
       (\<lambda>name s. do {
          a \<leftarrow> mget (s_apps s) app;
          nr \<leftarrow> mget (ai_nameRouters a) name;
          (s, nr) \<leftarrow> NameRouter_CheckExpired mar now s a nr;
          Some (s\<lparr>s_apps := mput app
                    (a\<lparr>ai_nameRouters := mput name nr (ai_nameRouters a)\<rparr>) (s_apps s)\<rparr>) })
       (mkeys (ai_nameRouters a)) s }"

section \<open>Frames and totality\<close>

lemma BroadcastCmd_only_sends: "NameRouter_BroadcastCmd mar s nr cmd = Some t \<Longrightarrow> only_sends s t"
  by (auto simp: NameRouter_BroadcastCmd_def split: if_splits
      elim!: rangeM_only_sends [rotated] split: Option.bind_splits option.splits)

lemma BroadcastCmd_total: "s_sess_mgr s \<Longrightarrow> \<exists>t. NameRouter_BroadcastCmd mar s nr cmd = Some t"
  unfolding NameRouter_BroadcastCmd_def
  by (simp, intro impI rangeM_sends_total)
     (auto simp: Server_GetSession_def split: Option.bind_splits option.splits if_splits)

lemma AddItem_only_sends: "NameRouter_AddItem mar s nr app sa = Some (t, nr', e) \<Longrightarrow> only_sends s t"
  by (auto simp: NameRouter_AddItem_def Let_def split: if_splits Option.bind_splits option.splits)

lemma AddItem_total: "s_sess_mgr s \<Longrightarrow> \<exists>t nr' e. NameRouter_AddItem mar s nr app sa = Some (t, nr', e)"
  by (auto simp: NameRouter_AddItem_def Let_def Server_GetSession_def split: option.splits)

lemma StartConfirm_only_sends:
  "NameRouter_StartConfirm mar now s a nr si = Some (t, nr', e) \<Longrightarrow> only_sends s t"
  by (auto simp: NameRouter_StartConfirm_def Let_def split: if_splits Option.bind_splits
      dest: NotifyConfirmResult_only_sends BroadcastCmd_only_sends)

lemma StartConfirm_total:
  assumes "s_sess_mgr s"
  shows "\<exists>t nr' e. NameRouter_StartConfirm mar now s a nr si = Some (t, nr', e)"
proof -
  obtain f where f: "\<And>h r. AppInfo_NotifyConfirmResult mar s a h r = Some (f h r)"
    using NotifyConfirmResult_total [OF assms] by metis
  obtain g where g: "\<And>nr c. NameRouter_BroadcastCmd mar s nr c = Some (g nr c)"
    using BroadcastCmd_total [OF assms] by metis
  show ?thesis by (simp add: NameRouter_StartConfirm_def Let_def f g)
qed

lemma CommitConfirm_only_sends:
  "NameRouter_CommitConfirm mar s a nr cmd res = Some (t, nr') \<Longrightarrow> only_sends s t"
  by (auto simp: NameRouter_CommitConfirm_def split: if_splits Option.bind_splits
      dest!: NotifyConfirmResult_only_sends BroadcastCmd_only_sends intro: only_sends_trans)

lemma CommitConfirm_total:
  assumes "s_sess_mgr s" shows "\<exists>t nr'. NameRouter_CommitConfirm mar s a nr cmd res = Some (t, nr')"
proof -
  obtain u where u: "NameRouter_BroadcastCmd mar s nr cmd = Some u" using BroadcastCmd_total [OF assms] by blast
  then have "s_sess_mgr u" using assms only_sends_fields(2) [OF BroadcastCmd_only_sends] by metis
  from NotifyConfirmResult_total [OF this] obtain v where
    "AppInfo_NotifyConfirmResult mar u a (nr_onlineSvcHandle nr) res = Some v" by blast
  with u show ?thesis by (simp add: NameRouter_CommitConfirm_def)
qed

lemma CheckExpired_only_sends:
  "NameRouter_CheckExpired mar now s a nr = Some (t, nr') \<Longrightarrow> only_sends s t"
  by (auto simp: NameRouter_CheckExpired_def split: if_splits dest: CommitConfirm_only_sends)

lemma CheckExpired_total:
  "s_sess_mgr s \<Longrightarrow> \<exists>t nr'. NameRouter_CheckExpired mar now s a nr = Some (t, nr')"
  by (auto simp: NameRouter_CheckExpired_def intro: CommitConfirm_total)

section \<open>Invariant of a router\<close>

text \<open>
  While no instance is waiting, every router is ready: the branch of \<open>StartConfirm\<close> that
  repairs a router which is not ready is never taken.
\<close>

definition router_ok :: "string \<Rightarrow> string \<Rightarrow> NameRouter \<Rightarrow> bool" where
  "router_ok app name nr \<longleftrightarrow>
     nr_svcName nr = name \<and> mwf (nr_routers nr) \<and>
     (\<forall>as \<in> set (mkeys (nr_routers nr)). as_appid as = app) \<and>
     (nr_onlineSvcHandle nr = INVALID_SERVICE_HANDLE \<longrightarrow>
        nr_confirmDeadline nr = 0 \<and> (\<forall>st \<in> set (mvals (nr_routers nr)). st = Ready))"

lemma mvals_mmap [simp]: "mvals (mmap f m) = map f (mvals m)"
  by (induction m) auto

lemma set_mvals_mput: "set (mvals (mput k v m)) \<subseteq> insert v (set (mvals m))"
  by (induction m) auto

lemma AddItem_router_ok:
  assumes "NameRouter_AddItem mar s nr app sa = Some (t, nr', e)" and "router_ok app name nr"
  shows "router_ok app name nr'"
  using assms set_mvals_mput
  by (fastforce simp: NameRouter_AddItem_def router_ok_def Let_def
      split: if_splits Option.bind_splits option.splits)

lemma StartConfirm_router_ok:
  assumes "NameRouter_StartConfirm mar now s a nr si = Some (t, nr', e)" and "router_ok app name nr"
    and "si_handle si \<noteq> INVALID_SERVICE_HANDLE"
  shows "router_ok app name nr'"
  using assms by (auto simp: NameRouter_StartConfirm_def router_ok_def Let_def
      split: if_splits Option.bind_splits)

lemma CommitConfirm_router_ok:
  assumes "NameRouter_CommitConfirm mar s a nr cmd res = Some (t, nr')" and "router_ok app name nr"
  shows "router_ok app name nr' \<and> nr_onlineSvcHandle nr' = INVALID_SERVICE_HANDLE"
  using assms by (auto simp: NameRouter_CommitConfirm_def router_ok_def Let_def
      split: if_splits Option.bind_splits)

lemma CheckExpired_router_ok:
  assumes "NameRouter_CheckExpired mar now s a nr = Some (t, nr')" and "router_ok app name nr"
  shows "router_ok app name nr'"
  using assms by (auto simp: NameRouter_CheckExpired_def split: if_splits dest: CommitConfirm_router_ok)

section \<open>Properties\<close>

text \<open>The answers of routers, handled one after the other.\<close>

fun router_replies ::
  "marshal \<Rightarrow> AppInfo \<Rightarrow> (string \<times> int) list \<Rightarrow> NsServer \<times> NameRouter \<Rightarrow> (NsServer \<times> NameRouter) option" where
  "router_replies mar a [] x = Some x"
| "router_replies mar a ((sa, cmd) # rs) (s, nr) =
     NameRouter_CheckConfirm mar s a nr sa cmd \<bind> router_replies mar a rs"

lemma router_replies_append:
  "router_replies mar a (xs @ ys) x = router_replies mar a xs x \<bind> router_replies mar a ys"
  by (induction mar a xs x rule: router_replies.induct) (auto split: Option.bind_splits)

definition answered :: "string \<Rightarrow> string list \<Rightarrow> (AppSession, NsRouterState) gomap \<Rightarrow> (AppSession, NsRouterState) gomap" where
  "answered app xs m = fold (\<lambda>x. mput (AppSession x app) Ready) xs m"

lemma mget_answered:
  "mget (answered app xs m) as =
     (if as_appid as = app \<and> as_serverAddress as \<in> set xs then Some Ready else mget m as)"
  by (induction xs arbitrary: m) (auto simp: answered_def)

lemma mwf_answered [simp]: "mwf m \<Longrightarrow> mwf (answered app xs m)"
  unfolding answered_def by (induction xs arbitrary: m) auto

text \<open>While a router is still preparing, an answer only marks its sender.\<close>

lemma replies_wait:
  assumes "mwf (nr_routers nr)" "distinct xs" "as_serverAddress as \<notin> set xs" "mget (nr_routers nr) as = Some Preparing"
    and "\<forall>x \<in> set xs. mget (nr_routers nr) (AppSession x (ai_appID a)) = Some Preparing"
  shows "router_replies mar a (map (\<lambda>x. (x, KReplyNSPrepareOK)) xs) (s, nr) =
    Some (s, nr\<lparr>nr_routers := answered (ai_appID a) xs (nr_routers nr)\<rparr>)"
  using assms
proof (induction xs arbitrary: nr)
  case (Cons x xs)
  let ?k = "AppSession x (ai_appID a)" and ?nr = "nr\<lparr>nr_routers := mput (AppSession x (ai_appID a)) Ready (nr_routers nr)\<rparr>"
  have ne: "as \<noteq> ?k" using Cons.prems(3) by auto
  have "Preparing \<in> set (mvals (nr_routers ?nr))"
    using mget_mem_mvals [of "nr_routers ?nr" as Preparing] Cons.prems(4) ne by simp
  then have "\<not> list_all (\<lambda>st. st = Ready) (mvals (nr_routers ?nr))" by (auto simp: list_all_iff)
  then have step: "NameRouter_CheckConfirm mar s a nr x KReplyNSPrepareOK = Some (s, ?nr)"
    using Cons.prems(5) by (simp add: NameRouter_CheckConfirm_def Let_def)
  have "router_replies mar a (map (\<lambda>x. (x, KReplyNSPrepareOK)) xs) (s, ?nr) =
      Some (s, ?nr\<lparr>nr_routers := answered (ai_appID a) xs (nr_routers ?nr)\<rparr>)"
    by (rule Cons.IH) (use Cons.prems ne in auto)
  then show ?case using step by (simp add: answered_def)
qed (simp add: answered_def)

lemma reply_last:
  assumes "s_sess_mgr s" "mget (nr_routers nr) (AppSession x (ai_appID a)) = Some Preparing"
    and "list_all (\<lambda>st. st = Ready) (mvals (mput (AppSession x (ai_appID a)) Ready (nr_routers nr)))"
    and "nr_onlineSvcHandle nr \<noteq> INVALID_SERVICE_HANDLE"
  shows "\<exists>t nr'. NameRouter_CheckConfirm mar s a nr x KReplyNSPrepareOK = Some (t, nr') \<and>
    nr_onlineSvcHandle nr' = INVALID_SERVICE_HANDLE"
proof -
  let ?nr = "nr\<lparr>nr_routers := mput (AppSession x (ai_appID a)) Ready (nr_routers nr)\<rparr>"
  obtain t nr' where t: "NameRouter_CommitConfirm mar s a ?nr KNotifyAgentCommit SSError_OK = Some (t, nr')"
    using CommitConfirm_total [OF assms(1)] by blast
  have "nr_onlineSvcHandle nr' = INVALID_SERVICE_HANDLE"
    using t by (auto simp: NameRouter_CommitConfirm_def split: if_splits Option.bind_splits)
  then show ?thesis using t assms(2,3) by (simp add: NameRouter_CheckConfirm_def Let_def)
qed

text \<open>
  Stage one is complete exactly when every router has agreed: when the routers of a waiting
  instance answer OK, each at most once and in any order, the confirmation ends with the last
  outstanding answer and not before, and until then nothing is sent.
\<close>

theorem confirm_needs_every_router:
  assumes "s_sess_mgr s" "router_ok (ai_appID a) name nr" "nr_onlineSvcHandle nr \<noteq> INVALID_SERVICE_HANDLE"
    and "nr_routers nr \<noteq> []" "\<forall>st \<in> set (mvals (nr_routers nr)). st = Preparing"
    and "distinct xs" "set xs \<subseteq> as_serverAddress ` set (mkeys (nr_routers nr))"
  shows "\<exists>t nr'. router_replies mar a (map (\<lambda>x. (x, KReplyNSPrepareOK)) xs) (s, nr) = Some (t, nr') \<and>
    (nr_onlineSvcHandle nr' = INVALID_SERVICE_HANDLE \<longleftrightarrow> set xs = as_serverAddress ` set (mkeys (nr_routers nr))) \<and>
    (set xs \<noteq> as_serverAddress ` set (mkeys (nr_routers nr)) \<longrightarrow> t = s)"
proof -
  let ?K = "as_serverAddress ` set (mkeys (nr_routers nr))"
  have wf: "mwf (nr_routers nr)" using assms(2) by (simp add: router_ok_def)
  have app: "as \<in> set (mkeys (nr_routers nr)) \<Longrightarrow> as_appid as = ai_appID a" for as
    using assms(2) by (auto simp: router_ok_def)
  have prep: "mget (nr_routers nr) (AppSession x (ai_appID a)) = Some Preparing" if x: "x \<in> ?K" for x
  proof -
    obtain as where as: "as \<in> set (mkeys (nr_routers nr))" "x = as_serverAddress as" using x by blast
    then have "as = AppSession x (ai_appID a)" using app by (metis AppSession.collapse)
    moreover obtain st where "mget (nr_routers nr) as = Some st" using as(1) by (auto simp: in_mkeys_iff)
    moreover from mget_mem_mvals [OF this] assms(5) have "st = Preparing" by blast
    ultimately show ?thesis by simp
  qed
  have wait: "router_replies mar a (map (\<lambda>x. (x, KReplyNSPrepareOK)) ys) (s, nr) =
      Some (s, nr\<lparr>nr_routers := answered (ai_appID a) ys (nr_routers nr)\<rparr>)"
    if "distinct ys" "set ys \<subseteq> ?K" "z \<in> ?K - set ys" for ys z
    by (rule replies_wait [where as = "AppSession z (ai_appID a)"]) (use that wf prep in auto)
  show ?thesis
  proof (cases "set xs = ?K")
    case False
    then obtain z where "z \<in> ?K - set xs" using assms(7) by blast
    from wait [OF assms(6,7) this] False assms(3) show ?thesis by simp
  next
    case True
    then obtain ys y where xs: "xs = ys @ [y]" using assms(4) by (cases xs rule: rev_cases) (auto simp: mkeys_def)
    let ?m = "answered (ai_appID a) ys (nr_routers nr)"
    have w: "router_replies mar a (map (\<lambda>x. (x, KReplyNSPrepareOK)) ys) (s, nr) = Some (s, nr\<lparr>nr_routers := ?m\<rparr>)"
      by (rule wait [of ys y]) (use xs assms(6,7) in auto)
    have "st = Ready" if st: "st \<in> set (mvals (mput (AppSession y (ai_appID a)) Ready ?m))" for st
    proof -
      have "mwf (mput (AppSession y (ai_appID a)) Ready ?m)" using wf by simp
      from st in_mvals_iff [OF this] obtain k where k: "mget (mput (AppSession y (ai_appID a)) Ready ?m) k = Some st" by auto
      show ?thesis
      proof (cases "k \<in> set (mkeys (nr_routers nr))")
        case in_keys: True
        with app have "as_appid k = ai_appID a" "as_serverAddress k \<in> set xs" using True by auto
        with k show ?thesis by (cases k) (auto simp: xs mget_answered split: if_splits)
      next
        case not_in: False
        then have "mget (nr_routers nr) k = None" by (simp add: mget_None_keys)
        with k show ?thesis by (auto simp: mget_answered split: if_splits)
      qed
    qed
    then have all: "list_all (\<lambda>st. st = Ready) (mvals (mput (AppSession y (ai_appID a)) Ready ?m))"
      by (simp add: list_all_iff)
    have "mget ?m (AppSession y (ai_appID a)) = Some Preparing"
      using prep [of y] True xs assms(6) by (auto simp: mget_answered)
    with reply_last [of s "nr\<lparr>nr_routers := ?m\<rparr>" y a mar] all assms(1,3)
    obtain t nr' where "NameRouter_CheckConfirm mar s a (nr\<lparr>nr_routers := ?m\<rparr>) y KReplyNSPrepareOK = Some (t, nr')"
      "nr_onlineSvcHandle nr' = INVALID_SERVICE_HANDLE" by auto
    then show ?thesis using w True by (auto simp: xs router_replies_append)
  qed
qed

definition ex_nr :: NameRouter where
  "ex_nr = \<lparr>nr_svcName = ''svc'', nr_routers = [(AppSession ''h1'' ''app'', Preparing), (AppSession ''h2'' ''app'', Preparing)],
     nr_confirmDeadline = 5, nr_onlineSvcHandle = 9\<rparr>"

lemma ex_nr_ok: "router_ok ''app'' ''svc'' ex_nr"
  by (simp add: router_ok_def ex_nr_def mwf_def INVALID_SERVICE_HANDLE_def)

theorem confirm_needs_every_router_witness:
  "\<exists>t nr'. router_replies (\<lambda>_. None) (AppInfo_Init ''app'')
       (map (\<lambda>x. (x, KReplyNSPrepareOK)) [''h2'', ''h1'']) (ex_cast, ex_nr) = Some (t, nr') \<and>
     nr_onlineSvcHandle nr' = INVALID_SERVICE_HANDLE"
proof -
  have "as_serverAddress ` set (mkeys (nr_routers ex_nr)) = set [''h2'', ''h1'']" by (auto simp: ex_nr_def)
  then show ?thesis
    using confirm_needs_every_router [of ex_cast "AppInfo_Init ''app''" "''svc''" ex_nr "[''h2'', ''h1'']" "\<lambda>_. None"] ex_nr_ok
    by (auto simp: ex_cast_def ex_nr_def AppInfo_Init_def INVALID_SERVICE_HANDLE_def)
qed

definition grows :: "connid \<Rightarrow> NsServer \<Rightarrow> NsServer \<Rightarrow> bool" where
  "grows c s t \<longleftrightarrow> is_open t c = is_open s c \<and> (\<exists>pre. sent_to t c = sent_to s c @ pre)"

lemma grows_Send: "grows c s t \<Longrightarrow> grows c s (NsReceiver_Send t d b)"
  by (auto simp: grows_def sent_to_Send)

lemma BroadcastCmd_grows: "NameRouter_BroadcastCmd mar s nr cmd = Some t \<Longrightarrow> grows c s t"
  unfolding NameRouter_BroadcastCmd_def
  by (auto split: if_splits elim!: rangeM_inv [where P = "grows c s"] intro: grows_Send
      split: Option.bind_splits option.splits) (simp_all add: grows_def)



end
