(* ===== verification/NsServer.thy ===== *)
theory NsServer
  imports NsElection NsRouter
begin

text \<open>
  \<^verbatim>\<open>src/nameserver/server.go\<close> with the tick of \<^verbatim>\<open>app.go\<close>: the handlers the serving
  goroutine runs, one per message of the queue. \<open>mar\<close> is the protobuf encoder and \<open>now\<close>
  the clock read by the handler, in seconds. A handler returns the new state and the Go
  error; \<open>None\<close> is a panic.
\<close>

definition Server_Init :: "NsConfig \<Rightarrow> ServiceInfo \<Rightarrow> NsServer" where
  "Server_Init cfg si0 =
     \<lparr>s_cfg = cfg, s_sess_mgr = True, s_sm = SessionMgr_Init, s_msg_queue = [],
      s_handleServices = [], s_apps = [], s_quit = False, s_mem = (\<lambda>_. si0), s_next = 0,
      s_conns = (\<lambda>_. None)\<rparr>"

definition Server_RegisterApp ::
  "marshal \<Rightarrow> NsServer \<Rightarrow> string \<Rightarrow> string \<Rightarrow> (NsServer \<times> NsError option) option" where
  "Server_RegisterApp mar s serverAddr appID = do {
     lr \<leftarrow> Server_GetSession s serverAddr appID;
     case lr of
       None \<Rightarrow> Some (s, Some SessionNotFind)
     | Some c \<Rightarrow> do {
         let app = (case mget (s_apps s) appID of Some app \<Rightarrow> app | None \<Rightarrow> AppInfo_Init appID);
         let s = s\<lparr>s_apps := mput appID app (s_apps s)\<rparr>;
         siLeaders \<leftarrow> AppInfo_GetLeaders (ai_electionLeaders app);
         let pbLeaders = map (\<lambda>si. pbOfAddr (si_serviceAddr (s_mem s si))) siLeaders;
         case PackSSMsg mar (SSMsg RSP_REGISTER_APP (Some (RegisterAppRsp pbLeaders (SSError_value SSError_OK)))) of
           None \<Rightarrow> Some (s, Some PbMarshalErr)
         | Some b \<Rightarrow>
             Some (AppInfo_NotifyOthersOnlineToSelf mar (NsReceiver_Send s c b) app serverAddr c, None) } }"

definition Server_RegisterService ::
  "marshal \<Rightarrow> int \<Rightarrow> NsServer \<Rightarrow> string \<Rightarrow> string \<Rightarrow> Addr \<Rightarrow> ServiceOptions \<Rightarrow>
     (NsServer \<times> NsError option) option" where
  "Server_RegisterService mar now s appID serverAddr serviceAddr serviceOpts =
     (if mget (s_handleServices s) (AddrHandle serviceAddr) \<noteq> None then Some (s, Some ReRegisterService)
      else case mget (s_apps s) appID of
        None \<Rightarrow> do {
          lr \<leftarrow> Server_GetSession s serverAddr appID;
          case lr of
            None \<Rightarrow> Some (s, Some RegisterNotExistApp)
          | Some c \<Rightarrow>
              (case PackSSMsg mar (msgRegisterServiceRsp (AddrHandle serviceAddr) ERR_APP_NOT_REGISTER) of
                 None \<Rightarrow> Some (s, Some RegisterNotExistApp)
               | Some b \<Rightarrow> Some (NsReceiver_Send s c b, Some RegisterNotExistApp)) }
      | Some app \<Rightarrow> do {
          let si = \<lparr>si_serverAddr = serverAddr, si_appID = appID, si_serviceAddr = serviceAddr,
                    si_lastRecvHbTime = now, si_serviceOpts = serviceOpts\<rparr>;
          let r = s_next s;
          let mem = (s_mem s)(r := si);
          let app = AppInfo_AddItem mem app r;
          let s = s\<lparr>s_mem := mem, s_next := Suc r,
                    s_handleServices := mput (AddrHandle serviceAddr) r (s_handleServices s),
                    s_apps := mput appID app (s_apps s)\<rparr>;
          s \<leftarrow> (if ServiceInfo_IsStateful si then AppInfo_Start2StageConfirm mar now s appID si
                else AppInfo_NotifyConfirmResult mar s app (AddrHandle serviceAddr) SSError_OK);
          Some (s, None) })"

definition Server_UnRegisterService ::
  "marshal \<Rightarrow> NsServer \<Rightarrow> u64 \<Rightarrow> bool \<Rightarrow> (NsServer \<times> NsError option) option" where
  "Server_UnRegisterService mar s addrHandle kickOff =
     (case mget (s_handleServices s) addrHandle of
        None \<Rightarrow> Some (s, Some UnregisterNotExistHandle)
      | Some r \<Rightarrow>
          (let si = s_mem s r in
           if mget (s_apps s) (si_appID si) = None then Some (s, Some UnregisterNotExistApp)
           else do {
             let s = s\<lparr>s_handleServices := mdel addrHandle (s_handleServices s)\<rparr>;
             s \<leftarrow> AppInfo_OnServiceGiveupElection mar s (si_appID si) addrHandle;
             app \<leftarrow> mget (s_apps s) (si_appID si);
             let app = AppInfo_RemoveItem app addrHandle;
             let s = s\<lparr>s_apps := mput (si_appID si) app (s_apps s)\<rparr>;
             s \<leftarrow> AppInfo_BroadcastOnlineToOthers mar s app si False;
             if kickOff then
               (case PackSSMsg mar (SSMsg NOTIFY_SERVICE_KICK_OFF (Some (NotifyServiceKickoff addrHandle))) of
                  None \<Rightarrow> Some (s, None)
                | Some b \<Rightarrow> Some (ServiceInfo_NotifyApp s si b, None))
             else Some (s, None) }))"

definition Server_OnServiceHeartbeat ::
  "int \<Rightarrow> NsServer \<Rightarrow> u64 \<Rightarrow> (NsServer \<times> NsError option) option" where
  "Server_OnServiceHeartbeat now s addrHandle =
     (case mget (s_handleServices s) addrHandle of
        None \<Rightarrow> Some (s, Some HeartbeatNotExistHandle)
      | Some r \<Rightarrow>
          (let si = s_mem s r in
           if mget (s_apps s) (si_appID si) = None then Some (s, Some HeartbeatNotExistApp)
           else do {
             s \<leftarrow> AppInfo_OnServiceHeartbeat now s (si_appID si) addrHandle;
             Some (s, None) }))"

definition Server_OnServiceSyncAttr ::
  "marshal \<Rightarrow> NsServer \<Rightarrow> u64 \<Rightarrow> bytes \<Rightarrow> (NsServer \<times> NsError option) option" where
  "Server_OnServiceSyncAttr mar s addrHandle attrs =
     (case mget (s_handleServices s) addrHandle of
        None \<Rightarrow> Some (s, Some SyncAttrNotExistHandle)
      | Some r \<Rightarrow>
          (let si = s_mem s r in
           case mget (s_apps s) (si_appID si) of
             None \<Rightarrow> Some (s, Some SyncAttrNotExistApp)
           | Some app \<Rightarrow> do {
               s \<leftarrow> AppInfo_BroadcastSyncServiceAttr mar s app si attrs;
               Some (s, None) }))"

definition Server_OnServiceElectionEvent ::
  "marshal \<Rightarrow> NsServer \<Rightarrow> u64 \<Rightarrow> int \<Rightarrow> (NsServer \<times> NsError option) option" where
  "Server_OnServiceElectionEvent mar s addrHandle event =
     (case mget (s_handleServices s) addrHandle of
        None \<Rightarrow> Some (s, Some ElectionNotExistHandle)
      | Some r \<Rightarrow>
          (let si = s_mem s r in
           if mget (s_apps s) (si_appID si) = None then Some (s, Some ElectionNotExistApp)
           else do {
             s \<leftarrow> (if event = KElectionRunForLeader then
                     AppInfo_OnServiceRunForElection mar s (si_appID si) addrHandle
                   else if event = KElectionGiveUpLeader then
                     AppInfo_OnServiceGiveupElection mar s (si_appID si) addrHandle
                   else Some s);
             Some (s, None) }))"

definition Server_OnRegisterNameRouter ::
  "marshal \<Rightarrow> NsServer \<Rightarrow> string \<Rightarrow> string \<Rightarrow> string \<Rightarrow> (NsServer \<times> NsError option) option" where
  "Server_OnRegisterNameRouter mar s appID serverAddr watchSvcName =
     (if mget (s_apps s) appID = None then Some (s, Some NameRouterNotExistApp)
      else AppInfo_AddNameRouter mar s appID serverAddr watchSvcName)"

section \<open>The tick\<close>

text \<open>The loop of \<open>checkServiceAlive\<close> over the LRU list, from the front; \<open>num\<close> counts the array.\<close>

fun expired_loop :: "(sref \<Rightarrow> ServiceInfo) \<Rightarrow> int \<Rightarrow> int \<Rightarrow> nat \<Rightarrow> sref list \<Rightarrow> u64 list" where
  "expired_loop mem keepalive now num [] = []"
| "expired_loop mem keepalive now num (siItem # items) =
     (if num < CheckAliveMaxNumPerTickPerApp then
        (if si_lastRecvHbTime (mem siItem) + keepalive \<le> now
         then si_handle (mem siItem) # expired_loop mem keepalive now (Suc num) items
         else [])
      else [])"

definition AppInfo_checkServiceAlive :: "marshal \<Rightarrow> int \<Rightarrow> NsServer \<Rightarrow> string \<Rightarrow> NsServer option" where
  "AppInfo_checkServiceAlive mar now s app = do {
     a \<leftarrow> mget (s_apps s) app;
     rangeM (\<lambda>h s. map_option fst (Server_UnRegisterService mar s h True))
       (expired_loop (s_mem s) (ServiceKeepaliveTime (s_cfg s)) now 0 (ai_svclruList a)) s }"

definition AppInfo_OnTick :: "marshal \<Rightarrow> int \<Rightarrow> NsServer \<Rightarrow> string \<Rightarrow> NsServer option" where
  "AppInfo_OnTick mar now s app = do {
     s \<leftarrow> AppInfo_checkServiceAlive mar now s app;
     AppInfo_checkConfirmExpired mar now s app }"

definition Server_OnTick :: "marshal \<Rightarrow> int \<Rightarrow> NsServer \<Rightarrow> NsServer option" where
  "Server_OnTick mar now s = rangeM (\<lambda>app s. AppInfo_OnTick mar now s app) (mkeys (s_apps s)) s"

section \<open>Dispatch and shutdown\<close>

fun Server_onMessage :: "marshal \<Rightarrow> int \<Rightarrow> NsServer \<Rightarrow> NsMsg \<Rightarrow> (NsServer \<times> NsError option) option" where
  "Server_onMessage mar now s (RegAppMsg serverAddr appid) = Server_RegisterApp mar s serverAddr appid"
| "Server_onMessage mar now s (RegServiceMsg serverAddr appid serviceAddr serviceOpts) =
     Server_RegisterService mar now s appid serverAddr serviceAddr serviceOpts"
| "Server_onMessage mar now s (UnRegServiceMsg h) = Server_UnRegisterService mar s h False"
| "Server_onMessage mar now s (ServiceHeartbeat h) = Server_OnServiceHeartbeat now s h"
| "Server_onMessage mar now s TickMsg = do { s \<leftarrow> Server_OnTick mar now s; Some (s, None) }"
| "Server_onMessage mar now s (ServiceSyncAttr h attrs) = Server_OnServiceSyncAttr mar s h attrs"
| "Server_onMessage mar now s (ServiceElection h event) = Server_OnServiceElectionEvent mar s h event"
| "Server_onMessage mar now s (RegisterNameRouter serverAddr appid watchSvcName) =
     Server_OnRegisterNameRouter mar s appid serverAddr watchSvcName"
| "Server_onMessage mar now s OtherMsg = Some (s, Some UnknowMsgType)"

text \<open>One turn of \<open>Serve\<close>: take the oldest message and handle it; the error is only logged.\<close>

definition Server_Serve_step :: "marshal \<Rightarrow> int \<Rightarrow> NsServer \<Rightarrow> NsServer option" where
  "Server_Serve_step mar now s =
     (case s_msg_queue s of
        [] \<Rightarrow> Some s
      | msg # rest \<Rightarrow> map_option fst (Server_onMessage mar now (s\<lparr>s_msg_queue := rest\<rparr>) msg))"

definition Server_GracefulStop :: "NsServer \<Rightarrow> NsServer" where
  "Server_GracefulStop s =
     s\<lparr>s_quit := True, s_sm := SessionMgr_Release (s_sm s), s_sess_mgr := False,
       s_apps := [], s_handleServices := []\<rparr>"

end
