(* ===== verification/NsInv.thy ===== *)
theory NsInv
  imports NsServer
begin

text \<open>
  The directory invariant of the name server: the global index, the service tables and LRU
  lists of the applications and the election tables agree. Every handler preserves it, and in
  a state that satisfies it no handler panics.
\<close>

definition dir_ok :: "NsServer \<Rightarrow> bool" where
  "dir_ok s \<longleftrightarrow>
     s_sess_mgr s \<and> mwf (s_handleServices s) \<and> mwf (s_apps s) \<and>
     (\<forall>app a. mget (s_apps s) app = Some a \<longrightarrow>
        ai_appID a = app \<and> services_ok (s_mem s) a \<and> election_ok (s_mem s) a \<and>
        mwf (ai_nameRouters a) \<and>
        (\<forall>h r. mget (ai_services a) h = Some r \<longrightarrow> r < s_next s \<and> mget (s_handleServices s) h = Some r)) \<and>
     (\<forall>h r. mget (s_handleServices s) h = Some r \<longrightarrow>
        (\<exists>a. mget (s_apps s) (si_appID (s_mem s r)) = Some a \<and> mget (ai_services a) h = Some r))"

lemma dir_okI:
  assumes "s_sess_mgr s" "mwf (s_handleServices s)" "mwf (s_apps s)"
    and "\<And>app a. mget (s_apps s) app = Some a \<Longrightarrow>
        ai_appID a = app \<and> services_ok (s_mem s) a \<and> election_ok (s_mem s) a \<and> mwf (ai_nameRouters a)"
    and "\<And>app a h r. mget (s_apps s) app = Some a \<Longrightarrow> mget (ai_services a) h = Some r \<Longrightarrow>
        r < s_next s \<and> mget (s_handleServices s) h = Some r"
    and "\<And>h r. mget (s_handleServices s) h = Some r \<Longrightarrow>
        (\<exists>a. mget (s_apps s) (si_appID (s_mem s r)) = Some a \<and> mget (ai_services a) h = Some r)"
  shows "dir_ok s"
  using assms unfolding dir_ok_def by blast

lemma dir_okD:
  assumes "dir_ok s"
  shows "s_sess_mgr s" "mwf (s_handleServices s)" "mwf (s_apps s)"
    and "mget (s_apps s) app = Some a \<Longrightarrow> ai_appID a = app"
    and "mget (s_apps s) app = Some a \<Longrightarrow> services_ok (s_mem s) a"
    and "mget (s_apps s) app = Some a \<Longrightarrow> election_ok (s_mem s) a"
    and "mget (s_apps s) app = Some a \<Longrightarrow> mwf (ai_nameRouters a)"
    and "mget (s_apps s) app = Some a \<Longrightarrow> mget (ai_services a) h = Some r \<Longrightarrow> r < s_next s"
    and "mget (s_apps s) app = Some a \<Longrightarrow> mget (ai_services a) h = Some r \<Longrightarrow>
      mget (s_handleServices s) h = Some r"
    and "mget (s_handleServices s) h = Some r \<Longrightarrow>
      (\<exists>a. mget (s_apps s) (si_appID (s_mem s r)) = Some a \<and> mget (ai_services a) h = Some r)"
  using assms unfolding dir_ok_def by blast+

lemma services_okD:
  assumes "services_ok mem a"
  shows "mwf (ai_services a)" "distinct (ai_svclruList a)"
    "set (ai_svclruList a) = set (mvals (ai_services a))"
    "mget (ai_services a) h = Some r \<Longrightarrow> si_handle (mem r) = h"
    "mget (ai_services a) h = Some r \<Longrightarrow> si_appID (mem r) = ai_appID a"
  using assms unfolding services_ok_def by blast+

section \<open>Stability\<close>

lemma dir_ok_conns [simp]: "dir_ok (s\<lparr>s_conns := q\<rparr>) = dir_ok s"
  by (simp add: dir_ok_def)

lemma dir_ok_only_sends: "only_sends s t \<Longrightarrow> dir_ok s \<Longrightarrow> dir_ok t"
  unfolding only_sends_def by (metis dir_ok_conns)

lemma dir_ok_queue [simp]: "dir_ok (s\<lparr>s_msg_queue := q\<rparr>) = dir_ok s"
  by (simp add: dir_ok_def)

lemma dir_ok_sm [simp]: "dir_ok (s\<lparr>s_sm := q\<rparr>) = dir_ok s"
  by (simp add: dir_ok_def)

text \<open>
  The tables of an application read from a service object only its address and application,
  which never change.
\<close>

lemma tables_ok_mem:
  assumes "\<And>r. r \<in> set (mvals (ai_services a)) \<Longrightarrow>
      si_serviceAddr (mem' r) = si_serviceAddr (mem r) \<and> si_appID (mem' r) = si_appID (mem r)"
  shows "services_ok mem a \<Longrightarrow> services_ok mem' a"
    and "election_ok mem a \<Longrightarrow> election_ok mem' a"
proof -
  have eq: "si_serviceAddr (mem' r) = si_serviceAddr (mem r) \<and> si_appID (mem' r) = si_appID (mem r)"
    if "mget (ai_services a) h = Some r" for h r
    using assms mget_mem_mvals [OF that] by blast
  show "services_ok mem' a" if "services_ok mem a"
    using that eq unfolding services_ok_def by metis
  assume ok: "election_ok mem a"
  have cand: "mget (ai_services a) h = Some r" if "mget (candOf a n) h = Some r" for n h r
    using election_okD(4) [OF ok that] by simp
  show "election_ok mem' a"
  proof (rule election_okI)
    fix n h r assume "mget (candOf a n) h = Some r"
    then show "mget (ai_services a) h = Some r \<and> si_name (mem' r) = n"
      using election_okD(4) [OF ok] eq cand by metis
  next
    fix n x assume "mget (ai_electionLeaders a) n = Some x"
    then obtain r where "x = Some r" "mget (candOf a n) (si_handle (mem r)) = Some r"
      using election_okD(5) [OF ok] by blast
    then show "\<exists>r. x = Some r \<and> mget (candOf a n) (si_handle (mem' r)) = Some r"
      using eq cand by metis
  qed (use election_okD [OF ok] in auto)
qed

lemma dir_ok_upd_app:
  assumes ok: "dir_ok s" and a: "mget (s_apps s) app = Some a"
    and a': "ai_appID a' = ai_appID a" "ai_services a' = ai_services a" "services_ok (s_mem s) a'"
      "election_ok (s_mem s) a'" "mwf (ai_nameRouters a')"
  shows "dir_ok (s\<lparr>s_apps := mput app a' (s_apps s)\<rparr>)"
proof (rule dir_okI)
  fix h r assume "mget (s_handleServices (s\<lparr>s_apps := mput app a' (s_apps s)\<rparr>)) h = Some r"
  then obtain b where "mget (s_apps s) (si_appID (s_mem s r)) = Some b" "mget (ai_services b) h = Some r"
    using dir_okD(10) [OF ok] by auto
  then show "\<exists>b. mget (s_apps (s\<lparr>s_apps := mput app a' (s_apps s)\<rparr>))
      (si_appID (s_mem (s\<lparr>s_apps := mput app a' (s_apps s)\<rparr>) r)) = Some b \<and> mget (ai_services b) h = Some r"
    using a a'(2) by auto
qed (use dir_okD [OF ok] a a' in \<open>auto split: if_splits\<close>)

lemma upd_app_same: "mget (s_apps s) app = Some a \<Longrightarrow> s\<lparr>s_apps := mput app a (s_apps s)\<rparr> = s"
  by (simp add: mput_same)

section \<open>Handlers of one application\<close>

lemma GiveupElection_sends:
  assumes a: "mget (s_apps s) app = Some a" and r: "mget (ai_services a) h = Some r" and sm: "s_sess_mgr s"
  shows "\<exists>t. AppInfo_OnServiceGiveupElection mar s app h = Some t \<and>
    only_sends (s\<lparr>s_apps := mput app (fst (GiveupElection_update (s_mem s) a h r)) (s_apps s)\<rparr>) t"
proof -
  obtain a' out where upd: "GiveupElection_update (s_mem s) a h r = (a', out)" by fastforce
  let ?s = "s\<lparr>s_apps := mput app a' (s_apps s)\<rparr>"
  have sm: "s_sess_mgr ?s" using sm by simp
  obtain f where f: "\<And>a ex b. AppInfo_Broadcast ?s a ex b = Some (f a ex b)"
    using Broadcast_total [OF sm] by metis
  obtain g where g: "\<And>a b c. sendToSession a b c ?s = Some (g a b c)"
    using sendToSession_total [OF sm] by metis
  have fo: "only_sends ?s (f a ex b)" "only_sends ?s (g c d e)" for a ex b c d e
    using Broadcast_only_sends [OF f] sendToSession_only_sends [OF g] by auto
  show ?thesis unfolding upd fst_conv
    by (cases out) (simp_all add: AppInfo_OnServiceGiveupElection_def a r upd Let_def f g fo split: option.split)
qed

lemma GiveupElection_ok:
  assumes ok: "dir_ok s" and a: "mget (s_apps s) app = Some a" and r: "mget (ai_services a) h = Some r"
  shows "\<exists>t. AppInfo_OnServiceGiveupElection mar s app h = Some t \<and> dir_ok t \<and>
    only_sends (s\<lparr>s_apps := mput app (fst (GiveupElection_update (s_mem s) a h r)) (s_apps s)\<rparr>) t"
proof -
  have "dir_ok (s\<lparr>s_apps := mput app (fst (GiveupElection_update (s_mem s) a h r)) (s_apps s)\<rparr>)"
    using dir_okD(4-7) [OF ok a]
    by (intro dir_ok_upd_app [OF ok a]) (auto intro: Giveup_election_ok services_ok_election_update)
  then show ?thesis
    using GiveupElection_sends [OF a r dir_okD(1) [OF ok]] dir_ok_only_sends by blast
qed

lemma RunForElection_ok:
  assumes ok: "dir_ok s" and a: "mget (s_apps s) app = Some a" and r: "mget (ai_services a) h = Some r"
  shows "\<exists>t. AppInfo_OnServiceRunForElection mar s app h = Some t \<and> dir_ok t \<and>
    only_sends (s\<lparr>s_apps := mput app (fst (RunForElection_update (s_mem s) a h r)) (s_apps s)\<rparr>) t"
proof -
  obtain a' res where upd: "RunForElection_update (s_mem s) a h r = (a', res)" by fastforce
  then have a': "fst (RunForElection_update (s_mem s) a h r) = a'" by simp
  let ?s = "s\<lparr>s_apps := mput app a' (s_apps s)\<rparr>"
  have "si_handle (s_mem s r) = h" using services_okD(4) [OF dir_okD(5) [OF ok a] r] .
  then have s': "dir_ok ?s"
    unfolding a' [symmetric] using dir_okD(4-7) [OF ok a] r
    by (intro dir_ok_upd_app [OF ok a]) (auto intro: RunFor_election_ok services_ok_election_update)
  have sm: "s_sess_mgr ?s" using dir_okD(1) [OF s'] .
  obtain f where f: "\<And>a ex b. AppInfo_Broadcast ?s a ex b = Some (f a ex b)"
    using Broadcast_total [OF sm] by metis
  obtain g where g: "\<And>a b c. sendToSession a b c ?s = Some (g a b c)"
    using sendToSession_total [OF sm] by metis
  have fo: "only_sends ?s (f a ex b)" "only_sends ?s (g c d e)" for a ex b c d e
    using Broadcast_only_sends [OF f] sendToSession_only_sends [OF g] by auto
  have "\<exists>t. AppInfo_OnServiceRunForElection mar s app h = Some t \<and> only_sends ?s t"
    by (simp add: AppInfo_OnServiceRunForElection_def a r upd Let_def f g fo split: option.split)
  then show ?thesis using dir_ok_only_sends [OF _ s'] unfolding a' by blast
qed

section \<open>Unregistering\<close>

definition removed :: "NsServer \<Rightarrow> string \<Rightarrow> AppInfo \<Rightarrow> u64 \<Rightarrow> sref \<Rightarrow> NsServer" where
  "removed s app a h r =
     s\<lparr>s_handleServices := mdel h (s_handleServices s),
       s_apps := mput app (AppInfo_RemoveItem (fst (GiveupElection_update (s_mem s) a h r)) h) (s_apps s)\<rparr>"

lemma RemoveItem_simps [simp]:
  "ai_appID (AppInfo_RemoveItem a h) = ai_appID a"
  "ai_nameRouters (AppInfo_RemoveItem a h) = ai_nameRouters a"
  "ai_electionLeaders (AppInfo_RemoveItem a h) = ai_electionLeaders a"
  "candOf (AppInfo_RemoveItem a h) n = candOf a n"
  "mget (ai_services (AppInfo_RemoveItem a h)) k = (if k = h then None else mget (ai_services a) k)"
  by (auto simp: AppInfo_RemoveItem_def candOf_def split: option.split)

lemma dir_ok_removed:
  assumes ok: "dir_ok s" and a: "mget (s_apps s) app = Some a" and r: "mget (ai_services a) h = Some r"
  shows "dir_ok (removed s app a h r)"
proof -
  let ?g = "fst (GiveupElection_update (s_mem s) a h r)"
  note so = dir_okD(5) [OF ok a] and eo = dir_okD(6) [OF ok a]
  have so': "services_ok (s_mem s) (AppInfo_RemoveItem ?g h)"
    by (intro RemoveItem_services_ok services_ok_election_update so)
  have eo': "election_ok (s_mem s) (AppInfo_RemoveItem ?g h)"
    by (intro RemoveItem_election_ok Giveup_election_ok eo so Giveup_not_candidate [OF eo r])
  have other: "app' = app" if "mget (s_apps s) app' = Some b" "mget (ai_services b) h = Some r'" for app' b r'
    using dir_okD(9) [OF ok that] dir_okD(9) [OF ok a r] services_okD(5) [OF dir_okD(5) [OF ok that(1)] that(2)]
      services_okD(5) [OF so r] dir_okD(4) [OF ok a] dir_okD(4) [OF ok that(1)] by simp
  show ?thesis
  proof (rule dir_okI)
    fix h' r' assume "mget (s_handleServices (removed s app a h r)) h' = Some r'"
    then have h': "h' \<noteq> h" "mget (s_handleServices s) h' = Some r'" by (auto simp: removed_def split: if_splits)
    from dir_okD(10) [OF ok h'(2)] obtain b where
      b: "mget (s_apps s) (si_appID (s_mem s r')) = Some b" "mget (ai_services b) h' = Some r'" by blast
    show "\<exists>b. mget (s_apps (removed s app a h r)) (si_appID (s_mem (removed s app a h r) r')) = Some b \<and>
        mget (ai_services b) h' = Some r'"
      using b h' a by (cases "si_appID (s_mem s r') = app") (auto simp: removed_def)
  next
    fix app' b h' r' assume "mget (s_apps (removed s app a h r)) app' = Some b" "mget (ai_services b) h' = Some r'"
    then show "r' < s_next (removed s app a h r) \<and> mget (s_handleServices (removed s app a h r)) h' = Some r'"
      using other dir_okD(8,9) [OF ok] a by (fastforce simp: removed_def split: if_splits)
  qed (use dir_okD [OF ok] so' eo' a in \<open>auto simp: removed_def split: if_splits\<close>)
qed

lemma UnRegister_spec:
  assumes ok: "dir_ok s" and h: "mget (s_handleServices s) h = Some r"
    and a: "mget (s_apps s) (si_appID (s_mem s r)) = Some a"
  shows "\<exists>t. Server_UnRegisterService mar s h k = Some (t, None) \<and>
    only_sends (removed s (si_appID (s_mem s r)) a h r) t \<and> dir_ok t"
proof -
  let ?app = "si_appID (s_mem s r)"
  have r: "mget (ai_services a) h = Some r" using dir_okD(10) [OF ok h] a by auto
  let ?s1 = "s\<lparr>s_handleServices := mdel h (s_handleServices s)\<rparr>"
  obtain u where u: "AppInfo_OnServiceGiveupElection mar ?s1 ?app h = Some u"
    and fu: "only_sends (?s1\<lparr>s_apps := mput ?app (fst (GiveupElection_update (s_mem s) a h r)) (s_apps s)\<rparr>) u"
  proof -
    have "\<exists>t. AppInfo_OnServiceGiveupElection mar ?s1 ?app h = Some t \<and>
      only_sends (?s1\<lparr>s_apps := mput ?app (fst (GiveupElection_update (s_mem ?s1) a h r)) (s_apps ?s1)\<rparr>) t"
      by (rule GiveupElection_sends) (use a r dir_okD(1) [OF ok] in auto)
    then show thesis using that by auto
  qed
  note uf = only_sends_fields [OF fu, simplified]
  let ?a' = "AppInfo_RemoveItem (fst (GiveupElection_update (s_mem s) a h r)) h"
  let ?s2 = "u\<lparr>s_apps := mput ?app ?a' (s_apps u)\<rparr>"
  have f2: "only_sends (removed s ?app a h r) ?s2"
  proof -
    obtain c where "u = s\<lparr>s_handleServices := mdel h (s_handleServices s), s_apps := mput ?app
        (fst (GiveupElection_update (s_mem s) a h r)) (s_apps s), s_conns := c\<rparr>"
      using fu by (auto simp: only_sends_def)
    then show ?thesis by (simp add: only_sends_def removed_def)
  qed
  have ok2: "dir_ok ?s2" using dir_ok_only_sends [OF f2 dir_ok_removed [OF ok a r]] .
  obtain v where v: "AppInfo_BroadcastOnlineToOthers mar ?s2 ?a' (s_mem s r) False = Some v"
    using BroadcastOnline_total [OF dir_okD(1) [OF ok2]] by blast
  have fv: "only_sends (removed s ?app a h r) v"
    using f2 BroadcastOnline_only_sends [OF v] by (rule only_sends_trans)
  have "\<exists>t. Server_UnRegisterService mar s h k = Some (t, None) \<and> only_sends v t"
    using h a u v uf by (simp add: Server_UnRegisterService_def Let_def split: option.split)
  then show ?thesis using fv only_sends_trans dir_ok_only_sends dir_ok_removed [OF ok a r] by metis
qed

section \<open>Registering\<close>

definition added :: "NsServer \<Rightarrow> string \<Rightarrow> AppInfo \<Rightarrow> ServiceInfo \<Rightarrow> NsServer" where
  "added s app a si =
     (let r = s_next s; mem = (s_mem s)(r := si) in
      s\<lparr>s_mem := mem, s_next := Suc r,
        s_handleServices := mput (si_handle si) r (s_handleServices s),
        s_apps := mput app (AppInfo_AddItem mem a r) (s_apps s)\<rparr>)"

lemma AddItem_simps [simp]:
  "ai_appID (AppInfo_AddItem mem a r) = ai_appID a"
  "ai_nameRouters (AppInfo_AddItem mem a r) = ai_nameRouters a"
  "ai_electionLeaders (AppInfo_AddItem mem a r) = ai_electionLeaders a"
  "ai_electionCandidates (AppInfo_AddItem mem a r) = ai_electionCandidates a"
  "candOf (AppInfo_AddItem mem a r) n = candOf a n"
  "ai_services (AppInfo_AddItem mem a r) = mput (si_handle (mem r)) r (ai_services a)"
  "ai_svclruList (AppInfo_AddItem mem a r) = ai_svclruList a @ [r]"
  by (simp_all add: AppInfo_AddItem_def candOf_def)

lemma dir_ok_added:
  assumes ok: "dir_ok s" and a: "mget (s_apps s) app = Some a"
    and new: "mget (s_handleServices s) (si_handle si) = None" and si: "si_appID si = app"
  shows "dir_ok (added s app a si)"
proof -
  let ?r = "s_next s" let ?mem = "(s_mem s)(s_next s := si)"
  have fresh: "?mem r = s_mem s r" if "mget (s_apps s) app' = Some b" "mget (ai_services b) h = Some r" for app' b h r
    using dir_okD(8) [OF ok that] by simp
  have freshv: "?mem r = s_mem s r" if "mget (s_apps s) app' = Some b" "r \<in> set (mvals (ai_services b))" for app' b r
    using fresh [OF that(1)] that(2) in_mvals_iff [OF services_okD(1) [OF dir_okD(5) [OF ok that(1)]]] by blast
  have so: "services_ok ?mem b" and eo: "election_ok ?mem b" if "mget (s_apps s) app' = Some b" for app' b
    using tables_ok_mem [of b ?mem "s_mem s"] freshv [OF that] dir_okD(5,6) [OF ok that] by auto
  have notin: "mget (ai_services a) (si_handle si) = None"
    using dir_okD(9) [OF ok a] new by (cases "mget (ai_services a) (si_handle si)") auto
  have lru: "?r \<notin> set (mvals (ai_services a))"
    using in_mvals_iff [OF services_okD(1) [OF dir_okD(5) [OF ok a]]] dir_okD(8) [OF ok a] by blast
  have so': "services_ok ?mem (AppInfo_AddItem ?mem a ?r)"
    using so [OF a] lru notin si dir_okD(4) [OF ok a]
    by (auto simp: services_ok_def mvals_mput_new split: if_splits)
  have eo': "election_ok ?mem (AppInfo_AddItem ?mem a ?r)"
    using eo [OF a] notin unfolding election_ok_def by auto
  have hs: "r' < s_next s" if "mget (s_handleServices s) h' = Some r'" for h' r'
    using dir_okD(10) [OF ok that] dir_okD(8) [OF ok] by blast
  show ?thesis
  proof (rule dir_okI)
    fix h' r' assume "mget (s_handleServices (added s app a si)) h' = Some r'"
    then have "h' = si_handle si \<and> r' = ?r \<or> h' \<noteq> si_handle si \<and> mget (s_handleServices s) h' = Some r'"
      by (auto simp: added_def Let_def split: if_splits)
    then show "\<exists>b. mget (s_apps (added s app a si)) (si_appID (s_mem (added s app a si) r')) = Some b \<and>
        mget (ai_services b) h' = Some r'"
    proof
      assume "h' = si_handle si \<and> r' = ?r"
      then show ?thesis using si by (simp add: added_def Let_def)
    next
      assume h': "h' \<noteq> si_handle si \<and> mget (s_handleServices s) h' = Some r'"
      with dir_okD(10) [OF ok] obtain b where
        b: "mget (s_apps s) (si_appID (s_mem s r')) = Some b" "mget (ai_services b) h' = Some r'" by blast
      moreover have "r' \<noteq> ?r" using hs h' by auto
      ultimately show ?thesis using h' a
        by (cases "si_appID (s_mem s r') = app") (auto simp: added_def Let_def)
    qed
  next
    fix app' b h' r' assume "mget (s_apps (added s app a si)) app' = Some b" "mget (ai_services b) h' = Some r'"
    then have "app' = app \<and> h' = si_handle si \<and> r' = ?r \<or>
        (\<exists>c. mget (s_apps s) app' = Some c \<and> mget (ai_services c) h' = Some r')"
      using a by (auto simp: added_def Let_def split: if_splits)
    then show "r' < s_next (added s app a si) \<and> mget (s_handleServices (added s app a si)) h' = Some r'"
    proof (elim disjE exE conjE)
      fix c assume c: "mget (s_apps s) app' = Some c" "mget (ai_services c) h' = Some r'"
      with dir_okD(9) [OF ok c] new have "h' \<noteq> si_handle si" by auto
      with dir_okD(8,9) [OF ok c] show ?thesis by (auto simp: added_def Let_def)
    qed (simp add: added_def Let_def)
  qed (use dir_okD [OF ok] so eo so' eo' a in \<open>auto simp: added_def Let_def split: if_splits\<close>)
qed

lemma candOf_nameRouters [simp]: "candOf (a\<lparr>ai_nameRouters := x\<rparr>) n = candOf a n"
  by (simp add: candOf_def)

lemma dir_ok_upd_routers:
  assumes "dir_ok s" "mget (s_apps s) app = Some a" "mwf nrs"
  shows "dir_ok (s\<lparr>s_apps := mput app (a\<lparr>ai_nameRouters := nrs\<rparr>) (s_apps s)\<rparr>)"
  using dir_okD(4-7) [OF assms(1,2)] assms
  by (intro dir_ok_upd_app [OF assms(1,2)]) (auto simp: services_ok_def election_ok_def)

lemma only_sends_upd_apps:
  "only_sends s t \<Longrightarrow> only_sends (s\<lparr>s_apps := x\<rparr>) (t\<lparr>s_apps := x\<rparr>)"
  by (auto simp: only_sends_def)
    (metis NsServer.surjective NsServer.update_convs(10) NsServer.update_convs(6))

text \<open>Updates that touch only the routers of one application.\<close>

definition routers_upd :: "string \<Rightarrow> NsServer \<Rightarrow> NsServer \<Rightarrow> bool" where
  "routers_upd app s t \<longleftrightarrow> (\<exists>a nrs. mget (s_apps s) app = Some a \<and>
     (mwf (ai_nameRouters a) \<longrightarrow> mwf nrs) \<and>
     only_sends (s\<lparr>s_apps := mput app (a\<lparr>ai_nameRouters := nrs\<rparr>) (s_apps s)\<rparr>) t)"

lemma routers_upd_dir_ok: "routers_upd app s t \<Longrightarrow> dir_ok s \<Longrightarrow> dir_ok t"
  unfolding routers_upd_def using dir_ok_upd_routers dir_ok_only_sends dir_okD(7) by blast

lemma routers_updI:
  assumes "mget (s_apps s) app = Some a" "mwf (ai_nameRouters a) \<longrightarrow> mwf nrs" "only_sends s t"
  shows "routers_upd app s (t\<lparr>s_apps := mput app (a\<lparr>ai_nameRouters := nrs\<rparr>) (s_apps t)\<rparr>)"
  using assms only_sends_upd_apps [OF assms(3)] only_sends_fields(6) [OF assms(3)]
  unfolding routers_upd_def by auto

lemma routers_upd_sends: "only_sends s t \<Longrightarrow> mget (s_apps s) app = Some a \<Longrightarrow> routers_upd app s t"
  unfolding routers_upd_def
  by (rule exI [of _ a], rule exI [of _ "ai_nameRouters a"]) (simp add: mput_same)

lemma Start2StageConfirm_ok:
  assumes "s_sess_mgr s" "mget (s_apps s) app = Some a"
  shows "\<exists>t. AppInfo_Start2StageConfirm mar now s app si = Some t \<and> routers_upd app s t"
proof (cases "mget (ai_nameRouters a) (si_name si)")
  case None
  with assms NotifyConfirmResult_total [OF assms(1)] obtain t where
    "AppInfo_NotifyConfirmResult mar s a (si_handle si) SSError_OK = Some t" by blast
  with None assms(2) NotifyConfirmResult_only_sends show ?thesis
    by (auto simp: AppInfo_Start2StageConfirm_def intro: routers_upd_sends)
next
  case (Some nr)
  from StartConfirm_total [OF assms(1)] obtain t nr' e where
    t: "NameRouter_StartConfirm mar now s a nr si = Some (t, nr', e)" by blast
  from routers_updI [OF assms(2) _ StartConfirm_only_sends [OF t], of "mput (si_name si) nr' (ai_nameRouters a)"]
  show ?thesis using Some t assms(2) by (auto simp: AppInfo_Start2StageConfirm_def)
qed

lemma AddNameRouter_ok:
  assumes "s_sess_mgr s" "mget (s_apps s) app = Some a"
  shows "\<exists>t e. AppInfo_AddNameRouter mar s app sa n = Some (t, e) \<and> routers_upd app s t"
proof -
  let ?nr = "case mget (ai_nameRouters a) n of Some nr \<Rightarrow> nr
    | None \<Rightarrow> \<lparr>nr_svcName = n, nr_routers = [], nr_confirmDeadline = 0, nr_onlineSvcHandle = INVALID_SERVICE_HANDLE\<rparr>"
  from AddItem_total [OF assms(1)] obtain t nr' e where
    t: "NameRouter_AddItem mar s ?nr (ai_appID a) sa = Some (t, nr', e)" by blast
  from routers_updI [OF assms(2) _ AddItem_only_sends [OF t], of "mput n nr' (ai_nameRouters a)"]
  show ?thesis using t assms(2) by (auto simp: AppInfo_AddNameRouter_def)
qed

lemma checkConfirmExpired_ok:
  assumes ok: "dir_ok s" and a: "mget (s_apps s) app = Some a"
  shows "\<exists>t. AppInfo_checkConfirmExpired mar now s app = Some t \<and> dir_ok t \<and>
    s_handleServices t = s_handleServices s \<and> s_mem t = s_mem s \<and>
    (\<forall>app'. map_option ai_services (mget (s_apps t) app') = map_option ai_services (mget (s_apps s) app')) \<and>
    (\<forall>app'. map_option ai_svclruList (mget (s_apps t) app') = map_option ai_svclruList (mget (s_apps s) app'))"
    (is "\<exists>t. _ \<and> ?Q t")
proof -
  let ?f = "\<lambda>name s. do {
          a \<leftarrow> mget (s_apps s) app;
          nr \<leftarrow> mget (ai_nameRouters a) name;
          (s, nr) \<leftarrow> NameRouter_CheckExpired mar now s a nr;
          Some (s\<lparr>s_apps := mput app
                    (a\<lparr>ai_nameRouters := mput name nr (ai_nameRouters a)\<rparr>) (s_apps s)\<rparr>) }"
  let ?P = "\<lambda>t. ?Q t \<and> (\<exists>b. mget (s_apps t) app = Some b \<and> set (mkeys (ai_nameRouters b)) = set (mkeys (ai_nameRouters a)))"
  have "\<exists>t. rangeM ?f (mkeys (ai_nameRouters a)) s = Some t \<and> ?P t"
  proof (rule rangeM_total)
    show "?P s" using ok a by simp
  next
    fix name t assume name: "name \<in> set (mkeys (ai_nameRouters a))" and P: "?P t"
    from P obtain b where b: "mget (s_apps t) app = Some b"
      and keys: "set (mkeys (ai_nameRouters b)) = set (mkeys (ai_nameRouters a))" by blast
    from name have "name \<in> set (mkeys (ai_nameRouters b))" by (simp add: keys)
    then obtain nr where nr: "mget (ai_nameRouters b) name = Some nr" using in_mkeys_iff by metis
    have sm: "s_sess_mgr t" using P dir_okD(1) by blast
    from CheckExpired_total [OF sm] obtain u nr' where
      u: "NameRouter_CheckExpired mar now t b nr = Some (u, nr')" by blast
    let ?v = "u\<lparr>s_apps := mput app (b\<lparr>ai_nameRouters := mput name nr' (ai_nameRouters b)\<rparr>) (s_apps u)\<rparr>"
    have uf: "s_apps u = s_apps t" "s_handleServices u = s_handleServices t" "s_mem u = s_mem t"
      using only_sends_fields [OF CheckExpired_only_sends [OF u]] by auto
    have "dir_ok ?v"
      using routers_upd_dir_ok [OF routers_updI [OF b _ CheckExpired_only_sends [OF u]]] P by simp
    moreover have "?f name t = Some ?v" using b nr u by simp
    moreover have "map_option ai_services (mget (s_apps s) app) = Some (ai_services b)"
      "map_option ai_svclruList (mget (s_apps s) app) = Some (ai_svclruList b)"
      using P b by (metis option.simps(9))+
    then have "?P ?v" using P b keys nr uf \<open>dir_ok ?v\<close> name by (auto simp: uf)
    ultimately show "\<exists>t'. ?f name t = Some t' \<and> ?P t'" by blast
  qed
  then show ?thesis using a by (auto simp: AppInfo_checkConfirmExpired_def)
qed

section \<open>The handlers of the server\<close>

lemma RegisterService_ok:
  assumes ok: "dir_ok s"
  shows "\<exists>t e. Server_RegisterService mar now s appID sa addr opts = Some (t, e) \<and> dir_ok t"
proof (cases "mget (s_handleServices s) (AddrHandle addr) = None")
  case new: True
  show ?thesis
  proof (cases "mget (s_apps s) appID")
    case None
    with new dir_okD(1) [OF ok] ok show ?thesis
      by (auto simp: Server_RegisterService_def Server_GetSession_def
          intro: dir_ok_only_sends [OF NsReceiver_Send_only_sends] split: option.splits)
  next
    case (Some a)
    let ?si = "\<lparr>si_serverAddr = sa, si_appID = appID, si_serviceAddr = addr,
                si_lastRecvHbTime = now, si_serviceOpts = opts\<rparr>"
    let ?s = "added s appID a ?si"
    let ?a = "AppInfo_AddItem ((s_mem s)(s_next s := ?si)) a (s_next s)"
    have ok': "dir_ok ?s" using dir_ok_added [OF ok Some, of ?si] new by simp
    have a': "mget (s_apps ?s) appID = Some ?a" by (simp add: added_def Let_def)
    obtain t1 where t1: "AppInfo_Start2StageConfirm mar now ?s appID ?si = Some t1" "dir_ok t1"
      using Start2StageConfirm_ok [OF dir_okD(1) [OF ok'] a'] routers_upd_dir_ok [OF _ ok'] by blast
    obtain t2 where t2: "AppInfo_NotifyConfirmResult mar ?s ?a (AddrHandle addr) SSError_OK = Some t2"
      using NotifyConfirmResult_total [OF dir_okD(1) [OF ok']] by blast
    have "dir_ok t2" using dir_ok_only_sends [OF NotifyConfirmResult_only_sends [OF t2] ok'] .
    then show ?thesis using new Some t1 t2
      by (simp add: Server_RegisterService_def added_def Let_def)
  qed
qed (simp add: Server_RegisterService_def ok)

lemma AppInfo_Init_ok: "services_ok mem (AppInfo_Init app)" "election_ok mem (AppInfo_Init app)"
  by (simp_all add: services_ok_def election_ok_def AppInfo_Init_def candOf_def)

lemma dir_ok_new_app:
  assumes ok: "dir_ok s" and "mget (s_apps s) app = None"
  shows "dir_ok (s\<lparr>s_apps := mput app (AppInfo_Init app) (s_apps s)\<rparr>)"
proof (rule dir_okI)
  fix h r assume "mget (s_handleServices (s\<lparr>s_apps := mput app (AppInfo_Init app) (s_apps s)\<rparr>)) h = Some r"
  with dir_okD(10) [OF ok, of h r] assms(2)
  show "\<exists>a. mget (s_apps (s\<lparr>s_apps := mput app (AppInfo_Init app) (s_apps s)\<rparr>))
      (si_appID (s_mem (s\<lparr>s_apps := mput app (AppInfo_Init app) (s_apps s)\<rparr>) r)) = Some a \<and> mget (ai_services a) h = Some r"
    by auto
qed (use dir_okD [OF ok] AppInfo_Init_ok in \<open>auto simp: AppInfo_Init_def split: if_splits\<close>)

lemma RegisterApp_ok:
  assumes ok: "dir_ok s"
  shows "\<exists>t e. Server_RegisterApp mar s sa appID = Some (t, e) \<and> dir_ok t"
proof -
  define a where a: "a = (case mget (s_apps s) appID of Some app \<Rightarrow> app | None \<Rightarrow> AppInfo_Init appID)"
  let ?s = "s\<lparr>s_apps := mput appID a (s_apps s)\<rparr>"
  have ok': "dir_ok ?s"
    using ok dir_ok_new_app [OF ok] unfolding a by (auto simp: mput_same split: option.splits)
  have eo: "election_ok (s_mem s) a"
    using dir_okD(6) [OF ok] AppInfo_Init_ok unfolding a by (auto split: option.splits)
  have "x \<noteq> None" if "(n, x) \<in> set (ai_electionLeaders a)" for n x
    using election_okD(5) [OF eo, of n x] that mget_in_set [OF election_okD(2) [OF eo]] by blast
  then have "\<exists>rs. AppInfo_GetLeaders (ai_electionLeaders a) = Some rs" by (rule GetLeaders_total)
  then obtain rs where rs: "AppInfo_GetLeaders (ai_electionLeaders a) = Some rs" by blast
  have snd: "dir_ok (AppInfo_NotifyOthersOnlineToSelf mar (NsReceiver_Send ?s c b) a sa c)" for b c
    using ok' dir_ok_only_sends NotifyOthers_only_sends NsReceiver_Send_only_sends by metis
  then show ?thesis
    using rs ok' dir_okD(1) [OF ok] ok
    by (simp add: Server_RegisterApp_def Server_GetSession_def Let_def a [symmetric] split: option.split)
qed

lemma list_MoveToBack_simps:
  "set (list_MoveToBack x xs) = set xs" "distinct xs \<Longrightarrow> distinct (list_MoveToBack x xs)"
proof -
  have "mset (remove1 x xs @ [x]) = mset xs" if "x \<in> set xs" using that by simp
  then have "mset (list_MoveToBack x xs) = mset xs" by (simp add: list_MoveToBack_def)
  then show "set (list_MoveToBack x xs) = set xs" "distinct xs \<Longrightarrow> distinct (list_MoveToBack x xs)"
    by (metis set_mset_mset) (metis mset_eq_imp_distinct_iff \<open>mset (list_MoveToBack x xs) = mset xs\<close>)
qed

text \<open>The state after a heartbeat of the service \<open>r\<close>.\<close>

definition beaten :: "int \<Rightarrow> NsServer \<Rightarrow> string \<Rightarrow> AppInfo \<Rightarrow> sref \<Rightarrow> NsServer" where
  "beaten now s app a r =
     s\<lparr>s_mem := (s_mem s)(r := (s_mem s r)\<lparr>si_lastRecvHbTime := now\<rparr>),
       s_apps := mput app (a\<lparr>ai_svclruList := list_MoveToBack r (ai_svclruList a)\<rparr>) (s_apps s)\<rparr>"

lemma dir_ok_beaten:
  assumes ok: "dir_ok s" and a: "mget (s_apps s) app = Some a"
  shows "dir_ok (beaten now s app a r)"
proof -
  let ?mem = "(s_mem s)(r := (s_mem s r)\<lparr>si_lastRecvHbTime := now\<rparr>)"
  have ok1: "dir_ok (s\<lparr>s_mem := ?mem\<rparr>)"
  proof (rule dir_okI)
    fix app' b assume b: "mget (s_apps (s\<lparr>s_mem := ?mem\<rparr>)) app' = Some b"
    then show "ai_appID b = app' \<and> services_ok (s_mem (s\<lparr>s_mem := ?mem\<rparr>)) b \<and>
        election_ok (s_mem (s\<lparr>s_mem := ?mem\<rparr>)) b \<and> mwf (ai_nameRouters b)"
      using dir_okD(4-7) [OF ok, of app' b] by (auto intro!: tables_ok_mem [of b ?mem "s_mem s"])
  next
    fix h r' assume "mget (s_handleServices (s\<lparr>s_mem := ?mem\<rparr>)) h = Some r'"
    then show "\<exists>a. mget (s_apps (s\<lparr>s_mem := ?mem\<rparr>)) (si_appID (s_mem (s\<lparr>s_mem := ?mem\<rparr>) r')) = Some a \<and>
        mget (ai_services a) h = Some r'"
      using dir_okD(10) [OF ok, of h r'] by auto
  qed (use dir_okD [OF ok] in auto)
  let ?a = "a\<lparr>ai_svclruList := list_MoveToBack r (ai_svclruList a)\<rparr>"
  have "services_ok ?mem ?a" "election_ok ?mem ?a" "mwf (ai_nameRouters a)"
    using dir_okD(5-7) [OF ok1, of app a] a
    by (auto simp: services_ok_def election_ok_def list_MoveToBack_simps)
  then have "dir_ok ((s\<lparr>s_mem := ?mem\<rparr>)\<lparr>s_apps := mput app ?a (s_apps (s\<lparr>s_mem := ?mem\<rparr>))\<rparr>)"
    using a by (intro dir_ok_upd_app [OF ok1]) auto
  then show ?thesis by (simp add: beaten_def)
qed

lemma Heartbeat_spec:
  assumes ok: "dir_ok s" and h: "mget (s_handleServices s) h = Some r"
    and a: "mget (s_apps s) (si_appID (s_mem s r)) = Some a"
  shows "Server_OnServiceHeartbeat now s h = Some (beaten now s (si_appID (s_mem s r)) a r, None)"
proof -
  have "mget (ai_services a) h = Some r" using dir_okD(10) [OF ok h] a by auto
  then show ?thesis using h a
    by (simp add: Server_OnServiceHeartbeat_def AppInfo_OnServiceHeartbeat_def beaten_def Let_def)
qed

lemma dir_ok_app_of:
  "dir_ok s \<Longrightarrow> mget (s_handleServices s) h = Some r \<Longrightarrow>
     (\<And>a. mget (s_apps s) (si_appID (s_mem s r)) = Some a \<Longrightarrow> mget (ai_services a) h = Some r \<Longrightarrow> thesis) \<Longrightarrow> thesis"
  using dir_okD(10) by blast

lemma Heartbeat_ok:
  assumes ok: "dir_ok s"
  shows "\<exists>t e. Server_OnServiceHeartbeat now s h = Some (t, e) \<and> dir_ok t"
proof (cases "mget (s_handleServices s) h")
  case (Some r)
  then obtain a where "mget (s_apps s) (si_appID (s_mem s r)) = Some a" using dir_ok_app_of [OF ok] by metis
  then show ?thesis using Heartbeat_spec [OF ok Some] dir_ok_beaten [OF ok] by auto
qed (simp add: Server_OnServiceHeartbeat_def ok)

lemma SyncAttr_ok:
  assumes ok: "dir_ok s"
  shows "\<exists>t e. Server_OnServiceSyncAttr mar s h attrs = Some (t, e) \<and> dir_ok t"
proof (cases "mget (s_handleServices s) h")
  case (Some r)
  then obtain a where a: "mget (s_apps s) (si_appID (s_mem s r)) = Some a" using dir_ok_app_of [OF ok] by metis
  obtain t where t: "AppInfo_BroadcastSyncServiceAttr mar s a (s_mem s r) attrs = Some t"
    using BroadcastSyncAttr_total [OF dir_okD(1) [OF ok]] by blast
  have "dir_ok t" using dir_ok_only_sends [OF BroadcastSyncAttr_only_sends [OF t] ok] .
  then show ?thesis using Some a t by (simp add: Server_OnServiceSyncAttr_def Let_def)
qed (simp add: Server_OnServiceSyncAttr_def ok)

lemma ElectionEvent_ok:
  assumes ok: "dir_ok s"
  shows "\<exists>t e. Server_OnServiceElectionEvent mar s h event = Some (t, e) \<and> dir_ok t"
proof (cases "mget (s_handleServices s) h")
  case (Some r)
  then obtain a where a: "mget (s_apps s) (si_appID (s_mem s r)) = Some a"
    and r: "mget (ai_services a) h = Some r" using dir_ok_app_of [OF ok] by metis
  obtain t where t: "AppInfo_OnServiceGiveupElection mar s (si_appID (s_mem s r)) h = Some t" "dir_ok t"
    using GiveupElection_ok [OF ok a r] by blast
  obtain u where u: "AppInfo_OnServiceRunForElection mar s (si_appID (s_mem s r)) h = Some u" "dir_ok u"
    using RunForElection_ok [OF ok a r] by blast
  show ?thesis using t u ok Some a
    by (simp add: Server_OnServiceElectionEvent_def Let_def)
qed (simp add: Server_OnServiceElectionEvent_def ok)

lemma NameRouter_ok:
  assumes ok: "dir_ok s"
  shows "\<exists>t e. Server_OnRegisterNameRouter mar s appID sa n = Some (t, e) \<and> dir_ok t"
proof (cases "mget (s_apps s) appID")
  case (Some a)
  from AddNameRouter_ok [OF dir_okD(1) [OF ok] Some] routers_upd_dir_ok [OF _ ok] Some show ?thesis
    by (fastforce simp: Server_OnRegisterNameRouter_def)
qed (simp add: Server_OnRegisterNameRouter_def ok)

lemma UnRegister_ok:
  assumes ok: "dir_ok s"
  shows "\<exists>t e. Server_UnRegisterService mar s h k = Some (t, e) \<and> dir_ok t"
proof (cases "mget (s_handleServices s) h")
  case (Some r)
  then obtain a where a: "mget (s_apps s) (si_appID (s_mem s r)) = Some a" using dir_ok_app_of [OF ok] by metis
  then show ?thesis using UnRegister_spec [OF ok Some] by blast
qed (simp add: Server_UnRegisterService_def ok)

section \<open>The tick\<close>

text \<open>What unregistering keeps: the configuration and the keys of the applications.\<close>

definition same_apps :: "NsServer \<Rightarrow> NsServer \<Rightarrow> bool" where
  "same_apps s t \<longleftrightarrow> s_cfg t = s_cfg s \<and> s_mem t = s_mem s \<and> set (mkeys (s_apps t)) = set (mkeys (s_apps s))"

lemma removed_same_apps: "mget (s_apps s) app = Some a \<Longrightarrow> same_apps s (removed s app a h r)"
  by (auto simp: same_apps_def removed_def in_mkeys_iff)

lemma same_apps_sends: "only_sends s t \<Longrightarrow> same_apps u s \<Longrightarrow> same_apps u t"
  unfolding same_apps_def by (simp add: only_sends_fields)

lemma UnRegister_same_apps:
  assumes "dir_ok s" "Server_UnRegisterService mar s h k = Some (t, e)"
  shows "same_apps s t"
proof (cases "mget (s_handleServices s) h")
  case (Some r)
  then obtain a where a: "mget (s_apps s) (si_appID (s_mem s r)) = Some a"
    using dir_ok_app_of [OF assms(1)] by metis
  from UnRegister_spec [OF assms(1) Some a, of mar k] assms(2) removed_same_apps [OF a]
  show ?thesis using same_apps_sends by fastforce
qed (use assms in \<open>auto simp: Server_UnRegisterService_def same_apps_def\<close>)

lemma checkServiceAlive_ok:
  assumes ok: "dir_ok s" and a: "mget (s_apps s) app = Some a"
  shows "\<exists>t. AppInfo_checkServiceAlive mar now s app = Some t \<and> dir_ok t \<and> same_apps s t"
proof -
  let ?f = "\<lambda>h s. map_option fst (Server_UnRegisterService mar s h True)"
  have "\<exists>t. rangeM ?f hs s = Some t \<and> dir_ok t \<and> same_apps s t" for hs
  proof (rule rangeM_total)
    show "dir_ok s \<and> same_apps s s" using ok by (simp add: same_apps_def)
  next
    fix h t assume t: "dir_ok t \<and> same_apps s t"
    then obtain u e where "Server_UnRegisterService mar t h True = Some (u, e)" "dir_ok u"
      using UnRegister_ok by blast
    moreover from this UnRegister_same_apps t have "same_apps s u" unfolding same_apps_def by metis
    ultimately show "\<exists>t'. ?f h t = Some t' \<and> dir_ok t' \<and> same_apps s t'" by auto
  qed
  then show ?thesis using a by (simp add: AppInfo_checkServiceAlive_def)
qed

lemma OnTick_app_ok:
  assumes ok: "dir_ok s" and a: "mget (s_apps s) app = Some a"
  shows "\<exists>t. AppInfo_OnTick mar now s app = Some t \<and> dir_ok t \<and> set (mkeys (s_apps t)) = set (mkeys (s_apps s))"
proof -
  obtain u where u: "AppInfo_checkServiceAlive mar now s app = Some u" "dir_ok u" "same_apps s u"
    using checkServiceAlive_ok [OF ok a] by blast
  have "app \<in> set (mkeys (s_apps u))" using u(3) mget_Some_keys [OF a] by (simp add: same_apps_def)
  then obtain b where b: "mget (s_apps u) app = Some b" using in_mkeys_iff by metis
  obtain t where t: "AppInfo_checkConfirmExpired mar now u app = Some t" "dir_ok t"
    and ks: "\<forall>app'. map_option ai_services (mget (s_apps t) app') = map_option ai_services (mget (s_apps u) app')"
    using checkConfirmExpired_ok [OF u(2) b] by blast
  have "set (mkeys (s_apps t)) = set (mkeys (s_apps u))"
    using ks mget_None_keys by (metis option.map_disc_iff subsetI subset_antisym)
  then show ?thesis using t u by (simp add: AppInfo_OnTick_def same_apps_def)
qed

lemma OnTick_ok:
  assumes ok: "dir_ok s"
  shows "\<exists>t. Server_OnTick mar now s = Some t \<and> dir_ok t \<and> set (mkeys (s_apps t)) = set (mkeys (s_apps s))"
proof -
  have "\<exists>t. rangeM (\<lambda>app s. AppInfo_OnTick mar now s app) (mkeys (s_apps s)) s = Some t \<and>
      (dir_ok t \<and> set (mkeys (s_apps t)) = set (mkeys (s_apps s)))"
  proof (rule rangeM_total)
    show "dir_ok s \<and> set (mkeys (s_apps s)) = set (mkeys (s_apps s))" using ok by simp
  next
    fix app t assume app: "app \<in> set (mkeys (s_apps s))"
      and t: "dir_ok t \<and> set (mkeys (s_apps t)) = set (mkeys (s_apps s))"
    then obtain a where "mget (s_apps t) app = Some a" using in_mkeys_iff by metis
    from OnTick_app_ok [OF _ this] t
    show "\<exists>t'. AppInfo_OnTick mar now t app = Some t' \<and>
        dir_ok t' \<and> set (mkeys (s_apps t')) = set (mkeys (s_apps s))" by metis
  qed
  then show ?thesis by (auto simp: Server_OnTick_def)
qed

section \<open>Every message\<close>

lemma onMessage_ok:
  assumes ok: "dir_ok s"
  shows "\<exists>t e. Server_onMessage mar now s msg = Some (t, e) \<and> dir_ok t"
proof (cases msg)
  case TickMsg
  then show ?thesis using OnTick_ok [OF ok, of mar now] by auto
qed (simp_all add: ok RegisterApp_ok RegisterService_ok UnRegister_ok Heartbeat_ok SyncAttr_ok
      ElectionEvent_ok NameRouter_ok del: ex_simps)

end
