(* ===== verification/NsLru.thy ===== *)
theory NsLru
  imports NsInv
begin

text \<open>
  Liveness detection of the name server. The LRU list of an application is sorted by the time
  of the last heartbeat, so the loop of \<open>checkServiceAlive\<close>, which stops at the first
  service that is alive, finds exactly the expired ones, up to its bound of 200 per tick.
\<close>

definition svc_of :: "NsServer \<Rightarrow> string \<Rightarrow> u64 \<Rightarrow> sref option" where
  "svc_of s app h = (case mget (s_apps s) app of None \<Rightarrow> None | Some a \<Rightarrow> mget (ai_services a) h)"

definition lru_of :: "NsServer \<Rightarrow> string \<Rightarrow> sref list" where
  "lru_of s app = (case mget (s_apps s) app of None \<Rightarrow> [] | Some a \<Rightarrow> ai_svclruList a)"

definition lru_ok :: "int \<Rightarrow> NsServer \<Rightarrow> bool" where
  "lru_ok now s \<longleftrightarrow> (\<forall>app. sorted (map (\<lambda>r. si_lastRecvHbTime (s_mem s r)) (lru_of s app)) \<and>
     (\<forall>r \<in> set (lru_of s app). si_lastRecvHbTime (s_mem s r) \<le> now))"

definition expired :: "NsServer \<Rightarrow> int \<Rightarrow> sref \<Rightarrow> bool" where
  "expired s now r \<longleftrightarrow> si_lastRecvHbTime (s_mem s r) + ServiceKeepaliveTime (s_cfg s) \<le> now"

section \<open>The loop over the LRU list\<close>

lemma expired_loop_take:
  "expired_loop mem k now num xs =
     map (\<lambda>r. si_handle (mem r))
       (take (CheckAliveMaxNumPerTickPerApp - num)
         (takeWhile (\<lambda>r. si_lastRecvHbTime (mem r) + k \<le> now) xs))"
proof (induction xs arbitrary: num)
  case (Cons x xs)
  show ?case
  proof (cases "num < CheckAliveMaxNumPerTickPerApp")
    case True
    then have "CheckAliveMaxNumPerTickPerApp - num = Suc (CheckAliveMaxNumPerTickPerApp - Suc num)" by simp
    then show ?thesis using True Cons.IH [of "Suc num"] by simp
  qed simp
qed simp

lemma takeWhile_sorted_filter:
  fixes f :: "'a \<Rightarrow> int"
  assumes "sorted (map f xs)"
  shows "takeWhile (\<lambda>r. f r + k \<le> now) xs = filter (\<lambda>r. f r + k \<le> now) xs"
  using assms
proof (induction xs)
  case (Cons x xs)
  show ?case
  proof (cases "f x + k \<le> now")
    case False
    with Cons.prems have "\<forall>y \<in> set xs. \<not> f y + k \<le> now" by fastforce
    then show ?thesis using False by (simp add: filter_False)
  qed (use Cons in auto)
qed simp

text \<open>The handles a tick evicts from an application: the first 200 expired ones.\<close>

definition evicted :: "NsServer \<Rightarrow> int \<Rightarrow> string \<Rightarrow> u64 list" where
  "evicted s now app =
     map (\<lambda>r. si_handle (s_mem s r))
       (take CheckAliveMaxNumPerTickPerApp (filter (expired s now) (lru_of s app)))"

lemma expired_loop_evicted:
  assumes "lru_ok now s"
  shows "expired_loop (s_mem s) (ServiceKeepaliveTime (s_cfg s)) now 0 (lru_of s app) = evicted s now app"
  using takeWhile_sorted_filter [of "\<lambda>r. si_lastRecvHbTime (s_mem s r)" "lru_of s app"] assms
  by (simp add: expired_loop_take evicted_def expired_def [abs_def] lru_ok_def)

section \<open>The effect of unregistering\<close>

lemma svc_of_index: "dir_ok s \<Longrightarrow> svc_of s app h = Some r \<Longrightarrow> mget (s_handleServices s) h = Some r"
  by (auto simp: svc_of_def dest: dir_okD(9) split: option.splits)

lemma svc_of_appID: "dir_ok s \<Longrightarrow> svc_of s app h = Some r \<Longrightarrow> si_appID (s_mem s r) = app \<and> si_handle (s_mem s r) = h"
  using services_okD(4,5) dir_okD(4,5) by (fastforce simp: svc_of_def split: option.splits)

lemma sends_svc: "only_sends s t \<Longrightarrow> svc_of t = svc_of s \<and> lru_of t = lru_of s"
  by (simp add: svc_of_def [abs_def] lru_of_def [abs_def] only_sends_fields)

lemma svc_of_removed:
  assumes ok: "dir_ok s" and a: "mget (s_apps s) app = Some a" and r: "mget (ai_services a) h = Some r"
  shows "svc_of (removed s app a h r) app' h' = (if h' = h then None else svc_of s app' h')"
proof -
  have "app' = app" if "svc_of s app' h = Some r'" for r'
    using svc_of_appID [OF ok that] svc_of_index [OF ok that] dir_okD(9) [OF ok a r]
      services_okD(5) [OF dir_okD(5) [OF ok a] r] dir_okD(4) [OF ok a] by simp
  then show ?thesis using a r
    by (cases "svc_of s app' h") (auto simp: svc_of_def removed_def split: option.splits if_splits)
qed

lemma lru_of_removed:
  assumes a: "mget (s_apps s) app = Some a" and r: "mget (ai_services a) h = Some r"
  shows "lru_of (removed s app a h r) app' =
    (if app' = app then filter (\<lambda>x. x \<noteq> r) (lru_of s app) else lru_of s app')"
  using a r by (simp add: lru_of_def removed_def AppInfo_RemoveItem_def)

lemma UnRegister_effect:
  assumes ok: "dir_ok s" and t: "Server_UnRegisterService mar s h k = Some (t, e)"
  shows "dir_ok t" and "same_apps s t"
    and "svc_of t app' h' = (if h' = h then None else svc_of s app' h')"
    and "\<exists>P. lru_of t app' = filter P (lru_of s app')"
    and "svc_of s app' h = None \<Longrightarrow> lru_of t app' = lru_of s app'"
proof -
  show "dir_ok t" using UnRegister_ok [OF ok, of mar h k] t by auto
  show "same_apps s t" using UnRegister_same_apps [OF ok t] .
  have "svc_of t app' h' = (if h' = h then None else svc_of s app' h') \<and>
      (\<exists>P. lru_of t app' = filter P (lru_of s app')) \<and>
      (svc_of s app' h = None \<longrightarrow> lru_of t app' = lru_of s app')"
  proof (cases "mget (s_handleServices s) h")
    case None
    then have "t = s" using t by (simp add: Server_UnRegisterService_def)
    moreover have "svc_of s app' h = None" using None svc_of_index [OF ok] by (cases "svc_of s app' h") auto
    moreover have "\<exists>P. lru_of s app' = filter P (lru_of s app')" by (rule exI [of _ "\<lambda>_. True"]) simp
    ultimately show ?thesis by auto
  next
    case (Some r)
    then obtain a where a: "mget (s_apps s) (si_appID (s_mem s r)) = Some a"
      and r: "mget (ai_services a) h = Some r" using dir_ok_app_of [OF ok] by metis
    from UnRegister_spec [OF ok Some a, of mar k] t
    have "only_sends (removed s (si_appID (s_mem s r)) a h r) t" by auto
    from sends_svc [OF this] svc_of_removed [OF ok a r, of app'] lru_of_removed [OF a r, of app'] a r
    show ?thesis by (auto simp: svc_of_def intro: exI [of _ "\<lambda>_. True"])
  qed
  then show "svc_of t app' h' = (if h' = h then None else svc_of s app' h')"
    "\<exists>P. lru_of t app' = filter P (lru_of s app')"
    "svc_of s app' h = None \<Longrightarrow> lru_of t app' = lru_of s app'" by blast+
qed

lemma UnRegister_list_effect:
  assumes "dir_ok s"
    and "rangeM (\<lambda>h s. map_option fst (Server_UnRegisterService mar s h True)) hs s = Some t"
  shows "dir_ok t \<and> same_apps s t \<and>
    (\<forall>app' h'. svc_of t app' h' = (if h' \<in> set hs then None else svc_of s app' h')) \<and>
    (\<forall>app'. \<exists>P. lru_of t app' = filter P (lru_of s app')) \<and>
    (\<forall>app'. (\<forall>h \<in> set hs. svc_of s app' h = None) \<longrightarrow> lru_of t app' = lru_of s app')"
  using assms
proof (induction hs arbitrary: s)
  case Nil
  then show ?case by (auto simp: same_apps_def intro: exI [of _ "\<lambda>_. True"])
next
  case (Cons h hs)
  then obtain u e where u: "Server_UnRegisterService mar s h True = Some (u, e)"
    and r: "rangeM (\<lambda>h s. map_option fst (Server_UnRegisterService mar s h True)) hs u = Some t"
    by (auto split: Option.bind_splits)
  note eu = UnRegister_effect [OF Cons.prems(1) u]
  note ih = Cons.IH [OF eu(1) r]
  have "same_apps s t" using ih eu(2) by (simp add: same_apps_def)
  moreover have "svc_of t app' h' = (if h' \<in> set (h # hs) then None else svc_of s app' h')" for app' h'
    using ih eu(3) [of app' h'] by auto
  moreover have "\<exists>P. lru_of t app' = filter P (lru_of s app')" for app'
    using ih eu(4) [of app'] by (metis filter_filter)
  moreover have "lru_of t app' = lru_of s app'" if "\<forall>h \<in> set (h # hs). svc_of s app' h = None" for app'
    using ih eu(5) [of app'] eu(3) [of app'] that by simp
  ultimately show ?case using ih by blast
qed

section \<open>The effect of a tick\<close>

lemma checkConfirmExpired_effect:
  assumes ok: "dir_ok s" and t: "AppInfo_checkConfirmExpired mar now s app = Some t"
  shows "dir_ok t" "svc_of t = svc_of s" "lru_of t = lru_of s" "s_mem t = s_mem s"
proof -
  obtain a where a: "mget (s_apps s) app = Some a"
    using t by (auto simp: AppInfo_checkConfirmExpired_def split: Option.bind_splits)
  from checkConfirmExpired_ok [OF ok a, of mar now] t
  have q: "dir_ok t" "s_mem t = s_mem s"
    "\<And>app'. map_option ai_services (mget (s_apps t) app') = map_option ai_services (mget (s_apps s) app')"
    "\<And>app'. map_option ai_svclruList (mget (s_apps t) app') = map_option ai_svclruList (mget (s_apps s) app')"
    by auto
  show "dir_ok t" "s_mem t = s_mem s" by fact+
  have "svc_of t app' h = svc_of s app' h" for app' h
    using q(3) [of app'] by (auto simp: svc_of_def split: option.splits)
  then show "svc_of t = svc_of s" by (intro ext)
  have "lru_of t app' = lru_of s app'" for app'
    using q(4) [of app'] by (auto simp: lru_of_def split: option.splits)
  then show "lru_of t = lru_of s" by (intro ext)
qed

lemma checkConfirmExpired_cfg:
  assumes t: "AppInfo_checkConfirmExpired mar now s app = Some t"
  shows "s_cfg t = s_cfg s"
proof -
  obtain a where "mget (s_apps s) app = Some a"
    using t by (auto simp: AppInfo_checkConfirmExpired_def split: Option.bind_splits)
  with t show ?thesis unfolding AppInfo_checkConfirmExpired_def
    by (simp, elim rangeM_inv [where P = "\<lambda>t. s_cfg t = s_cfg s"])
      (auto split: Option.bind_splits dest!: CheckExpired_only_sends simp: only_sends_fields)
qed

lemma evicted_own:
  assumes ok: "dir_ok s" and "h \<in> set (evicted s now app)" "app' \<noteq> app"
  shows "svc_of s app' h = None"
proof -
  obtain r where r: "r \<in> set (lru_of s app)" "h = si_handle (s_mem s r)"
    using assms(2) unfolding evicted_def set_map by (elim imageE, drule_tac in_set_takeD) auto
  then obtain a where a: "mget (s_apps s) app = Some a" "r \<in> set (ai_svclruList a)"
    by (cases "mget (s_apps s) app") (simp_all add: lru_of_def)
  note so = dir_okD(5) [OF ok a(1)]
  obtain k where k: "mget (ai_services a) k = Some r"
    using a(2) services_okD(3) [OF so] in_mvals_iff [OF services_okD(1) [OF so]] by auto
  then have "svc_of s app h = Some r" using services_okD(4) [OF so k] r a by (simp add: svc_of_def)
  from svc_of_appID [OF ok this] svc_of_index [OF ok this] assms(3) show ?thesis
    using svc_of_appID [OF ok, of app' h] svc_of_index [OF ok, of app' h] by (cases "svc_of s app' h") auto
qed

lemma OnTick_app_effect:
  assumes ok: "dir_ok s" and lru: "lru_ok now s" and t: "AppInfo_OnTick mar now s app = Some t"
  shows "dir_ok t" and "s_mem t = s_mem s" and "s_cfg t = s_cfg s"
    and "svc_of t app' h = (if h \<in> set (evicted s now app) then None else svc_of s app' h)"
    and "app' \<noteq> app \<Longrightarrow> lru_of t app' = lru_of s app'"
    and "\<exists>P. lru_of t app' = filter P (lru_of s app')"
proof -
  from t obtain u where u: "AppInfo_checkServiceAlive mar now s app = Some u"
    and c: "AppInfo_checkConfirmExpired mar now u app = Some t"
    by (auto simp: AppInfo_OnTick_def split: Option.bind_splits)
  from u obtain a where a: "mget (s_apps s) app = Some a"
    by (auto simp: AppInfo_checkServiceAlive_def split: Option.bind_splits)
  then have "lru_of s app = ai_svclruList a" by (simp add: lru_of_def)
  with u a expired_loop_evicted [OF lru, of app]
  have "rangeM (\<lambda>h s. map_option fst (Server_UnRegisterService mar s h True)) (evicted s now app) s = Some u"
    by (simp add: AppInfo_checkServiceAlive_def)
  note eu = UnRegister_list_effect [OF ok this]
  note ec = checkConfirmExpired_effect [OF _ c]
  show "dir_ok t" "s_mem t = s_mem s" "s_cfg t = s_cfg s"
    using ec eu checkConfirmExpired_cfg [OF c] by (auto simp: same_apps_def)
  show "svc_of t app' h = (if h \<in> set (evicted s now app) then None else svc_of s app' h)"
    using eu ec(2) by simp
  show "lru_of t app' = lru_of s app'" if "app' \<noteq> app"
    using eu ec(3) evicted_own [OF ok _ that] by simp
  show "\<exists>P. lru_of t app' = filter P (lru_of s app')" using eu ec(3) by simp
qed

lemma lru_ok_shrink:
  assumes "lru_ok now s" "s_mem t = s_mem s" "\<And>app. \<exists>P. lru_of t app = filter P (lru_of s app)"
  shows "lru_ok now t"
proof -
  have "sorted (map (\<lambda>r. si_lastRecvHbTime (s_mem t r)) (lru_of t app)) \<and>
      (\<forall>r \<in> set (lru_of t app). si_lastRecvHbTime (s_mem t r) \<le> now)" for app
  proof -
    obtain P where "lru_of t app = filter P (lru_of s app)" using assms(3) by blast
    moreover have "sorted (map (\<lambda>r. si_lastRecvHbTime (s_mem s r)) (filter P (lru_of s app)))"
      using assms(1) by (intro sorted_filter) (simp add: lru_ok_def)
    ultimately show ?thesis using assms(1,2) by (auto simp: lru_ok_def)
  qed
  then show ?thesis by (simp add: lru_ok_def)
qed

lemma evicted_cong:
  "s_mem t = s_mem s \<Longrightarrow> s_cfg t = s_cfg s \<Longrightarrow> lru_of t app = lru_of s app \<Longrightarrow>
     evicted t now app = evicted s now app"
  by (simp add: evicted_def expired_def [abs_def])

lemma OnTick_list_effect:
  assumes "dir_ok s" "lru_ok now s" "distinct apps"
    and "rangeM (\<lambda>app s. AppInfo_OnTick mar now s app) apps s = Some t"
  shows "dir_ok t \<and> s_mem t = s_mem s \<and> s_cfg t = s_cfg s \<and>
    (\<forall>app. \<exists>P. lru_of t app = filter P (lru_of s app)) \<and>
    (\<forall>app h. svc_of t app h =
       (if app \<in> set apps \<and> h \<in> set (evicted s now app) then None else svc_of s app h))"
  using assms
proof (induction apps arbitrary: s)
  case Nil
  then show ?case by (auto intro: exI [of _ "\<lambda>_. True"])
next
  case (Cons x xs)
  then obtain u where u: "AppInfo_OnTick mar now s x = Some u"
    and r: "rangeM (\<lambda>app s. AppInfo_OnTick mar now s app) xs u = Some t"
    by (auto split: Option.bind_splits)
  note eu = OnTick_app_effect [OF Cons.prems(1,2) u]
  have "lru_ok now u" using Cons.prems(2) eu(2,6) by (rule lru_ok_shrink)
  from Cons.IH [OF eu(1) this _ r] Cons.prems(3) have ih:
    "dir_ok t" "s_mem t = s_mem u" "s_cfg t = s_cfg u" "\<And>app. \<exists>P. lru_of t app = filter P (lru_of u app)"
    "\<And>app h. svc_of t app h =
       (if app \<in> set xs \<and> h \<in> set (evicted u now app) then None else svc_of u app h)" by simp_all
  have "svc_of t app h =
       (if app \<in> set (x # xs) \<and> h \<in> set (evicted s now app) then None else svc_of s app h)" for app h
  proof (cases "app = x")
    case True
    then show ?thesis using ih(5) [of app h] eu(4) [of app h] Cons.prems(3) by simp
  next
    case False
    have "evicted u now app = evicted s now app"
      by (rule evicted_cong [OF eu(2,3) eu(5) [OF False]])
    moreover have "svc_of u app h = svc_of s app h"
      unfolding eu(4) [of app h] using evicted_own [OF Cons.prems(1) _ False, of h now] by presburger
    ultimately show ?thesis using False ih(5) [of app h] by simp
  qed
  moreover have "\<exists>P. lru_of t app = filter P (lru_of s app)" for app
    using ih(4) [of app] eu(6) [of app] by (metis filter_filter)
  ultimately show ?case using ih eu(2,3) by simp
qed

end
