(* ===== verification/NsSpec.thy ===== *)
theory NsSpec
  imports NsLru
begin

text \<open>
  The name server as an abstract directory: the set of applications and, for every handle, the
  registered service. Every message of the queue acts on the detailed tables as the abstract
  step acts on the directory, and it keeps the LRU order the tick relies on.
\<close>

record NsDir =
  d_apps :: "string set"
  d_svc :: "u64 \<rightharpoonup> ServiceInfo"

definition abs_dir :: "NsServer \<Rightarrow> NsDir" where
  "abs_dir s = \<lparr>d_apps = dom (mget (s_apps s)),
     d_svc = (\<lambda>h. map_option (s_mem s) (mget (s_handleServices s) h))\<rparr>"

fun dir_step :: "int \<Rightarrow> int \<Rightarrow> (string \<Rightarrow> string \<Rightarrow> bool) \<Rightarrow> NsMsg \<Rightarrow> NsDir \<Rightarrow> NsDir" where
  "dir_step now keepalive sess (RegAppMsg serverAddr appid) d =
     (if sess serverAddr appid then d\<lparr>d_apps := insert appid (d_apps d)\<rparr> else d)"
| "dir_step now keepalive sess (RegServiceMsg serverAddr appid serviceAddr serviceOpts) d =
     (if appid \<in> d_apps d \<and> d_svc d (AddrHandle serviceAddr) = None
      then d\<lparr>d_svc := (d_svc d)(AddrHandle serviceAddr \<mapsto>
             \<lparr>si_serverAddr = serverAddr, si_appID = appid, si_serviceAddr = serviceAddr,
              si_lastRecvHbTime = now, si_serviceOpts = serviceOpts\<rparr>)\<rparr>
      else d)"
| "dir_step now keepalive sess (UnRegServiceMsg h) d = d\<lparr>d_svc := (d_svc d)(h := None)\<rparr>"
| "dir_step now keepalive sess (ServiceHeartbeat h) d =
     d\<lparr>d_svc := (d_svc d)(h := map_option (\<lambda>si. si\<lparr>si_lastRecvHbTime := now\<rparr>) (d_svc d h))\<rparr>"
| "dir_step now keepalive sess TickMsg d =
     d\<lparr>d_svc := (\<lambda>h. case d_svc d h of
          Some si \<Rightarrow> (if si_lastRecvHbTime si + keepalive \<le> now then None else Some si) | None \<Rightarrow> None)\<rparr>"
| "dir_step now keepalive sess _ d = d"

section \<open>Messages that leave the directory alone\<close>

definition keeps :: "NsServer \<Rightarrow> NsServer \<Rightarrow> bool" where
  "keeps s t \<longleftrightarrow> s_mem t = s_mem s \<and> s_handleServices t = s_handleServices s \<and>
     (\<forall>app. map_option ai_svclruList (mget (s_apps t) app) = map_option ai_svclruList (mget (s_apps s) app))"

lemma keeps_refl [simp, intro]: "keeps s s"
  by (simp add: keeps_def)

lemma keeps_trans: "keeps s t \<Longrightarrow> keeps t u \<Longrightarrow> keeps s u"
  by (simp add: keeps_def)

lemma keeps_sends: "only_sends s t \<Longrightarrow> keeps s t"
  by (simp add: keeps_def only_sends_fields)

lemma keeps_upd:
  "mget (s_apps s) app = Some a \<Longrightarrow> ai_svclruList b = ai_svclruList a \<Longrightarrow>
     keeps s (s\<lparr>s_apps := mput app b (s_apps s)\<rparr>)"
  by (simp add: keeps_def)

lemma keeps_upd_sends:
  "only_sends (s\<lparr>s_apps := mput app b (s_apps s)\<rparr>) t \<Longrightarrow> mget (s_apps s) app = Some a \<Longrightarrow>
     ai_svclruList b = ai_svclruList a \<Longrightarrow> keeps s t"
  by (rule keeps_trans [OF keeps_upd keeps_sends])

lemma keeps_routers: "routers_upd app s t \<Longrightarrow> keeps s t"
  unfolding routers_upd_def by (auto elim: keeps_upd_sends)

lemma keeps_lru_of: "keeps s t \<Longrightarrow> lru_of t app = lru_of s app"
  unfolding keeps_def lru_of_def by (auto split: option.split) (metis option.simps(8,9) option.inject option.distinct(1))+

lemma keeps_lru_ok: "keeps s t \<Longrightarrow> lru_ok now s \<Longrightarrow> lru_ok now t"
  using keeps_lru_of [of s t] by (simp add: lru_ok_def) (simp add: keeps_def)

lemma keeps_abs: "keeps s t \<Longrightarrow> abs_dir t = abs_dir s"
proof -
  assume k: "keeps s t"
  then have "dom (mget (s_apps t)) = dom (mget (s_apps s))"
    unfolding keeps_def dom_def by (metis map_option_is_None)
  then show ?thesis using k by (simp add: abs_dir_def keeps_def)
qed

lemma ElectionEvent_keeps:
  assumes ok: "dir_ok s" and t: "Server_OnServiceElectionEvent mar s h event = Some (t, e)"
  shows "keeps s t"
proof (cases "mget (s_handleServices s) h")
  case (Some r)
  then obtain a where a: "mget (s_apps s) (si_appID (s_mem s r)) = Some a"
    and r: "mget (ai_services a) h = Some r" using dir_ok_app_of [OF ok] by metis
  have "keeps s t'" if "AppInfo_OnServiceGiveupElection mar s (si_appID (s_mem s r)) h = Some t'" for t'
    using GiveupElection_ok [OF ok a r, of mar] that a
    by (auto elim: keeps_upd_sends)
  moreover have "keeps s t'" if "AppInfo_OnServiceRunForElection mar s (si_appID (s_mem s r)) h = Some t'" for t'
    using RunForElection_ok [OF ok a r, of mar] that a
    by (auto elim: keeps_upd_sends)
  ultimately show ?thesis using t Some a
    by (auto simp: Server_OnServiceElectionEvent_def Let_def split: Option.bind_splits if_splits)
qed (use t in \<open>simp add: Server_OnServiceElectionEvent_def\<close>)

lemma SyncAttr_keeps:
  assumes t: "Server_OnServiceSyncAttr mar s h attrs = Some (t, e)"
  shows "keeps s t"
  using t by (auto simp: Server_OnServiceSyncAttr_def Let_def
      intro: keeps_sends [OF BroadcastSyncAttr_only_sends] split: option.splits Option.bind_splits)

lemma NameRouter_keeps:
  assumes ok: "dir_ok s" and t: "Server_OnRegisterNameRouter mar s appID sa n = Some (t, e)"
  shows "keeps s t"
proof (cases "mget (s_apps s) appID")
  case (Some a)
  with AddNameRouter_ok [OF dir_okD(1) [OF ok] Some, of mar sa n] t show ?thesis
    by (auto simp: Server_OnRegisterNameRouter_def intro: keeps_routers)
qed (use t in \<open>simp add: Server_OnRegisterNameRouter_def\<close>)

section \<open>Registration\<close>

lemma RegisterApp_spec:
  assumes t: "Server_RegisterApp mar s sa appID = Some (t, e)"
  shows "keeps (if Server_GetSession s sa appID = Some None then s
     else s\<lparr>s_apps := mput appID (case mget (s_apps s) appID of Some a \<Rightarrow> a | None \<Rightarrow> AppInfo_Init appID) (s_apps s)\<rparr>) t"
proof -
  define a where a: "a = (case mget (s_apps s) appID of Some app \<Rightarrow> app | None \<Rightarrow> AppInfo_Init appID)"
  have "keeps u (AppInfo_NotifyOthersOnlineToSelf mar (NsReceiver_Send u c b) a sa c)" for u c b
    by (rule keeps_sends [OF only_sends_trans [OF NsReceiver_Send_only_sends NotifyOthers_only_sends]])
  then show ?thesis using t unfolding a [symmetric]
    by (auto simp: Server_RegisterApp_def Let_def a [symmetric] split: Option.bind_splits option.splits)
qed

lemma RegisterService_spec:
  assumes ok: "dir_ok s" and t: "Server_RegisterService mar now s appID sa addr opts = Some (t, e)"
  defines "si \<equiv> \<lparr>si_serverAddr = sa, si_appID = appID, si_serviceAddr = addr,
                si_lastRecvHbTime = now, si_serviceOpts = opts\<rparr>"
  shows "keeps (case mget (s_apps s) appID of
      Some a \<Rightarrow> (if mget (s_handleServices s) (AddrHandle addr) = None then added s appID a si else s)
    | None \<Rightarrow> s) t"
proof (cases "mget (s_handleServices s) (AddrHandle addr) = None")
  case new: True
  show ?thesis
  proof (cases "mget (s_apps s) appID")
    case None
    with new t show ?thesis
      by (auto simp: Server_RegisterService_def
          intro: keeps_sends [OF NsReceiver_Send_only_sends] split: option.splits Option.bind_splits)
  next
    case (Some a)
    let ?s = "added s appID a si"
    let ?a = "AppInfo_AddItem ((s_mem s)(s_next s := si)) a (s_next s)"
    have ok': "dir_ok ?s" using dir_ok_added [OF ok Some, of si] new by (simp add: si_def)
    have a': "mget (s_apps ?s) appID = Some ?a" by (simp add: added_def Let_def)
    have "AppInfo_Start2StageConfirm mar now ?s appID si = Some t \<or>
        AppInfo_NotifyConfirmResult mar ?s ?a (AddrHandle addr) SSError_OK = Some t"
      using t new Some by (auto simp: Server_RegisterService_def added_def Let_def si_def
          split: if_splits Option.bind_splits)
    then have "keeps ?s t"
      using Start2StageConfirm_ok [OF dir_okD(1) [OF ok'] a', of mar now si]
      by (auto intro: keeps_routers keeps_sends [OF NotifyConfirmResult_only_sends])
    then show ?thesis using new Some by simp
  qed
qed (use t in \<open>auto simp: Server_RegisterService_def split: option.split\<close>)

section \<open>The abstraction commutes\<close>

lemma dom_if [simp]: "dom (\<lambda>x. if x = k then Some v else m x) = insert k (dom m)"
  by (auto split: if_splits)

lemma abs_added:
  assumes "dir_ok s" "mget (s_apps s) app = Some a"
  shows "abs_dir (added s app a si) = (abs_dir s)\<lparr>d_svc := (d_svc (abs_dir s))(si_handle si \<mapsto> si)\<rparr>"
proof -
  have "r \<noteq> s_next s" if "mget (s_handleServices s) h = Some r" for h r
    using dir_okD(8,10) [OF assms(1)] that by blast
  then have "map_option ((s_mem s)(s_next s := si)) (mget (s_handleServices s) h) =
      map_option (s_mem s) (mget (s_handleServices s) h)" for h
    by (cases "mget (s_handleServices s) h") auto
  then show ?thesis using assms(2) by (simp add: abs_dir_def added_def Let_def insert_absorb domI fun_eq_iff)
qed

lemma abs_removed:
  "mget (s_apps s) app = Some a \<Longrightarrow>
     abs_dir (removed s app a h r) = (abs_dir s)\<lparr>d_svc := (d_svc (abs_dir s))(h := None)\<rparr>"
  by (simp add: abs_dir_def removed_def insert_absorb domI fun_eq_iff)

lemma index_handle:
  assumes ok: "dir_ok s" and h: "mget (s_handleServices s) h = Some r"
  shows "si_handle (s_mem s r) = h"
proof -
  obtain a where a: "mget (s_apps s) (si_appID (s_mem s r)) = Some a" and r: "mget (ai_services a) h = Some r"
    by (rule dir_ok_app_of [OF ok h])
  from services_okD(4) [OF dir_okD(5) [OF ok a] r] show ?thesis .
qed

lemma abs_beaten:
  assumes ok: "dir_ok s" and h: "mget (s_handleServices s) h = Some r"
    and a: "mget (s_apps s) (si_appID (s_mem s r)) = Some a"
  shows "abs_dir (beaten now s (si_appID (s_mem s r)) a r) =
    (abs_dir s)\<lparr>d_svc := (d_svc (abs_dir s))(h \<mapsto> (s_mem s r)\<lparr>si_lastRecvHbTime := now\<rparr>)\<rparr>"
proof -
  have "mget (s_handleServices s) h' \<noteq> Some r" if "h' \<noteq> h" for h'
    using index_handle [OF ok, of h' r] index_handle [OF ok h] that by auto
  then have "map_option ((s_mem s)(r := x)) (mget (s_handleServices s) h') =
      (if h' = h then Some x else map_option (s_mem s) (mget (s_handleServices s) h'))" for h' x
    using h by (cases "h' = h"; cases "mget (s_handleServices s) h'") auto
  then have "(\<lambda>h'. map_option ((s_mem s)(r := x)) (mget (s_handleServices s) h')) =
      (\<lambda>h'. map_option (s_mem s) (mget (s_handleServices s) h'))(h \<mapsto> x)" for x
    by (simp only: fun_upd_def)
  moreover have "insert (si_appID (s_mem s r)) (dom (mget (s_apps s))) = dom (mget (s_apps s))"
    using a by (simp add: insert_absorb domI)
  ultimately show ?thesis by (simp add: abs_dir_def beaten_def del: fun_upd_apply)
qed

lemma UnRegister_abs:
  assumes ok: "dir_ok s" and t: "Server_UnRegisterService mar s h k = Some (t, e)"
  shows "abs_dir t = (abs_dir s)\<lparr>d_svc := (d_svc (abs_dir s))(h := None)\<rparr>"
proof (cases "mget (s_handleServices s) h")
  case None
  then have "d_svc (abs_dir s) h = None" by (simp add: abs_dir_def)
  then show ?thesis using t None by (simp add: Server_UnRegisterService_def fun_upd_idem)
next
  case (Some r)
  then obtain a where a: "mget (s_apps s) (si_appID (s_mem s r)) = Some a" using dir_ok_app_of [OF ok] by metis
  from UnRegister_spec [OF ok Some a, of mar k] t
  have "only_sends (removed s (si_appID (s_mem s r)) a h r) t" by auto
  from keeps_abs [OF keeps_sends [OF this]] abs_removed [OF a] show ?thesis by simp
qed

lemma Heartbeat_abs:
  assumes ok: "dir_ok s" and t: "Server_OnServiceHeartbeat now s h = Some (t, e)"
  shows "abs_dir t = dir_step now k sess (ServiceHeartbeat h) (abs_dir s)"
proof (cases "mget (s_handleServices s) h")
  case None
  then have "d_svc (abs_dir s) h = None" by (simp add: abs_dir_def)
  then show ?thesis using t None by (simp add: Server_OnServiceHeartbeat_def fun_upd_idem)
next
  case (Some r)
  then obtain a where a: "mget (s_apps s) (si_appID (s_mem s r)) = Some a" using dir_ok_app_of [OF ok] by metis
  have "d_svc (abs_dir s) h = Some (s_mem s r)" using Some by (simp add: abs_dir_def)
  then show ?thesis using Heartbeat_spec [OF ok Some a, of now] t abs_beaten [OF ok Some a] by simp
qed

section \<open>The LRU order\<close>

lemma lru_ok_via:
  "lru_ok now s \<longleftrightarrow> (\<forall>app. let ts = map (\<lambda>r. si_lastRecvHbTime (s_mem s r)) (lru_of s app)
     in sorted ts \<and> (\<forall>x \<in> set ts. x \<le> now))"
  by (simp add: lru_ok_def)

lemma lru_ok_added:
  assumes ok: "dir_ok s" and a: "mget (s_apps s) app = Some a" and lru: "lru_ok now s"
    and si: "si_lastRecvHbTime si = now"
  shows "lru_ok now (added s app a si)"
proof -
  have "r \<noteq> s_next s" if "r \<in> set (lru_of s app')" for app' r
  proof -
    obtain b where b: "mget (s_apps s) app' = Some b" "r \<in> set (ai_svclruList b)"
      using \<open>r \<in> set (lru_of s app')\<close> by (cases "mget (s_apps s) app'") (simp_all add: lru_of_def)
    note so = dir_okD(5) [OF ok b(1)]
    obtain k where "mget (ai_services b) k = Some r"
      using b(2) services_okD(3) [OF so] in_mvals_iff [OF services_okD(1) [OF so]] by auto
    from dir_okD(8) [OF ok b(1) this] show ?thesis by simp
  qed
  then have same: "map (\<lambda>r. si_lastRecvHbTime (((s_mem s)(s_next s := si)) r)) (lru_of s app') =
      map (\<lambda>r. si_lastRecvHbTime (s_mem s r)) (lru_of s app')" for app'
    by (intro map_cong) auto
  have lruT: "lru_of (added s app a si) app' = (if app' = app then lru_of s app @ [s_next s] else lru_of s app')" for app'
    using a by (simp add: lru_of_def added_def Let_def)
  have memT: "s_mem (added s app a si) = (s_mem s)(s_next s := si)" by (simp add: added_def Let_def)
  show ?thesis unfolding lru_ok_via memT lruT if_distrib [of "map _"] map_append same
    using lru si by (auto simp: lru_ok_via sorted_append)
qed

lemma lru_ok_beaten:
  assumes ok: "dir_ok s" and lru: "lru_ok now s" and h: "mget (s_handleServices s) h = Some r"
    and a: "mget (s_apps s) (si_appID (s_mem s r)) = Some a"
  shows "lru_ok now (beaten now s (si_appID (s_mem s r)) a r)"
proof -
  let ?app = "si_appID (s_mem s r)"
  have rs: "mget (ai_services a) h = Some r" using dir_okD(10) [OF ok h] a by auto
  note so = dir_okD(5) [OF ok a]
  have mem: "r \<in> set (ai_svclruList a)"
    using rs services_okD(3) [OF so] in_mvals_iff [OF services_okD(1) [OF so]] by auto
  have other: "r \<notin> set (lru_of s app')" if "app' \<noteq> ?app" for app'
  proof
    assume "r \<in> set (lru_of s app')"
    then obtain b where b: "mget (s_apps s) app' = Some b" "r \<in> set (ai_svclruList b)"
      by (cases "mget (s_apps s) app'") (simp_all add: lru_of_def)
    note sb = dir_okD(5) [OF ok b(1)]
    obtain k where "mget (ai_services b) k = Some r"
      using b(2) services_okD(3) [OF sb] in_mvals_iff [OF services_okD(1) [OF sb]] by auto
    from services_okD(5) [OF sb this] dir_okD(4) [OF ok b(1)] that show False by simp
  qed
  let ?hb = "\<lambda>r'. si_lastRecvHbTime (((s_mem s)(r := (s_mem s r)\<lparr>si_lastRecvHbTime := now\<rparr>)) r')"
  have same: "map ?hb xs = map (\<lambda>r. si_lastRecvHbTime (s_mem s r)) xs" if "r \<notin> set xs" for xs
    using that by (intro map_cong) auto
  have tail: "list_MoveToBack r (ai_svclruList a) = remove1 r (ai_svclruList a) @ [r]"
    using mem by (simp add: list_MoveToBack_def)
  have nr: "r \<notin> set (remove1 r (ai_svclruList a))" using services_okD(2) [OF so] by simp
  have own: "sorted (map (\<lambda>r. si_lastRecvHbTime (s_mem s r)) (remove1 r (ai_svclruList a)))"
    "\<forall>x \<in> set (ai_svclruList a). si_lastRecvHbTime (s_mem s x) \<le> now"
    using lru a sorted_map_remove1 [of "\<lambda>r. si_lastRecvHbTime (s_mem s r)" "ai_svclruList a" r]
    by (auto simp: lru_ok_def lru_of_def dest: spec [of _ ?app])
  have lruT: "lru_of (beaten now s ?app a r) app' =
      (if app' = ?app then remove1 r (ai_svclruList a) @ [r] else lru_of s app')" for app'
    by (simp add: lru_of_def beaten_def tail)
  have memT: "s_mem (beaten now s ?app a r) = (s_mem s)(r := (s_mem s r)\<lparr>si_lastRecvHbTime := now\<rparr>)"
    by (simp add: beaten_def)
  have "sorted (map ?hb (remove1 r (ai_svclruList a) @ [r])) \<and>
      (\<forall>x \<in> set (map ?hb (remove1 r (ai_svclruList a) @ [r])). x \<le> now)"
    unfolding map_append same [OF nr]
    using own set_remove1_subset [of r "ai_svclruList a"] by (auto simp: sorted_append)
  moreover have "sorted (map ?hb (lru_of s app')) \<and> (\<forall>x \<in> set (map ?hb (lru_of s app')). x \<le> now)"
    if "app' \<noteq> ?app" for app'
    unfolding same [OF other [OF that]] using lru by (auto simp: lru_ok_def)
  ultimately show ?thesis unfolding lru_ok_via lruT memT Let_def by presburger
qed

section \<open>The tick\<close>

lemma OnTick_effect:
  assumes ok: "dir_ok s" and lru: "lru_ok now s" and t: "Server_OnTick mar now s = Some t"
  shows "dir_ok t" and "s_mem t = s_mem s" and "lru_ok now t"
    and "svc_of t app h = (if h \<in> set (evicted s now app) then None else svc_of s app h)"
    and "dom (mget (s_apps t)) = dom (mget (s_apps s))"
proof -
  have d: "distinct (mkeys (s_apps s))" using dir_okD(3) [OF ok] by (simp add: mwf_def)
  note e = OnTick_list_effect [OF ok lru d t [unfolded Server_OnTick_def]]
  show "dir_ok t" "s_mem t = s_mem s" using e by blast+
  show "lru_ok now t" by (rule lru_ok_shrink [OF lru]) (use e in blast)+
  have "svc_of s app h = None" if "app \<notin> set (mkeys (s_apps s))"
    using that by (cases "mget (s_apps s) app") (auto simp: svc_of_def in_mkeys_iff)
  then show "svc_of t app h = (if h \<in> set (evicted s now app) then None else svc_of s app h)"
    using e by (cases "app \<in> set (mkeys (s_apps s))") simp_all
  have "set (mkeys (s_apps t)) = set (mkeys (s_apps s))" using OnTick_ok [OF ok, of mar now] t by auto
  then show "dom (mget (s_apps t)) = dom (mget (s_apps s))"
    by (auto simp: in_mkeys_iff dom_def set_eq_iff)
qed

lemma index_svc_of:
  assumes ok: "dir_ok s"
  shows "mget (s_handleServices s) h = Some r \<longleftrightarrow> svc_of s (si_appID (s_mem s r)) h = Some r"
  using svc_of_index [OF ok] by (auto simp: svc_of_def elim: dir_ok_app_of [OF ok])

lemma expired_evicted:
  assumes ok: "dir_ok s" and r: "svc_of s app h = Some r"
    and few: "length (filter (expired s now) (lru_of s app)) \<le> CheckAliveMaxNumPerTickPerApp"
  shows "h \<in> set (evicted s now app) \<longleftrightarrow> expired s now r"
proof -
  obtain a where a: "mget (s_apps s) app = Some a" and ra: "mget (ai_services a) h = Some r"
    using r by (cases "mget (s_apps s) app") (auto simp: svc_of_def)
  note so = dir_okD(5) [OF ok a]
  have lru: "set (lru_of s app) = set (mvals (ai_services a))"
    using a services_okD(3) [OF so] by (simp add: lru_of_def)
  have rl: "r \<in> set (lru_of s app)" unfolding lru using in_mvals_iff [OF services_okD(1) [OF so]] ra by auto
  have inj: "r' = r" if r': "r' \<in> set (lru_of s app)" "si_handle (s_mem s r') = h" for r'
  proof -
    obtain k where k: "mget (ai_services a) k = Some r'"
      using r'(1) unfolding lru using in_mvals_iff [OF services_okD(1) [OF so]] by auto
    from services_okD(4) [OF so k] r'(2) k ra show ?thesis by simp
  qed
  have rh: "si_handle (s_mem s r) = h" using svc_of_appID [OF ok r] by simp
  have ev: "set (evicted s now app) =
      (\<lambda>r. si_handle (s_mem s r)) ` {r \<in> set (lru_of s app). expired s now r}"
    using few by (simp add: evicted_def)
  show ?thesis
  proof
    assume "h \<in> set (evicted s now app)"
    then obtain r' where "r' \<in> set (lru_of s app)" "expired s now r'" "si_handle (s_mem s r') = h"
      unfolding ev by auto
    then show "expired s now r" using inj by simp
  next
    assume "expired s now r"
    then show "h \<in> set (evicted s now app)" unfolding ev by (intro image_eqI [of _ _ r]) (simp_all add: rl rh)
  qed
qed

text \<open>Evicted handles belong to expired services, however many there are.\<close>

lemma evicted_expired:
  assumes ok: "dir_ok s" and r: "svc_of s app h = Some r" and h: "h \<in> set (evicted s now app)"
  shows "expired s now r"
proof -
  obtain a where a: "mget (s_apps s) app = Some a" and ra: "mget (ai_services a) h = Some r"
    using r by (cases "mget (s_apps s) app") (auto simp: svc_of_def)
  note so = dir_okD(5) [OF ok a]
  obtain r' where r': "r' \<in> set (lru_of s app)" "expired s now r'" "si_handle (s_mem s r') = h"
    using h set_take_subset [of CheckAliveMaxNumPerTickPerApp "filter (expired s now) (lru_of s app)"]
    by (auto simp: evicted_def)
  then obtain k where "mget (ai_services a) k = Some r'"
    using a services_okD(3) [OF so] in_mvals_iff [OF services_okD(1) [OF so]] by (auto simp: lru_of_def)
  with services_okD(4) [OF so this] r'(3) ra have "r' = r" by simp
  then show ?thesis using r'(2) by simp
qed

lemma OnTick_abs:
  assumes ok: "dir_ok s" and lru: "lru_ok now s" and t: "Server_OnTick mar now s = Some t"
    and few: "\<And>app. length (filter (expired s now) (lru_of s app)) \<le> CheckAliveMaxNumPerTickPerApp"
  shows "abs_dir t = dir_step now (ServiceKeepaliveTime (s_cfg s)) sess TickMsg (abs_dir s)"
proof -
  note e = OnTick_effect [OF ok lru t]
  have "mget (s_handleServices t) h = Some r \<longleftrightarrow>
      mget (s_handleServices s) h = Some r \<and> \<not> expired s now r" for h r
    unfolding index_svc_of [OF e(1)] index_svc_of [OF ok] e(2,4)
    using expired_evicted [OF ok _ few, of "si_appID (s_mem s r)" h r] by auto
  note iff = this
  have "mget (s_handleServices t) h =
      (case mget (s_handleServices s) h of Some r \<Rightarrow> (if expired s now r then None else Some r) | None \<Rightarrow> None)" for h
  proof (cases "mget (s_handleServices t) h")
    case None
    with iff [of h] show ?thesis by (auto split: option.split)
  next
    case (Some r)
    with iff [of h r] show ?thesis by simp
  qed
  then have "map_option (s_mem s) (mget (s_handleServices t) h) =
     (case map_option (s_mem s) (mget (s_handleServices s) h) of
          Some si \<Rightarrow> (if si_lastRecvHbTime si + ServiceKeepaliveTime (s_cfg s) \<le> now then None else Some si)
        | None \<Rightarrow> None)" for h
    by (simp add: expired_def split: option.split)
  then show ?thesis using e(2,5) by (simp add: abs_dir_def)
qed

section \<open>Every message\<close>

lemma lru_ok_mono: "lru_ok now s \<Longrightarrow> now \<le> now' \<Longrightarrow> lru_ok now' s"
  unfolding lru_ok_def by force

lemma UnRegister_lru_ok:
  assumes ok: "dir_ok s" and t: "Server_UnRegisterService mar s h k = Some (t, e)" and lru: "lru_ok now s"
  shows "lru_ok now t"
  using lru_ok_shrink [OF lru] UnRegister_effect(2,4) [OF ok t] by (auto simp: same_apps_def)

lemma Heartbeat_lru_ok:
  assumes ok: "dir_ok s" and t: "Server_OnServiceHeartbeat now s h = Some (t, e)" and lru: "lru_ok now s"
  shows "lru_ok now t"
proof (cases "mget (s_handleServices s) h")
  case (Some r)
  then obtain a where a: "mget (s_apps s) (si_appID (s_mem s r)) = Some a" using dir_ok_app_of [OF ok] by metis
  from Heartbeat_spec [OF ok Some a, of now] t lru_ok_beaten [OF ok lru Some a] show ?thesis by simp
qed (use t lru in \<open>simp add: Server_OnServiceHeartbeat_def\<close>)

lemma onMessage_lru_ok:
  assumes ok: "dir_ok s" and lru: "lru_ok now s" and t: "Server_onMessage mar now s msg = Some (t, e)"
  shows "lru_ok now t"
proof (cases msg)
  case (RegAppMsg sa app)
  have "lru_ok now (s\<lparr>s_apps := mput app (case mget (s_apps s) app of Some a \<Rightarrow> a | None \<Rightarrow> AppInfo_Init app) (s_apps s)\<rparr>)"
    using lru by (auto simp: lru_ok_def lru_of_def AppInfo_Init_def split: option.splits)
  then show ?thesis using RegisterApp_spec [of mar s sa app t e] t RegAppMsg lru
    by (auto intro: keeps_lru_ok split: if_splits)
next
  case (RegServiceMsg sa app addr opts)
  then show ?thesis
    using RegisterService_spec [OF ok, of mar now app sa addr opts t e] t lru lru_ok_added [OF ok _ lru]
    by (auto intro: keeps_lru_ok split: if_splits option.splits)
next
  case TickMsg
  then show ?thesis using t OnTick_effect(3) [OF ok lru] by (auto split: Option.bind_splits)
qed (use t ok lru in \<open>auto intro: keeps_lru_ok ElectionEvent_keeps SyncAttr_keeps NameRouter_keeps
      UnRegister_lru_ok Heartbeat_lru_ok\<close>)

definition has_session :: "NsServer \<Rightarrow> string \<Rightarrow> string \<Rightarrow> bool" where
  "has_session s serverAddr appid \<longleftrightarrow> Server_GetSession s serverAddr appid \<noteq> Some None"

lemma RegisterApp_abs:
  assumes t: "Server_RegisterApp mar s sa app = Some (t, e)"
  shows "abs_dir t = dir_step now k (has_session s) (RegAppMsg sa app) (abs_dir s)"
  using keeps_abs [OF RegisterApp_spec [OF t]] by (auto simp: has_session_def abs_dir_def)

lemma RegisterService_abs:
  assumes ok: "dir_ok s" and t: "Server_RegisterService mar now s app sa addr opts = Some (t, e)"
  shows "abs_dir t = dir_step now k sess (RegServiceMsg sa app addr opts) (abs_dir s)"
proof -
  have "d_svc (abs_dir s) (AddrHandle addr) = None \<longleftrightarrow> mget (s_handleServices s) (AddrHandle addr) = None"
    "app \<in> d_apps (abs_dir s) \<longleftrightarrow> mget (s_apps s) app \<noteq> None" by (auto simp: abs_dir_def)
  then show ?thesis using keeps_abs [OF RegisterService_spec [OF ok t]] abs_added [OF ok]
    by (cases "mget (s_apps s) app") simp_all
qed

lemma onMessage_abs:
  assumes ok: "dir_ok s" and lru: "lru_ok now s" and t: "Server_onMessage mar now s msg = Some (t, e)"
    and few: "msg = TickMsg \<Longrightarrow> \<forall>app. length (filter (expired s now) (lru_of s app)) \<le> CheckAliveMaxNumPerTickPerApp"
  shows "abs_dir t = dir_step now (ServiceKeepaliveTime (s_cfg s)) (has_session s) msg (abs_dir s)"
proof (cases msg)
  case TickMsg
  then show ?thesis using t few OnTick_abs [OF ok lru] by (auto split: Option.bind_splits)
next
  case (RegAppMsg sa app)
  then show ?thesis using t RegisterApp_abs by simp
next
  case (RegServiceMsg sa app addr opts)
  then show ?thesis using t RegisterService_abs [OF ok] by simp
next
  case (ServiceHeartbeat h)
  then show ?thesis using t Heartbeat_abs [OF ok] by simp
qed (use t in \<open>auto simp: UnRegister_abs [OF ok]
      dest: keeps_abs [OF ElectionEvent_keeps [OF ok]] keeps_abs [OF SyncAttr_keeps] keeps_abs [OF NameRouter_keeps [OF ok]]\<close>)

section \<open>Properties\<close>


text \<open>One service of one application, last heard of at time 10.\<close>

definition ex_dir :: NsServer where
  "ex_dir = ex_cast\<lparr>s_apps := [(''app'', (AppInfo_Init ''app'')\<lparr>ai_services := [(7, 0)], ai_svclruList := [0]\<rparr>)],
     s_handleServices := [(7, 0)], s_mem := (\<lambda>_. \<lparr>si_serverAddr = ''h1'', si_appID = ''app'',
        si_serviceAddr = \<lparr>ServiceName = ''svc'', ServiceId = 1, AddrHandle = 7\<rparr>,
        si_lastRecvHbTime = 10, si_serviceOpts = defaultRegisterOptions\<rparr>)\<rparr>"

lemma ex_dir_ok: "dir_ok ex_dir" "10 \<le> now \<Longrightarrow> lru_ok now ex_dir"
  by (auto simp: dir_ok_def lru_ok_def lru_of_def ex_dir_def ex_cast_def AppInfo_Init_def services_ok_def
      election_ok_def candOf_def mwf_def split: if_splits option.splits)

lemma ex_dir_few: "length (filter (expired ex_dir now) (lru_of ex_dir app)) \<le> CheckAliveMaxNumPerTickPerApp"
  by (simp add: lru_of_def ex_dir_def AppInfo_Init_def CheckAliveMaxNumPerTickPerApp_def)




end
