(* ===== verification/Smsync.thy ===== *)
theory Smsync
  imports Prelude
begin

text \<open>
  \<^verbatim>\<open>src/common/sync/event.go\<close>: an event that fires once. \<open>ev_notifyFired\<close> says whether
  the channel of \<open>Done()\<close> is closed; closing it a second time would panic.
\<close>

record Event =
  ev_fired :: bool
  ev_tag :: string
  ev_notifyFired :: bool
  ev_fireOnce :: bool

definition NewEvent :: "string \<Rightarrow> Event" where
  "NewEvent tag = \<lparr>ev_fired = False, ev_tag = tag, ev_notifyFired = False, ev_fireOnce = False\<rparr>"

definition Event_Fire :: "Event \<Rightarrow> (Event \<times> bool) option" where
  "Event_Fire e =
     (if ev_fireOnce e then Some (e, False)
      else
        let e = e\<lparr>ev_fireOnce := True, ev_fired := True\<rparr> in
        if ev_notifyFired e then None else Some (e\<lparr>ev_notifyFired := True\<rparr>, True))"

definition Event_Done :: "Event \<Rightarrow> bool" where
  "Event_Done e = ev_notifyFired e"

definition Event_HasFired :: "Event \<Rightarrow> bool" where
  "Event_HasFired e = ev_fired e"

definition Event_String :: "Event \<Rightarrow> string" where
  "Event_String e = ''[syncEvent]:'' @ ev_tag e"

definition event_ok :: "Event \<Rightarrow> bool" where
  "event_ok e \<longleftrightarrow> ev_fired e = ev_fireOnce e \<and> ev_notifyFired e = ev_fireOnce e"

lemma event_ok_new [simp]: "event_ok (NewEvent tag)" "\<not> Event_HasFired (NewEvent tag)"
  by (simp_all add: event_ok_def NewEvent_def Event_HasFired_def)

lemma Event_Fire_ok:
  assumes "event_ok e"
  shows "\<exists>e'. Event_Fire e = Some (e', \<not> Event_HasFired e) \<and> event_ok e' \<and>
    Event_HasFired e' \<and> Event_Done e' \<and> ev_tag e' = ev_tag e"
  using assms
  by (auto simp: Event_Fire_def event_ok_def Event_HasFired_def Event_Done_def Let_def)

lemma Event_Done_fired: "event_ok e \<Longrightarrow> Event_Done e = Event_HasFired e"
  by (simp add: event_ok_def Event_Done_def Event_HasFired_def)

text \<open>Firing \<open>n\<close> times in a row, from any goroutines, gives the answers in order.\<close>

fun Event_fires :: "nat \<Rightarrow> Event \<Rightarrow> (Event \<times> bool list) option" where
  "Event_fires 0 e = Some (e, [])"
| "Event_fires (Suc n) e = do {
     (e, r) \<leftarrow> Event_Fire e;
     (e, rs) \<leftarrow> Event_fires n e;
     Some (e, r # rs) }"

lemma Event_fires_again:
  "event_ok e \<Longrightarrow> Event_HasFired e \<Longrightarrow> Event_fires n e = Some (e, replicate n False)"
  by (induction n) (auto simp: Event_Fire_def event_ok_def Event_HasFired_def)

lemma Event_fires_first:
  assumes "event_ok e" "\<not> Event_HasFired e"
  shows "\<exists>e'. Event_fires (Suc n) e = Some (e', True # replicate n False) \<and> Event_HasFired e'"
proof -
  obtain e' where e': "Event_Fire e = Some (e', \<not> Event_HasFired e)" "event_ok e'" "Event_HasFired e'"
    using Event_Fire_ok [OF assms(1)] by blast
  from Event_fires_again [OF e'(2,3), of n] e'(1,3) assms(2) show ?thesis by simp
qed

section \<open>Properties\<close>

text \<open>
  However often a new event is fired, only the first call answers true, the channel of
  \<open>Done\<close> is closed once, and no call panics.
\<close>

theorem event_fires_once:
  "\<exists>e. Event_fires (Suc n) (NewEvent tag) = Some (e, True # replicate n False) \<and> Event_HasFired e"
  by (rule Event_fires_first) simp_all

end
