(* ===== verification/Conn.thy ===== *)
theory Conn
  imports Smsync Smpack
begin

text \<open>
  \<^verbatim>\<open>src/common/network/conn.go\<close>: the read loop, which hands a growing buffer to the
  receiver, and the write loop with its wake-up protocol. The receiver is a function on its
  own state \<open>'s\<close>: given the buffered bytes it returns its new state, the number of bytes
  to skip and whether it reported an error; \<open>None\<close> is a panic.
\<close>

type_synonym 's receiver = "'s \<Rightarrow> bytes \<Rightarrow> ('s \<times> nat \<times> bool) option"

definition MIN_CONN_READ_BUFFER :: nat where [simp]: "MIN_CONN_READ_BUFFER = 128"
definition MIN_CONN_WRITE_BUFFER :: nat where [simp]: "MIN_CONN_WRITE_BUFFER = 128"

section \<open>Reading\<close>

text \<open>The inner loop: call \<open>OnMessage\<close> until it skips nothing; errors are only logged.\<close>

partial_function (option) Conn_dispatch :: "'s receiver \<Rightarrow> 's \<Rightarrow> bytes \<Rightarrow> ('s \<times> bytes) option" where
  "Conn_dispatch recv s rbuff = do {
     (s, rn, _) \<leftarrow> recv s rbuff;
     if 0 < rn then Conn_dispatch recv s (drop rn rbuff) else Some (s, rbuff) }"

text \<open>What \<^verbatim>\<open>rawConn.Read\<close> returned: an error, or the bytes read, none of them at the end.\<close>

datatype ReadResult = ReadErr | ReadBytes bytes

datatype LoopReadEnd = ReadReturned bool | ReadBlocked

text \<open>
  The loop over the results of the successive reads. \<open>rsize\<close> is the size of the read buffer,
  which doubles when a read fills it; the loop is blocked in \<open>Read\<close> when no result is left.
\<close>

fun Conn_loopRead ::
  "'s receiver \<Rightarrow> nat \<Rightarrow> 's \<Rightarrow> bytes \<Rightarrow> ReadResult list \<Rightarrow> ('s \<times> nat \<times> bytes \<times> LoopReadEnd) option" where
  "Conn_loopRead recv rsize s rbuff [] = Some (s, rsize, rbuff, ReadBlocked)"
| "Conn_loopRead recv rsize s rbuff (ReadErr # rs) = Some (s, rsize, rbuff, ReadReturned True)"
| "Conn_loopRead recv rsize s rbuff (ReadBytes b # rs) =
     (if b = [] then Some (s, rsize, rbuff, ReadReturned True)
      else do {
        let rbuff = rbuff @ b;
        let rsize = (if length b = rsize then 2 * rsize else rsize);
        if rbuff = [] then Conn_loopRead recv rsize s rbuff rs
        else do {
          (s, rbuff) \<leftarrow> Conn_dispatch recv s rbuff;
          Conn_loopRead recv rsize s rbuff rs } })"

text \<open>
  The contract of a stream receiver: it skips no more than it was given, it keeps its state
  while a message is incomplete, and its decision on a complete message does not depend on
  the bytes that follow.
\<close>

locale stream_receiver =
  fixes recv :: "'s receiver"
  assumes skip_bound: "recv s b = Some (t, n, e) \<Longrightarrow> n \<le> length b"
    and incomplete_keeps: "recv s b = Some (t, 0, e) \<Longrightarrow> t = s"
    and complete_stable: "recv s b = Some (t, n, e) \<Longrightarrow> 0 < n \<Longrightarrow> recv s (b @ c) = Some (t, n, e)"
    and panic_stable: "recv s b = None \<Longrightarrow> recv s (b @ c) = None"
begin

lemma dispatch_wait: "recv s b = Some (t, 0, e) \<Longrightarrow> Conn_dispatch recv s b = Some (s, b)"
  using incomplete_keeps by (subst Conn_dispatch.simps) fastforce

lemma dispatch_take:
  "recv s b = Some (t, n, e) \<Longrightarrow> 0 < n \<Longrightarrow> Conn_dispatch recv s b = Conn_dispatch recv t (drop n b)"
  by (subst Conn_dispatch.simps) simp

lemma dispatch_panic: "recv s b = None \<Longrightarrow> Conn_dispatch recv s b = None"
  by (subst Conn_dispatch.simps) simp

text \<open>The loop ends: every turn that goes on shortens the buffer.\<close>

lemma dispatch_total:
  assumes "\<And>s b. recv s b \<noteq> None"
  shows "\<exists>t r. Conn_dispatch recv s b = Some (t, r) \<and> length r \<le> length b"
proof (induction "length b" arbitrary: s b rule: less_induct)
  case less
  obtain t n e where r: "recv s b = Some (t, n, e)" using assms by (metis prod_cases3 option.exhaust)
  show ?case
  proof (cases "n = 0")
    case True
    then show ?thesis using r dispatch_wait by blast
  next
    case False
    then have "length (drop n b) < length b" using skip_bound [OF r] by simp
    from less [OF this, of t] dispatch_take [OF r] False show ?thesis by fastforce
  qed
qed

text \<open>Handing over \<open>a\<close> and later \<open>b\<close> is handing over both at once.\<close>

lemma dispatch_append:
  "Conn_dispatch recv s (a @ b) = do { (t, r) \<leftarrow> Conn_dispatch recv s a; Conn_dispatch recv t (r @ b) }"
proof (induction "length a" arbitrary: s a rule: less_induct)
  case less
  show ?case
  proof (cases "recv s a")
    case None
    then show ?thesis using panic_stable [OF None, of b] dispatch_panic by simp
  next
    case (Some x)
    obtain t n e where r: "recv s a = Some (t, n, e)" using Some by (cases x) auto
    show ?thesis
    proof (cases "n = 0")
      case True
      then show ?thesis using r dispatch_wait by simp
    next
      case False
      then have "length (drop n a) < length a" and n: "n \<le> length a" using skip_bound [OF r] by simp_all
      from less [OF this(1), of t] n dispatch_take [OF r] dispatch_take [OF complete_stable [OF r]] False
      show ?thesis by simp
    qed
  qed
qed

text \<open>The read loop computes the same whatever the boundaries of the reads.\<close>

lemma loopRead_chunks:
  assumes "\<And>b. b \<in> set chunks \<Longrightarrow> b \<noteq> []" and "Conn_dispatch recv s rbuff = Some (s, rbuff)"
  shows "map_option (\<lambda>(s, rsize, rbuff, e). (s, rbuff, e)) (Conn_loopRead recv rsize s rbuff (map ReadBytes chunks)) =
    map_option (\<lambda>(s, rbuff). (s, rbuff, ReadBlocked)) (Conn_dispatch recv s (rbuff @ concat chunks))"
  using assms
proof (induction chunks arbitrary: s rbuff rsize)
  case (Cons b chunks)
  have d: "Conn_dispatch recv s (rbuff @ b @ concat chunks) =
      do { (t, r) \<leftarrow> Conn_dispatch recv s (rbuff @ b); Conn_dispatch recv t (r @ concat chunks) }"
    using dispatch_append [of s "rbuff @ b" "concat chunks"] by simp
  show ?case
  proof (cases "Conn_dispatch recv s (rbuff @ b)")
    case None
    then show ?thesis using Cons.prems(1) d by (simp add: Let_def)
  next
    case (Some x)
    obtain t r where x: "x = (t, r)" by fastforce
    have "Conn_dispatch recv t r = Some (t, r)"
      using dispatch_append [of s "rbuff @ b" "[]"] Some x by simp
    from Cons.IH [OF _ this] Cons.prems(1) Some x d show ?thesis by (simp add: Let_def)
  qed
qed simp

end

text \<open>A receiver that unpacks one frame and handles its body satisfies the contract.\<close>

lemma frame_receiver:
  fixes f :: "'s \<Rightarrow> bytes \<Rightarrow> ('s \<times> bool) option"
  assumes "\<And>s b. recv s b = (case Unpack b of (n, d) \<Rightarrow>
    if 0 < n then map_option (\<lambda>(t, e). (t, n, e)) (f s d) else Some (s, n, False))"
  shows "stream_receiver recv"
proof
  fix s b t n e c
  assume *: "recv s b = Some (t, n, e)"
  show "n \<le> length b"
    using * Unpack_bounds [of b] by (auto simp: assms split: prod.splits if_splits)
  show "recv s (b @ c) = Some (t, n, e)" if "0 < n"
    using * that Unpack_append [of b n _ c] by (auto simp: assms split: prod.splits if_splits)
next
  fix s b t e assume "recv s b = Some (t, 0, e)"
  then show "t = s" by (auto simp: assms split: prod.splits if_splits)
next
  fix s b c assume *: "recv s b = None"
  obtain n d where nd: "Unpack b = (n, d)" by fastforce
  then have "0 < n" "f s d = None" using * by (auto simp: assms split: if_splits)
  then show "recv s (b @ c) = None" using Unpack_append [OF nd, of c] by (simp add: assms)
qed

text \<open>The receivers of the three kinds of connections unpack a frame and give its body to a handler.\<close>

locale frame_handler =
  fixes recv :: "'s receiver" and handle :: "'s \<Rightarrow> bytes \<Rightarrow> ('s \<times> bool) option"
  assumes recv_frames: "recv s b = (case Unpack b of (n, d) \<Rightarrow>
    if 0 < n then map_option (\<lambda>(t, e). (t, n, e)) (handle s d) else Some (s, n, False))"
begin

lemma recv_wait: "Unpack b = (0, d) \<Longrightarrow> recv s b = Some (s, 0, False)"
  by (simp add: recv_frames)

lemma recv_frame: "Unpack b = (length (Pack d), d) \<Longrightarrow> recv s b = map_option (\<lambda>(t, e). (t, length (Pack d), e)) (handle s d)"
  by (simp add: recv_frames)

end

sublocale frame_handler \<subseteq> stream_receiver recv
  by (rule frame_receiver) (rule recv_frames)

section \<open>Writing\<close>

text \<open>
  The write loop and its senders, interleaved at every lock. \<open>WLock\<close> is the top of the loop,
  \<open>WWrite d\<close> the write of the bytes \<open>d\<close> to the socket outside the lock, \<open>WSetWait\<close> the
  label \<^verbatim>\<open>waitdata\<close>, \<open>WSelect\<close> the blocking select. \<open>k_wakes\<close> counts the senders that left
  the critical section and still have to signal; \<open>k_all\<close> and \<open>k_out\<close> record the bytes given
  to \<open>Send\<close> and written to the socket. A write that fails may have written a part of its bytes.
\<close>

datatype WritePc = WLock | WWrite bytes | WSetWait | WSelect | WEnd "bool"

record Sock =
  k_wbuff :: bytes
  k_wsize :: nat
  k_waiting :: bool
  k_consumerWaiting :: bool
  k_close :: Event
  k_pc :: WritePc
  k_wakes :: nat
  k_all :: bytes
  k_out :: bytes
  k_onClosed :: nat

definition Conn_Init :: Sock where
  "Conn_Init = \<lparr>k_wbuff = [], k_wsize = MIN_CONN_WRITE_BUFFER, k_waiting = False, k_consumerWaiting = False,
     k_close = NewEvent ''gonet.Conn.close'', k_pc = WLock, k_wakes = 0, k_all = [], k_out = [],
     k_onClosed = 0\<rparr>"

text \<open>
  \<open>bytes.Buffer\<close>: \<open>Read\<close> into a slice of \<open>n\<close> bytes returns and consumes the first \<open>n\<close>;
  \<open>Next n\<close> discards the following \<open>n\<close>.
\<close>

definition Buffer_Read :: "nat \<Rightarrow> bytes \<Rightarrow> bytes \<times> bytes" where
  "Buffer_Read n buf = (take n buf, drop n buf)"

definition Buffer_Next :: "nat \<Rightarrow> bytes \<Rightarrow> bytes" where
  "Buffer_Next n buf = drop n buf"

definition loopWrite_lock :: "Sock \<Rightarrow> Sock" where
  "loopWrite_lock c =
     (let len = length (k_wbuff c) in
      if len \<le> 0 then c\<lparr>k_pc := WSetWait\<rparr>
      else
        let wsize = (if len > k_wsize c then len else k_wsize c);
            (wbuf, rest) = Buffer_Read wsize (k_wbuff c);
            wn = length wbuf
        in c\<lparr>k_wsize := wsize, k_wbuff := Buffer_Next wn rest,
             k_pc := (if 0 < wn then WWrite wbuf else WSetWait)\<rparr>)"

definition Conn_Send :: "Sock \<Rightarrow> bytes \<Rightarrow> Sock" where
  "Conn_Send c b =
     (let wakeUp = k_consumerWaiting c;
          c = (if wakeUp then c\<lparr>k_consumerWaiting := False\<rparr> else c)
      in c\<lparr>k_wbuff := k_wbuff c @ b, k_all := k_all c @ b,
           k_wakes := (if wakeUp then Suc (k_wakes c) else k_wakes c)\<rparr>)"

text \<open>\<open>Close\<close> runs the receiver's \<open>OnClosed\<close>, counted by \<open>k_onClosed\<close>, or reports a repeated close.\<close>

definition Conn_Close :: "Sock \<Rightarrow> (Sock \<times> bool) option" where
  "Conn_Close c = do {
     (e, first) \<leftarrow> Event_Fire (k_close c);
     let c = c\<lparr>k_close := e\<rparr>;
     Some (if first then c\<lparr>k_onClosed := Suc (k_onClosed c)\<rparr> else c, first) }"

inductive conn_step :: "Sock \<Rightarrow> Sock \<Rightarrow> bool" where
  lock: "k_pc c = WLock \<Longrightarrow> conn_step c (loopWrite_lock c)"
| write_ok: "k_pc c = WWrite d \<Longrightarrow> conn_step c (c\<lparr>k_out := k_out c @ d, k_pc := WLock\<rparr>)"
| write_err: "k_pc c = WWrite d \<Longrightarrow> conn_step c (c\<lparr>k_out := k_out c @ take n d, k_pc := WEnd True\<rparr>)"
| set_wait: "k_pc c = WSetWait \<Longrightarrow> conn_step c (c\<lparr>k_consumerWaiting := True, k_pc := WSelect\<rparr>)"
| woken: "k_pc c = WSelect \<Longrightarrow> k_waiting c \<Longrightarrow> conn_step c (c\<lparr>k_waiting := False, k_pc := WLock\<rparr>)"
| closed: "k_pc c = WSelect \<Longrightarrow> Event_Done (k_close c) \<Longrightarrow> conn_step c (c\<lparr>k_pc := WEnd False\<rparr>)"
| send: "conn_step c (Conn_Send c b)"
| wake: "k_wakes c = Suc n \<Longrightarrow> conn_step c (c\<lparr>k_waiting := True, k_wakes := n\<rparr>)"
| close: "Conn_Close c = Some (d, r) \<Longrightarrow> conn_step c d"

inductive conn_reach :: "Sock \<Rightarrow> bool" where
  conn_init: "conn_reach Conn_Init"
| conn_more: "conn_reach c \<Longrightarrow> conn_step c d \<Longrightarrow> conn_reach d"

text \<open>Bytes taken from the buffer that the socket has not got yet.\<close>

fun inflight :: "WritePc \<Rightarrow> bytes" where
  "inflight (WWrite d) = d"
| "inflight _ = []"

definition conn_inv :: "Sock \<Rightarrow> bool" where
  "conn_inv c \<longleftrightarrow> event_ok (k_close c) \<and> k_onClosed c = (if Event_HasFired (k_close c) then 1 else 0) \<and>
     (\<exists>lost. k_out c @ lost @ k_wbuff c = k_all c \<and> (k_pc c \<noteq> WEnd True \<longrightarrow> lost = inflight (k_pc c))) \<and>
     (k_pc c = WSelect \<longrightarrow> k_consumerWaiting c \<or> k_waiting c \<or> 0 < k_wakes c)"

lemma loopWrite_lock_takes_all:
  "k_wbuff c \<noteq> [] \<Longrightarrow> loopWrite_lock c =
     c\<lparr>k_wsize := max (k_wsize c) (length (k_wbuff c)), k_wbuff := [], k_pc := WWrite (k_wbuff c)\<rparr>"
  by (auto simp: loopWrite_lock_def Let_def Buffer_Read_def Buffer_Next_def max_def)

lemma loopWrite_lock_empty: "k_wbuff c = [] \<Longrightarrow> loopWrite_lock c = c\<lparr>k_pc := WSetWait\<rparr>"
  by (simp add: loopWrite_lock_def)

lemma conn_inv_close:
  assumes inv: "conn_inv c" and d: "Conn_Close c = Some (d, r)"
  shows "conn_inv d"
proof -
  have "event_ok (k_close c)" using inv by (simp add: conn_inv_def)
  from Event_Fire_ok [OF this] obtain e where e: "Event_Fire (k_close c) = Some (e, \<not> Event_HasFired (k_close c))"
    "event_ok e" "Event_HasFired e" by blast
  then have "d = (if Event_HasFired (k_close c) then c\<lparr>k_close := e\<rparr>
      else c\<lparr>k_close := e, k_onClosed := Suc (k_onClosed c)\<rparr>)"
    using d by (auto simp: Conn_Close_def Let_def split: if_splits)
  then show ?thesis using inv e by (simp add: conn_inv_def)
qed

lemma conn_step_inv: "conn_step c d \<Longrightarrow> conn_inv c \<Longrightarrow> conn_inv d"
proof (induction rule: conn_step.induct)
  case (lock c)
  then show ?case
    by (cases "k_wbuff c = []") (auto simp: conn_inv_def loopWrite_lock_takes_all loopWrite_lock_empty)
next
  case (write_err c d n)
  obtain lost where "k_out c @ lost @ k_wbuff c = k_all c" "lost = d"
    using write_err by (auto simp: conn_inv_def)
  then have "(k_out c @ take n d) @ drop n d @ k_wbuff c = k_all c"
    by (metis append.assoc append_take_drop_id)
  then show ?case using write_err by (auto simp: conn_inv_def)
next
  case (close c d r)
  then show ?case by (simp add: conn_inv_close)
next
  case (send c b)
  then show ?case by (auto simp: conn_inv_def Conn_Send_def Let_def)
qed (auto simp: conn_inv_def)

lemma conn_inv_init: "conn_inv Conn_Init"
  by (simp add: conn_inv_def Conn_Init_def)

lemma conn_reach_inv: "conn_reach c \<Longrightarrow> conn_inv c"
  by (induction rule: conn_reach.induct) (auto intro: conn_inv_init conn_step_inv)

section \<open>Properties\<close>

text \<open>
  The socket receives the bytes given to \<open>Send\<close> in order, without loss or repetition: what has
  been written, what the write loop has in hand and what is buffered together are all bytes sent;
  only the bytes of a failed write can be missing.
\<close>

theorem conn_write_order:
  assumes "conn_reach c"
  shows "\<exists>lost. k_out c @ lost @ k_wbuff c = k_all c \<and> (k_pc c \<noteq> WEnd True \<longrightarrow> lost = inflight (k_pc c))"
  using conn_reach_inv [OF assms] by (auto simp: conn_inv_def)

lemma conn_sent_reach: "conn_reach (loopWrite_lock (Conn_Send Conn_Init [1, 2]))"
  by (rule conn_reach.conn_more [OF conn_reach.conn_more [OF conn_reach.conn_init conn_step.send] conn_step.lock])
    (simp add: Conn_Send_def Conn_Init_def Let_def)

theorem conn_write_order_witness:
  "\<exists>lost. k_out (loopWrite_lock (Conn_Send Conn_Init [1, 2])) @ lost @
     k_wbuff (loopWrite_lock (Conn_Send Conn_Init [1, 2])) = [1, 2]"
  using conn_write_order [OF conn_sent_reach]
  by (auto simp: loopWrite_lock_def Conn_Send_def Conn_Init_def Buffer_Read_def Buffer_Next_def Let_def)

text \<open>
  The write loop can miss a wake-up: a \<open>Send\<close> that comes after the loop has found the buffer
  empty and before it has announced that it waits leaves the loop blocked in the select with data
  in the buffer, no token in the channel and no sender about to put one there.
\<close>

theorem conn_lost_wakeup:
  "\<exists>c. conn_reach c \<and> k_pc c = WSelect \<and> k_wbuff c \<noteq> [] \<and> \<not> k_waiting c \<and> k_wakes c = 0 \<and> \<not> Event_Done (k_close c)"
proof -
  let ?a = "loopWrite_lock Conn_Init"
  let ?b = "Conn_Send ?a [1]"
  let ?c = "?b\<lparr>k_consumerWaiting := True, k_pc := WSelect\<rparr>"
  have "conn_reach ?a" by (rule conn_reach.conn_more [OF conn_reach.conn_init conn_step.lock]) (simp add: Conn_Init_def)
  then have "conn_reach ?b" by (rule conn_reach.conn_more) (rule conn_step.send)
  then have "conn_reach ?c"
    by (rule conn_reach.conn_more)
      (rule conn_step.set_wait, simp add: Conn_Send_def loopWrite_lock_def Conn_Init_def Let_def)
  then show ?thesis
    by (intro exI [of _ ?c])
      (simp add: Conn_Send_def loopWrite_lock_def Conn_Init_def Let_def Event_Done_def NewEvent_def)
qed

text \<open>
  A blocked write loop is woken by the next \<open>Send\<close>: after it, a token is in the channel or the
  sender is about to put one there, so a missed wake-up lasts only until the next message.
\<close>

theorem conn_send_wakes:
  assumes "conn_reach c" and "k_pc c = WSelect"
  shows "k_waiting (Conn_Send c b) \<or> 0 < k_wakes (Conn_Send c b)"
  using conn_reach_inv [OF assms(1)] assms(2) by (auto simp: conn_inv_def Conn_Send_def Let_def)

theorem conn_send_wakes_witness:
  "0 < k_wakes (Conn_Send ((loopWrite_lock Conn_Init)\<lparr>k_consumerWaiting := True, k_pc := WSelect\<rparr>) [9])"
proof -
  let ?a = "loopWrite_lock Conn_Init"
  let ?c = "?a\<lparr>k_consumerWaiting := True, k_pc := WSelect\<rparr>"
  have "conn_reach ?a" by (rule conn_reach.conn_more [OF conn_reach.conn_init conn_step.lock]) (simp add: Conn_Init_def)
  then have "conn_reach ?c"
    by (rule conn_reach.conn_more) (rule conn_step.set_wait, simp add: loopWrite_lock_def Conn_Init_def Let_def)
  from conn_send_wakes [OF this, of "[9]"] show ?thesis by (simp add: Conn_Send_def loopWrite_lock_def Conn_Init_def Let_def)
qed

text \<open>
  The receiver's \<open>OnClosed\<close> runs at most once per connection, and exactly when the close event
  has fired, however many goroutines close it.
\<close>

theorem conn_closed_once:
  assumes "conn_reach c"
  shows "k_onClosed c = (if Event_HasFired (k_close c) then 1 else 0)"
  using conn_reach_inv [OF assms] by (simp add: conn_inv_def)

theorem conn_closed_once_witness: "k_onClosed (Conn_Send Conn_Init [4]) = 0"
  using conn_closed_once [OF conn_reach.conn_more [OF conn_reach.conn_init conn_step.send [of _ "[4]"]]]
  by (simp add: Conn_Send_def Conn_Init_def)

end
