(* ===== verification/Pipe.thy ===== *)
theory Pipe
  imports Conn "HOL-Library.Sublist"
begin

text \<open>
  A connection from end to end: the write loop of \<^verbatim>\<open>src/common/network/conn.go\<close> at the sender, the
  bytes in flight, and the read loop of the same file at the receiver, as one transition system in
  which the two loops, the senders, the network and whatever else changes the receiver's state
  interleave. The receiver is any one that unpacks a frame and handles its body; the receivers of
  \<^verbatim>\<open>src/nameserver/receiver.go\<close> and \<^verbatim>\<open>src/agent/receiver.go\<close> are instances.
\<close>

section \<open>The transition system\<close>

text \<open>Where \<open>loopRead\<close> is: in \<open>Read\<close>, in its inner loop, or returned.\<close>

datatype LoopPc = RRead | RDispatch | REnd

text \<open>
  \<open>pp_sent\<close> are the bodies given to \<open>Send\<close>, \<open>pp_handled\<close> the bodies handed to the receiver's handler
  and \<open>pp_got\<close> the bytes read so far; all three only record.
\<close>

record 's Pipe =
  pp_conn :: Sock
  pp_got :: bytes
  pp_rsize :: nat
  pp_rbuff :: bytes
  pp_pc :: LoopPc
  pp_state :: 's
  pp_sent :: "bytes list"
  pp_handled :: "bytes list"

definition Pipe_Init :: "'s \<Rightarrow> 's Pipe" where
  "Pipe_Init s = \<lparr>pp_conn = Conn_Init, pp_got = [], pp_rsize = MIN_CONN_READ_BUFFER, pp_rbuff = [], pp_pc = RRead,
     pp_state = s, pp_sent = [], pp_handled = []\<rparr>"

definition pipe_send :: "'s Pipe \<Rightarrow> bytes \<Rightarrow> 's Pipe" where
  "pipe_send x d = x\<lparr>pp_conn := Conn_Send (pp_conn x) (Pack d), pp_sent := pp_sent x @ [d]\<rparr>"

text \<open>A read that returns the bytes \<open>b\<close>: they go to the buffer, and a full read doubles the size of the next.\<close>

definition loopRead_read :: "'s Pipe \<Rightarrow> bytes \<Rightarrow> 's Pipe" where
  "loopRead_read x b = x\<lparr>pp_got := pp_got x @ b, pp_rbuff := pp_rbuff x @ b,
     pp_rsize := (if length b = pp_rsize x then 2 * pp_rsize x else pp_rsize x), pp_pc := RDispatch\<rparr>"

text \<open>A turn of the inner loop, after \<open>OnMessage\<close> has returned the new state and the bytes to skip.\<close>

definition loopRead_turn :: "'s Pipe \<Rightarrow> 's \<Rightarrow> nat \<Rightarrow> 's Pipe" where
  "loopRead_turn x t rn =
     (if 0 < rn then x\<lparr>pp_state := t, pp_rbuff := drop rn (pp_rbuff x), pp_handled := pp_handled x @ [snd (Unpack (pp_rbuff x))]\<rparr>
      else x\<lparr>pp_state := t, pp_pc := RRead\<rparr>)"

text \<open>
  The steps. \<open>writer\<close> is a step of the sender's connection that sends nothing (the write loop, a
  wake-up, a close), \<open>send\<close> a \<open>Send\<close> of one frame, \<open>reads\<close> a read of some of the bytes that have been
  written and not read, \<open>turn\<close> one call of \<open>OnMessage\<close>, \<open>stop\<close> a failed read, and \<open>env\<close> a step of
  whatever shares the receiver's state.
\<close>

inductive pipe_step :: "'s receiver \<Rightarrow> ('s \<Rightarrow> 's \<Rightarrow> bool) \<Rightarrow> 's Pipe \<Rightarrow> 's Pipe \<Rightarrow> bool" for recv E where
  writer: "conn_step (pp_conn x) c \<Longrightarrow> k_all c = k_all (pp_conn x) \<Longrightarrow> pipe_step recv E x (x\<lparr>pp_conn := c\<rparr>)"
| send: "length d < 2 ^ 32 \<Longrightarrow> pipe_step recv E x (pipe_send x d)"
| reads: "pp_pc x = RRead \<Longrightarrow> b \<noteq> [] \<Longrightarrow> length b \<le> pp_rsize x \<Longrightarrow> prefix (pp_got x @ b) (k_out (pp_conn x)) \<Longrightarrow>
    pipe_step recv E x (loopRead_read x b)"
| turn: "pp_pc x = RDispatch \<Longrightarrow> recv (pp_state x) (pp_rbuff x) = Some (t, rn, e) \<Longrightarrow>
    pipe_step recv E x (loopRead_turn x t rn)"
| stop: "pp_pc x = RRead \<Longrightarrow> pipe_step recv E x (x\<lparr>pp_pc := REnd\<rparr>)"
| env: "E (pp_state x) t \<Longrightarrow> pipe_step recv E x (x\<lparr>pp_state := t\<rparr>)"

inductive pipe_steps :: "'s receiver \<Rightarrow> ('s \<Rightarrow> 's \<Rightarrow> bool) \<Rightarrow> 's Pipe \<Rightarrow> 's Pipe \<Rightarrow> bool" for recv E where
  pipe_none: "pipe_steps recv E x x"
| pipe_more: "pipe_steps recv E x y \<Longrightarrow> pipe_step recv E y z \<Longrightarrow> pipe_steps recv E x z"

lemma pipe_one: "pipe_step recv E x y \<Longrightarrow> pipe_steps recv E x y"
  using pipe_steps.pipe_more [OF pipe_steps.pipe_none] .

lemma pipe_trans: "pipe_steps recv E y z \<Longrightarrow> pipe_steps recv E x y \<Longrightarrow> pipe_steps recv E x z"
  by (induction rule: pipe_steps.induct) (auto intro: pipe_steps.pipe_more)

section \<open>Sequences of frames\<close>

lemma Unpack_frame: "length d < 2 ^ 32 \<Longrightarrow> Unpack (Pack d @ r) = (length (Pack d), d)"
  by (simp add: Unpack_Pack_append)

text \<open>Bytes that start a sequence of frames hold an incomplete frame, or the first one.\<close>

lemma frames_front:
  assumes "prefix b (concat (map Pack ds))" "\<forall>d \<in> set ds. length d < 2 ^ 32"
  shows "Unpack b = (0, []) \<or> (\<exists>d es. ds = d # es \<and> Unpack b = (length (Pack d), d) \<and> prefix (drop (length (Pack d)) b) (concat (map Pack es)))"
proof -
  obtain n d where nd: "Unpack b = (n, d)" by fastforce
  obtain c where c: "concat (map Pack ds) = b @ c" using assms(1) by (auto simp: prefix_def)
  show ?thesis
  proof (cases "n = 0")
    case True
    then show ?thesis using nd Unpack_zero_body by blast
  next
    case False
    then have "b \<noteq> []" using Unpack_bounds [OF nd] by auto
    then obtain e es where ds: "ds = e # es" using c by (cases ds) auto
    have "Unpack (b @ c) = (length (Pack e), e)" using Unpack_frame [of e] assms(2) ds unfolding c [symmetric] by simp
    then have n: "n = length (Pack e)" "d = e" using Unpack_append [OF nd, of c] False by auto
    have "n \<le> length b" using Unpack_bounds [OF nd] by simp
    then have "concat (map Pack es) = drop n b @ c" using c ds n by (simp add: append_eq_append_conv_if)
    then show ?thesis using nd n ds by (auto simp: prefix_def)
  qed
qed

lemma frames_nonempty_front:
  assumes "Unpack (concat (map Pack ds)) = (0, [])" "\<forall>d \<in> set ds. length d < 2 ^ 32"
  shows "ds = []"
  using assms by (cases ds) (auto simp: Unpack_frame)

section \<open>The write loop drains the buffer\<close>

text \<open>A step of the connection that is not a \<open>Send\<close> of data.\<close>

definition quiet_step :: "Sock \<Rightarrow> Sock \<Rightarrow> bool" where
  "quiet_step c d \<longleftrightarrow> conn_step c d \<and> k_all d = k_all c"

text \<open>The loop is running and does not sleep past a pending wake-up.\<close>

definition writer_awake :: "Sock \<Rightarrow> bool" where
  "writer_awake c \<longleftrightarrow> (case k_pc c of WLock \<Rightarrow> True | WWrite _ \<Rightarrow> True | WEnd _ \<Rightarrow> False
     | _ \<Rightarrow> k_waiting c \<or> 0 < k_wakes c)"

lemma lock_drains:
  assumes "conn_inv c" "k_pc c = WLock"
  shows "\<exists>d. quiet_step\<^sup>*\<^sup>* c d \<and> k_out d = k_all d \<and> k_all d = k_all c"
proof (cases "k_wbuff c = []")
  case True
  then have "k_out c = k_all c" using assms by (auto simp: conn_inv_def)
  then show ?thesis by blast
next
  case False
  let ?a = "loopWrite_lock c"
  let ?b = "?a\<lparr>k_out := k_out ?a @ k_wbuff c, k_pc := WLock\<rparr>"
  note a = loopWrite_lock_takes_all [OF False]
  have "quiet_step c ?a" "quiet_step ?a ?b"
    using conn_step.lock [OF assms(2)] conn_step.write_ok [of ?a "k_wbuff c"] a by (auto simp: quiet_step_def)
  then have "quiet_step\<^sup>*\<^sup>* c ?b" by simp
  moreover have "k_out ?b = k_all c" "k_all ?b = k_all c" using assms a by (auto simp: conn_inv_def)
  ultimately show ?thesis by metis
qed

lemma quiet_inv: "quiet_step c d \<Longrightarrow> conn_inv c \<Longrightarrow> conn_inv d"
  by (auto simp: quiet_step_def intro: conn_step_inv)

lemma quiet_then:
  assumes "quiet_step c d" "\<exists>e. quiet_step\<^sup>*\<^sup>* d e \<and> k_out e = k_all e \<and> k_all e = k_all d"
  shows "\<exists>e. quiet_step\<^sup>*\<^sup>* c e \<and> k_out e = k_all e \<and> k_all e = k_all c"
  using assms by (metis converse_rtranclp_into_rtranclp quiet_step_def)

lemma token_drains:
  assumes "conn_inv c" "k_pc c = WSelect" "k_waiting c"
  shows "\<exists>d. quiet_step\<^sup>*\<^sup>* c d \<and> k_out d = k_all d \<and> k_all d = k_all c"
proof -
  have q: "quiet_step c (c\<lparr>k_waiting := False, k_pc := WLock\<rparr>)"
    using conn_step.woken [OF assms(2,3)] by (simp add: quiet_step_def)
  show ?thesis by (rule quiet_then [OF q lock_drains [OF quiet_inv [OF q assms(1)]]]) simp
qed

lemma select_drains:
  assumes "conn_inv c" "k_pc c = WSelect" "k_waiting c \<or> 0 < k_wakes c"
  shows "\<exists>d. quiet_step\<^sup>*\<^sup>* c d \<and> k_out d = k_all d \<and> k_all d = k_all c"
proof (cases "k_waiting c")
  case True
  then show ?thesis using token_drains assms by blast
next
  case False
  then obtain n where n: "k_wakes c = Suc n" using assms(3) by (auto simp: gr0_conv_Suc)
  have q: "quiet_step c (c\<lparr>k_waiting := True, k_wakes := n\<rparr>)"
    using conn_step.wake [OF n] by (simp add: quiet_step_def)
  show ?thesis using assms(2) by (intro quiet_then [OF q token_drains [OF quiet_inv [OF q assms(1)]]]) simp_all
qed

lemma awake_drains:
  assumes "conn_inv c" "writer_awake c"
  shows "\<exists>d. quiet_step\<^sup>*\<^sup>* c d \<and> k_out d = k_all d \<and> k_all d = k_all c"
proof (cases "k_pc c")
  case WLock
  then show ?thesis using lock_drains assms by blast
next
  case (WWrite b)
  have q: "quiet_step c (c\<lparr>k_out := k_out c @ b, k_pc := WLock\<rparr>)"
    using conn_step.write_ok [OF WWrite] by (simp add: quiet_step_def)
  show ?thesis by (rule quiet_then [OF q lock_drains [OF quiet_inv [OF q assms(1)]]]) simp
next
  case WSetWait
  have q: "quiet_step c (c\<lparr>k_consumerWaiting := True, k_pc := WSelect\<rparr>)"
    using conn_step.set_wait [OF WSetWait] by (simp add: quiet_step_def)
  show ?thesis using assms(2) WSetWait
    by (intro quiet_then [OF q select_drains [OF quiet_inv [OF q assms(1)]]]) (simp_all add: writer_awake_def)
qed (use assms select_drains in \<open>auto simp: writer_awake_def\<close>)

text \<open>
  A \<open>Send\<close> finds the loop awake or wakes it, unless the loop is just about to announce that it waits.
\<close>

lemma send_awakes:
  assumes "conn_inv c" "k_pc c \<noteq> WSetWait" "\<And>e. k_pc c \<noteq> WEnd e"
  shows "writer_awake (Conn_Send c b)"
  using assms by (cases "k_pc c") (auto simp: writer_awake_def conn_inv_def Conn_Send_def Let_def)

lemma quiet_pipe:
  assumes "quiet_step\<^sup>*\<^sup>* (pp_conn x) c"
  shows "pipe_steps recv E x (x\<lparr>pp_conn := c\<rparr>)"
  using assms
proof (induction rule: rtranclp_induct)
  case base
  then show ?case using pipe_steps.pipe_none [of recv E x] by simp
next
  case (step c d)
  have "pipe_step recv E (x\<lparr>pp_conn := c\<rparr>) (x\<lparr>pp_conn := c\<rparr>\<lparr>pp_conn := d\<rparr>)"
    using step(2) by (intro pipe_step.writer) (simp_all add: quiet_step_def)
  then show ?case using pipe_steps.pipe_more [OF step.IH] by simp
qed

section \<open>The queue a connection implements\<close>

text \<open>
  The specification: a queue of bodies beside the receiver's state. A body is put at the end, the
  first one is taken and handled, and the receiver's state may change otherwise.
\<close>

inductive fifo_step ::
  "('s \<Rightarrow> bytes \<Rightarrow> ('s \<times> bool) option) \<Rightarrow> ('s \<Rightarrow> 's \<Rightarrow> bool) \<Rightarrow> 's \<times> bytes list \<Rightarrow> 's \<times> bytes list \<Rightarrow> bool"
  for handle E where
  put: "fifo_step handle E (s, q) (s, q @ [d])"
| take: "handle s d = Some (t, e) \<Longrightarrow> fifo_step handle E (s, d # q) (t, q)"
| other: "E s t \<Longrightarrow> fifo_step handle E (s, q) (t, q)"

inductive_simps fifo_step_simps: "fifo_step handle E (s, q) (t, r)"

text \<open>The bodies sent and not handled yet, and the abstract state they form with the receiver's.\<close>

definition pipe_queue :: "'s Pipe \<Rightarrow> bytes list" where
  "pipe_queue x = drop (length (pp_handled x)) (pp_sent x)"

definition pipe_abs :: "'s Pipe \<Rightarrow> 's \<times> bytes list" where
  "pipe_abs x = (pp_state x, pipe_queue x)"

definition pipe_inv :: "'s Pipe \<Rightarrow> bool" where
  "pipe_inv x \<longleftrightarrow> conn_inv (pp_conn x) \<and> k_all (pp_conn x) = concat (map Pack (pp_sent x)) \<and>
     (\<forall>d \<in> set (pp_sent x). length d < 2 ^ 32) \<and> prefix (pp_got x) (k_out (pp_conn x)) \<and> 0 < pp_rsize x \<and>
     pp_handled x @ pipe_queue x = pp_sent x \<and> concat (map Pack (pp_handled x)) @ pp_rbuff x = pp_got x \<and>
     (pp_pc x = RRead \<longrightarrow> Unpack (pp_rbuff x) = (0, []))"

lemma pipe_inv_pc:
  assumes "pipe_inv x" "p = RRead \<longrightarrow> Unpack (pp_rbuff x) = (0, [])"
  shows "pipe_inv (x\<lparr>pp_pc := p\<rparr>)"
proof -
  have "pipe_queue (x\<lparr>pp_pc := p\<rparr>) = pipe_queue x" by (simp add: pipe_queue_def)
  then show ?thesis using assms unfolding pipe_inv_def by simp
qed

lemma pipe_queue_send:
  assumes "pipe_inv x"
  shows "pipe_queue (pipe_send x d) = pipe_queue x @ [d]"
proof -
  have "length (pp_handled x) \<le> length (pp_sent x)" using assms by (metis pipe_inv_def length_append le_add1)
  then show ?thesis by (simp add: pipe_queue_def pipe_send_def)
qed

lemma pipe_inv_init: "pipe_inv (Pipe_Init s)"
  by (simp add: pipe_inv_def Pipe_Init_def conn_inv_init pipe_queue_def Unpack_def PkgHeadLen_def)
    (simp add: Conn_Init_def)

text \<open>The socket never takes back what it was given: the bytes written only grow.\<close>

lemma conn_step_out: "conn_step c d \<Longrightarrow> prefix (k_out c) (k_out d)"
proof (induction rule: conn_step.induct)
  case (lock c)
  then show ?case by (simp add: loopWrite_lock_def Let_def Buffer_Read_def)
next
  case (close c d r)
  then show ?case by (auto simp: Conn_Close_def Let_def split: Option.bind_splits if_splits)
qed (auto simp: Conn_Send_def Let_def)

lemma conn_out_all: "conn_inv c \<Longrightarrow> prefix (k_out c) (k_all c)"
  unfolding conn_inv_def by (metis prefixI)

text \<open>What is in the read buffer starts the frames that are not handled yet.\<close>

lemma pipe_rbuff:
  assumes "pipe_inv x"
  shows "prefix (pp_rbuff x) (concat (map Pack (pipe_queue x)))" "\<forall>d \<in> set (pipe_queue x). length d < 2 ^ 32"
proof -
  have s: "pp_sent x = pp_handled x @ pipe_queue x" using assms by (simp add: pipe_inv_def)
  have "prefix (pp_got x) (concat (map Pack (pp_sent x)))"
    using assms conn_out_all by (metis pipe_inv_def prefix_order.trans)
  then have "prefix (concat (map Pack (pp_handled x)) @ pp_rbuff x) (concat (map Pack (pp_handled x @ pipe_queue x)))"
    using assms s by (simp add: pipe_inv_def)
  then show "prefix (pp_rbuff x) (concat (map Pack (pipe_queue x)))" by simp
  have "\<forall>d \<in> set (pp_sent x). length d < 2 ^ 32" using assms by (simp add: pipe_inv_def)
  then show "\<forall>d \<in> set (pipe_queue x). length d < 2 ^ 32" by (subst (asm) s) auto
qed

context frame_handler begin

text \<open>A turn of the inner loop handles the first body of the queue, or goes back to reading.\<close>

lemma turn_cases:
  assumes "pipe_inv x" "recv (pp_state x) (pp_rbuff x) = Some (t, rn, e)"
  obtains "Unpack (pp_rbuff x) = (0, [])" "t = pp_state x" "loopRead_turn x t rn = x\<lparr>pp_pc := RRead\<rparr>"
    | d q where "pipe_queue x = d # q" "handle (pp_state x) d = Some (t, e)" "rn = length (Pack d)"
      "loopRead_turn x t rn = x\<lparr>pp_state := t, pp_rbuff := drop rn (pp_rbuff x), pp_handled := pp_handled x @ [d]\<rparr>"
      "pp_rbuff x = Pack d @ drop rn (pp_rbuff x)"
  using frames_front [OF pipe_rbuff [OF assms(1)]]
proof (elim disjE exE conjE)
  assume u: "Unpack (pp_rbuff x) = (0, [])"
  then have "t = pp_state x" "rn = 0" using assms(2) recv_wait [OF u] by auto
  then show thesis using that(1) u by (simp add: loopRead_turn_def)
next
  fix d q assume q: "pipe_queue x = d # q" and u: "Unpack (pp_rbuff x) = (length (Pack d), d)"
  have r: "handle (pp_state x) d = Some (t, e)" "rn = length (Pack d)"
    using assms(2) recv_frame [OF u] by auto
  have "take rn (pp_rbuff x) = Pack d" using Unpack_is_Pack [OF u] r(2) by simp
  then have "pp_rbuff x = Pack d @ drop rn (pp_rbuff x)" by (metis append_take_drop_id)
  then show thesis using that(2) [OF q r(1)] r(2) u by (simp add: loopRead_turn_def)
qed

lemma pipe_step_inv:
  assumes "pipe_step recv E x y" "pipe_inv x"
  shows "pipe_inv y"
  using assms(1)
proof cases
  case (writer c)
  have "prefix (pp_got x) (k_out c)"
    using conn_step_out [OF writer(2)] assms(2) by (auto simp: pipe_inv_def intro: prefix_order.trans)
  then show ?thesis using writer conn_step_inv [OF writer(2)] assms(2) by (simp add: pipe_inv_def pipe_queue_def)
next
  case (send d)
  have o: "k_out (Conn_Send (pp_conn x) (Pack d)) = k_out (pp_conn x)" by (simp add: Conn_Send_def Let_def)
  have a: "k_all (Conn_Send (pp_conn x) (Pack d)) = k_all (pp_conn x) @ Pack d" by (simp add: Conn_Send_def Let_def)
  have q: "pipe_queue y = pipe_queue x @ [d]" using pipe_queue_send [OF assms(2)] send by simp
  show ?thesis using send assms(2) q o a conn_step_inv [OF conn_step.send]
    by (auto simp: pipe_inv_def pipe_send_def)
next
  case (reads b)
  then show ?thesis using assms(2) by (simp add: pipe_inv_def pipe_queue_def loopRead_read_def)
next
  case (turn t rn e)
  from assms(2) turn(3) show ?thesis
  proof (cases rule: turn_cases)
    case 1
    then show ?thesis using turn pipe_inv_pc [OF assms(2)] by simp
  next
    case (2 d q)
    have s: "pp_sent x = pp_handled x @ d # q" using assms(2) 2(1) by (simp add: pipe_inv_def)
    then have q: "pipe_queue y = q" using turn 2 by (simp add: pipe_queue_def)
    have g: "concat (map Pack (pp_handled x)) @ Pack d @ drop rn (pp_rbuff x) = pp_got x"
      unfolding 2(5) [symmetric] using assms(2) by (simp add: pipe_inv_def)
    have i: "conn_inv (pp_conn x)" "k_all (pp_conn x) = concat (map Pack (pp_sent x))"
      "\<forall>d \<in> set (pp_sent x). length d < 2 ^ 32" "prefix (pp_got x) (k_out (pp_conn x))" "0 < pp_rsize x"
      using assms(2) by (simp_all add: pipe_inv_def)
    show ?thesis using turn(1,2) 2(4) s q g i by (simp add: pipe_inv_def)
  qed
next
  case stop
  then show ?thesis using assms(2) by (simp add: pipe_inv_def pipe_queue_def)
next
  case (env t)
  then show ?thesis using assms(2) by (simp add: pipe_inv_def pipe_queue_def)
qed

lemma pipe_steps_inv: "pipe_steps recv E x y \<Longrightarrow> pipe_inv x \<Longrightarrow> pipe_inv y"
  by (induction rule: pipe_steps.induct) (auto intro: pipe_step_inv)

text \<open>Every step of the connection is a step of the queue or changes nothing of it.\<close>

lemma pipe_step_fifo:
  assumes "pipe_step recv E x y" "pipe_inv x"
  shows "pipe_abs y = pipe_abs x \<or> fifo_step handle E (pipe_abs x) (pipe_abs y)"
  using assms(1)
proof cases
  case (send d)
  have "pp_state y = pp_state x" using send by (simp add: pipe_send_def)
  then have "pipe_abs y = (pp_state x, pipe_queue x @ [d])" using pipe_queue_send [OF assms(2)] send by (simp add: pipe_abs_def)
  then show ?thesis using fifo_step.put by (simp add: pipe_abs_def)
next
  case (turn t rn e)
  from assms(2) turn(3) show ?thesis
  proof (cases rule: turn_cases)
    case 1
    then show ?thesis using turn by (simp add: pipe_abs_def pipe_queue_def)
  next
    case (2 d q)
    have "pp_sent x = pp_handled x @ d # q" using assms(2) 2(1) by (simp add: pipe_inv_def)
    then have "pipe_abs y = (t, q)" "pipe_abs x = (pp_state x, d # q)"
      using turn 2 by (simp_all add: pipe_abs_def pipe_queue_def)
    then show ?thesis using fifo_step.take [of handle, OF 2(2)] by simp
  qed
next
  case (env t)
  then show ?thesis using fifo_step.other [of E "pp_state x" t] by (simp add: pipe_abs_def pipe_queue_def)
qed (simp_all add: pipe_abs_def pipe_queue_def loopRead_read_def)

end

section \<open>Delivery\<close>

text \<open>
  A handler that does not panic: in a state that is \<open>ok\<close> it handles every \<open>good\<close> body and stays \<open>ok\<close>.
\<close>

locale live_frame_handler = frame_handler +
  fixes ok :: "'a \<Rightarrow> bool" and good :: "bytes \<Rightarrow> bool"
  assumes handle_ok: "ok s \<Longrightarrow> good d \<Longrightarrow> \<exists>t e. handle s d = Some (t, e) \<and> ok t"
begin

definition readable_end :: "'a Pipe \<Rightarrow> bool" where
  "readable_end x \<longleftrightarrow> pipe_inv x \<and> pp_pc x \<noteq> REnd \<and> ok (pp_state x) \<and> (\<forall>d \<in> set (pipe_queue x). good d)"

text \<open>The receiver's state once the messages of the queue are handled and nothing else happens.\<close>

definition pipe_outcome :: "'a Pipe \<Rightarrow> 'a option" where
  "pipe_outcome x = rangeM (\<lambda>d s. map_option fst (handle s d)) (pipe_queue x) (pp_state x)"

lemma pipe_outcome_cong: "pipe_queue y = pipe_queue x \<Longrightarrow> pp_state y = pp_state x \<Longrightarrow> pipe_outcome y = pipe_outcome x"
  by (simp add: pipe_outcome_def)

lemma turn_progress:
  assumes "readable_end x" "pp_pc x = RDispatch"
  shows "\<exists>y. pipe_step recv E x y \<and> readable_end y \<and> pp_sent y = pp_sent x \<and> pp_conn y = pp_conn x \<and> pp_got y = pp_got x \<and>
    pipe_outcome y = pipe_outcome x \<and>
    (pp_pc y = RRead \<or> pp_pc y = RDispatch \<and> length (pp_rbuff y) < length (pp_rbuff x))"
proof -
  have inv: "pipe_inv x" using assms(1) by (simp add: readable_end_def)
  have "\<exists>t rn e. recv (pp_state x) (pp_rbuff x) = Some (t, rn, e) \<and> ok t"
    using frames_front [OF pipe_rbuff [OF inv]]
  proof (elim disjE exE conjE)
    fix d q assume q: "pipe_queue x = d # q" and u: "Unpack (pp_rbuff x) = (length (Pack d), d)"
    then have "ok (pp_state x)" "good d" using assms(1) by (auto simp: readable_end_def)
    then show ?thesis using handle_ok recv_frame [OF u, of "pp_state x"] by fastforce
  qed (use assms(1) recv_wait in \<open>auto simp: readable_end_def\<close>)
  then obtain t rn e where r: "recv (pp_state x) (pp_rbuff x) = Some (t, rn, e)" "ok t" by blast
  have st: "pipe_step recv E x (loopRead_turn x t rn)" by (rule pipe_step.turn [of x recv, OF assms(2) r(1)])
  note i = pipe_step_inv [OF st inv]
  from inv r(1) show ?thesis
  proof (cases rule: turn_cases)
    case 1
    then show ?thesis using st i r(2) assms by (intro exI [of _ "loopRead_turn x t rn"]) (simp add: readable_end_def pipe_queue_def pipe_outcome_def)
  next
    case (2 d q)
    have "pp_sent x = pp_handled x @ d # q" using inv 2(1) by (simp add: pipe_inv_def)
    then have q: "pipe_queue (loopRead_turn x t rn) = q" using 2(4) by (simp add: pipe_queue_def)
    have o: "pipe_outcome (loopRead_turn x t rn) = pipe_outcome x"
      unfolding pipe_outcome_def q 2(1) using 2(2,4) by simp
    have "length (pp_rbuff x) = length (Pack d) + length (drop rn (pp_rbuff x))" by (metis 2(5) length_append)
    then have "length (drop rn (pp_rbuff x)) < length (pp_rbuff x)" by simp
    then show ?thesis using st i r(2) assms 2 q o by (intro exI [of _ "loopRead_turn x t rn"]) (simp add: readable_end_def)
  qed
qed

lemma read_progress:
  assumes "readable_end x" "pp_pc x = RRead" "pp_got x \<noteq> k_out (pp_conn x)"
  shows "\<exists>y. pipe_step recv E x y \<and> readable_end y \<and> pp_sent y = pp_sent x \<and> pp_conn y = pp_conn x \<and>
    pipe_outcome y = pipe_outcome x \<and>
    length (pp_got y) = Suc (length (pp_got x)) \<and> length (pp_rbuff y) = Suc (length (pp_rbuff x))"
proof -
  have inv: "pipe_inv x" using assms(1) by (simp add: readable_end_def)
  then obtain c where c: "k_out (pp_conn x) = pp_got x @ c" by (auto simp: pipe_inv_def prefix_def)
  then obtain b cs where "c = b # cs" using assms(3) by (cases c) auto
  then have "prefix (pp_got x @ [b]) (k_out (pp_conn x))" using c by simp
  moreover have "0 < pp_rsize x" using inv by (simp add: pipe_inv_def)
  ultimately have st: "pipe_step recv E x (loopRead_read x [b])"
    using assms(2) by (intro pipe_step.reads) simp_all
  then show ?thesis using assms(1) pipe_step_inv [OF st inv]
    by (intro exI [of _ "loopRead_read x [b]"]) (simp add: readable_end_def loopRead_read_def pipe_queue_def pipe_outcome_def)
qed

text \<open>The reader can take everything that was written: every step shortens what is left.\<close>

lemma reader_drains:
  assumes "readable_end x"
  shows "\<exists>y. pipe_steps recv E x y \<and> readable_end y \<and> pp_sent y = pp_sent x \<and> pp_conn y = pp_conn x \<and>
    pp_got y = k_out (pp_conn x) \<and> pp_pc y = RRead \<and> pipe_outcome y = pipe_outcome x"
  using assms
proof (induction "3 * (length (k_out (pp_conn x)) - length (pp_got x)) + length (pp_rbuff x) + (if pp_pc x = RDispatch then 1 else 0)"
    arbitrary: x rule: less_induct)
  case less
  have le: "length (pp_got x) \<le> length (k_out (pp_conn x))"
    using less.prems by (simp add: readable_end_def pipe_inv_def prefix_length_le)
  consider "pp_pc x = RDispatch" | "pp_pc x = RRead" "pp_got x \<noteq> k_out (pp_conn x)" | "pp_pc x = RRead" "pp_got x = k_out (pp_conn x)"
    using less.prems by (cases "pp_pc x") (auto simp: readable_end_def)
  then show ?case
  proof cases
    case 1
    obtain y where y: "pipe_step recv E x y" "readable_end y" "pp_sent y = pp_sent x" "pp_conn y = pp_conn x" "pp_got y = pp_got x"
      "pipe_outcome y = pipe_outcome x" "pp_pc y = RRead \<or> pp_pc y = RDispatch \<and> length (pp_rbuff y) < length (pp_rbuff x)"
      using turn_progress [OF less.prems 1] by blast
    have "length (pp_rbuff y) \<le> length (pp_rbuff x)" using y(1) 1
      by cases (auto simp: pipe_send_def loopRead_turn_def)
    then have "\<exists>z. pipe_steps recv E y z \<and> readable_end z \<and> pp_sent z = pp_sent y \<and> pp_conn z = pp_conn y \<and>
        pp_got z = k_out (pp_conn y) \<and> pp_pc z = RRead \<and> pipe_outcome z = pipe_outcome y"
      using y 1 by (intro less.hyps) auto
    then show ?thesis using y pipe_trans [OF _ pipe_one [OF y(1)]] by metis
  next
    case 2
    obtain y where y: "pipe_step recv E x y" "readable_end y" "pp_sent y = pp_sent x" "pp_conn y = pp_conn x"
      "pipe_outcome y = pipe_outcome x" "length (pp_got y) = Suc (length (pp_got x))" "length (pp_rbuff y) = Suc (length (pp_rbuff x))"
      using read_progress [OF less.prems 2] by blast
    have "length (pp_got y) \<le> length (k_out (pp_conn y))"
      using y(2) by (simp add: readable_end_def pipe_inv_def prefix_length_le)
    then have "\<exists>z. pipe_steps recv E y z \<and> readable_end z \<and> pp_sent z = pp_sent y \<and> pp_conn z = pp_conn y \<and>
        pp_got z = k_out (pp_conn y) \<and> pp_pc z = RRead \<and> pipe_outcome z = pipe_outcome y"
      using y 2 by (intro less.hyps) auto
    then show ?thesis using y pipe_trans [OF _ pipe_one [OF y(1)]] by metis
  next
    case 3
    then show ?thesis using less.prems pipe_steps.pipe_none by blast
  qed
qed

text \<open>Everything sent and written is handled once the reader waits for more.\<close>

lemma drained_handled:
  assumes "pipe_inv x" "pp_pc x = RRead" "pp_got x = k_out (pp_conn x)" "k_out (pp_conn x) = k_all (pp_conn x)"
  shows "pp_handled x = pp_sent x \<and> pp_rbuff x = [] \<and> pipe_queue x = []"
proof -
  have s: "pp_handled x @ pipe_queue x = pp_sent x" and g: "concat (map Pack (pp_handled x)) @ pp_rbuff x = pp_got x"
    using assms(1) by (simp_all add: pipe_inv_def)
  have "pp_got x = concat (map Pack (pp_handled x @ pipe_queue x))" using assms by (simp add: pipe_inv_def)
  then have b: "pp_rbuff x = concat (map Pack (pipe_queue x))" using g by simp
  have "Unpack (pp_rbuff x) = (0, [])" using assms(1,2) by (simp add: pipe_inv_def)
  then have "pipe_queue x = []" using frames_nonempty_front pipe_rbuff(2) [OF assms(1)] unfolding b by blast
  then show ?thesis using s b by simp
qed

text \<open>
  A message sent while the loops run reaches the handler, behind everything sent before it.
\<close>

lemma send_delivers:
  assumes x: "pipe_inv x" "pp_pc x \<noteq> REnd" "ok (pp_state x)" "\<forall>d \<in> set (pipe_queue x). good d"
    and w: "k_pc (pp_conn x) \<noteq> WSetWait" "\<And>e. k_pc (pp_conn x) \<noteq> WEnd e" and d: "length d < 2 ^ 32" "good d"
  shows "\<exists>y. pipe_steps recv E (pipe_send x d) y \<and> pp_handled y = pp_sent x @ [d] \<and> pp_rbuff y = [] \<and>
    rangeM (\<lambda>d s. map_option fst (handle s d)) (pipe_queue x @ [d]) (pp_state x) = Some (pp_state y)"
proof -
  have st: "pipe_step recv E x (pipe_send x d)" using d(1) by (rule pipe_step.send)
  note inv = pipe_step_inv [OF st x(1)]
  have "conn_inv (pp_conn x)" using x(1) by (simp add: pipe_inv_def)
  from send_awakes [OF this w] have "writer_awake (pp_conn (pipe_send x d))" by (simp add: pipe_send_def)
  then obtain c where c: "quiet_step\<^sup>*\<^sup>* (pp_conn (pipe_send x d)) c" "k_out c = k_all c"
    using awake_drains inv unfolding pipe_inv_def by blast
  let ?y = "(pipe_send x d)\<lparr>pp_conn := c\<rparr>"
  have ys: "pipe_steps recv E (pipe_send x d) ?y" using quiet_pipe [OF c(1)] .
  have "pipe_queue ?y = pipe_queue (pipe_send x d)" by (simp add: pipe_queue_def)
  then have q: "pipe_queue ?y = pipe_queue x @ [d]" using pipe_queue_send [OF x(1)] by simp
  then have "readable_end ?y" using pipe_steps_inv [OF ys inv] x d(2) by (simp add: readable_end_def pipe_send_def)
  from reader_drains [OF this] obtain z where z: "pipe_steps recv E ?y z" "readable_end z" "pp_sent z = pp_sent x @ [d]"
    "pp_conn z = c" "pp_got z = k_out c" "pp_pc z = RRead" "pipe_outcome z = pipe_outcome ?y"
    by (auto simp: pipe_send_def)
  have h: "pp_handled z = pp_sent z \<and> pp_rbuff z = [] \<and> pipe_queue z = []"
    using z c(2) by (intro drained_handled) (simp_all add: readable_end_def)
  have "pp_state ?y = pp_state x" by (simp add: pipe_send_def)
  then have "rangeM (\<lambda>d s. map_option fst (handle s d)) (pipe_queue x @ [d]) (pp_state x) = Some (pp_state z)"
    using z(7) h q unfolding pipe_outcome_def by simp
  then show ?thesis using pipe_trans [OF z(1) ys] z h by auto
qed

end

end
