(* ===== verification/NsRecv.thy ===== *)
theory NsRecv
  imports NsSpec Pipe
begin

text \<open>
  \<^verbatim>\<open>src/nameserver/receiver.go\<close>: the receiver of one agent connection, and the name server
  as a transition system: receivers, ticker and the serving goroutine interleave on the shared
  sessions and the bounded message queue. A getter of an absent oneof yields nil, and reading
  a field of nil is a panic, \<open>None\<close>.
\<close>

definition newReceiver :: NsReceiver where
  "newReceiver = \<lparr>lr_serverAddress = '''', lr_appid = '''', lr_sender = False, lr_sent = []\<rparr>"

definition NsReceiver_OnConnected :: "NsServer \<Rightarrow> connid \<Rightarrow> NsServer" where
  "NsReceiver_OnConnected s c =
     (case s_conns s c of None \<Rightarrow> s
      | Some lr \<Rightarrow> s\<lparr>s_conns := (s_conns s)(c \<mapsto> lr\<lparr>lr_sender := True\<rparr>)\<rparr>)"

text \<open>The non-blocking send on the message queue; a full queue drops the message.\<close>

definition deliver :: "NsServer \<Rightarrow> NsMsg \<Rightarrow> NsServer" where
  "deliver s msg = s\<lparr>s_msg_queue := fst (chan_offer (MsgQueueSize (s_cfg s)) (s_msg_queue s) msg)\<rparr>"

definition addSession :: "NsServer \<Rightarrow> connid \<Rightarrow> string \<Rightarrow> string \<Rightarrow> NsServer option" where
  "addSession s c appID serverAddr =
     (case s_conns s c of None \<Rightarrow> None
      | Some lr \<Rightarrow>
         if s_sess_mgr s then
           Some (s\<lparr>s_conns := (s_conns s)(c \<mapsto> lr\<lparr>lr_appid := appID, lr_serverAddress := serverAddr\<rparr>),
                   s_sm := SessionMgr_AddSession (s_sm s) serverAddr appID c\<rparr>)
         else None)"

fun OnNotifiedAgentInfo :: "NsServer \<Rightarrow> connid \<Rightarrow> SSBody option \<Rightarrow> NsServer option" where
  "OnNotifiedAgentInfo s c (Some (NotifyNameserverAgentInfo serverAddr appID)) = addSession s c appID serverAddr"
| "OnNotifiedAgentInfo s c _ = None"

fun OnRegisterApp :: "NsServer \<Rightarrow> connid \<Rightarrow> SSBody option \<Rightarrow> NsServer option" where
  "OnRegisterApp s c (Some (RegisterAppReq serverAddr appID)) = do {
     s \<leftarrow> addSession s c appID serverAddr;
     Some (deliver s (RegAppMsg serverAddr appID)) }"
| "OnRegisterApp s c _ = None"

fun OnRegisterService :: "NsServer \<Rightarrow> connid \<Rightarrow> SSBody option \<Rightarrow> NsServer option" where
  "OnRegisterService s c (Some (RegisterServiceReq (Some info) (Some opts))) = do {
     lr \<leftarrow> s_conns s c;
     Some (deliver s (RegServiceMsg (lr_serverAddress lr) (lr_appid lr) (addrOfPb info) (optsOfPb opts))) }"
| "OnRegisterService s c _ = None"

fun OnUnRegisterService :: "NsServer \<Rightarrow> SSBody option \<Rightarrow> NsServer option" where
  "OnUnRegisterService s (Some (UnregisterServiceReq h)) = Some (deliver s (UnRegServiceMsg h))"
| "OnUnRegisterService s _ = None"

fun OnNotifiedServiceHeartbeat :: "NsServer \<Rightarrow> SSBody option \<Rightarrow> NsServer option" where
  "OnNotifiedServiceHeartbeat s (Some (NotifyNameserverHb h)) = Some (deliver s (ServiceHeartbeat h))"
| "OnNotifiedServiceHeartbeat s _ = None"

fun OnServiceSyncAttr :: "NsServer \<Rightarrow> SSBody option \<Rightarrow> NsServer option" where
  "OnServiceSyncAttr s (Some (NotifyNameserverAttr h data)) = Some (deliver s (ServiceSyncAttr h data))"
| "OnServiceSyncAttr s _ = None"

fun OnServiceElection :: "NsServer \<Rightarrow> SSBody option \<Rightarrow> NsServer option" where
  "OnServiceElection s (Some (NotifyNameserverElection h event)) = Some (deliver s (ServiceElection h event))"
| "OnServiceElection s _ = None"

fun OnRegisterRouter :: "NsServer \<Rightarrow> connid \<Rightarrow> SSBody option \<Rightarrow> NsServer option" where
  "OnRegisterRouter s c (Some (NotifyNameserverRegisterRouter name)) = do {
     lr \<leftarrow> s_conns s c;
     Some (deliver s (RegisterNameRouter (lr_serverAddress lr) (lr_appid lr) name)) }"
| "OnRegisterRouter s c _ = None"

definition NsReceiver_dispatch :: "NsServer \<Rightarrow> connid \<Rightarrow> SSMsg \<Rightarrow> NsServer option" where
  "NsReceiver_dispatch s c ssmsg =
     (case ssCmd ssmsg of
        NOTIFY_NAMESERVER_AGENT_INFO \<Rightarrow> OnNotifiedAgentInfo s c (ssMsg ssmsg)
      | REQ_REGISTER_APP \<Rightarrow> OnRegisterApp s c (ssMsg ssmsg)
      | REQ_REGISTER_SERVICE \<Rightarrow> OnRegisterService s c (ssMsg ssmsg)
      | REQ_UNREGISTER_SERVICE \<Rightarrow> OnUnRegisterService s (ssMsg ssmsg)
      | NOTIFY_NAMESERVER_HEARTBEAT \<Rightarrow> OnNotifiedServiceHeartbeat s (ssMsg ssmsg)
      | NOTIFY_NAMESERVER_SYNCATTR \<Rightarrow> OnServiceSyncAttr s (ssMsg ssmsg)
      | NOTIFY_NAMESERVER_ELECTION \<Rightarrow> OnServiceElection s (ssMsg ssmsg)
      | NOTIFY_NAMESERVER_REGISTER_ROUTER \<Rightarrow> OnRegisterRouter s c (ssMsg ssmsg)
      | _ \<Rightarrow> Some s)"

text \<open>The result pairs the state with \<open>(skipLen, err)\<close>; \<open>err\<close> is only that decoding failed.\<close>

definition NsReceiver_OnMessage ::
  "unmarshal \<Rightarrow> NsServer \<Rightarrow> connid \<Rightarrow> bytes \<Rightarrow> (NsServer \<times> nat \<times> bool) option" where
  "NsReceiver_OnMessage unm s c b =
     (let (skipLen, data) = Unpack b in
      if 0 < skipLen then
        (case unm data of
           None \<Rightarrow> Some (s, skipLen, True)
         | Some ssmsg \<Rightarrow> do { s \<leftarrow> NsReceiver_dispatch s c ssmsg; Some (s, skipLen, False) })
      else Some (s, skipLen, False))"

definition NsReceiver_OnClosed :: "NsServer \<Rightarrow> connid \<Rightarrow> NsServer option" where
  "NsReceiver_OnClosed s c =
     (case s_conns s c of None \<Rightarrow> None
      | Some lr \<Rightarrow>
         if s_sess_mgr s
         then Some (s\<lparr>s_sm := SessionMgr_RemoveSession (s_sm s) (lr_serverAddress lr) (lr_appid lr)\<rparr>)
         else None)"

section \<open>The server as a transition system\<close>

text \<open>
  A state is the server and the clock. \<open>accept\<close> is a new connection with its receiver,
  \<open>recv\<close> one call of \<open>OnMessage\<close> that returns, \<open>close\<close> the end of a connection,
  \<open>tick\<close> the ticker goroutine getting its message into the queue, \<open>serve\<close> one turn of
  \<open>Serve\<close>, \<open>clock\<close> the passing of time and \<open>reorder\<close> the freedom of Go to iterate the
  applications in any order.
\<close>

inductive ns_step :: "marshal \<Rightarrow> unmarshal \<Rightarrow> NsServer \<times> int \<Rightarrow> NsServer \<times> int \<Rightarrow> bool"
  for mar unm where
  accept: "s_conns s c = None \<Longrightarrow>
    ns_step mar unm (s, now) (NsReceiver_OnConnected (s\<lparr>s_conns := (s_conns s)(c \<mapsto> newReceiver)\<rparr>) c, now)"
| recv: "NsReceiver_OnMessage unm s c b = Some (t, skip, err) \<Longrightarrow> ns_step mar unm (s, now) (t, now)"
| close: "NsReceiver_OnClosed s c = Some t \<Longrightarrow> ns_step mar unm (s, now) (t, now)"
| tick: "length (s_msg_queue s) < MsgQueueSize (s_cfg s) \<Longrightarrow>
    ns_step mar unm (s, now) (s\<lparr>s_msg_queue := s_msg_queue s @ [TickMsg]\<rparr>, now)"
| serve: "Server_Serve_step mar now s = Some t \<Longrightarrow> ns_step mar unm (s, now) (t, now)"
| clock: "now \<le> now' \<Longrightarrow> ns_step mar unm (s, now) (s, now')"
| reorder: "mset apps = mset (s_apps s) \<Longrightarrow> ns_step mar unm (s, now) (s\<lparr>s_apps := apps\<rparr>, now)"

inductive ns_reach :: "marshal \<Rightarrow> unmarshal \<Rightarrow> NsServer \<times> int \<Rightarrow> NsServer \<times> int \<Rightarrow> bool"
  for mar unm where
  start: "ns_reach mar unm x x"
| more: "ns_reach mar unm x y \<Longrightarrow> ns_step mar unm y z \<Longrightarrow> ns_reach mar unm x z"

inductive_cases ns_stepE: "ns_step mar unm (s, now) (t, now')"

section \<open>Frame of the receiver\<close>

text \<open>A receiver touches connections, sessions and the queue, never the directory.\<close>

definition recv_frame :: "NsServer \<Rightarrow> NsServer \<Rightarrow> bool" where
  "recv_frame s t \<longleftrightarrow> s_cfg t = s_cfg s \<and> s_sess_mgr t = s_sess_mgr s \<and> s_apps t = s_apps s \<and>
     s_handleServices t = s_handleServices s \<and> s_mem t = s_mem s \<and> s_next t = s_next s \<and> s_quit t = s_quit s"

lemma recv_frame_refl [simp]: "recv_frame s s"
  by (simp add: recv_frame_def)

lemma recv_frame_deliver [simp]: "recv_frame s (deliver t m) = recv_frame s t"
  by (simp add: recv_frame_def deliver_def)

lemma recv_frame_addSession: "addSession s c a b = Some t \<Longrightarrow> recv_frame s t"
  by (auto simp: addSession_def recv_frame_def split: option.splits if_splits)

lemma dispatch_frame:
  assumes "NsReceiver_dispatch s c m = Some t"
  shows "recv_frame s t"
proof (cases m)
  case (SSMsg cmd body)
  then show ?thesis using assms
    by (cases cmd) (auto simp: NsReceiver_dispatch_def recv_frame_addSession
        elim!: OnNotifiedAgentInfo.elims OnRegisterApp.elims OnRegisterService.elims
          OnUnRegisterService.elims OnNotifiedServiceHeartbeat.elims OnServiceSyncAttr.elims
          OnServiceElection.elims OnRegisterRouter.elims split: Option.bind_splits)
qed

lemma OnMessage_frame: "NsReceiver_OnMessage unm s c b = Some (t, k, e) \<Longrightarrow> recv_frame s t"
  by (auto simp: NsReceiver_OnMessage_def dispatch_frame split: prod.splits if_splits option.splits
      Option.bind_splits)

lemma recv_frame_dir_ok: "recv_frame s t \<Longrightarrow> dir_ok s \<Longrightarrow> dir_ok t"
  by (auto simp: dir_ok_def recv_frame_def)

lemma recv_frame_lru_ok: "recv_frame s t \<Longrightarrow> lru_ok now s \<Longrightarrow> lru_ok now t"
  by (simp add: lru_ok_def recv_frame_def lru_of_def)

section \<open>Frame of the serving goroutine\<close>

text \<open>The handlers never touch the queue, the sessions or the configuration.\<close>

definition serve_frame :: "NsServer \<Rightarrow> NsServer \<Rightarrow> bool" where
  "serve_frame s t \<longleftrightarrow> s_cfg t = s_cfg s \<and> s_sess_mgr t = s_sess_mgr s \<and> s_sm t = s_sm s \<and>
     s_msg_queue t = s_msg_queue s \<and> s_quit t = s_quit s"

lemma serve_frame_refl [simp]: "serve_frame s s"
  by (simp add: serve_frame_def)

lemma serve_frame_trans: "serve_frame s t \<Longrightarrow> serve_frame t u \<Longrightarrow> serve_frame s u"
  by (simp add: serve_frame_def)

lemma serve_frame_apps [simp]:
  "serve_frame s (t\<lparr>s_apps := x\<rparr>) = serve_frame s t" "serve_frame (s\<lparr>s_apps := x\<rparr>) t = serve_frame s t"
  "serve_frame s (t\<lparr>s_handleServices := y\<rparr>) = serve_frame s t"
  "serve_frame (s\<lparr>s_handleServices := y\<rparr>) t = serve_frame s t"
  "serve_frame s (t\<lparr>s_mem := m\<rparr>) = serve_frame s t" "serve_frame (s\<lparr>s_mem := m\<rparr>) t = serve_frame s t"
  "serve_frame s (t\<lparr>s_next := n\<rparr>) = serve_frame s t" "serve_frame (s\<lparr>s_next := n\<rparr>) t = serve_frame s t"
  by (simp_all add: serve_frame_def)

lemma serve_frame_sends: "only_sends s t \<Longrightarrow> serve_frame s t"
  by (simp add: serve_frame_def only_sends_fields)

lemmas sends_rules =
  serve_frame_sends [OF Broadcast_only_sends] serve_frame_sends [OF BroadcastOnline_only_sends]
  serve_frame_sends [OF BroadcastSyncAttr_only_sends] serve_frame_sends [OF NotifyConfirmResult_only_sends]
  serve_frame_sends [OF sendToSession_only_sends] serve_frame_sends [OF AddItem_only_sends]
  serve_frame_sends [OF StartConfirm_only_sends] serve_frame_sends [OF CheckExpired_only_sends]

lemma Giveup_frame: "AppInfo_OnServiceGiveupElection mar s app h = Some t \<Longrightarrow> serve_frame s t"
  by (auto simp: AppInfo_OnServiceGiveupElection_def Let_def
      split: Option.bind_splits prod.splits option.splits GiveupOutcome.splits dest!: sends_rules)

lemma RunFor_frame: "AppInfo_OnServiceRunForElection mar s app h = Some t \<Longrightarrow> serve_frame s t"
  by (auto simp: AppInfo_OnServiceRunForElection_def Let_def
      split: Option.bind_splits prod.splits option.splits if_splits dest!: sends_rules)

lemma Start2Stage_frame: "AppInfo_Start2StageConfirm mar now s app si = Some t \<Longrightarrow> serve_frame s t"
  by (auto simp: AppInfo_Start2StageConfirm_def Let_def
      split: Option.bind_splits prod.splits option.splits dest!: sends_rules)

lemma checkConfirm_frame:
  assumes "AppInfo_checkConfirmExpired mar now s app = Some t"
  shows "serve_frame s t"
  using assms unfolding AppInfo_checkConfirmExpired_def
  by (auto split: Option.bind_splits elim!: rangeM_inv [where P = "serve_frame s"])
    (auto dest!: sends_rules intro: serve_frame_trans)

lemma serve_frame_NotifyApp: "serve_frame s t \<Longrightarrow> serve_frame s (ServiceInfo_NotifyApp t si b)"
  by (blast intro: serve_frame_trans serve_frame_sends)

lemma UnRegister_frame: "Server_UnRegisterService mar s h k = Some (t, e) \<Longrightarrow> serve_frame s t"
  by (auto simp: Server_UnRegisterService_def Let_def
      split: Option.bind_splits option.splits if_splits
      dest!: sends_rules Giveup_frame intro: serve_frame_NotifyApp [OF serve_frame_trans] serve_frame_trans)

lemma OnTick_frame:
  assumes "Server_OnTick mar now s = Some t"
  shows "serve_frame s t"
proof -
  have alive: "serve_frame u v" if "AppInfo_checkServiceAlive mar now u app = Some v" for u v app
    using that unfolding AppInfo_checkServiceAlive_def
    by (auto split: Option.bind_splits elim!: rangeM_inv [where P = "serve_frame u"])
      (blast intro: serve_frame_trans UnRegister_frame)
  have "serve_frame u v" if "AppInfo_OnTick mar now u app = Some v" for u v app
    using that by (auto simp: AppInfo_OnTick_def split: Option.bind_splits
        intro: serve_frame_trans alive checkConfirm_frame)
  then show ?thesis using assms unfolding Server_OnTick_def
    by (elim rangeM_inv [where P = "serve_frame s"]) (auto intro: serve_frame_trans)
qed

lemma onMessage_frame:
  assumes "Server_onMessage mar now s msg = Some (t, e)"
  shows "serve_frame s t"
proof (cases msg)
  case (RegAppMsg sa app)
  have "serve_frame u (AppInfo_NotifyOthersOnlineToSelf mar (NsReceiver_Send u c b) a sa c)" for u c b a
    by (rule serve_frame_sends [OF only_sends_trans [OF NsReceiver_Send_only_sends NotifyOthers_only_sends]])
  then have "serve_frame s (AppInfo_NotifyOthersOnlineToSelf mar (NsReceiver_Send (s\<lparr>s_apps := x\<rparr>) c b) a sa c)" for x c b a
    by (metis serve_frame_apps(2))
  then show ?thesis using assms RegAppMsg
    by (auto simp: Server_RegisterApp_def Let_def split: Option.bind_splits option.splits)
next
  case (RegServiceMsg sa app addr opts)
  then show ?thesis using assms
    by (auto simp: Server_RegisterService_def Let_def split: Option.bind_splits option.splits if_splits
        intro: serve_frame_sends dest!: sends_rules Start2Stage_frame)
qed (use assms in \<open>auto simp: Server_OnServiceHeartbeat_def AppInfo_OnServiceHeartbeat_def
      Server_OnServiceSyncAttr_def Server_OnServiceElectionEvent_def Server_OnRegisterNameRouter_def
      AppInfo_AddNameRouter_def Let_def UnRegister_frame
      split: Option.bind_splits option.splits if_splits prod.splits
      dest!: sends_rules Giveup_frame RunFor_frame OnTick_frame\<close>)

section \<open>The invariant of every reachable state\<close>

definition ns_inv :: "NsServer \<times> int \<Rightarrow> bool" where
  "ns_inv x \<longleftrightarrow> dir_ok (fst x) \<and> lru_ok (snd x) (fst x) \<and>
     length (s_msg_queue (fst x)) \<le> MsgQueueSize (s_cfg (fst x))"

lemma lru_ok_queue [simp]: "lru_ok now (s\<lparr>s_msg_queue := q\<rparr>) = lru_ok now s"
  by (simp add: lru_ok_def lru_of_def)

lemma lru_ok_conns [simp]: "lru_ok now (s\<lparr>s_conns := q\<rparr>) = lru_ok now s"
  by (simp add: lru_ok_def lru_of_def)

lemma lru_ok_sm [simp]: "lru_ok now (s\<lparr>s_sm := q\<rparr>) = lru_ok now s"
  by (simp add: lru_ok_def lru_of_def)

lemma ns_inv_init: "ns_inv (Server_Init cfg si0, now)"
  by (simp add: ns_inv_def Server_Init_def dir_ok_def lru_ok_def lru_of_def)

lemma deliver_bound:
  "length (s_msg_queue s) \<le> MsgQueueSize (s_cfg s) \<Longrightarrow>
     length (s_msg_queue (deliver s m)) \<le> MsgQueueSize (s_cfg (deliver s m))"
  by (simp add: deliver_def chan_offer_bound)

lemma addSession_queue: "addSession s c a b = Some t \<Longrightarrow> s_msg_queue t = s_msg_queue s \<and> s_cfg t = s_cfg s"
  by (auto simp: addSession_def split: option.splits if_splits)

lemma dispatch_bound:
  assumes "NsReceiver_dispatch s c m = Some t" "length (s_msg_queue s) \<le> MsgQueueSize (s_cfg s)"
  shows "length (s_msg_queue t) \<le> MsgQueueSize (s_cfg t)"
proof (cases m)
  case (SSMsg cmd body)
  then show ?thesis using assms
    by (cases cmd) (auto simp: NsReceiver_dispatch_def deliver_bound addSession_queue
        elim!: OnNotifiedAgentInfo.elims OnRegisterApp.elims OnRegisterService.elims
          OnUnRegisterService.elims OnNotifiedServiceHeartbeat.elims OnServiceSyncAttr.elims
          OnServiceElection.elims OnRegisterRouter.elims split: Option.bind_splits)
qed

lemma dir_ok_reorder:
  assumes ok: "dir_ok s" and p: "mset apps = mset (s_apps s)"
  shows "dir_ok (s\<lparr>s_apps := apps\<rparr>)" "lru_ok now s \<Longrightarrow> lru_ok now (s\<lparr>s_apps := apps\<rparr>)"
proof -
  note q = mget_perm [OF dir_okD(3) [OF ok] p]
  then have "mget apps = mget (s_apps s)" by blast
  then show "dir_ok (s\<lparr>s_apps := apps\<rparr>)" "lru_ok now s \<Longrightarrow> lru_ok now (s\<lparr>s_apps := apps\<rparr>)"
    using ok q by (simp_all add: dir_ok_def lru_ok_def lru_of_def)
qed

lemma Serve_step_inv:
  assumes inv: "ns_inv (s, now)"
  shows "\<exists>t. Server_Serve_step mar now s = Some t \<and> ns_inv (t, now)"
proof (cases "s_msg_queue s")
  case Nil
  then show ?thesis using inv by (simp add: Server_Serve_step_def)
next
  case (Cons msg rest)
  let ?s = "s\<lparr>s_msg_queue := rest\<rparr>"
  have ok: "dir_ok ?s" "lru_ok now ?s" "length rest < MsgQueueSize (s_cfg s)"
    using inv Cons by (auto simp: ns_inv_def)
  obtain t e where t: "Server_onMessage mar now ?s msg = Some (t, e)" "dir_ok t"
    using onMessage_ok [OF ok(1)] by blast
  from onMessage_lru_ok [OF ok(1,2) t(1)] onMessage_frame [OF t(1)] ok(3) t(2)
  have "ns_inv (t, now)" by (simp add: ns_inv_def serve_frame_def)
  then show ?thesis using t(1) Cons by (simp add: Server_Serve_step_def)
qed

lemma ns_step_inv: "ns_step mar unm x y \<Longrightarrow> ns_inv x \<Longrightarrow> ns_inv y"
proof (induction rule: ns_step.induct)
  case (recv s c b t skip err now)
  have f: "recv_frame s t" using OnMessage_frame [OF recv.hyps] .
  have "length (s_msg_queue t) \<le> MsgQueueSize (s_cfg t)"
    using recv by (auto simp: NsReceiver_OnMessage_def ns_inv_def dispatch_bound
        split: prod.splits if_splits option.splits Option.bind_splits)
  then show ?case using f recv.prems recv_frame_dir_ok [OF f] recv_frame_lru_ok [OF f] by (simp add: ns_inv_def)
next
  case (serve now s t)
  then show ?case using Serve_step_inv [OF serve.prems, of mar] by auto
next
  case (reorder apps s now)
  then show ?case using dir_ok_reorder [of s apps] by (simp add: ns_inv_def)
qed (auto simp: ns_inv_def NsReceiver_OnConnected_def NsReceiver_OnClosed_def
    intro: lru_ok_mono split: option.splits if_splits)

lemma ns_reach_inv: "ns_reach mar unm x y \<Longrightarrow> ns_inv x \<Longrightarrow> ns_inv y"
  by (induction rule: ns_reach.induct) (auto intro: ns_step_inv)

section \<open>The receiver behind the read loop\<close>

text \<open>What \<open>OnMessage\<close> does with the body of a frame.\<close>

definition NsReceiver_body :: "unmarshal \<Rightarrow> connid \<Rightarrow> NsServer \<Rightarrow> bytes \<Rightarrow> (NsServer \<times> bool) option" where
  "NsReceiver_body unm c s d =
     (case unm d of None \<Rightarrow> Some (s, True) | Some m \<Rightarrow> map_option (\<lambda>t. (t, False)) (NsReceiver_dispatch s c m))"

interpretation ns_stream: frame_handler "\<lambda>s b. NsReceiver_OnMessage unm s c b" "NsReceiver_body unm c" for unm c
  by unfold_locales
    (auto simp: NsReceiver_OnMessage_def NsReceiver_body_def split: prod.split option.split Option.bind_splits)

lemma OnMessage_frame_first:
  assumes "codec_ok mar unm" "PackSSMsg mar m = Some f"
  shows "NsReceiver_OnMessage unm s c (f @ rest) =
    map_option (\<lambda>t. (t, length f, False)) (NsReceiver_dispatch s c m)" and "0 < length f"
  using Unpack_PackSSMsg [OF assms, of rest]
  by (auto simp: NsReceiver_OnMessage_def split: option.splits) (cases "NsReceiver_dispatch s c m"; simp)

lemma dispatch_frames:
  assumes ok: "codec_ok mar unm" and fs: "list_all2 (\<lambda>m f. PackSSMsg mar m = Some f) ms fs"
  shows "Conn_dispatch (\<lambda>s b. NsReceiver_OnMessage unm s c b) s (concat fs) =
    map_option (\<lambda>t. (t, [])) (rangeM (\<lambda>m s. NsReceiver_dispatch s c m) ms s)"
  using fs
proof (induction ms fs arbitrary: s rule: list_all2_induct)
  case Nil
  have "NsReceiver_OnMessage unm s c [] = Some (s, 0, False)"
    by (simp add: NsReceiver_OnMessage_def Unpack_def PkgHeadLen_def)
  from ns_stream.dispatch_wait [OF this] show ?case by simp
next
  case (Cons m ms f fs)
  note first = OnMessage_frame_first(1) [OF ok Cons(1), of s c "concat fs"]
    and len = OnMessage_frame_first(2) [OF ok Cons(1)]
  show ?case
  proof (cases "NsReceiver_dispatch s c m")
    case None
    then show ?thesis using ns_stream.dispatch_panic first by simp
  next
    case (Some t)
    with first have "NsReceiver_OnMessage unm s c (concat (f # fs)) = Some (t, length f, False)" by simp
    from ns_stream.dispatch_take [OF this len] Some Cons(3) [of t] show ?thesis by simp
  qed
qed

section \<open>Properties\<close>

text \<open>
  C7: In every state the name server can reach, by any interleaving of connections, incoming bytes,
  disconnections, ticks and handled messages and under any iteration order of its maps, the
  directory, the LRU lists and the election tables agree, the queue is within its bound, and the
  serving goroutine handles the next message without a panic.
\<close>

theorem ns_reachable_safe:
  assumes "ns_reach mar unm (Server_Init cfg si0, t0) (s, now)"
  shows "dir_ok s \<and> lru_ok now s \<and> length (s_msg_queue s) \<le> MsgQueueSize (s_cfg s) \<and>
    (\<exists>t. Server_Serve_step mar now s = Some t)"
proof -
  have "ns_inv (s, now)" by (rule ns_reach_inv [OF assms ns_inv_init])
  then show ?thesis using Serve_step_inv [of s now mar] by (auto simp: ns_inv_def)
qed

definition ex_msgs :: "SSMsg list" where
  "ex_msgs = [SSMsg REQ_REGISTER_APP (Some (RegisterAppReq ''h1'' ''app'')),
     SSMsg NOTIFY_NAMESERVER_HEARTBEAT (Some (NotifyNameserverHb 7))]"

definition ex_accepted :: NsServer where
  "ex_accepted = (let s = Server_Init (s_cfg ex_cast) (s_mem ex_cast 0) in
     NsReceiver_OnConnected (s\<lparr>s_conns := (s_conns s)(3 \<mapsto> newReceiver)\<rparr>) 3)"

lemma ex_accepted_reach: "ns_reach mar unm (Server_Init (s_cfg ex_cast) (s_mem ex_cast 0), 0) (ex_accepted, 0)"
  unfolding ex_accepted_def Let_def
  by (rule ns_reach.more [OF ns_reach.start ns_step.accept]) (simp add: Server_Init_def)

theorem ns_reachable_safe_witness:
  "dir_ok ex_accepted \<and> (\<exists>t. Server_Serve_step (tab_mar ex_msgs) 0 ex_accepted = Some t)"
  using ns_reachable_safe [OF ex_accepted_reach [of "tab_mar ex_msgs" "tab_unm ex_msgs"]] by blast

text \<open>
  C16: The frames an agent writes are dispatched once each and in order, however the network cuts the
  stream into reads: the read loop of the connection has the effect of handling the messages one
  after the other, and keeps nothing back.
\<close>

theorem ns_stream_chunks:
  assumes "codec_ok mar unm" "list_all2 (\<lambda>m f. PackSSMsg mar m = Some f) ms fs"
    and "concat chunks = concat fs" "[] \<notin> set chunks"
  shows "map_option (\<lambda>(s, rsize, rbuff, e). (s, rbuff, e))
      (Conn_loopRead (\<lambda>s b. NsReceiver_OnMessage unm s c b) MIN_CONN_READ_BUFFER s [] (map ReadBytes chunks)) =
    map_option (\<lambda>t. (t, [], ReadBlocked)) (rangeM (\<lambda>m s. NsReceiver_dispatch s c m) ms s)"
proof -
  have "NsReceiver_OnMessage unm s c [] = Some (s, 0, False)"
    by (simp add: NsReceiver_OnMessage_def Unpack_def PkgHeadLen_def)
  from ns_stream.dispatch_wait [OF this]
  have "map_option (\<lambda>(s, rsize, rbuff, e). (s, rbuff, e))
      (Conn_loopRead (\<lambda>s b. NsReceiver_OnMessage unm s c b) MIN_CONN_READ_BUFFER s [] (map ReadBytes chunks)) =
    map_option (\<lambda>(s, rbuff). (s, rbuff, ReadBlocked))
      (Conn_dispatch (\<lambda>s b. NsReceiver_OnMessage unm s c b) s ([] @ concat chunks))"
    using assms(4) by (intro ns_stream.loopRead_chunks) auto
  then show ?thesis unfolding append_Nil assms(3) dispatch_frames [OF assms(1,2)] by (simp add: option.map_comp comp_def)
qed

theorem ns_stream_chunks_witness:
  "\<exists>t. map_option (\<lambda>(s, rsize, rbuff, e). (s, rbuff, e))
      (Conn_loopRead (\<lambda>s b. NsReceiver_OnMessage (tab_unm ex_msgs) s 3 b) MIN_CONN_READ_BUFFER ex_accepted []
        (map ReadBytes [[0, 0, 0], [1, 0, 0, 0, 0], [1, 1]])) = Some (t, [], ReadBlocked) \<and>
     s_msg_queue t = [RegAppMsg ''h1'' ''app'', ServiceHeartbeat 7]"
proof -
  have mar: "tab_mar ex_msgs (ex_msgs ! 0) = Some [0]" "tab_mar ex_msgs (ex_msgs ! 1) = Some [1]"
    by (simp_all add: tab_mar_def ex_msgs_def)
  have "list_all2 (\<lambda>m f. PackSSMsg (tab_mar ex_msgs) m = Some f) [ex_msgs ! 0, ex_msgs ! 1] [[0, 0, 0, 1, 0], [0, 0, 0, 1, 1]]"
    by (simp add: PackSSMsg_def mar mar(2) [unfolded One_nat_def] Pack_def be_PutUint32_def)
  note r = ns_stream_chunks [OF tab_codec_ok this, of "[[0, 0, 0], [1, 0, 0, 0, 0], [1, 1]]" 3 ex_accepted]
  have "\<exists>t. rangeM (\<lambda>m s. NsReceiver_dispatch s 3 m) [ex_msgs ! 0, ex_msgs ! 1] ex_accepted = Some t \<and>
      s_msg_queue t = [RegAppMsg ''h1'' ''app'', ServiceHeartbeat 7]"
    by (simp add: ex_msgs_def NsReceiver_dispatch_def addSession_def ex_accepted_def NsReceiver_OnConnected_def
        Server_Init_def newReceiver_def deliver_def chan_offer_def ex_cast_def Let_def)
  then show ?thesis using r by (auto simp: ex_msgs_def)
qed

text \<open>The messages a receiver can read: the body is the one its command announces.\<close>

fun readable :: "SSMsg \<Rightarrow> bool" where
  "readable (SSMsg NOTIFY_NAMESERVER_AGENT_INFO b) = (case b of Some (NotifyNameserverAgentInfo _ _) \<Rightarrow> True | _ \<Rightarrow> False)"
| "readable (SSMsg REQ_REGISTER_APP b) = (case b of Some (RegisterAppReq _ _) \<Rightarrow> True | _ \<Rightarrow> False)"
| "readable (SSMsg REQ_REGISTER_SERVICE b) = (case b of Some (RegisterServiceReq (Some _) (Some _)) \<Rightarrow> True | _ \<Rightarrow> False)"
| "readable (SSMsg REQ_UNREGISTER_SERVICE b) = (case b of Some (UnregisterServiceReq _) \<Rightarrow> True | _ \<Rightarrow> False)"
| "readable (SSMsg NOTIFY_NAMESERVER_HEARTBEAT b) = (case b of Some (NotifyNameserverHb _) \<Rightarrow> True | _ \<Rightarrow> False)"
| "readable (SSMsg NOTIFY_NAMESERVER_SYNCATTR b) = (case b of Some (NotifyNameserverAttr _ _) \<Rightarrow> True | _ \<Rightarrow> False)"
| "readable (SSMsg NOTIFY_NAMESERVER_ELECTION b) = (case b of Some (NotifyNameserverElection _ _) \<Rightarrow> True | _ \<Rightarrow> False)"
| "readable (SSMsg NOTIFY_NAMESERVER_REGISTER_ROUTER b) = (case b of Some (NotifyNameserverRegisterRouter _) \<Rightarrow> True | _ \<Rightarrow> False)"
| "readable (SSMsg _ b) = True"

lemma OnRegisterService_None:
  "s_conns s c = Some lr \<Longrightarrow> OnRegisterService s c (Some (RegisterServiceReq (Some y) x)) = None \<longleftrightarrow> x = None"
  by (cases x) auto

text \<open>
  The receiver does not validate what it decodes: on an accepted connection the dispatch of a
  message returns exactly when the body is the one the command announces, with every nested message
  present; any other decodable message is a nil dereference that ends the name server.
\<close>

theorem ns_dispatch_panics_iff:
  assumes "s_conns s c = Some lr" "s_sess_mgr s"
  shows "NsReceiver_dispatch s c m = None \<longleftrightarrow> \<not> readable m"
  using assms by (cases m rule: readable.cases)
    (auto simp: NsReceiver_dispatch_def addSession_def OnRegisterService_None split: option.splits SSBody.splits)

theorem ns_dispatch_panics_iff_witness:
  "NsReceiver_dispatch ex_accepted 3 (SSMsg REQ_REGISTER_APP None) = None \<and>
   NsReceiver_dispatch ex_accepted 3 (SSMsg REQ_REGISTER_SERVICE (Some (RegisterServiceReq (Some (PbServiceInfo ''s'' 1 2)) None))) = None"
  using ns_dispatch_panics_iff [of ex_accepted 3]
  by (simp add: ex_accepted_def NsReceiver_OnConnected_def Server_Init_def)

text \<open>
  A late disconnect removes the session of the connection that replaced it: when an agent has
  reconnected and announced itself under the same address and application before the name server
  notices the end of the old connection, the close of the old one leaves the agent without a session.
\<close>

theorem ns_stale_close:
  assumes "s_conns s old = Some lr" "s_conns s new = Some lr'" "s_sess_mgr s"
    and "NsReceiver_dispatch s new (SSMsg NOTIFY_NAMESERVER_AGENT_INFO
      (Some (NotifyNameserverAgentInfo (lr_serverAddress lr) (lr_appid lr)))) = Some t" "old \<noteq> new"
  shows "Server_GetSession t (lr_serverAddress lr) (lr_appid lr) = Some (Some new) \<and>
    (\<exists>u. NsReceiver_OnClosed t old = Some u \<and>
       Server_GetSession u (lr_serverAddress lr) (lr_appid lr) = Some None)"
  using assms by (auto simp: NsReceiver_dispatch_def addSession_def NsReceiver_OnClosed_def Server_GetSession_def
      SessionMgr_GetSession_def SessionMgr_AddSession_def SessionMgr_RemoveSession_def)

theorem ns_stale_close_witness:
  "\<exists>t u. NsReceiver_dispatch (ex_accepted\<lparr>s_conns := (s_conns ex_accepted)(4 \<mapsto> newReceiver)\<rparr>) 4
      (SSMsg NOTIFY_NAMESERVER_AGENT_INFO (Some (NotifyNameserverAgentInfo [] []))) = Some t \<and>
     Server_GetSession t [] [] = Some (Some 4) \<and>
     NsReceiver_OnClosed t 3 = Some u \<and> Server_GetSession u [] [] = Some None"
proof -
  let ?s = "ex_accepted\<lparr>s_conns := (s_conns ex_accepted)(4 \<mapsto> newReceiver)\<rparr>"
  let ?lr = "newReceiver\<lparr>lr_sender := True\<rparr>"
  have c: "s_conns ?s 3 = Some ?lr" "s_conns ?s 4 = Some newReceiver" "s_sess_mgr ?s"
    "lr_serverAddress ?lr = []" "lr_appid ?lr = []"
    by (simp_all add: ex_accepted_def NsReceiver_OnConnected_def Server_Init_def newReceiver_def Let_def)
  obtain t where "NsReceiver_dispatch ?s 4 (SSMsg NOTIFY_NAMESERVER_AGENT_INFO (Some (NotifyNameserverAgentInfo [] []))) = Some t"
    using c by (simp add: NsReceiver_dispatch_def addSession_def)
  with ns_stale_close [OF c(1-3), of t] c(4,5) show ?thesis by auto
qed

end
