(* ===== verification/NsLife.thy ===== *)
theory NsLife
  imports NsRecv
begin

text \<open>
  The life of the name server: \<open>Init\<close> and \<open>loadConfig\<close> of \<^verbatim>\<open>src/nameserver/server.go\<close>, and the end of
  \<open>Serve\<close> after \<open>GracefulStop\<close>. \<open>readFile\<close> is the file system and \<open>jcfg\<close> decodes the JSON text of the
  configuration, whose sizes are the integers of the file.
\<close>

section \<open>Starting\<close>

record NsConfigJson =
  cj_ServerAddress :: string
  cj_MsgQueueSize :: int
  cj_ServiceKeepaliveTime :: int
  cj_ServerTickInterval :: int

datatype NsInitErr = NsReadFileErr string | NsConfigJsonErr string

definition Server_loadConfig ::
  "(string \<Rightarrow> string + bytes) \<Rightarrow> (bytes \<Rightarrow> string + NsConfigJson) \<Rightarrow> string \<Rightarrow> NsInitErr + NsConfigJson" where
  "Server_loadConfig readFile jcfg conf =
     (case readFile conf of
        Inl e \<Rightarrow> Inl (NsReadFileErr e)
      | Inr data \<Rightarrow>
          (case jcfg data of
             Inl e \<Rightarrow> Inl (NsConfigJsonErr e)
           | Inr cfg \<Rightarrow> Inr cfg))"

definition Server_Init_all ::
  "(string \<Rightarrow> string + bytes) \<Rightarrow> (bytes \<Rightarrow> string + NsConfigJson) \<Rightarrow> ServiceInfo \<Rightarrow> string \<Rightarrow> (NsInitErr + NsServer) option" where
  "Server_Init_all readFile jcfg si0 conf =
     (case Server_loadConfig readFile jcfg conf of
        Inl e \<Rightarrow> Some (Inl e)
      | Inr c \<Rightarrow> do {
          _ \<leftarrow> make_chan (cj_MsgQueueSize c);
          let s = Server_Init \<lparr>ServerAddress = cj_ServerAddress c, MsgQueueSize = nat (cj_MsgQueueSize c),
                    ServiceKeepaliveTime = cj_ServiceKeepaliveTime c, ServerTickInterval = cj_ServerTickInterval c\<rparr> si0;
          _ \<leftarrow> NewTicker (cj_ServerTickInterval c);
          Some (Inr s) })"

section \<open>Stopping\<close>

text \<open>The loop of \<open>Serve\<close> that handles what is left in the queue once \<open>quit\<close> has fired.\<close>

definition Server_Serve_quit :: "marshal \<Rightarrow> int \<Rightarrow> NsServer \<Rightarrow> NsServer option" where
  "Server_Serve_quit mar now s =
     rangeM (\<lambda>msg s. map_option fst (Server_onMessage mar now s msg)) (s_msg_queue s) (s\<lparr>s_msg_queue := []\<rparr>)"

fun registers :: "NsMsg \<Rightarrow> bool" where
  "registers (RegAppMsg serverAddr appid) = True"
| "registers (RegServiceMsg serverAddr appid serviceAddr serviceOpts) = True"
| "registers _ = False"

text \<open>A stopped server: the tables are empty and the session manager is gone.\<close>

definition ns_stopped :: "NsServer \<Rightarrow> bool" where
  "ns_stopped s \<longleftrightarrow> \<not> s_sess_mgr s \<and> s_apps s = [] \<and> s_handleServices s = []"

lemma stopped_onMessage:
  assumes "ns_stopped s"
  shows "map_option fst (Server_onMessage mar now s m) = (if registers m then None else Some s)"
  using assms
  by (cases m) (simp_all add: ns_stopped_def Server_RegisterApp_def Server_RegisterService_def Server_UnRegisterService_def
      Server_OnServiceHeartbeat_def Server_OnTick_def Server_OnServiceSyncAttr_def Server_OnServiceElectionEvent_def
      Server_OnRegisterNameRouter_def Server_GetSession_def)

section \<open>Properties\<close>

text \<open>
  Stopping the name server with registrations in its queue is a panic: when \<open>GracefulStop\<close> has
  run, the serving goroutine that handles the rest of the queue ends in a nil dereference exactly if the registration of
  an application or of a service is left; otherwise it changes nothing.
\<close>

theorem ns_stop_panics_iff:
  "Server_Serve_quit mar now (Server_GracefulStop s) =
     (if \<exists>m \<in> set (s_msg_queue s). registers m then None else Some ((Server_GracefulStop s)\<lparr>s_msg_queue := []\<rparr>))"
proof -
  have "rangeM (\<lambda>msg s. map_option fst (Server_onMessage mar now s msg)) ms t = (if \<exists>m \<in> set ms. registers m then None else Some t)"
    if "ns_stopped t" for ms t
    using that by (induction ms) (auto simp: stopped_onMessage)
  moreover have "ns_stopped ((Server_GracefulStop s)\<lparr>s_msg_queue := []\<rparr>)" "s_msg_queue (Server_GracefulStop s) = s_msg_queue s"
    by (simp_all add: ns_stopped_def Server_GracefulStop_def)
  ultimately show ?thesis by (simp add: Server_Serve_quit_def)
qed

text \<open>
  The configuration of the name server is not checked: a queue size below zero or a tick interval that
  is missing or not positive is a panic, every other readable configuration starts the server.
\<close>

theorem ns_init_panics_iff:
  assumes "Server_loadConfig readFile jcfg conf = Inr c" "cj_ServerTickInterval c \<le> 9223372036" "- 9223372036 \<le> cj_ServerTickInterval c"
  shows "Server_Init_all readFile jcfg si0 conf = None \<longleftrightarrow> cj_MsgQueueSize c < 0 \<or> cj_ServerTickInterval c \<le> 0"
proof -
  have "NewTicker (cj_ServerTickInterval c) = None \<longleftrightarrow> cj_ServerTickInterval c \<le> 0"
    using assms(2,3) NewTicker_small [of "cj_ServerTickInterval c"] by (simp split: if_splits)
  then show ?thesis using assms(1) by (cases "NewTicker (cj_ServerTickInterval c)") (auto simp: Server_Init_all_def make_chan_def Let_def)
qed

end
