(* ===== verification/NsServe.thy ===== *)
theory NsServe
  imports NsLife
begin

text \<open>
  The name server from its start to its end (\<^verbatim>\<open>src/nameserver/server.go\<close>): the serving goroutine with
  its three ways out of the select, the ticker, the goroutine of the listener, the receivers of the
  connections and the goroutine that calls \<open>GracefulStop\<close>, interleaved between the handling of two
  messages and between two statements of the stop. A panic of any goroutine ends the process.
\<close>

section \<open>The transition system\<close>

text \<open>\<open>SvLoop\<close>: in the loop of \<open>Serve\<close>; \<open>SvDrain\<close>: handling what is left after \<open>quit\<close>; \<open>SvRet\<close>: returned.\<close>

datatype NsServePc = SvLoop | SvDrain | SvRet "string option"

text \<open>How far \<open>GracefulStop\<close> has come: after which of its statements.\<close>

datatype NsStopPc = StNone | StQuit | StReleased | StNil | StApps | StDone

fun GracefulStop_next :: "NsStopPc \<Rightarrow> NsServer \<Rightarrow> NsStopPc \<times> NsServer" where
  "GracefulStop_next StNone s = (StQuit, s\<lparr>s_quit := True\<rparr>)"
| "GracefulStop_next StQuit s = (StReleased, s\<lparr>s_sm := SessionMgr_Release (s_sm s)\<rparr>)"
| "GracefulStop_next StReleased s = (StNil, s\<lparr>s_sess_mgr := False\<rparr>)"
| "GracefulStop_next StNil s = (StApps, s\<lparr>s_apps := []\<rparr>)"
| "GracefulStop_next StApps s = (StDone, s\<lparr>s_handleServices := []\<rparr>)"
| "GracefulStop_next StDone s = (StDone, s)"

record ns_life =
  nl_srv :: NsServer
  nl_now :: int
  nl_token :: bool
  nl_err :: "string option list"
  nl_serve :: NsServePc
  nl_stop :: NsStopPc
  nl_crashed :: bool

definition ns_life_start :: "NsServer \<Rightarrow> int \<Rightarrow> ns_life" where
  "ns_life_start s now = \<lparr>nl_srv = s, nl_now = now, nl_token = False, nl_err = [], nl_serve = SvLoop, nl_stop = StNone,
     nl_crashed = False\<rparr>"

text \<open>What an operation of a goroutine leaves: the new state of the server, or the end of the process.\<close>

definition ns_run :: "ns_life \<Rightarrow> NsServer option \<Rightarrow> ns_life" where
  "ns_run l r = (case r of None \<Rightarrow> l\<lparr>nl_crashed := True\<rparr> | Some t \<Rightarrow> l\<lparr>nl_srv := t\<rparr>)"

text \<open>
  \<open>sv_ticker\<close> puts a token into the channel of the ticker unless it has been stopped, \<open>sv_tick\<close> is the
  goroutine that turns it into a message. A connection is read with bytes of a well-behaved peer; its
  end runs \<open>OnClosed\<close>.
\<close>

inductive ns_life_step :: "marshal \<Rightarrow> unmarshal \<Rightarrow> ns_life \<Rightarrow> ns_life \<Rightarrow> bool" for mar unm where
  sv_turn: "\<not> nl_crashed l \<Longrightarrow> nl_serve l = SvLoop \<or> nl_serve l = SvDrain \<Longrightarrow> s_msg_queue (nl_srv l) \<noteq> [] \<Longrightarrow>
    ns_life_step mar unm l (ns_run l (Server_Serve_step mar (nl_now l) (nl_srv l)))"
| sv_err: "\<not> nl_crashed l \<Longrightarrow> nl_serve l = SvLoop \<Longrightarrow> nl_err l = e # q \<Longrightarrow>
    ns_life_step mar unm l (l\<lparr>nl_err := q, nl_serve := SvRet e\<rparr>)"
| sv_quit: "\<not> nl_crashed l \<Longrightarrow> nl_serve l = SvLoop \<Longrightarrow> s_quit (nl_srv l) \<Longrightarrow>
    ns_life_step mar unm l (l\<lparr>nl_serve := SvDrain\<rparr>)"
| sv_end: "\<not> nl_crashed l \<Longrightarrow> nl_serve l = SvDrain \<Longrightarrow> s_msg_queue (nl_srv l) = [] \<Longrightarrow>
    ns_life_step mar unm l (l\<lparr>nl_serve := SvRet None\<rparr>)"
| sv_stop: "\<not> nl_crashed l \<Longrightarrow> GracefulStop_next (nl_stop l) (nl_srv l) = (pc, s) \<Longrightarrow>
    ns_life_step mar unm l (l\<lparr>nl_stop := pc, nl_srv := s\<rparr>)"
| sv_ticker: "\<not> nl_crashed l \<Longrightarrow> nl_stop l = StNone \<Longrightarrow> ns_life_step mar unm l (l\<lparr>nl_token := True\<rparr>)"
| sv_tick: "\<not> nl_crashed l \<Longrightarrow> nl_token l \<Longrightarrow> length (s_msg_queue (nl_srv l)) < MsgQueueSize (s_cfg (nl_srv l)) \<Longrightarrow>
    ns_life_step mar unm l (l\<lparr>nl_token := False, nl_srv := (nl_srv l)\<lparr>s_msg_queue := s_msg_queue (nl_srv l) @ [TickMsg]\<rparr>\<rparr>)"
| sv_listener: "\<not> nl_crashed l \<Longrightarrow> nl_err l = [] \<Longrightarrow> ns_life_step mar unm l (l\<lparr>nl_err := [e]\<rparr>)"
| sv_accept: "\<not> nl_crashed l \<Longrightarrow> s_conns (nl_srv l) c = None \<Longrightarrow>
    ns_life_step mar unm l
      (l\<lparr>nl_srv := NsReceiver_OnConnected ((nl_srv l)\<lparr>s_conns := (s_conns (nl_srv l))(c \<mapsto> newReceiver)\<rparr>) c\<rparr>)"
| sv_recv: "\<not> nl_crashed l \<Longrightarrow> s_conns (nl_srv l) c = Some lr \<Longrightarrow>
    (\<And>m. unm (snd (Unpack b)) = Some m \<Longrightarrow> readable m) \<Longrightarrow>
    ns_life_step mar unm l (ns_run l (map_option fst (NsReceiver_OnMessage unm (nl_srv l) c b)))"
| sv_close: "\<not> nl_crashed l \<Longrightarrow> s_conns (nl_srv l) c = Some lr \<Longrightarrow>
    ns_life_step mar unm l (ns_run l (NsReceiver_OnClosed (nl_srv l) c))"
| sv_clock: "\<not> nl_crashed l \<Longrightarrow> nl_now l \<le> now \<Longrightarrow> ns_life_step mar unm l (l\<lparr>nl_now := now\<rparr>)"
| sv_reorder: "\<not> nl_crashed l \<Longrightarrow> mset apps = mset (s_apps (nl_srv l)) \<Longrightarrow>
    ns_life_step mar unm l (l\<lparr>nl_srv := (nl_srv l)\<lparr>s_apps := apps\<rparr>\<rparr>)"

inductive ns_life_reach :: "marshal \<Rightarrow> unmarshal \<Rightarrow> ns_life \<Rightarrow> ns_life \<Rightarrow> bool" for mar unm where
  sv_refl: "ns_life_reach mar unm l l"
| sv_more: "ns_life_reach mar unm l m \<Longrightarrow> ns_life_step mar unm m n \<Longrightarrow> ns_life_reach mar unm l n"

lemma ns_life_trans: "ns_life_reach mar unm m n \<Longrightarrow> ns_life_reach mar unm l m \<Longrightarrow> ns_life_reach mar unm l n"
  by (induction rule: ns_life_reach.induct) (auto intro: ns_life_reach.sv_more)

lemma ns_life_first: "ns_life_step mar unm l m \<Longrightarrow> ns_life_reach mar unm m n \<Longrightarrow> ns_life_reach mar unm l n"
  using ns_life_trans ns_life_reach.sv_more [OF ns_life_reach.sv_refl] by blast

text \<open>The statements of the stop are those of \<open>GracefulStop\<close>.\<close>

lemma GracefulStop_pieces: "((\<lambda>(pc, s). GracefulStop_next pc s) ^^ 5) (StNone, s) = (StDone, Server_GracefulStop s)"
  by (simp add: numeral_eq_Suc Server_GracefulStop_def)

section \<open>What holds in every reachable state\<close>

text \<open>Until the session manager is taken away the server is as it always is; afterwards it empties.\<close>

fun stop_inv :: "NsStopPc \<Rightarrow> NsServer \<Rightarrow> int \<Rightarrow> bool \<Rightarrow> bool" where
  "stop_inv StNone s now crashed \<longleftrightarrow> ns_inv (s, now) \<and> \<not> crashed"
| "stop_inv StQuit s now crashed \<longleftrightarrow> ns_inv (s, now) \<and> \<not> crashed \<and> s_quit s"
| "stop_inv StReleased s now crashed \<longleftrightarrow> ns_inv (s, now) \<and> \<not> crashed \<and> s_quit s"
| "stop_inv StNil s now crashed \<longleftrightarrow> \<not> s_sess_mgr s \<and> s_quit s"
| "stop_inv StApps s now crashed \<longleftrightarrow> \<not> s_sess_mgr s \<and> s_quit s \<and> s_apps s = []"
| "stop_inv StDone s now crashed \<longleftrightarrow> ns_stopped s \<and> s_quit s"

abbreviation life_inv :: "ns_life \<Rightarrow> bool" where
  "life_inv l \<equiv> stop_inv (nl_stop l) (nl_srv l) (nl_now l) (nl_crashed l)"

lemma stop_inv_dir:
  "stop_inv pc s now cr \<Longrightarrow> s_sess_mgr s \<Longrightarrow> ns_inv (s, now) \<and> \<not> cr \<and> (pc \<noteq> StNone \<longrightarrow> s_quit s)"
  by (cases pc) (simp_all add: ns_stopped_def)

text \<open>A step that keeps the session manager, \<open>quit\<close> and, once it is gone, the tables.\<close>

definition stop_frame :: "NsServer \<Rightarrow> NsServer \<Rightarrow> bool" where
  "stop_frame s t \<longleftrightarrow> s_sess_mgr t = s_sess_mgr s \<and> s_quit t = s_quit s \<and>
     (\<not> s_sess_mgr s \<longrightarrow> s_apps s = [] \<longrightarrow> s_apps t = [] \<and> (s_handleServices s = [] \<longrightarrow> s_handleServices t = []))"

lemma stop_inv_step:
  assumes "stop_inv pc s now cr" "stop_frame s t" "s_sess_mgr s \<Longrightarrow> ns_inv (t, now')"
  shows "stop_inv pc t now' cr"
  using assms by (cases pc) (auto simp: stop_frame_def ns_stopped_def ns_inv_def dir_ok_def)

lemma stop_inv_crash: "stop_inv pc s now cr \<Longrightarrow> \<not> s_sess_mgr s \<Longrightarrow> stop_inv pc s now True"
  by (cases pc) (auto simp: ns_inv_def dir_ok_def)

lemma emptied_onMessage:
  assumes "\<not> s_sess_mgr s" "s_apps s = []" "Server_onMessage mar now s m = Some (t, e)"
  shows "t = s"
  using assms
  by (cases m) (auto simp: Server_RegisterApp_def Server_RegisterService_def Server_UnRegisterService_def
      Server_OnServiceHeartbeat_def Server_OnTick_def Server_OnServiceSyncAttr_def Server_OnServiceElectionEvent_def
      Server_OnRegisterNameRouter_def Server_GetSession_def Let_def split: option.splits if_splits)

lemma Serve_step_frame: "Server_Serve_step mar now s = Some t \<Longrightarrow> stop_frame s t"
proof -
  assume t: "Server_Serve_step mar now s = Some t"
  show ?thesis
  proof (cases "s_msg_queue s")
    case Nil
    then show ?thesis using t by (simp add: Server_Serve_step_def stop_frame_def)
  next
    case (Cons m rest)
    then obtain e where e: "Server_onMessage mar now (s\<lparr>s_msg_queue := rest\<rparr>) m = Some (t, e)"
      using t by (auto simp: Server_Serve_step_def)
    show ?thesis
      using onMessage_frame [OF e] emptied_onMessage [OF _ _ e] by (auto simp: stop_frame_def serve_frame_def)
  qed
qed

lemma recv_frame_stop: "recv_frame s t \<Longrightarrow> stop_frame s t"
  by (simp add: recv_frame_def stop_frame_def)

lemma stop_inv_run:
  assumes "life_inv l" "\<And>t. r = Some t \<Longrightarrow> stop_frame (nl_srv l) t"
    and "\<And>t. r = Some t \<Longrightarrow> s_sess_mgr (nl_srv l) \<Longrightarrow> ns_inv (t, nl_now l)" "s_sess_mgr (nl_srv l) \<Longrightarrow> r \<noteq> None"
  shows "life_inv (ns_run l r)"
proof (cases r)
  case None
  then show ?thesis using assms(1,4) stop_inv_crash by (auto simp: ns_run_def)
next
  case (Some t)
  then show ?thesis using stop_inv_step [OF assms(1) assms(2) assms(3)] by (simp add: ns_run_def)
qed

lemma GracefulStop_inv:
  assumes "stop_inv pc s now False" "GracefulStop_next pc s = (pc', t)"
  shows "stop_inv pc' t now False"
proof -
  have q: "ns_inv (s\<lparr>s_quit := True\<rparr>, now) = ns_inv (s, now)" "ns_inv (s\<lparr>s_sm := x\<rparr>, now) = ns_inv (s, now)" for x
    by (simp_all add: ns_inv_def dir_ok_def lru_ok_def lru_of_def)
  show ?thesis using assms by (cases pc) (auto simp: q ns_stopped_def)
qed

text \<open>What the receivers do when the session manager is there.\<close>

lemma recv_works:
  assumes inv: "ns_inv (s, now)" and c: "s_conns s c = Some lr" and r: "\<And>m. unm (snd (Unpack b)) = Some m \<Longrightarrow> readable m"
  shows "NsReceiver_OnMessage unm s c b \<noteq> None"
proof -
  have sm: "s_sess_mgr s" using inv by (simp add: ns_inv_def dir_ok_def)
  have "NsReceiver_dispatch s c m \<noteq> None" if "unm (snd (Unpack b)) = Some m" for m
    using ns_dispatch_panics_iff [OF c sm] r [OF that] by simp
  then show ?thesis
    by (auto simp: NsReceiver_OnMessage_def ex_bool_eq split: prod.split option.split)
qed

lemma ns_life_step_inv:
  assumes "ns_life_step mar unm l m" "life_inv l"
  shows "life_inv m"
  using assms(1)
proof cases
  case sv_turn
  have "s_sess_mgr (nl_srv l) \<Longrightarrow> \<exists>t. Server_Serve_step mar (nl_now l) (nl_srv l) = Some t \<and> ns_inv (t, nl_now l)"
    using Serve_step_inv stop_inv_dir [OF assms(2)] by blast
  then show ?thesis using sv_turn(1) by (auto intro!: stop_inv_run [OF assms(2) Serve_step_frame])
next
  case (sv_stop pc s)
  then show ?thesis using GracefulStop_inv [of "nl_stop l" "nl_srv l" "nl_now l"] assms(2) by simp
next
  case sv_tick
  let ?t = "(nl_srv l)\<lparr>s_msg_queue := s_msg_queue (nl_srv l) @ [TickMsg]\<rparr>"
  have "stop_inv (nl_stop l) ?t (nl_now l) (nl_crashed l)"
    using sv_tick stop_inv_dir [OF assms(2)] ns_step_inv [OF ns_step.tick [of "nl_srv l" mar unm "nl_now l"]]
    by (intro stop_inv_step [OF assms(2)]) (auto simp: stop_frame_def)
  then show ?thesis using sv_tick by simp
next
  case (sv_accept c)
  have "stop_inv (nl_stop l) (nl_srv m) (nl_now l) (nl_crashed l)"
    using sv_accept stop_inv_dir [OF assms(2)] ns_step_inv [OF ns_step.accept [of "nl_srv l" c mar unm "nl_now l"]]
    by (intro stop_inv_step [OF assms(2)]) (auto simp: stop_frame_def NsReceiver_OnConnected_def)
  then show ?thesis using sv_accept by simp
next
  case (sv_recv c lr b)
  have i: "ns_inv (t, nl_now l)" if "map_option fst (NsReceiver_OnMessage unm (nl_srv l) c b) = Some t" "s_sess_mgr (nl_srv l)" for t
  proof -
    note t = that
    obtain n e where "NsReceiver_OnMessage unm (nl_srv l) c b = Some (t, n, e)"
      using t(1) by (cases "NsReceiver_OnMessage unm (nl_srv l) c b") auto
    from ns_step_inv [OF ns_step.recv [OF this]] show ?thesis using stop_inv_dir [OF assms(2) that(2)] by blast
  qed
  have r: "map_option fst (NsReceiver_OnMessage unm (nl_srv l) c b) \<noteq> None" if "s_sess_mgr (nl_srv l)"
    using recv_works [of "nl_srv l" "nl_now l" c lr unm b] stop_inv_dir [OF assms(2) that] sv_recv by auto
  show ?thesis unfolding sv_recv(1)
    by (rule stop_inv_run [OF assms(2)]) (use i r OnMessage_frame recv_frame_stop in \<open>auto dest: OnMessage_frame recv_frame_stop\<close>)
next
  case (sv_close c lr)
  have "ns_inv (t, nl_now l)" if "NsReceiver_OnClosed (nl_srv l) c = Some t" "s_sess_mgr (nl_srv l)" for t
    using ns_step_inv [OF ns_step.close [OF that(1)]] stop_inv_dir [OF assms(2) that(2)] by blast
  then show ?thesis unfolding sv_close(1) using sv_close
    by (intro stop_inv_run [OF assms(2)]) (auto simp: NsReceiver_OnClosed_def stop_frame_def split: if_splits)
next
  case (sv_clock now)
  have "s_sess_mgr (nl_srv l) \<Longrightarrow> ns_inv (nl_srv l, now)"
    using stop_inv_dir [OF assms(2)] lru_ok_mono sv_clock by (fastforce simp: ns_inv_def)
  then show ?thesis using sv_clock stop_inv_step [OF assms(2), of "nl_srv l" now] by (simp add: stop_frame_def)
next
  case (sv_reorder apps)
  have "stop_inv (nl_stop l) (nl_srv m) (nl_now l) (nl_crashed l)"
    using sv_reorder stop_inv_dir [OF assms(2)] ns_step_inv [OF ns_step.reorder [of apps "nl_srv l" mar unm "nl_now l"]]
    by (intro stop_inv_step [OF assms(2)]) (auto simp: stop_frame_def)
  then show ?thesis using sv_reorder by simp
qed (use assms(2) in simp_all)

lemma ns_life_reach_inv: "ns_life_reach mar unm l m \<Longrightarrow> life_inv l \<Longrightarrow> life_inv m"
  by (induction rule: ns_life_reach.induct) (auto intro: ns_life_step_inv)

section \<open>The stop can be completed\<close>

lemma ns_life_inv_start: "life_inv (ns_life_start (Server_Init cfg si0) t0)"
  by (simp add: ns_life_start_def ns_inv_init)

lemma sess_mgr_inv:
  assumes "life_inv l" "s_sess_mgr (nl_srv l)"
  shows "\<not> nl_crashed l" "ns_inv (nl_srv l, nl_now l)"
  using stop_inv_dir [OF assms] by simp_all

text \<open>While the session manager is there, the serving goroutine can handle all of the queue.\<close>

lemma queue_handled:
  assumes "life_inv l" "s_sess_mgr (nl_srv l)" "nl_serve l = SvLoop \<or> nl_serve l = SvDrain"
  shows "\<exists>m. ns_life_reach mar unm l m \<and> life_inv m \<and> s_sess_mgr (nl_srv m) \<and> s_msg_queue (nl_srv m) = [] \<and>
    nl_serve m = nl_serve l \<and> nl_stop m = nl_stop l"
  using assms
proof (induction "length (s_msg_queue (nl_srv l))" arbitrary: l)
  case 0
  then show ?case using ns_life_reach.sv_refl by auto
next
  case (Suc n)
  obtain t where t: "Server_Serve_step mar (nl_now l) (nl_srv l) = Some t"
    using Serve_step_inv [OF sess_mgr_inv(2)] Suc.prems by blast
  let ?m = "l\<lparr>nl_srv := t\<rparr>"
  obtain x rest where q: "s_msg_queue (nl_srv l) = x # rest" using Suc.hyps(2) by (cases "s_msg_queue (nl_srv l)") auto
  then obtain e where e: "Server_onMessage mar (nl_now l) ((nl_srv l)\<lparr>s_msg_queue := rest\<rparr>) x = Some (t, e)"
    using t by (auto simp: Server_Serve_step_def)
  from onMessage_frame [OF e] q Suc have f: "s_sess_mgr t" "n = length (s_msg_queue t)"
    by (simp_all add: serve_frame_def)
  have st: "ns_life_step mar unm l ?m"
    using ns_life_step.sv_turn [OF sess_mgr_inv(1), of l mar unm] Suc.prems q t by (simp add: ns_run_def)
  from Suc.hyps(1) [of ?m] f Suc.prems ns_life_step_inv [OF st]
  obtain m where "ns_life_reach mar unm ?m m" "life_inv m" "s_sess_mgr (nl_srv m)" "s_msg_queue (nl_srv m) = []"
    "nl_serve m = nl_serve l" "nl_stop m = nl_stop l" by auto
  then show ?case using ns_life_first [OF st] by blast
qed

fun stop_left :: "NsStopPc \<Rightarrow> nat" where
  "stop_left StNone = 5" | "stop_left StQuit = 4" | "stop_left StReleased = 3"
| "stop_left StNil = 2" | "stop_left StApps = 1" | "stop_left StDone = 0"

text \<open>The goroutine of the stop waits for nobody.\<close>

lemma stop_completes:
  assumes "life_inv l" "\<not> nl_crashed l"
  shows "\<exists>m. ns_life_reach mar unm l m \<and> life_inv m \<and> nl_stop m = StDone \<and> \<not> nl_crashed m \<and> nl_serve m = nl_serve l \<and>
    s_msg_queue (nl_srv m) = s_msg_queue (nl_srv l)"
  using assms
proof (induction "stop_left (nl_stop l)" arbitrary: l rule: less_induct)
  case less
  show ?case
  proof (cases "nl_stop l = StDone")
    case True
    then show ?thesis using less.prems ns_life_reach.sv_refl by blast
  next
    case False
    obtain pc s where n: "GracefulStop_next (nl_stop l) (nl_srv l) = (pc, s)" by fastforce
    let ?m = "l\<lparr>nl_stop := pc, nl_srv := s\<rparr>"
    have st: "ns_life_step mar unm l ?m" using ns_life_step.sv_stop [OF less.prems(2) n] .
    have "stop_left pc < stop_left (nl_stop l)" "s_msg_queue s = s_msg_queue (nl_srv l)"
      using n False by (cases "nl_stop l"; auto)+
    from less.hyps [of ?m] this less.prems ns_life_step_inv [OF st]
    obtain m where "ns_life_reach mar unm ?m m" "life_inv m" "nl_stop m = StDone" "\<not> nl_crashed m" "nl_serve m = nl_serve l"
      "s_msg_queue (nl_srv m) = s_msg_queue (nl_srv l)" by auto
    then show ?thesis using ns_life_first [OF st] by blast
  qed
qed

lemma drain_ends:
  assumes "life_inv l" "\<not> nl_crashed l" "nl_stop l = StDone" "nl_serve l = SvDrain"
    and "\<not> (\<exists>m \<in> set (s_msg_queue (nl_srv l)). registers m)"
  shows "\<exists>m. ns_life_reach mar unm l m \<and> life_inv m \<and> nl_stop m = StDone \<and> \<not> nl_crashed m \<and> nl_serve m = SvRet None"
  using assms
proof (induction "length (s_msg_queue (nl_srv l))" arbitrary: l)
  case 0
  then have st: "ns_life_step mar unm l (l\<lparr>nl_serve := SvRet None\<rparr>)" by (intro ns_life_step.sv_end) auto
  show ?case using ns_life_first [OF st ns_life_reach.sv_refl] 0 by auto
next
  case (Suc n)
  obtain x rest where q: "s_msg_queue (nl_srv l) = x # rest" using Suc.hyps(2) by (cases "s_msg_queue (nl_srv l)") auto
  let ?s = "(nl_srv l)\<lparr>s_msg_queue := rest\<rparr>"
  have "ns_stopped ?s" using Suc.prems(1,3) by (simp add: ns_stopped_def)
  then have "Server_Serve_step mar (nl_now l) (nl_srv l) = Some ?s"
    using stopped_onMessage [of ?s mar "nl_now l" x] q Suc.prems(5) by (simp add: Server_Serve_step_def)
  then have st: "ns_life_step mar unm l (l\<lparr>nl_srv := ?s\<rparr>)"
    using ns_life_step.sv_turn [OF Suc.prems(2), of mar unm] Suc.prems(4) q by (simp add: ns_run_def)
  from Suc.hyps(1) [of "l\<lparr>nl_srv := ?s\<rparr>"] Suc.hyps(2) q Suc.prems(2-) ns_life_step_inv [OF st Suc.prems(1)]
  obtain m where "ns_life_reach mar unm (l\<lparr>nl_srv := ?s\<rparr>) m" "life_inv m" "nl_stop m = StDone" "\<not> nl_crashed m" "nl_serve m = SvRet None"
    by auto
  then show ?case using ns_life_first [OF st] by blast
qed

lemma stop_returns:
  assumes "life_inv l" "\<not> nl_crashed l" "\<not> (\<exists>m \<in> set (s_msg_queue (nl_srv l)). registers m)"
  shows "\<exists>m e. ns_life_reach mar unm l m \<and> life_inv m \<and> nl_stop m = StDone \<and> \<not> nl_crashed m \<and> nl_serve m = SvRet e"
proof -
  obtain m where m: "ns_life_reach mar unm l m" "life_inv m" "nl_stop m = StDone" "\<not> nl_crashed m" "nl_serve m = nl_serve l"
    "s_msg_queue (nl_srv m) = s_msg_queue (nl_srv l)" using stop_completes [OF assms(1,2)] by blast
  have drain: "\<exists>n. ns_life_reach mar unm k n \<and> life_inv n \<and> nl_stop n = StDone \<and> \<not> nl_crashed n \<and> nl_serve n = SvRet None"
    if "nl_serve k = SvDrain" "life_inv k" "nl_stop k = StDone" "\<not> nl_crashed k" "s_msg_queue (nl_srv k) = s_msg_queue (nl_srv l)" for k
    using drain_ends [OF that(2,4,3,1)] that(5) assms(3) by simp
  show ?thesis
  proof (cases "nl_serve m")
    case SvLoop
    have "s_quit (nl_srv m)" using m(2,3) by simp
    then have st: "ns_life_step mar unm m (m\<lparr>nl_serve := SvDrain\<rparr>)" using m(4) SvLoop by (intro ns_life_step.sv_quit)
    obtain n where "ns_life_reach mar unm (m\<lparr>nl_serve := SvDrain\<rparr>) n" "life_inv n" "nl_stop n = StDone" "\<not> nl_crashed n"
      "nl_serve n = SvRet None" using drain [of "m\<lparr>nl_serve := SvDrain\<rparr>"] m by auto
    then show ?thesis using ns_life_trans [OF ns_life_first [OF st] m(1)] by blast
  next
    case SvDrain
    then show ?thesis using drain [of m] m ns_life_trans [OF _ m(1)] by blast
  next
    case (SvRet e)
    then show ?thesis using m by blast
  qed
qed

section \<open>Properties\<close>



text \<open>
  The stop does not close the connections: once the session manager is gone, the end of any connection
  before the process exits is a panic.
\<close>

theorem ns_close_while_stopping:
  assumes "ns_life_reach mar unm (ns_life_start (Server_Init cfg si0) t0) l" "\<not> nl_crashed l"
    and "nl_stop l \<in> {StNil, StApps, StDone}" "s_conns (nl_srv l) c = Some lr"
  shows "\<exists>m. ns_life_step mar unm l m \<and> nl_crashed m"
proof -
  have "life_inv l" by (rule ns_life_reach_inv [OF assms(1) ns_life_inv_start])
  then have "\<not> s_sess_mgr (nl_srv l)" using assms(3) by (auto simp: ns_stopped_def)
  then have "NsReceiver_OnClosed (nl_srv l) c = None" using assms(4) by (simp add: NsReceiver_OnClosed_def)
  then have "ns_life_step mar unm l (l\<lparr>nl_crashed := True\<rparr>)"
    using ns_life_step.sv_close [OF assms(2,4), of mar unm] by (simp add: ns_run_def)
  then show ?thesis by fastforce
qed

section \<open>At concrete inputs\<close>

text \<open>An accepted connection, and the stop up to the loss of the session manager.\<close>

definition ex_serving :: ns_life where
  "ex_serving = ns_life_start ex_accepted 0"

definition ex_stopping :: ns_life where
  "ex_stopping = ex_serving\<lparr>nl_stop := StNil, nl_srv := ex_accepted\<lparr>s_quit := True, s_sm := SessionMgr_Release (s_sm ex_accepted),
     s_sess_mgr := False\<rparr>\<rparr>"

lemma ex_serving_reach: "ns_life_reach mar unm (ns_life_start (Server_Init (s_cfg ex_cast) (s_mem ex_cast 0)) 0) ex_serving"
proof -
  let ?l = "ns_life_start (Server_Init (s_cfg ex_cast) (s_mem ex_cast 0)) 0"
  have "ns_life_step mar unm ?l (?l\<lparr>nl_srv := NsReceiver_OnConnected ((nl_srv ?l)\<lparr>s_conns := (s_conns (nl_srv ?l))(3 \<mapsto> newReceiver)\<rparr>) 3\<rparr>)"
    by (rule ns_life_step.sv_accept) (simp_all add: ns_life_start_def Server_Init_def)
  then have "ns_life_step mar unm ?l ex_serving" by (simp add: ex_serving_def ex_accepted_def ns_life_start_def Let_def)
  then show ?thesis using ns_life_reach.sv_more [OF ns_life_reach.sv_refl] by blast
qed

lemma ex_stopping_reach: "ns_life_reach mar unm (ns_life_start (Server_Init (s_cfg ex_cast) (s_mem ex_cast 0)) 0) ex_stopping"
proof -
  let ?q = "ex_accepted\<lparr>s_quit := True\<rparr>"
  let ?r = "?q\<lparr>s_sm := SessionMgr_Release (s_sm ?q)\<rparr>"
  have "ns_life_step mar unm ex_serving (ex_serving\<lparr>nl_stop := StQuit, nl_srv := ?q\<rparr>)"
    by (rule ns_life_step.sv_stop) (simp_all add: ex_serving_def ns_life_start_def)
  note a = ns_life_reach.sv_more [OF ex_serving_reach this]
  have "ns_life_step mar unm (ex_serving\<lparr>nl_stop := StQuit, nl_srv := ?q\<rparr>) (ex_serving\<lparr>nl_stop := StReleased, nl_srv := ?r\<rparr>)"
    using ns_life_step.sv_stop [of "ex_serving\<lparr>nl_stop := StQuit, nl_srv := ?q\<rparr>" StReleased ?r mar unm]
    by (simp add: ex_serving_def ns_life_start_def)
  note b = ns_life_reach.sv_more [OF a this]
  have "ns_life_step mar unm (ex_serving\<lparr>nl_stop := StReleased, nl_srv := ?r\<rparr>) ex_stopping"
    using ns_life_step.sv_stop [of "ex_serving\<lparr>nl_stop := StReleased, nl_srv := ?r\<rparr>" StNil "?r\<lparr>s_sess_mgr := False\<rparr>" mar unm]
    by (simp add: ex_serving_def ex_stopping_def ns_life_start_def)
  then show ?thesis by (rule ns_life_reach.sv_more [OF b])
qed



theorem ns_close_while_stopping_witness:
  "\<exists>m. ns_life_step (\<lambda>_. None) (\<lambda>_. None) ex_stopping m \<and> nl_crashed m"
proof -
  have "\<not> nl_crashed ex_stopping" "nl_stop ex_stopping = StNil" "s_conns (nl_srv ex_stopping) 3 \<noteq> None"
    by (simp_all add: ex_stopping_def ex_serving_def ns_life_start_def ex_accepted_def NsReceiver_OnConnected_def Server_Init_def Let_def)
  then show ?thesis using ns_close_while_stopping [OF ex_stopping_reach] by blast
qed

end
