(* ===== verification/AgentService.thy ===== *)
theory AgentService
  imports AgentDefs Smsync
begin

text \<open>
  \<^verbatim>\<open>src/agent/service.go\<close>: what an agent knows of a remote service, with the round-trip
  times of its pings, and a local service with its message queue. Times are milliseconds;
  \<open>now\<close> is the clock the operation reads.
\<close>

section \<open>Remote services\<close>

record remoteService =
  rs_serverAddr :: string
  rs_serviceAddr :: Addr
  rs_lastPingSendMS :: int
  rs_rttMetrics :: "int list"
  rs_curPingSeq :: u64
  rs_lastAckPingSeq :: u64
  rs_Attributes :: ServiceAttr
  rs_opts :: ServiceOptions

definition newRemoteService :: "string \<Rightarrow> Addr \<Rightarrow> ServiceOptions \<Rightarrow> remoteService" where
  "newRemoteService serverAddr serviceAddr opts =
     \<lparr>rs_serverAddr = serverAddr, rs_serviceAddr = serviceAddr, rs_lastPingSendMS = 0, rs_rttMetrics = [],
      rs_curPingSeq = 0, rs_lastAckPingSeq = 0, rs_Attributes = [], rs_opts = opts\<rparr>"

definition push_rtt :: "int list \<Rightarrow> int \<Rightarrow> int list" where
  "push_rtt ms rtt =
     (let ms = ms @ [rtt] in if AVERAGE_RTT_SAMPLING_NUM < length ms then drop 1 ms else ms)"

definition rs_onSendPing :: "int \<Rightarrow> remoteService \<Rightarrow> remoteService" where
  "rs_onSendPing now rs =
     (if rs_lastAckPingSeq rs = rs_curPingSeq rs then
        rs\<lparr>rs_curPingSeq := rs_curPingSeq rs + 1, rs_lastPingSendMS := now\<rparr>
      else
        rs\<lparr>rs_rttMetrics := push_rtt (rs_rttMetrics rs) (now - rs_lastPingSendMS rs),
           rs_lastAckPingSeq := rs_curPingSeq rs, rs_curPingSeq := rs_curPingSeq rs + 1,
           rs_lastPingSendMS := now\<rparr>)"

definition rs_PingAck :: "int \<Rightarrow> remoteService \<Rightarrow> u64 \<Rightarrow> remoteService" where
  "rs_PingAck now rs ackSeq =
     (if ackSeq \<noteq> rs_curPingSeq rs then rs
      else if rs_lastAckPingSeq rs = ackSeq then rs
      else rs\<lparr>rs_rttMetrics := push_rtt (rs_rttMetrics rs) (now - rs_lastPingSendMS rs),
              rs_lastAckPingSeq := ackSeq\<rparr>)"

text \<open>Integer division of Go truncates toward zero.\<close>

definition go_div :: "int \<Rightarrow> int \<Rightarrow> int" where
  "go_div a b = sgn a * sgn b * (\<bar>a\<bar> div \<bar>b\<bar>)"

definition rs_CalAverageRTT :: "remoteService \<Rightarrow> int" where
  "rs_CalAverageRTT rs =
     (if rs_rttMetrics rs = [] then 0
      else go_div (fold (\<lambda>rtt sum. sum + rtt) (rs_rttMetrics rs) 0) (int (length (rs_rttMetrics rs))))"

definition copyAttrs :: "ServiceAttr \<Rightarrow> ServiceAttr" where
  "copyAttrs attrs = fold (\<lambda>(k, v) copy. mput k v copy) attrs []"

definition rs_SetAttribute :: "remoteService \<Rightarrow> ServiceAttr \<Rightarrow> remoteService" where
  "rs_SetAttribute rs attrs = rs\<lparr>rs_Attributes := copyAttrs attrs\<rparr>"

definition rs_GetAttribute :: "remoteService \<Rightarrow> ServiceAttr" where
  "rs_GetAttribute rs = copyAttrs (rs_Attributes rs)"

section \<open>Local services\<close>

text \<open>
  \<open>ss_regNotify\<close> is the channel of capacity one on which \<open>Register\<close> waits; an element is
  the result code it carries, 0 for nil.
\<close>

record skymeshService =
  ss_addr :: Addr
  ss_msgQueue :: "Message list"
  ss_attrs :: ServiceAttr
  ss_regNotify :: "int list"
  ss_opts :: ServiceOptions
  ss_quit :: Event
  ss_done :: Event

datatype AppCall =
    AppOnMessage u64 Addr bytes
  | AppOnRegister u64 int
  | AppOnUnRegister u64

definition newService :: "Addr \<Rightarrow> ServiceOptions \<Rightarrow> skymeshService" where
  "newService addr opts =
     \<lparr>ss_addr = addr, ss_msgQueue = [], ss_attrs = [], ss_regNotify = [], ss_opts = opts,
      ss_quit = NewEvent ''skymesh.skymeshService.quit'', ss_done = NewEvent ''skymesh.skymeshService.done''\<rparr>"

definition ss_PushMessage :: "nat \<Rightarrow> skymeshService \<Rightarrow> Message \<Rightarrow> skymeshService \<times> bool" where
  "ss_PushMessage cap s msg =
     (let (q, ok) = chan_offer cap (ss_msgQueue s) msg in (s\<lparr>ss_msgQueue := q\<rparr>, ok))"

definition ss_OnRegister :: "nat \<Rightarrow> skymeshService \<Rightarrow> int \<Rightarrow> skymeshService" where
  "ss_OnRegister cap s result = fst (ss_PushMessage cap s (RegisterMessage result (AddrHandle (ss_addr s))))"

definition ss_GetMessageSize :: "skymeshService \<Rightarrow> nat" where
  "ss_GetMessageSize s = length (ss_msgQueue s)"

definition ss_GetAttribute :: "skymeshService \<Rightarrow> ServiceAttr" where
  "ss_GetAttribute s = copyAttrs (ss_attrs s)"

text \<open>What a turn of the service goroutine asks of the sidecar: the acknowledgement of a ping.\<close>

datatype PingAckReq = PingAckReq u64 u64 string

datatype TurnResult = Handled "AppCall list" "PingAckReq list" | BlockedNotify "AppCall list"

text \<open>One message taken from the queue while serving; a full \<open>regNotify\<close> blocks the goroutine.\<close>

definition ss_Serve_message :: "skymeshService \<Rightarrow> Message \<Rightarrow> skymeshService \<times> TurnResult" where
  "ss_Serve_message s msg =
     (case msg of
        DataMessage srcAddr dstHandle data \<Rightarrow>
          (s, Handled [AppOnMessage (AddrHandle (ss_addr s)) srcAddr data] [])
      | PingMessage srcServerAddr seq dstHandle \<Rightarrow>
          (s, Handled [] [PingAckReq dstHandle seq srcServerAddr])
      | RegisterMessage result svcHandle \<Rightarrow>
          if length (ss_regNotify s) < 1
          then (s\<lparr>ss_regNotify := ss_regNotify s @ [result]\<rparr>, Handled [AppOnRegister (AddrHandle (ss_addr s)) result] [])
          else (s, BlockedNotify [AppOnRegister (AddrHandle (ss_addr s)) result]))"

definition ss_Serve_step :: "skymeshService \<Rightarrow> skymeshService \<times> TurnResult" where
  "ss_Serve_step s =
     (case ss_msgQueue s of
        [] \<Rightarrow> (s, Handled [] [])
      | msg # rest \<Rightarrow> ss_Serve_message (s\<lparr>ss_msgQueue := rest\<rparr>) msg)"

text \<open>After \<open>quit\<close> the goroutine drains the queue; registration results are dropped.\<close>

fun ss_drain :: "u64 \<Rightarrow> Message list \<Rightarrow> AppCall list \<times> PingAckReq list" where
  "ss_drain h [] = ([], [])"
| "ss_drain h (msg # msgs) =
     (let (cs, ps) = ss_drain h msgs in
      case msg of
        DataMessage srcAddr dstHandle data \<Rightarrow> (AppOnMessage h srcAddr data # cs, ps)
      | PingMessage srcServerAddr seq dstHandle \<Rightarrow> (cs, PingAckReq dstHandle seq srcServerAddr # ps)
      | RegisterMessage result svcHandle \<Rightarrow> (cs, ps))"

text \<open>\<open>Stop\<close>: the first call fires \<open>quit\<close>, waits for the drained goroutine and tells the application.\<close>

definition ss_Stop :: "skymeshService \<Rightarrow> (skymeshService \<times> AppCall list \<times> PingAckReq list) option" where
  "ss_Stop s = do {
     (q, first) \<leftarrow> Event_Fire (ss_quit s);
     if first then do {
       (d, _) \<leftarrow> Event_Fire (ss_done s);
       let h = AddrHandle (ss_addr s);
       let (cs, ps) = ss_drain h (ss_msgQueue s);
       Some (s\<lparr>ss_quit := q, ss_done := d, ss_msgQueue := []\<rparr>, cs @ [AppOnUnRegister h], ps) }
     else Some (s\<lparr>ss_quit := q\<rparr>, [], []) }"

section \<open>Round-trip times\<close>

text \<open>
  At most five samples are kept and none is negative while the clock does not run backwards;
  the acknowledged number is the current one or the one before it.
\<close>

definition rtt_ok :: "int \<Rightarrow> remoteService \<Rightarrow> bool" where
  "rtt_ok now rs \<longleftrightarrow> length (rs_rttMetrics rs) \<le> AVERAGE_RTT_SAMPLING_NUM \<and>
     (\<forall>x \<in> set (rs_rttMetrics rs). 0 \<le> x) \<and> rs_lastPingSendMS rs \<le> now \<and>
     (rs_lastAckPingSeq rs = rs_curPingSeq rs \<or> rs_lastAckPingSeq rs + 1 = rs_curPingSeq rs)"

lemma push_rtt_ok:
  "length ms \<le> AVERAGE_RTT_SAMPLING_NUM \<Longrightarrow> length (push_rtt ms x) \<le> AVERAGE_RTT_SAMPLING_NUM"
  "set (push_rtt ms x) \<subseteq> insert x (set ms)"
  by (auto simp: push_rtt_def Let_def dest: in_set_dropD)

lemma rtt_ok_new: "0 \<le> now \<Longrightarrow> rtt_ok now (newRemoteService sa addr opts)"
  by (simp add: rtt_ok_def newRemoteService_def)

lemma rtt_ok_onSendPing:
  assumes "rtt_ok t rs" "t \<le> now"
  shows "rtt_ok now (rs_onSendPing now rs)"
  using assms push_rtt_ok(1) [of "rs_rttMetrics rs" "now - rs_lastPingSendMS rs"]
    push_rtt_ok(2) [of "rs_rttMetrics rs" "now - rs_lastPingSendMS rs"]
  by (auto simp: rtt_ok_def rs_onSendPing_def)

lemma rtt_ok_PingAck:
  assumes "rtt_ok t rs" "t \<le> now"
  shows "rtt_ok now (rs_PingAck now rs ack)"
  using assms push_rtt_ok(1) [of "rs_rttMetrics rs" "now - rs_lastPingSendMS rs"]
    push_rtt_ok(2) [of "rs_rttMetrics rs" "now - rs_lastPingSendMS rs"]
  by (auto simp: rtt_ok_def rs_PingAck_def)

lemma fold_plus_sum: "fold (\<lambda>x s. s + x) xs (a::int) = a + sum_list xs"
  by (induction xs arbitrary: a) auto

lemma sum_list_bounds:
  fixes xs :: "int list"
  assumes "\<forall>x \<in> set xs. lo \<le> x \<and> x \<le> hi"
  shows "lo * int (length xs) \<le> sum_list xs" "sum_list xs \<le> hi * int (length xs)"
  using assms by (induction xs) (auto simp: algebra_simps)

lemma CalAverageRTT_bounds:
  assumes "rs_rttMetrics rs \<noteq> []" "\<forall>x \<in> set (rs_rttMetrics rs). lo \<le> x \<and> x \<le> hi" "0 \<le> lo"
  shows "lo \<le> rs_CalAverageRTT rs" "rs_CalAverageRTT rs \<le> hi"
proof -
  let ?n = "int (length (rs_rttMetrics rs))" and ?s = "sum_list (rs_rttMetrics rs)"
  have n: "0 < ?n" using assms(1) by simp
  have b: "lo * ?n \<le> ?s" "?s \<le> hi * ?n" using sum_list_bounds [OF assms(2)] by auto
  have "0 \<le> ?s" using b(1) assms(3) n by (meson mult_nonneg_nonneg order.trans order_less_imp_le)
  then have "rs_CalAverageRTT rs = ?s div ?n"
    using assms(1) n by (cases "?s = 0") (simp_all add: rs_CalAverageRTT_def fold_plus_sum go_div_def)
  moreover have "lo \<le> ?s div ?n" using zdiv_mono1 [OF b(1) n] n by simp
  moreover have "?s div ?n \<le> hi" using zdiv_mono1 [OF b(2) n] n by simp
  ultimately show "lo \<le> rs_CalAverageRTT rs" "rs_CalAverageRTT rs \<le> hi" by auto
qed

section \<open>Attributes\<close>

lemma fold_mput_get:
  "mget (fold (\<lambda>(k, v) copy. mput k v copy) xs acc) k =
     (case mget (rev xs) k of Some v \<Rightarrow> Some v | None \<Rightarrow> mget acc k)"
  by (induction xs arbitrary: acc) (auto simp: map_add_def split: option.split)

lemma fold_mput_wf: "mwf acc \<Longrightarrow> mwf (fold (\<lambda>(k, v) copy. mput k v copy) xs acc)"
  by (induction xs arbitrary: acc) (auto split: prod.splits)

lemma copyAttrs_get:
  assumes "mwf attrs"
  shows "mget (copyAttrs attrs) k = mget attrs k"
proof -
  have "mget (rev attrs) k = mget attrs k" using mget_perm [of attrs "rev attrs" k] assms by simp
  then show ?thesis by (simp add: copyAttrs_def fold_mput_get split: option.split)
qed

lemma copyAttrs_wf: "mwf (copyAttrs attrs)"
  by (simp add: copyAttrs_def fold_mput_wf)

section \<open>Queues\<close>

definition service_ok :: "nat \<Rightarrow> skymeshService \<Rightarrow> bool" where
  "service_ok cap s \<longleftrightarrow> length (ss_msgQueue s) \<le> cap \<and> length (ss_regNotify s) \<le> 1 \<and>
     event_ok (ss_quit s) \<and> event_ok (ss_done s) \<and> Event_HasFired (ss_done s) = Event_HasFired (ss_quit s)"

lemma service_ok_new: "service_ok cap (newService addr opts)"
  by (simp add: service_ok_def newService_def)

lemma service_ok_Push: "service_ok cap s \<Longrightarrow> service_ok cap (fst (ss_PushMessage cap s m))"
  using chan_offer_bound [of "ss_msgQueue s" cap m]
  by (auto simp: service_ok_def ss_PushMessage_def Let_def split: prod.splits)

lemma service_ok_Serve: "service_ok cap s \<Longrightarrow> service_ok cap (fst (ss_Serve_step s))"
  by (auto simp: service_ok_def ss_Serve_step_def ss_Serve_message_def split: list.splits Message.splits)

lemma ss_Stop_ok:
  assumes "service_ok cap s"
  shows "\<exists>t cs ps. ss_Stop s = Some (t, cs, ps) \<and> service_ok cap t \<and> Event_HasFired (ss_quit t)"
proof -
  have ok: "event_ok (ss_quit s)" "event_ok (ss_done s)" using assms by (auto simp: service_ok_def)
  obtain q where q: "Event_Fire (ss_quit s) = Some (q, \<not> Event_HasFired (ss_quit s))" "event_ok q" "Event_HasFired q"
    using Event_Fire_ok [OF ok(1)] by blast
  obtain d where d: "Event_Fire (ss_done s) = Some (d, \<not> Event_HasFired (ss_done s))" "event_ok d" "Event_HasFired d"
    using Event_Fire_ok [OF ok(2)] by blast
  show ?thesis using q d assms
    by (cases "Event_HasFired (ss_quit s)") (auto simp: ss_Stop_def service_ok_def Let_def split: prod.split)
qed

section \<open>Properties\<close>

text \<open>The pings of a remote service: at each time a ping is sent or an acknowledgement arrives.\<close>

datatype RttOp = SendPing | Ack u64

fun rtt_run :: "(int \<times> RttOp) list \<Rightarrow> remoteService \<Rightarrow> remoteService" where
  "rtt_run [] rs = rs"
| "rtt_run ((now, SendPing) # ops) rs = rtt_run ops (rs_onSendPing now rs)"
| "rtt_run ((now, Ack seq) # ops) rs = rtt_run ops (rs_PingAck now rs seq)"

lemma rtt_run_ok:
  "rtt_ok t rs \<Longrightarrow> sorted (t # map fst ops) \<Longrightarrow> rtt_ok (last (t # map fst ops)) (rtt_run ops rs)"
proof (induction ops rs arbitrary: t rule: rtt_run.induct)
  case (2 now ops rs)
  have "sorted (now # map fst ops)" using "2.prems"(2) by simp
  from "2.IH" [OF rtt_ok_onSendPing [OF "2.prems"(1)] this] "2.prems"(2) show ?case by simp
next
  case (3 now seq ops rs)
  have "sorted (now # map fst ops)" using "3.prems"(2) by simp
  from "3.IH" [OF rtt_ok_PingAck [OF "3.prems"(1)] this] "3.prems"(2) show ?case by simp
qed simp

text \<open>
  C30: The quality measure is sound: however pings and acknowledgements interleave, and whatever
  sequence numbers the acknowledgements carry, at most five samples are kept, none of them negative,
  and the average lies between the smallest and the largest sample.
\<close>

theorem rtt_average_sound:
  assumes "sorted (map fst ops)" "\<forall>t \<in> set (map fst ops). 0 \<le> t"
  shows "let rs = rtt_run ops (newRemoteService serverAddr addr opts) in
    length (rs_rttMetrics rs) \<le> AVERAGE_RTT_SAMPLING_NUM \<and> (\<forall>x \<in> set (rs_rttMetrics rs). 0 \<le> x) \<and>
    (rs_rttMetrics rs \<noteq> [] \<longrightarrow> Min (set (rs_rttMetrics rs)) \<le> rs_CalAverageRTT rs \<and> rs_CalAverageRTT rs \<le> Max (set (rs_rttMetrics rs)))"
proof -
  let ?rs = "rtt_run ops (newRemoteService serverAddr addr opts)"
  have "sorted (0 # map fst ops)" using assms by auto
  from rtt_run_ok [OF rtt_ok_new this] have ok: "rtt_ok (last (0 # map fst ops)) ?rs" by simp
  have "Min (set (rs_rttMetrics ?rs)) \<le> rs_CalAverageRTT ?rs \<and> rs_CalAverageRTT ?rs \<le> Max (set (rs_rttMetrics ?rs))"
    if ne: "rs_rttMetrics ?rs \<noteq> []"
  proof -
    have "0 \<le> Min (set (rs_rttMetrics ?rs))" using ok ne by (auto simp: rtt_ok_def)
    with CalAverageRTT_bounds [OF ne, of "Min (set (rs_rttMetrics ?rs))" "Max (set (rs_rttMetrics ?rs))"] show ?thesis by auto
  qed
  then show ?thesis using ok by (simp add: rtt_ok_def Let_def)
qed

theorem rtt_average_sound_witness:
  "rs_CalAverageRTT (rtt_run [(10, SendPing), (14, Ack 1), (20, SendPing), (21, Ack 7), (30, SendPing)]
      (newRemoteService ''h1'' \<lparr>ServiceName = ''svc'', ServiceId = 1, AddrHandle = 5\<rparr> defaultRegisterOptions)) \<le> 10"
  using rtt_average_sound [of "[(10, SendPing), (14, Ack 1), (20, SendPing), (21, Ack 7), (30, SendPing)]" "''h1''"
      "\<lparr>ServiceName = ''svc'', ServiceId = 1, AddrHandle = 5\<rparr>" defaultRegisterOptions]
  by (simp add: newRemoteService_def rs_onSendPing_def rs_PingAck_def push_rtt_def Let_def AVERAGE_RTT_SAMPLING_NUM_def)

end
