(* ===== verification/AgentUtils.thy ===== *)
theory AgentUtils
  imports AgentDefs
begin

text \<open>
  \<^verbatim>\<open>src/agent/utils.go\<close>: service URLs and service handles. The functions of \<open>strings\<close>
  and \<open>strconv\<close> the file uses are written out. What it asks of the operating system, the
  working directory, the address of the host and \<^verbatim>\<open>net.ParseIP\<close>, are parameters.
\<close>

section \<open>strings and strconv\<close>

fun split_at :: "char \<Rightarrow> string \<Rightarrow> string \<times> string option" where
  "split_at c [] = ([], None)"
| "split_at c (x # xs) =
     (if x = c then ([], Some xs) else (case split_at c xs of (a, r) \<Rightarrow> (x # a, r)))"

lemma split_at_size: "split_at c xs = (a, Some r) \<Longrightarrow> length r < length xs"
  by (induction xs arbitrary: a) (auto split: if_splits prod.splits simp: less_SucI)

function Split :: "char \<Rightarrow> string \<Rightarrow> string list" where
  "Split c s = (case split_at c s of (a, None) \<Rightarrow> [a] | (a, Some r) \<Rightarrow> a # Split c r)"
  by pat_completeness auto
termination
  by (relation "measure (\<lambda>(c, s). length s)") (auto dest: split_at_size [OF sym])

definition digit_val :: "char \<Rightarrow> nat option" where
  "digit_val ch = (if 48 \<le> (of_char ch :: nat) \<and> (of_char ch :: nat) \<le> 57 then Some (of_char ch - 48) else None)"

text \<open>
  The loop of \<^verbatim>\<open>strconv.ParseUint(s, 10, bits)\<close> with \<open>maxVal = 2 ^ bits - 1\<close>: a character
  that is no digit yields 0, a value out of range yields \<open>maxVal\<close>, whichever comes first.
\<close>

fun ParseUint_loop :: "nat \<Rightarrow> nat \<Rightarrow> string \<Rightarrow> nat \<times> bool" where
  "ParseUint_loop maxVal n [] = (n, True)"
| "ParseUint_loop maxVal n (ch # s) =
     (case digit_val ch of
        None \<Rightarrow> (0, False)
      | Some d \<Rightarrow>
          (let n1 = n * 10 + d in
           if maxVal < n1 then (maxVal, False) else ParseUint_loop maxVal n1 s))"

definition ParseUint :: "nat \<Rightarrow> string \<Rightarrow> nat \<times> bool" where
  "ParseUint bits s = (if s = [] then (0, False) else ParseUint_loop (2 ^ bits - 1) 0 s)"

text \<open>\<^verbatim>\<open>fmt.Sprintf("%v", n)\<close> and \<^verbatim>\<open>"%d"\<close> on an unsigned integer.\<close>

fun dec :: "nat \<Rightarrow> string" where
  "dec n = (if n < 10 then [char_of (48 + n)] else dec (n div 10) @ [char_of (48 + n mod 10)])"

declare dec.simps [simp del]

definition HasPrefix :: "string \<Rightarrow> string \<Rightarrow> bool" where
  "HasPrefix s p = (take (length p) s = p)"

section \<open>URLs\<close>

definition skymeshSchema :: string where
  "skymeshSchema = ''skymesh''"

definition urlPrefix :: string where
  "urlPrefix = skymeshSchema @ ''://''"

definition StripSkymeshUrlPrefix :: "string \<Rightarrow> string" where
  "StripSkymeshUrlPrefix url =
     (let prefix = urlPrefix in if \<not> HasPrefix url prefix then url else drop (length prefix) url)"

definition slash :: char where [simp]: "slash = CHR ''/''"
definition dot :: char where [simp]: "dot = CHR ''.''"
definition colon :: char where [simp]: "colon = CHR '':''"

datatype UrlError = SkymeshUrlFormat | ServiceNameFormat

definition SkymeshUrl2Addr :: "string \<Rightarrow> UrlError + Addr" where
  "SkymeshUrl2Addr url =
     (let urlItems = Split slash (StripSkymeshUrlPrefix url) in
      if length urlItems \<noteq> 2 then Inl SkymeshUrlFormat
      else Inr \<lparr>ServiceName = urlItems ! 0, ServiceId = word_of_nat (fst (ParseUint 64 (urlItems ! 1))), AddrHandle = 0\<rparr>)"

definition SkymeshAddr2Url :: "Addr \<Rightarrow> bool \<Rightarrow> string" where
  "SkymeshAddr2Url addr withPrefix =
     (if withPrefix then urlPrefix else []) @ ServiceName addr @ ''/'' @ dec (unat (ServiceId addr))"

definition MakeSkymeshUrl :: "string \<Rightarrow> u64 \<Rightarrow> string" where
  "MakeSkymeshUrl fullSvcName instID = fullSvcName @ ''/'' @ dec (unat instID)"

definition GetSkymeshSchema :: string where
  "GetSkymeshSchema = skymeshSchema"

text \<open>The printed forms of addresses and messages in \<^verbatim>\<open>define.go\<close>; \<open>decint\<close> is \<^verbatim>\<open>"%d"\<close> on a signed integer.\<close>

definition decint :: "int \<Rightarrow> string" where
  "decint n = (if n < 0 then ''-'' @ dec (nat (- n)) else dec (nat n))"

definition Addr_String :: "Addr \<Rightarrow> string" where
  "Addr_String addr =
     ''Addr - ServiceName['' @ ServiceName addr @ ''] ServiceId['' @ dec (unat (ServiceId addr)) @
     ''] Handle['' @ dec (unat (AddrHandle addr)) @ '']''"

definition Addr_Network :: "Addr \<Rightarrow> string" where
  "Addr_Network addr = skymeshSchema"

definition Addr_GetDetail :: "Addr \<Rightarrow> string \<times> u64 \<times> u64" where
  "Addr_GetDetail addr = (ServiceName addr, ServiceId addr, AddrHandle addr)"

fun Message_String :: "Message \<Rightarrow> string" where
  "Message_String (DataMessage srcAddr dstHandle data) =
     ''Data Message('' @ dec (length data) @ '') from '' @ Addr_String srcAddr @ '' to '' @ dec (unat dstHandle) @ '' ''"
| "Message_String (PingMessage srcServerAddr seq dstHandle) =
     ''Ping Message('' @ dec (unat seq) @ '') from '' @ srcServerAddr @ '' to '' @ dec (unat dstHandle) @ '' ''"
| "Message_String (RegisterMessage result svcHandle) =
     ''Register Message on '' @ dec (unat svcHandle) @ '' result: '' @ decint result"

definition ParseSkymeshUrl :: "string \<Rightarrow> UrlError + (string \<times> string \<times> string \<times> u64)" where
  "ParseSkymeshUrl url =
     (let rawUrl = StripSkymeshUrlPrefix url;
          urlItems = Split slash rawUrl;
          (fullSvcName, svcInstID) =
            (if length urlItems = 2 then (urlItems ! 0, word_of_nat (fst (ParseUint 64 (urlItems ! 1))))
             else (rawUrl, 0));
          s = Split dot fullSvcName
      in if length s \<noteq> 3 then Inl ServiceNameFormat else Inr (s ! 0, s ! 1, s ! 2, svcInstID))"

section \<open>The address of the host\<close>

text \<open>
  What \<^verbatim>\<open>net.InterfaceAddrs\<close> says of an address, and the answer of the service that is asked for the
  external one: an error of the request, an error of reading the body, or the body.
\<close>

record IfAddr =
  ia_isIPNet :: bool
  ia_loopback :: bool
  ia_linkLocalMulticast :: bool
  ia_linkLocalUnicast :: bool
  ia_to4 :: bool
  ia_string :: string

datatype HttpAnswer = HttpErr | HttpReadErr | HttpBody string

definition defaultIP :: string where "defaultIP = ''0.0.0.0''"

fun internalIP_loop :: "IfAddr list \<Rightarrow> string" where
  "internalIP_loop [] = defaultIP"
| "internalIP_loop (address # addrs) =
     (if \<not> ia_isIPNet address then internalIP_loop addrs
      else if ia_loopback address \<or> ia_linkLocalMulticast address \<or> ia_linkLocalUnicast address then internalIP_loop addrs
      else if ia_to4 address then ia_string address
      else internalIP_loop addrs)"

definition GetInternalIP :: "IfAddr list option \<Rightarrow> string" where
  "GetInternalIP addrs = (case addrs of None \<Rightarrow> defaultIP | Some as \<Rightarrow> internalIP_loop as)"

definition GetExternalIP :: "HttpAnswer \<Rightarrow> string" where
  "GetExternalIP resp = (case resp of HttpErr \<Rightarrow> defaultIP | HttpReadErr \<Rightarrow> defaultIP | HttpBody content \<Rightarrow> content)"

text \<open>The first argument and the first result are the cached address of the process.\<close>

definition GetSkymeshIP :: "string \<Rightarrow> HttpAnswer \<Rightarrow> IfAddr list option \<Rightarrow> string \<times> string" where
  "GetSkymeshIP skymeshIP resp addrs =
     (if skymeshIP \<noteq> [] then (skymeshIP, skymeshIP)
      else (let ip = GetExternalIP resp in
            if ip \<noteq> defaultIP then (ip, ip) else (skymeshIP, GetInternalIP addrs)))"

section \<open>Handles\<close>

unbundle bit_operations_syntax

definition inet_addr :: "string \<Rightarrow> u32 option" where
  "inet_addr ipaddr =
     (let ip = Split dot ipaddr in
      if length ip < 4 then None
      else
        let p = (\<lambda>i. word_of_nat (fst (ParseUint 8 (ip ! i))) :: u32)
        in Some (push_bit 24 (p 3) + push_bit 16 (p 2) + push_bit 8 (p 1) + p 0))"

definition fnv32a :: "bytes \<Rightarrow> u32" where
  "fnv32a bs = fold (\<lambda>b h. (h XOR ucast b) * 16777619) bs 2166136261"

definition bytes_of_string :: "string \<Rightarrow> bytes" where
  "bytes_of_string s = map (\<lambda>ch. word_of_nat (of_char ch)) s"

definition MakeServiceHandle ::
  "string \<Rightarrow> string \<Rightarrow> (string \<Rightarrow> bool) \<Rightarrow> string \<Rightarrow> string \<Rightarrow> u64 \<Rightarrow> u64 option" where
  "MakeServiceHandle pwd skymeshIP isIP serverAddr serviceName serviceID =
     (let s = Split colon serverAddr;
          (ip, port) = (if length s \<noteq> 2 then (skymeshIP, ''0'')
                        else (if isIP (s ! 0) then s ! 0 else skymeshIP, s ! 1));
          low32 = pwd @ ''|'' @ serviceName @ ''|'' @ dec (unat serviceID) @ ''|'' @ port;
          hashID = fnv32a (bytes_of_string low32)
      in do {
        instID \<leftarrow> inet_addr ip;
        Some (push_bit 32 (ucast instID) OR ucast hashID) })"

section \<open>Lemmas\<close>

declare Split.simps [simp del]

lemma split_at_none: "c \<notin> set a \<Longrightarrow> split_at c a = (a, None)"
  by (induction a) auto

lemma split_at_app: "c \<notin> set a \<Longrightarrow> split_at c (a @ c # r) = (a, Some r)"
  by (induction a) auto

lemma Split_single: "c \<notin> set a \<Longrightarrow> Split c a = [a]"
  by (subst Split.simps) (simp add: split_at_none)

lemma Split_cons: "c \<notin> set a \<Longrightarrow> Split c (a @ c # r) = a # Split c r"
  by (subst Split.simps) (simp add: split_at_app)

lemma digit_char: "d < 10 \<Longrightarrow> digit_val (char_of (48 + d)) = Some d"
  by (simp add: digit_val_def)

lemma dec_digits: "ch \<in> set (dec n) \<Longrightarrow> \<exists>d < (10::nat). ch = char_of (48 + d)"
proof (induction n rule: dec.induct)
  case (1 n)
  show ?case
  proof (cases "n < 10")
    case True
    then show ?thesis using 1(2) by (subst (asm) dec.simps) auto
  next
    case False
    then have "ch \<in> set (dec (n div 10)) \<or> ch = char_of (48 + n mod 10)"
      using 1(2) by (subst (asm) dec.simps) auto
    then show ?thesis using 1(1) False by (auto intro: exI [of _ "n mod 10"])
  qed
qed

lemma dec_nonempty [simp]: "dec n \<noteq> []"
  by (subst dec.simps) simp

lemma dec_no_slash: "CHR ''/'' \<notin> set (dec n)" "CHR ''.'' \<notin> set (dec n)"
proof -
  have "(of_char (CHR ''/'') :: nat) = 47" "(of_char (CHR ''.'') :: nat) = 46" by simp_all
  moreover have "48 \<le> (of_char ch :: nat)" if "ch \<in> set (dec n)" for ch using dec_digits [OF that] by auto
  ultimately show "CHR ''/'' \<notin> set (dec n)" "CHR ''.'' \<notin> set (dec n)" by fastforce+
qed

lemma ParseUint_loop_app:
  "ParseUint_loop m n (a @ b) =
     (case ParseUint_loop m n a of (k, True) \<Rightarrow> ParseUint_loop m k b | (k, False) \<Rightarrow> (k, False))"
  by (induction a arbitrary: n) (auto simp: Let_def split: option.split)

lemma ParseUint_loop_dec: "n \<le> m \<Longrightarrow> ParseUint_loop m 0 (dec n) = (n, True)"
proof (induction n rule: dec.induct)
  case (1 n)
  show ?case
  proof (cases "n < 10")
    case True
    then show ?thesis using 1(2) digit_char [OF True] by (subst dec.simps) simp
  next
    case False
    have "n div 10 \<le> m" using 1(2) by (meson div_le_dividend le_trans)
    with 1(1) False have "ParseUint_loop m 0 (dec (n div 10)) = (n div 10, True)" by simp
    then show ?thesis using False 1(2) digit_char [of "n mod 10"]
      by (subst dec.simps) (simp add: ParseUint_loop_app)
  qed
qed

lemma ParseUint_dec: "n < 2 ^ bits \<Longrightarrow> ParseUint bits (dec n) = (n, True)"
  by (simp add: ParseUint_def ParseUint_loop_dec)

lemma ParseUint_range: "fst (ParseUint bits s) < 2 ^ bits"
proof -
  have "fst (ParseUint_loop m n s) \<le> m" if "n \<le> m" for m n
    using that by (induction s arbitrary: n) (auto simp: Let_def split: option.split)
  then have "fst (ParseUint bits s) \<le> 2 ^ bits - 1" by (simp add: ParseUint_def)
  moreover have "(0::nat) < 2 ^ bits" by simp
  ultimately show ?thesis by linarith
qed

lemma urlPrefix_slash: "CHR ''/'' \<in> set urlPrefix"
  by (simp add: urlPrefix_def skymeshSchema_def)

lemma HasPrefix_app [simp]: "HasPrefix (p @ s) p"
  by (simp add: HasPrefix_def)

lemma Strip_prefixed [simp]: "StripSkymeshUrlPrefix (urlPrefix @ s) = s"
  by (simp add: StripSkymeshUrlPrefix_def Let_def)

lemma Strip_plain:
  assumes "CHR ''/'' \<notin> set n" "CHR ''/'' \<notin> set r"
  shows "StripSkymeshUrlPrefix (n @ CHR ''/'' # r) = n @ CHR ''/'' # r"
proof (cases "HasPrefix (n @ CHR ''/'' # r) urlPrefix")
  case True
  then obtain q where q: "n @ CHR ''/'' # r = urlPrefix @ q"
    unfolding HasPrefix_def by (metis append_take_drop_id)
  have p: "urlPrefix = ''skymesh:'' @ CHR ''/'' # ''/''" by (simp add: urlPrefix_def skymeshSchema_def)
  have "split_at (CHR ''/'') (n @ CHR ''/'' # r) = (n, Some r)" using split_at_app assms(1) by fast
  moreover have "split_at (CHR ''/'') (urlPrefix @ q) = (''skymesh:'', Some (CHR ''/'' # q))"
    using split_at_app [of "CHR ''/''" "''skymesh:''" "CHR ''/'' # q"] by (simp add: p)
  ultimately have "r = CHR ''/'' # q" using q by simp
  then show ?thesis using assms(2) by auto
qed (simp add: StripSkymeshUrlPrefix_def Let_def)

lemma Strip_Addr2Url:
  "CHR ''/'' \<notin> set (ServiceName a) \<Longrightarrow>
     StripSkymeshUrlPrefix (SkymeshAddr2Url a p) = ServiceName a @ CHR ''/'' # dec (unat (ServiceId a))"
  using Strip_plain [of "ServiceName a" "dec (unat (ServiceId a))"] dec_no_slash
  by (cases p) (simp_all add: SkymeshAddr2Url_def)

lemma Split_url:
  "CHR ''/'' \<notin> set n \<Longrightarrow> Split (CHR ''/'') (n @ CHR ''/'' # dec k) = [n, dec k]"
  by (simp add: Split_cons Split_single dec_no_slash)

lemma ParseUint_u64: "word_of_nat (fst (ParseUint 64 (dec (unat (i :: u64))))) = i"
proof -
  have "unat i < 2 ^ 64" using unsigned_less [of i] by simp
  then show ?thesis by (simp add: ParseUint_dec)
qed

lemma SkymeshUrl_roundtrip_lemma:
  assumes "CHR ''/'' \<notin> set (ServiceName a)"
  shows "SkymeshUrl2Addr (SkymeshAddr2Url a p) = Inr (a\<lparr>AddrHandle := 0\<rparr>)"
  by (simp add: SkymeshUrl2Addr_def Let_def Strip_Addr2Url [OF assms] Split_url [OF assms] ParseUint_u64)

lemma url_injective:
  assumes "CHR ''/'' \<notin> set (ServiceName a)" "CHR ''/'' \<notin> set (ServiceName b)"
    "SkymeshAddr2Url a False = SkymeshAddr2Url b False"
  shows "ServiceName a = ServiceName b \<and> ServiceId a = ServiceId b"
  using SkymeshUrl_roundtrip_lemma [OF assms(1), of False] SkymeshUrl_roundtrip_lemma [OF assms(2), of False] assms(3)
  by (auto dest: arg_cong [of _ _ ServiceName] arg_cong [of _ _ ServiceId])

lemma Split_name:
  assumes "CHR ''.'' \<notin> set a" "CHR ''.'' \<notin> set b" "CHR ''.'' \<notin> set c"
  shows "Split (CHR ''.'') (a @ CHR ''.'' # b @ CHR ''.'' # c) = [a, b, c]"
  using assms by (simp add: Split_cons Split_single)

section \<open>Handles split into address and hash\<close>

lemma handle_halves:
  fixes ip hash :: u32
  shows "ucast (drop_bit 32 (push_bit 32 (ucast ip) OR ucast hash :: u64)) = ip"
    and "ucast (push_bit 32 (ucast ip) OR ucast hash :: u64) = hash"
  by (rule bit_word_eqI, auto simp: bit_simps dest: bit_imp_le_length)+

section \<open>Properties\<close>

text \<open>The address of the host is asked for until an external one is known; from then on it does not change.\<close>

lemma skymesh_ip_kept:
  assumes "GetSkymeshIP c resp addrs = (c', ip)" "c' \<noteq> []"
  shows "ip = c'" "GetSkymeshIP c' resp' addrs' = (c', c')"
  using assms by (auto simp: GetSkymeshIP_def Let_def split: if_splits)

lemma internal_ip_usable:
  assumes "ip = internalIP_loop as" "ip \<noteq> defaultIP"
  shows "\<exists>a \<in> set as. ip = ia_string a \<and> ia_isIPNet a \<and> ia_to4 a \<and> \<not> ia_loopback a \<and> \<not> ia_linkLocalUnicast a"
  using assms by (induction as) (auto split: if_splits)

text \<open>
  A service URL determines the service: parsing the URL of an address, with or without the
  schema, gives back its name and its instance number, for every 64-bit number and every name
  without a slash.
\<close>

theorem url_roundtrip:
  assumes "CHR ''/'' \<notin> set (ServiceName a)"
  shows "SkymeshUrl2Addr (SkymeshAddr2Url a withPrefix) = Inr (a\<lparr>AddrHandle := 0\<rparr>) \<and>
    (\<forall>b. CHR ''/'' \<notin> set (ServiceName b) \<and> SkymeshAddr2Url a False = SkymeshAddr2Url b False \<longrightarrow>
       ServiceName a = ServiceName b \<and> ServiceId a = ServiceId b)"
  using SkymeshUrl_roundtrip_lemma [OF assms] url_injective [OF assms] by blast

theorem url_roundtrip_witness:
  "SkymeshUrl2Addr (SkymeshAddr2Url \<lparr>ServiceName = ''game.lobby'', ServiceId = 18446744073709551615, AddrHandle = 5\<rparr> True) =
     Inr \<lparr>ServiceName = ''game.lobby'', ServiceId = 18446744073709551615, AddrHandle = 0\<rparr>"
  using url_roundtrip [of "\<lparr>ServiceName = ''game.lobby'', ServiceId = 18446744073709551615, AddrHandle = 5\<rparr>" True] by simp

lemma no_colon: "CHR '':'' \<notin> set (dec n)"
proof -
  have "(of_char (CHR '':'') :: nat) = 58" by simp
  moreover have "(of_char ch :: nat) < 58" if "ch \<in> set (dec n)" for ch using dec_digits [OF that] by auto
  ultimately show ?thesis by fastforce
qed

text \<open>The dotted form of an IPv4 address.\<close>

definition dotted :: "nat \<Rightarrow> nat \<Rightarrow> nat \<Rightarrow> nat \<Rightarrow> string" where
  "dotted a b c d = dec a @ CHR ''.'' # dec b @ CHR ''.'' # dec c @ CHR ''.'' # dec d"

lemma Split_dotted: "Split (CHR ''.'') (dotted a b c d) = [dec a, dec b, dec c, dec d]"
  by (simp add: dotted_def Split_cons Split_single dec_no_slash)

lemma inet_addr_dotted:
  assumes "a < 256" "b < 256" "c < 256" "d < 256"
  shows "inet_addr (dotted a b c d) = Some (word_of_nat (d * 2 ^ 24 + c * 2 ^ 16 + b * 2 ^ 8 + a))"
proof -
  have p: "fst (ParseUint 8 (dec x)) = x" if "x < 256" for x using that ParseUint_dec [of x 8] by simp
  show ?thesis using assms
    by (simp add: inet_addr_def Split_dotted [simplified] p push_bit_eq_mult ac_simps)
qed

lemma inet_addr_inj:
  assumes "a < 256" "b < 256" "c < 256" "d < 256" "a' < 256" "b' < 256" "c' < 256" "d' < 256"
    and "inet_addr (dotted a b c d) = inet_addr (dotted a' b' c' d')"
  shows "a = a' \<and> b = b' \<and> c = c' \<and> d = d'"
proof -
  let ?n = "d * 2 ^ 24 + c * 2 ^ 16 + b * 2 ^ 8 + a" and ?m = "d' * 2 ^ 24 + c' * 2 ^ 16 + b' * 2 ^ 8 + a'"
  have eq: "(word_of_nat ?n :: u32) = word_of_nat ?m" using assms by (simp add: inet_addr_dotted)
  have lt: "?n < 2 ^ 32" "?m < 2 ^ 32" using assms by auto
  have "?n mod 2 ^ 32 = ?m mod 2 ^ 32" using eq by (simp only: word_of_nat_eq_iff take_bit_eq_mod) simp
  then have "?n = ?m" using lt by simp
  then have "((d * 256 + c) * 256 + b) * 256 + a = ((d' * 256 + c') * 256 + b') * 256 + a'" by simp
  note eq256 = this
  have step: "x = y \<and> u = v" if "x * 256 + u = y * 256 + v" "u < 256" "v < 256" for x y u v :: nat
  proof -
    have "(x * 256 + u) div 256 = x" "(y * 256 + v) div 256 = y" using that(2,3) by simp_all
    then show ?thesis using that(1) by simp
  qed
  note e1 = step [OF eq256 assms(1,5)]
  note e2 = step [OF conjunct1 [OF e1] assms(2,6)]
  show ?thesis using e1 e2 step [OF conjunct1 [OF e2] assms(3,7)] by blast
qed

lemma MakeServiceHandle_ip:
  assumes "isIP (dotted a b c d)" "CHR '':'' \<notin> set port" "a < 256" "b < 256" "c < 256" "d < 256"
  shows "\<exists>ip h hash. inet_addr (dotted a b c d) = Some ip \<and>
    MakeServiceHandle pwd sip isIP (dotted a b c d @ '':'' @ port) name i = Some h \<and> h = push_bit 32 (ucast ip) OR ucast (hash :: u32)"
proof -
  have "CHR '':'' \<notin> set (dotted a b c d)" by (simp add: dotted_def no_colon)
  then have "Split (CHR '':'') (dotted a b c d @ '':'' @ port) = [dotted a b c d, port]"
    using assms(2) by (simp add: Split_cons Split_single)
  then show ?thesis using assms(1) inet_addr_dotted [OF assms(3-6)]
    by (simp add: MakeServiceHandle_def Let_def) blast
qed

text \<open>
  Services on different hosts never share a handle: the upper half of the handle is the IPv4
  address of the process, so the handles of two services are different whenever their processes
  listen on different addresses, whatever the names, instances, ports and working directories.
\<close>

theorem handle_distinct_hosts:
  assumes "isIP (dotted a b c d)" "isIP (dotted a' b' c' d')" "CHR '':'' \<notin> set port" "CHR '':'' \<notin> set port'"
    and "a < 256" "b < 256" "c < 256" "d < 256" "a' < 256" "b' < 256" "c' < 256" "d' < 256" "(a, b, c, d) \<noteq> (a', b', c', d')"
  shows "\<exists>h h'. MakeServiceHandle pwd sip isIP (dotted a b c d @ '':'' @ port) name i = Some h \<and>
    MakeServiceHandle pwd' sip' isIP (dotted a' b' c' d' @ '':'' @ port') name' i' = Some h' \<and> h \<noteq> h'"
proof -
  obtain ip h x where h: "inet_addr (dotted a b c d) = Some ip" "h = push_bit 32 (ucast ip) OR ucast (x :: u32)"
    "MakeServiceHandle pwd sip isIP (dotted a b c d @ '':'' @ port) name i = Some h"
    using MakeServiceHandle_ip [of isIP, OF assms(1,3,5-8)] by blast
  obtain ip' h' x' where h': "inet_addr (dotted a' b' c' d') = Some ip'" "h' = push_bit 32 (ucast ip') OR ucast (x' :: u32)"
    "MakeServiceHandle pwd' sip' isIP (dotted a' b' c' d' @ '':'' @ port') name' i' = Some h'"
    using MakeServiceHandle_ip [of isIP, OF assms(2,4,9-12)] by blast
  have "ip \<noteq> ip'" using inet_addr_inj [OF assms(5-12)] h(1) h'(1) assms(13) by auto
  then have "h \<noteq> h'" using handle_halves(1) [of ip x] handle_halves(1) [of ip' x'] h(2) h'(2) by metis
  then show ?thesis using h(3) h'(3) by blast
qed

theorem handle_distinct_hosts_witness:
  "\<exists>h h'. MakeServiceHandle ''/srv'' ''127.0.0.1'' (\<lambda>_. True) (dotted 10 0 0 1 @ '':'' @ ''8000'') ''svc'' 1 = Some h \<and>
     MakeServiceHandle ''/srv'' ''127.0.0.1'' (\<lambda>_. True) (dotted 10 0 0 2 @ '':'' @ ''8000'') ''svc'' 1 = Some h' \<and> h \<noteq> h'"
  by (rule handle_distinct_hosts) simp_all

end
