(* ===== verification/AgentSidecar.thy ===== *)
theory AgentSidecar
  imports AgentService AgentUtils
begin

text \<open>
  \<^verbatim>\<open>src/agent/sidecar.go\<close>: the directory of remote services an agent keeps from the
  notifications of the name server, and the messages it sends. Remote services are shared by
  pointer between three indexes, so they live in the memory \<open>sc_mem\<close>. \<open>sc_nsOut\<close> and
  \<open>sc_agentOut\<close> are the byte strings handed to the dialer of the name server and to the
  dialers of other agents, in order. The network is the argument \<open>env\<close>: the error, if any,
  of a send to the name server, of opening a dialer and of a send to an agent. \<open>mar\<close> is the
  protobuf encoder, \<open>jmar\<close> the JSON encoder of attributes.
\<close>

record NetEnv =
  ne_nsErr :: "string option"
  ne_dialErr :: "string \<Rightarrow> string option"
  ne_sendErr :: "string \<Rightarrow> string option"

datatype SendErr =
    NetErr string | DialErr string | MarshalErr | JsonErr | NotFindHandle u64 | NotFindUrl string | NotFindRouter string

record skymeshSidecar =
  sc_mem :: "nat \<Rightarrow> remoteService"
  sc_next :: nat
  sc_remoteServices :: "(u64, nat) gomap"
  sc_remoteUrlServices :: "(string, nat) gomap"
  sc_remoteGroupServices :: "(string, (u64, nat) gomap) gomap"
  sc_nameStates :: "(string, ServiceStateType) gomap"
  sc_dialers :: "string list"
  sc_nsOut :: "bytes list"
  sc_agentOut :: "(string \<times> bytes) list"

definition sc_Init :: "remoteService \<Rightarrow> skymeshSidecar" where
  "sc_Init rs0 = \<lparr>sc_mem = (\<lambda>_. rs0), sc_next = 0, sc_remoteServices = [], sc_remoteUrlServices = [],
     sc_remoteGroupServices = [], sc_nameStates = [], sc_dialers = [], sc_nsOut = [], sc_agentOut = []\<rparr>"

section \<open>Sending\<close>

definition nsSend :: "NetEnv \<Rightarrow> skymeshSidecar \<Rightarrow> bytes \<Rightarrow> skymeshSidecar \<times> SendErr option" where
  "nsSend env sc b =
     (case ne_nsErr env of
        Some e \<Rightarrow> (sc, Some (NetErr e))
      | None \<Rightarrow> (sc\<lparr>sc_nsOut := sc_nsOut sc @ [b]\<rparr>, None))"

definition nsSendMsg :: "marshal \<Rightarrow> NetEnv \<Rightarrow> skymeshSidecar \<Rightarrow> SSMsg \<Rightarrow> skymeshSidecar \<times> SendErr option" where
  "nsSendMsg mar env sc msg =
     (case PackSSMsg mar msg of None \<Rightarrow> (sc, Some MarshalErr) | Some b \<Rightarrow> nsSend env sc b)"

text \<open>A dialer is opened once per server address and kept.\<close>

definition AgentDialerMgr_GetDialer :: "NetEnv \<Rightarrow> skymeshSidecar \<Rightarrow> string \<Rightarrow> skymeshSidecar \<times> SendErr option" where
  "AgentDialerMgr_GetDialer env sc serverUrl =
     (if serverUrl \<in> set (sc_dialers sc) then (sc, None)
      else case ne_dialErr env serverUrl of
        Some e \<Rightarrow> (sc, Some (DialErr e))
      | None \<Rightarrow> (sc\<lparr>sc_dialers := sc_dialers sc @ [serverUrl]\<rparr>, None))"

definition agentSend :: "NetEnv \<Rightarrow> skymeshSidecar \<Rightarrow> string \<Rightarrow> bytes \<Rightarrow> skymeshSidecar \<times> SendErr option" where
  "agentSend env sc serverUrl b =
     (case ne_sendErr env serverUrl of
        Some e \<Rightarrow> (sc, Some (NetErr e))
      | None \<Rightarrow> (sc\<lparr>sc_agentOut := sc_agentOut sc @ [(serverUrl, b)]\<rparr>, None))"

definition sc_RegisterApp ::
  "marshal \<Rightarrow> NetEnv \<Rightarrow> skymeshSidecar \<Rightarrow> string \<Rightarrow> string \<Rightarrow> skymeshSidecar \<times> SendErr option" where
  "sc_RegisterApp mar env sc meshAddr appID =
     nsSendMsg mar env sc (SSMsg REQ_REGISTER_APP (Some (RegisterAppReq meshAddr appID)))"

definition sc_keepalive :: "marshal \<Rightarrow> NetEnv \<Rightarrow> skymeshSidecar \<Rightarrow> u64 list \<Rightarrow> skymeshSidecar" where
  "sc_keepalive mar env sc handles =
     fold (\<lambda>handle sc. fst (nsSendMsg mar env sc (SSMsg NOTIFY_NAMESERVER_HEARTBEAT (Some (NotifyNameserverHb handle)))))
       handles sc"

definition sc_healthCheck :: "marshal \<Rightarrow> NetEnv \<Rightarrow> int \<Rightarrow> string \<Rightarrow> skymeshSidecar \<Rightarrow> skymeshSidecar" where
  "sc_healthCheck mar env now meshAddr sc =
     fold (\<lambda>r sc.
         case AgentDialerMgr_GetDialer env sc (rs_serverAddr (sc_mem sc r)) of
           (sc, Some e) \<Rightarrow> sc
         | (sc, None) \<Rightarrow>
             (let sc = sc\<lparr>sc_mem := (sc_mem sc)(r := rs_onSendPing now (sc_mem sc r))\<rparr>;
                  rs = sc_mem sc r in
              case PackSSMsg mar (SSMsg REQ_PING_SERVICE
                     (Some (ServicePingReq (AddrHandle (rs_serviceAddr rs)) (rs_curPingSeq rs) meshAddr))) of
                None \<Rightarrow> sc
              | Some data \<Rightarrow> fst (agentSend env sc (rs_serverAddr rs) data)))
       (mvals (sc_remoteServices sc)) sc"

definition sc_sendPingAck ::
  "marshal \<Rightarrow> NetEnv \<Rightarrow> skymeshSidecar \<Rightarrow> u64 \<Rightarrow> u64 \<Rightarrow> string \<Rightarrow> skymeshSidecar" where
  "sc_sendPingAck mar env sc srcHandle ackSeq dstServerAddr =
     (case AgentDialerMgr_GetDialer env sc dstServerAddr of
        (sc, Some e) \<Rightarrow> sc
      | (sc, None) \<Rightarrow>
          (case PackSSMsg mar (SSMsg RSP_PING_SERVICE (Some (ServicePingRsp ackSeq srcHandle))) of
             None \<Rightarrow> sc
           | Some data \<Rightarrow> fst (agentSend env sc dstServerAddr data)))"

definition sc_recvPingAck :: "int \<Rightarrow> skymeshSidecar \<Rightarrow> u64 \<Rightarrow> u64 \<Rightarrow> skymeshSidecar" where
  "sc_recvPingAck now sc srcHandle ackSeq =
     (case mget (sc_remoteServices sc) srcHandle of
        None \<Rightarrow> sc
      | Some r \<Rightarrow> sc\<lparr>sc_mem := (sc_mem sc)(r := rs_PingAck now (sc_mem sc r) ackSeq)\<rparr>)"

section \<open>The directory\<close>

definition groupOf :: "skymeshSidecar \<Rightarrow> string \<Rightarrow> (u64, nat) gomap" where
  "groupOf sc name = (case mget (sc_remoteGroupServices sc) name of None \<Rightarrow> [] | Some g \<Rightarrow> g)"

definition sc_notifyServiceOnline ::
  "skymeshSidecar \<Rightarrow> Addr \<Rightarrow> string \<Rightarrow> bool \<Rightarrow> ServiceOptions \<Rightarrow> skymeshSidecar" where
  "sc_notifyServiceOnline sc serviceAddr serverAddr isOnline serviceOpts =
     (let rh = AddrHandle serviceAddr;
          rsname = ServiceName serviceAddr;
          url = SkymeshAddr2Url serviceAddr False in
      if isOnline then
        (if mget (sc_remoteServices sc) rh \<noteq> None then sc
         else
           let r = sc_next sc;
               sc = sc\<lparr>sc_mem := (sc_mem sc)(r := newRemoteService serverAddr serviceAddr serviceOpts), sc_next := Suc r\<rparr>
           in sc\<lparr>sc_remoteServices := mput rh r (sc_remoteServices sc),
                 sc_nameStates := mput rsname (GetServiceStateType serviceOpts) (sc_nameStates sc),
                 sc_remoteUrlServices := mput url r (sc_remoteUrlServices sc),
                 sc_remoteGroupServices := mput rsname (mput rh r (groupOf sc rsname)) (sc_remoteGroupServices sc)\<rparr>)
      else
        sc\<lparr>sc_remoteServices := mdel rh (sc_remoteServices sc),
           sc_remoteUrlServices := mdel url (sc_remoteUrlServices sc),
           sc_remoteGroupServices :=
             (case mget (sc_remoteGroupServices sc) rsname of
                None \<Rightarrow> sc_remoteGroupServices sc
              | Some g \<Rightarrow> mput rsname (mdel rh g) (sc_remoteGroupServices sc))\<rparr>)"

definition sc_notifyServiceSyncAttr :: "skymeshSidecar \<Rightarrow> Addr \<Rightarrow> ServiceAttr \<Rightarrow> skymeshSidecar" where
  "sc_notifyServiceSyncAttr sc serviceAddr attributes =
     (case mget (sc_remoteServices sc) (AddrHandle serviceAddr) of
        None \<Rightarrow> sc
      | Some r \<Rightarrow> sc\<lparr>sc_mem := (sc_mem sc)(r := rs_SetAttribute (sc_mem sc r) attributes)\<rparr>)"

fun best_loop :: "(nat \<Rightarrow> remoteService) \<Rightarrow> nat list \<Rightarrow> (nat \<times> int) option \<Rightarrow> (nat \<times> int) option" where
  "best_loop mem [] best = best"
| "best_loop mem (r # rs) None = best_loop mem rs (Some (r, rs_CalAverageRTT (mem r)))"
| "best_loop mem (r # rs) (Some (b, bestRTT)) =
     (let rtt = rs_CalAverageRTT (mem r) in
      best_loop mem rs (if rtt < bestRTT then Some (r, rtt) else Some (b, bestRTT)))"

definition sc_GetBestQualityService :: "skymeshSidecar \<Rightarrow> string \<Rightarrow> nat option" where
  "sc_GetBestQualityService sc serviceName =
     map_option fst (best_loop (sc_mem sc) (mvals (groupOf sc serviceName)) None)"

definition sc_getRemoteServiceInsts :: "skymeshSidecar \<Rightarrow> string \<Rightarrow> (u64 \<times> u64) list" where
  "sc_getRemoteServiceInsts sc svcName =
     map (\<lambda>(rh, r). (rh, ServiceId (rs_serviceAddr (sc_mem sc r)))) (groupOf sc svcName)"

definition sc_getRemoteService :: "skymeshSidecar \<Rightarrow> u64 \<Rightarrow> nat option" where
  "sc_getRemoteService sc handle = mget (sc_remoteServices sc) handle"

definition sc_getServiceStateType :: "skymeshSidecar \<Rightarrow> string \<Rightarrow> ServiceStateType" where
  "sc_getServiceStateType sc svcName =
     (case mget (sc_nameStates sc) svcName of Some st \<Rightarrow> st | None \<Rightarrow> KUnknowStateService)"

definition sc_Release :: "skymeshSidecar \<Rightarrow> skymeshSidecar" where
  "sc_Release sc = sc\<lparr>sc_remoteServices := [], sc_remoteUrlServices := [], sc_remoteGroupServices := [],
     sc_nameStates := [], sc_dialers := []\<rparr>"

section \<open>Requests to the name server\<close>

definition sc_RegisterServiceToNameServer ::
  "marshal \<Rightarrow> NetEnv \<Rightarrow> skymeshSidecar \<Rightarrow> Addr \<Rightarrow> ServiceOptions \<Rightarrow> skymeshSidecar \<times> SendErr option" where
  "sc_RegisterServiceToNameServer mar env sc addr opts =
     nsSendMsg mar env sc
       (SSMsg REQ_REGISTER_SERVICE (Some (RegisterServiceReq (Some (pbOfAddr addr)) (Some (pbOfOpts opts)))))"

definition sc_UnRegisterServiceToNameServer ::
  "marshal \<Rightarrow> NetEnv \<Rightarrow> skymeshSidecar \<Rightarrow> Addr \<Rightarrow> skymeshSidecar \<times> SendErr option" where
  "sc_UnRegisterServiceToNameServer mar env sc addr =
     nsSendMsg mar env sc (SSMsg REQ_UNREGISTER_SERVICE (Some (UnregisterServiceReq (AddrHandle addr))))"

definition sc_RegisterRouterToNameServer ::
  "marshal \<Rightarrow> NetEnv \<Rightarrow> skymeshSidecar \<Rightarrow> string \<Rightarrow> skymeshSidecar \<times> SendErr option" where
  "sc_RegisterRouterToNameServer mar env sc serviceName =
     nsSendMsg mar env sc (SSMsg NOTIFY_NAMESERVER_REGISTER_ROUTER (Some (NotifyNameserverRegisterRouter serviceName)))"

definition sc_SyncServiceAttrToNameServer ::
  "marshal \<Rightarrow> (ServiceAttr \<Rightarrow> bytes option) \<Rightarrow> NetEnv \<Rightarrow> skymeshSidecar \<Rightarrow> Addr \<Rightarrow> ServiceAttr \<Rightarrow>
     skymeshSidecar \<times> SendErr option" where
  "sc_SyncServiceAttrToNameServer mar jmar env sc addr attrs =
     (case jmar attrs of
        None \<Rightarrow> (sc, Some JsonErr)
      | Some data \<Rightarrow>
          nsSendMsg mar env sc (SSMsg NOTIFY_NAMESERVER_SYNCATTR (Some (NotifyNameserverAttr (AddrHandle addr) data))))"

definition sc_SyncNameServerElection ::
  "marshal \<Rightarrow> NetEnv \<Rightarrow> skymeshSidecar \<Rightarrow> Addr \<Rightarrow> int \<Rightarrow> skymeshSidecar \<times> SendErr option" where
  "sc_SyncNameServerElection mar env sc addr event =
     nsSendMsg mar env sc (SSMsg NOTIFY_NAMESERVER_ELECTION (Some (NotifyNameserverElection (AddrHandle addr) event)))"

definition sc_ReplyNameServerRouterUpdate ::
  "marshal \<Rightarrow> NetEnv \<Rightarrow> skymeshSidecar \<Rightarrow> string \<Rightarrow> int \<Rightarrow> skymeshSidecar \<times> SendErr option" where
  "sc_ReplyNameServerRouterUpdate mar env sc svcName result =
     nsSendMsg mar env sc (SSMsg RSP_NAMESERVER_ROUTER_UPDATE (Some (NameserverRouterUpdateRsp result svcName)))"

section \<open>Messages to other agents\<close>

definition sc_SendRemote ::
  "marshal \<Rightarrow> NetEnv \<Rightarrow> skymeshSidecar \<Rightarrow> Addr \<Rightarrow> u64 \<Rightarrow> bytes \<Rightarrow> skymeshSidecar \<times> SendErr option" where
  "sc_SendRemote mar env sc srcAddr dstHandle b =
     (case mget (sc_remoteServices sc) dstHandle of
        None \<Rightarrow> (sc, Some (NotFindHandle dstHandle))
      | Some r \<Rightarrow>
          (let serverAddr = rs_serverAddr (sc_mem sc r) in
           case AgentDialerMgr_GetDialer env sc serverAddr of
             (sc, Some e) \<Rightarrow> (sc, Some e)
           | (sc, None) \<Rightarrow>
               (case PackSSMsg mar (SSMsg NOTIFY_SERVICE_MESSAGE
                       (Some (NotifyServiceMessage (Some (pbOfAddr srcAddr)) dstHandle b))) of
                  None \<Rightarrow> (sc, Some MarshalErr)
                | Some data \<Rightarrow> agentSend env sc serverAddr data)))"

definition sc_SendAllRemote ::
  "marshal \<Rightarrow> NetEnv \<Rightarrow> skymeshSidecar \<Rightarrow> Addr \<Rightarrow> string \<Rightarrow> bytes \<Rightarrow> skymeshSidecar" where
  "sc_SendAllRemote mar env sc srcAddr serviceName b =
     fold (\<lambda>rh sc. fst (sc_SendRemote mar env sc srcAddr rh b)) (mkeys (groupOf sc serviceName)) sc"

definition sc_SendRemoteBySvcUrl ::
  "marshal \<Rightarrow> NetEnv \<Rightarrow> skymeshSidecar \<Rightarrow> Addr \<Rightarrow> string \<Rightarrow> bytes \<Rightarrow> skymeshSidecar \<times> SendErr option" where
  "sc_SendRemoteBySvcUrl mar env sc srcAddr dstSvcUrl b =
     (case mget (sc_remoteUrlServices sc) dstSvcUrl of
        None \<Rightarrow> (sc, Some (NotFindUrl dstSvcUrl))
      | Some r \<Rightarrow> sc_SendRemote mar env sc srcAddr (AddrHandle (rs_serviceAddr (sc_mem sc r))) b)"

section \<open>Invariant\<close>

text \<open>
  The handle index and the name groups hold the same services under the same handles. The
  URL index is weaker: the entry of a URL may be missing although a service with that URL is
  known, because an offline notification deletes it without looking at the handle.
\<close>

definition sidecar_ok :: "skymeshSidecar \<Rightarrow> bool" where
  "sidecar_ok sc \<longleftrightarrow>
     mwf (sc_remoteServices sc) \<and> mwf (sc_remoteUrlServices sc) \<and> mwf (sc_remoteGroupServices sc) \<and>
     (\<forall>n. mwf (groupOf sc n)) \<and>
     (\<forall>h r. mget (sc_remoteServices sc) h = Some r \<longrightarrow>
        r < sc_next sc \<and> AddrHandle (rs_serviceAddr (sc_mem sc r)) = h) \<and>
     (\<forall>n h r. mget (groupOf sc n) h = Some r \<longleftrightarrow>
        mget (sc_remoteServices sc) h = Some r \<and> ServiceName (rs_serviceAddr (sc_mem sc r)) = n) \<and>
     (\<forall>u r. mget (sc_remoteUrlServices sc) u = Some r \<longrightarrow>
        r < sc_next sc \<and> SkymeshAddr2Url (rs_serviceAddr (sc_mem sc r)) False = u)"

lemma sidecar_okD:
  assumes "sidecar_ok sc"
  shows "mwf (sc_remoteServices sc)" "mwf (sc_remoteUrlServices sc)" "mwf (sc_remoteGroupServices sc)"
    "mwf (groupOf sc n)"
    and "mget (sc_remoteServices sc) h = Some r \<Longrightarrow> r < sc_next sc"
    and "mget (sc_remoteServices sc) h = Some r \<Longrightarrow> AddrHandle (rs_serviceAddr (sc_mem sc r)) = h"
    and "mget (groupOf sc n) h = Some r \<longleftrightarrow>
      mget (sc_remoteServices sc) h = Some r \<and> ServiceName (rs_serviceAddr (sc_mem sc r)) = n"
    and "mget (sc_remoteUrlServices sc) u = Some r \<Longrightarrow> r < sc_next sc"
    and "mget (sc_remoteUrlServices sc) u = Some r \<Longrightarrow> SkymeshAddr2Url (rs_serviceAddr (sc_mem sc r)) False = u"
  using assms unfolding sidecar_ok_def by (blast, blast, blast, blast, blast, blast, metis, blast, blast)

lemma sidecar_ok_init: "sidecar_ok (sc_Init rs0)"
  by (simp add: sidecar_ok_def sc_Init_def groupOf_def)

lemma groupOf_mput [simp]:
  "groupOf (sc\<lparr>sc_remoteGroupServices := mput n g gs\<rparr>) m =
     (if m = n then g else groupOf (sc\<lparr>sc_remoteGroupServices := gs\<rparr>) m)"
  by (simp add: groupOf_def)

lemma groupOf_frame [simp]:
  "groupOf (sc\<lparr>sc_remoteServices := a\<rparr>) n = groupOf sc n"
  "groupOf (sc\<lparr>sc_remoteUrlServices := b\<rparr>) n = groupOf sc n"
  "groupOf (sc\<lparr>sc_mem := c\<rparr>) n = groupOf sc n" "groupOf (sc\<lparr>sc_next := d\<rparr>) n = groupOf sc n"
  "groupOf (sc\<lparr>sc_nameStates := e\<rparr>) n = groupOf sc n" "groupOf (sc\<lparr>sc_nsOut := f\<rparr>) n = groupOf sc n"
  "groupOf (sc\<lparr>sc_agentOut := g\<rparr>) n = groupOf sc n" "groupOf (sc\<lparr>sc_dialers := k\<rparr>) n = groupOf sc n"
  "groupOf (sc\<lparr>sc_remoteGroupServices := sc_remoteGroupServices sc\<rparr>) n = groupOf sc n"
  by (simp_all add: groupOf_def)

lemma sidecar_ok_online:
  assumes ok: "sidecar_ok sc"
  shows "sidecar_ok (sc_notifyServiceOnline sc addr sa True opts)"
proof (cases "mget (sc_remoteServices sc) (AddrHandle addr)")
  case None
  let ?h = "AddrHandle addr" and ?n = "ServiceName addr" and ?r = "sc_next sc"
  let ?t = "sc_notifyServiceOnline sc addr sa True opts"
  have t: "sc_remoteServices ?t = mput ?h ?r (sc_remoteServices sc)" "sc_next ?t = Suc ?r"
    "sc_remoteUrlServices ?t = mput (SkymeshAddr2Url addr False) ?r (sc_remoteUrlServices sc)"
    "sc_remoteGroupServices ?t = mput ?n (mput ?h ?r (groupOf sc ?n)) (sc_remoteGroupServices sc)"
    "sc_mem ?t = (sc_mem sc)(?r := newRemoteService sa addr opts)"
    using None by (simp_all add: sc_notifyServiceOnline_def Let_def)
  have g: "groupOf ?t n = (if n = ?n then mput ?h ?r (groupOf sc ?n) else groupOf sc n)" for n
    by (simp add: groupOf_def t(4))
  have new: "rs_serviceAddr (newRemoteService sa addr opts) = addr" by (simp add: newRemoteService_def)
  have old: "r < ?r" if "mget (sc_remoteServices sc) h = Some r" for h r
    using sidecar_okD(5) [OF ok that] .
  have grp: "mget (groupOf ?t n) h = Some r \<longleftrightarrow>
      mget (sc_remoteServices ?t) h = Some r \<and> ServiceName (rs_serviceAddr (sc_mem ?t r)) = n" for n h r
    unfolding t(1,5) g using sidecar_okD(7) [OF ok, of n h r] old [of h r] None new by auto
  have rem: "r < Suc ?r \<and> AddrHandle (rs_serviceAddr (sc_mem ?t r)) = h"
    if "mget (sc_remoteServices ?t) h = Some r" for h r
    using that sidecar_okD(5,6) [OF ok, of h r] new unfolding t(1,5) by (auto split: if_splits)
  have url: "r < Suc ?r \<and> SkymeshAddr2Url (rs_serviceAddr (sc_mem ?t r)) False = u"
    if "mget (sc_remoteUrlServices ?t) u = Some r" for u r
    using that sidecar_okD(8,9) [OF ok, of u r] new unfolding t(3,5) by (auto split: if_splits)
  have "mwf (sc_remoteServices ?t)" "mwf (sc_remoteUrlServices ?t)" "mwf (sc_remoteGroupServices ?t)" "\<And>n. mwf (groupOf ?t n)"
    unfolding g t using sidecar_okD(1-4) [OF ok] by auto
  with grp rem url show ?thesis unfolding sidecar_ok_def t(2) by blast
qed (simp add: sc_notifyServiceOnline_def ok)

lemma sidecar_ok_offline:
  assumes ok: "sidecar_ok sc"
    and same: "\<And>r. mget (sc_remoteServices sc) (AddrHandle addr) = Some r \<Longrightarrow>
      ServiceName (rs_serviceAddr (sc_mem sc r)) = ServiceName addr"
  shows "sidecar_ok (sc_notifyServiceOnline sc addr sa False opts)"
proof -
  let ?h = "AddrHandle addr" and ?n = "ServiceName addr"
  let ?t = "sc_notifyServiceOnline sc addr sa False opts"
  have t: "sc_remoteServices ?t = mdel ?h (sc_remoteServices sc)" "sc_next ?t = sc_next sc"
    "sc_remoteUrlServices ?t = mdel (SkymeshAddr2Url addr False) (sc_remoteUrlServices sc)"
    "sc_mem ?t = sc_mem sc"
    by (simp_all add: sc_notifyServiceOnline_def Let_def)
  have g: "groupOf ?t n = (if n = ?n then mdel ?h (groupOf sc ?n) else groupOf sc n)" for n
    by (auto simp: groupOf_def sc_notifyServiceOnline_def Let_def split: option.split)
  have wf: "mwf (sc_remoteGroupServices ?t)"
    using sidecar_okD(3) [OF ok] by (simp add: sc_notifyServiceOnline_def Let_def split: option.split)
  have grp: "mget (groupOf ?t n) h = Some r \<longleftrightarrow>
      mget (sc_remoteServices ?t) h = Some r \<and> ServiceName (rs_serviceAddr (sc_mem ?t r)) = n" for n h r
    unfolding t g using sidecar_okD(7) [OF ok, of n h r] same by auto
  have "mwf (sc_remoteServices ?t)" "mwf (sc_remoteUrlServices ?t)" "\<And>n. mwf (groupOf ?t n)"
    unfolding g t using sidecar_okD(1-4) [OF ok] by auto
  with grp wf show ?thesis unfolding sidecar_ok_def t
    using sidecar_okD(5,6,8,9) [OF ok] by (auto split: if_splits)
qed

text \<open>What an update of a service that keeps its address preserves.\<close>

lemma sidecar_ok_mem:
  assumes ok: "sidecar_ok sc" and "rs_serviceAddr rs = rs_serviceAddr (sc_mem sc r)"
  shows "sidecar_ok (sc\<lparr>sc_mem := (sc_mem sc)(r := rs)\<rparr>)"
proof -
  have "rs_serviceAddr (((sc_mem sc)(r := rs)) x) = rs_serviceAddr (sc_mem sc x)" for x using assms(2) by simp
  then show ?thesis using ok unfolding sidecar_ok_def by simp
qed

lemma sidecar_ok_out [simp]:
  "sidecar_ok (sc\<lparr>sc_nsOut := f\<rparr>) = sidecar_ok sc" "sidecar_ok (sc\<lparr>sc_agentOut := g\<rparr>) = sidecar_ok sc"
  "sidecar_ok (sc\<lparr>sc_dialers := k\<rparr>) = sidecar_ok sc"
  by (simp_all add: sidecar_ok_def)

lemma sidecar_ok_SyncAttr: "sidecar_ok sc \<Longrightarrow> sidecar_ok (sc_notifyServiceSyncAttr sc addr attrs)"
  by (simp add: sc_notifyServiceSyncAttr_def rs_SetAttribute_def sidecar_ok_mem split: option.split)

lemma sidecar_ok_recvPingAck: "sidecar_ok sc \<Longrightarrow> sidecar_ok (sc_recvPingAck now sc h seq)"
  by (simp add: sc_recvPingAck_def rs_PingAck_def sidecar_ok_mem split: option.split)

lemma sidecar_ok_Release: "sidecar_ok (sc_Release sc)"
  by (simp add: sidecar_ok_def sc_Release_def groupOf_def)

section \<open>Best quality\<close>

lemma best_loop_min_from:
  "best_loop mem rs (Some (x, rs_CalAverageRTT (mem x))) = Some (b, v) \<Longrightarrow>
     v = rs_CalAverageRTT (mem b) \<and> (b = x \<or> b \<in> set rs) \<and> v \<le> rs_CalAverageRTT (mem x) \<and>
     (\<forall>r \<in> set rs. v \<le> rs_CalAverageRTT (mem r))"
proof (induction rs arbitrary: x)
  case (Cons r rs)
  show ?case
  proof (cases "rs_CalAverageRTT (mem r) < rs_CalAverageRTT (mem x)")
    case True
    with Cons show ?thesis by (fastforce simp: Let_def)
  next
    case False
    with Cons show ?thesis by (fastforce simp: Let_def)
  qed
qed simp

lemma best_loop_min:
  "best_loop mem rs None = Some (b, v) \<Longrightarrow>
     v = rs_CalAverageRTT (mem b) \<and> b \<in> set rs \<and> (\<forall>r \<in> set rs. v \<le> rs_CalAverageRTT (mem r))"
  by (cases rs) (auto dest: best_loop_min_from)

lemma best_loop_None: "best_loop mem rs best = None \<longleftrightarrow> rs = [] \<and> best = None"
  by (induction mem rs best rule: best_loop.induct) (auto simp: Let_def)

section \<open>Properties\<close>

text \<open>
  C29: The sidecar picks the best link: it finds a service of a name exactly when it knows one, the
  service found has that name, and no known service of the name has a smaller average round-trip time.
\<close>

theorem best_quality_minimal:
  assumes "sidecar_ok sc"
  shows "case sc_GetBestQualityService sc n of
      None \<Rightarrow> (\<forall>h r. mget (sc_remoteServices sc) h = Some r \<longrightarrow> ServiceName (rs_serviceAddr (sc_mem sc r)) \<noteq> n)
    | Some b \<Rightarrow> ServiceName (rs_serviceAddr (sc_mem sc b)) = n \<and>
        mget (sc_remoteServices sc) (AddrHandle (rs_serviceAddr (sc_mem sc b))) = Some b \<and>
        (\<forall>h r. mget (sc_remoteServices sc) h = Some r \<and> ServiceName (rs_serviceAddr (sc_mem sc r)) = n \<longrightarrow>
           rs_CalAverageRTT (sc_mem sc b) \<le> rs_CalAverageRTT (sc_mem sc r))"
proof -
  note in_grp = in_mvals_iff [OF sidecar_okD(4) [OF assms], of _ n] and grp = sidecar_okD(7) [OF assms, of n]
  show ?thesis
  proof (cases "best_loop (sc_mem sc) (mvals (groupOf sc n)) None")
    case None
    then have "groupOf sc n = []" by (simp add: best_loop_None mvals_def)
    then show ?thesis using None grp by (auto simp: sc_GetBestQualityService_def)
  next
    case (Some p)
    obtain b v where p: "p = (b, v)" by fastforce
    note m = best_loop_min [OF Some [unfolded p]]
    obtain h where h: "mget (groupOf sc n) h = Some b" using m in_grp by auto
    then have "mget (sc_remoteServices sc) h = Some b" "ServiceName (rs_serviceAddr (sc_mem sc b)) = n" using grp by auto
    moreover have "rs_CalAverageRTT (sc_mem sc b) \<le> rs_CalAverageRTT (sc_mem sc r)"
      if "mget (sc_remoteServices sc) h' = Some r" "ServiceName (rs_serviceAddr (sc_mem sc r)) = n" for h' r
      using m mget_mem_mvals [of "groupOf sc n" h' r] grp [of h' r] that by auto
    ultimately show ?thesis using Some p sidecar_okD(6) [OF assms, of h b] by (auto simp: sc_GetBestQualityService_def)
  qed
qed

definition ex_side :: skymeshSidecar where
  "ex_side = sc_notifyServiceOnline (sc_Init (newRemoteService [] \<lparr>ServiceName = [], ServiceId = 0, AddrHandle = 0\<rparr> defaultRegisterOptions))
     \<lparr>ServiceName = ''svc'', ServiceId = 1, AddrHandle = 10\<rparr> ''h1'' True defaultRegisterOptions"

lemma ex_side_ok: "sidecar_ok ex_side"
  unfolding ex_side_def by (rule sidecar_ok_online [OF sidecar_ok_init])

theorem best_quality_minimal_witness:
  "sc_GetBestQualityService ex_side ''svc'' = Some 0 \<and> mget (sc_remoteServices ex_side) 10 = Some 0"
  using best_quality_minimal [OF ex_side_ok, of "''svc''"]
  by (simp add: ex_side_def sc_notifyServiceOnline_def sc_Init_def newRemoteService_def groupOf_def Let_def
      sc_GetBestQualityService_def)

text \<open>
  An offline notification can hide a live service: when an instance has come online again under a
  new handle before the end of the old one is announced, the announcement deletes the entry of their
  common URL, and the agent answers that the URL is unknown although it knows the new instance by
  its handle.
\<close>

theorem sidecar_url_lost:
  assumes "SkymeshAddr2Url old False = SkymeshAddr2Url new False" "AddrHandle old \<noteq> AddrHandle new"
    and "mget (sc_remoteServices sc) (AddrHandle new) = None"
  shows "let sc' = sc_notifyServiceOnline (sc_notifyServiceOnline sc new sa True opts) old sa' False opts' in
    mget (sc_remoteServices sc') (AddrHandle new) = Some (sc_next sc) \<and> rs_serviceAddr (sc_mem sc' (sc_next sc)) = new \<and>
    snd (sc_SendRemoteBySvcUrl mar env sc' src (SkymeshAddr2Url new False) b) = Some (NotFindUrl (SkymeshAddr2Url new False))"
  using assms by (auto simp: sc_notifyServiceOnline_def sc_SendRemoteBySvcUrl_def newRemoteService_def Let_def split: option.split)

theorem sidecar_url_lost_witness:
  "let old = \<lparr>ServiceName = ''svc'', ServiceId = 1, AddrHandle = 10\<rparr>; new = old\<lparr>AddrHandle := 11\<rparr>;
       sc' = sc_notifyServiceOnline (sc_notifyServiceOnline ex_side new ''h2'' True defaultRegisterOptions)
               old ''h1'' False defaultRegisterOptions in
   snd (sc_SendRemoteBySvcUrl (\<lambda>_. None) \<lparr>ne_nsErr = None, ne_dialErr = (\<lambda>_. None), ne_sendErr = (\<lambda>_. None)\<rparr> sc' old
     (SkymeshAddr2Url new False) [1]) = Some (NotFindUrl (SkymeshAddr2Url new False))"
proof -
  let ?old = "\<lparr>ServiceName = ''svc'', ServiceId = 1, AddrHandle = 10\<rparr> :: Addr"
  have "SkymeshAddr2Url ?old False = SkymeshAddr2Url (?old\<lparr>AddrHandle := 11\<rparr>) False" by (simp add: SkymeshAddr2Url_def)
  moreover have "mget (sc_remoteServices ex_side) 11 = None"
    by (simp add: ex_side_def sc_notifyServiceOnline_def sc_Init_def Let_def)
  ultimately show ?thesis
    using sidecar_url_lost [of ?old "?old\<lparr>AddrHandle := 11\<rparr>" ex_side "''h2''" defaultRegisterOptions "''h1''" defaultRegisterOptions
        "\<lambda>_. None" "\<lparr>ne_nsErr = None, ne_dialErr = (\<lambda>_. None), ne_sendErr = (\<lambda>_. None)\<rparr>" ?old "[1]"]
    by (simp add: Let_def)
qed

end
