(* ===== verification/AgentRouter.thy ===== *)
theory AgentRouter
  imports AgentDefs
begin

text \<open>
  \<^verbatim>\<open>src/agent/router.go\<close>: the name router an application holds for one service name, its
  instances and the four ways to select one. A watcher is identified by a number; the calls
  of its methods are returned as a list, in the order the code makes them. \<open>loopSeq\<close> is a
  64-bit signed integer: it is an \<open>int\<close> whose increment wraps as written.
\<close>

datatype RouterCall =
    OnInstOnline nat Addr
  | OnInstOffline nat Addr
  | OnInstSyncAttr nat Addr ServiceAttr

record ConsistentHashInfo =
  ch_key :: u64
  ch_instID :: u64

record skymeshNameRouter =
  sr_svcName :: string
  sr_instAddrs :: "(u64, Addr) gomap"
  sr_watchers :: "(nat, bool) gomap"
  sr_instAttrs :: "(u64, ServiceAttr) gomap"
  sr_instOpts :: "(u64, ServiceOptions) gomap"
  sr_instIDs :: "u64 list"
  sr_ConsHashList :: "ConsistentHashInfo list"
  sr_loopSeq :: int
  sr_state :: AgentRouterState

definition newNameRouter :: "string \<Rightarrow> skymeshNameRouter" where
  "newNameRouter svcName =
     \<lparr>sr_svcName = svcName, sr_instAddrs = [], sr_watchers = [], sr_instAttrs = [], sr_instOpts = [],
      sr_instIDs = [], sr_ConsHashList = [], sr_loopSeq = 0, sr_state = NameRouterReady\<rparr>"

section \<open>Operations\<close>

definition sr_Watch :: "skymeshNameRouter \<Rightarrow> nat \<Rightarrow> skymeshNameRouter \<times> RouterCall list" where
  "sr_Watch sr w = (sr\<lparr>sr_watchers := mput w True (sr_watchers sr)\<rparr>, map (OnInstOnline w) (mvals (sr_instAddrs sr)))"

definition sr_UnWatch :: "skymeshNameRouter \<Rightarrow> nat \<Rightarrow> skymeshNameRouter" where
  "sr_UnWatch sr w = sr\<lparr>sr_watchers := mdel w (sr_watchers sr)\<rparr>"

definition sr_AddInstsAddr :: "skymeshNameRouter \<Rightarrow> u64 \<Rightarrow> Addr \<Rightarrow> skymeshNameRouter" where
  "sr_AddInstsAddr sr instID instAddr =
     (if mget (sr_instAddrs sr) instID = None
      then sr\<lparr>sr_instAddrs := mput instID instAddr (sr_instAddrs sr), sr_instIDs := sr_instIDs sr @ [instID]\<rparr>
      else sr)"

definition sr_refreshConsHashList :: "skymeshNameRouter \<Rightarrow> skymeshNameRouter" where
  "sr_refreshConsHashList sr =
     (let list = map (\<lambda>(instID, opts). \<lparr>ch_key = ConsistentHashKey opts, ch_instID = instID\<rparr>) (sr_instOpts sr)
      in sr\<lparr>sr_ConsHashList := sort_key ch_key list\<rparr>)"

definition sr_AddInstsOpts :: "skymeshNameRouter \<Rightarrow> u64 \<Rightarrow> ServiceOptions \<Rightarrow> skymeshNameRouter" where
  "sr_AddInstsOpts sr instID opts =
     sr_refreshConsHashList (sr\<lparr>sr_instOpts := mput instID opts (sr_instOpts sr)\<rparr>)"

definition sr_GetInstsAddr :: "skymeshNameRouter \<Rightarrow> (u64, Addr) gomap" where
  "sr_GetInstsAddr sr = fold (\<lambda>(inst, addr) copy. mput inst addr copy) (sr_instAddrs sr) []"

definition sr_notifyInstsChange ::
  "skymeshNameRouter \<Rightarrow> bool \<Rightarrow> u64 \<Rightarrow> u64 \<Rightarrow> ServiceOptions \<Rightarrow> skymeshNameRouter \<times> RouterCall list" where
  "sr_notifyInstsChange sr isOnline handle instID opts =
     (if isOnline then
        (case mget (sr_instAddrs sr) instID of
           Some _ \<Rightarrow> (sr, [])
         | None \<Rightarrow>
             (let instAddr = \<lparr>ServiceName = sr_svcName sr, ServiceId = instID, AddrHandle = handle\<rparr>;
                  sr = sr\<lparr>sr_instAddrs := mput instID instAddr (sr_instAddrs sr),
                          sr_instIDs := sr_instIDs sr @ [instID],
                          sr_instOpts := mput instID opts (sr_instOpts sr)\<rparr>;
                  sr = (sr_refreshConsHashList sr)\<lparr>sr_state := NameRouterReady\<rparr>
              in (sr, map (\<lambda>w. OnInstOnline w instAddr) (mkeys (sr_watchers sr)))))
      else
        (case mget (sr_instAddrs sr) instID of
           None \<Rightarrow> (sr, [])
         | Some instAddr \<Rightarrow>
             (let sr = sr\<lparr>sr_instAddrs := mdel instID (sr_instAddrs sr),
                          sr_instAttrs := mdel instID (sr_instAttrs sr),
                          sr_instOpts := mdel instID (sr_instOpts sr)\<rparr>;
                  sr = sr_refreshConsHashList sr;
                  sr = sr\<lparr>sr_instIDs := remove1 instID (sr_instIDs sr)\<rparr>
              in (sr, map (\<lambda>w. OnInstOffline w instAddr) (mkeys (sr_watchers sr))))))"

definition sr_notifyInstsAttrs ::
  "skymeshNameRouter \<Rightarrow> u64 \<Rightarrow> ServiceAttr \<Rightarrow> skymeshNameRouter \<times> RouterCall list" where
  "sr_notifyInstsAttrs sr instID attrs =
     (case mget (sr_instAddrs sr) instID of
        None \<Rightarrow> (sr, [])
      | Some instAddr \<Rightarrow>
          (sr\<lparr>sr_instAttrs := mput instID attrs (sr_instAttrs sr)\<rparr>,
           map (\<lambda>w. OnInstSyncAttr w instAddr attrs) (mkeys (sr_watchers sr))))"

definition sr_AddInstsAttr :: "skymeshNameRouter \<Rightarrow> u64 \<Rightarrow> ServiceAttr \<Rightarrow> skymeshNameRouter" where
  "sr_AddInstsAttr sr instID attrs = sr\<lparr>sr_instAttrs := mput instID attrs (sr_instAttrs sr)\<rparr>"

definition sr_GetInstsAttr :: "skymeshNameRouter \<Rightarrow> (u64, ServiceAttr) gomap" where
  "sr_GetInstsAttr sr = fold (\<lambda>(inst, attr) copy. mput inst attr copy) (sr_instAttrs sr) []"

definition sr_setState :: "skymeshNameRouter \<Rightarrow> AgentRouterState \<Rightarrow> skymeshNameRouter" where
  "sr_setState sr st = sr\<lparr>sr_state := st\<rparr>"

section \<open>Selection\<close>

text \<open>The loop that looks for \<open>shareIdx\<close>, starting at position \<open>idx\<close>.\<close>

fun shareIdx_loop :: "u64 \<Rightarrow> nat \<Rightarrow> ConsistentHashInfo list \<Rightarrow> nat" where
  "shareIdx_loop key idx [] = 0"
| "shareIdx_loop key idx (info # infos) =
     (if key < ch_key info then idx else shareIdx_loop key (Suc idx) infos)"

definition index_or_panic :: "'a list \<Rightarrow> int \<Rightarrow> 'a option" where
  "index_or_panic xs i = (if 0 \<le> i \<and> i < int (length xs) then Some (xs ! nat i) else None)"

definition SelectRouterByConsistentHash :: "skymeshNameRouter \<Rightarrow> u64 \<Rightarrow> u64 option" where
  "SelectRouterByConsistentHash sr key =
     (if sr_instIDs sr = [] \<or> sr_state sr \<noteq> NameRouterReady \<or> sr_ConsHashList sr = []
      then Some INVALID_ROUTER_ID
      else map_option ch_instID
             (index_or_panic (sr_ConsHashList sr) (int (shareIdx_loop key 0 (sr_ConsHashList sr)))))"

definition SelectRouterByModHash :: "skymeshNameRouter \<Rightarrow> u64 \<Rightarrow> u64 option" where
  "SelectRouterByModHash sr key =
     (if sr_instIDs sr = [] \<or> sr_state sr \<noteq> NameRouterReady then Some INVALID_ROUTER_ID
      else index_or_panic (sr_instIDs sr) (uint (key mod word_of_nat (length (sr_instIDs sr)))))"

text \<open>The remainder of Go truncates toward zero: it has the sign of the dividend.\<close>

definition go_rem :: "int \<Rightarrow> int \<Rightarrow> int" where
  "go_rem a b = sgn a * (\<bar>a\<bar> mod \<bar>b\<bar>)"

definition go_inc :: "int \<Rightarrow> int" where
  "go_inc n = (if n = 2 ^ 63 - 1 then - (2 ^ 63) else n + 1)"

definition SelectRouterByLoop :: "skymeshNameRouter \<Rightarrow> (skymeshNameRouter \<times> u64) option" where
  "SelectRouterByLoop sr =
     (if sr_instIDs sr = [] \<or> sr_state sr \<noteq> NameRouterReady then Some (sr, INVALID_ROUTER_ID)
      else do {
        let seq = sr_loopSeq sr;
        let sr = sr\<lparr>sr_loopSeq := go_inc seq\<rparr>;
        i \<leftarrow> index_or_panic (sr_instIDs sr) (go_rem seq (int (length (sr_instIDs sr))));
        Some (sr, i) })"

text \<open>\<open>dstAddr\<close> is what the server's \<open>GetBestQualityService\<close> returned.\<close>

definition SelectRouterByQuality :: "skymeshNameRouter \<Rightarrow> Addr option \<Rightarrow> u64 option" where
  "SelectRouterByQuality sr dstAddr =
     (if sr_instIDs sr = [] \<or> sr_state sr \<noteq> NameRouterReady then Some INVALID_ROUTER_ID
      else case dstAddr of
        None \<Rightarrow> index_or_panic (sr_instIDs sr) 0
      | Some a \<Rightarrow>
          if ServiceId a \<in> set (sr_instIDs sr) then Some (ServiceId a)
          else index_or_panic (sr_instIDs sr) 0)"

section \<open>Invariant\<close>

text \<open>
  The list of identifiers enumerates the instances, and the hash ring holds the instances with
  options, in the order of their keys.
\<close>

definition router_inv :: "skymeshNameRouter \<Rightarrow> bool" where
  "router_inv sr \<longleftrightarrow> mwf (sr_instAddrs sr) \<and> mwf (sr_instOpts sr) \<and> mwf (sr_instAttrs sr) \<and> mwf (sr_watchers sr) \<and>
     distinct (sr_instIDs sr) \<and> set (sr_instIDs sr) = set (mkeys (sr_instAddrs sr)) \<and>
     sr_ConsHashList sr = sr_ConsHashList (sr_refreshConsHashList sr)"

lemma router_invD:
  assumes "router_inv sr"
  shows "mwf (sr_instAddrs sr)" "mwf (sr_instOpts sr)" "mwf (sr_instAttrs sr)" "mwf (sr_watchers sr)"
    "distinct (sr_instIDs sr)" "set (sr_instIDs sr) = set (mkeys (sr_instAddrs sr))"
    "sr_ConsHashList sr = sr_ConsHashList (sr_refreshConsHashList sr)"
  using assms by (simp_all add: router_inv_def)

lemma refresh_fields [simp]:
  "sr_instAddrs (sr_refreshConsHashList sr) = sr_instAddrs sr"
  "sr_instOpts (sr_refreshConsHashList sr) = sr_instOpts sr"
  "sr_instAttrs (sr_refreshConsHashList sr) = sr_instAttrs sr"
  "sr_watchers (sr_refreshConsHashList sr) = sr_watchers sr"
  "sr_instIDs (sr_refreshConsHashList sr) = sr_instIDs sr"
  "sr_state (sr_refreshConsHashList sr) = sr_state sr"
  "sr_svcName (sr_refreshConsHashList sr) = sr_svcName sr"
  "sr_loopSeq (sr_refreshConsHashList sr) = sr_loopSeq sr"
  by (simp_all add: sr_refreshConsHashList_def)

lemma refresh_ring:
  "sr_ConsHashList (sr_refreshConsHashList sr) =
     sort_key ch_key (map (\<lambda>(i, opts). \<lparr>ch_key = ConsistentHashKey opts, ch_instID = i\<rparr>) (sr_instOpts sr))"
  by (simp add: sr_refreshConsHashList_def)

lemma router_inv_new: "router_inv (newNameRouter n)"
  by (simp add: router_inv_def newNameRouter_def refresh_ring)

lemma router_inv_Watch: "router_inv sr \<Longrightarrow> router_inv (fst (sr_Watch sr w))"
  by (simp add: router_inv_def sr_Watch_def refresh_ring)

lemma router_inv_UnWatch: "router_inv sr \<Longrightarrow> router_inv (sr_UnWatch sr w)"
  by (simp add: router_inv_def sr_UnWatch_def refresh_ring)

lemma router_inv_AddInstsAddr: "router_inv sr \<Longrightarrow> router_inv (sr_AddInstsAddr sr i a)"
  by (auto simp: router_inv_def sr_AddInstsAddr_def refresh_ring mget_None_keys)

lemma router_inv_AddInstsOpts: "router_inv sr \<Longrightarrow> router_inv (sr_AddInstsOpts sr i opts)"
  by (auto simp: router_inv_def sr_AddInstsOpts_def refresh_ring)

lemma router_inv_notifyChange: "router_inv sr \<Longrightarrow> router_inv (fst (sr_notifyInstsChange sr on h i opts))"
  by (auto simp: router_inv_def sr_notifyInstsChange_def refresh_ring Let_def mget_None_keys split: option.splits)

lemma router_inv_notifyAttrs: "router_inv sr \<Longrightarrow> router_inv (fst (sr_notifyInstsAttrs sr i attrs))"
  by (auto simp: router_inv_def sr_notifyInstsAttrs_def refresh_ring split: option.splits)

lemma router_inv_AddInstsAttr: "router_inv sr \<Longrightarrow> router_inv (sr_AddInstsAttr sr i attrs)"
  by (auto simp: router_inv_def sr_AddInstsAttr_def refresh_ring)

lemma router_inv_setState: "router_inv sr \<Longrightarrow> router_inv (sr_setState sr st)"
  by (auto simp: router_inv_def sr_setState_def refresh_ring)

section \<open>The hash ring\<close>

definition pick_ring :: "u64 \<Rightarrow> ConsistentHashInfo list \<Rightarrow> ConsistentHashInfo" where
  "pick_ring key xs = (case dropWhile (\<lambda>e. \<not> key < ch_key e) xs of [] \<Rightarrow> hd xs | e # _ \<Rightarrow> e)"

lemma shareIdx_loop_eq:
  "shareIdx_loop key i xs = (if dropWhile (\<lambda>e. \<not> key < ch_key e) xs = [] then 0
     else i + length (takeWhile (\<lambda>e. \<not> key < ch_key e) xs))"
  by (induction xs arbitrary: i) auto

lemma pick_ring_nth:
  assumes "xs \<noteq> []"
  shows "shareIdx_loop key 0 xs < length xs" "xs ! shareIdx_loop key 0 xs = pick_ring key xs"
proof -
  let ?P = "\<lambda>e. \<not> key < ch_key e"
  have split: "takeWhile ?P xs @ dropWhile ?P xs = xs" by simp
  have "length (takeWhile ?P xs) < length xs \<and> xs ! length (takeWhile ?P xs) = hd (dropWhile ?P xs)"
    if "dropWhile ?P xs \<noteq> []"
    using that split by (metis hd_conv_nth length_append length_greater_0_conv less_add_same_cancel1
        nth_append_length_plus add.right_neutral)
  then show "shareIdx_loop key 0 xs < length xs" "xs ! shareIdx_loop key 0 xs = pick_ring key xs"
    unfolding shareIdx_loop_eq pick_ring_def using assms
    by (cases "dropWhile ?P xs"; simp add: hd_conv_nth del: dropWhile_eq_Nil_conv)+
qed

lemma ConsistentHash_pick:
  assumes "sr_instIDs sr \<noteq> []" "sr_state sr = NameRouterReady" "sr_ConsHashList sr \<noteq> []"
  shows "SelectRouterByConsistentHash sr key = Some (ch_instID (pick_ring key (sr_ConsHashList sr)))"
  using assms pick_ring_nth [OF assms(3), of key]
  by (simp add: SelectRouterByConsistentHash_def index_or_panic_def)

text \<open>The selected entry is the next one clockwise on the ring of keys.\<close>

definition ring_next :: "u64 \<Rightarrow> ConsistentHashInfo set \<Rightarrow> ConsistentHashInfo \<Rightarrow> bool" where
  "ring_next key X e \<longleftrightarrow> e \<in> X \<and>
     (if \<exists>x \<in> X. key < ch_key x then key < ch_key e \<and> (\<forall>x \<in> X. key < ch_key x \<longrightarrow> ch_key e \<le> ch_key x)
      else \<forall>x \<in> X. ch_key e \<le> ch_key x)"

lemma pick_ring_next:
  assumes "sorted (map ch_key xs)" "xs \<noteq> []"
  shows "ring_next key (set xs) (pick_ring key xs)"
proof -
  let ?P = "\<lambda>e. \<not> key < ch_key e"
  have split: "takeWhile ?P xs @ dropWhile ?P xs = xs" by simp
  show ?thesis
  proof (cases "dropWhile ?P xs")
    case Nil
    then have "\<forall>x \<in> set xs. \<not> key < ch_key x" by (simp add: dropWhile_eq_Nil_conv)
    moreover obtain y ys where xs: "xs = y # ys" using assms(2) by (cases xs) auto
    moreover have "pick_ring key xs = hd xs" unfolding pick_ring_def Nil by simp
    ultimately show ?thesis using assms(1) by (auto simp: ring_next_def)
  next
    case (Cons e es)
    then have e: "key < ch_key e" by (metis dropWhile_eq_Cons_conv)
    have "sorted (map ch_key (takeWhile ?P xs @ e # es))" using assms(1) split Cons by metis
    then have "\<forall>x \<in> set es. ch_key e \<le> ch_key x" by (simp add: sorted_append)
    moreover have "\<forall>x \<in> set (takeWhile ?P xs). \<not> key < ch_key x" by (auto dest: set_takeWhileD)
    moreover have "set xs = set (takeWhile ?P xs) \<union> set (e # es)" using split Cons by (metis set_append)
    ultimately show ?thesis using e Cons by (auto simp: pick_ring_def ring_next_def)
  qed
qed

text \<open>Removing entries other than the selected one does not change the selection.\<close>

lemma pick_ring_filter:
  assumes "Q (pick_ring key xs)" "xs \<noteq> []"
  shows "pick_ring key (filter Q xs) = pick_ring key xs"
proof -
  let ?P = "\<lambda>e. \<not> key < ch_key e"
  have split: "takeWhile ?P xs @ dropWhile ?P xs = xs" by simp
  have tk: "\<forall>x \<in> set (takeWhile ?P xs). ?P x" by (auto dest: set_takeWhileD)
  show ?thesis
  proof (cases "dropWhile ?P xs")
    case Nil
    then have all: "\<forall>x \<in> set xs. ?P x" by (simp add: dropWhile_eq_Nil_conv)
    obtain y ys where xs: "xs = y # ys" using assms(2) by (cases xs) auto
    with Nil assms(1) have "Q y" by (simp add: pick_ring_def)
    moreover have "dropWhile ?P (filter Q xs) = []" using all by (simp add: dropWhile_eq_Nil_conv)
    ultimately show ?thesis using Nil xs by (simp add: pick_ring_def)
  next
    case (Cons e es)
    then have e: "key < ch_key e" by (metis dropWhile_eq_Cons_conv)
    have "Q e" using assms(1) Cons by (simp add: pick_ring_def)
    then have "filter Q xs = filter Q (takeWhile ?P xs) @ e # filter Q es"
      using split Cons by (metis filter.simps(2) filter_append)
    then have "dropWhile ?P (filter Q xs) = e # filter Q es"
      using dropWhile_append2 [of "filter Q (takeWhile ?P xs)" ?P] tk e by auto
    then show ?thesis using Cons by (simp add: pick_ring_def)
  qed
qed

lemma ring_sorted: "router_inv sr \<Longrightarrow> sorted (map ch_key (sr_ConsHashList sr))"
  using router_invD(7) [of sr] refresh_ring [of sr] sorted_sort_key by metis

lemma ring_offline:
  assumes inv: "router_inv sr" and j: "mget (sr_instAddrs sr) j \<noteq> None"
  shows "sr_ConsHashList (fst (sr_notifyInstsChange sr False h j opts)) =
    filter (\<lambda>e. ch_instID e \<noteq> j) (sr_ConsHashList sr)"
proof -
  let ?f = "\<lambda>(i, opts). \<lparr>ch_key = ConsistentHashKey opts, ch_instID = i\<rparr>"
  have "map ?f (mdel j (sr_instOpts sr)) = filter (\<lambda>e. ch_instID e \<noteq> j) (map ?f (sr_instOpts sr))"
    by (simp add: mdel_def filter_map o_def split_def)
  then show ?thesis using j router_invD(7) [OF inv]
    by (auto simp: sr_notifyInstsChange_def Let_def refresh_ring filter_sort split: option.splits)
qed

lemma mput_absent: "mget m k = None \<Longrightarrow> mput k v m = m @ [(k, v)]"
  by (induction m) (auto split: if_splits)

lemma ring_online:
  assumes inv: "router_inv sr" and j: "mget (sr_instAddrs sr) j = None" and o: "mget (sr_instOpts sr) j = None"
  shows "filter (\<lambda>e. ch_instID e \<noteq> j) (sr_ConsHashList (fst (sr_notifyInstsChange sr True h j opts))) = sr_ConsHashList sr"
proof -
  let ?f = "\<lambda>(i, opts). \<lparr>ch_key = ConsistentHashKey opts, ch_instID = i\<rparr>"
  have "j \<notin> fst ` set (sr_instOpts sr)" using o by (simp add: map_of_eq_None_iff)
  then have "filter (\<lambda>e. ch_instID e \<noteq> j) (map ?f (sr_instOpts sr)) = map ?f (sr_instOpts sr)"
    by (force simp: filter_id_conv)
  then have "filter (\<lambda>e. ch_instID e \<noteq> j) (map ?f (mput j opts (sr_instOpts sr))) = map ?f (sr_instOpts sr)"
    by (simp add: mput_absent [OF o])
  then show ?thesis using j router_invD(7) [OF inv]
    by (simp add: sr_notifyInstsChange_def Let_def refresh_ring filter_sort)
qed

section \<open>Round robin\<close>

lemma go_rem_pos: "0 \<le> a \<Longrightarrow> 0 < b \<Longrightarrow> go_rem a b = a mod b"
  by (cases "a = 0") (simp_all add: go_rem_def)

lemma SelectRouterByLoop_step:
  assumes "sr_instIDs sr \<noteq> []" "sr_state sr = NameRouterReady" "0 \<le> sr_loopSeq sr"
  shows "SelectRouterByLoop sr = Some (sr\<lparr>sr_loopSeq := go_inc (sr_loopSeq sr)\<rparr>,
     sr_instIDs sr ! (nat (sr_loopSeq sr) mod length (sr_instIDs sr)))"
proof -
  have "0 < int (length (sr_instIDs sr))" using assms(1) by simp
  moreover have "nat (sr_loopSeq sr mod int (length (sr_instIDs sr))) = nat (sr_loopSeq sr) mod length (sr_instIDs sr)"
    using assms(3) by (simp add: nat_mod_distrib)
  ultimately show ?thesis using assms
    by (simp add: SelectRouterByLoop_def index_or_panic_def go_rem_pos Let_def)
qed

fun select_n :: "nat \<Rightarrow> skymeshNameRouter \<Rightarrow> (skymeshNameRouter \<times> u64 list) option" where
  "select_n 0 sr = Some (sr, [])"
| "select_n (Suc n) sr = do {
     (sr, i) \<leftarrow> SelectRouterByLoop sr;
     (sr, is) \<leftarrow> select_n n sr;
     Some (sr, i # is) }"

lemma select_n_cycle:
  assumes "sr_instIDs sr \<noteq> []" "sr_state sr = NameRouterReady" "0 \<le> sr_loopSeq sr"
    and "sr_loopSeq sr + int n < 2 ^ 63"
  shows "select_n n sr = Some (sr\<lparr>sr_loopSeq := sr_loopSeq sr + int n\<rparr>,
    map (\<lambda>k. sr_instIDs sr ! ((nat (sr_loopSeq sr) + k) mod length (sr_instIDs sr))) [0..<n])"
  using assms
proof (induction n arbitrary: sr)
  case (Suc n)
  let ?sr = "sr\<lparr>sr_loopSeq := sr_loopSeq sr + 1\<rparr>"
  have inc: "go_inc (sr_loopSeq sr) = sr_loopSeq sr + 1" using Suc.prems(4) by (simp add: go_inc_def)
  have up: "[0..<Suc n] = 0 # map Suc [0..<n]" by (metis map_Suc_upt upt_conv_Cons zero_less_Suc)
  have "nat (sr_loopSeq sr + 1) + k = nat (sr_loopSeq sr) + Suc k" for k using Suc.prems(3) by simp
  then have "select_n n ?sr = Some (sr\<lparr>sr_loopSeq := sr_loopSeq sr + int (Suc n)\<rparr>,
    map (\<lambda>k. sr_instIDs sr ! ((nat (sr_loopSeq sr) + Suc k) mod length (sr_instIDs sr))) [0..<n])"
    using Suc.IH [of ?sr] Suc.prems by (simp add: add_ac)
  then show ?case unfolding up using SelectRouterByLoop_step [OF Suc.prems(1-3)] inc
    by (simp add: o_def)
qed simp

lemma cycle_is_permutation:
  assumes "xs \<noteq> []"
  shows "mset (map (\<lambda>k. xs ! ((q + k) mod length xs)) [0..<length xs]) = mset xs"
proof -
  let ?n = "length xs"
  have "map (\<lambda>k. xs ! ((q + k) mod ?n)) [0..<?n] = rotate (q mod ?n) xs"
  proof (rule nth_equalityI)
    fix i assume "i < length (map (\<lambda>k. xs ! ((q + k) mod ?n)) [0..<?n])"
    then have "i < ?n" by simp
    then show "map (\<lambda>k. xs ! ((q + k) mod ?n)) [0..<?n] ! i = rotate (q mod ?n) xs ! i"
      by (simp add: nth_rotate mod_add_left_eq)
  qed simp
  moreover have "mset (rotate k xs) = mset xs" for k
    unfolding rotate_drop_take by (metis add.commute append_take_drop_id mset_append)
  ultimately show ?thesis by metis
qed

section \<open>Runs of a router\<close>

text \<open>
  What happens to a router after its creation: \<open>AddInst\<close> is the group of calls
  \<open>GetNameRouter\<close> makes for every known instance, the others come from name-server events
  and from the application.
\<close>

datatype RouterOp =
    AddInst u64 Addr ServiceAttr ServiceOptions
  | InstChange bool u64 u64 ServiceOptions
  | InstAttrs u64 ServiceAttr
  | WatchBy nat
  | UnWatchBy nat
  | SetState AgentRouterState

fun router_op :: "skymeshNameRouter \<Rightarrow> RouterOp \<Rightarrow> skymeshNameRouter \<times> RouterCall list" where
  "router_op sr (AddInst i a attrs opts) =
     (sr_AddInstsOpts (sr_AddInstsAttr (sr_AddInstsAddr sr i a) i attrs) i opts, [])"
| "router_op sr (InstChange on h i opts) = sr_notifyInstsChange sr on h i opts"
| "router_op sr (InstAttrs i attrs) = sr_notifyInstsAttrs sr i attrs"
| "router_op sr (WatchBy w) = sr_Watch sr w"
| "router_op sr (UnWatchBy w) = (sr_UnWatch sr w, [])"
| "router_op sr (SetState st) = (sr_setState sr st, [])"

fun router_ops :: "skymeshNameRouter \<Rightarrow> RouterOp list \<Rightarrow> skymeshNameRouter \<times> RouterCall list" where
  "router_ops sr [] = (sr, [])"
| "router_ops sr (op # ops) =
     (let (sr, cs) = router_op sr op; (sr, ds) = router_ops sr ops in (sr, cs @ ds))"

text \<open>Addresses are filed under their own identifier, and every instance has options.\<close>

definition insts_ok :: "skymeshNameRouter \<Rightarrow> bool" where
  "insts_ok sr \<longleftrightarrow> router_inv sr \<and> (\<forall>i a. mget (sr_instAddrs sr) i = Some a \<longrightarrow> ServiceId a = i) \<and>
     set (mkeys (sr_instOpts sr)) = set (mkeys (sr_instAddrs sr))"

fun op_ok :: "RouterOp \<Rightarrow> bool" where
  "op_ok (AddInst i a attrs opts) = (ServiceId a = i)"
| "op_ok _ = True"

lemma refresh_inv: "router_inv sr \<Longrightarrow> router_inv (sr_refreshConsHashList sr)"
  by (simp add: router_inv_def refresh_ring)

lemma insts_ok_op:
  assumes "insts_ok sr" "op_ok op"
  shows "insts_ok (fst (router_op sr op))"
proof -
  have "router_inv (fst (router_op sr op))"
    using assms(1) by (cases op) (simp_all add: insts_ok_def router_inv_AddInstsOpts router_inv_AddInstsAttr
        router_inv_AddInstsAddr router_inv_notifyChange router_inv_notifyAttrs router_inv_Watch
        router_inv_UnWatch router_inv_setState)
  then show ?thesis using assms
    by (cases op) (auto simp: insts_ok_def sr_AddInstsAddr_def sr_AddInstsAttr_def sr_AddInstsOpts_def
        sr_notifyInstsChange_def sr_notifyInstsAttrs_def sr_Watch_def sr_UnWatch_def sr_setState_def Let_def
        in_mkeys_iff split: option.splits if_splits)
qed

lemma insts_ok_ops:
  "insts_ok sr \<Longrightarrow> \<forall>op \<in> set ops. op_ok op \<Longrightarrow> insts_ok (fst (router_ops sr ops))"
proof (induction ops arbitrary: sr)
  case (Cons op ops)
  from insts_ok_op [OF Cons.prems(1), of op] Cons.prems(2) have "insts_ok (fst (router_op sr op))" by simp
  from Cons.IH [OF this] Cons.prems(2) show ?case by (simp add: split_def Let_def)
qed simp

lemma insts_ok_new: "insts_ok (newNameRouter n)"
  by (simp add: insts_ok_def router_inv_new) (simp add: newNameRouter_def)

lemma insts_okD:
  assumes "insts_ok sr"
  shows "router_inv sr" "set (mkeys (sr_instOpts sr)) = set (sr_instIDs sr)"
  using assms router_invD(6) [of sr] by (auto simp: insts_ok_def)

lemma ring_ids:
  assumes "router_inv sr"
  shows "ch_instID ` set (sr_ConsHashList sr) = set (mkeys (sr_instOpts sr))"
  using router_invD(7) [OF assms] by (force simp: refresh_ring mkeys_def image_image split_def)

lemma ring_nonempty:
  assumes "insts_ok sr" "sr_instIDs sr \<noteq> []"
  shows "sr_ConsHashList sr \<noteq> []"
  using ring_ids [OF insts_okD(1) [OF assms(1)]] insts_okD(2) [OF assms(1)] assms(2) by force

lemma pick_ring_mem: "xs \<noteq> [] \<Longrightarrow> pick_ring key xs \<in> set xs"
  using pick_ring_nth [of xs key] nth_mem by metis

text \<open>The map of instances a watcher builds from the calls it receives.\<close>

fun view :: "nat \<Rightarrow> (u64 \<rightharpoonup> Addr) \<Rightarrow> RouterCall list \<Rightarrow> (u64 \<rightharpoonup> Addr)" where
  "view w m [] = m"
| "view w m (OnInstOnline v a # cs) = view w (if v = w then m(ServiceId a \<mapsto> a) else m) cs"
| "view w m (OnInstOffline v a # cs) = view w (if v = w then m(ServiceId a := None) else m) cs"
| "view w m (OnInstSyncAttr v a attrs # cs) = view w m cs"

lemma view_append [simp]: "view w m (xs @ ys) = view w (view w m xs) ys"
  by (induction w m xs rule: view.induct) auto

lemma view_online:
  "view w m (map (\<lambda>v. OnInstOnline v a) ws) = (if w \<in> set ws then m(ServiceId a \<mapsto> a) else m)"
  by (induction ws arbitrary: m) auto

lemma view_offline:
  "view w m (map (\<lambda>v. OnInstOffline v a) ws) = (if w \<in> set ws then m(ServiceId a := None) else m)"
  by (induction ws arbitrary: m) auto

lemma view_attr: "view w m (map (\<lambda>v. OnInstSyncAttr v a attrs) ws) = m"
  by (induction ws arbitrary: m) auto

lemma view_replay:
  "mwf xs \<Longrightarrow> \<forall>(i, a) \<in> set xs. ServiceId a = i \<Longrightarrow> view w m (map (OnInstOnline w) (mvals xs)) = m ++ mget xs"
proof (induction xs arbitrary: m)
  case (Cons p xs)
  obtain i a where p: "p = (i, a)" by fastforce
  have "mget xs i = None" using Cons.prems(1) p by (auto simp: mwf_def map_of_eq_None_iff)
  then have "m(i \<mapsto> a) ++ mget xs = m ++ mget (p # xs)"
    by (auto simp: p map_add_def fun_eq_iff split: option.split)
  moreover have "view w (m(i \<mapsto> a)) (map (OnInstOnline w) (mvals xs)) = m(i \<mapsto> a) ++ mget xs"
    by (rule Cons.IH) (use Cons.prems p in \<open>auto simp: mwf_def\<close>)
  moreover have "ServiceId a = i" using Cons.prems(2) p by simp
  ultimately show ?case by (simp add: p del: map_of.simps)
qed simp

lemma view_replay_other: "v \<noteq> w \<Longrightarrow> view w m (map (OnInstOnline v) as) = m"
  by (induction as arbitrary: m) auto

lemma insts_ok_addrs: "insts_ok sr \<Longrightarrow> mwf (sr_instAddrs sr) \<and> (\<forall>(i, a) \<in> set (sr_instAddrs sr). ServiceId a = i)"
  using mget_in_set [of "sr_instAddrs sr"] by (auto simp: insts_ok_def router_inv_def)

definition is_AddInst :: "RouterOp \<Rightarrow> bool" where
  "is_AddInst op = (case op of AddInst _ _ _ _ \<Rightarrow> True | _ \<Rightarrow> False)"

lemma view_op:
  assumes ok: "insts_ok sr" and w: "w \<in> set (mkeys (sr_watchers sr))" and op: "\<not> is_AddInst op" "op \<noteq> UnWatchBy w"
  shows "view w (mget (sr_instAddrs sr)) (snd (router_op sr op)) = mget (sr_instAddrs (fst (router_op sr op)))"
    and "w \<in> set (mkeys (sr_watchers (fst (router_op sr op))))"
proof -
  have "m ++ m = m" for m :: "u64 \<rightharpoonup> Addr" by (auto simp: map_add_def fun_eq_iff split: option.split)
  then have "view w (mget (sr_instAddrs sr)) (map (OnInstOnline v) (mvals (sr_instAddrs sr))) = mget (sr_instAddrs sr)" for v
    using view_replay [of "sr_instAddrs sr" v] view_replay_other [of v w] insts_ok_addrs [OF ok] by (cases "v = w") auto
  then show "view w (mget (sr_instAddrs sr)) (snd (router_op sr op)) = mget (sr_instAddrs (fst (router_op sr op)))"
    using ok op w by (cases op) (auto simp: is_AddInst_def sr_notifyInstsChange_def sr_notifyInstsAttrs_def
        sr_Watch_def sr_UnWatch_def sr_setState_def Let_def view_online view_offline view_attr insts_ok_def fun_eq_iff
        split: option.splits)
  show "w \<in> set (mkeys (sr_watchers (fst (router_op sr op))))"
    using op w by (cases op) (auto simp: is_AddInst_def sr_notifyInstsChange_def sr_notifyInstsAttrs_def
        sr_Watch_def sr_UnWatch_def sr_setState_def Let_def split: option.splits)
qed

lemma view_ops:
  assumes "insts_ok sr" "w \<in> set (mkeys (sr_watchers sr))" "\<forall>op \<in> set ops. \<not> is_AddInst op" "UnWatchBy w \<notin> set ops"
  shows "view w (mget (sr_instAddrs sr)) (snd (router_ops sr ops)) = mget (sr_instAddrs (fst (router_ops sr ops)))"
  using assms
proof (induction ops arbitrary: sr)
  case (Cons op ops)
  have op: "\<not> is_AddInst op" "op \<noteq> UnWatchBy w" "op_ok op"
    using Cons.prems(3,4) by (auto simp: is_AddInst_def split: RouterOp.splits)
  note v = view_op [OF Cons.prems(1,2) op(1,2)]
  from Cons.IH [OF insts_ok_op [OF Cons.prems(1) op(3)] v(2)] Cons.prems(3,4) v(1)
  show ?case by (simp add: split_def Let_def)
qed simp

section \<open>Properties\<close>


definition ex_router :: skymeshNameRouter where
  "ex_router = fst (router_ops (newNameRouter ''svc'')
     [InstChange True 71 1 \<lparr>ConsistentHashKey = 100\<rparr>, InstChange True 72 2 \<lparr>ConsistentHashKey = 200\<rparr>,
      InstChange True 73 3 \<lparr>ConsistentHashKey = 300\<rparr>])"

lemma ex_router_ok: "insts_ok ex_router"
  unfolding ex_router_def by (rule insts_ok_ops [OF insts_ok_new]) simp

lemma ex_router_state: "sr_instIDs ex_router = [1, 2, 3]" "sr_state ex_router = NameRouterReady" "sr_loopSeq ex_router = 0"
  by (simp_all add: ex_router_def newNameRouter_def sr_notifyInstsChange_def Let_def)


text \<open>
  C26: Consistent hashing selects the next instance clockwise: for a ready router with instances, the
  selection never fails and returns the instance with the smallest hash key above the given key, or
  the one with the smallest key of all when there is none above.
\<close>

theorem consistent_hash_next:
  assumes "insts_ok sr" "sr_instIDs sr \<noteq> []" "sr_state sr = NameRouterReady"
  shows "\<exists>e. ring_next key (set (sr_ConsHashList sr)) e \<and> ch_instID e \<in> set (sr_instIDs sr) \<and>
    SelectRouterByConsistentHash sr key = Some (ch_instID e)"
proof -
  let ?e = "pick_ring key (sr_ConsHashList sr)"
  have ne: "sr_ConsHashList sr \<noteq> []" by (rule ring_nonempty [OF assms(1,2)])
  have inv: "router_inv sr" by (rule insts_okD(1) [OF assms(1)])
  have "ch_instID ?e \<in> set (sr_instIDs sr)"
    using pick_ring_mem [OF ne, of key] ring_ids [OF inv] insts_okD(2) [OF assms(1)] by force
  then show ?thesis using pick_ring_next [OF ring_sorted [OF inv] ne] ConsistentHash_pick [OF assms(2,3) ne] by blast
qed

theorem consistent_hash_next_witness:
  "SelectRouterByConsistentHash ex_router 250 = Some 3 \<and> SelectRouterByConsistentHash ex_router 300 = Some 1"
proof -
  have "set (sr_ConsHashList ex_router) = {\<lparr>ch_key = 100, ch_instID = 1\<rparr>, \<lparr>ch_key = 200, ch_instID = 2\<rparr>, \<lparr>ch_key = 300, ch_instID = 3\<rparr>}"
    using router_invD(7) [OF insts_okD(1) [OF ex_router_ok]]
    by (auto simp: refresh_ring) (auto simp: ex_router_def newNameRouter_def sr_notifyInstsChange_def Let_def)
  with consistent_hash_next [OF ex_router_ok, of 250] consistent_hash_next [OF ex_router_ok, of 300] ex_router_state
  show ?thesis by (auto simp: ring_next_def)
qed

lemma ring_hash_offline:
  assumes "insts_ok sr" "sr_instIDs sr \<noteq> []" "sr_state sr = NameRouterReady"
    and "SelectRouterByConsistentHash sr key = Some i" and ji: "j \<noteq> i"
  shows "SelectRouterByConsistentHash (fst (sr_notifyInstsChange sr False h j opts)) key = Some i"
proof -
  have inv: "router_inv sr" and ne: "sr_ConsHashList sr \<noteq> []"
    by (rule insts_okD(1) [OF assms(1)], rule ring_nonempty [OF assms(1,2)])
  have i: "i = ch_instID (pick_ring key (sr_ConsHashList sr))" using ConsistentHash_pick [OF assms(2,3) ne] assms(4) by simp
  show ?thesis
  proof (cases "mget (sr_instAddrs sr) j")
    case (Some a)
    let ?sr = "fst (sr_notifyInstsChange sr False h j opts)"
    have ring: "sr_ConsHashList ?sr = filter (\<lambda>e. ch_instID e \<noteq> j) (sr_ConsHashList sr)"
      using ring_offline [OF inv] Some by simp
    have "i \<in> set (sr_instIDs sr)" using i pick_ring_mem [OF ne, of key] ring_ids [OF inv] insts_okD(2) [OF assms(1)] by force
    then have ids: "sr_instIDs ?sr \<noteq> []" "sr_state ?sr = NameRouterReady"
      using Some ji assms(3) in_set_remove1 [of i j "sr_instIDs sr"]
      by (auto simp: sr_notifyInstsChange_def Let_def simp del: in_set_remove1)
    have "pick_ring key (sr_ConsHashList sr) \<in> set (sr_ConsHashList ?sr)" using ring pick_ring_mem [OF ne] i ji by auto
    then have "sr_ConsHashList ?sr \<noteq> []" by auto
    from ConsistentHash_pick [OF ids this] pick_ring_filter [of "\<lambda>e. ch_instID e \<noteq> j" key, OF _ ne] ring i ji
    show ?thesis by simp
  qed (use assms(4) in \<open>simp add: sr_notifyInstsChange_def\<close>)
qed

lemma ring_hash_online:
  assumes "insts_ok sr" "sr_instIDs sr \<noteq> []" "sr_state sr = NameRouterReady"
    and "SelectRouterByConsistentHash sr key = Some i"
  shows "SelectRouterByConsistentHash (fst (sr_notifyInstsChange sr True h j opts)) key \<in> {Some i, Some j}"
proof -
  have inv: "router_inv sr" and ne: "sr_ConsHashList sr \<noteq> []"
    by (rule insts_okD(1) [OF assms(1)], rule ring_nonempty [OF assms(1,2)])
  have i: "i = ch_instID (pick_ring key (sr_ConsHashList sr))" using ConsistentHash_pick [OF assms(2,3) ne] assms(4) by simp
  show ?thesis
  proof (cases "mget (sr_instAddrs sr) j")
    case None
    let ?sr = "fst (sr_notifyInstsChange sr True h j opts)"
    have ids: "sr_instIDs ?sr \<noteq> []" "sr_state ?sr = NameRouterReady"
      using None by (simp_all add: sr_notifyInstsChange_def Let_def)
    have ok: "insts_ok ?sr" using insts_ok_op [OF assms(1), of "InstChange True h j opts"] by simp
    note ne' = ring_nonempty [OF ok ids(1)]
    have "mget (sr_instOpts sr) j = None" using assms(1) None by (auto simp: insts_ok_def mget_None_keys)
    from ring_online [OF inv None this, of h opts]
    have "ch_instID (pick_ring key (sr_ConsHashList ?sr)) \<noteq> j \<Longrightarrow>
        pick_ring key (sr_ConsHashList sr) = pick_ring key (sr_ConsHashList ?sr)"
      using pick_ring_filter [of "\<lambda>e. ch_instID e \<noteq> j" key, OF _ ne'] by simp
    then show ?thesis using ConsistentHash_pick [OF ids ne'] i by auto
  qed (use assms(4) in \<open>simp add: sr_notifyInstsChange_def\<close>)
qed



text \<open>
  Selection in turn is fair: as many consecutive selections as there are instances return every
  instance exactly once, from any position of the 63-bit counter short of its end.
\<close>

theorem round_robin_fair:
  assumes "router_inv sr" "sr_instIDs sr \<noteq> []" "sr_state sr = NameRouterReady"
    and "0 \<le> sr_loopSeq sr" "sr_loopSeq sr + int (length (sr_instIDs sr)) < 2 ^ 63"
  shows "\<exists>sr' is. select_n (length (sr_instIDs sr)) sr = Some (sr', is) \<and> distinct is \<and>
    set is = set (mkeys (sr_instAddrs sr))"
proof -
  let ?is = "map (\<lambda>k. sr_instIDs sr ! ((nat (sr_loopSeq sr) + k) mod length (sr_instIDs sr))) [0..<length (sr_instIDs sr)]"
  have m: "mset ?is = mset (sr_instIDs sr)" by (rule cycle_is_permutation [OF assms(2)])
  then have "distinct ?is" "set ?is = set (mkeys (sr_instAddrs sr))"
    using router_invD(5,6) [OF assms(1)] mset_eq_imp_distinct_iff [OF m] mset_eq_setD [OF m] by simp_all
  then show ?thesis using select_n_cycle [OF assms(2-5)] by blast
qed

theorem round_robin_fair_witness:
  "\<exists>sr' is. select_n 3 ex_router = Some (sr', is) \<and> distinct is \<and> length is = 3"
proof -
  obtain sr' "is" where r: "select_n (length (sr_instIDs ex_router)) ex_router = Some (sr', is)" "distinct is"
    "set is = set (mkeys (sr_instAddrs ex_router))"
    using round_robin_fair [OF insts_okD(1) [OF ex_router_ok]] by (auto simp: ex_router_state)
  have "set is = set (sr_instIDs ex_router)" using r(3) router_invD(6) [OF insts_okD(1) [OF ex_router_ok]] by simp
  then have "length is = 3" using distinct_card [OF r(2)] by (simp add: ex_router_state)
  moreover have "select_n 3 ex_router = Some (sr', is)" using r(1) by (simp add: ex_router_state numeral_3_eq_3)
  ultimately show ?thesis using r(2) by blast
qed

text \<open>
  The counter of the selection in turn is never reset: once it has passed the largest 64-bit
  integer it is negative, and a selection then panics with an index out of range unless the number
  of instances divides the counter.
\<close>

theorem round_robin_overflow:
  assumes "sr_instIDs sr \<noteq> []" "sr_state sr = NameRouterReady"
  shows "(sr_loopSeq sr = 2 ^ 63 - 1 \<longrightarrow>
      map_option (\<lambda>(sr', i). sr_loopSeq sr') (SelectRouterByLoop sr) = Some (- (2 ^ 63))) \<and>
    (sr_loopSeq sr < 0 \<longrightarrow> (SelectRouterByLoop sr = None \<longleftrightarrow> \<not> int (length (sr_instIDs sr)) dvd sr_loopSeq sr))"
proof -
  let ?n = "int (length (sr_instIDs sr))"
  have n: "0 < ?n" using assms(1) by simp
  define m where "m = (- sr_loopSeq sr) mod ?n"
  have "go_rem (sr_loopSeq sr) ?n = - m" if "sr_loopSeq sr < 0" using that by (simp add: go_rem_def m_def)
  moreover have "m = 0 \<longleftrightarrow> ?n dvd sr_loopSeq sr" by (simp add: m_def dvd_eq_mod_eq_0 [symmetric])
  moreover have "0 \<le> m" using n by (simp add: m_def)
  ultimately have "SelectRouterByLoop sr = None \<longleftrightarrow> \<not> ?n dvd sr_loopSeq sr" if "sr_loopSeq sr < 0"
    using that assms n by (auto simp: SelectRouterByLoop_def index_or_panic_def Let_def)
  then show ?thesis using SelectRouterByLoop_step [OF assms] by (auto simp: go_inc_def)
qed

theorem round_robin_overflow_witness:
  "SelectRouterByLoop (ex_router\<lparr>sr_loopSeq := - (2 ^ 63)\<rparr>) = None"
  using round_robin_overflow [of "ex_router\<lparr>sr_loopSeq := - (2 ^ 63)\<rparr>"] by (simp add: ex_router_state)

text \<open>
  A watcher can miss an instance: when \<open>GetNameRouter\<close> adds an instance to the router before the event
  that announces it is handled, the event finds the instance and calls nobody.
\<close>

theorem router_watcher_missed:
  assumes "mget (sr_instAddrs sr) i = None"
  shows "snd (router_ops sr [AddInst i a attrs opts, InstChange True h i opts']) = [] \<and>
    mget (sr_instAddrs (fst (router_ops sr [AddInst i a attrs opts, InstChange True h i opts']))) i = Some a"
  using assms by (simp add: sr_AddInstsAddr_def sr_AddInstsAttr_def sr_AddInstsOpts_def sr_notifyInstsChange_def)

end
