(* ===== verification/AgentElection.thy ===== *)
theory AgentElection
  imports AgentDefs
begin

text \<open>
  \<^verbatim>\<open>src/agent/election.go\<close>: the view an agent keeps of the election for one service name.
  Candidates and watchers are application objects, identified by numbers; the server rejects
  nil ones before they get here, so every table entry is an object. The calls made on them
  are returned in order. \<open>getService\<close> stands for the server's lookup of a local service.
\<close>

datatype 'v ElectionCall =
    OnRegisterLeader nat "'v option" int
  | OnUnRegisterLeader nat
  | OnLeaderChange nat Addr LeaderChangeEvent

record skymeshElection =
  se_svcName :: string
  se_candidates :: "(u64, nat) gomap"
  se_leader :: "Addr option"
  se_watchers :: "(u64, nat) gomap"

datatype ElectionErr = RunForAgain | NotRunFor | WatchAgain | NotWatch | EmptyCandidate | EmptyWatcher

definition newElection :: "string \<Rightarrow> skymeshElection" where
  "newElection svcName = \<lparr>se_svcName = svcName, se_candidates = [], se_leader = None, se_watchers = []\<rparr>"

definition se_onRegisterApp ::
  "(u64 \<Rightarrow> 'v option) \<Rightarrow> skymeshElection \<Rightarrow> Addr \<Rightarrow> skymeshElection \<times> 'v ElectionCall list" where
  "se_onRegisterApp getService se leader =
     (let se = se\<lparr>se_leader := Some leader\<rparr> in
      (se, (case mget (se_candidates se) (AddrHandle leader) of
              None \<Rightarrow> []
            | Some cand \<Rightarrow> [OnRegisterLeader cand (getService (AddrHandle leader)) KElectionResultOK])
           @ map (\<lambda>w. OnLeaderChange w leader KGotElectionLeader) (mvals (se_watchers se))))"

definition se_onRunForElectionResultNotify ::
  "(u64 \<Rightarrow> 'v option) \<Rightarrow> skymeshElection \<Rightarrow> Addr \<Rightarrow> int \<Rightarrow> skymeshElection \<times> 'v ElectionCall list" where
  "se_onRunForElectionResultNotify getService se candidate result =
     (if result = KElectionResultOK then
        let newLeader = candidate;
            watchers = mvals (se_watchers se);
            oldLeader = se_leader se;
            se = se\<lparr>se_leader := Some newLeader\<rparr>;
            newCan = mget (se_candidates se) (AddrHandle newLeader);
            won = (case newCan of
                     None \<Rightarrow> []
                   | Some c \<Rightarrow> [OnRegisterLeader c (getService (AddrHandle newLeader)) KElectionResultOK])
                  @ map (\<lambda>w. OnLeaderChange w newLeader KGotElectionLeader) watchers
        in case oldLeader of
             None \<Rightarrow> (se, won)
           | Some old \<Rightarrow>
               if AddrHandle old = AddrHandle newLeader then (se, [])
               else
                 let oldCan = mget (se_candidates se) (AddrHandle old);
                     se = se\<lparr>se_candidates := mdel (AddrHandle old) (se_candidates se)\<rparr>
                 in (se, (case oldCan of None \<Rightarrow> [] | Some c \<Rightarrow> [OnUnRegisterLeader c])
                         @ map (\<lambda>w. OnLeaderChange w old KLostElectionLeader) watchers @ won)
      else
        (se, case mget (se_candidates se) (AddrHandle candidate) of
               None \<Rightarrow> []
             | Some can \<Rightarrow> [OnRegisterLeader can (getService (AddrHandle candidate)) result]))"

definition se_onGiveUpElectionResultNotify ::
  "skymeshElection \<Rightarrow> Addr \<Rightarrow> int \<Rightarrow> skymeshElection \<times> 'v ElectionCall list" where
  "se_onGiveUpElectionResultNotify se candidate result =
     (if result = KElectionResultQuitCandidate then
        (se\<lparr>se_candidates := mdel (AddrHandle candidate) (se_candidates se)\<rparr>, [])
      else if result = KElectionResultOK then
        (let can = mget (se_candidates se) (AddrHandle candidate);
             se = se\<lparr>se_candidates := mdel (AddrHandle candidate) (se_candidates se)\<rparr>
         in case se_leader se of
              None \<Rightarrow> (se, [])
            | Some oldLeader \<Rightarrow>
                if AddrHandle oldLeader = AddrHandle candidate then
                  (se\<lparr>se_leader := None\<rparr>,
                   (case can of None \<Rightarrow> [] | Some c \<Rightarrow> [OnUnRegisterLeader c])
                   @ map (\<lambda>w. OnLeaderChange w oldLeader KLostElectionLeader) (mvals (se_watchers se)))
                else (se, []))
      else (se, []))"

definition se_runForElection :: "skymeshElection \<Rightarrow> Addr \<Rightarrow> nat \<Rightarrow> skymeshElection \<times> ElectionErr option" where
  "se_runForElection se srcAddr candidate =
     (if mget (se_candidates se) (AddrHandle srcAddr) \<noteq> None then (se, Some RunForAgain)
      else (se\<lparr>se_candidates := mput (AddrHandle srcAddr) candidate (se_candidates se)\<rparr>, None))"

definition se_giveUpElection :: "skymeshElection \<Rightarrow> Addr \<Rightarrow> ElectionErr option" where
  "se_giveUpElection se srcAddr =
     (if mget (se_candidates se) (AddrHandle srcAddr) = None then Some NotRunFor else None)"

definition se_watchElection ::
  "skymeshElection \<Rightarrow> Addr \<Rightarrow> nat \<Rightarrow> skymeshElection \<times> 'v ElectionCall list \<times> ElectionErr option" where
  "se_watchElection se srcAddr watcher =
     (if mget (se_watchers se) (AddrHandle srcAddr) \<noteq> None then (se, [], Some WatchAgain)
      else (se\<lparr>se_watchers := mput (AddrHandle srcAddr) watcher (se_watchers se)\<rparr>,
            (case se_leader se of None \<Rightarrow> [] | Some leader \<Rightarrow> [OnLeaderChange watcher leader KGotElectionLeader]),
            None))"

definition se_unWatchElection :: "skymeshElection \<Rightarrow> Addr \<Rightarrow> skymeshElection \<times> ElectionErr option" where
  "se_unWatchElection se srcAddr =
     (if mget (se_watchers se) (AddrHandle srcAddr) = None then (se, Some NotWatch)
      else (se\<lparr>se_watchers := mdel (AddrHandle srcAddr) (se_watchers se)\<rparr>, None))"

definition se_unRegisterService :: "skymeshElection \<Rightarrow> Addr \<Rightarrow> skymeshElection" where
  "se_unRegisterService se srcAddr = fst (se_unWatchElection se srcAddr)"

definition se_getElectionLeader :: "skymeshElection \<Rightarrow> Addr option" where
  "se_getElectionLeader se = se_leader se"

definition se_isElectionLeader :: "skymeshElection \<Rightarrow> Addr \<Rightarrow> bool" where
  "se_isElectionLeader se srcAddr =
     (case se_leader se of None \<Rightarrow> False | Some leader \<Rightarrow> AddrHandle leader = AddrHandle srcAddr)"

definition se_Release :: "skymeshElection \<Rightarrow> skymeshElection" where
  "se_Release se = se\<lparr>se_candidates := [], se_watchers := []\<rparr>"

section \<open>Notifications as a state machine\<close>

text \<open>The dispatch of an \<open>ElectionEvent\<close> by the serving goroutine of \<^verbatim>\<open>src/agent/server.go\<close>.\<close>

definition se_onElectionEvent ::
  "(u64 \<Rightarrow> 'v option) \<Rightarrow> skymeshElection \<Rightarrow> Addr \<times> int \<times> int \<Rightarrow> skymeshElection \<times> 'v ElectionCall list" where
  "se_onElectionEvent getService se n =
     (case n of (candidate, event, result) \<Rightarrow>
        if event = KElectionRunForLeader then se_onRunForElectionResultNotify getService se candidate result
        else if event = KElectionGiveUpLeader then se_onGiveUpElectionResultNotify se candidate result
        else (se, []))"

fun se_events ::
  "(u64 \<Rightarrow> 'v option) \<Rightarrow> skymeshElection \<Rightarrow> (Addr \<times> int \<times> int) list \<Rightarrow> skymeshElection \<times> 'v ElectionCall list" where
  "se_events gs se [] = (se, [])"
| "se_events gs se (n # ns) =
     (let (se, cs) = se_onElectionEvent gs se n; (se, ds) = se_events gs se ns in (se, cs @ ds))"

text \<open>The leader as one watcher sees it: the last change it was told, nothing after a loss.\<close>

fun seen_leader :: "nat \<Rightarrow> u64 option \<Rightarrow> 'v ElectionCall list \<Rightarrow> u64 option" where
  "seen_leader w l [] = l"
| "seen_leader w l (c # cs) =
     seen_leader w
       (case c of OnLeaderChange w' a ev \<Rightarrow>
          if w' = w then (case ev of KGotElectionLeader \<Rightarrow> Some (AddrHandle a) | KLostElectionLeader \<Rightarrow> None) else l
        | _ \<Rightarrow> l) cs"

definition leader_of_view :: "skymeshElection \<Rightarrow> u64 option" where
  "leader_of_view se = map_option AddrHandle (se_leader se)"

lemma seen_leader_append [simp]: "seen_leader w l (xs @ ys) = seen_leader w (seen_leader w l xs) ys"
  by (induction xs arbitrary: l) auto

lemma seen_leader_got:
  "seen_leader w l (map (\<lambda>w. OnLeaderChange w a KGotElectionLeader) ws) =
     (if w \<in> set ws then Some (AddrHandle a) else l)"
  by (induction ws arbitrary: l) auto

lemma seen_leader_lost:
  "seen_leader w l (map (\<lambda>w. OnLeaderChange w a KLostElectionLeader) ws) = (if w \<in> set ws then None else l)"
  by (induction ws arbitrary: l) auto

lemma seen_leader_cand [simp]:
  "seen_leader w l (case c of None \<Rightarrow> [] | Some x \<Rightarrow> [OnRegisterLeader x v r]) = l"
  "seen_leader w l (case c of None \<Rightarrow> [] | Some x \<Rightarrow> [OnUnRegisterLeader x]) = l"
  by (simp_all split: option.split)

lemma event_watchers: "se_watchers (fst (se_onElectionEvent gs se n)) = se_watchers se"
  by (cases n) (auto simp: se_onElectionEvent_def se_onRunForElectionResultNotify_def
      se_onGiveUpElectionResultNotify_def Let_def split: option.split)

lemma event_seen:
  assumes w: "w \<in> set (mvals (se_watchers se))"
  shows "seen_leader w (leader_of_view se) (snd (se_onElectionEvent gs se n)) =
    leader_of_view (fst (se_onElectionEvent gs se n))"
  using w by (cases n) (auto simp: se_onElectionEvent_def se_onRunForElectionResultNotify_def
      se_onGiveUpElectionResultNotify_def Let_def leader_of_view_def seen_leader_got seen_leader_lost split: option.split)

lemma events_seen:
  "w \<in> set (mvals (se_watchers se)) \<Longrightarrow>
     seen_leader w (leader_of_view se) (snd (se_events gs se ns)) = leader_of_view (fst (se_events gs se ns))"
proof (induction ns arbitrary: se)
  case (Cons n ns)
  obtain se' cs where e: "se_onElectionEvent gs se n = (se', cs)" by fastforce
  obtain se'' ds where f: "se_events gs se' ns = (se'', ds)" by fastforce
  have "w \<in> set (mvals (se_watchers se'))" using Cons.prems event_watchers [of gs se n] e by simp
  from Cons.IH [OF this] event_seen [OF Cons.prems, of gs n] e f show ?case by simp
qed simp

text \<open>How one notification moves the leader.\<close>

lemma event_leader:
  "leader_of_view (fst (se_onElectionEvent gs se (c, e, r))) =
     (if e = KElectionRunForLeader \<and> r = KElectionResultOK then Some (AddrHandle c)
      else if e = KElectionGiveUpLeader \<and> r = KElectionResultOK \<and> leader_of_view se = Some (AddrHandle c) then None
      else leader_of_view se)"
  by (auto simp: se_onElectionEvent_def se_onRunForElectionResultNotify_def
      se_onGiveUpElectionResultNotify_def Let_def leader_of_view_def split: option.split)

section \<open>Properties\<close>

text \<open>
  C28: A watcher is never misinformed: from the moment it watches, after any sequence of election
  notifications, the leader it has been told of last, or none after a loss, is the leader the agent
  knows.
\<close>

theorem watcher_knows_leader:
  assumes "se_watchElection se srcAddr w = (se', cs, None)"
  shows "seen_leader w None (cs @ snd (se_events gs se' ns)) = leader_of_view (fst (se_events gs se' ns))"
proof -
  have "w \<in> set (mvals (se_watchers se'))" "seen_leader w None cs = leader_of_view se'"
    using assms mget_mem_mvals [of "se_watchers se'" "AddrHandle srcAddr" w]
    by (auto simp: se_watchElection_def leader_of_view_def split: if_splits option.splits)
  then show ?thesis using events_seen [of w se' gs ns] by simp
qed

theorem watcher_knows_leader_witness:
  "seen_leader 7 None (fst (snd (se_watchElection (newElection ''svc'') \<lparr>ServiceName = ''svc'', ServiceId = 1, AddrHandle = 10\<rparr> 7)) @
     snd (se_events (\<lambda>_. None :: u64 option)
       (fst (se_watchElection (newElection ''svc'') \<lparr>ServiceName = ''svc'', ServiceId = 1, AddrHandle = 10\<rparr> 7 ::
          skymeshElection \<times> u64 ElectionCall list \<times> ElectionErr option))
       [(\<lparr>ServiceName = ''svc'', ServiceId = 2, AddrHandle = 11\<rparr>, KElectionRunForLeader, KElectionResultOK)])) = Some 11"
  by (subst watcher_knows_leader [of "newElection ''svc''" "\<lparr>ServiceName = ''svc'', ServiceId = 1, AddrHandle = 10\<rparr>" 7])
    (simp_all add: se_watchElection_def newElection_def event_leader split_def)

end
