(* ===== verification/AgentServer.thy ===== *)
theory AgentServer
  imports AgentSidecar AgentRouter AgentElection
begin

text \<open>
  \<^verbatim>\<open>src/agent/server.go\<close>: the agent of one process. Local services are shared by pointer
  between three indexes and live in the memory \<open>as_mem\<close>; routers and elections are reached
  only through their tables. \<open>as_calls\<close> is the trace of the calls on application objects.
  \<open>mar\<close>, \<open>jmar\<close> and \<open>env\<close> are as in the sidecar, \<open>mkHandle\<close> is \<open>MakeServiceHandle\<close>
  applied to the environment of the process.
\<close>

datatype AgentState = SkymeshServerIdle | SkymeshServerRunning | SkymeshServerStop

datatype AgentCall = CApp AppCall | CRouter RouterCall | CElection "u64 ElectionCall"

record skymeshServer =
  as_appID :: string
  as_cfg :: AgentConfig
  as_state :: AgentState
  as_recvQueue :: "Message list"
  as_eventQueue :: "AgentEvent list"
  as_mem :: "nat \<Rightarrow> skymeshService"
  as_next :: nat
  as_urlServices :: "(string, nat) gomap"
  as_nameGroupServices :: "(string, (u64, nat) gomap) gomap"
  as_handleServices :: "(u64, nat) gomap"
  as_nameRouters :: "(string, skymeshNameRouter) gomap"
  as_nameElections :: "(string, skymeshElection) gomap"
  as_nameStates :: "(string, ServiceStateType) gomap"
  as_sidecar :: skymeshSidecar
  as_calls :: "AgentCall list"

definition srv_Init :: "string \<Rightarrow> AgentConfig \<Rightarrow> skymeshService \<Rightarrow> remoteService \<Rightarrow> skymeshServer" where
  "srv_Init appID cfg ss0 rs0 =
     \<lparr>as_appID = appID, as_cfg = cfg, as_state = SkymeshServerIdle, as_recvQueue = [], as_eventQueue = [],
      as_mem = (\<lambda>_. ss0), as_next = 0, as_urlServices = [], as_nameGroupServices = [], as_handleServices = [],
      as_nameRouters = [], as_nameElections = [], as_nameStates = [], as_sidecar = sc_Init rs0, as_calls = []\<rparr>"

definition srv_setState :: "skymeshServer \<Rightarrow> AgentState \<Rightarrow> skymeshServer \<times> bool" where
  "srv_setState s st = (if as_state s \<noteq> st then (s\<lparr>as_state := st\<rparr>, True) else (s, False))"

definition srv_isInState :: "skymeshServer \<Rightarrow> AgentState \<Rightarrow> bool" where
  "srv_isInState s st = (as_state s = st)"

section \<open>Lookups\<close>

definition svc_group :: "skymeshServer \<Rightarrow> string \<Rightarrow> (u64, nat) gomap" where
  "svc_group s name = (case mget (as_nameGroupServices s) name of None \<Rightarrow> [] | Some g \<Rightarrow> g)"

definition srv_getService :: "skymeshServer \<Rightarrow> u64 \<Rightarrow> u64 option" where
  "srv_getService s handle = (case mget (as_handleServices s) handle of None \<Rightarrow> None | Some _ \<Rightarrow> Some handle)"

definition srv_getAllServices :: "skymeshServer \<Rightarrow> (u64, nat) gomap" where
  "srv_getAllServices s = fold (\<lambda>(h, r) services. mput h r services) (as_handleServices s) []"

definition srv_getServiceStateType :: "skymeshServer \<Rightarrow> string \<Rightarrow> ServiceStateType" where
  "srv_getServiceStateType s svcName =
     (case mget (as_nameStates s) svcName of
        Some st \<Rightarrow> st
      | None \<Rightarrow> sc_getServiceStateType (as_sidecar s) svcName)"

definition srv_getServiceInsts :: "skymeshServer \<Rightarrow> string \<Rightarrow> (u64 \<times> u64) list" where
  "srv_getServiceInsts s serviceName =
     map (\<lambda>(lh, r). (lh, ServiceId (ss_addr (as_mem s r)))) (svc_group s serviceName)
     @ sc_getRemoteServiceInsts (as_sidecar s) serviceName"

fun local_best :: "(nat \<Rightarrow> skymeshService) \<Rightarrow> nat list \<Rightarrow> nat option \<Rightarrow> nat option" where
  "local_best mem [] best = best"
| "local_best mem (r # rs) None = local_best mem rs (Some r)"
| "local_best mem (r # rs) (Some b) =
     local_best mem rs (if ss_GetMessageSize (mem r) < ss_GetMessageSize (mem b) then Some r else Some b)"

definition srv_GetBestQualityService :: "skymeshServer \<Rightarrow> string \<Rightarrow> Addr option" where
  "srv_GetBestQualityService s svcName =
     (case local_best (as_mem s) (mvals (svc_group s svcName)) None of
        Some best \<Rightarrow> Some (ss_addr (as_mem s best))
      | None \<Rightarrow> map_option (\<lambda>r. rs_serviceAddr (sc_mem (as_sidecar s) r)) (sc_GetBestQualityService (as_sidecar s) svcName))"

section \<open>Sending\<close>

definition queueCap :: "skymeshServer \<Rightarrow> nat" where
  "queueCap s = nat (ServiceQueueSize (as_cfg s))"

definition srv_push :: "skymeshServer \<Rightarrow> nat \<Rightarrow> Message \<Rightarrow> skymeshServer" where
  "srv_push s r msg = s\<lparr>as_mem := (as_mem s)(r := fst (ss_PushMessage (queueCap s) (as_mem s r) msg))\<rparr>"

definition with_sidecar :: "skymeshServer \<Rightarrow> skymeshSidecar \<times> SendErr option \<Rightarrow> skymeshServer \<times> SendErr option" where
  "with_sidecar s x = (s\<lparr>as_sidecar := fst x\<rparr>, snd x)"

definition srv_sendByHandle ::
  "marshal \<Rightarrow> NetEnv \<Rightarrow> skymeshServer \<Rightarrow> Addr \<Rightarrow> u64 \<Rightarrow> bytes \<Rightarrow> skymeshServer \<times> SendErr option" where
  "srv_sendByHandle mar env s srcAddr dstHandle b =
     (case mget (as_handleServices s) dstHandle of
        Some r \<Rightarrow> (srv_push s r (DataMessage srcAddr dstHandle b), None)
      | None \<Rightarrow> with_sidecar s (sc_SendRemote mar env (as_sidecar s) srcAddr dstHandle b))"

definition srv_sendBySvcUrl ::
  "marshal \<Rightarrow> NetEnv \<Rightarrow> skymeshServer \<Rightarrow> Addr \<Rightarrow> string \<Rightarrow> bytes \<Rightarrow> skymeshServer \<times> SendErr option" where
  "srv_sendBySvcUrl mar env s srcAddr dstServiceUrl b =
     (case mget (as_urlServices s) dstServiceUrl of
        Some r \<Rightarrow> (srv_push s r (DataMessage srcAddr (AddrHandle (ss_addr (as_mem s r))) b), None)
      | None \<Rightarrow> with_sidecar s (sc_SendRemoteBySvcUrl mar env (as_sidecar s) srcAddr dstServiceUrl b))"

definition srv_sendByRouter ::
  "marshal \<Rightarrow> NetEnv \<Rightarrow> skymeshServer \<Rightarrow> Addr \<Rightarrow> string \<Rightarrow> bytes \<Rightarrow> skymeshServer \<times> SendErr option" where
  "srv_sendByRouter mar env s srcAddr serviceName b =
     (case srv_GetBestQualityService s serviceName of
        None \<Rightarrow> (s, Some (NotFindRouter serviceName))
      | Some dstAddr \<Rightarrow> srv_sendByHandle mar env s srcAddr (AddrHandle dstAddr) b)"

definition srv_broadcastBySvcName ::
  "marshal \<Rightarrow> NetEnv \<Rightarrow> skymeshServer \<Rightarrow> Addr \<Rightarrow> string \<Rightarrow> bytes \<Rightarrow> skymeshServer" where
  "srv_broadcastBySvcName mar env s srcAddr dstServiceName b =
     (let s = fold (\<lambda>(lh, r) s. srv_push s r (DataMessage srcAddr lh b)) (svc_group s dstServiceName) s
      in s\<lparr>as_sidecar := sc_SendAllRemote mar env (as_sidecar s) srcAddr dstServiceName b\<rparr>)"

text \<open>\<open>SendBySvcNameAndInstID\<close> of a service: the best link when no instance is named.\<close>

definition ss_SendBySvcNameAndInstID ::
  "marshal \<Rightarrow> NetEnv \<Rightarrow> skymeshServer \<Rightarrow> Addr \<Rightarrow> string \<Rightarrow> u64 \<Rightarrow> bytes \<Rightarrow> skymeshServer \<times> SendErr option" where
  "ss_SendBySvcNameAndInstID mar env s addr serviceName instID msg =
     (if instID = INVALID_ROUTER_ID then srv_sendByRouter mar env s addr serviceName msg
      else srv_sendBySvcUrl mar env s addr (MakeSkymeshUrl serviceName instID) msg)"

section \<open>Elections\<close>

definition electionOf :: "skymeshServer \<Rightarrow> string \<Rightarrow> skymeshElection" where
  "electionOf s name = (case mget (as_nameElections s) name of Some e \<Rightarrow> e | None \<Rightarrow> newElection name)"

definition ss_SendByHandle ::
  "marshal \<Rightarrow> NetEnv \<Rightarrow> skymeshServer \<Rightarrow> nat \<Rightarrow> u64 \<Rightarrow> bytes \<Rightarrow> skymeshServer \<times> SendErr option" where
  "ss_SendByHandle mar env s r dstHandle msg = srv_sendByHandle mar env s (ss_addr (as_mem s r)) dstHandle msg"

definition ss_SendBySvcUrl ::
  "marshal \<Rightarrow> NetEnv \<Rightarrow> skymeshServer \<Rightarrow> nat \<Rightarrow> string \<Rightarrow> bytes \<Rightarrow> skymeshServer \<times> SendErr option" where
  "ss_SendBySvcUrl mar env s r dstServiceUrl msg = srv_sendBySvcUrl mar env s (ss_addr (as_mem s r)) dstServiceUrl msg"

definition ss_BroadcastBySvcName ::
  "marshal \<Rightarrow> NetEnv \<Rightarrow> skymeshServer \<Rightarrow> nat \<Rightarrow> string \<Rightarrow> bytes \<Rightarrow> skymeshServer" where
  "ss_BroadcastBySvcName mar env s r dstServiceName msg =
     srv_broadcastBySvcName mar env s (ss_addr (as_mem s r)) dstServiceName msg"

definition ss_GetLocalAddr :: "skymeshServer \<Rightarrow> nat \<Rightarrow> Addr" where
  "ss_GetLocalAddr s r = ss_addr (as_mem s r)"

definition srv_getNameElection :: "skymeshServer \<Rightarrow> string \<Rightarrow> skymeshServer" where
  "srv_getNameElection s name = s\<lparr>as_nameElections := mput name (electionOf s name) (as_nameElections s)\<rparr>"

definition setElection :: "skymeshServer \<Rightarrow> string \<Rightarrow> skymeshElection \<times> u64 ElectionCall list \<Rightarrow> skymeshServer" where
  "setElection s name x =
     s\<lparr>as_nameElections := mput name (fst x) (as_nameElections s), as_calls := as_calls s @ map CElection (snd x)\<rparr>"

definition srv_runForElection ::
  "marshal \<Rightarrow> NetEnv \<Rightarrow> skymeshServer \<Rightarrow> Addr \<Rightarrow> nat option \<Rightarrow> skymeshServer \<times> (ElectionErr + SendErr) option" where
  "srv_runForElection mar env s srcAddr candidate =
     (case candidate of
        None \<Rightarrow> (s, Some (Inl EmptyCandidate))
      | Some cand \<Rightarrow>
          (let name = ServiceName srcAddr; (e, err) = se_runForElection (electionOf s name) srcAddr cand;
               s = setElection s name (e, []) in
           case err of
             Some x \<Rightarrow> (s, Some (Inl x))
           | None \<Rightarrow>
               (let (s, x) = with_sidecar s (sc_SyncNameServerElection mar env (as_sidecar s) srcAddr KElectionRunForLeader)
                in (s, map_option Inr x))))"

definition srv_giveUpElection ::
  "marshal \<Rightarrow> NetEnv \<Rightarrow> skymeshServer \<Rightarrow> Addr \<Rightarrow> skymeshServer \<times> (ElectionErr + SendErr) option" where
  "srv_giveUpElection mar env s srcAddr =
     (let name = ServiceName srcAddr; s = srv_getNameElection s name in
      case se_giveUpElection (electionOf s name) srcAddr of
        Some x \<Rightarrow> (s, Some (Inl x))
      | None \<Rightarrow>
          (let (s, x) = with_sidecar s (sc_SyncNameServerElection mar env (as_sidecar s) srcAddr KElectionGiveUpLeader)
           in (s, map_option Inr x)))"

definition srv_watchElection ::
  "skymeshServer \<Rightarrow> Addr \<Rightarrow> string \<Rightarrow> nat option \<Rightarrow> skymeshServer \<times> ElectionErr option" where
  "srv_watchElection s srcAddr watchName watcher =
     (case watcher of
        None \<Rightarrow> (s, Some EmptyWatcher)
      | Some w \<Rightarrow>
          (let (e, cs, err) = se_watchElection (electionOf s watchName) srcAddr w
           in (setElection s watchName (e, cs), err)))"

definition srv_unWatchElection :: "skymeshServer \<Rightarrow> Addr \<Rightarrow> string \<Rightarrow> skymeshServer \<times> ElectionErr option" where
  "srv_unWatchElection s srcAddr watchName =
     (let (e, err) = se_unWatchElection (electionOf s watchName) srcAddr in (setElection s watchName (e, []), err))"

definition srv_GetElectionLeader :: "skymeshServer \<Rightarrow> string \<Rightarrow> skymeshServer \<times> Addr option" where
  "srv_GetElectionLeader s svcName =
     (let s = srv_getNameElection s svcName in (s, se_getElectionLeader (electionOf s svcName)))"

definition srv_isElectionLeader :: "skymeshServer \<Rightarrow> Addr \<Rightarrow> skymeshServer \<times> bool" where
  "srv_isElectionLeader s srcAddr =
     (let s = srv_getNameElection s (ServiceName srcAddr)
      in (s, se_isElectionLeader (electionOf s (ServiceName srcAddr)) srcAddr))"

text \<open>The elections as a service calls them.\<close>

definition ss_RunForElection ::
  "marshal \<Rightarrow> NetEnv \<Rightarrow> skymeshServer \<Rightarrow> nat \<Rightarrow> nat option \<Rightarrow> skymeshServer \<times> (ElectionErr + SendErr) option" where
  "ss_RunForElection mar env s r candidate = srv_runForElection mar env s (ss_addr (as_mem s r)) candidate"

definition ss_GiveUpElection ::
  "marshal \<Rightarrow> NetEnv \<Rightarrow> skymeshServer \<Rightarrow> nat \<Rightarrow> skymeshServer \<times> (ElectionErr + SendErr) option" where
  "ss_GiveUpElection mar env s r = srv_giveUpElection mar env s (ss_addr (as_mem s r))"

definition ss_WatchElection ::
  "skymeshServer \<Rightarrow> nat \<Rightarrow> string \<Rightarrow> nat option \<Rightarrow> skymeshServer \<times> ElectionErr option" where
  "ss_WatchElection s r watchName watcher = srv_watchElection s (ss_addr (as_mem s r)) watchName watcher"

definition ss_UnWatchElection :: "skymeshServer \<Rightarrow> nat \<Rightarrow> string \<Rightarrow> skymeshServer \<times> ElectionErr option" where
  "ss_UnWatchElection s r watchName = srv_unWatchElection s (ss_addr (as_mem s r)) watchName"

definition ss_IsLeader :: "skymeshServer \<Rightarrow> nat \<Rightarrow> skymeshServer \<times> bool" where
  "ss_IsLeader s r = srv_isElectionLeader s (ss_addr (as_mem s r))"

definition srv_onRegisterApp :: "skymeshServer \<Rightarrow> Addr list \<Rightarrow> skymeshServer" where
  "srv_onRegisterApp s leaders =
     fold (\<lambda>addr s. setElection s (ServiceName addr)
             (se_onRegisterApp (srv_getService s) (electionOf s (ServiceName addr)) addr)) leaders s"

section \<open>Registration\<close>

datatype RegErr = RegRepeated nat | RegUrlFormat | RegStateType | RegSend SendErr | RegTimeout | RegFailed int

definition addrServiceUrl :: "Addr \<Rightarrow> string" where
  "addrServiceUrl a = ServiceName a @ ''/'' @ dec (unat (ServiceId a))"

text \<open>\<open>Register\<close> up to the point where it waits for the name server; \<open>None\<close> is a panic.\<close>

definition srv_Register ::
  "marshal \<Rightarrow> NetEnv \<Rightarrow> (string \<Rightarrow> string \<Rightarrow> u64 \<Rightarrow> u64 option) \<Rightarrow> skymeshServer \<Rightarrow> string \<Rightarrow> RegisterOption list \<Rightarrow>
     (skymeshServer \<times> (RegErr + nat)) option" where
  "srv_Register mar env mkHandle s url opts =
     (let serviceUrl = StripSkymeshUrlPrefix url in
      case mget (as_urlServices s) serviceUrl of
        Some svc \<Rightarrow> Some (s, Inl (RegRepeated svc))
      | None \<Rightarrow>
          (case SkymeshUrl2Addr serviceUrl of
             Inl _ \<Rightarrow> Some (s, Inl RegUrlFormat)
           | Inr addr \<Rightarrow> do {
               h \<leftarrow> mkHandle (MeshserverAddress (as_cfg s)) (ServiceName addr) (ServiceId addr);
               let addr = addr\<lparr>AddrHandle := h\<rparr>;
               let ropts = fold (\<lambda>opt ro. opt ro) opts defaultRegisterOptions;
               let rst = GetServiceStateType ropts;
               let st = srv_getServiceStateType s (ServiceName addr);
               if st \<noteq> KUnknowStateService \<and> st \<noteq> rst then Some (s, Inl RegStateType)
               else
                 (case with_sidecar s (sc_RegisterServiceToNameServer mar env (as_sidecar s) addr ropts) of
                    (s, Some e) \<Rightarrow> Some (s, Inl (RegSend e))
                  | (s, None) \<Rightarrow>
                      (let r = as_next s in
                       Some (s\<lparr>as_mem := (as_mem s)(r := newService addr ropts), as_next := Suc r,
                               as_urlServices := mput serviceUrl r (as_urlServices s),
                               as_handleServices := mput h r (as_handleServices s),
                               as_nameGroupServices :=
                                 mput (ServiceName addr) (mput h r (svc_group s (ServiceName addr))) (as_nameGroupServices s),
                               as_nameStates := mput (ServiceName addr) rst (as_nameStates s)\<rparr>, Inr r))) }))"

definition srv_acks :: "marshal \<Rightarrow> NetEnv \<Rightarrow> skymeshServer \<Rightarrow> PingAckReq list \<Rightarrow> skymeshServer" where
  "srv_acks mar env s ps =
     s\<lparr>as_sidecar := fold (\<lambda>p sc. case p of PingAckReq h seq addr \<Rightarrow> sc_sendPingAck mar env sc h seq addr) ps (as_sidecar s)\<rparr>"

definition srv_stop :: "marshal \<Rightarrow> NetEnv \<Rightarrow> skymeshServer \<Rightarrow> nat \<Rightarrow> skymeshServer option" where
  "srv_stop mar env s r = do {
     (svc, cs, ps) \<leftarrow> ss_Stop (as_mem s r);
     Some (srv_acks mar env
       (s\<lparr>as_mem := (as_mem s)(r := svc), as_calls := as_calls s @ map CApp cs\<rparr>) ps) }"

definition srv_UnRegister :: "marshal \<Rightarrow> NetEnv \<Rightarrow> skymeshServer \<Rightarrow> string \<Rightarrow> skymeshServer option" where
  "srv_UnRegister mar env s url =
     (let serviceUrl = StripSkymeshUrlPrefix url in
      case mget (as_urlServices s) serviceUrl of
        None \<Rightarrow> Some s
      | Some r \<Rightarrow> do {
          let addr = ss_addr (as_mem s r);
          let name = ServiceName addr;
          let s = fst (with_sidecar s (sc_UnRegisterServiceToNameServer mar env (as_sidecar s) addr));
          let s = setElection s name (se_unRegisterService (electionOf s name) addr, []);
          s \<leftarrow> srv_stop mar env s r;
          Some (s\<lparr>as_urlServices := mdel serviceUrl (as_urlServices s),
                  as_handleServices := mdel (AddrHandle addr) (as_handleServices s),
                  as_nameGroupServices :=
                    (case mget (as_nameGroupServices s) name of
                       None \<Rightarrow> as_nameGroupServices s
                     | Some g \<Rightarrow> mput name (mdel (AddrHandle addr) g) (as_nameGroupServices s))\<rparr>) })"

text \<open>The wait of \<open>Register\<close>: a timeout, \<open>None\<close>, or a failure code withdraws the service.\<close>

definition srv_RegisterWait ::
  "marshal \<Rightarrow> NetEnv \<Rightarrow> skymeshServer \<Rightarrow> string \<Rightarrow> nat \<Rightarrow> int option \<Rightarrow> (skymeshServer \<times> (RegErr + nat)) option" where
  "srv_RegisterWait mar env s url r result =
     (case result of
        None \<Rightarrow> do { s \<leftarrow> srv_UnRegister mar env s url; Some (s, Inl RegTimeout) }
      | Some code \<Rightarrow>
          if code \<noteq> 0 then do { s \<leftarrow> srv_UnRegister mar env s url; Some (s, Inl (RegFailed code)) }
          else Some (s, Inr r))"

section \<open>Routers\<close>

definition setRouter :: "skymeshServer \<Rightarrow> string \<Rightarrow> skymeshNameRouter \<times> RouterCall list \<Rightarrow> skymeshServer" where
  "setRouter s name x =
     s\<lparr>as_nameRouters := mput name (fst x) (as_nameRouters s), as_calls := as_calls s @ map CRouter (snd x)\<rparr>"

text \<open>The body of the loop of \<open>GetNameRouter\<close>, for one instance.\<close>

definition addInst :: "skymeshServer \<Rightarrow> string \<Rightarrow> u64 \<times> u64 \<Rightarrow> skymeshNameRouter \<Rightarrow> skymeshNameRouter" where
  "addInst s serviceName hi nr =
     (case hi of (h, instID) \<Rightarrow>
        let nr = sr_AddInstsAddr nr instID \<lparr>ServiceName = serviceName, ServiceId = instID, AddrHandle = h\<rparr> in
        case mget (as_handleServices s) h of
          Some r \<Rightarrow>
            sr_AddInstsAttr (sr_AddInstsOpts nr instID (ss_opts (as_mem s r))) instID (ss_GetAttribute (as_mem s r))
        | None \<Rightarrow>
            (case sc_getRemoteService (as_sidecar s) h of
               None \<Rightarrow> nr
             | Some r \<Rightarrow>
                 sr_AddInstsAttr (sr_AddInstsOpts nr instID (rs_opts (sc_mem (as_sidecar s) r))) instID
                   (rs_GetAttribute (sc_mem (as_sidecar s) r))))"

definition srv_GetNameRouter :: "marshal \<Rightarrow> NetEnv \<Rightarrow> skymeshServer \<Rightarrow> string \<Rightarrow> skymeshServer" where
  "srv_GetNameRouter mar env s serviceName =
     (let s = (case mget (as_nameRouters s) serviceName of
                 Some nr \<Rightarrow> s
               | None \<Rightarrow>
                   fst (with_sidecar (setRouter s serviceName (newNameRouter serviceName, []))
                     (sc_RegisterRouterToNameServer mar env (as_sidecar s) serviceName)));
          nr = (case mget (as_nameRouters s) serviceName of Some nr \<Rightarrow> nr | None \<Rightarrow> newNameRouter serviceName)
      in setRouter s serviceName (fold (addInst s serviceName) (srv_getServiceInsts s serviceName) nr, []))"

definition srv_setAttribute ::
  "marshal \<Rightarrow> (ServiceAttr \<Rightarrow> bytes option) \<Rightarrow> NetEnv \<Rightarrow> skymeshServer \<Rightarrow> Addr \<Rightarrow> ServiceAttr \<Rightarrow>
     skymeshServer \<times> SendErr option" where
  "srv_setAttribute mar jmar env s srcAddr attrs =
     (let s = (case mget (as_nameRouters s) (ServiceName srcAddr) of
                 None \<Rightarrow> s
               | Some nr \<Rightarrow> setRouter s (ServiceName srcAddr) (sr_notifyInstsAttrs nr (ServiceId srcAddr) attrs))
      in with_sidecar s (sc_SyncServiceAttrToNameServer mar jmar env (as_sidecar s) srcAddr attrs))"

definition ss_SetAttribute ::
  "marshal \<Rightarrow> (ServiceAttr \<Rightarrow> bytes option) \<Rightarrow> NetEnv \<Rightarrow> skymeshServer \<Rightarrow> nat \<Rightarrow> ServiceAttr \<Rightarrow>
     skymeshServer \<times> SendErr option" where
  "ss_SetAttribute mar jmar env s r attrs =
     (let copy = copyAttrs attrs;
          s = s\<lparr>as_mem := (as_mem s)(r := (as_mem s r)\<lparr>ss_attrs := copy\<rparr>)\<rparr>
      in srv_setAttribute mar jmar env s (ss_addr (as_mem s r)) copy)"

definition srv_onRouterUpdate :: "marshal \<Rightarrow> NetEnv \<Rightarrow> skymeshServer \<Rightarrow> string \<Rightarrow> int \<Rightarrow> skymeshServer" where
  "srv_onRouterUpdate mar env s rname cmd =
     (case mget (as_nameRouters s) rname of
        Some router \<Rightarrow>
          if cmd = KNotifyAgentPrepare then
            (let s = setRouter s rname (sr_setState router NameRouterSwitching, []) in
             fst (with_sidecar s (sc_ReplyNameServerRouterUpdate mar env (as_sidecar s) rname KReplyNSPrepareOK)))
          else if cmd = KNotifyAgentPrepareAbort then setRouter s rname (sr_setState router NameRouterReady, [])
          else s
      | None \<Rightarrow>
          if cmd = KNotifyAgentPrepare then
            fst (with_sidecar s (sc_ReplyNameServerRouterUpdate mar env (as_sidecar s) rname KReplyNSPrepareOK))
          else s)"

section \<open>The serving goroutine\<close>

definition srv_onEvent :: "marshal \<Rightarrow> NetEnv \<Rightarrow> skymeshServer \<Rightarrow> AgentEvent \<Rightarrow> skymeshServer option" where
  "srv_onEvent mar env s event =
     (case event of
        OnlineEvent serviceAddr serverAddr isOnline serviceOpts \<Rightarrow>
          (let s = s\<lparr>as_sidecar := sc_notifyServiceOnline (as_sidecar s) serviceAddr serverAddr isOnline serviceOpts\<rparr> in
           case mget (as_nameRouters s) (ServiceName serviceAddr) of
             None \<Rightarrow> Some s
           | Some router \<Rightarrow>
               Some (setRouter s (ServiceName serviceAddr)
                 (sr_notifyInstsChange router isOnline (AddrHandle serviceAddr) (ServiceId serviceAddr) serviceOpts)))
      | RegAppEvent leaders result \<Rightarrow> Some (srv_onRegisterApp s leaders)
      | RegServiceEvent dstHandle result \<Rightarrow>
          (case mget (as_handleServices s) dstHandle of
             None \<Rightarrow> Some s
           | Some r \<Rightarrow> Some (s\<lparr>as_mem := (as_mem s)(r := ss_OnRegister (queueCap s) (as_mem s r) result)\<rparr>))
      | SyncAttrEvent serviceAddr attributes \<Rightarrow>
          (let s = s\<lparr>as_sidecar := sc_notifyServiceSyncAttr (as_sidecar s) serviceAddr attributes\<rparr> in
           case mget (as_nameRouters s) (ServiceName serviceAddr) of
             None \<Rightarrow> Some s
           | Some router \<Rightarrow>
               Some (setRouter s (ServiceName serviceAddr) (sr_notifyInstsAttrs router (ServiceId serviceAddr) attributes)))
      | ElectionEvent candidate ev result \<Rightarrow>
          (let name = ServiceName candidate in
           Some (setElection s name (se_onElectionEvent (srv_getService s) (electionOf s name) (candidate, ev, result))))
      | KickOffEvent dstHandle \<Rightarrow>
          (case mget (as_handleServices s) dstHandle of
             None \<Rightarrow> Some s
           | Some r \<Rightarrow> srv_UnRegister mar env s (addrServiceUrl (ss_addr (as_mem s r))))
      | RouterUpdateEvent serviceName cmd \<Rightarrow> Some (srv_onRouterUpdate mar env s serviceName cmd))"

definition srv_onRecv :: "skymeshServer \<Rightarrow> Message \<Rightarrow> skymeshServer" where
  "srv_onRecv s msg =
     (case mget (as_handleServices s) (GetDstHandle msg) of None \<Rightarrow> s | Some r \<Rightarrow> srv_push s r msg)"

text \<open>A turn of \<open>Serve\<close> that takes an event, and one that takes a message.\<close>

definition srv_Serve_event :: "marshal \<Rightarrow> NetEnv \<Rightarrow> skymeshServer \<Rightarrow> skymeshServer option" where
  "srv_Serve_event mar env s =
     (case as_eventQueue s of [] \<Rightarrow> Some s | e # es \<Rightarrow> srv_onEvent mar env (s\<lparr>as_eventQueue := es\<rparr>) e)"

definition srv_Serve_recv :: "skymeshServer \<Rightarrow> skymeshServer" where
  "srv_Serve_recv s =
     (case as_recvQueue s of [] \<Rightarrow> s | m # ms \<Rightarrow> srv_onRecv (s\<lparr>as_recvQueue := ms\<rparr>) m)"

definition srv_Release :: "marshal \<Rightarrow> NetEnv \<Rightarrow> skymeshServer \<Rightarrow> skymeshServer option" where
  "srv_Release mar env s =
     (if \<not> srv_isInState s SkymeshServerRunning then Some s
      else do {
        let s = fst (srv_setState s SkymeshServerStop);
        let s = (fold (\<lambda>m s. srv_onRecv s m) (as_recvQueue s) s)\<lparr>as_recvQueue := []\<rparr>;
        s \<leftarrow> rangeM (\<lambda>r s.
               srv_stop mar env
                 (fst (with_sidecar s (sc_UnRegisterServiceToNameServer mar env (as_sidecar s) (ss_addr (as_mem s r))))) r)
               (mvals (as_handleServices s)) s;
        Some (s\<lparr>as_sidecar := sc_Release (as_sidecar s), as_urlServices := [], as_handleServices := [],
                as_nameGroupServices := [], as_nameRouters := [], as_nameElections := [], as_nameStates := []\<rparr>) })"

section \<open>Invariant of the local services\<close>

text \<open>
  The three indexes hold the same services, each under its own handle, name and URL;
  \<open>service_ok\<close> bounds the queues of every service ever created.
\<close>

definition index_ok :: "skymeshServer \<Rightarrow> bool" where
  "index_ok s \<longleftrightarrow>
     mwf (as_urlServices s) \<and> mwf (as_handleServices s) \<and> mwf (as_nameGroupServices s) \<and> (\<forall>n. mwf (svc_group s n)) \<and>
     (\<forall>h r. mget (as_handleServices s) h = Some r \<longrightarrow> r < as_next s \<and> AddrHandle (ss_addr (as_mem s r)) = h \<and>
        mget (as_urlServices s) (addrServiceUrl (ss_addr (as_mem s r))) = Some r) \<and>
     (\<forall>n h r. mget (svc_group s n) h = Some r \<longleftrightarrow>
        mget (as_handleServices s) h = Some r \<and> ServiceName (ss_addr (as_mem s r)) = n) \<and>
     (\<forall>u r. mget (as_urlServices s) u = Some r \<longrightarrow>
        addrServiceUrl (ss_addr (as_mem s r)) = u \<and> mget (as_handleServices s) (AddrHandle (ss_addr (as_mem s r))) = Some r)"

definition queues_ok :: "skymeshServer \<Rightarrow> bool" where
  "queues_ok s \<longleftrightarrow> (\<forall>r. r < as_next s \<longrightarrow> service_ok (queueCap s) (as_mem s r))"

definition routers_ok :: "skymeshServer \<Rightarrow> bool" where
  "routers_ok s \<longleftrightarrow> mwf (as_nameRouters s) \<and> (\<forall>n nr. mget (as_nameRouters s) n = Some nr \<longrightarrow> router_inv nr)"

definition agent_ok :: "skymeshServer \<Rightarrow> bool" where
  "agent_ok s \<longleftrightarrow> index_ok s \<and> queues_ok s \<and> routers_ok s \<and> sidecar_ok (as_sidecar s)"

lemma index_okI:
  assumes "mwf (as_urlServices s)" "mwf (as_handleServices s)" "mwf (as_nameGroupServices s)" "\<And>n. mwf (svc_group s n)"
    and "\<And>h r. mget (as_handleServices s) h = Some r \<Longrightarrow> r < as_next s \<and> AddrHandle (ss_addr (as_mem s r)) = h \<and>
        mget (as_urlServices s) (addrServiceUrl (ss_addr (as_mem s r))) = Some r"
    and "\<And>n h r. mget (svc_group s n) h = Some r \<longleftrightarrow>
        mget (as_handleServices s) h = Some r \<and> ServiceName (ss_addr (as_mem s r)) = n"
    and "\<And>u r. mget (as_urlServices s) u = Some r \<Longrightarrow>
        addrServiceUrl (ss_addr (as_mem s r)) = u \<and> mget (as_handleServices s) (AddrHandle (ss_addr (as_mem s r))) = Some r"
  shows "index_ok s"
  using assms unfolding index_ok_def by blast

lemma index_okD:
  assumes "index_ok s"
  shows "mwf (as_urlServices s)" "mwf (as_handleServices s)" "mwf (as_nameGroupServices s)" "mwf (svc_group s n)"
    and "mget (as_handleServices s) h = Some r \<Longrightarrow> r < as_next s"
    and "mget (as_handleServices s) h = Some r \<Longrightarrow> AddrHandle (ss_addr (as_mem s r)) = h"
    and "mget (as_handleServices s) h = Some r \<Longrightarrow>
      mget (as_urlServices s) (addrServiceUrl (ss_addr (as_mem s r))) = Some r"
    and "mget (svc_group s n) h = Some r \<longleftrightarrow>
      mget (as_handleServices s) h = Some r \<and> ServiceName (ss_addr (as_mem s r)) = n"
    and "mget (as_urlServices s) u = Some r \<Longrightarrow> addrServiceUrl (ss_addr (as_mem s r)) = u"
    and "mget (as_urlServices s) u = Some r \<Longrightarrow> mget (as_handleServices s) (AddrHandle (ss_addr (as_mem s r))) = Some r"
  using assms unfolding index_ok_def by (blast, blast, blast, blast, blast, blast, blast, metis, blast, blast)

lemma agent_ok_init: "agent_ok (srv_Init appID cfg ss0 rs0)"
  by (simp add: agent_ok_def index_ok_def queues_ok_def routers_ok_def srv_Init_def svc_group_def sidecar_ok_init)

text \<open>An operation that keeps the indexes and the addresses of the services keeps \<open>index_ok\<close>.\<close>

lemma index_ok_frame:
  assumes "index_ok s" "as_urlServices t = as_urlServices s" "as_handleServices t = as_handleServices s"
    "as_nameGroupServices t = as_nameGroupServices s" "as_next t = as_next s"
    "\<And>r. ss_addr (as_mem t r) = ss_addr (as_mem s r)"
  shows "index_ok t"
proof -
  have "svc_group t n = svc_group s n" for n by (simp add: svc_group_def assms(4))
  then show ?thesis using assms unfolding index_ok_def by simp
qed

lemma svc_group_mput:
  "svc_group (s\<lparr>as_nameGroupServices := mput n g (as_nameGroupServices s)\<rparr>) m = (if m = n then g else svc_group s m)"
  by (simp add: svc_group_def)

text \<open>The state after a registration has entered the tables, and after a service has left them.\<close>

definition svc_added :: "skymeshServer \<Rightarrow> string \<Rightarrow> skymeshService \<Rightarrow> ServiceStateType \<Rightarrow> skymeshServer" where
  "svc_added s url svc rst =
     (let r = as_next s; addr = ss_addr svc; name = ServiceName addr in
      s\<lparr>as_mem := (as_mem s)(r := svc), as_next := Suc r,
        as_urlServices := mput url r (as_urlServices s),
        as_handleServices := mput (AddrHandle addr) r (as_handleServices s),
        as_nameGroupServices := mput name (mput (AddrHandle addr) r (svc_group s name)) (as_nameGroupServices s),
        as_nameStates := mput name rst (as_nameStates s)\<rparr>)"

definition svc_removed :: "skymeshServer \<Rightarrow> string \<Rightarrow> Addr \<Rightarrow> skymeshServer" where
  "svc_removed s url addr =
     s\<lparr>as_urlServices := mdel url (as_urlServices s),
       as_handleServices := mdel (AddrHandle addr) (as_handleServices s),
       as_nameGroupServices :=
         (case mget (as_nameGroupServices s) (ServiceName addr) of
            None \<Rightarrow> as_nameGroupServices s
          | Some g \<Rightarrow> mput (ServiceName addr) (mdel (AddrHandle addr) g) (as_nameGroupServices s))\<rparr>"

lemma index_ok_added:
  assumes ok: "index_ok s" and url: "addrServiceUrl (ss_addr svc) = url" "mget (as_urlServices s) url = None"
    and new: "mget (as_handleServices s) (AddrHandle (ss_addr svc)) = None"
  shows "index_ok (svc_added s url svc rst)"
proof -
  let ?t = "svc_added s url svc rst" and ?r = "as_next s" and ?h = "AddrHandle (ss_addr svc)" and ?n = "ServiceName (ss_addr svc)"
  have t: "as_urlServices ?t = mput url ?r (as_urlServices s)" "as_handleServices ?t = mput ?h ?r (as_handleServices s)"
    "as_next ?t = Suc ?r" "as_mem ?t = (as_mem s)(?r := svc)"
    "as_nameGroupServices ?t = mput ?n (mput ?h ?r (svc_group s ?n)) (as_nameGroupServices s)"
    by (simp_all add: svc_added_def Let_def)
  have g: "svc_group ?t n = (if n = ?n then mput ?h ?r (svc_group s ?n) else svc_group s n)" for n
    by (simp add: svc_group_def t(5))
  have old: "r \<noteq> ?r" if "mget (as_handleServices s) h = Some r" for h r using index_okD(5) [OF ok that] by simp
  have uold: "r \<noteq> ?r" if "mget (as_urlServices s) u = Some r" for u r using old [OF index_okD(10) [OF ok that]] .
  show ?thesis
  proof (rule index_okI)
    fix h r assume "mget (as_handleServices ?t) h = Some r"
    then show "r < as_next ?t \<and> AddrHandle (ss_addr (as_mem ?t r)) = h \<and>
        mget (as_urlServices ?t) (addrServiceUrl (ss_addr (as_mem ?t r))) = Some r"
      unfolding t using index_okD(5,6,7) [OF ok, of h r] old [of h r] url by (auto split: if_splits)
  next
    fix n h r
    show "mget (svc_group ?t n) h = Some r \<longleftrightarrow>
        mget (as_handleServices ?t) h = Some r \<and> ServiceName (ss_addr (as_mem ?t r)) = n"
      unfolding t g using index_okD(8) [OF ok, of n h r] old [of h r] new by auto
  next
    fix u r assume "mget (as_urlServices ?t) u = Some r"
    then show "addrServiceUrl (ss_addr (as_mem ?t r)) = u \<and>
        mget (as_handleServices ?t) (AddrHandle (ss_addr (as_mem ?t r))) = Some r"
      unfolding t using index_okD(9,10) [OF ok, of u r] uold [of u r] url new by (auto split: if_splits)
  qed (unfold t g, use index_okD(1-4) [OF ok] in auto)
qed

lemma index_ok_removed:
  assumes ok: "index_ok s" and r: "mget (as_urlServices s) url = Some r"
  shows "index_ok (svc_removed s url (ss_addr (as_mem s r)))"
proof -
  let ?a = "ss_addr (as_mem s r)"
  let ?t = "svc_removed s url ?a" and ?h = "AddrHandle ?a" and ?n = "ServiceName ?a"
  have t: "as_urlServices ?t = mdel url (as_urlServices s)" "as_handleServices ?t = mdel ?h (as_handleServices s)"
    "as_next ?t = as_next s" "as_mem ?t = as_mem s" by (simp_all add: svc_removed_def)
  have g: "svc_group ?t n = (if n = ?n then mdel ?h (svc_group s ?n) else svc_group s n)" for n
    by (auto simp: svc_group_def svc_removed_def split: option.split)
  have wf: "mwf (as_nameGroupServices ?t)" using index_okD(3) [OF ok] by (simp add: svc_removed_def split: option.split)
  have hr: "mget (as_handleServices s) ?h = Some r" using index_okD(10) [OF ok r] .
  have u: "addrServiceUrl ?a = url" using index_okD(9) [OF ok r] .
  show ?thesis
  proof (rule index_okI)
    fix h x assume "mget (as_handleServices ?t) h = Some x"
    then have x: "mget (as_handleServices s) h = Some x" "h \<noteq> ?h" by (auto simp: t split: if_splits)
    have "addrServiceUrl (ss_addr (as_mem s x)) \<noteq> url"
    proof
      assume "addrServiceUrl (ss_addr (as_mem s x)) = url"
      then have "x = r" using index_okD(7) [OF ok x(1)] r by simp
      then show False using index_okD(6) [OF ok x(1)] x(2) by simp
    qed
    then show "x < as_next ?t \<and> AddrHandle (ss_addr (as_mem ?t x)) = h \<and>
        mget (as_urlServices ?t) (addrServiceUrl (ss_addr (as_mem ?t x))) = Some x"
      unfolding t using index_okD(5,6,7) [OF ok x(1)] by simp
  next
    fix n h x
    show "mget (svc_group ?t n) h = Some x \<longleftrightarrow>
        mget (as_handleServices ?t) h = Some x \<and> ServiceName (ss_addr (as_mem ?t x)) = n"
      unfolding t g using index_okD(8) [OF ok, of n h x] hr by auto
  next
    fix v x assume "mget (as_urlServices ?t) v = Some x"
    then have x: "mget (as_urlServices s) v = Some x" "v \<noteq> url" by (auto simp: t split: if_splits)
    have "AddrHandle (ss_addr (as_mem s x)) \<noteq> ?h"
    proof
      assume "AddrHandle (ss_addr (as_mem s x)) = ?h"
      then have "x = r" using index_okD(10) [OF ok x(1)] hr by (metis option.inject)
      then show False using index_okD(9) [OF ok x(1)] u x(2) by simp
    qed
    then show "addrServiceUrl (ss_addr (as_mem ?t x)) = v \<and>
        mget (as_handleServices ?t) (AddrHandle (ss_addr (as_mem ?t x))) = Some x"
      unfolding t using index_okD(9,10) [OF ok x(1)] by simp
  qed (use wf index_okD(1-4) [OF ok] in \<open>auto simp: t g\<close>)
qed

section \<open>Preservation\<close>

text \<open>Sends and acknowledgements change nothing of the sidecar but what it has sent.\<close>

definition sc_sends :: "skymeshSidecar \<Rightarrow> skymeshSidecar \<Rightarrow> bool" where
  "sc_sends a b \<longleftrightarrow> sc_mem b = sc_mem a \<and> sc_next b = sc_next a \<and> sc_remoteServices b = sc_remoteServices a \<and>
     sc_remoteUrlServices b = sc_remoteUrlServices a \<and> sc_remoteGroupServices b = sc_remoteGroupServices a \<and>
     sc_nameStates b = sc_nameStates a"

lemma sc_sends_refl [simp, intro]: "sc_sends a a"
  by (simp add: sc_sends_def)

lemma sc_sends_trans: "sc_sends a b \<Longrightarrow> sc_sends b c \<Longrightarrow> sc_sends a c"
  by (simp add: sc_sends_def)

lemma sc_sends_ok: "sc_sends a b \<Longrightarrow> sidecar_ok a \<Longrightarrow> sidecar_ok b"
  by (simp add: sc_sends_def sidecar_ok_def groupOf_def)

lemma sc_sends_upd: "sc_sends a (a\<lparr>sc_nsOut := x\<rparr>)" "sc_sends a (a\<lparr>sc_agentOut := y\<rparr>)" "sc_sends a (a\<lparr>sc_dialers := z\<rparr>)"
  by (simp_all add: sc_sends_def)

lemma nsSendMsg_sends: "sc_sends sc (fst (nsSendMsg mar env sc msg))"
  by (auto simp: nsSendMsg_def nsSend_def intro: sc_sends_upd split: option.split)

lemma GetDialer_sends: "sc_sends sc (fst (AgentDialerMgr_GetDialer env sc u))"
  by (auto simp: AgentDialerMgr_GetDialer_def intro: sc_sends_upd split: option.split)

lemma agentSend_sends: "sc_sends sc (fst (agentSend env sc u b))"
  by (auto simp: agentSend_def intro: sc_sends_upd split: option.split)

lemma sendPingAck_sends: "sc_sends sc (sc_sendPingAck mar env sc h seq addr)"
  using GetDialer_sends [of sc env addr]
  by (auto simp: sc_sendPingAck_def intro: sc_sends_trans [OF _ agentSend_sends] split: prod.splits option.splits)

lemma acks_sends:
  "sc_sends sc (fold (\<lambda>p sc. case p of PingAckReq h seq addr \<Rightarrow> sc_sendPingAck mar env sc h seq addr) ps sc)"
  by (induction ps arbitrary: sc) (auto intro: sc_sends_trans [OF sendPingAck_sends] split: PingAckReq.split)

lemma SendRemote_sends: "sc_sends sc (fst (sc_SendRemote mar env sc src h b))"
  using GetDialer_sends [of sc env]
  by (auto simp: sc_SendRemote_def Let_def intro: sc_sends_trans [OF _ agentSend_sends] split: prod.split option.split)
    (metis fst_conv sc_sends_trans agentSend_sends)+

lemma SendAllRemote_sends: "sc_sends sc (sc_SendAllRemote mar env sc src n b)"
proof -
  have "sc_sends sc (fold (\<lambda>rh sc. fst (sc_SendRemote mar env sc src rh b)) hs sc)" for hs sc
    by (induction hs arbitrary: sc) (auto intro: sc_sends_trans [OF SendRemote_sends])
  then show ?thesis by (simp add: sc_SendAllRemote_def)
qed

lemma ss_Stop_addr: "ss_Stop s = Some (t, cs, ps) \<Longrightarrow> ss_addr t = ss_addr s"
  by (auto simp: ss_Stop_def Let_def split: Option.bind_splits if_splits prod.splits)

lemma queueCap_simps [simp]:
  "queueCap (s\<lparr>as_mem := a\<rparr>) = queueCap s" "queueCap (s\<lparr>as_calls := b\<rparr>) = queueCap s"
  "queueCap (s\<lparr>as_sidecar := c\<rparr>) = queueCap s" "queueCap (s\<lparr>as_nameElections := d\<rparr>) = queueCap s"
  "queueCap (s\<lparr>as_nameRouters := e\<rparr>) = queueCap s" "queueCap (s\<lparr>as_urlServices := f\<rparr>) = queueCap s"
  "queueCap (s\<lparr>as_handleServices := g\<rparr>) = queueCap s" "queueCap (s\<lparr>as_nameGroupServices := k\<rparr>) = queueCap s"
  "queueCap (s\<lparr>as_nameStates := l\<rparr>) = queueCap s" "queueCap (s\<lparr>as_next := m\<rparr>) = queueCap s"
  "queueCap (s\<lparr>as_eventQueue := n\<rparr>) = queueCap s" "queueCap (s\<lparr>as_recvQueue := q\<rparr>) = queueCap s"
  by (simp_all add: queueCap_def)

text \<open>Updating one service in memory: its address is kept and its queues stay within bounds.\<close>

lemma agent_ok_mem:
  assumes "agent_ok s" "ss_addr svc = ss_addr (as_mem s r)" "r < as_next s \<Longrightarrow> service_ok (queueCap s) svc"
  shows "agent_ok (s\<lparr>as_mem := (as_mem s)(r := svc)\<rparr>)"
  using assms index_ok_frame [of s "s\<lparr>as_mem := (as_mem s)(r := svc)\<rparr>"]
  by (auto simp: agent_ok_def queues_ok_def routers_ok_def)

lemma agent_ok_side:
  assumes "agent_ok s" "sidecar_ok sc"
  shows "agent_ok (s\<lparr>as_sidecar := sc\<rparr>)"
  using assms index_ok_frame [of s "s\<lparr>as_sidecar := sc\<rparr>"]
  by (auto simp: agent_ok_def queues_ok_def routers_ok_def)

lemma agent_ok_sends: "agent_ok s \<Longrightarrow> sc_sends (as_sidecar s) sc \<Longrightarrow> agent_ok (s\<lparr>as_sidecar := sc\<rparr>)"
  by (rule agent_ok_side) (auto simp: agent_ok_def intro: sc_sends_ok)

lemma agent_ok_frame [simp]:
  "agent_ok (s\<lparr>as_calls := c\<rparr>) = agent_ok s" "agent_ok (s\<lparr>as_nameElections := e\<rparr>) = agent_ok s"
  "agent_ok (s\<lparr>as_eventQueue := q\<rparr>) = agent_ok s" "agent_ok (s\<lparr>as_recvQueue := q'\<rparr>) = agent_ok s"
  by (simp_all add: agent_ok_def queues_ok_def routers_ok_def index_ok_def svc_group_def)

lemma agent_ok_setElection [simp]: "agent_ok (setElection s n x) = agent_ok s"
  by (simp add: setElection_def)

lemma agent_ok_setRouter:
  assumes "agent_ok s" "router_inv (fst x)"
  shows "agent_ok (setRouter s n x)"
proof -
  have "index_ok (setRouter s n x)"
    using assms(1) index_ok_frame [of s "setRouter s n x"] by (simp add: agent_ok_def setRouter_def)
  then show ?thesis using assms by (auto simp: agent_ok_def setRouter_def queues_ok_def routers_ok_def split: if_splits)
qed

lemma Push_addr [simp]: "ss_addr (fst (ss_PushMessage cap s m)) = ss_addr s"
  by (simp add: ss_PushMessage_def Let_def split: prod.split)

lemma agent_ok_push: "agent_ok s \<Longrightarrow> agent_ok (srv_push s r m)"
  unfolding srv_push_def by (rule agent_ok_mem) (simp_all add: service_ok_Push agent_ok_def queues_ok_def)

lemma agent_ok_stop:
  assumes ok: "agent_ok s" and r: "r < as_next s"
  shows "\<exists>t. srv_stop mar env s r = Some t \<and> agent_ok t \<and> as_urlServices t = as_urlServices s \<and>
    as_handleServices t = as_handleServices s \<and> as_nameGroupServices t = as_nameGroupServices s \<and>
    (\<forall>x. ss_addr (as_mem t x) = ss_addr (as_mem s x)) \<and> as_nameRouters t = as_nameRouters s \<and> as_next t = as_next s"
proof -
  have "service_ok (queueCap s) (as_mem s r)" using ok r by (simp add: agent_ok_def queues_ok_def)
  from ss_Stop_ok [OF this] obtain svc cs ps where st: "ss_Stop (as_mem s r) = Some (svc, cs, ps)"
    "service_ok (queueCap s) svc" by blast
  let ?u = "s\<lparr>as_mem := (as_mem s)(r := svc), as_calls := as_calls s @ map CApp cs\<rparr>"
  have a: "ss_addr svc = ss_addr (as_mem s r)" using ss_Stop_addr [OF st(1)] .
  have "agent_ok ?u" using agent_ok_mem [OF ok a] st(2) by simp
  then have "agent_ok (srv_acks mar env ?u ps)"
    unfolding srv_acks_def by (rule agent_ok_sends) (simp add: acks_sends)
  then show ?thesis using st(1) a by (auto simp: srv_stop_def srv_acks_def)
qed

lemma agent_ok_removed:
  assumes ok: "agent_ok s" and r: "mget (as_urlServices s) url = Some r"
  shows "agent_ok (svc_removed s url (ss_addr (as_mem s r)))"
  using ok index_ok_removed [OF _ r]
  by (simp add: agent_ok_def queues_ok_def routers_ok_def) (simp add: svc_removed_def queueCap_def)

lemma UnRegister_absent: "mget (as_urlServices s) (StripSkymeshUrlPrefix url) = None \<Longrightarrow> srv_UnRegister mar env s url = Some s"
  by (simp add: srv_UnRegister_def Let_def)

lemma UnRegister_present:
  assumes ok: "agent_ok s" and r: "mget (as_urlServices s) (StripSkymeshUrlPrefix url) = Some r"
  shows "\<exists>u t. srv_UnRegister mar env s url = Some t \<and> agent_ok u \<and> as_urlServices u = as_urlServices s \<and>
    as_handleServices u = as_handleServices s \<and> as_nameGroupServices u = as_nameGroupServices s \<and>
    (\<forall>x. ss_addr (as_mem u x) = ss_addr (as_mem s x)) \<and> as_nameRouters u = as_nameRouters s \<and>
    t = svc_removed u (StripSkymeshUrlPrefix url) (ss_addr (as_mem u r)) \<and> agent_ok t"
proof -
  let ?a = "ss_addr (as_mem s r)"
  let ?s1 = "fst (with_sidecar s (sc_UnRegisterServiceToNameServer mar env (as_sidecar s) ?a))"
  let ?s2 = "setElection ?s1 (ServiceName ?a) (se_unRegisterService (electionOf ?s1 (ServiceName ?a)) ?a, [])"
  have io: "index_ok s" using ok by (simp add: agent_ok_def)
  have "agent_ok ?s1" unfolding with_sidecar_def fst_conv
    using agent_ok_sends [OF ok nsSendMsg_sends] by (simp add: sc_UnRegisterServiceToNameServer_def)
  then have ok2: "agent_ok ?s2" by simp
  have f: "as_urlServices ?s2 = as_urlServices s" "as_handleServices ?s2 = as_handleServices s"
    "as_nameGroupServices ?s2 = as_nameGroupServices s" "as_mem ?s2 = as_mem s" "as_next ?s2 = as_next s"
    "as_nameRouters ?s2 = as_nameRouters s"
    by (simp_all add: setElection_def with_sidecar_def)
  have "r < as_next ?s2" using index_okD(5) [OF io index_okD(10) [OF io r]] by (simp add: f)
  from agent_ok_stop [OF ok2 this, of mar env] obtain u where u: "srv_stop mar env ?s2 r = Some u" "agent_ok u"
    "as_urlServices u = as_urlServices s" "as_handleServices u = as_handleServices s"
    "as_nameGroupServices u = as_nameGroupServices s" "\<forall>x. ss_addr (as_mem u x) = ss_addr (as_mem s x)"
    "as_nameRouters u = as_nameRouters s" unfolding f by blast
  have "srv_UnRegister mar env s url = Some (svc_removed u (StripSkymeshUrlPrefix url) (ss_addr (as_mem u r)))"
    using r u(1,6) by (simp add: srv_UnRegister_def Let_def svc_removed_def)
  moreover have "agent_ok (svc_removed u (StripSkymeshUrlPrefix url) (ss_addr (as_mem u r)))"
    using agent_ok_removed [OF u(2)] r u(3) by simp
  ultimately show ?thesis using u by blast
qed

lemma UnRegister_agent_ok: "agent_ok s \<Longrightarrow> \<exists>t. srv_UnRegister mar env s url = Some t \<and> agent_ok t"
  using UnRegister_present [of s url _ mar env] UnRegister_absent [of s url mar env]
  by (cases "mget (as_urlServices s) (StripSkymeshUrlPrefix url)") auto

text \<open>
  A registration enters the three indexes when the URL is written canonically and the handle is
  not in use; the handle is a 32-bit hash, and nothing in the code checks it.
\<close>

lemma addrServiceUrl_eq: "addrServiceUrl a = SkymeshAddr2Url a False"
  by (simp add: addrServiceUrl_def SkymeshAddr2Url_def)

lemma agent_ok_added:
  assumes ok: "agent_ok s" and "addrServiceUrl addr = url" "mget (as_urlServices s) url = None"
    "mget (as_handleServices s) (AddrHandle addr) = None"
  shows "agent_ok (svc_added s url (newService addr opts) rst)"
proof -
  have a: "ss_addr (newService addr opts) = addr" by (simp add: newService_def)
  have "index_ok (svc_added s url (newService addr opts) rst)"
    using assms index_ok_added [of s "newService addr opts" url rst] by (simp add: agent_ok_def a)
  moreover have "queues_ok (svc_added s url (newService addr opts) rst)"
    using ok by (auto simp: agent_ok_def queues_ok_def svc_added_def Let_def queueCap_def service_ok_new less_Suc_eq)
  ultimately show ?thesis using ok by (simp add: agent_ok_def routers_ok_def svc_added_def Let_def)
qed

lemma Register_new:
  assumes u: "mget (as_urlServices s) (StripSkymeshUrlPrefix url) = None"
    and a: "SkymeshUrl2Addr (StripSkymeshUrlPrefix url) = Inr addr"
    and h: "mkHandle (MeshserverAddress (as_cfg s)) (ServiceName addr) (ServiceId addr) = Some h"
    and st: "srv_getServiceStateType s (ServiceName addr) \<in> {KUnknowStateService,
      GetServiceStateType (fold (\<lambda>opt ro. opt ro) opts defaultRegisterOptions)}"
    and net: "sc_RegisterServiceToNameServer mar env (as_sidecar s) (addr\<lparr>AddrHandle := h\<rparr>)
      (fold (\<lambda>opt ro. opt ro) opts defaultRegisterOptions) = (sc, None)"
  shows "srv_Register mar env mkHandle s url opts =
    Some (svc_added (s\<lparr>as_sidecar := sc\<rparr>) (StripSkymeshUrlPrefix url)
      (newService (addr\<lparr>AddrHandle := h\<rparr>) (fold (\<lambda>opt ro. opt ro) opts defaultRegisterOptions))
      (GetServiceStateType (fold (\<lambda>opt ro. opt ro) opts defaultRegisterOptions)), Inr (as_next s))"
  using assms by (auto simp: srv_Register_def Let_def with_sidecar_def svc_added_def newService_def svc_group_def)

section \<open>Events\<close>

definition event_consistent :: "skymeshServer \<Rightarrow> AgentEvent \<Rightarrow> bool" where
  "event_consistent s e =
     (case e of
        OnlineEvent addr sa isOnline opts \<Rightarrow>
          isOnline \<or> (case mget (sc_remoteServices (as_sidecar s)) (AddrHandle addr) of
                        None \<Rightarrow> True
                      | Some r \<Rightarrow> ServiceName (rs_serviceAddr (sc_mem (as_sidecar s) r)) = ServiceName addr)
      | _ \<Rightarrow> True)"

lemma agent_ok_routerD: "agent_ok s \<Longrightarrow> mget (as_nameRouters s) n = Some nr \<Longrightarrow> router_inv nr"
  by (simp add: agent_ok_def routers_ok_def)

lemma agent_ok_onRegisterApp: "agent_ok s \<Longrightarrow> agent_ok (srv_onRegisterApp s leaders)"
  by (induction leaders arbitrary: s) (auto simp: srv_onRegisterApp_def)

lemma agent_ok_reply: "agent_ok s \<Longrightarrow> agent_ok (fst (with_sidecar s (sc_ReplyNameServerRouterUpdate mar env (as_sidecar s) n k)))"
  unfolding with_sidecar_def fst_conv sc_ReplyNameServerRouterUpdate_def by (rule agent_ok_sends [OF _ nsSendMsg_sends])

lemma agent_ok_onRouterUpdate: "agent_ok s \<Longrightarrow> agent_ok (srv_onRouterUpdate mar env s n cmd)"
  by (auto simp: srv_onRouterUpdate_def Let_def intro!: agent_ok_reply agent_ok_setRouter router_inv_setState
      dest: agent_ok_routerD split: option.split)

lemma onEvent_ok:
  assumes ok: "agent_ok s" and c: "event_consistent s e"
  shows "\<exists>t. srv_onEvent mar env s e = Some t \<and> agent_ok t"
proof (cases e)
  case (OnlineEvent addr sa isOnline opts)
  have "sidecar_ok (sc_notifyServiceOnline (as_sidecar s) addr sa isOnline opts)"
  proof (cases isOnline)
    case True
    then show ?thesis using ok by (simp add: agent_ok_def sidecar_ok_online)
  next
    case False
    then show ?thesis using ok c OnlineEvent
      by (auto simp: agent_ok_def event_consistent_def intro!: sidecar_ok_offline split: option.splits)
  qed
  from agent_ok_side [OF ok this] show ?thesis
    using OnlineEvent agent_ok_routerD [OF ok]
    by (auto simp: srv_onEvent_def Let_def intro!: agent_ok_setRouter router_inv_notifyChange split: option.split)
next
  case (RegServiceEvent h result)
  then show ?thesis using ok
    by (auto simp: srv_onEvent_def ss_OnRegister_def intro: agent_ok_push [unfolded srv_push_def] split: option.split)
next
  case (SyncAttrEvent addr attrs)
  have "agent_ok (s\<lparr>as_sidecar := sc_notifyServiceSyncAttr (as_sidecar s) addr attrs\<rparr>)"
    using ok by (intro agent_ok_side) (auto simp: agent_ok_def sidecar_ok_SyncAttr)
  then show ?thesis using SyncAttrEvent agent_ok_routerD [OF ok]
    by (auto simp: srv_onEvent_def Let_def intro!: agent_ok_setRouter router_inv_notifyAttrs split: option.split)
next
  case (KickOffEvent h)
  then show ?thesis using UnRegister_agent_ok [OF ok] ok by (auto simp: srv_onEvent_def split: option.split)
qed (use ok in \<open>auto simp: srv_onEvent_def agent_ok_onRegisterApp agent_ok_onRouterUpdate Let_def\<close>)

lemma agent_ok_onRecv: "agent_ok s \<Longrightarrow> agent_ok (srv_onRecv s m)"
  by (auto simp: srv_onRecv_def agent_ok_push split: option.split)

lemma agent_ok_sendByHandle: "agent_ok s \<Longrightarrow> agent_ok (fst (srv_sendByHandle mar env s src h b))"
  by (auto simp: srv_sendByHandle_def with_sidecar_def agent_ok_push intro!: agent_ok_sends SendRemote_sends split: option.split)

text \<open>A kick-off removes the service from every index, because its URL is the canonical one.\<close>

lemma KickOff_removes:
  assumes ok: "agent_ok s" and r: "mget (as_handleServices s) h = Some r"
    and n: "CHR ''/'' \<notin> set (ServiceName (ss_addr (as_mem s r)))"
    and t: "srv_onEvent mar env s (KickOffEvent h) = Some t"
  shows "mget (as_handleServices t) h = None" "mget (svc_group t m) h = None"
    "mget (as_urlServices t) (addrServiceUrl (ss_addr (as_mem s r))) = None"
proof -
  let ?u = "addrServiceUrl (ss_addr (as_mem s r))"
  have io: "index_ok s" using ok by (simp add: agent_ok_def)
  have "StripSkymeshUrlPrefix ?u = ?u"
    using Strip_plain [OF n dec_no_slash(1)] by (simp add: addrServiceUrl_def)
  moreover have "mget (as_urlServices s) ?u = Some r" using index_okD(7) [OF io r] .
  ultimately obtain u where u: "agent_ok u" "as_handleServices u = as_handleServices s" "as_urlServices u = as_urlServices s"
     "ss_addr (as_mem u r) = ss_addr (as_mem s r)" "t = svc_removed u ?u (ss_addr (as_mem u r))" "agent_ok t"
    using UnRegister_present [OF ok, of ?u r mar env] t r by (auto simp: srv_onEvent_def)
  have h: "AddrHandle (ss_addr (as_mem s r)) = h" using index_okD(6) [OF io r] .
  show no: "mget (as_handleServices t) h = None" using u(4,5) h by (simp add: svc_removed_def)
  show "mget (as_urlServices t) ?u = None" using u(5) by (simp add: svc_removed_def)
  have "index_ok t" using u(6) by (simp add: agent_ok_def)
  from index_okD(8) [OF this, of m h] no show "mget (svc_group t m) h = None"
    by (cases "mget (svc_group t m) h") auto
qed

end
