(* ===== verification/AgentReceiver.thy ===== *)
theory AgentReceiver
  imports AgentServer Pipe
begin

text \<open>
  \<^verbatim>\<open>src/agent/receiver.go\<close>: the receivers of the connections of an agent: from other agents,
  to the name server, and to other agents. A getter of an absent oneof yields nil, and reading
  a field of nil is a panic, \<open>None\<close>. The blocking send on \<open>recvQueue\<close> is given by its
  effect when it completes. \<open>unm\<close> and \<open>junm\<close> are the protobuf and JSON decoders.
\<close>

section \<open>Connections from other agents\<close>

fun onServiceMessage :: "skymeshServer \<Rightarrow> SSBody option \<Rightarrow> skymeshServer option" where
  "onServiceMessage s (Some (NotifyServiceMessage (Some src) dstHandle data)) =
     Some (s\<lparr>as_recvQueue := as_recvQueue s @ [DataMessage (addrOfPb src) dstHandle data]\<rparr>)"
| "onServiceMessage s _ = None"

fun onPingReq :: "skymeshServer \<Rightarrow> SSBody option \<Rightarrow> skymeshServer option" where
  "onPingReq s (Some (ServicePingReq dstHandle seq srcServerAddr)) =
     Some (s\<lparr>as_recvQueue := as_recvQueue s @ [PingMessage srcServerAddr seq dstHandle]\<rparr>)"
| "onPingReq s _ = None"

fun onPingRsp :: "int \<Rightarrow> skymeshServer \<Rightarrow> SSBody option \<Rightarrow> skymeshServer option" where
  "onPingRsp now s (Some (ServicePingRsp seq srcHandle)) =
     Some (s\<lparr>as_sidecar := sc_recvPingAck now (as_sidecar s) srcHandle seq\<rparr>)"
| "onPingRsp now s _ = None"

definition lisConn_dispatch :: "int \<Rightarrow> skymeshServer \<Rightarrow> SSMsg \<Rightarrow> skymeshServer option" where
  "lisConn_dispatch now s ssmsg =
     (case ssCmd ssmsg of
        NOTIFY_SERVICE_MESSAGE \<Rightarrow> onServiceMessage s (ssMsg ssmsg)
      | REQ_PING_SERVICE \<Rightarrow> onPingReq s (ssMsg ssmsg)
      | RSP_PING_SERVICE \<Rightarrow> onPingRsp now s (ssMsg ssmsg)
      | _ \<Rightarrow> Some s)"

definition lisConnReceiver_OnMessage ::
  "unmarshal \<Rightarrow> int \<Rightarrow> skymeshServer \<Rightarrow> bytes \<Rightarrow> (skymeshServer \<times> nat \<times> bool) option" where
  "lisConnReceiver_OnMessage unm now s b =
     (let (skipLen, data) = Unpack b in
      if 0 < skipLen then
        (case unm data of
           None \<Rightarrow> Some (s, skipLen, True)
         | Some ssmsg \<Rightarrow> do { s \<leftarrow> lisConn_dispatch now s ssmsg; Some (s, skipLen, False) })
      else Some (s, skipLen, False))"

section \<open>The connection to the name server\<close>

text \<open>\<open>OnConnected\<close> announces the agent; the frame is the first one on the connection.\<close>

definition NSDialerReceiver_OnConnected :: "marshal \<Rightarrow> skymeshServer \<Rightarrow> bytes option" where
  "NSDialerReceiver_OnConnected mar s =
     PackSSMsg mar (SSMsg NOTIFY_NAMESERVER_AGENT_INFO
       (Some (NotifyNameserverAgentInfo (MeshserverAddress (as_cfg s)) (as_appID s))))"

definition offerEvent :: "skymeshServer \<Rightarrow> AgentEvent \<Rightarrow> skymeshServer" where
  "offerEvent s e =
     s\<lparr>as_eventQueue := fst (chan_offer (nat (EventQueueSize (as_cfg s))) (as_eventQueue s) e)\<rparr>"

text \<open>The event a message becomes: \<open>None\<close> a panic, \<open>Some (Inl ())\<close> attributes that do not decode.\<close>

definition nsEvent ::
  "(bytes \<Rightarrow> ServiceAttr option) \<Rightarrow> SSCmd \<Rightarrow> SSBody option \<Rightarrow> (unit + AgentEvent option) option" where
  "nsEvent junm cmd msg =
     (case cmd of
        RSP_REGISTER_APP \<Rightarrow>
          (case msg of Some (RegisterAppRsp leaders result) \<Rightarrow>
             Some (Inr (Some (RegAppEvent (map addrOfPb leaders) result))) | _ \<Rightarrow> None)
      | RSP_REGISTER_SERVICE \<Rightarrow>
          (case msg of Some (RegisterServiceRsp h result) \<Rightarrow>
             Some (Inr (Some (RegServiceEvent h result))) | _ \<Rightarrow> None)
      | NOTIFY_SERVICE_ONLINE \<Rightarrow>
          (case msg of Some (NotifyServiceOnline serverAddr (Some info) (Some opts) isOnline) \<Rightarrow>
             Some (Inr (Some (OnlineEvent (addrOfPb info) serverAddr isOnline (optsOfPb opts)))) | _ \<Rightarrow> None)
      | NOTIFY_SERVICE_SYNCATTR \<Rightarrow>
          (case msg of Some (NotifyServiceAttr info data) \<Rightarrow>
             (case junm data of
                None \<Rightarrow> Some (Inl ())
              | Some attrs \<Rightarrow>
                  (case info of None \<Rightarrow> None | Some i \<Rightarrow> Some (Inr (Some (SyncAttrEvent (addrOfPb i) attrs))))) | _ \<Rightarrow> None)
      | NOTIFY_SERVICE_ELECTION_RESULT \<Rightarrow>
          (case msg of Some (NotifyServiceElectionResult (Some cand) ev result) \<Rightarrow>
             Some (Inr (Some (ElectionEvent (addrOfPb cand) ev result))) | _ \<Rightarrow> None)
      | NOTIFY_SERVICE_KICK_OFF \<Rightarrow>
          (case msg of Some (NotifyServiceKickoff h) \<Rightarrow> Some (Inr (Some (KickOffEvent h))) | _ \<Rightarrow> None)
      | REQ_AGENT_ROUTER_UPDATE \<Rightarrow>
          (case msg of Some (AgentRouterUpdateReq c name) \<Rightarrow> Some (Inr (Some (RouterUpdateEvent name c))) | _ \<Rightarrow> None)
      | _ \<Rightarrow> Some (Inr None))"

definition NSDialerReceiver_OnMessage ::
  "unmarshal \<Rightarrow> (bytes \<Rightarrow> ServiceAttr option) \<Rightarrow> skymeshServer \<Rightarrow> bytes \<Rightarrow> (skymeshServer \<times> nat \<times> bool) option" where
  "NSDialerReceiver_OnMessage unm junm s b =
     (let (skipLen, data) = Unpack b in
      if 0 < skipLen then
        (case unm data of
           None \<Rightarrow> Some (s, skipLen, True)
         | Some ssmsg \<Rightarrow> do {
             e \<leftarrow> nsEvent junm (ssCmd ssmsg) (ssMsg ssmsg);
             case e of
               Inl _ \<Rightarrow> Some (s, skipLen, True)
             | Inr None \<Rightarrow> Some (s, skipLen, False)
             | Inr (Some ev) \<Rightarrow> Some (offerEvent s ev, skipLen, False) })
      else Some (s, skipLen, False))"

definition AgentDialerReceiver_OnMessage :: "skymeshServer \<Rightarrow> bytes \<Rightarrow> (skymeshServer \<times> nat \<times> bool) option" where
  "AgentDialerReceiver_OnMessage s b = Some (s, 0, False)"

section \<open>Behind the read loop\<close>

text \<open>
  What the receivers do with the body of a frame. The receiver of the other agents reads the clock, so
  its state is paired with the time.
\<close>

definition lisConn_body :: "unmarshal \<Rightarrow> skymeshServer \<times> int \<Rightarrow> bytes \<Rightarrow> ((skymeshServer \<times> int) \<times> bool) option" where
  "lisConn_body unm s d =
     (case unm d of None \<Rightarrow> Some (s, True) | Some m \<Rightarrow> map_option (\<lambda>t. ((t, snd s), False)) (lisConn_dispatch (snd s) (fst s) m))"

definition lisConn_recv :: "unmarshal \<Rightarrow> (skymeshServer \<times> int) receiver" where
  "lisConn_recv unm s b = map_option (\<lambda>(t, n, e). ((t, snd s), n, e)) (lisConnReceiver_OnMessage unm (snd s) (fst s) b)"

definition NSDialer_body ::
  "unmarshal \<Rightarrow> (bytes \<Rightarrow> ServiceAttr option) \<Rightarrow> skymeshServer \<Rightarrow> bytes \<Rightarrow> (skymeshServer \<times> bool) option" where
  "NSDialer_body unm junm s d =
     (case unm d of None \<Rightarrow> Some (s, True)
      | Some m \<Rightarrow> map_option (\<lambda>x. case x of Inl _ \<Rightarrow> (s, True) | Inr None \<Rightarrow> (s, False) | Inr (Some ev) \<Rightarrow> (offerEvent s ev, False))
          (nsEvent junm (ssCmd m) (ssMsg m)))"

interpretation lis_stream: frame_handler "lisConn_recv unm" "lisConn_body unm" for unm
  by unfold_locales
    (auto simp: lisConn_recv_def lisConnReceiver_OnMessage_def lisConn_body_def split: prod.split option.split Option.bind_splits)

interpretation ns_dialer_stream: frame_handler "NSDialerReceiver_OnMessage unm junm" "NSDialer_body unm junm" for unm junm
  by unfold_locales
    (auto simp: NSDialerReceiver_OnMessage_def NSDialer_body_def split: prod.split option.split sum.split Option.bind_splits)

section \<open>Messages on the wire\<close>

lemma NSDialer_frame:
  assumes "codec_ok mar unm" "PackSSMsg mar m = Some f" "nsEvent junm (ssCmd m) (ssMsg m) = Some (Inr (Some ev))"
  shows "NSDialerReceiver_OnMessage unm junm s (f @ rest) = Some (offerEvent s ev, length f, False)"
  using Unpack_PackSSMsg [OF assms(1,2), of rest] assms(3) by (auto simp: NSDialerReceiver_OnMessage_def)

lemma lisConn_frame:
  assumes "codec_ok mar unm" "PackSSMsg mar m = Some f" "lisConn_dispatch now s m = Some t"
  shows "lisConnReceiver_OnMessage unm now s (f @ rest) = Some (t, length f, False)"
  using Unpack_PackSSMsg [OF assms(1,2), of rest] assms(3) by (auto simp: lisConnReceiver_OnMessage_def)

end
