(* ===== verification/AgentInv.thy ===== *)
theory AgentInv
  imports AgentReceiver
begin

text \<open>
  The agent as a transition system: calls of the application, bytes from the network, the
  serving goroutine, the goroutines of the services and the timers interleave on the state of
  \<^verbatim>\<open>src/agent/server.go\<close>. The invariant of the indexes, queues, routers and of the sidecar
  holds in every reachable state.
\<close>

section \<open>Queues and configuration\<close>

definition same_queues :: "skymeshServer \<Rightarrow> skymeshServer \<Rightarrow> bool" where
  "same_queues s t \<longleftrightarrow> as_cfg t = as_cfg s \<and> as_eventQueue t = as_eventQueue s \<and> as_recvQueue t = as_recvQueue s"

lemma same_queues_refl [simp, intro]: "same_queues s s"
  by (simp add: same_queues_def)

lemma same_queues_trans: "same_queues s t \<Longrightarrow> same_queues t u \<Longrightarrow> same_queues s u"
  by (simp add: same_queues_def)

lemma same_queues_upd [simp]:
  "same_queues s (t\<lparr>as_mem := a\<rparr>) = same_queues s t" "same_queues s (t\<lparr>as_calls := b\<rparr>) = same_queues s t"
  "same_queues s (t\<lparr>as_sidecar := c\<rparr>) = same_queues s t" "same_queues s (t\<lparr>as_nameElections := d\<rparr>) = same_queues s t"
  "same_queues s (t\<lparr>as_nameRouters := e\<rparr>) = same_queues s t" "same_queues s (t\<lparr>as_urlServices := f\<rparr>) = same_queues s t"
  "same_queues s (t\<lparr>as_handleServices := g\<rparr>) = same_queues s t"
  "same_queues s (t\<lparr>as_nameGroupServices := k\<rparr>) = same_queues s t"
  "same_queues s (t\<lparr>as_nameStates := l\<rparr>) = same_queues s t" "same_queues s (t\<lparr>as_next := m\<rparr>) = same_queues s t"
  by (simp_all add: same_queues_def)

lemma same_queues_ops [simp]:
  "same_queues s (srv_push t r m) = same_queues s t" "same_queues s (setElection t n x) = same_queues s t"
  "same_queues s (setRouter t n y) = same_queues s t" "same_queues s (fst (with_sidecar t z)) = same_queues s t"
  "same_queues s (srv_acks mar env t ps) = same_queues s t"
  by (simp_all add: srv_push_def setElection_def setRouter_def with_sidecar_def srv_acks_def)

lemma same_queues_stop: "srv_stop mar env s r = Some t \<Longrightarrow> same_queues s t"
  by (auto simp: srv_stop_def split: Option.bind_splits)

lemma same_queues_UnRegister: "srv_UnRegister mar env s url = Some t \<Longrightarrow> same_queues s t"
  by (auto simp: srv_UnRegister_def Let_def with_sidecar_def split: option.splits Option.bind_splits
      dest!: same_queues_stop) (auto simp: same_queues_def setElection_def)

lemma same_queues_Register:
  "srv_Register mar env mk s url opts = Some (t, res) \<Longrightarrow> same_queues s t"
  by (auto simp: srv_Register_def Let_def with_sidecar_def split: option.splits sum.splits Option.bind_splits if_splits prod.splits)

lemma same_queues_onRegisterApp: "same_queues s (srv_onRegisterApp s leaders)"
proof (induction leaders arbitrary: s)
  case (Cons a as)
  show ?case unfolding srv_onRegisterApp_def
    using same_queues_trans [OF _ Cons [unfolded srv_onRegisterApp_def]] by simp
qed (simp add: srv_onRegisterApp_def)

lemma same_queues_onEvent: "srv_onEvent mar env s e = Some t \<Longrightarrow> same_queues s t"
  by (cases e) (auto simp: srv_onEvent_def Let_def srv_onRouterUpdate_def same_queues_onRegisterApp
      same_queues_UnRegister split: option.splits if_splits)

lemma same_queues_onRecv: "same_queues s (srv_onRecv s m)"
  by (auto simp: srv_onRecv_def split: option.split)

section \<open>Preservation by the calls of the application\<close>

lemma agent_ok_UrlSend: "agent_ok s \<Longrightarrow> agent_ok (fst (srv_sendBySvcUrl mar env s src url b))"
  by (auto simp: srv_sendBySvcUrl_def with_sidecar_def agent_ok_push sc_SendRemoteBySvcUrl_def
      intro!: agent_ok_sends SendRemote_sends split: option.split)

lemma agent_ok_RouterSend: "agent_ok s \<Longrightarrow> agent_ok (fst (srv_sendByRouter mar env s src n b))"
  by (auto simp: srv_sendByRouter_def agent_ok_sendByHandle split: option.split)

lemma agent_ok_pushes: "agent_ok s \<Longrightarrow> agent_ok (fold (\<lambda>(lh, r) s. srv_push s r (DataMessage src lh b)) xs s)"
  by (induction xs arbitrary: s) (auto simp: agent_ok_push)

lemma agent_ok_broadcast: "agent_ok s \<Longrightarrow> agent_ok (srv_broadcastBySvcName mar env s src n b)"
  unfolding srv_broadcastBySvcName_def Let_def by (intro agent_ok_sends agent_ok_pushes SendAllRemote_sends)

lemma same_queues_pushes: "same_queues s (fold (\<lambda>(lh, r) s. srv_push s r (DataMessage src lh b)) xs s)"
proof -
  have "same_queues s (fold (\<lambda>(lh, r) s. srv_push s r (DataMessage src lh b)) xs t)" if "same_queues s t" for t
    using that by (induction xs arbitrary: t) auto
  then show ?thesis by simp
qed

lemma same_queues_sends:
  "same_queues s (fst (srv_sendByHandle mar env s src h b))" "same_queues s (fst (srv_sendBySvcUrl mar env s src url b))"
  "same_queues s (fst (srv_sendByRouter mar env s src n b))" "same_queues s (srv_broadcastBySvcName mar env s src n b)"
  by (auto simp: srv_sendByHandle_def srv_sendBySvcUrl_def srv_sendByRouter_def srv_broadcastBySvcName_def Let_def
      same_queues_pushes split: option.split)

lemma agent_ok_nsSend:
  "agent_ok s \<Longrightarrow> as_sidecar s = sc \<Longrightarrow> agent_ok (s\<lparr>as_sidecar := fst (nsSendMsg mar env sc msg)\<rparr>)"
  using agent_ok_sends [OF _ nsSendMsg_sends] by auto

lemma agent_ok_election:
  "agent_ok s \<Longrightarrow> agent_ok (fst (srv_runForElection mar env s a c))"
  "agent_ok s \<Longrightarrow> agent_ok (fst (srv_giveUpElection mar env s a))"
  "agent_ok s \<Longrightarrow> agent_ok (fst (srv_watchElection s a n w))"
  "agent_ok s \<Longrightarrow> agent_ok (fst (srv_unWatchElection s a n))"
  by (auto simp: srv_runForElection_def srv_giveUpElection_def srv_watchElection_def srv_unWatchElection_def
      srv_getNameElection_def Let_def with_sidecar_def sc_SyncNameServerElection_def setElection_def
      intro!: agent_ok_nsSend split: option.split prod.split)

lemma same_queues_election:
  "same_queues s (fst (srv_runForElection mar env s a c))" "same_queues s (fst (srv_giveUpElection mar env s a))"
  "same_queues s (fst (srv_watchElection s a n w))" "same_queues s (fst (srv_unWatchElection s a n))"
  by (auto simp: srv_runForElection_def srv_giveUpElection_def srv_watchElection_def srv_unWatchElection_def
      srv_getNameElection_def Let_def with_sidecar_def split: option.split prod.split)

lemma addInst_inv: "router_inv nr \<Longrightarrow> router_inv (addInst s n hi nr)"
  by (auto simp: addInst_def Let_def router_inv_AddInstsAddr router_inv_AddInstsAttr router_inv_AddInstsOpts
      split: prod.split option.split)

lemma agent_ok_GetNameRouter:
  assumes "agent_ok s"
  shows "agent_ok (srv_GetNameRouter mar env s n)"
proof -
  have fold_inv: "router_inv nr \<Longrightarrow> router_inv (fold (addInst t n) xs nr)" for t xs nr
    by (induction xs arbitrary: nr) (auto simp: addInst_inv)
  let ?t = "fst (with_sidecar (setRouter s n (newNameRouter n, [])) (sc_RegisterRouterToNameServer mar env (as_sidecar s) n))"
  have "agent_ok (setRouter s n (newNameRouter n, []))" by (rule agent_ok_setRouter [OF assms]) (simp add: router_inv_new)
  moreover have "sc_sends (as_sidecar (setRouter s n (newNameRouter n, []))) (fst (sc_RegisterRouterToNameServer mar env (as_sidecar s) n))"
    using nsSendMsg_sends by (simp add: setRouter_def sc_RegisterRouterToNameServer_def)
  ultimately have t: "agent_ok ?t" unfolding with_sidecar_def fst_conv by (rule agent_ok_sends)
  show "agent_ok (srv_GetNameRouter mar env s n)"
    using assms t agent_ok_routerD [OF assms] agent_ok_routerD [OF t] unfolding srv_GetNameRouter_def Let_def
    by (intro agent_ok_setRouter) (auto split: option.split intro!: fold_inv router_inv_new)
qed

lemma same_queues_GetNameRouter: "same_queues s (srv_GetNameRouter mar env s n)"
  by (simp add: srv_GetNameRouter_def Let_def split: option.split)

lemma same_queues_setAttr: "same_queues s (fst (ss_SetAttribute mar jmar env s r attrs))"
  by (simp add: ss_SetAttribute_def srv_setAttribute_def Let_def split: option.split)

lemma agent_ok_setAttr:
  assumes "agent_ok s"
  shows "agent_ok (fst (ss_SetAttribute mar jmar env s r attrs))"
proof -
  let ?s = "s\<lparr>as_mem := (as_mem s)(r := (as_mem s r)\<lparr>ss_attrs := copyAttrs attrs\<rparr>)\<rparr>"
  have ok: "agent_ok ?s"
    by (rule agent_ok_mem [OF assms]) (use assms in \<open>auto simp: agent_ok_def queues_ok_def service_ok_def\<close>)
  let ?a = "ss_addr (as_mem s r)"
  let ?t = "case mget (as_nameRouters ?s) (ServiceName ?a) of None \<Rightarrow> ?s
      | Some nr \<Rightarrow> setRouter ?s (ServiceName ?a) (sr_notifyInstsAttrs nr (ServiceId ?a) (copyAttrs attrs))"
  have t: "agent_ok ?t" using ok agent_ok_routerD [OF ok]
    by (auto simp del: agent_ok_frame intro!: agent_ok_setRouter router_inv_notifyAttrs split: option.split)
  have eq: "fst (ss_SetAttribute mar jmar env s r attrs) =
      ?t\<lparr>as_sidecar := fst (sc_SyncServiceAttrToNameServer mar jmar env (as_sidecar ?t) ?a (copyAttrs attrs))\<rparr>"
    by (cases "mget (as_nameRouters s) (ServiceName ?a)")
      (simp_all add: ss_SetAttribute_def srv_setAttribute_def Let_def with_sidecar_def)
  have "sc_sends sc (fst (sc_SyncServiceAttrToNameServer mar jmar env sc a d))" for sc a d
    by (auto simp: sc_SyncServiceAttrToNameServer_def nsSendMsg_sends split: option.split)
  with t show "agent_ok (fst (ss_SetAttribute mar jmar env s r attrs))" unfolding eq by (rule agent_ok_sends)
qed

section \<open>Preservation by the timers and by the release\<close>

lemma agent_ok_keepalive:
  "agent_ok s \<Longrightarrow> agent_ok (s\<lparr>as_sidecar := sc_keepalive mar env (as_sidecar s) hs\<rparr>)"
proof -
  have "sc_sends sc (sc_keepalive mar env sc hs)" for sc
    unfolding sc_keepalive_def by (induction hs arbitrary: sc) (auto intro: sc_sends_trans [OF nsSendMsg_sends])
  then show "agent_ok s \<Longrightarrow> agent_ok (s\<lparr>as_sidecar := sc_keepalive mar env (as_sidecar s) hs\<rparr>)"
    by (rule agent_ok_sends [rotated])
qed

lemma fold_keeps: "P s \<Longrightarrow> (\<And>x s. P s \<Longrightarrow> P (f x s)) \<Longrightarrow> P (fold f xs s)"
  by (induction xs arbitrary: s) auto

lemma rs_onSendPing_addr [simp]: "rs_serviceAddr (rs_onSendPing now rs) = rs_serviceAddr rs"
  by (simp add: rs_onSendPing_def)

lemma healthCheck_ok:
  assumes "sidecar_ok sc"
  shows "sidecar_ok (sc_healthCheck mar env now addr sc)"
proof -
  let ?f = "\<lambda>r sc. case AgentDialerMgr_GetDialer env sc (rs_serverAddr (sc_mem sc r)) of
           (sc, Some e) \<Rightarrow> sc
         | (sc, None) \<Rightarrow>
             (let sc = sc\<lparr>sc_mem := (sc_mem sc)(r := rs_onSendPing now (sc_mem sc r))\<rparr>;
                  rs = sc_mem sc r in
              case PackSSMsg mar (SSMsg REQ_PING_SERVICE
                     (Some (ServicePingReq (AddrHandle (rs_serviceAddr rs)) (rs_curPingSeq rs) addr))) of
                None \<Rightarrow> sc
              | Some data \<Rightarrow> fst (agentSend env sc (rs_serverAddr rs) data))"
  have step: "sidecar_ok (?f r c)" if "sidecar_ok c" for r c
  proof -
    obtain d e where d: "AgentDialerMgr_GetDialer env c (rs_serverAddr (sc_mem c r)) = (d, e)" by fastforce
    have "sidecar_ok d" using sc_sends_ok [OF GetDialer_sends that] d by (metis fst_conv)
    then have "sidecar_ok (d\<lparr>sc_mem := (sc_mem d)(r := rs_onSendPing now (sc_mem d r))\<rparr>)"
      by (rule sidecar_ok_mem) simp
    then show ?thesis using \<open>sidecar_ok d\<close> sc_sends_ok [OF agentSend_sends]
      by (auto simp: d Let_def split: option.split)
  qed
  show ?thesis unfolding sc_healthCheck_def by (rule fold_keeps [where P = sidecar_ok, OF assms step])
qed

lemma agent_ok_cleared:
  "agent_ok u \<Longrightarrow> agent_ok (u\<lparr>as_sidecar := sc_Release (as_sidecar u), as_urlServices := [], as_handleServices := [],
     as_nameGroupServices := [], as_nameRouters := [], as_nameElections := [], as_nameStates := []\<rparr>)"
  by (simp add: agent_ok_def index_ok_def queues_ok_def routers_ok_def svc_group_def sidecar_ok_Release)

lemma agent_ok_Release:
  assumes "agent_ok s"
  shows "\<exists>t. srv_Release mar env s = Some t \<and> agent_ok t \<and> as_cfg t = as_cfg s \<and> as_eventQueue t = as_eventQueue s \<and>
    (as_recvQueue t = as_recvQueue s \<or> as_recvQueue t = [])"
proof (cases "srv_isInState s SkymeshServerRunning")
  case True
  let ?s1 = "fst (srv_setState s SkymeshServerStop)"
  have s1: "agent_ok ?s1" "same_queues s ?s1" using assms
    by (simp_all add: srv_setState_def agent_ok_def index_ok_def queues_ok_def queueCap_def svc_group_def routers_ok_def same_queues_def)
  have recv: "agent_ok (fold (\<lambda>m s. srv_onRecv s m) ms t) \<and> same_queues t (fold (\<lambda>m s. srv_onRecv s m) ms t)" if "agent_ok t" for ms t
    by (rule fold_keeps [where P = "\<lambda>u. agent_ok u \<and> same_queues t u"])
      (use that in \<open>auto simp: agent_ok_onRecv intro: same_queues_trans [OF _ same_queues_onRecv]\<close>)
  let ?s2 = "(fold (\<lambda>m s. srv_onRecv s m) (as_recvQueue ?s1) ?s1)\<lparr>as_recvQueue := []\<rparr>"
  have s2: "agent_ok ?s2" "as_cfg ?s2 = as_cfg s" "as_eventQueue ?s2 = as_eventQueue s"
    using recv [OF s1(1), of "as_recvQueue ?s1"] s1(2) by (auto simp: same_queues_def)
  let ?P = "\<lambda>t. agent_ok t \<and> as_next t = as_next ?s2 \<and> as_cfg t = as_cfg s \<and> as_eventQueue t = as_eventQueue s \<and> as_recvQueue t = []"
  let ?f = "\<lambda>r t. srv_stop mar env (fst (with_sidecar t (sc_UnRegisterServiceToNameServer mar env (as_sidecar t) (ss_addr (as_mem t r))))) r"
  have "\<exists>u. ?f r t = Some u \<and> ?P u" if r: "r \<in> set (mvals (as_handleServices ?s2))" and t: "?P t" for r t
  proof -
    let ?t = "fst (with_sidecar t (sc_UnRegisterServiceToNameServer mar env (as_sidecar t) (ss_addr (as_mem t r))))"
    have ok: "agent_ok ?t" unfolding with_sidecar_def fst_conv sc_UnRegisterServiceToNameServer_def
      by (rule agent_ok_nsSend) (use t in auto)
    have "index_ok ?s2" using s2(1) by (simp add: agent_ok_def)
    from r in_mvals_iff [OF index_okD(2) [OF this]] index_okD(5) [OF this]
    have "r < as_next ?t" using t by (auto simp: with_sidecar_def)
    from agent_ok_stop [OF ok this, of mar env] obtain u where "srv_stop mar env ?t r = Some u" "agent_ok u" "as_next u = as_next ?t"
      by blast
    then show ?thesis using t same_queues_stop [of mar env ?t r u] by (auto simp: same_queues_def with_sidecar_def)
  qed
  note step = this
  have "\<exists>u. rangeM ?f (mvals (as_handleServices ?s2)) ?s2 = Some u \<and> ?P u"
    by (rule rangeM_total [where P = ?P]) (use s2 in simp, use step in blast)
  then obtain u where u: "rangeM ?f (mvals (as_handleServices ?s2)) ?s2 = Some u" "?P u" by auto
  have "agent_ok (u\<lparr>as_sidecar := sc_Release (as_sidecar u), as_urlServices := [], as_handleServices := [],
      as_nameGroupServices := [], as_nameRouters := [], as_nameElections := [], as_nameStates := []\<rparr>)"
    by (rule agent_ok_cleared) (use u(2) in blast)
  then show ?thesis using True u by (simp add: srv_Release_def Let_def)
qed (use assms in \<open>simp add: srv_Release_def\<close>)

section \<open>The agent as a transition system\<close>

text \<open>
  \<open>clean_url\<close> is what a registration needs for its indexes to agree: the URL is the canonical
  one of its address and no local service has its handle.
\<close>

definition clean_url :: "(string \<Rightarrow> string \<Rightarrow> u64 \<Rightarrow> u64 option) \<Rightarrow> skymeshServer \<Rightarrow> string \<Rightarrow> bool" where
  "clean_url mk s url \<longleftrightarrow> (\<forall>addr h. SkymeshUrl2Addr (StripSkymeshUrlPrefix url) = Inr addr \<longrightarrow>
     mk (MeshserverAddress (as_cfg s)) (ServiceName addr) (ServiceId addr) = Some h \<longrightarrow>
     addrServiceUrl addr = StripSkymeshUrlPrefix url \<and> mget (as_handleServices s) h = None)"

text \<open>
  A blocking send on the receive queue completes only when there is room. An event is handled
  when it is consistent: an offline notification names the service under its handle.
\<close>

inductive agent_step ::
  "marshal \<Rightarrow> unmarshal \<Rightarrow> (ServiceAttr \<Rightarrow> bytes option) \<Rightarrow> (bytes \<Rightarrow> ServiceAttr option) \<Rightarrow>
     (string \<Rightarrow> string \<Rightarrow> u64 \<Rightarrow> u64 option) \<Rightarrow> skymeshServer \<Rightarrow> skymeshServer \<Rightarrow> bool"
  for mar unm jmar junm mk where
  a_start: "agent_step mar unm jmar junm mk s (fst (srv_setState s SkymeshServerRunning))"
| a_register: "srv_Register mar env mk s url opts = Some (t, res) \<Longrightarrow> clean_url mk s url \<Longrightarrow> agent_step mar unm jmar junm mk s t"
| a_wait: "srv_RegisterWait mar env s url r code = Some (t, res) \<Longrightarrow> agent_step mar unm jmar junm mk s t"
| a_unregister: "srv_UnRegister mar env s url = Some t \<Longrightarrow> agent_step mar unm jmar junm mk s t"
| a_send: "t = fst (srv_sendByHandle mar env s src h b) \<Longrightarrow> agent_step mar unm jmar junm mk s t"
| a_sendUrl: "t = fst (srv_sendBySvcUrl mar env s src url b) \<Longrightarrow> agent_step mar unm jmar junm mk s t"
| a_sendRouter: "t = fst (srv_sendByRouter mar env s src n b) \<Longrightarrow> agent_step mar unm jmar junm mk s t"
| a_broadcast: "t = srv_broadcastBySvcName mar env s src n b \<Longrightarrow> agent_step mar unm jmar junm mk s t"
| a_runFor: "t = fst (srv_runForElection mar env s src cand) \<Longrightarrow> agent_step mar unm jmar junm mk s t"
| a_giveUp: "t = fst (srv_giveUpElection mar env s src) \<Longrightarrow> agent_step mar unm jmar junm mk s t"
| a_watchElection: "t = fst (srv_watchElection s src n watcher) \<Longrightarrow> agent_step mar unm jmar junm mk s t"
| a_unWatchElection: "t = fst (srv_unWatchElection s src n) \<Longrightarrow> agent_step mar unm jmar junm mk s t"
| a_getRouter: "t = srv_GetNameRouter mar env s n \<Longrightarrow> agent_step mar unm jmar junm mk s t"
| a_watchRouter: "mget (as_nameRouters s) n = Some nr \<Longrightarrow> t = setRouter s n (sr_Watch nr w) \<Longrightarrow>
    agent_step mar unm jmar junm mk s t"
| a_unWatchRouter: "mget (as_nameRouters s) n = Some nr \<Longrightarrow> t = setRouter s n (sr_UnWatch nr w, []) \<Longrightarrow>
    agent_step mar unm jmar junm mk s t"
| a_setAttr: "t = fst (ss_SetAttribute mar jmar env s r attrs) \<Longrightarrow> agent_step mar unm jmar junm mk s t"
| a_fromNs: "NSDialerReceiver_OnMessage unm junm s b = Some (t, skip, err) \<Longrightarrow> agent_step mar unm jmar junm mk s t"
| a_fromAgent: "lisConnReceiver_OnMessage unm now s b = Some (t, skip, err) \<Longrightarrow>
    length (as_recvQueue s) < nat (RecvQueueSize (as_cfg s)) \<Longrightarrow> agent_step mar unm jmar junm mk s t"
| a_event: "srv_Serve_event mar env s = Some t \<Longrightarrow> as_eventQueue s = e # es \<Longrightarrow> event_consistent s e \<Longrightarrow>
    agent_step mar unm jmar junm mk s t"
| a_recv: "agent_step mar unm jmar junm mk s (srv_Serve_recv s)"
| a_service: "r < as_next s \<Longrightarrow> ss_Serve_step (as_mem s r) = (svc, Handled cs ps) \<Longrightarrow>
    t = srv_acks mar env (s\<lparr>as_mem := (as_mem s)(r := svc), as_calls := as_calls s @ map CApp cs\<rparr>) ps \<Longrightarrow>
    agent_step mar unm jmar junm mk s t"
| a_keepalive: "t = s\<lparr>as_sidecar := sc_keepalive mar env (as_sidecar s) (mkeys (as_handleServices s))\<rparr> \<Longrightarrow>
    agent_step mar unm jmar junm mk s t"
| a_healthCheck: "t = s\<lparr>as_sidecar := sc_healthCheck mar env now (MeshserverAddress (as_cfg s)) (as_sidecar s)\<rparr> \<Longrightarrow>
    agent_step mar unm jmar junm mk s t"
| a_release: "srv_Release mar env s = Some t \<Longrightarrow> agent_step mar unm jmar junm mk s t"

inductive agent_reach ::
  "marshal \<Rightarrow> unmarshal \<Rightarrow> (ServiceAttr \<Rightarrow> bytes option) \<Rightarrow> (bytes \<Rightarrow> ServiceAttr option) \<Rightarrow>
     (string \<Rightarrow> string \<Rightarrow> u64 \<Rightarrow> u64 option) \<Rightarrow> skymeshServer \<Rightarrow> skymeshServer \<Rightarrow> bool"
  for mar unm jmar junm mk where
  a_refl: "agent_reach mar unm jmar junm mk s s"
| a_more: "agent_reach mar unm jmar junm mk s t \<Longrightarrow> agent_step mar unm jmar junm mk t u \<Longrightarrow> agent_reach mar unm jmar junm mk s u"

definition agent_inv :: "skymeshServer \<Rightarrow> bool" where
  "agent_inv s \<longleftrightarrow> agent_ok s \<and> length (as_eventQueue s) \<le> nat (EventQueueSize (as_cfg s)) \<and>
     length (as_recvQueue s) \<le> nat (RecvQueueSize (as_cfg s))"

lemma agent_inv_frame: "agent_inv s \<Longrightarrow> same_queues s t \<Longrightarrow> agent_ok t \<Longrightarrow> agent_inv t"
  by (simp add: agent_inv_def same_queues_def)

lemma agent_inv_of: "agent_inv s \<Longrightarrow> same_queues s t \<Longrightarrow> (agent_ok s \<Longrightarrow> agent_ok t) \<Longrightarrow> agent_inv t"
  by (simp add: agent_inv_def same_queues_def)

lemma ss_Serve_addr: "ss_addr (fst (ss_Serve_step s)) = ss_addr s"
  by (auto simp: ss_Serve_step_def ss_Serve_message_def split: list.split Message.split)

lemma agent_ok_service:
  assumes ok: "agent_ok s" and r: "r < as_next s" and svc: "ss_Serve_step (as_mem s r) = (svc, res)"
  shows "agent_ok (srv_acks mar env (s\<lparr>as_mem := (as_mem s)(r := svc), as_calls := c\<rparr>) ps)"
proof -
  have "service_ok (queueCap s) (as_mem s r)" using ok r by (simp add: agent_ok_def queues_ok_def)
  then have "agent_ok (s\<lparr>as_mem := (as_mem s)(r := svc)\<rparr>)"
    using agent_ok_mem [OF ok, of svc r] ss_Serve_addr [of "as_mem s r"] service_ok_Serve [of "queueCap s" "as_mem s r"] svc by simp
  then have "agent_ok (s\<lparr>as_mem := (as_mem s)(r := svc), as_calls := c\<rparr>)" by simp
  then show ?thesis unfolding srv_acks_def by (rule agent_ok_sends) (simp add: acks_sends)
qed

lemma Register_cases:
  assumes t: "srv_Register mar env mk s url opts = Some (t, res)"
  obtains "t = s" | sc where "t = s\<lparr>as_sidecar := sc\<rparr>" "sc_sends (as_sidecar s) sc"
    | addr h sc ropts where "mget (as_urlServices s) (StripSkymeshUrlPrefix url) = None"
      "SkymeshUrl2Addr (StripSkymeshUrlPrefix url) = Inr addr"
      "mk (MeshserverAddress (as_cfg s)) (ServiceName addr) (ServiceId addr) = Some h" "sc_sends (as_sidecar s) sc"
      "t = svc_added (s\<lparr>as_sidecar := sc\<rparr>) (StripSkymeshUrlPrefix url) (newService (addr\<lparr>AddrHandle := h\<rparr>) ropts) (GetServiceStateType ropts)"
proof (cases "mget (as_urlServices s) (StripSkymeshUrlPrefix url)")
  case (Some svc)
  then show ?thesis using t that(1) by (simp add: srv_Register_def Let_def)
next
  case None
  let ?o = "fold (\<lambda>opt ro. opt ro) opts defaultRegisterOptions"
  show ?thesis
  proof (cases "SkymeshUrl2Addr (StripSkymeshUrlPrefix url)")
    case (Inl e)
    then show ?thesis using t that(1) None by (simp add: srv_Register_def Let_def)
  next
    case (Inr addr)
    obtain h where h: "mk (MeshserverAddress (as_cfg s)) (ServiceName addr) (ServiceId addr) = Some h"
      using t None Inr by (cases "mk (MeshserverAddress (as_cfg s)) (ServiceName addr) (ServiceId addr)")
        (simp_all add: srv_Register_def Let_def)
    obtain sc e where sc: "sc_RegisterServiceToNameServer mar env (as_sidecar s) (addr\<lparr>AddrHandle := h\<rparr>) ?o = (sc, e)" by fastforce
    have snd: "sc_sends (as_sidecar s) sc"
      using nsSendMsg_sends sc unfolding sc_RegisterServiceToNameServer_def by (metis fst_conv)
    show ?thesis
    proof (cases "srv_getServiceStateType s (ServiceName addr) \<in> {KUnknowStateService, GetServiceStateType ?o}")
      case False
      then show ?thesis using t that(1) None Inr h by (simp add: srv_Register_def Let_def)
    next
      case True
      show ?thesis
      proof (cases e)
        case None' : None
        from Register_new [where mkHandle = mk and mar = mar and env = env, OF None Inr h True sc [unfolded None']] t that(3) [OF None Inr h snd] show ?thesis by simp
      next
        case (Some err)
        then show ?thesis using t that(2) [OF _ snd] True None Inr h sc
          by (auto simp: srv_Register_def Let_def with_sidecar_def)
      qed
    qed
  qed
qed

lemma agent_ok_Register:
  assumes ok: "agent_ok s" and t: "srv_Register mar env mk s url opts = Some (t, res)" and c: "clean_url mk s url"
  shows "agent_ok t"
  using t
proof (cases rule: Register_cases)
  case (2 sc)
  then show ?thesis using agent_ok_sends [OF ok] by simp
next
  case (3 addr h sc ropts)
  have "addrServiceUrl addr = StripSkymeshUrlPrefix url" "mget (as_handleServices s) h = None"
    using c 3(2,3) by (auto simp: clean_url_def)
  then show ?thesis unfolding 3(5)
    by (intro agent_ok_added agent_ok_sends [OF ok 3(4)]) (use 3(1) in \<open>simp_all add: addrServiceUrl_def\<close>)
qed (use ok in simp)

lemma lisConn_effect:
  assumes "lisConnReceiver_OnMessage unm now s b = Some (t, k, e)"
  shows "(\<exists>m. t = s\<lparr>as_recvQueue := as_recvQueue s @ m\<rparr> \<and> length m \<le> 1) \<or>
    (\<exists>h q. t = s\<lparr>as_sidecar := sc_recvPingAck now (as_sidecar s) h q\<rparr>)"
  using assms
  by (auto simp: lisConnReceiver_OnMessage_def lisConn_dispatch_def split: prod.splits if_splits option.splits
      Option.bind_splits SSCmd.splits elim!: onServiceMessage.elims onPingReq.elims onPingRsp.elims
      intro: exI [of _ "[]"])

lemma event_consistent_queue [simp]: "event_consistent (s\<lparr>as_eventQueue := q\<rparr>) e = event_consistent s e"
  by (auto simp: event_consistent_def split: AgentEvent.split option.split)

lemma agent_step_inv:
  assumes "agent_step mar unm jmar junm mk s t" "agent_inv s"
  shows "agent_inv t"
  using assms
proof (induction rule: agent_step.induct)
  case (a_start s)
  then show ?case by (auto simp: agent_inv_def srv_setState_def agent_ok_def index_ok_def queues_ok_def queueCap_def
        svc_group_def routers_ok_def)
next
  case (a_register env s url opts t res)
  then show ?case using agent_ok_Register same_queues_Register by (blast intro: agent_inv_frame dest: agent_inv_def [THEN iffD1])
next
  case (a_wait env s url r code t res)
  then show ?case
    using UnRegister_agent_ok [of s mar env url] same_queues_UnRegister [of mar env s url]
    by (auto simp: srv_RegisterWait_def agent_inv_def same_queues_def split: option.splits if_splits Option.bind_splits)
next
  case (a_unregister env s url t)
  then show ?case using UnRegister_agent_ok [of s mar env url] same_queues_UnRegister [of mar env s url]
    by (auto simp: agent_inv_def same_queues_def)
next
  case (a_fromNs s b t skip err)
  then show ?case
    by (auto simp: NSDialerReceiver_OnMessage_def agent_inv_def offerEvent_def chan_offer_bound
        split: prod.splits if_splits option.splits Option.bind_splits sum.splits)
next
  case (a_fromAgent now s b t skip err)
  then show ?case using lisConn_effect [OF a_fromAgent.hyps(1)]
    by (auto simp: agent_inv_def intro!: agent_ok_side sidecar_ok_recvPingAck) (simp add: agent_ok_def)
next
  case (a_event env s t e es)
  let ?s = "s\<lparr>as_eventQueue := es\<rparr>"
  have t: "srv_onEvent mar env ?s e = Some t" using a_event.hyps(1,2) by (simp add: srv_Serve_event_def)
  have "event_consistent ?s e" using a_event.hyps(3) by simp
  then have "agent_ok t" using onEvent_ok [of ?s e mar env] t a_event.prems by (auto simp: agent_inv_def)
  then show ?case using same_queues_onEvent [OF t] a_event.prems a_event.hyps(2) by (auto simp: agent_inv_def same_queues_def)
next
  case (a_recv s)
  show ?case
  proof (cases "as_recvQueue s")
    case (Cons m ms)
    let ?s = "s\<lparr>as_recvQueue := ms\<rparr>"
    have "agent_inv ?s" using a_recv Cons by (simp add: agent_inv_def)
    then show ?thesis using Cons agent_inv_frame [OF _ same_queues_onRecv, of ?s m] agent_ok_onRecv [of ?s m]
      by (simp add: srv_Serve_recv_def agent_inv_def)
  qed (use a_recv in \<open>simp add: srv_Serve_recv_def\<close>)
next
  case (a_release env s t)
  then show ?case using agent_ok_Release [of s mar env] by (auto simp: agent_inv_def)
next
  case (a_healthCheck s now)
  then show ?case by (auto elim!: agent_inv_of intro!: agent_ok_side healthCheck_ok) (simp add: agent_ok_def)
qed (auto elim!: agent_inv_of simp: same_queues_sends same_queues_election agent_ok_sendByHandle agent_ok_UrlSend
    agent_ok_RouterSend agent_ok_broadcast agent_ok_election agent_ok_GetNameRouter agent_ok_setAttr
    same_queues_GetNameRouter same_queues_setAttr agent_ok_service agent_ok_keepalive
    intro!: agent_ok_setRouter router_inv_Watch router_inv_UnWatch dest: agent_ok_routerD)

lemma agent_reach_inv: "agent_reach mar unm jmar junm mk s t \<Longrightarrow> agent_inv s \<Longrightarrow> agent_inv t"
  by (induction rule: agent_reach.induct) (auto intro: agent_step_inv)

lemma agent_inv_init: "agent_inv (srv_Init appID cfg ss0 rs0)"
  by (simp add: agent_inv_def agent_ok_init) (simp add: srv_Init_def)

section \<open>Properties\<close>

text \<open>
  C9: In every state an agent reaches, by any interleaving of calls of the application, bytes from the
  name server and from other agents, handled events and messages, service goroutines and timers, its
  three indexes of local services agree, every queue is within its capacity, every router and the
  sidecar are consistent, and the next event, when it is consistent, is handled without a panic;
  registrations are assumed to use the canonical URL and a handle no local service has.
\<close>

theorem agent_reachable_safe:
  assumes "agent_reach mar unm jmar junm mk (srv_Init appID cfg ss0 rs0) s"
  shows "index_ok s \<and> queues_ok s \<and> routers_ok s \<and> sidecar_ok (as_sidecar s) \<and>
    length (as_eventQueue s) \<le> nat (EventQueueSize (as_cfg s)) \<and>
    length (as_recvQueue s) \<le> nat (RecvQueueSize (as_cfg s)) \<and>
    (\<forall>e es env. as_eventQueue s = e # es \<and> event_consistent s e \<longrightarrow> (\<exists>t. srv_Serve_event mar env s = Some t \<and> agent_ok t))"
proof -
  have inv: "agent_inv s" by (rule agent_reach_inv [OF assms agent_inv_init])
  have "\<exists>t. srv_Serve_event mar env s = Some t \<and> agent_ok t" if "as_eventQueue s = e # es" "event_consistent s e" for e es env
  proof -
    have "event_consistent (s\<lparr>as_eventQueue := es\<rparr>) e" using that(2) by simp
    with onEvent_ok [of "s\<lparr>as_eventQueue := es\<rparr>" e mar env] inv that(1) show ?thesis
      by (auto simp: srv_Serve_event_def agent_inv_def)
  qed
  then show ?thesis using inv by (auto simp: agent_inv_def agent_ok_def)
qed

definition ex_cfg :: AgentConfig where
  "ex_cfg = \<lparr>NameserverAddress = ''ns1'', MeshserverAddress = ''127.0.0.1:80'', RecvQueueSize = 10, ServiceQueueSize = 10,
     EventQueueSize = 10, ServicePingInterval = 5, ServiceKeepAliveInterval = 5\<rparr>"

definition ex_env :: NetEnv where
  "ex_env = \<lparr>ne_nsErr = None, ne_dialErr = (\<lambda>_. None), ne_sendErr = (\<lambda>_. None)\<rparr>"

definition ex_addr :: Addr where
  "ex_addr = \<lparr>ServiceName = ''svc'', ServiceId = 1, AddrHandle = 9\<rparr>"

definition ex_agent0 :: skymeshServer where
  "ex_agent0 = srv_Init ''app'' ex_cfg (newService ex_addr defaultRegisterOptions) (newRemoteService ''h2'' ex_addr defaultRegisterOptions)"

lemma ex_url: "StripSkymeshUrlPrefix ''svc/1'' = ''svc/1''"
  "SkymeshUrl2Addr ''svc/1'' = Inr \<lparr>ServiceName = ''svc'', ServiceId = 1, AddrHandle = 0\<rparr>"
  "addrServiceUrl ex_addr = ''svc/1''"
proof -
  have d: "dec (Suc 0) = ''1''" by code_simp
  show "StripSkymeshUrlPrefix ''svc/1'' = ''svc/1''" using Strip_plain [of "''svc''" "''1''"] by simp
  show "SkymeshUrl2Addr ''svc/1'' = Inr \<lparr>ServiceName = ''svc'', ServiceId = 1, AddrHandle = 0\<rparr>"
    using SkymeshUrl_roundtrip_lemma [of ex_addr False] by (simp add: SkymeshAddr2Url_def ex_addr_def d)
  show "addrServiceUrl ex_addr = ''svc/1''" by (simp add: addrServiceUrl_def ex_addr_def d)
qed

definition ex_agent1 :: skymeshServer where
  "ex_agent1 = svc_added (ex_agent0\<lparr>as_sidecar := (as_sidecar ex_agent0)\<lparr>sc_nsOut := [Pack [1]]\<rparr>\<rparr>) ''svc/1''
     (newService ex_addr defaultRegisterOptions) (GetServiceStateType defaultRegisterOptions)"

lemma ex_register:
  "srv_Register (\<lambda>_. Some [1]) ex_env (\<lambda>_ _ _. Some 9) ex_agent0 ''svc/1'' [] = Some (ex_agent1, Inr 0)"
  by (simp add: srv_Register_def Let_def ex_url ex_agent0_def srv_Init_def srv_getServiceStateType_def
      sc_getServiceStateType_def sc_Init_def with_sidecar_def sc_RegisterServiceToNameServer_def nsSendMsg_def nsSend_def
      PackSSMsg_def ex_env_def ex_agent1_def svc_added_def ex_addr_def newService_def svc_group_def ex_cfg_def)

lemma ex_agent1_reach: "agent_reach (\<lambda>_. Some [1]) unm jmar junm (\<lambda>_ _ _. Some 9) ex_agent0 ex_agent1"
proof (rule agent_reach.a_more [OF agent_reach.a_refl agent_step.a_register [OF ex_register]])
  show "clean_url (\<lambda>_ _ _. Some 9) ex_agent0 ''svc/1''"
    using ex_url(3) by (auto simp: clean_url_def ex_url ex_agent0_def srv_Init_def addrServiceUrl_def ex_addr_def)
qed

theorem agent_reachable_safe_witness:
  "index_ok ex_agent1 \<and> mget (as_handleServices ex_agent1) 9 = Some 0 \<and> sidecar_ok (as_sidecar ex_agent1)"
  using agent_reachable_safe [OF ex_agent1_reach [unfolded ex_agent0_def, of "\<lambda>_. None" "\<lambda>_. None" "\<lambda>_. None"]]
  by (simp add: ex_agent1_def ex_agent0_def srv_Init_def svc_added_def ex_addr_def newService_def Let_def)

text \<open>
  A kick-off by the name server removes the service completely: after the event the handle is in
  none of the tables of the agent, its URL is free again, and the invariant still holds.
\<close>

theorem kickoff_removes_service:
  assumes "agent_ok s" "mget (as_handleServices s) h = Some r" "CHR ''/'' \<notin> set (ServiceName (ss_addr (as_mem s r)))"
  shows "\<exists>t. srv_onEvent mar env s (KickOffEvent h) = Some t \<and> agent_ok t \<and> mget (as_handleServices t) h = None \<and>
    (\<forall>n. mget (svc_group t n) h = None) \<and> mget (as_urlServices t) (addrServiceUrl (ss_addr (as_mem s r))) = None"
proof -
  have "event_consistent s (KickOffEvent h)" by (simp add: event_consistent_def)
  from onEvent_ok [OF assms(1) this, of mar env] KickOff_removes [OF assms] show ?thesis by blast
qed

lemma ex_agent1_ok: "agent_ok ex_agent1"
  using agent_reach_inv [OF ex_agent1_reach] agent_inv_init by (simp add: ex_agent0_def agent_inv_def)

lemma ex_agent1_svc: "mget (as_handleServices ex_agent1) 9 = Some 0" "ss_addr (as_mem ex_agent1 0) = ex_addr"
  by (simp_all add: ex_agent1_def ex_agent0_def srv_Init_def svc_added_def newService_def ex_addr_def Let_def)

theorem kickoff_removes_service_witness:
  "\<exists>t. srv_onEvent (\<lambda>_. None) ex_env ex_agent1 (KickOffEvent 9) = Some t \<and> mget (as_handleServices t) 9 = None \<and>
     mget (as_urlServices t) ''svc/1'' = None"
  using kickoff_removes_service [OF ex_agent1_ok ex_agent1_svc(1), of "\<lambda>_. None" ex_env]
  by (auto simp: ex_agent1_svc ex_url(3)) (auto simp: ex_addr_def)

end
