(* ===== verification/AgentLife.thy ===== *)
theory AgentLife
  imports AgentInv
begin

text \<open>
  The life of an agent: \<open>Init\<close> and \<open>loadConfig\<close> of \<^verbatim>\<open>src/agent/server.go\<close> with the part of
  \<^verbatim>\<open>sidecar.go\<close> that connects, \<open>NewServer\<close> of \<^verbatim>\<open>api.go\<close>, and the serving goroutine from
  \<open>Serve\<close> to the end of \<open>Release\<close>, with the goroutines that call \<open>GracefulStop\<close>. \<open>readFile\<close> is the
  file system and \<open>jcfg\<close> decodes a JSON text into a configuration.
\<close>

section \<open>Starting\<close>

datatype InitErr =
    ReadFileErr string | ConfigJsonErr string | ConfigErr string | StartErr string
  | RegisterAppErr SendErr | ServeErr string | ServeTimeout AgentState

type_synonym readfile = "string \<Rightarrow> string + bytes"
type_synonym jsoncfg = "bytes \<Rightarrow> AgentConfig \<Rightarrow> string + AgentConfig"

definition loadConfig :: "readfile \<Rightarrow> jsoncfg \<Rightarrow> AgentConfig \<Rightarrow> string \<Rightarrow> InitErr + AgentConfig" where
  "loadConfig readFile jcfg cfg conf =
     (case readFile conf of
        Inl e \<Rightarrow> Inl (ReadFileErr e)
      | Inr data \<Rightarrow>
          (case jcfg data cfg of
             Inl e \<Rightarrow> Inl (ConfigJsonErr e)
           | Inr cfg \<Rightarrow>
               (case CheckConfig cfg of
                  Inl e \<Rightarrow> Inl (ConfigErr e)
                | Inr cfg \<Rightarrow> Inr cfg)))"

definition msgRegisterAppReq :: "AgentConfig \<Rightarrow> string \<Rightarrow> SSMsg" where
  "msgRegisterAppReq cfg appID = SSMsg REQ_REGISTER_APP (Some (RegisterAppReq (MeshserverAddress cfg) appID))"

text \<open>\<open>startErr\<close> is the error, if any, of dialling the name server.\<close>

definition sc_Init_net ::
  "marshal \<Rightarrow> NetEnv \<Rightarrow> string option \<Rightarrow> AgentConfig \<Rightarrow> string \<Rightarrow> skymeshSidecar \<Rightarrow>
     (skymeshSidecar \<times> InitErr option) option" where
  "sc_Init_net mar env startErr cfg appID sc =
     (case startErr of
        Some e \<Rightarrow> Some (sc, Some (StartErr e))
      | None \<Rightarrow>
          (case nsSendMsg mar env sc (msgRegisterAppReq cfg appID) of
             (sc, Some e) \<Rightarrow> Some (sc, Some (RegisterAppErr e))
           | (sc, None) \<Rightarrow> do {
               _ \<leftarrow> NewTicker (ServiceKeepAliveInterval cfg);
               _ \<leftarrow> NewTicker (ServicePingInterval cfg);
               Some (sc, None) }))"

text \<open>
  What two seconds bring when \<open>Init\<close> serves: an error of \<open>Serve\<close>, or the state the goroutines have
  reached when the timer fires. The server object of a failed \<open>Init\<close> is dropped by \<open>NewServer\<close>.
\<close>

datatype ServeWindow = ServeNotified string | ServeElapsed skymeshServer

definition srv_Init_all ::
  "readfile \<Rightarrow> jsoncfg \<Rightarrow> marshal \<Rightarrow> NetEnv \<Rightarrow> string option \<Rightarrow> (skymeshServer \<Rightarrow> ServeWindow) \<Rightarrow> AgentConfig \<Rightarrow>
     skymeshService \<Rightarrow> remoteService \<Rightarrow> string \<Rightarrow> string \<Rightarrow> bool \<Rightarrow> (InitErr + skymeshServer) option" where
  "srv_Init_all readFile jcfg mar env startErr window cfg0 ss0 rs0 conf appID doServe =
     (case loadConfig readFile jcfg cfg0 conf of
        Inl e \<Rightarrow> Some (Inl e)
      | Inr cfg \<Rightarrow> do {
          _ \<leftarrow> make_chan (RecvQueueSize cfg);
          _ \<leftarrow> make_chan (EventQueueSize cfg);
          let s = srv_Init appID cfg ss0 rs0;
          (sc, err) \<leftarrow> sc_Init_net mar env startErr cfg appID (as_sidecar s);
          let s = s\<lparr>as_sidecar := sc\<rparr>;
          case err of
            Some e \<Rightarrow> Some (Inl e)
          | None \<Rightarrow>
              if doServe then
                (case window s of
                   ServeNotified e \<Rightarrow> Some (Inl (ServeErr e))
                 | ServeElapsed s \<Rightarrow>
                     if srv_isInState s SkymeshServerRunning then Some (Inr s) else Some (Inl (ServeTimeout (as_state s))))
              else Some (Inr s) })"

definition NewServer ::
  "readfile \<Rightarrow> jsoncfg \<Rightarrow> marshal \<Rightarrow> NetEnv \<Rightarrow> string option \<Rightarrow> (skymeshServer \<Rightarrow> ServeWindow) \<Rightarrow> AgentConfig \<Rightarrow>
     skymeshService \<Rightarrow> remoteService \<Rightarrow> string \<Rightarrow> string \<Rightarrow> (InitErr + skymeshServer) option" where
  "NewServer readFile jcfg mar env startErr window cfg0 ss0 rs0 conf appID =
     srv_Init_all readFile jcfg mar env startErr window cfg0 ss0 rs0 conf appID True"

section \<open>Serving and stopping\<close>

text \<open>
  \<open>Release\<close> in the pieces between which other goroutines run: the state and the rest of the receive
  queue, one service after the other, the sidecar and the tables, and the wait for the service
  goroutines before \<open>done\<close> fires.
\<close>

definition Release_begin :: "skymeshServer \<Rightarrow> skymeshServer" where
  "Release_begin s =
     (let s = fst (srv_setState s SkymeshServerStop)
      in (fold (\<lambda>m s. srv_onRecv s m) (as_recvQueue s) s)\<lparr>as_recvQueue := []\<rparr>)"

definition Release_stop :: "marshal \<Rightarrow> NetEnv \<Rightarrow> nat \<Rightarrow> skymeshServer \<Rightarrow> skymeshServer option" where
  "Release_stop mar env r s =
     srv_stop mar env
       (fst (with_sidecar s (sc_UnRegisterServiceToNameServer mar env (as_sidecar s) (ss_addr (as_mem s r))))) r"

definition Release_clear :: "skymeshServer \<Rightarrow> skymeshServer" where
  "Release_clear s =
     s\<lparr>as_sidecar := sc_Release (as_sidecar s), as_urlServices := [], as_handleServices := [],
       as_nameGroupServices := [], as_nameRouters := [], as_nameElections := [], as_nameStates := []\<rparr>"

text \<open>The wait group of the service goroutines is at zero when every service has fired \<open>done\<close>.\<close>

definition serviceWG_zero :: "skymeshServer \<Rightarrow> bool" where
  "serviceWG_zero s \<longleftrightarrow> (\<forall>r \<in> set [0..<as_next s]. Event_HasFired (ss_done (as_mem s r)))"

text \<open>
  \<open>LfLoop\<close>: in the loop of \<open>Serve\<close>. \<open>LfStop\<close>: the services still to stop and the error to return.
  \<open>LfWait\<close>: waiting for the service goroutines. \<open>GsWait\<close>: the call of \<open>GracefulStop\<close> that fired
  \<open>quit\<close>, waiting for \<open>done\<close>; \<open>GsRet\<close>: returned, with or without having waited.
\<close>

datatype LifePc = LfIdle | LfLoop | LfStop "nat list" "string option" | LfWait "string option" | LfRet "string option"

datatype StopCall = GsWait | GsRet bool

record agent_life =
  al_srv :: skymeshServer
  al_quit :: Event
  al_done :: Event
  al_errQueue :: "string list"
  al_serve :: LifePc
  al_stops :: "StopCall multiset"

definition life_start :: "skymeshServer \<Rightarrow> agent_life" where
  "life_start s =
     \<lparr>al_srv = s, al_quit = NewEvent ''skymesh.skymeshServer.quit'', al_done = NewEvent ''skymesh.skymeshServer.done'',
      al_errQueue = [], al_serve = LfIdle, al_stops = {#}\<rparr>"

definition Release_enter :: "agent_life \<Rightarrow> string option \<Rightarrow> agent_life" where
  "Release_enter l e =
     (if \<not> srv_isInState (al_srv l) SkymeshServerRunning then l\<lparr>al_serve := LfRet e\<rparr>
      else let s = Release_begin (al_srv l) in l\<lparr>al_srv := s, al_serve := LfStop (mvals (as_handleServices s)) e\<rparr>)"

text \<open>
  One goroutine serves at a time. Everything else the process does is a step of the agent that leaves
  the state of the server alone; \<open>lf_fail\<close> is the goroutine of the listener.
\<close>

inductive life_step ::
  "marshal \<Rightarrow> unmarshal \<Rightarrow> (ServiceAttr \<Rightarrow> bytes option) \<Rightarrow> (bytes \<Rightarrow> ServiceAttr option) \<Rightarrow>
     (string \<Rightarrow> string \<Rightarrow> u64 \<Rightarrow> u64 option) \<Rightarrow> agent_life \<Rightarrow> agent_life \<Rightarrow> bool"
  for mar unm jmar junm mk where
  lf_serve: "al_serve l = LfIdle \<or> al_serve l = LfRet e \<Longrightarrow> srv_setState (al_srv l) SkymeshServerRunning = (s, True) \<Longrightarrow>
    life_step mar unm jmar junm mk l (l\<lparr>al_srv := s, al_serve := LfLoop\<rparr>)"
| lf_other: "agent_step mar unm jmar junm mk (al_srv l) s \<Longrightarrow> as_state s = as_state (al_srv l) \<Longrightarrow>
    life_step mar unm jmar junm mk l (l\<lparr>al_srv := s\<rparr>)"
| lf_fail: "al_errQueue l = [] \<Longrightarrow> life_step mar unm jmar junm mk l (l\<lparr>al_errQueue := [msg]\<rparr>)"
| lf_quit: "al_serve l = LfLoop \<Longrightarrow> Event_Done (al_quit l) \<Longrightarrow> life_step mar unm jmar junm mk l (Release_enter l None)"
| lf_err: "al_serve l = LfLoop \<Longrightarrow> al_errQueue l = msg # q \<Longrightarrow>
    life_step mar unm jmar junm mk l (Release_enter (l\<lparr>al_errQueue := q\<rparr>) (Some msg))"
| lf_stop: "al_serve l = LfStop (r # rs) e \<Longrightarrow> Release_stop mar env r (al_srv l) = Some s \<Longrightarrow>
    life_step mar unm jmar junm mk l (l\<lparr>al_srv := s, al_serve := LfStop rs e\<rparr>)"
| lf_clear: "al_serve l = LfStop [] e \<Longrightarrow>
    life_step mar unm jmar junm mk l (l\<lparr>al_srv := Release_clear (al_srv l), al_serve := LfWait e\<rparr>)"
| lf_done: "al_serve l = LfWait e \<Longrightarrow> serviceWG_zero (al_srv l) \<Longrightarrow> Event_Fire (al_done l) = Some (d, first) \<Longrightarrow>
    life_step mar unm jmar junm mk l (l\<lparr>al_done := d, al_serve := LfRet e\<rparr>)"
| gs_call: "Event_Fire (al_quit l) = Some (q, first) \<Longrightarrow>
    life_step mar unm jmar junm mk l
      (l\<lparr>al_quit := q, al_stops := add_mset (if first then GsWait else GsRet False) (al_stops l)\<rparr>)"
| gs_ret: "GsWait \<in># al_stops l \<Longrightarrow> Event_Done (al_done l) \<Longrightarrow>
    life_step mar unm jmar junm mk l (l\<lparr>al_stops := add_mset (GsRet True) (al_stops l - {#GsWait#})\<rparr>)"

inductive life_reach ::
  "marshal \<Rightarrow> unmarshal \<Rightarrow> (ServiceAttr \<Rightarrow> bytes option) \<Rightarrow> (bytes \<Rightarrow> ServiceAttr option) \<Rightarrow>
     (string \<Rightarrow> string \<Rightarrow> u64 \<Rightarrow> u64 option) \<Rightarrow> agent_life \<Rightarrow> agent_life \<Rightarrow> bool"
  for mar unm jmar junm mk where
  lf_refl: "life_reach mar unm jmar junm mk l l"
| lf_more: "life_reach mar unm jmar junm mk l m \<Longrightarrow> life_step mar unm jmar junm mk m n \<Longrightarrow> life_reach mar unm jmar junm mk l n"

section \<open>Which services run\<close>

text \<open>Two states agree on the services: which there are, their addresses and whether they have been stopped.\<close>

definition same_live :: "skymeshServer \<Rightarrow> skymeshServer \<Rightarrow> bool" where
  "same_live s t \<longleftrightarrow> as_next t = as_next s \<and> as_handleServices t = as_handleServices s \<and>
     (\<forall>r. ss_addr (as_mem t r) = ss_addr (as_mem s r) \<and> ss_quit (as_mem t r) = ss_quit (as_mem s r))"

lemma same_live_refl [simp, intro]: "same_live s s"
  by (simp add: same_live_def)

lemma same_live_trans: "same_live s t \<Longrightarrow> same_live t u \<Longrightarrow> same_live s u"
  by (simp add: same_live_def)

lemma same_live_upd [simp]:
  "same_live s (t\<lparr>as_calls := b\<rparr>) = same_live s t" "same_live s (t\<lparr>as_sidecar := c\<rparr>) = same_live s t"
  "same_live s (t\<lparr>as_nameElections := d\<rparr>) = same_live s t" "same_live s (t\<lparr>as_nameRouters := e\<rparr>) = same_live s t"
  "same_live s (t\<lparr>as_eventQueue := f\<rparr>) = same_live s t" "same_live s (t\<lparr>as_recvQueue := g\<rparr>) = same_live s t"
  "same_live s (t\<lparr>as_state := k\<rparr>) = same_live s t"
  by (simp_all add: same_live_def)

lemma same_live_mem:
  "ss_addr svc = ss_addr (as_mem s r) \<Longrightarrow> ss_quit svc = ss_quit (as_mem s r) \<Longrightarrow> same_live s (s\<lparr>as_mem := (as_mem s)(r := svc)\<rparr>)"
  by (simp add: same_live_def)

lemma Push_quit [simp]: "ss_quit (fst (ss_PushMessage cap s m)) = ss_quit s"
  by (simp add: ss_PushMessage_def split: prod.split)

lemma same_live_ops [simp]:
  "same_live s (srv_push t r m) = same_live s t" "same_live s (setElection t n x) = same_live s t"
  "same_live s (setRouter t n y) = same_live s t" "same_live s (fst (with_sidecar t z)) = same_live s t"
  "same_live s (srv_acks mar env t ps) = same_live s t"
  by (auto simp: srv_push_def setElection_def setRouter_def with_sidecar_def srv_acks_def same_live_def)

lemma same_live_onRegisterApp: "same_live s (srv_onRegisterApp s leaders)"
  unfolding srv_onRegisterApp_def by (rule fold_keeps [where P = "same_live s"]) auto

lemma same_live_onRecv: "same_live s (srv_onRecv s m)"
  by (auto simp: srv_onRecv_def split: option.split)

lemma same_live_pushes: "same_live s (fold (\<lambda>(lh, r) s. srv_push s r (DataMessage src lh b)) xs s)"
  by (rule fold_keeps [where P = "same_live s"]) auto

lemma same_live_sends:
  "same_live s (fst (srv_sendByHandle mar env s src h b))" "same_live s (fst (srv_sendBySvcUrl mar env s src url b))"
  "same_live s (fst (srv_sendByRouter mar env s src n b))" "same_live s (srv_broadcastBySvcName mar env s src n b)"
  by (auto simp: srv_sendByHandle_def srv_sendBySvcUrl_def srv_sendByRouter_def srv_broadcastBySvcName_def Let_def
      same_live_pushes split: option.split)

lemma same_live_election:
  "same_live s (fst (srv_runForElection mar env s a c))" "same_live s (fst (srv_giveUpElection mar env s a))"
  "same_live s (fst (srv_watchElection s a n w))" "same_live s (fst (srv_unWatchElection s a n))"
  by (auto simp: srv_runForElection_def srv_giveUpElection_def srv_watchElection_def srv_unWatchElection_def
      srv_getNameElection_def Let_def with_sidecar_def split: option.split prod.split)

lemma same_live_GetNameRouter: "same_live s (srv_GetNameRouter mar env s n)"
  by (simp add: srv_GetNameRouter_def Let_def split: option.split)

lemma same_live_setAttr: "same_live s (fst (ss_SetAttribute mar jmar env s r attrs))"
  by (auto simp: ss_SetAttribute_def srv_setAttribute_def Let_def same_live_def with_sidecar_def setRouter_def split: option.split)

lemma same_live_service:
  assumes "ss_Serve_step (as_mem s r) = (svc, res)"
  shows "same_live s (srv_acks mar env (s\<lparr>as_mem := (as_mem s)(r := svc), as_calls := c\<rparr>) ps)"
proof -
  have "ss_addr svc = ss_addr (as_mem s r) \<and> ss_quit svc = ss_quit (as_mem s r)" using assms
    by (auto simp: ss_Serve_step_def ss_Serve_message_def split: list.splits Message.splits if_splits)
  then show ?thesis by (simp add: same_live_mem)
qed

section \<open>The pieces of the release\<close>

lemma Release_parts:
  "srv_isInState s SkymeshServerRunning \<Longrightarrow> srv_Release mar env s =
     do { t \<leftarrow> rangeM (Release_stop mar env) (mvals (as_handleServices (Release_begin s))) (Release_begin s); Some (Release_clear t) }"
proof -
  have "Release_stop mar env = (\<lambda>r s. srv_stop mar env
      (fst (with_sidecar s (sc_UnRegisterServiceToNameServer mar env (as_sidecar s) (ss_addr (as_mem s r))))) r)"
    by (simp add: Release_stop_def fun_eq_iff)
  then show "srv_isInState s SkymeshServerRunning \<Longrightarrow> ?thesis"
    by (simp add: srv_Release_def Release_begin_def Release_clear_def Let_def)
qed

lemma Release_stops_state: "rangeM (Release_stop mar env) rs s = Some t \<Longrightarrow> as_state t = as_state s"
  by (erule rangeM_inv) (auto simp: Release_stop_def srv_stop_def srv_acks_def with_sidecar_def split: Option.bind_splits)

lemma recvs_frame:
  "as_state (fold (\<lambda>m s. srv_onRecv s m) ms s) = as_state s" "as_calls (fold (\<lambda>m s. srv_onRecv s m) ms s) = as_calls s"
  by (induction ms arbitrary: s) (simp_all add: srv_onRecv_def srv_push_def split: option.split)

lemma recvs_ok:
  assumes "agent_ok s"
  shows "agent_ok (fold (\<lambda>m s. srv_onRecv s m) ms s)" "same_live s (fold (\<lambda>m s. srv_onRecv s m) ms s)"
  using fold_keeps [where P = "\<lambda>t. agent_ok t \<and> same_live s t" and f = "\<lambda>m s. srv_onRecv s m" and xs = ms and s = s] assms
  by (auto intro: agent_ok_onRecv same_live_trans [OF _ same_live_onRecv])

text \<open>The rest of the receive queue reaches the services as far as their queues have room.\<close>

lemma recvs_queue:
  assumes "agent_ok s" "mget (as_handleServices s) h = Some r"
  shows "ss_msgQueue (as_mem (fold (\<lambda>m s. srv_onRecv s m) ms s) r) =
    take (queueCap s) (ss_msgQueue (as_mem s r) @ filter (\<lambda>m. GetDstHandle m = h) ms)"
  using assms
proof (induction ms arbitrary: s)
  case Nil
  then have "service_ok (queueCap s) (as_mem s r)"
    using index_okD(5) [of s h r] by (simp add: agent_ok_def queues_ok_def)
  then show ?case by (simp add: service_ok_def)
next
  case (Cons m ms)
  let ?t = "srv_onRecv s m"
  have io: "index_ok s" using Cons.prems(1) by (simp add: agent_ok_def)
  have ih: "ss_msgQueue (as_mem (fold (\<lambda>m s. srv_onRecv s m) ms ?t) r) =
      take (queueCap ?t) (ss_msgQueue (as_mem ?t r) @ filter (\<lambda>m. GetDstHandle m = h) ms)"
    by (rule Cons.IH) (use agent_ok_onRecv [OF Cons.prems(1)] same_live_onRecv [of s m] Cons.prems(2) in \<open>simp_all add: same_live_def\<close>)
  have cap: "queueCap ?t = queueCap s" using same_queues_onRecv [of s m] by (simp add: same_queues_def queueCap_def)
  show ?case
  proof (cases "GetDstHandle m = h")
    case True
    then have "ss_msgQueue (as_mem ?t r) = fst (chan_offer (queueCap s) (ss_msgQueue (as_mem s r)) m)"
      using Cons.prems(2) by (simp add: srv_onRecv_def srv_push_def ss_PushMessage_def split: prod.split)
    then show ?thesis using ih cap True by (simp add: chan_offer_def take_Cons')
  next
    case False
    then have "mget (as_handleServices s) (GetDstHandle m) \<noteq> Some r"
      using index_okD(6) [OF io] Cons.prems(2) by metis
    then have "as_mem ?t r = as_mem s r" by (auto simp: srv_onRecv_def srv_push_def split: option.split)
    then show ?thesis using ih cap False by simp
  qed
qed

lemma setState_ok: "agent_ok (fst (srv_setState s st)) = agent_ok s" "same_live s (fst (srv_setState s st))"
  by (auto simp: srv_setState_def agent_ok_def index_ok_def queues_ok_def queueCap_def svc_group_def routers_ok_def)

lemma Release_begin_effect:
  assumes "agent_ok s"
  shows "agent_ok (Release_begin s)" "same_live s (Release_begin s)" "as_state (Release_begin s) = SkymeshServerStop"
    "as_calls (Release_begin s) = as_calls s"
    "mget (as_handleServices s) h = Some r \<Longrightarrow> ss_msgQueue (as_mem (Release_begin s) r) =
       take (queueCap s) (ss_msgQueue (as_mem s r) @ filter (\<lambda>m. GetDstHandle m = h) (as_recvQueue s))"
proof -
  let ?s = "fst (srv_setState s SkymeshServerStop)"
  have s: "agent_ok ?s" "same_live s ?s" "as_recvQueue ?s = as_recvQueue s" "as_mem ?s = as_mem s" "queueCap ?s = queueCap s"
    "as_handleServices ?s = as_handleServices s" "as_state ?s = SkymeshServerStop" "as_calls ?s = as_calls s"
    using assms setState_ok by (auto simp: srv_setState_def queueCap_def)
  note r = recvs_ok [OF s(1), of "as_recvQueue s"]
  show "agent_ok (Release_begin s)" "same_live s (Release_begin s)"
    using r(1) same_live_trans [OF s(2) r(2)] s(3) by (simp_all add: Release_begin_def Let_def)
  show "as_state (Release_begin s) = SkymeshServerStop" "as_calls (Release_begin s) = as_calls s"
    using s(7,8) by (simp_all add: Release_begin_def Let_def recvs_frame)
  show "ss_msgQueue (as_mem (Release_begin s) r) = take (queueCap s) (ss_msgQueue (as_mem s r) @ filter (\<lambda>m. GetDstHandle m = h) (as_recvQueue s))"
    if "mget (as_handleServices s) h = Some r"
    using recvs_queue [OF s(1), of h r "as_recvQueue s"] that s(3-6) by (simp add: Release_begin_def Let_def)
qed

section \<open>Stopping a service\<close>

definition stopped :: "skymeshServer \<Rightarrow> nat \<Rightarrow> bool" where
  "stopped s r = Event_HasFired (ss_quit (as_mem s r))"

definition svc_entered :: "skymeshServer \<Rightarrow> skymeshServer \<Rightarrow> bool" where
  "svc_entered s t \<longleftrightarrow> (\<exists>h. mget (as_handleServices s) h = None \<and>
     as_handleServices t = mput h (as_next s) (as_handleServices s) \<and> as_next t = Suc (as_next s) \<and>
     AddrHandle (ss_addr (as_mem t (as_next s))) = h \<and> \<not> stopped t (as_next s) \<and>
     (\<forall>r. r \<noteq> as_next s \<longrightarrow> as_mem t r = as_mem s r))"

definition svc_left :: "skymeshServer \<Rightarrow> skymeshServer \<Rightarrow> bool" where
  "svc_left s t \<longleftrightarrow> (\<exists>h r. mget (as_handleServices s) h = Some r \<and> as_handleServices t = mdel h (as_handleServices s) \<and>
     as_next t = as_next s \<and> stopped t r \<and> (\<forall>x. ss_addr (as_mem t x) = ss_addr (as_mem s x)) \<and>
     (\<forall>x. x \<noteq> r \<longrightarrow> ss_quit (as_mem t x) = ss_quit (as_mem s x)))"

text \<open>What stopping one service does.\<close>

definition stop_calls :: "skymeshService \<Rightarrow> AgentCall list" where
  "stop_calls svc = (let h = AddrHandle (ss_addr svc) in map CApp (fst (ss_drain h (ss_msgQueue svc)) @ [AppOnUnRegister h]))"

lemma stop_effect:
  assumes "agent_ok s" "r < as_next s"
  shows "\<exists>t. srv_stop mar env s r = Some t \<and> agent_ok t \<and> as_next t = as_next s \<and> as_handleServices t = as_handleServices s \<and>
    as_state t = as_state s \<and> (\<forall>x. ss_addr (as_mem t x) = ss_addr (as_mem s x)) \<and> (\<forall>x. x \<noteq> r \<longrightarrow> as_mem t x = as_mem s x) \<and>
    stopped t r \<and> as_calls t = as_calls s @ (if stopped s r then [] else stop_calls (as_mem s r))"
proof -
  have ok: "service_ok (queueCap s) (as_mem s r)" using assms by (simp add: agent_ok_def queues_ok_def)
  then obtain svc cs ps where st: "ss_Stop (as_mem s r) = Some (svc, cs, ps)" "Event_HasFired (ss_quit svc)"
    using ss_Stop_ok by blast
  obtain t where t: "srv_stop mar env s r = Some t" "agent_ok t" using agent_ok_stop [OF assms, of mar env] by blast
  have eq: "t = srv_acks mar env (s\<lparr>as_mem := (as_mem s)(r := svc), as_calls := as_calls s @ map CApp cs\<rparr>) ps"
    using t(1) st(1) by (simp add: srv_stop_def)
  have "map CApp cs = (if stopped s r then [] else stop_calls (as_mem s r))"
    using st(1) ok Event_Fire_ok [of "ss_quit (as_mem s r)"]
    by (auto simp: ss_Stop_def service_ok_def stopped_def stop_calls_def Let_def split: prod.splits Option.bind_splits if_splits)
  then show ?thesis using t st(2) ss_Stop_addr [OF st(1)] by (auto simp: eq srv_acks_def stopped_def)
qed

lemma UnRegister_live:
  assumes ok: "agent_ok s" and t: "srv_UnRegister mar env s url = Some t"
  shows "same_live s t \<or> svc_left s t"
proof (cases "mget (as_urlServices s) (StripSkymeshUrlPrefix url)")
  case None
  then show ?thesis using t by (simp add: UnRegister_absent)
next
  case (Some r)
  let ?a = "ss_addr (as_mem s r)"
  let ?s1 = "fst (with_sidecar s (sc_UnRegisterServiceToNameServer mar env (as_sidecar s) ?a))"
  let ?s2 = "setElection ?s1 (ServiceName ?a) (se_unRegisterService (electionOf ?s1 (ServiceName ?a)) ?a, [])"
  have io: "index_ok s" using ok by (simp add: agent_ok_def)
  have "agent_ok ?s1" unfolding with_sidecar_def fst_conv
    using agent_ok_sends [OF ok nsSendMsg_sends] by (simp add: sc_UnRegisterServiceToNameServer_def)
  then have ok2: "agent_ok ?s2" by simp
  have h: "mget (as_handleServices s) (AddrHandle ?a) = Some r" by (rule index_okD(10) [OF io Some])
  have f: "as_handleServices ?s2 = as_handleServices s" "as_mem ?s2 = as_mem s" "as_next ?s2 = as_next s"
    by (simp_all add: setElection_def with_sidecar_def)
  have "r < as_next ?s2" using index_okD(5) [OF io h] by (simp add: f)
  from stop_effect [OF ok2 this, of mar env] obtain u where u: "srv_stop mar env ?s2 r = Some u" "as_next u = as_next s"
    "as_handleServices u = as_handleServices s" "\<forall>x. ss_addr (as_mem u x) = ss_addr (as_mem s x)"
    "\<forall>x. x \<noteq> r \<longrightarrow> as_mem u x = as_mem s x" "stopped u r" unfolding f by blast
  have "t = svc_removed u (StripSkymeshUrlPrefix url) ?a"
    using t Some u(1) by (simp add: srv_UnRegister_def Let_def svc_removed_def)
  then have "as_handleServices t = mdel (AddrHandle ?a) (as_handleServices s)" "as_next t = as_next s" "as_mem t = as_mem u"
    using u by (simp_all add: svc_removed_def)
  then show ?thesis using h u(4,5,6) unfolding svc_left_def stopped_def by (intro disjI2 exI [of _ "AddrHandle ?a"] exI [of _ r]) auto
qed

lemma Register_live:
  assumes t: "srv_Register mar env mk s url opts = Some (t, res)" and c: "clean_url mk s url"
  shows "same_live s t \<or> svc_entered s t"
  using t
proof (cases rule: Register_cases)
  case (3 addr h sc ropts)
  have "mget (as_handleServices s) h = None" using c 3(2,3) by (auto simp: clean_url_def)
  then show ?thesis unfolding 3(5)
    by (intro disjI2) (simp add: svc_entered_def svc_added_def Let_def stopped_def newService_def)
qed auto

lemma onEvent_live:
  assumes "agent_ok s" "srv_onEvent mar env s e = Some t"
  shows "same_live s t \<or> svc_left s t"
proof (cases e)
  case (KickOffEvent h)
  then show ?thesis using assms UnRegister_live [OF assms(1)] by (auto simp: srv_onEvent_def split: option.splits)
next
  case (RegServiceEvent h res)
  then show ?thesis using assms(2)
    by (auto simp: srv_onEvent_def ss_OnRegister_def split: option.splits intro!: same_live_mem)
qed (use assms(2) in \<open>auto simp: srv_onEvent_def Let_def srv_onRouterUpdate_def same_live_onRegisterApp split: option.splits if_splits\<close>)

lemma agent_step_live:
  assumes "agent_step mar unm jmar junm mk s t" "agent_ok s" "as_state t = as_state s"
  shows "same_live s t \<or> svc_entered s t \<or> svc_left s t"
  using assms
proof (induction rule: agent_step.induct)
  case (a_register env s url opts t res)
  then show ?case using Register_live by blast
next
  case (a_wait env s url r code t res)
  then show ?case using UnRegister_live [of s mar env url]
    by (auto simp: srv_RegisterWait_def split: option.splits if_splits Option.bind_splits)
next
  case (a_unregister env s url t)
  then show ?case using UnRegister_live by blast
next
  case (a_fromNs s b t skip err)
  then show ?case
    by (auto simp: NSDialerReceiver_OnMessage_def offerEvent_def split: prod.splits if_splits option.splits Option.bind_splits sum.splits)
next
  case (a_fromAgent now s b t skip err)
  then show ?case using lisConn_effect [OF a_fromAgent.hyps(1)] by auto
next
  case (a_event env s t e es)
  let ?s = "s\<lparr>as_eventQueue := es\<rparr>"
  have "srv_onEvent mar env ?s e = Some t" using a_event.hyps(1,2) by (simp add: srv_Serve_event_def)
  from onEvent_live [OF _ this] a_event.prems(1) show ?case by (auto simp: same_live_def svc_left_def)
next
  case (a_recv s)
  then show ?case using same_live_trans [OF _ same_live_onRecv] by (auto simp: srv_Serve_recv_def split: list.split)
next
  case (a_service r s svc cs ps t env)
  then show ?case using same_live_service by blast
next
  case (a_release env s t)
  show ?case
  proof (cases "as_state s = SkymeshServerRunning")
    case True
    then have "as_state t = SkymeshServerStop" using a_release.hyps
      by (auto simp: Release_parts srv_isInState_def Release_clear_def split: Option.bind_splits
          dest!: Release_stops_state) (simp add: Release_begin_def Let_def recvs_frame srv_setState_def)
    then show ?thesis using True a_release.prems by simp
  qed (use a_release in \<open>simp add: srv_Release_def srv_isInState_def\<close>)
qed (auto simp: srv_setState_def same_live_sends same_live_election same_live_GetNameRouter same_live_setAttr split: if_splits)


lemma Release_stop_effect:
  assumes "agent_ok s" "r < as_next s"
  shows "\<exists>t. Release_stop mar env r s = Some t \<and> agent_ok t \<and> as_next t = as_next s \<and> as_handleServices t = as_handleServices s \<and>
    as_state t = as_state s \<and> (\<forall>x. ss_addr (as_mem t x) = ss_addr (as_mem s x)) \<and> (\<forall>x. x \<noteq> r \<longrightarrow> as_mem t x = as_mem s x) \<and>
    stopped t r \<and> as_calls t = as_calls s @ (if stopped s r then [] else stop_calls (as_mem s r))"
proof -
  let ?s = "fst (with_sidecar s (sc_UnRegisterServiceToNameServer mar env (as_sidecar s) (ss_addr (as_mem s r))))"
  have s: "as_next ?s = as_next s" "as_handleServices ?s = as_handleServices s" "as_state ?s = as_state s" "as_mem ?s = as_mem s"
    "as_calls ?s = as_calls s" "stopped ?s = stopped s" by (simp_all add: with_sidecar_def stopped_def fun_eq_iff)
  have "agent_ok ?s" unfolding with_sidecar_def fst_conv
    using agent_ok_sends [OF assms(1) nsSendMsg_sends] by (simp add: sc_UnRegisterServiceToNameServer_def)
  from stop_effect [OF this, of r mar env] assms(2) show ?thesis unfolding Release_stop_def s by blast
qed

lemma Release_stops_effect:
  assumes "agent_ok s" "\<forall>r \<in> set rs. r < as_next s" "distinct rs"
  shows "\<exists>t. rangeM (Release_stop mar env) rs s = Some t \<and> agent_ok t \<and> as_next t = as_next s \<and>
    (\<forall>x. x \<notin> set rs \<longrightarrow> as_mem t x = as_mem s x) \<and> (\<forall>r \<in> set rs. stopped t r) \<and>
    as_calls t = as_calls s @ concat (map (\<lambda>r. if stopped s r then [] else stop_calls (as_mem s r)) rs)"
  using assms
proof (induction rs arbitrary: s)
  case (Cons r rs)
  from Release_stop_effect [OF Cons.prems(1), of r mar env] Cons.prems(2) obtain t where t: "Release_stop mar env r s = Some t" "agent_ok t"
    "as_next t = as_next s" "\<forall>x. x \<noteq> r \<longrightarrow> as_mem t x = as_mem s x" "stopped t r"
    "as_calls t = as_calls s @ (if stopped s r then [] else stop_calls (as_mem s r))" by auto
  from Cons.IH [OF t(2)] Cons.prems(2,3) t(3) obtain u where u: "rangeM (Release_stop mar env) rs t = Some u" "agent_ok u" "as_next u = as_next t"
    "\<forall>x. x \<notin> set rs \<longrightarrow> as_mem u x = as_mem t x" "\<forall>r \<in> set rs. stopped u r"
    "as_calls u = as_calls t @ concat (map (\<lambda>r. if stopped t r then [] else stop_calls (as_mem t r)) rs)" by auto
  have same: "as_mem t x = as_mem s x" if "x \<in> set rs" for x using t(4) that Cons.prems(3) by auto
  have "map (\<lambda>r. if stopped t r then [] else stop_calls (as_mem t r)) rs = map (\<lambda>r. if stopped s r then [] else stop_calls (as_mem s r)) rs"
    by (rule map_cong [OF refl]) (simp add: stopped_def same)
  then have "as_calls u = as_calls s @ concat (map (\<lambda>r. if stopped s r then [] else stop_calls (as_mem s r)) (r # rs))"
    using u(6) t(6) by (simp only: list.map concat.simps append_assoc)
  moreover have "stopped u r" using t(5) u(4) Cons.prems(3) by (simp add: stopped_def)
  ultimately show ?case using t(1-4) u(1-5) by (intro exI [of _ u]) auto
qed simp

section \<open>The invariant\<close>

text \<open>A service in the table runs; a service that runs is in the table.\<close>

definition indexed_live :: "skymeshServer \<Rightarrow> bool" where
  "indexed_live s \<longleftrightarrow> (\<forall>h r. mget (as_handleServices s) h = Some r \<longrightarrow> \<not> stopped s r)"

definition live_indexed :: "skymeshServer \<Rightarrow> bool" where
  "live_indexed s \<longleftrightarrow> (\<forall>r < as_next s. \<not> stopped s r \<longrightarrow> mget (as_handleServices s) (AddrHandle (ss_addr (as_mem s r))) = Some r)"

lemma same_live_stopped: "same_live s t \<Longrightarrow> stopped t = stopped s"
  by (simp add: same_live_def stopped_def fun_eq_iff)

lemma live_frame: "same_live s t \<Longrightarrow> indexed_live t = indexed_live s" "same_live s t \<Longrightarrow> live_indexed t = live_indexed s"
  by (auto simp: indexed_live_def live_indexed_def same_live_stopped) (auto simp: same_live_def)

lemma live_entered:
  assumes "svc_entered s t" "agent_ok s"
  shows "indexed_live s \<Longrightarrow> indexed_live t" "live_indexed s \<Longrightarrow> live_indexed t" "as_next s \<le> as_next t"
proof -
  obtain h where h: "mget (as_handleServices s) h = None" "as_handleServices t = mput h (as_next s) (as_handleServices s)"
    "as_next t = Suc (as_next s)" "AddrHandle (ss_addr (as_mem t (as_next s))) = h" "\<not> stopped t (as_next s)"
    "\<forall>r. r \<noteq> as_next s \<longrightarrow> as_mem t r = as_mem s r" using assms(1) by (auto simp: svc_entered_def)
  have lt: "r < as_next s" if "mget (as_handleServices s) k = Some r" for k r
    using index_okD(5) that assms(2) by (simp add: agent_ok_def)
  show "indexed_live s \<Longrightarrow> indexed_live t" using h lt unfolding indexed_live_def stopped_def
    by (metis less_irrefl mget_mput option.inject)
  show "live_indexed s \<Longrightarrow> live_indexed t" using h unfolding live_indexed_def stopped_def
    by (metis less_SucE mget_mput option.distinct(1))
  show "as_next s \<le> as_next t" using h(3) by simp
qed

lemma live_left:
  assumes "svc_left s t" "agent_ok s"
  shows "indexed_live s \<Longrightarrow> indexed_live t" "live_indexed s \<Longrightarrow> live_indexed t" "as_next t = as_next s"
proof -
  obtain h r where h: "mget (as_handleServices s) h = Some r" "as_handleServices t = mdel h (as_handleServices s)" "as_next t = as_next s"
    "stopped t r" "\<forall>x. ss_addr (as_mem t x) = ss_addr (as_mem s x)" "\<forall>x. x \<noteq> r \<longrightarrow> ss_quit (as_mem t x) = ss_quit (as_mem s x)"
    using assms(1) by (auto simp: svc_left_def)
  have io: "index_ok s" using assms(2) by (simp add: agent_ok_def)
  have a: "AddrHandle (ss_addr (as_mem s x)) = k" if "mget (as_handleServices s) k = Some x" for k x using index_okD(6) [OF io that] .
  show "indexed_live s \<Longrightarrow> indexed_live t" using h a index_okD(2) [OF io] unfolding indexed_live_def stopped_def
    by (metis mget_mdel option.distinct(1))
  show "live_indexed s \<Longrightarrow> live_indexed t" using h a index_okD(2) [OF io] unfolding live_indexed_def stopped_def
    by (metis mget_mdel option.inject)
  show "as_next t = as_next s" by (rule h(3))
qed

lemma agent_step_keeps_live:
  assumes "agent_step mar unm jmar junm mk s t" "agent_ok s" "as_state t = as_state s"
  shows "indexed_live s \<Longrightarrow> indexed_live t" "live_indexed s \<Longrightarrow> live_indexed t" "as_next s \<le> as_next t"
  using agent_step_live [OF assms] live_frame [of s t] live_entered [OF _ assms(2), of t] live_left [OF _ assms(2), of t]
  by (auto simp: same_live_def)

fun pc_ok :: "skymeshServer \<Rightarrow> LifePc \<Rightarrow> bool" where
  "pc_ok s LfIdle \<longleftrightarrow> indexed_live s \<and> live_indexed s"
| "pc_ok s LfLoop \<longleftrightarrow> indexed_live s \<and> live_indexed s \<and> as_state s = SkymeshServerRunning"
| "pc_ok s (LfStop rs e) \<longleftrightarrow> live_indexed s \<and> as_state s = SkymeshServerStop \<and> (\<forall>r \<in> set rs. r < as_next s)"
| "pc_ok s (LfWait e) \<longleftrightarrow> indexed_live s \<and> as_state s = SkymeshServerStop"
| "pc_ok s (LfRet e) \<longleftrightarrow> indexed_live s \<and> live_indexed s"

definition life_inv :: "agent_life \<Rightarrow> bool" where
  "life_inv l \<longleftrightarrow> agent_inv (al_srv l) \<and> event_ok (al_quit l) \<and> event_ok (al_done l) \<and> pc_ok (al_srv l) (al_serve l) \<and>
     (GsWait \<in># al_stops l \<longrightarrow> Event_HasFired (al_quit l))"


lemma life_inv_start: "agent_inv s \<Longrightarrow> as_next s = 0 \<Longrightarrow> as_handleServices s = [] \<Longrightarrow> life_inv (life_start s)"
  by (simp add: life_inv_def life_start_def indexed_live_def live_indexed_def)

lemma agent_inv_begin: "agent_inv s \<Longrightarrow> agent_inv (Release_begin s)"
proof -
  assume s: "agent_inv s"
  let ?s = "fst (srv_setState s SkymeshServerStop)"
  have "same_queues ?s (fold (\<lambda>m s. srv_onRecv s m) (as_recvQueue ?s) ?s)"
    using fold_keeps [where P = "same_queues ?s" and f = "\<lambda>m s. srv_onRecv s m" and xs = "as_recvQueue ?s" and s = ?s]
    by (auto intro: same_queues_trans [OF _ same_queues_onRecv])
  then show ?thesis using s Release_begin_effect(1) [of s]
    by (auto simp: agent_inv_def Release_begin_def Let_def same_queues_def srv_setState_def)
qed

lemma agent_inv_stop: "agent_inv s \<Longrightarrow> Release_stop mar env r s = Some t \<Longrightarrow> r < as_next s \<Longrightarrow> agent_inv t"
  using Release_stop_effect [of s r mar env] same_queues_stop [of mar env "fst (with_sidecar s z)" r t for z]
  by (auto simp: agent_inv_def Release_stop_def same_queues_def with_sidecar_def)

lemma agent_inv_clear: "agent_inv s \<Longrightarrow> agent_inv (Release_clear s)"
  unfolding Release_clear_def agent_inv_def using agent_ok_cleared [of s] by simp

lemma wg_zero_stopped: "agent_ok s \<Longrightarrow> serviceWG_zero s \<longleftrightarrow> (\<forall>r < as_next s. stopped s r)"
  by (auto simp: agent_ok_def queues_ok_def service_ok_def serviceWG_zero_def stopped_def)

lemma enter_inv:
  assumes "life_inv l" "al_serve l = LfLoop"
  shows "life_inv (Release_enter l e)"
proof -
  have s: "agent_inv (al_srv l)" "agent_ok (al_srv l)" "live_indexed (al_srv l)" using assms by (auto simp: life_inv_def agent_inv_def)
  note b = Release_begin_effect [OF s(2)]
  have "live_indexed (Release_begin (al_srv l))" using live_frame(2) [OF b(2)] s(3) by simp
  moreover have "r < as_next (Release_begin (al_srv l))" if "r \<in> set (mvals (as_handleServices (Release_begin (al_srv l))))" for r
    using b(1) that in_mvals_iff [OF index_okD(2)] index_okD(5) unfolding agent_ok_def by metis
  ultimately show ?thesis using assms b(3) agent_inv_begin [OF s(1)]
    by (auto simp: life_inv_def Release_enter_def Let_def srv_isInState_def)
qed

lemma life_inv_step:
  assumes "life_step mar unm jmar junm mk l m" "life_inv l"
  shows "life_inv m"
  using assms
proof (induction rule: life_step.induct)
  case (lf_serve l e s)
  then have "s = (al_srv l)\<lparr>as_state := SkymeshServerRunning\<rparr>" by (simp add: srv_setState_def split: if_splits)
  moreover have "indexed_live (al_srv l) \<and> live_indexed (al_srv l)" using lf_serve by (auto simp: life_inv_def)
  ultimately show ?case using lf_serve setState_ok(1) [of "al_srv l" SkymeshServerRunning] live_frame [of "al_srv l" s]
    by (auto simp: life_inv_def agent_inv_def)
next
  case (lf_other l s)
  have ok: "agent_ok (al_srv l)" using lf_other.prems by (simp add: life_inv_def agent_inv_def)
  note k = agent_step_keeps_live [OF lf_other.hyps(1) ok lf_other.hyps(2)]
  show ?case using lf_other k agent_step_inv [OF lf_other.hyps(1)]
    by (cases "al_serve l") (auto simp: life_inv_def)
next
  case (lf_quit l)
  then show ?case by (simp add: enter_inv)
next
  case (lf_err l msg q)
  then show ?case by (intro enter_inv) (simp_all add: life_inv_def)
next
  case (lf_stop l r rs e env s)
  have ok: "agent_ok (al_srv l)" "r < as_next (al_srv l)" using lf_stop by (auto simp: life_inv_def agent_inv_def)
  from Release_stop_effect [OF this, of mar env] lf_stop.hyps(2)
  have "live_indexed (al_srv l) \<Longrightarrow> live_indexed s" "as_next s = as_next (al_srv l)" "as_state s = as_state (al_srv l)"
    by (auto simp: live_indexed_def stopped_def)
  then show ?case using lf_stop agent_inv_stop ok(2) by (auto simp: life_inv_def)
next
  case (lf_clear l e)
  then show ?case using agent_inv_clear by (auto simp: life_inv_def indexed_live_def Release_clear_def)
next
  case (lf_done l e d first)
  then show ?case using wg_zero_stopped [of "al_srv l"] Event_Fire_ok [of "al_done l"]
    by (auto simp: life_inv_def agent_inv_def live_indexed_def)
next
  case (gs_call l q first)
  then show ?case using Event_Fire_ok [of "al_quit l"] by (auto simp: life_inv_def)
next
  case (gs_ret l)
  then show ?case by (auto simp: life_inv_def dest: in_diffD)
qed (simp add: life_inv_def)

lemma life_reach_inv: "life_reach mar unm jmar junm mk l m \<Longrightarrow> life_inv l \<Longrightarrow> life_inv m"
  by (induction rule: life_reach.induct) (auto intro: life_inv_step)

lemma life_reach_trans: "life_reach mar unm jmar junm mk m n \<Longrightarrow> life_reach mar unm jmar junm mk l m \<Longrightarrow> life_reach mar unm jmar junm mk l n"
  by (induction rule: life_reach.induct) (auto intro: life_reach.lf_more)

text \<open>The serving goroutine alone stops the services one by one.\<close>

lemma life_stops:
  "rangeM (Release_stop mar env) rs s = Some t \<Longrightarrow>
   life_reach mar unm jmar junm mk (l\<lparr>al_srv := s, al_serve := LfStop rs e\<rparr>) (l\<lparr>al_srv := t, al_serve := LfStop [] e\<rparr>)"
proof (induction rs arbitrary: s)
  case (Cons r rs)
  then obtain u where u: "Release_stop mar env r s = Some u" "rangeM (Release_stop mar env) rs u = Some t"
    by (auto split: Option.bind_splits)
  have "life_step mar unm jmar junm mk (l\<lparr>al_srv := s, al_serve := LfStop (r # rs) e\<rparr>) (l\<lparr>al_srv := u, al_serve := LfStop rs e\<rparr>)"
    using life_step.lf_stop [of "l\<lparr>al_srv := s, al_serve := LfStop (r # rs) e\<rparr>" r rs e mar env u] u(1) by simp
  then show ?case using life_reach_trans [OF Cons.IH [OF u(2)]] life_reach.lf_refl life_reach.lf_more by metis
qed (simp add: life_reach.lf_refl)


lemma handles_distinct: "index_ok s \<Longrightarrow> distinct (mvals (as_handleServices s))"
proof -
  assume io: "index_ok s"
  have "h = AddrHandle (ss_addr (as_mem s r))" if "(h, r) \<in> set (as_handleServices s)" for h r
    using that index_okD(2) [OF io] index_okD(6) [OF io] by (auto simp: mwf_def)
  then have "inj_on snd (set (as_handleServices s))" by (intro inj_onI) (metis prod.collapse)
  then show ?thesis using index_okD(2) [OF io] by (simp add: mvals_def distinct_map mwf_def)
qed

text \<open>The whole release, from the loop of \<open>Serve\<close> to the return of the waiting \<open>GracefulStop\<close>.\<close>

lemma release_run:
  assumes "life_inv l" "al_serve l = LfLoop" "GsWait \<in># al_stops l"
  shows "\<exists>t d. life_reach mar unm jmar junm mk l (l\<lparr>al_srv := Release_clear t, al_done := d, al_serve := LfRet None,
      al_stops := add_mset (GsRet True) (al_stops l - {#GsWait#})\<rparr>) \<and> Event_HasFired d \<and> as_state t = SkymeshServerStop \<and>
    (\<forall>r < as_next t. stopped t r) \<and>
    as_calls t = as_calls (al_srv l) @ concat (map (\<lambda>r. stop_calls (as_mem (Release_begin (al_srv l)) r)) (mvals (as_handleServices (al_srv l))))"
proof -
  let ?s = "al_srv l" and ?b = "Release_begin (al_srv l)"
  have s: "agent_ok ?s" "as_state ?s = SkymeshServerRunning" "indexed_live ?s" "live_indexed ?s" "Event_Done (al_quit l)" "event_ok (al_done l)"
    using assms Event_Done_fired by (auto simp: life_inv_def agent_inv_def)
  note b = Release_begin_effect [OF s(1)]
  have hs: "as_handleServices ?b = as_handleServices ?s" "as_next ?b = as_next ?s" "stopped ?b = stopped ?s"
    using b(2) by (auto simp: same_live_def stopped_def)
  let ?rs = "mvals (as_handleServices ?s)"
  have io: "index_ok ?s" using s(1) by (simp add: agent_ok_def)
  have rs: "\<forall>r \<in> set ?rs. r < as_next ?b \<and> \<not> stopped ?b r" "distinct ?rs"
    using in_mvals_iff [OF index_okD(2) [OF io]] index_okD(5) [OF io] s(3) handles_distinct [OF io] hs by (auto simp: indexed_live_def)
  then have "\<forall>r \<in> set ?rs. r < as_next ?b" by blast
  from Release_stops_effect [OF b(1) this rs(2), of mar ex_env] obtain t where t: "rangeM (Release_stop mar ex_env) ?rs ?b = Some t"
    "agent_ok t" "as_next t = as_next ?b" "\<forall>x. x \<notin> set ?rs \<longrightarrow> as_mem t x = as_mem ?b x" "\<forall>r \<in> set ?rs. stopped t r"
    "as_calls t = as_calls ?b @ concat (map (\<lambda>r. if stopped ?b r then [] else stop_calls (as_mem ?b r)) ?rs)" by blast
  have "map (\<lambda>r. if stopped ?b r then [] else stop_calls (as_mem ?b r)) ?rs = map (\<lambda>r. stop_calls (as_mem ?b r)) ?rs"
    by (rule map_cong [OF refl]) (use rs(1) in simp)
  then have calls: "as_calls t = as_calls ?s @ concat (map (\<lambda>r. stop_calls (as_mem ?b r)) ?rs)"
    using t(6) b(4) by (simp only:)
  have all: "stopped t r" if "r < as_next t" for r
  proof (cases "r \<in> set ?rs")
    case False
    then have "stopped t r = stopped ?s r" using t(4) hs(3) by (simp add: stopped_def fun_eq_iff)
    moreover have "\<not> stopped ?s r \<Longrightarrow> r \<in> set ?rs" using s(4) that t(3) hs(2) mget_mem_mvals by (metis live_indexed_def)
    ultimately show ?thesis using False by blast
  qed (use t(5) in blast)
  let ?l1 = "l\<lparr>al_srv := ?b, al_serve := LfStop ?rs None\<rparr>" and ?l2 = "l\<lparr>al_srv := t, al_serve := LfStop [] None\<rparr>"
  let ?l3 = "l\<lparr>al_srv := Release_clear t, al_serve := LfWait None\<rparr>"
  obtain d where d: "Event_Fire (al_done l) = Some (d, \<not> Event_HasFired (al_done l))" "Event_HasFired d" "Event_Done d"
    using Event_Fire_ok [OF s(6)] by blast
  let ?l4 = "l\<lparr>al_srv := Release_clear t, al_done := d, al_serve := LfRet None\<rparr>"
  have "serviceWG_zero (Release_clear t)" using all wg_zero_stopped [of "Release_clear t"] agent_ok_cleared [OF t(2)]
    by (simp add: Release_clear_def stopped_def)
  then have "life_step mar unm jmar junm mk ?l3 ?l4"
    using life_step.lf_done [of ?l3 None d "\<not> Event_HasFired (al_done l)" mar unm jmar junm mk] d(1) by simp
  moreover have "life_step mar unm jmar junm mk ?l2 ?l3" using life_step.lf_clear [of ?l2 None mar unm jmar junm mk] by simp
  moreover have "life_step mar unm jmar junm mk l ?l1"
    using life_step.lf_quit [OF assms(2) s(5), of mar unm jmar junm mk] s(2) hs(1) by (simp add: Release_enter_def srv_isInState_def Let_def)
  moreover have "life_reach mar unm jmar junm mk ?l1 ?l2" by (rule life_stops [OF t(1)])
  moreover have "life_step mar unm jmar junm mk ?l4 (?l4\<lparr>al_stops := add_mset (GsRet True) (al_stops l - {#GsWait#})\<rparr>)"
    using life_step.gs_ret [of ?l4 mar unm jmar junm mk] assms(3) d(3) by simp
  ultimately have "life_reach mar unm jmar junm mk l (?l4\<lparr>al_stops := add_mset (GsRet True) (al_stops l - {#GsWait#})\<rparr>)"
    by (meson life_reach.lf_more life_reach.lf_refl life_reach_trans)
  moreover have "as_state t = SkymeshServerStop" using Release_stops_state [OF t(1)] b(3) by simp
  ultimately show ?thesis using d(2) all calls by auto
qed

section \<open>Properties\<close>



text \<open>One service, no messages: the steps before the stop.\<close>

definition ex_life :: "skymeshServer \<Rightarrow> LifePc \<Rightarrow> agent_life" where
  "ex_life s pc = \<lparr>al_srv = s, al_quit = fst (the (Event_Fire (NewEvent ''skymesh.skymeshServer.quit''))),
     al_done = NewEvent ''skymesh.skymeshServer.done'', al_errQueue = [], al_serve = pc, al_stops = {#GsWait#}\<rparr>"

abbreviation ex_reach :: "agent_life \<Rightarrow> agent_life \<Rightarrow> bool" where
  "ex_reach \<equiv> life_reach (\<lambda>_. Some [1]) (\<lambda>_. None) (\<lambda>_. None) (\<lambda>_. None) (\<lambda>_ _ _. Some 9)"

lemma ex_clean: "clean_url (\<lambda>_ _ _. Some 9) (ex_agent0\<lparr>as_state := st\<rparr>) ''svc/1''"
  using ex_url(3) by (auto simp: clean_url_def ex_url ex_agent0_def srv_Init_def addrServiceUrl_def ex_addr_def)

lemma ex_register_in:
  "srv_Register (\<lambda>_. Some [1]) ex_env (\<lambda>_ _ _. Some 9) (ex_agent0\<lparr>as_state := st\<rparr>) ''svc/1'' [] = Some (ex_agent1\<lparr>as_state := st\<rparr>, Inr 0)"
  by (simp add: srv_Register_def Let_def ex_url ex_agent0_def srv_Init_def srv_getServiceStateType_def
      sc_getServiceStateType_def sc_Init_def with_sidecar_def sc_RegisterServiceToNameServer_def nsSendMsg_def nsSend_def
      PackSSMsg_def ex_env_def ex_agent1_def svc_added_def ex_addr_def newService_def svc_group_def ex_cfg_def)

lemma ex_life_registers:
  "ex_reach l (ex_life (ex_agent0\<lparr>as_state := st\<rparr>) pc) \<Longrightarrow> ex_reach l (ex_life (ex_agent1\<lparr>as_state := st\<rparr>) pc)"
proof -
  assume l: "ex_reach l (ex_life (ex_agent0\<lparr>as_state := st\<rparr>) pc)"
  have "agent_step (\<lambda>_. Some [1]) (\<lambda>_. None) (\<lambda>_. None) (\<lambda>_. None) (\<lambda>_ _ _. Some 9) (ex_agent0\<lparr>as_state := st\<rparr>) (ex_agent1\<lparr>as_state := st\<rparr>)"
    by (rule agent_step.a_register [OF ex_register_in ex_clean])
  then show ?thesis using life_reach.lf_more [OF l life_step.lf_other] by (simp add: ex_life_def)
qed

lemma ex_life_running: "ex_reach (life_start ex_agent0) (ex_life (ex_agent0\<lparr>as_state := SkymeshServerRunning\<rparr>) LfLoop)"
proof -
  have "life_step mar unm jmar junm mk (life_start ex_agent0)
      ((life_start ex_agent0)\<lparr>al_srv := ex_agent0\<lparr>as_state := SkymeshServerRunning\<rparr>, al_serve := LfLoop\<rparr>)" for mar unm jmar junm mk
    by (rule life_step.lf_serve [where e = None]) (simp_all add: life_start_def srv_setState_def ex_agent0_def srv_Init_def)
  note 1 = life_reach.lf_more [OF life_reach.lf_refl this]
  show ?thesis using life_reach.lf_more [OF 1 life_step.gs_call [where q = "fst (the (Event_Fire (NewEvent ''skymesh.skymeshServer.quit'')))" and first = True]]
    by (simp add: life_start_def ex_life_def Event_Fire_def NewEvent_def Let_def)
qed


text \<open>
  A service registered while the server is being released can block the stop: it is entered after
  the services to stop have been listed, the tables are then emptied, and the release waits for a goroutine that
  nothing can stop, because \<open>UnRegister\<close> finds no service any more.
\<close>

theorem agent_stop_blocked_by_register:
  "\<exists>l. ex_reach (life_start ex_agent0) l \<and> al_serve l = LfWait None \<and> GsWait \<in># al_stops l \<and> \<not> serviceWG_zero (al_srv l) \<and>
     (\<forall>mar env url. srv_UnRegister mar env (al_srv l) url = Some (al_srv l))"
proof -
  let ?r = "ex_life (ex_agent0\<lparr>as_state := SkymeshServerRunning\<rparr>) LfLoop"
  have b: "Release_begin (ex_agent0\<lparr>as_state := SkymeshServerRunning\<rparr>) = ex_agent0\<lparr>as_state := SkymeshServerStop\<rparr>"
    by (simp add: Release_begin_def srv_setState_def ex_agent0_def srv_Init_def)
  have "Release_enter ?r None = ex_life (ex_agent0\<lparr>as_state := SkymeshServerStop\<rparr>) (LfStop [] None)"
    by (simp add: Release_enter_def srv_isInState_def ex_life_def Let_def b) (simp add: ex_agent0_def srv_Init_def)
  moreover have "Event_Done (al_quit ?r)" by (simp add: ex_life_def Event_Fire_def NewEvent_def Event_Done_def Let_def)
  ultimately have "ex_reach (life_start ex_agent0) (ex_life (ex_agent0\<lparr>as_state := SkymeshServerStop\<rparr>) (LfStop [] None))"
    using life_reach.lf_more [OF ex_life_running life_step.lf_quit [of ?r]] by (simp add: ex_life_def)
  from life_reach.lf_more [OF ex_life_registers [OF this] life_step.lf_clear [of _ None]]
  have "ex_reach (life_start ex_agent0) (ex_life (Release_clear (ex_agent1\<lparr>as_state := SkymeshServerStop\<rparr>)) (LfWait None))"
    by (simp add: ex_life_def)
  moreover have "\<not> serviceWG_zero (Release_clear (ex_agent1\<lparr>as_state := SkymeshServerStop\<rparr>))"
    by (simp add: serviceWG_zero_def Release_clear_def ex_agent1_def svc_added_def Let_def ex_agent0_def srv_Init_def newService_def)
  ultimately show ?thesis
    by (intro exI [of _ "ex_life (Release_clear (ex_agent1\<lparr>as_state := SkymeshServerStop\<rparr>)) (LfWait None)"])
      (simp add: ex_life_def UnRegister_absent Release_clear_def)
qed


section \<open>Starting an agent\<close>

lemma CheckConfig_ok:
  assumes "CheckConfig c = Inr c'"
  shows "0 < RecvQueueSize c'" "0 < ServiceQueueSize c'" "0 < EventQueueSize c'" "0 < ServicePingInterval c'"
    "0 < ServiceKeepAliveInterval c'" "3 \<le> length (NameserverAddress c')" "3 \<le> length (MeshserverAddress c')"
    "ServicePingInterval c' \<le> max 5 (ServicePingInterval c)" "ServiceKeepAliveInterval c' \<le> max 5 (ServiceKeepAliveInterval c)"
  using assms by (auto simp: CheckConfig_def Let_def split: if_splits)

text \<open>
  Starting an agent never panics for intervals of less than 292 years, whatever the configuration
  file holds and the network does. A server it returns is running and satisfies the invariant, and it
  began with positive queue sizes and with the registration of the application as the only message to
  the name server.
\<close>

theorem agent_start_safe:
  assumes "\<And>data cfg. jcfg data cfg0 = Inr cfg \<Longrightarrow> ServiceKeepAliveInterval cfg \<le> 9223372036 \<and> ServicePingInterval cfg \<le> 9223372036"
    and "\<And>s s'. window s = ServeElapsed s' \<Longrightarrow> agent_reach mar unm jmar junm mk s s'"
  shows "\<exists>r. NewServer readFile jcfg mar env startErr window cfg0 ss0 rs0 conf appID = Some r \<and>
    (\<forall>s. r = Inr s \<longrightarrow> as_state s = SkymeshServerRunning \<and> agent_inv s \<and>
      (\<exists>s0 b. window s0 = ServeElapsed s \<and> 0 < RecvQueueSize (as_cfg s0) \<and> 0 < EventQueueSize (as_cfg s0) \<and> 0 < queueCap s0 \<and>
        PackSSMsg mar (msgRegisterAppReq (as_cfg s0) appID) = Some b \<and> sc_nsOut (as_sidecar s0) = [b]))"
proof (cases "loadConfig readFile jcfg cfg0 conf")
  case (Inr cfg)
  then obtain data c where c: "jcfg data cfg0 = Inr c" "CheckConfig c = Inr cfg"
    by (auto simp: loadConfig_def split: sum.splits)
  note k = CheckConfig_ok [OF c(2)]
  have t: "NewTicker (ServiceKeepAliveInterval cfg) = Some ()" "NewTicker (ServicePingInterval cfg) = Some ()"
    "make_chan (RecvQueueSize cfg) = Some ()" "make_chan (EventQueueSize cfg) = Some ()"
    using NewTicker_ok k assms(1) [OF c(1)] by (auto simp: make_chan_def)
  let ?s = "(srv_Init appID cfg ss0 rs0)" and ?m = "msgRegisterAppReq cfg appID"
  have inv: "agent_inv (?s\<lparr>as_sidecar := fst (nsSendMsg mar env (as_sidecar ?s) ?m)\<rparr>)"
    using agent_inv_init [of appID cfg ss0 rs0] agent_ok_sends [OF _ nsSendMsg_sends, of ?s] by (simp add: agent_inv_def)
  show ?thesis
  proof (cases "startErr = None \<and> snd (nsSendMsg mar env (as_sidecar ?s) ?m) = None")
    case True
    let ?init = "?s\<lparr>as_sidecar := fst (nsSendMsg mar env (as_sidecar ?s) ?m)\<rparr>"
    obtain sc where sc: "nsSendMsg mar env (as_sidecar ?s) ?m = (sc, None)"
      using True by (cases "nsSendMsg mar env (as_sidecar ?s) ?m") simp
    then obtain b where b: "PackSSMsg mar ?m = Some b" "sc_nsOut sc = [b]"
      by (auto simp: nsSendMsg_def nsSend_def srv_Init_def sc_Init_def split: option.splits)
    have eq: "NewServer readFile jcfg mar env startErr window cfg0 ss0 rs0 conf appID = Some (case window ?init of
        ServeNotified e \<Rightarrow> Inl (ServeErr e) | ServeElapsed s \<Rightarrow>
          (if srv_isInState s SkymeshServerRunning then Inr s else Inl (ServeTimeout (as_state s))))"
      using True unfolding NewServer_def srv_Init_all_def Inr sc_Init_net_def Let_def
      by (simp only: sc t sum.case prod.case option.case bind.simps if_True fst_conv conj_absorb) (simp split: ServeWindow.split)
    have s0: "as_cfg ?init = cfg" "as_sidecar ?init = sc" using sc by (simp_all add: srv_Init_def)
    show ?thesis
    proof (cases "window ?init")
      case (ServeElapsed s)
      then have "agent_inv s" using agent_reach_inv [OF assms(2) inv] by blast
      moreover have "0 < RecvQueueSize (as_cfg ?init)" "0 < EventQueueSize (as_cfg ?init)" "0 < queueCap ?init"
        "PackSSMsg mar (msgRegisterAppReq (as_cfg ?init) appID) = Some b" "sc_nsOut (as_sidecar ?init) = [b]"
        using b k(1-3) s0 by (simp_all add: queueCap_def)
      then have "\<exists>s0 b. window s0 = ServeElapsed s \<and> 0 < RecvQueueSize (as_cfg s0) \<and> 0 < EventQueueSize (as_cfg s0) \<and> 0 < queueCap s0 \<and>
          PackSSMsg mar (msgRegisterAppReq (as_cfg s0) appID) = Some b \<and> sc_nsOut (as_sidecar s0) = [b]"
        using ServeElapsed by blast
      ultimately show ?thesis unfolding eq ServeElapsed ServeWindow.case by (simp add: srv_isInState_def)
    qed (simp add: eq)
  next
    case False
    then show ?thesis using t by (auto simp: NewServer_def srv_Init_all_def Inr sc_Init_net_def Let_def split: option.splits prod.splits)
  qed
qed (simp add: NewServer_def srv_Init_all_def)

end
