(* ===== verification/Wire.thy ===== *)
theory Wire
  imports NsRecv AgentLife
begin

text \<open>
  The protocol of \<^verbatim>\<open>src/proto/ssproto.proto\<close> as a type system of the messages on the wire: the body
  is the one the command announces, every nested message a receiver reads is there, and the message
  goes to a party that expects it. Every frame an agent or the name server writes is well typed,
  every well-typed frame is dispatched without a panic, and both are invariants of the two
  transition systems. \<open>G\<close> is a predicate of the announced services and \<open>D\<close> one of the encoded
  attributes, which the parties only relay.
\<close>

section \<open>The types of the messages\<close>

text \<open>The command a body belongs to (the comments of the messages in the protocol file).\<close>

fun cmd_of :: "SSBody \<Rightarrow> SSCmd" where
  "cmd_of (RegisterAppReq _ _) = REQ_REGISTER_APP"
| "cmd_of (RegisterAppRsp _ _) = RSP_REGISTER_APP"
| "cmd_of (RegisterServiceReq _ _) = REQ_REGISTER_SERVICE"
| "cmd_of (RegisterServiceRsp _ _) = RSP_REGISTER_SERVICE"
| "cmd_of (NotifyServiceOnline _ _ _ _) = NOTIFY_SERVICE_ONLINE"
| "cmd_of (UnregisterServiceReq _) = REQ_UNREGISTER_SERVICE"
| "cmd_of (NotifyNameserverHb _) = NOTIFY_NAMESERVER_HEARTBEAT"
| "cmd_of (NotifyNameserverAttr _ _) = NOTIFY_NAMESERVER_SYNCATTR"
| "cmd_of (NotifyServiceAttr _ _) = NOTIFY_SERVICE_SYNCATTR"
| "cmd_of (NotifyNameserverElection _ _) = NOTIFY_NAMESERVER_ELECTION"
| "cmd_of (NotifyServiceElectionResult _ _ _) = NOTIFY_SERVICE_ELECTION_RESULT"
| "cmd_of (NotifyServiceKickoff _) = NOTIFY_SERVICE_KICK_OFF"
| "cmd_of (NotifyNameserverAgentInfo _ _) = NOTIFY_NAMESERVER_AGENT_INFO"
| "cmd_of (NotifyNameserverRegisterRouter _) = NOTIFY_NAMESERVER_REGISTER_ROUTER"
| "cmd_of (AgentRouterUpdateReq _ _) = REQ_AGENT_ROUTER_UPDATE"
| "cmd_of (NameserverRouterUpdateRsp _ _) = RSP_NAMESERVER_ROUTER_UPDATE"
| "cmd_of (NotifyServiceMessage _ _ _) = NOTIFY_SERVICE_MESSAGE"
| "cmd_of (ServicePingReq _ _ _) = REQ_PING_SERVICE"
| "cmd_of (ServicePingRsp _ _) = RSP_PING_SERVICE"

datatype Party = Nameserver | AgentOfNs | PeerAgent

text \<open>Who a command is addressed to.\<close>

fun addressee :: "SSCmd \<Rightarrow> Party option" where
  "addressee REQ_REGISTER_APP = Some Nameserver"
| "addressee REQ_REGISTER_SERVICE = Some Nameserver"
| "addressee REQ_UNREGISTER_SERVICE = Some Nameserver"
| "addressee NOTIFY_NAMESERVER_HEARTBEAT = Some Nameserver"
| "addressee NOTIFY_NAMESERVER_SYNCATTR = Some Nameserver"
| "addressee NOTIFY_NAMESERVER_ELECTION = Some Nameserver"
| "addressee NOTIFY_NAMESERVER_AGENT_INFO = Some Nameserver"
| "addressee NOTIFY_NAMESERVER_REGISTER_ROUTER = Some Nameserver"
| "addressee RSP_NAMESERVER_ROUTER_UPDATE = Some Nameserver"
| "addressee RSP_REGISTER_APP = Some AgentOfNs"
| "addressee RSP_REGISTER_SERVICE = Some AgentOfNs"
| "addressee NOTIFY_SERVICE_ONLINE = Some AgentOfNs"
| "addressee NOTIFY_SERVICE_SYNCATTR = Some AgentOfNs"
| "addressee NOTIFY_SERVICE_ELECTION_RESULT = Some AgentOfNs"
| "addressee NOTIFY_SERVICE_KICK_OFF = Some AgentOfNs"
| "addressee REQ_AGENT_ROUTER_UPDATE = Some AgentOfNs"
| "addressee NOTIFY_SERVICE_MESSAGE = Some PeerAgent"
| "addressee REQ_PING_SERVICE = Some PeerAgent"
| "addressee RSP_PING_SERVICE = Some PeerAgent"
| "addressee _ = None"

text \<open>The nested messages a receiver reads are present; announced services and attributes are as \<open>G\<close> and \<open>D\<close> say.\<close>

fun fields_ok :: "(PbServiceInfo \<Rightarrow> bool) \<Rightarrow> (bytes \<Rightarrow> bool) \<Rightarrow> SSBody \<Rightarrow> bool" where
  "fields_ok G D (RegisterServiceReq info opts) \<longleftrightarrow> pred_option G info \<and> info \<noteq> None \<and> opts \<noteq> None"
| "fields_ok G D (NotifyServiceOnline sa info opts o') \<longleftrightarrow> pred_option G info \<and> info \<noteq> None \<and> opts \<noteq> None"
| "fields_ok G D (NotifyNameserverAttr h data) \<longleftrightarrow> D data"
| "fields_ok G D (NotifyServiceAttr info data) \<longleftrightarrow> info \<noteq> None \<and> D data"
| "fields_ok G D (NotifyServiceElectionResult cand ev res) \<longleftrightarrow> cand \<noteq> None"
| "fields_ok G D (NotifyServiceMessage src dst data) \<longleftrightarrow> src \<noteq> None"
| "fields_ok G D _ \<longleftrightarrow> True"

definition well_typed :: "(PbServiceInfo \<Rightarrow> bool) \<Rightarrow> (bytes \<Rightarrow> bool) \<Rightarrow> Party \<Rightarrow> SSMsg \<Rightarrow> bool" where
  "well_typed G D p m =
     (case ssMsg m of
        None \<Rightarrow> False
      | Some body \<Rightarrow> cmd_of body = ssCmd m \<and> addressee (ssCmd m) = Some p \<and> fields_ok G D body)"

definition frame_typed :: "marshal \<Rightarrow> (PbServiceInfo \<Rightarrow> bool) \<Rightarrow> (bytes \<Rightarrow> bool) \<Rightarrow> Party \<Rightarrow> bytes \<Rightarrow> bool" where
  "frame_typed mar G D p f \<longleftrightarrow> (\<exists>m. PackSSMsg mar m = Some f \<and> well_typed G D p m)"

lemma well_typedI [simp]:
  "well_typed G D p (SSMsg (cmd_of body) (Some body)) \<longleftrightarrow> addressee (cmd_of body) = Some p \<and> fields_ok G D body"
  by (simp add: well_typed_def)

lemma well_typed_mono:
  "well_typed G D p m \<Longrightarrow> (\<And>i. G i \<Longrightarrow> G' i) \<Longrightarrow> (\<And>d. D d \<Longrightarrow> D' d) \<Longrightarrow> well_typed G' D' p m"
  by (cases m; cases "ssMsg m"; cases "the (ssMsg m)") (auto simp: well_typed_def option.pred_set)

lemma frame_typedI: "PackSSMsg mar m = Some f \<Longrightarrow> well_typed G D p m \<Longrightarrow> frame_typed mar G D p f"
  by (auto simp: frame_typed_def)

lemma frame_typed_unique:
  "codec_ok mar unm \<Longrightarrow> frame_typed mar G D p f \<Longrightarrow> PackSSMsg mar m = Some f \<Longrightarrow> well_typed G D p m"
  unfolding frame_typed_def using PackSSMsg_inj by blast

lemma frame_typed_decodes:
  "codec_ok mar unm \<Longrightarrow> frame_typed mar G D p f \<Longrightarrow>
     \<exists>b m. Unpack (f @ rest) = (length f, b) \<and> unm b = Some m \<and> 0 < length f \<and> well_typed G D p m"
  unfolding frame_typed_def using Unpack_PackSSMsg by blast

section \<open>Well-typed messages are dispatched\<close>

lemma well_typed_cases:
  assumes "well_typed G D p m"
  obtains body where "m = SSMsg (cmd_of body) (Some body)" "addressee (cmd_of body) = Some p" "fields_ok G D body"
  using assms by (cases m) (auto simp: well_typed_def split: option.splits)

lemma well_typed_readable:
  assumes "well_typed G D Nameserver m"
  shows "readable m"
proof -
  from assms obtain body where "m = SSMsg (cmd_of body) (Some body)" "addressee (cmd_of body) = Some Nameserver"
    "fields_ok G D body" by (rule well_typed_cases)
  then show ?thesis by (cases body) auto
qed

lemma readable_dispatched:
  "s_conns s c = Some lr \<Longrightarrow> s_sess_mgr s \<Longrightarrow> readable m \<Longrightarrow> \<exists>t. NsReceiver_dispatch s c m = Some t"
  by (cases m rule: readable.cases)
    (auto simp: NsReceiver_dispatch_def addSession_def split: option.splits SSBody.splits)

lemma agent_dispatched:
  assumes "well_typed G D AgentOfNs m" "\<And>d. D d \<Longrightarrow> junm d \<noteq> None"
  shows "\<exists>e. nsEvent junm (ssCmd m) (ssMsg m) = Some (Inr (Some e))"
proof -
  from assms(1) obtain body where "m = SSMsg (cmd_of body) (Some body)" "addressee (cmd_of body) = Some AgentOfNs"
    "fields_ok G D body" by (rule well_typed_cases)
  then show ?thesis using assms(2) by (cases body) (auto simp: nsEvent_def split: option.split)
qed

lemma peer_dispatched:
  assumes "well_typed G D PeerAgent m"
  shows "\<exists>t. lisConn_dispatch now s m = Some t"
proof -
  from assms obtain body where "m = SSMsg (cmd_of body) (Some body)" "addressee (cmd_of body) = Some PeerAgent"
    "fields_ok G D body" by (rule well_typed_cases)
  then show ?thesis by (cases body) (auto simp: lisConn_dispatch_def)
qed

section \<open>What an agent writes\<close>

text \<open>What a sidecar has written, and the services it was told of.\<close>

definition sc_typed ::
  "marshal \<Rightarrow> (PbServiceInfo \<Rightarrow> bool) \<Rightarrow> (bytes \<Rightarrow> bool) \<Rightarrow> skymeshSidecar \<Rightarrow> bool" where
  "sc_typed mar G D sc \<longleftrightarrow>
     (\<forall>f \<in> set (sc_nsOut sc). frame_typed mar G D Nameserver f) \<and>
     (\<forall>x \<in> set (sc_agentOut sc). frame_typed mar G D PeerAgent (snd x)) \<and>
     (\<forall>h r. mget (sc_remoteServices sc) h = Some r \<longrightarrow> G (pbOfAddr (rs_serviceAddr (sc_mem sc r))))"

lemma sc_typed_upd [simp]:
  "sc_typed mar G D (sc\<lparr>sc_dialers := b\<rparr>) = sc_typed mar G D sc" "sc_typed mar G D (sc\<lparr>sc_next := c\<rparr>) = sc_typed mar G D sc"
  "sc_typed mar G D (sc\<lparr>sc_remoteUrlServices := e\<rparr>) = sc_typed mar G D sc"
  "sc_typed mar G D (sc\<lparr>sc_remoteGroupServices := g\<rparr>) = sc_typed mar G D sc"
  "sc_typed mar G D (sc\<lparr>sc_nameStates := k\<rparr>) = sc_typed mar G D sc"
  by (simp_all add: sc_typed_def)

lemma sc_typed_mem:
  "sc_typed mar G D sc \<Longrightarrow> rs_serviceAddr rs = rs_serviceAddr (sc_mem sc r) \<Longrightarrow>
     sc_typed mar G D (sc\<lparr>sc_mem := (sc_mem sc)(r := rs)\<rparr>)"
  by (simp add: sc_typed_def)

lemma sc_typed_nsSendMsg:
  "sc_typed mar G D sc \<Longrightarrow> well_typed G D Nameserver m \<Longrightarrow>
     sc_typed mar G D (fst (nsSendMsg mar env sc m))"
  by (auto simp: nsSendMsg_def nsSend_def sc_typed_def intro: frame_typedI split: option.split)

lemma sc_typed_GetDialer: "AgentDialerMgr_GetDialer env sc u = (sc', e) \<Longrightarrow> sc_typed mar G D sc' = sc_typed mar G D sc"
  by (auto simp: AgentDialerMgr_GetDialer_def split: option.splits if_splits)

lemma sc_typed_agentSend: "sc_typed mar G D sc \<Longrightarrow> frame_typed mar G D PeerAgent f \<Longrightarrow> sc_typed mar G D (fst (agentSend env sc u f))"
  by (auto simp: agentSend_def sc_typed_def split: option.split)

definition agent_typed :: "marshal \<Rightarrow> (PbServiceInfo \<Rightarrow> bool) \<Rightarrow> (bytes \<Rightarrow> bool) \<Rightarrow> skymeshServer \<Rightarrow> bool" where
  "agent_typed mar G D s =
     sc_typed mar G D (as_sidecar s)"

text \<open>The messages an agent builds have their types.\<close>

lemma well_typed_simps [simp]:
  "well_typed G D p (SSMsg c None) = False"
  "well_typed G D p (SSMsg c (Some body)) \<longleftrightarrow> cmd_of body = c \<and> addressee c = Some p \<and> fields_ok G D body"
  by (simp_all add: well_typed_def)

lemmas typed_sends = sc_typed_nsSendMsg sc_typed_agentSend frame_typedI

lemma SendRemote_typed:
  assumes "sc_typed mar G D sc"
  shows "sc_typed mar G D (fst (sc_SendRemote mar env sc src h b))"
  using assms by (auto simp: sc_SendRemote_def Let_def split: option.split prod.split dest: sc_typed_GetDialer
      intro!: sc_typed_agentSend intro: frame_typedI)

lemma sendPingAck_typed:
  assumes "sc_typed mar G D sc"
  shows "sc_typed mar G D (sc_sendPingAck mar env sc h seq addr)"
  using assms by (auto simp: sc_sendPingAck_def split: option.split prod.split dest: sc_typed_GetDialer
      intro!: sc_typed_agentSend intro: frame_typedI)

lemma healthCheck_typed:
  assumes "sc_typed mar G D sc"
  shows "sc_typed mar G D (sc_healthCheck mar env now addr sc)"
  unfolding sc_healthCheck_def
  by (rule fold_keeps [where P = "sc_typed mar G D"])
    (use assms in \<open>auto simp: Let_def split: option.split prod.split dest: sc_typed_GetDialer
      intro!: sc_typed_agentSend sc_typed_mem intro: frame_typedI\<close>)

lemma keepalive_typed:
  assumes "sc_typed mar G D sc"
  shows "sc_typed mar G D (sc_keepalive mar env sc hs)"
  unfolding sc_keepalive_def
  by (rule fold_keeps [where P = "sc_typed mar G D"])
    (use assms in \<open>auto intro!: sc_typed_nsSendMsg\<close>)

lemma SendAllRemote_typed:
  assumes "sc_typed mar G D sc"
  shows "sc_typed mar G D (sc_SendAllRemote mar env sc src n b)"
  unfolding sc_SendAllRemote_def
  by (rule fold_keeps [where P = "sc_typed mar G D"])
    (use assms SendRemote_typed in auto)

lemma agent_typed_upd [simp]:
  "agent_typed mar G D (s\<lparr>as_mem := a\<rparr>) = agent_typed mar G D s"
  "agent_typed mar G D (s\<lparr>as_calls := b\<rparr>) = agent_typed mar G D s"
  "agent_typed mar G D (s\<lparr>as_nameElections := c\<rparr>) = agent_typed mar G D s"
  "agent_typed mar G D (s\<lparr>as_nameRouters := d\<rparr>) = agent_typed mar G D s"
  "agent_typed mar G D (s\<lparr>as_eventQueue := e\<rparr>) = agent_typed mar G D s"
  "agent_typed mar G D (s\<lparr>as_recvQueue := f\<rparr>) = agent_typed mar G D s"
  "agent_typed mar G D (s\<lparr>as_state := g\<rparr>) = agent_typed mar G D s"
  "agent_typed mar G D (s\<lparr>as_urlServices := k\<rparr>) = agent_typed mar G D s"
  "agent_typed mar G D (s\<lparr>as_handleServices := l\<rparr>) = agent_typed mar G D s"
  "agent_typed mar G D (s\<lparr>as_nameGroupServices := m\<rparr>) = agent_typed mar G D s"
  "agent_typed mar G D (s\<lparr>as_nameStates := n\<rparr>) = agent_typed mar G D s"
  "agent_typed mar G D (s\<lparr>as_next := q\<rparr>) = agent_typed mar G D s"
  "agent_typed mar G D (s\<lparr>as_sidecar := sc\<rparr>) =
     sc_typed mar G D sc"
  by (simp_all add: agent_typed_def)

lemma agent_typed_ops [simp]:
  "agent_typed mar G D (srv_push s r x) = agent_typed mar G D s"
  "agent_typed mar G D (setElection s n y) = agent_typed mar G D s"
  "agent_typed mar G D (setRouter s n z) = agent_typed mar G D s"
  "agent_typed mar G D (srv_getNameElection s n) = agent_typed mar G D s"
  by (simp_all add: srv_push_def setElection_def setRouter_def srv_getNameElection_def)

lemma agent_typedD: "agent_typed mar G D s \<Longrightarrow>
    sc_typed mar G D (as_sidecar s)"
  by (simp add: agent_typed_def)

text \<open>A request to the name server, as the server object makes it.\<close>

lemma agent_typed_request:
  "agent_typed mar G D s \<Longrightarrow> as_sidecar s = sc \<Longrightarrow> well_typed G D Nameserver m \<Longrightarrow>
     agent_typed mar G D (fst (with_sidecar s (nsSendMsg mar env sc m)))"
  by (auto simp: with_sidecar_def agent_typed_def intro: sc_typed_nsSendMsg)

lemmas requests =
  sc_UnRegisterServiceToNameServer_def sc_RegisterRouterToNameServer_def sc_SyncNameServerElection_def
  sc_ReplyNameServerRouterUpdate_def

lemma with_sidecar_eq: "with_sidecar s x = (t, e) \<Longrightarrow> t = fst (with_sidecar s x)"
  by simp

lemma sends_typed:
  assumes "agent_typed mar G D s"
  shows "agent_typed mar G D (fst (srv_sendByHandle mar env s src h b))"
    and "agent_typed mar G D (fst (srv_sendBySvcUrl mar env s src url b))"
    and "agent_typed mar G D (fst (srv_sendByRouter mar env s src n b))"
    and "agent_typed mar G D (srv_broadcastBySvcName mar env s src n b)"
proof -
  have f: "agent_typed mar G D (fold (\<lambda>(lh, r) s. srv_push s r (DataMessage src lh b)) xs s)" for xs
    by (rule fold_keeps [where P = "agent_typed mar G D"]) (use assms in auto)
  show "agent_typed mar G D (srv_broadcastBySvcName mar env s src n b)"
    using SendAllRemote_typed [OF agent_typedD [OF f]] by (simp add: srv_broadcastBySvcName_def Let_def)
  note h = SendRemote_typed [OF agent_typedD [OF assms]]
  show "agent_typed mar G D (fst (srv_sendByHandle mar env s src h b))" for h
    using assms h by (auto simp: srv_sendByHandle_def with_sidecar_def split: option.split)
  then show "agent_typed mar G D (fst (srv_sendByRouter mar env s src n b))"
    using assms by (auto simp: srv_sendByRouter_def split: option.split)
  show "agent_typed mar G D (fst (srv_sendBySvcUrl mar env s src url b))"
    using assms h agent_typedD [OF assms]
    by (auto simp: srv_sendBySvcUrl_def with_sidecar_def sc_SendRemoteBySvcUrl_def split: option.split)
qed

lemma election_typed:
  assumes "agent_typed mar G D s"
  shows "agent_typed mar G D (fst (srv_runForElection mar env s a c))"
    and "agent_typed mar G D (fst (srv_giveUpElection mar env s a))"
    and "agent_typed mar G D (fst (srv_watchElection s a n w))"
    and "agent_typed mar G D (fst (srv_unWatchElection s a n))"
  using assms
  by (auto simp: srv_runForElection_def srv_giveUpElection_def srv_watchElection_def srv_unWatchElection_def
      requests Let_def with_sidecar_def sc_typed_nsSendMsg agent_typedD setElection_def srv_getNameElection_def
      split: option.split prod.split)

lemma GetNameRouter_typed:
  assumes "agent_typed mar G D s"
  shows "agent_typed mar G D (srv_GetNameRouter mar env s n)"
  using assms agent_typed_request [of mar G D "setRouter s n (newNameRouter n, [])" "as_sidecar s"]
  by (auto simp: srv_GetNameRouter_def Let_def requests setRouter_def with_sidecar_def split: option.split)

lemma setAttr_typed:
  assumes "agent_typed mar G D s" "\<And>a d. jmar a = Some d \<Longrightarrow> D d"
  shows "agent_typed mar G D (fst (ss_SetAttribute mar jmar env s r attrs))"
  using assms by (auto simp: ss_SetAttribute_def srv_setAttribute_def sc_SyncServiceAttrToNameServer_def Let_def
      with_sidecar_def setRouter_def sc_typed_nsSendMsg agent_typedD split: option.split)

lemma acks_typed:
  assumes "agent_typed mar G D s"
  shows "agent_typed mar G D (srv_acks mar env s ps)"
proof -
  have "sc_typed mar G D
      (fold (\<lambda>p sc. case p of PingAckReq h seq addr \<Rightarrow> sc_sendPingAck mar env sc h seq addr) ps (as_sidecar s))"
    by (rule fold_keeps [where P = "sc_typed mar G D"])
      (use agent_typedD [OF assms] in \<open>auto simp: sendPingAck_typed split: PingAckReq.split\<close>)
  then show ?thesis by (simp add: srv_acks_def)
qed

lemma stop_typed: "agent_typed mar G D s \<Longrightarrow> srv_stop mar env s r = Some t \<Longrightarrow> agent_typed mar G D t"
  by (auto simp: srv_stop_def acks_typed split: Option.bind_splits)

lemma UnRegister_typed:
  assumes "agent_typed mar G D s" "srv_UnRegister mar env s url = Some t"
  shows "agent_typed mar G D t"
proof (cases "mget (as_urlServices s) (StripSkymeshUrlPrefix url)")
  case (Some r)
  let ?s = "fst (with_sidecar s (sc_UnRegisterServiceToNameServer mar env (as_sidecar s) (ss_addr (as_mem s r))))"
  have "agent_typed mar G D ?s"
    unfolding requests by (rule agent_typed_request [OF assms(1)]) simp_all
  then have "agent_typed mar G D (setElection ?s n x)" for n x by simp
  from stop_typed [OF this] assms(2) Some show ?thesis
    by (auto simp: srv_UnRegister_def Let_def split: Option.bind_splits)
qed (use assms in \<open>simp add: srv_UnRegister_def Let_def\<close>)

lemma Register_typed:
  assumes "agent_typed mar G D s" "srv_Register mar env mk s url opts = Some (t, res)"
    and "\<And>a n i h. mk a n i = Some h \<Longrightarrow> G (PbServiceInfo n i h)"
  shows "agent_typed mar G D t"
proof -
  have "well_typed G D Nameserver (SSMsg REQ_REGISTER_SERVICE (Some (RegisterServiceReq
      (Some (pbOfAddr (addr\<lparr>AddrHandle := h\<rparr>))) (Some (pbOfOpts o')))))"
    if "mk a (ServiceName addr) (ServiceId addr) = Some h" for addr h a o'
    using assms(3) [OF that] by (simp add: pbOfAddr_def)
  then show ?thesis using assms(1,2)
    by (auto simp: srv_Register_def Let_def sc_RegisterServiceToNameServer_def split: option.splits sum.splits
        Option.bind_splits if_splits prod.splits dest!: with_sidecar_eq intro!: agent_typed_request)
qed

fun event_typed :: "(PbServiceInfo \<Rightarrow> bool) \<Rightarrow> AgentEvent \<Rightarrow> bool" where
  "event_typed G (OnlineEvent addr sa isOnline opts) \<longleftrightarrow> G (pbOfAddr addr)"
| "event_typed G _ \<longleftrightarrow> True"

lemma notifyOnline_typed:
  assumes "sc_typed mar G D sc" "sidecar_ok sc" "G (pbOfAddr addr)"
  shows "sc_typed mar G D (sc_notifyServiceOnline sc addr sa o' opts)"
  using assms sidecar_okD(5) [OF assms(2)]
  by (auto simp: sc_notifyServiceOnline_def sc_typed_def newRemoteService_def Let_def split: if_splits)

lemma recvPingAck_typed: "sc_typed mar G D sc \<Longrightarrow> sc_typed mar G D (sc_recvPingAck now sc h q)"
  by (simp add: sc_recvPingAck_def rs_PingAck_def sc_typed_mem split: option.split)

lemma syncAttr_typed: "sc_typed mar G D sc \<Longrightarrow> sc_typed mar G D (sc_notifyServiceSyncAttr sc addr attrs)"
  by (simp add: sc_notifyServiceSyncAttr_def rs_SetAttribute_def sc_typed_mem split: option.split)

lemma onEvent_typed:
  assumes "agent_typed mar G D s" "srv_onEvent mar env s e = Some t" "event_typed G e" "sidecar_ok (as_sidecar s)"
  shows "agent_typed mar G D t"
proof -
  have l: "agent_typed mar G D (srv_onRegisterApp s leaders)" for leaders
    unfolding srv_onRegisterApp_def by (rule fold_keeps [where P = "agent_typed mar G D"]) (use assms(1) in auto)
  have side: "G (pbOfAddr a) \<Longrightarrow> agent_typed mar G D (s\<lparr>as_sidecar := sc_notifyServiceOnline (as_sidecar s) a b c d\<rparr>)"
    "agent_typed mar G D (s\<lparr>as_sidecar := sc_notifyServiceSyncAttr (as_sidecar s) a x\<rparr>)" for a b c d x
    using agent_typedD [OF assms(1)] notifyOnline_typed [OF _ assms(4)] syncAttr_typed by auto
  have r: "agent_typed mar G D (srv_onRouterUpdate mar env s n c)" for n c
    using assms(1) by (auto simp: srv_onRouterUpdate_def Let_def requests with_sidecar_def sc_typed_nsSendMsg
        agent_typedD setRouter_def split: option.split)
  show ?thesis using assms side l r
    by (cases e) (auto simp: srv_onEvent_def Let_def simp del: agent_typed_upd(13) split: option.splits
        elim: UnRegister_typed [rotated])
qed

lemma Release_typed:
  assumes "agent_typed mar G D s" "srv_Release mar env s = Some t"
  shows "agent_typed mar G D t"
proof (cases "srv_isInState s SkymeshServerRunning")
  case True
  let ?T = "agent_typed mar G D"
  have recv: "?T u \<Longrightarrow> ?T (srv_onRecv u m)" for u m by (auto simp: srv_onRecv_def split: option.split)
  have "?T (fold (\<lambda>m s. srv_onRecv s m) ms u)" if "?T u" for ms u
    by (rule fold_keeps [where P = ?T]) (use that recv in auto)
  then have b: "?T (Release_begin s)" using assms(1) by (simp add: Release_begin_def Let_def srv_setState_def)
  have step: "?T v" if "?T u" "Release_stop mar env r u = Some v" for r u v
    using that stop_typed agent_typed_request [of mar G D u "as_sidecar u"] by (force simp: Release_stop_def requests)
  obtain u where "rangeM (Release_stop mar env) (mvals (as_handleServices (Release_begin s))) (Release_begin s) = Some u"
    "t = Release_clear u" using assms(2) unfolding Release_parts [OF True] by (auto split: Option.bind_splits)
  moreover from this(1) have "?T u" by (rule rangeM_inv [where P = ?T]) (use b step in auto)
  ultimately show ?thesis using agent_typedD by (auto simp: Release_clear_def sc_Release_def sc_typed_def)
qed (use assms in \<open>simp add: srv_Release_def\<close>)

lemma agent_step_typed:
  assumes "agent_step mar unm jmar junm mk s t" "agent_typed mar G D s" "agent_inv s" "\<forall>e \<in> set (as_eventQueue s). event_typed G e"
    and "\<And>a n i h. mk a n i = Some h \<Longrightarrow> G (PbServiceInfo n i h)" "\<And>a d. jmar a = Some d \<Longrightarrow> D d"
  shows "agent_typed mar G D t"
  using assms(1-4)
proof (induction rule: agent_step.induct)
  case (a_start s)
  then show ?case by (simp add: srv_setState_def)
next
  case (a_register env s url opts t res)
  show ?case by (rule Register_typed [OF a_register.prems(1) a_register.hyps(1) assms(5)])
next
  case (a_wait env s url r code t res)
  then show ?case by (auto simp: srv_RegisterWait_def elim: UnRegister_typed split: option.splits if_splits Option.bind_splits)
next
  case (a_fromNs s b t skip err)
  then show ?case by (auto simp: NSDialerReceiver_OnMessage_def offerEvent_def
        split: prod.splits if_splits option.splits Option.bind_splits sum.splits)
next
  case (a_fromAgent now s b t skip err)
  then show ?case using lisConn_effect [OF a_fromAgent.hyps(1)] agent_typedD [OF a_fromAgent.prems(1)]
    by (auto simp: recvPingAck_typed)
next
  case (a_event env s t e es)
  then show ?case using onEvent_typed [of mar G D "s\<lparr>as_eventQueue := es\<rparr>" env e t]
    by (simp add: srv_Serve_event_def agent_inv_def agent_ok_def)
next
  case (a_recv s)
  then show ?case by (auto simp: srv_Serve_recv_def srv_onRecv_def split: list.split option.split)
next
  case (a_service r s svc cs ps t env)
  then show ?case by (simp add: acks_typed)
next
  case (a_keepalive t s env)
  then show ?case using keepalive_typed [OF agent_typedD [OF a_keepalive.prems(1)]] by simp
next
  case (a_healthCheck t s env now)
  then show ?case using healthCheck_typed [OF agent_typedD [OF a_healthCheck.prems(1)]] by simp
qed (auto simp: sends_typed election_typed GetNameRouter_typed elim: UnRegister_typed Release_typed intro: setAttr_typed assms(6))

lemma agent_typed_init [simp]: "agent_typed mar G D (srv_Init appID cfg ss0 rs0)"
  by (simp add: agent_typed_def srv_Init_def sc_Init_def sc_typed_def)

text \<open>The two messages of the start: the announcement of the connection and the registration of the application.\<close>

lemma start_typed:
  "NSDialerReceiver_OnConnected mar s = Some f \<Longrightarrow> frame_typed mar G D Nameserver f"
  "well_typed G D Nameserver (msgRegisterAppReq cfg appID)"
  by (auto simp: NSDialerReceiver_OnConnected_def msgRegisterAppReq_def intro: frame_typedI)

section \<open>What the name server writes\<close>

text \<open>
  Since state \<open>z\<close> no connection has come or gone, every connection has been written typed frames only,
  and the services in memory, of which the announcements are built, are as \<open>G\<close> says.
\<close>

definition ns_typed ::
  "NsServer \<Rightarrow> marshal \<Rightarrow> (PbServiceInfo \<Rightarrow> bool) \<Rightarrow> (bytes \<Rightarrow> bool) \<Rightarrow> NsServer \<Rightarrow> bool" where
  "ns_typed z mar G D s \<longleftrightarrow> dom (s_conns s) = dom (s_conns z) \<and>
     (\<forall>c. \<exists>new. sent_to s c = sent_to z c @ new \<and> (\<forall>f \<in> set new. frame_typed mar G D AgentOfNs f)) \<and>
     (\<forall>r. G (pbOfAddr (si_serviceAddr (s_mem s r))))"

lemma ns_typed_upd [simp]:
  "ns_typed z mar G D (s\<lparr>s_apps := a\<rparr>) = ns_typed z mar G D s" "ns_typed z mar G D (s\<lparr>s_handleServices := b\<rparr>) = ns_typed z mar G D s"
  "ns_typed z mar G D (s\<lparr>s_msg_queue := c\<rparr>) = ns_typed z mar G D s" "ns_typed z mar G D (s\<lparr>s_next := d\<rparr>) = ns_typed z mar G D s"
  "ns_typed z mar G D (s\<lparr>s_sm := e\<rparr>) = ns_typed z mar G D s" "ns_typed z mar G D (s\<lparr>s_quit := q\<rparr>) = ns_typed z mar G D s"
  "ns_typed z mar G D (s\<lparr>s_sess_mgr := k\<rparr>) = ns_typed z mar G D s"
  by (simp_all add: ns_typed_def sent_to_def)

lemma sent_to_mem [simp]: "sent_to (s\<lparr>s_mem := m\<rparr>) c = sent_to s c" "sent_to (s\<lparr>s_mem := m, s_apps := a\<rparr>) c = sent_to s c"
  by (simp_all add: sent_to_def)

lemma ns_typed_memD: "ns_typed z mar G D s \<Longrightarrow> G (pbOfAddr (si_serviceAddr (s_mem s r)))"
  by (simp add: ns_typed_def)

lemma ns_typed_mem:
  "ns_typed z mar G D s \<Longrightarrow> (\<And>r. si_serviceAddr (m r) = si_serviceAddr (s_mem s r)) \<Longrightarrow> ns_typed z mar G D (s\<lparr>s_mem := m\<rparr>)"
  by (simp add: ns_typed_def)

lemma Send_ns_typed:
  assumes "ns_typed z mar G D s" "frame_typed mar G D AgentOfNs f"
  shows "ns_typed z mar G D (NsReceiver_Send s c f)"
proof -
  have "\<exists>new. sent_to (NsReceiver_Send s c f) d = sent_to z d @ new \<and> (\<forall>f \<in> set new. frame_typed mar G D AgentOfNs f)" for d
  proof -
    obtain new where "sent_to s d = sent_to z d @ new" "\<forall>f \<in> set new. frame_typed mar G D AgentOfNs f"
      using assms(1) unfolding ns_typed_def by blast
    then show ?thesis using assms(2) by (cases "d = c \<and> is_open s c") (auto simp: sent_to_Send)
  qed
  moreover have "s_mem (NsReceiver_Send s c f) = s_mem s \<and> dom (s_conns (NsReceiver_Send s c f)) = dom (s_conns s)"
    by (auto simp: NsReceiver_Send_def split: option.split)
  ultimately show ?thesis using assms(1) unfolding ns_typed_def by simp
qed

lemma NotifyApp_typed:
  "ns_typed z mar G D s \<Longrightarrow> frame_typed mar G D AgentOfNs f \<Longrightarrow> ns_typed z mar G D (ServiceInfo_NotifyApp s si f)"
  by (auto simp: ServiceInfo_NotifyApp_def Send_ns_typed split: option.split)

lemma sendToSession_typed:
  "sendToSession a f sa s = Some t \<Longrightarrow> ns_typed z mar G D s \<Longrightarrow> frame_typed mar G D AgentOfNs f \<Longrightarrow> ns_typed z mar G D t"
  by (auto simp: sendToSession_def Send_ns_typed split: Option.bind_splits option.splits)

lemma Broadcast_typed:
  assumes "AppInfo_Broadcast s a ex f = Some t" "ns_typed z mar G D s" "frame_typed mar G D AgentOfNs f"
  shows "ns_typed z mar G D t"
  using assms(1) unfolding AppInfo_Broadcast_def
  by (rule rangeM_inv [where P = "ns_typed z mar G D"]) (use assms(2,3) sendToSession_typed in blast)+

lemma ns_msgs_typed [simp]:
  "well_typed G D AgentOfNs (msgServiceOnline si o') = G (pbOfAddr (si_serviceAddr si))"
  "well_typed G D AgentOfNs (msgElectionResult si ev res)" "well_typed G D AgentOfNs (msgRouterUpdate c n)"
  "well_typed G D AgentOfNs (msgRegisterServiceRsp h e)"
  by (simp_all add: msgServiceOnline_def msgElectionResult_def msgRouterUpdate_def msgRegisterServiceRsp_def)

lemma ns_frames_typed:
  "PackSSMsg mar (msgServiceOnline si o') = Some f \<Longrightarrow> G (pbOfAddr (si_serviceAddr si)) \<Longrightarrow> frame_typed mar G D AgentOfNs f"
  "PackSSMsg mar (msgElectionResult si ev res) = Some f \<Longrightarrow> frame_typed mar G D AgentOfNs f"
  "PackSSMsg mar (msgRouterUpdate c n) = Some f \<Longrightarrow> frame_typed mar G D AgentOfNs f"
  "PackSSMsg mar (msgRegisterServiceRsp h e) = Some f \<Longrightarrow> frame_typed mar G D AgentOfNs f"
  "PackSSMsg mar (SSMsg NOTIFY_SERVICE_SYNCATTR (Some (NotifyServiceAttr (Some i) d))) = Some f \<Longrightarrow> D d \<Longrightarrow>
     frame_typed mar G D AgentOfNs f"
  "PackSSMsg mar (SSMsg RSP_REGISTER_APP (Some (RegisterAppRsp ls res))) = Some f \<Longrightarrow> frame_typed mar G D AgentOfNs f"
  "PackSSMsg mar (SSMsg NOTIFY_SERVICE_KICK_OFF (Some (NotifyServiceKickoff h))) = Some f \<Longrightarrow> frame_typed mar G D AgentOfNs f"
  by (erule frame_typedI; simp)+

lemma BroadcastOnline_typed:
  "AppInfo_BroadcastOnlineToOthers mar s a si o' = Some t \<Longrightarrow> ns_typed z mar G D s \<Longrightarrow> G (pbOfAddr (si_serviceAddr si)) \<Longrightarrow>
     ns_typed z mar G D t"
  by (auto simp: AppInfo_BroadcastOnlineToOthers_def intro: Broadcast_typed ns_frames_typed split: option.splits)

lemma BroadcastSyncAttr_typed:
  "AppInfo_BroadcastSyncServiceAttr mar s a si d = Some t \<Longrightarrow> ns_typed z mar G D s \<Longrightarrow> D d \<Longrightarrow> ns_typed z mar G D t"
  by (auto simp: AppInfo_BroadcastSyncServiceAttr_def Let_def intro: Broadcast_typed ns_frames_typed split: option.splits)

lemma NotifyOthers_typed:
  assumes "ns_typed z mar G D s"
  shows "ns_typed z mar G D (AppInfo_NotifyOthersOnlineToSelf mar s a addr c)"
  unfolding AppInfo_NotifyOthersOnlineToSelf_def
  by (rule fold_keeps [where P = "ns_typed z mar G D"])
    (use assms in \<open>auto simp: Let_def intro!: Send_ns_typed intro: ns_frames_typed dest: ns_typed_memD split: option.split\<close>)

lemma NotifyConfirm_typed:
  assumes "AppInfo_NotifyConfirmResult mar s a h r = Some t" "ns_typed z mar G D s"
  shows "ns_typed z mar G D t"
  using assms by (auto simp: AppInfo_NotifyConfirmResult_def Let_def split: option.splits if_splits
      elim!: BroadcastOnline_typed intro: NotifyApp_typed ns_frames_typed ns_typed_memD)

lemma BroadcastCmd_typed:
  assumes "NameRouter_BroadcastCmd mar s nr cmd = Some t" "ns_typed z mar G D s"
  shows "ns_typed z mar G D t"
  using assms unfolding NameRouter_BroadcastCmd_def
  by (auto split: if_splits elim!: rangeM_inv [where P = "ns_typed z mar G D"])
    (auto intro: Send_ns_typed ns_frames_typed split: Option.bind_splits option.splits)

lemma StartConfirm_typed:
  "NameRouter_StartConfirm mar now s a nr si = Some (t, nr', e) \<Longrightarrow> ns_typed z mar G D s \<Longrightarrow> ns_typed z mar G D t"
  by (auto simp: NameRouter_StartConfirm_def Let_def split: if_splits Option.bind_splits
      elim: NotifyConfirm_typed BroadcastCmd_typed)

lemma Start2Stage_typed:
  "AppInfo_Start2StageConfirm mar now s app si = Some t \<Longrightarrow> ns_typed z mar G D s \<Longrightarrow> ns_typed z mar G D t"
  by (auto simp: AppInfo_Start2StageConfirm_def Let_def split: Option.bind_splits prod.splits option.splits
      elim: NotifyConfirm_typed StartConfirm_typed)

lemma CommitConfirm_typed:
  "NameRouter_CommitConfirm mar s a nr cmd res = Some (t, nr') \<Longrightarrow> ns_typed z mar G D s \<Longrightarrow> ns_typed z mar G D t"
  by (auto simp: NameRouter_CommitConfirm_def split: if_splits Option.bind_splits
      elim!: NotifyConfirm_typed BroadcastCmd_typed)

lemma checkConfirm_typed:
  assumes "AppInfo_checkConfirmExpired mar now s app = Some t" "ns_typed z mar G D s"
  shows "ns_typed z mar G D t"
  using assms unfolding AppInfo_checkConfirmExpired_def NameRouter_CheckExpired_def
  by (auto split: Option.bind_splits elim!: rangeM_inv [where P = "ns_typed z mar G D"])
    (auto split: if_splits elim: CommitConfirm_typed)

lemma AddNameRouter_typed:
  assumes "AppInfo_AddNameRouter mar s app sa n = Some (t, e)" "ns_typed z mar G D s"
  shows "ns_typed z mar G D t"
proof -
  have "ns_typed z mar G D u" if "NameRouter_AddItem mar s nr n sa = Some (u, nr', e')" for nr n u nr' e'
    using that assms(2) by (auto simp: NameRouter_AddItem_def Let_def split: if_splits Option.bind_splits option.splits
        intro: Send_ns_typed ns_frames_typed)
  then show ?thesis using assms(1)
    by (auto simp: AppInfo_AddNameRouter_def Let_def split: Option.bind_splits prod.splits)
qed

lemma RunFor_typed:
  "AppInfo_OnServiceRunForElection mar s app h = Some t \<Longrightarrow> ns_typed z mar G D s \<Longrightarrow> ns_typed z mar G D t"
  by (auto simp: AppInfo_OnServiceRunForElection_def Let_def split: Option.bind_splits prod.splits option.splits if_splits
      elim: Broadcast_typed sendToSession_typed intro: ns_frames_typed)

lemma Giveup_typed:
  "AppInfo_OnServiceGiveupElection mar s app h = Some t \<Longrightarrow> ns_typed z mar G D s \<Longrightarrow> ns_typed z mar G D t"
  by (auto simp: AppInfo_OnServiceGiveupElection_def Let_def
      split: Option.bind_splits prod.splits option.splits GiveupOutcome.splits
      elim: Broadcast_typed sendToSession_typed intro: ns_frames_typed)

lemma UnRegister_ns_typed:
  assumes "Server_UnRegisterService mar s h k = Some (t, e)" "ns_typed z mar G D s"
  shows "ns_typed z mar G D t"
  using assms by (auto simp: Server_UnRegisterService_def Let_def split: Option.bind_splits option.splits if_splits
      dest!: Giveup_typed BroadcastOnline_typed [OF _ _ ns_typed_memD] intro: NotifyApp_typed ns_frames_typed)

lemma OnTick_typed:
  assumes "Server_OnTick mar now s = Some t" "ns_typed z mar G D s"
  shows "ns_typed z mar G D t"
proof -
  let ?T = "ns_typed z mar G D"
  have "?T v" if "AppInfo_checkServiceAlive mar now u app = Some v" "?T u" for u v app
    using that unfolding AppInfo_checkServiceAlive_def
    by (auto split: Option.bind_splits elim!: rangeM_inv [where P = ?T] elim: UnRegister_ns_typed)
  then have "?T v" if "AppInfo_OnTick mar now u app = Some v" "?T u" for u v app
    using that by (auto simp: AppInfo_OnTick_def split: Option.bind_splits elim: checkConfirm_typed)
  then show ?thesis using assms unfolding Server_OnTick_def by (elim rangeM_inv [where P = ?T]) auto
qed

text \<open>The messages in the queue of the name server carry what the receivers have checked.\<close>

fun msg_typed :: "(PbServiceInfo \<Rightarrow> bool) \<Rightarrow> (bytes \<Rightarrow> bool) \<Rightarrow> NsMsg \<Rightarrow> bool" where
  "msg_typed G D (RegServiceMsg sa app addr opts) \<longleftrightarrow> G (pbOfAddr addr)"
| "msg_typed G D (ServiceSyncAttr h data) \<longleftrightarrow> D data"
| "msg_typed G D _ \<longleftrightarrow> True"

lemma RegisterService_typed:
  assumes "Server_RegisterService mar now s app sa addr opts = Some (t, e)" "ns_typed z mar G D s" "G (pbOfAddr addr)"
  shows "ns_typed z mar G D t"
proof -
  have "ns_typed z mar G D (s\<lparr>s_mem := (s_mem s)(r := si)\<rparr>)" if "si_serviceAddr si = addr" for r si
    using assms(2,3) that by (simp add: ns_typed_def)
  then show ?thesis using assms
    by (auto simp: Server_RegisterService_def Let_def split: Option.bind_splits option.splits if_splits
        elim!: Start2Stage_typed NotifyConfirm_typed intro: Send_ns_typed ns_frames_typed)
qed

lemma onMessage_typed:
  assumes "Server_onMessage mar now s msg = Some (t, e)" "ns_typed z mar G D s" "msg_typed G D msg"
  shows "ns_typed z mar G D t"
proof (cases msg)
  case (RegAppMsg sa app)
  then show ?thesis using assms(1,2)
    by (auto simp: Server_RegisterApp_def Let_def split: Option.bind_splits option.splits
        intro!: NotifyOthers_typed Send_ns_typed intro: ns_frames_typed)
next
  case (RegServiceMsg sa app addr opts)
  then show ?thesis using assms by (auto elim: RegisterService_typed)
next
  case (ServiceHeartbeat h)
  have "ns_typed z mar G D (s\<lparr>s_mem := (s_mem s)(r := (s_mem s r)\<lparr>si_lastRecvHbTime := now\<rparr>)\<rparr>)" for r
    using assms(2) by (rule ns_typed_mem) simp
  then show ?thesis using assms(1,2) ServiceHeartbeat
    by (auto simp: Server_OnServiceHeartbeat_def AppInfo_OnServiceHeartbeat_def Let_def
        split: Option.bind_splits option.splits if_splits)
next
  case (ServiceSyncAttr h data)
  then show ?thesis using assms
    by (auto simp: Server_OnServiceSyncAttr_def Let_def split: Option.bind_splits option.splits elim: BroadcastSyncAttr_typed)
next
  case (ServiceElection h ev)
  then show ?thesis using assms(1,2)
    by (auto simp: Server_OnServiceElectionEvent_def Let_def split: Option.bind_splits option.splits if_splits
        elim: RunFor_typed Giveup_typed)
qed (use assms in \<open>auto simp: Server_OnRegisterNameRouter_def split: Option.bind_splits if_splits
      elim: AddNameRouter_typed UnRegister_ns_typed OnTick_typed\<close>)

end
