(* ===== verification/Mesh.thy ===== *)
theory Mesh
  imports Wire
begin

text \<open>
  The composed system: one name server, the agents of any number of processes, and the TCP streams
  between them. A stream is the frames written on a connection and how many of their bytes the
  reader has consumed; the reader is handed any part of the rest that has arrived, so frames are cut
  and merged at will. Connections come and go: an agent that loses its connection to the name server
  gets a new one with a fresh stream, and what the old one still carries may yet arrive.
\<close>

section \<open>Streams\<close>

record stream =
  st_frames :: "bytes list"
  st_read :: nat

definition empty_stream :: stream where
  "empty_stream = \<lparr>st_frames = [], st_read = 0\<rparr>"

definition st_write :: "bytes list \<Rightarrow> stream \<Rightarrow> stream" where
  "st_write fs st = st\<lparr>st_frames := st_frames st @ fs\<rparr>"

definition st_consume :: "nat \<Rightarrow> stream \<Rightarrow> stream" where
  "st_consume n st = st\<lparr>st_read := st_read st + n\<rparr>"

text \<open>What the reader of a stream finds in its buffer: some of the bytes it has not consumed.\<close>

definition arrives :: "stream \<Rightarrow> bytes \<Rightarrow> bool" where
  "arrives st b \<longleftrightarrow> (\<exists>c. drop (st_read st) (concat (st_frames st)) = b @ c)"

text \<open>The reader stands at the beginning of a frame.\<close>

definition in_sync :: "stream \<Rightarrow> bool" where
  "in_sync st \<longleftrightarrow> (\<exists>k. st_read st = length (concat (take k (st_frames st))))"

lemma concat_take_drop: "drop (length (concat (take k fs))) (concat fs) = concat (drop k fs)"
  by (metis append_eq_conv_conj append_take_drop_id concat_append)

lemma in_sync_rest:
  assumes "in_sync st"
  obtains k where "drop (st_read st) (concat (st_frames st)) = concat (drop k (st_frames st))"
    "st_read st = length (concat (take k (st_frames st)))"
  using assms concat_take_drop unfolding in_sync_def by metis

lemma in_sync_empty [simp]: "in_sync empty_stream" "in_sync \<lparr>st_frames = fs, st_read = 0\<rparr>"
  by (auto simp: in_sync_def empty_stream_def intro: exI [of _ 0])

lemma in_sync_write: "in_sync st \<Longrightarrow> in_sync (st_write fs st)"
proof -
  assume "in_sync st"
  then obtain k where "st_read st = length (concat (take k (st_frames st)))" by (auto simp: in_sync_def)
  then have "st_read (st_write fs st) = length (concat (take (min k (length (st_frames st))) (st_frames (st_write fs st))))"
    by (simp add: st_write_def min_def)
  then show ?thesis unfolding in_sync_def by blast
qed

text \<open>
  On a stream of well-typed frames a reader in sync sees either an incomplete frame or exactly the
  next one, and consuming it keeps the reader in sync.
\<close>

lemma arrives_frame:
  assumes "codec_ok mar unm" "in_sync st" "\<forall>f \<in> set (st_frames st). frame_typed mar G D p f" "arrives st b"
  obtains "Unpack b = (0, [])"
    | n d m where "Unpack b = (n, d)" "0 < n" "unm d = Some m" "well_typed G D p m" "in_sync (st_consume n st)"
proof -
  obtain k where k: "drop (st_read st) (concat (st_frames st)) = concat (drop k (st_frames st))"
    "st_read st = length (concat (take k (st_frames st)))" using in_sync_rest [OF assms(2)] by blast
  obtain c where c: "concat (drop k (st_frames st)) = b @ c" using assms(4) k(1) by (auto simp: arrives_def)
  obtain n d where nd: "Unpack b = (n, d)" by fastforce
  show thesis
  proof (cases "n = 0")
    case True
    then show ?thesis using that(1) nd Unpack_zero_body by blast
  next
    case False
    then have "b \<noteq> []" using nd Unpack_bounds [OF nd] by auto
    then obtain f fs where f: "drop k (st_frames st) = f # fs" using c by (cases "drop k (st_frames st)") auto
    have "frame_typed mar G D p f" using assms(3) f by (metis in_set_dropD list.set_intros(1))
    from frame_typed_decodes [OF assms(1) this, of "concat fs"] obtain x m where x: "Unpack (f @ concat fs) = (length f, x)"
      "unm x = Some m" "well_typed G D p m" by blast
    have "Unpack (b @ c) = (n, d)" using Unpack_append [OF nd] False by simp
    then have "n = length f" "x = d" using x(1) c f by auto
    moreover have "st_read (st_consume n st) = length (concat (take (Suc k) (st_frames (st_consume n st))))"
      using k(2) f \<open>n = length f\<close> by (simp add: st_consume_def take_Suc_conv_app_nth)
        (metis (no_types, lifting) append_Nil2 concat.simps(1) concat.simps(2) concat_append drop_eq_Nil length_append
          linorder_not_le list.distinct(1) nth_via_drop take_Suc_conv_app_nth)
    ultimately show ?thesis using that(2) [OF nd _ _ x(3)] x(2) False by (auto simp: in_sync_def)
  qed
qed

section \<open>The system\<close>

text \<open>
  \<open>me_link\<close>: the connection of an agent to the name server, if it has one. \<open>me_up\<close>: what agents have written on a connection to the name server;
  \<open>me_down\<close>: how much of what the name server has written on it the agent has consumed.
  \<open>me_peer\<close>: the stream of an agent to the agent at an address.
\<close>

record mesh =
  me_ns :: NsServer
  me_now :: int
  me_agent :: "nat \<Rightarrow> skymeshServer"
  me_link :: "nat \<Rightarrow> connid option"
  me_up :: "connid \<Rightarrow> stream"
  me_down :: "connid \<Rightarrow> nat"
  me_peer :: "nat \<Rightarrow> string \<Rightarrow> stream"

definition mesh_init :: "NsConfig \<Rightarrow> ServiceInfo \<Rightarrow> int \<Rightarrow> (nat \<Rightarrow> skymeshServer) \<Rightarrow> mesh" where
  "mesh_init cfg si0 now agents =
     \<lparr>me_ns = Server_Init cfg si0, me_now = now, me_agent = agents, me_link = (\<lambda>_. None),
      me_up = (\<lambda>_. empty_stream), me_down = (\<lambda>_. 0), me_peer = (\<lambda>_ _. empty_stream)\<rparr>"

definition me_downstream :: "mesh \<Rightarrow> connid \<Rightarrow> stream" where
  "me_downstream m c = \<lparr>st_frames = sent_to (me_ns m) c, st_read = me_down m c\<rparr>"

text \<open>Agent \<open>i\<close> is now \<open>s\<close>: what it has just written is on its connections; without a connection it is lost.\<close>

definition put_agent :: "nat \<Rightarrow> skymeshServer \<Rightarrow> mesh \<Rightarrow> mesh" where
  "put_agent i s m =
     (let old = as_sidecar (me_agent m i);
          ns_new = drop (length (sc_nsOut old)) (sc_nsOut (as_sidecar s));
          ag_new = drop (length (sc_agentOut old)) (sc_agentOut (as_sidecar s)) in
      m\<lparr>me_agent := (me_agent m)(i := s),
        me_up := (case me_link m i of None \<Rightarrow> me_up m | Some c \<Rightarrow> (me_up m)(c := st_write ns_new (me_up m c))),
        me_peer := (me_peer m)(i := (\<lambda>url. st_write (map snd (filter (\<lambda>x. fst x = url) ag_new)) (me_peer m i url)))\<rparr>)"

text \<open>
  \<open>own\<close> and \<open>event\<close>: an agent does something other than reading (it is given a decoder that decodes
  nothing), or its serving goroutine takes an event; \<open>regApp\<close> is the registration of the application
  at the start. \<open>connect\<close>: the dialer of an agent gets a connection and announces itself; \<open>lost\<close>, \<open>closed\<close>: the
  ends of a connection notice its end, each in its time; \<open>redial\<close>: a fresh connection to another
  agent. \<open>up\<close>, \<open>down\<close>, \<open>peer\<close>: a read loop hands its buffer to the receiver.
\<close>

inductive mesh_step ::
  "marshal \<Rightarrow> unmarshal \<Rightarrow> (ServiceAttr \<Rightarrow> bytes option) \<Rightarrow> (bytes \<Rightarrow> ServiceAttr option) \<Rightarrow>
     (string \<Rightarrow> string \<Rightarrow> u64 \<Rightarrow> u64 option) \<Rightarrow> mesh \<Rightarrow> mesh \<Rightarrow> bool"
  for mar unm jmar junm mk where
  own: "agent_step mar (\<lambda>_. None) jmar junm mk (me_agent m i) s \<Longrightarrow> mesh_step mar unm jmar junm mk m (put_agent i s m)"
| event: "srv_Serve_event mar env (me_agent m i) = Some s \<Longrightarrow> mesh_step mar unm jmar junm mk m (put_agent i s m)"
| regApp: "s = fst (with_sidecar (me_agent m i)
      (sc_RegisterApp mar env (as_sidecar (me_agent m i)) (MeshserverAddress (as_cfg (me_agent m i))) (as_appID (me_agent m i)))) \<Longrightarrow>
    mesh_step mar unm jmar junm mk m (put_agent i s m)"
| connect: "s_conns (me_ns m) c = None \<Longrightarrow>
    mesh_step mar unm jmar junm mk m
      (m\<lparr>me_ns := NsReceiver_OnConnected ((me_ns m)\<lparr>s_conns := (s_conns (me_ns m))(c \<mapsto> newReceiver)\<rparr>) c,
         me_link := (me_link m)(i \<mapsto> c), me_down := (me_down m)(c := 0),
         me_up := (me_up m)(c := \<lparr>st_frames = (case NSDialerReceiver_OnConnected mar (me_agent m i) of None \<Rightarrow> [] | Some f \<Rightarrow> [f]),
           st_read = 0\<rparr>)\<rparr>)"
| lost: "mesh_step mar unm jmar junm mk m (m\<lparr>me_link := (me_link m)(i := None)\<rparr>)"
| closed: "NsReceiver_OnClosed (me_ns m) c = Some s \<Longrightarrow> mesh_step mar unm jmar junm mk m (m\<lparr>me_ns := s\<rparr>)"
| redial: "mesh_step mar unm jmar junm mk m (m\<lparr>me_peer := (me_peer m)(i := (me_peer m i)(url := empty_stream))\<rparr>)"
| up: "arrives (me_up m c) b \<Longrightarrow> NsReceiver_OnMessage unm (me_ns m) c b = Some (s, skip, False) \<Longrightarrow>
    mesh_step mar unm jmar junm mk m (m\<lparr>me_ns := s, me_up := (me_up m)(c := st_consume skip (me_up m c))\<rparr>)"
| down: "me_link m i = Some c \<Longrightarrow> arrives (me_downstream m c) b \<Longrightarrow>
    NSDialerReceiver_OnMessage unm junm (me_agent m i) b = Some (s, skip, False) \<Longrightarrow>
    mesh_step mar unm jmar junm mk m (put_agent i s m\<lparr>me_down := (me_down m)(c := me_down m c + skip)\<rparr>)"
| peer: "MeshserverAddress (as_cfg (me_agent m j)) = url \<Longrightarrow> arrives (me_peer m i url) b \<Longrightarrow>
    length (as_recvQueue (me_agent m j)) < nat (RecvQueueSize (as_cfg (me_agent m j))) \<Longrightarrow>
    lisConnReceiver_OnMessage unm now (me_agent m j) b = Some (s, skip, False) \<Longrightarrow>
    mesh_step mar unm jmar junm mk m
      (put_agent j s (m\<lparr>me_peer := (me_peer m)(i := (me_peer m i)(url := st_consume skip (me_peer m i url)))\<rparr>))"
| tick: "length (s_msg_queue (me_ns m)) < MsgQueueSize (s_cfg (me_ns m)) \<Longrightarrow>
    mesh_step mar unm jmar junm mk m (m\<lparr>me_ns := (me_ns m)\<lparr>s_msg_queue := s_msg_queue (me_ns m) @ [TickMsg]\<rparr>\<rparr>)"
| serve: "Server_Serve_step mar (me_now m) (me_ns m) = Some s \<Longrightarrow> mesh_step mar unm jmar junm mk m (m\<lparr>me_ns := s\<rparr>)"
| clock: "me_now m \<le> now \<Longrightarrow> mesh_step mar unm jmar junm mk m (m\<lparr>me_now := now\<rparr>)"
| reorder: "mset apps = mset (s_apps (me_ns m)) \<Longrightarrow>
    mesh_step mar unm jmar junm mk m (m\<lparr>me_ns := (me_ns m)\<lparr>s_apps := apps\<rparr>\<rparr>)"

inductive mesh_reach ::
  "marshal \<Rightarrow> unmarshal \<Rightarrow> (ServiceAttr \<Rightarrow> bytes option) \<Rightarrow> (bytes \<Rightarrow> ServiceAttr option) \<Rightarrow>
     (string \<Rightarrow> string \<Rightarrow> u64 \<Rightarrow> u64 option) \<Rightarrow> mesh \<Rightarrow> mesh \<Rightarrow> bool"
  for mar unm jmar junm mk where
  mesh_refl: "mesh_reach mar unm jmar junm mk m m"
| mesh_more: "mesh_reach mar unm jmar junm mk m n \<Longrightarrow> mesh_step mar unm jmar junm mk n k \<Longrightarrow> mesh_reach mar unm jmar junm mk m k"

section \<open>Invariant\<close>

text \<open>A handle announced for a service is one \<open>MakeServiceHandle\<close> gives to a service of that name and instance.\<close>

definition made_by :: "(string \<Rightarrow> string \<Rightarrow> u64 \<Rightarrow> u64 option) \<Rightarrow> PbServiceInfo \<Rightarrow> bool" where
  "made_by mk p \<longleftrightarrow> (\<exists>server. mk server (pbServiceName p) (pbServiceId p) = Some (pbAddrHandle p))"

text \<open>Handles are hashes; \<open>names_apart\<close> says that services of different names never share one.\<close>

definition names_apart :: "(string \<Rightarrow> string \<Rightarrow> u64 \<Rightarrow> u64 option) \<Rightarrow> bool" where
  "names_apart mk \<longleftrightarrow> (\<forall>a n i b k j h. mk a n i = Some h \<longrightarrow> mk b k j = Some h \<longrightarrow> n = k)"

definition decodable :: "(bytes \<Rightarrow> ServiceAttr option) \<Rightarrow> bytes \<Rightarrow> bool" where
  "decodable junm d \<longleftrightarrow> junm d \<noteq> None"

definition ns_side_ok :: "marshal \<Rightarrow> (PbServiceInfo \<Rightarrow> bool) \<Rightarrow> (bytes \<Rightarrow> bool) \<Rightarrow> mesh \<Rightarrow> bool" where
  "ns_side_ok mar G D m \<longleftrightarrow> ns_inv (me_ns m, me_now m) \<and>
     (\<forall>c. \<forall>f \<in> set (sent_to (me_ns m) c). frame_typed mar G D AgentOfNs f) \<and>
     (\<forall>r. G (pbOfAddr (si_serviceAddr (s_mem (me_ns m) r)))) \<and>
     (\<forall>x \<in> set (s_msg_queue (me_ns m)). msg_typed G D x)"

definition agent_side_ok :: "marshal \<Rightarrow> (PbServiceInfo \<Rightarrow> bool) \<Rightarrow> (bytes \<Rightarrow> bool) \<Rightarrow> skymeshServer \<Rightarrow> bool" where
  "agent_side_ok mar G D s \<longleftrightarrow> agent_inv s \<and> agent_typed mar G D s \<and> (\<forall>e \<in> set (as_eventQueue s). event_typed G e)"

definition stream_ok :: "marshal \<Rightarrow> (PbServiceInfo \<Rightarrow> bool) \<Rightarrow> (bytes \<Rightarrow> bool) \<Rightarrow> Party \<Rightarrow> stream \<Rightarrow> bool" where
  "stream_ok mar G D p st \<longleftrightarrow> in_sync st \<and> (\<forall>f \<in> set (st_frames st). frame_typed mar G D p f)"

definition mesh_inv :: "marshal \<Rightarrow> (PbServiceInfo \<Rightarrow> bool) \<Rightarrow> (bytes \<Rightarrow> bool) \<Rightarrow> mesh \<Rightarrow> bool" where
  "mesh_inv mar G D m \<longleftrightarrow> ns_side_ok mar G D m \<and> (\<forall>i. agent_side_ok mar G D (me_agent m i)) \<and>
     (\<forall>c. stream_ok mar G D Nameserver (me_up m c) \<and> in_sync (me_downstream m c) \<and>
        (s_conns (me_ns m) c = None \<longrightarrow> st_frames (me_up m c) = [])) \<and>
     (\<forall>i c. me_link m i = Some c \<longrightarrow> s_conns (me_ns m) c \<noteq> None) \<and>
     (\<forall>i url. stream_ok mar G D PeerAgent (me_peer m i url))"

subsection \<open>Streams and agents\<close>

lemma stream_okI:
  "stream_ok mar G D p st \<Longrightarrow> \<forall>f \<in> set fs. frame_typed mar G D p f \<Longrightarrow> stream_ok mar G D p (st_write fs st)"
  by (auto simp: stream_ok_def in_sync_write) (auto simp: st_write_def)

lemma stream_ok_empty [simp]: "stream_ok mar G D p empty_stream"
  by (simp add: stream_ok_def) (simp add: empty_stream_def)

lemma stream_ok_consume: "stream_ok mar G D p st \<Longrightarrow> in_sync (st_consume n st) \<Longrightarrow> stream_ok mar G D p (st_consume n st)"
  by (simp add: stream_ok_def st_consume_def)

lemma me_downstream_put [simp]: "me_downstream (put_agent i s m) c = me_downstream m c"
  by (simp add: me_downstream_def put_agent_def Let_def)

lemma put_agent_fields [simp]:
  "me_ns (put_agent i s m) = me_ns m" "me_now (put_agent i s m) = me_now m" "me_link (put_agent i s m) = me_link m"
  "me_down (put_agent i s m) = me_down m" "me_agent (put_agent i s m) = (me_agent m)(i := s)"
  by (simp_all add: put_agent_def Let_def)

lemma ns_side_put [simp]: "ns_side_ok mar G D (put_agent i s m) = ns_side_ok mar G D m"
  by (simp add: ns_side_ok_def)

lemma put_agent_inv:
  assumes inv: "mesh_inv mar G D m" and s: "agent_side_ok mar G D s"
  shows "mesh_inv mar G D (put_agent i s m)"
proof -
  have out: "\<forall>f \<in> set (drop n (sc_nsOut (as_sidecar s))). frame_typed mar G D Nameserver f"
    "\<forall>x \<in> set (drop n (sc_agentOut (as_sidecar s))). frame_typed mar G D PeerAgent (snd x)" for n
    using s by (auto simp: agent_side_ok_def agent_typed_def sc_typed_def dest: in_set_dropD)
  have up: "stream_ok mar G D Nameserver (me_up (put_agent i s m) c) \<and>
      (s_conns (me_ns m) c = None \<longrightarrow> st_frames (me_up (put_agent i s m) c) = [])" for c
  proof -
    have "s_conns (me_ns m) c = None \<Longrightarrow> me_link m i \<noteq> Some c" using inv unfolding mesh_inv_def by blast
    then show ?thesis using inv out(1)
      by (auto simp: mesh_inv_def put_agent_def Let_def intro!: stream_okI split: option.split)
  qed
  have "stream_ok mar G D PeerAgent (me_peer (put_agent i s m) k url)" for k url
    using inv out(2) by (force simp: mesh_inv_def put_agent_def Let_def intro!: stream_okI)
  then show ?thesis using up inv s by (auto simp: mesh_inv_def)
qed

text \<open>What an agent does on its own leaves no new event, and events are always consistent.\<close>

lemma own_events:
  assumes "agent_step mar (\<lambda>_. None) jmar junm mk s t" "agent_inv s"
  shows "set (as_eventQueue t) \<subseteq> set (as_eventQueue s)"
  using assms
proof (induction rule: agent_step.induct)
  case (a_start s)
  then show ?case by (simp add: srv_setState_def)
next
  case (a_register env s url opts t res)
  then show ?case using same_queues_Register by (auto simp: same_queues_def)
next
  case (a_wait env s url r code t res)
  then show ?case using same_queues_UnRegister [of mar env s url]
    by (auto simp: srv_RegisterWait_def same_queues_def split: option.splits if_splits Option.bind_splits)
next
  case (a_unregister env s url t)
  then show ?case using same_queues_UnRegister [of mar env s url] by (auto simp: same_queues_def)
next
  case (a_fromNs s b t skip err)
  then show ?case by (auto simp: NSDialerReceiver_OnMessage_def split: prod.splits if_splits option.splits)
next
  case (a_fromAgent now s b t skip err)
  then show ?case using lisConn_effect [OF a_fromAgent.hyps(1)] by auto
next
  case (a_event env s t e es)
  then show ?case using same_queues_onEvent [of mar env "s\<lparr>as_eventQueue := es\<rparr>" e t]
    by (auto simp: srv_Serve_event_def same_queues_def)
next
  case (a_recv s)
  then show ?case using same_queues_onRecv by (auto simp: srv_Serve_recv_def same_queues_def split: list.split)
next
  case (a_release env s t)
  then show ?case using agent_ok_Release [of s mar env] by (auto simp: agent_inv_def)
next
  case (a_setAttr t s env r attrs)
  then show ?case using same_queues_setAttr by (auto simp: same_queues_def)
qed (use same_queues_sends same_queues_election same_queues_GetNameRouter in
     \<open>auto simp: same_queues_def setRouter_def srv_acks_def\<close>)

lemma made_by_consistent:
  assumes "names_apart mk" "agent_side_ok mar (made_by mk) D s" "e \<in> set (as_eventQueue s)"
  shows "event_consistent s e"
proof (cases e)
  case (OnlineEvent addr sa isOnline opts)
  have "made_by mk (pbOfAddr addr)" using assms(2,3) OnlineEvent by (auto simp: agent_side_ok_def)
  moreover have "made_by mk (pbOfAddr (rs_serviceAddr (sc_mem (as_sidecar s) r)))"
    "AddrHandle (rs_serviceAddr (sc_mem (as_sidecar s) r)) = AddrHandle addr"
    if "mget (sc_remoteServices (as_sidecar s)) (AddrHandle addr) = Some r" for r
    using assms(2) that sidecar_okD(6) [of "as_sidecar s" "AddrHandle addr" r]
    by (auto simp: agent_side_ok_def agent_typed_def sc_typed_def agent_inv_def agent_ok_def)
  ultimately show ?thesis using assms(1) OnlineEvent
    by (fastforce simp: event_consistent_def made_by_def names_apart_def pbOfAddr_def split: option.split)
qed (simp_all add: event_consistent_def)

lemma own_ok:
  assumes "agent_step mar (\<lambda>_. None) jmar junm mk s t" "agent_side_ok mar (made_by mk) (decodable junm) s"
    and "\<And>a d. jmar a = Some d \<Longrightarrow> junm d \<noteq> None"
  shows "agent_side_ok mar (made_by mk) (decodable junm) t"
proof -
  have "agent_typed mar (made_by mk) (decodable junm) t"
    by (rule agent_step_typed [OF assms(1)])
      (use assms(2,3) in \<open>auto simp: agent_side_ok_def made_by_def decodable_def\<close>)
  then show ?thesis using assms(2) own_events [OF assms(1)] agent_step_inv [OF assms(1)]
    by (auto simp: agent_side_ok_def)
qed

lemma event_ok_step:
  assumes "srv_Serve_event mar env s = Some t" "agent_side_ok mar (made_by mk) (decodable junm) s" "names_apart mk"
    and "\<And>a d. jmar a = Some d \<Longrightarrow> junm d \<noteq> None"
  shows "agent_side_ok mar (made_by mk) (decodable junm) t"
proof (cases "as_eventQueue s")
  case (Cons e es)
  have "event_consistent s e" by (rule made_by_consistent [OF assms(3,2)]) (simp add: Cons)
  from own_ok [OF agent_step.a_event [OF assms(1) Cons this] assms(2,4)] show ?thesis .
qed (use assms in \<open>simp add: srv_Serve_event_def\<close>)

lemma regApp_ok:
  assumes "agent_side_ok mar G D s"
  shows "agent_side_ok mar G D (fst (with_sidecar s (sc_RegisterApp mar env (as_sidecar s) a app)))"
proof -
  have "agent_ok (s\<lparr>as_sidecar := fst (nsSendMsg mar env (as_sidecar s) m)\<rparr>)" for m
    using assms by (intro agent_ok_nsSend) (auto simp: agent_side_ok_def agent_inv_def)
  then show ?thesis using assms
    by (auto simp: agent_side_ok_def sc_RegisterApp_def with_sidecar_def agent_inv_def sc_typed_nsSendMsg agent_typedD)
qed

subsection \<open>Reading\<close>

lemma pbOfAddr_addrOfPb [simp]: "pbOfAddr (addrOfPb p) = p"
  by (simp add: pbOfAddr_def addrOfPb_def)

lemma addSession_keeps:
  "addSession s c a b = Some t \<Longrightarrow>
     s_msg_queue t = s_msg_queue s \<and> sent_to t d = sent_to s d \<and> (s_conns t d = None \<longleftrightarrow> s_conns s d = None)"
  by (auto simp: addSession_def sent_to_def split: option.splits if_splits)

lemma deliver_frame [simp]: "sent_to (NsRecv.deliver s x) c = sent_to s c" "s_conns (NsRecv.deliver s x) = s_conns s"
  by (simp_all add: NsRecv.deliver_def sent_to_def)

lemma deliver_keeps: "y \<in> set (s_msg_queue (NsRecv.deliver s x)) \<Longrightarrow> y = x \<or> y \<in> set (s_msg_queue s)"
  by (auto simp: NsRecv.deliver_def chan_offer_def split: if_splits)

lemma dispatch_typed:
  assumes t: "NsReceiver_dispatch s c m = Some t" and m: "well_typed G D Nameserver m"
    and q: "\<forall>x \<in> set (s_msg_queue s). msg_typed G D x"
  shows "(\<forall>x \<in> set (s_msg_queue t). msg_typed G D x) \<and> sent_to t d = sent_to s d \<and>
    (s_conns t d = None \<longleftrightarrow> s_conns s d = None)"
proof -
  obtain body where m: "m = SSMsg (cmd_of body) (Some body)" "addressee (cmd_of body) = Some Nameserver" "fields_ok G D body"
    using m by (rule well_typed_cases)
  then show ?thesis using t q
    by (cases body) (auto simp: NsReceiver_dispatch_def split: Option.bind_splits
        dest!: deliver_keeps addSession_keeps [where d = d])
qed

lemma nsEvent_typed:
  assumes "well_typed G D AgentOfNs m" "nsEvent junm (ssCmd m) (ssMsg m) = Some (Inr (Some e))"
  shows "event_typed G e"
proof -
  obtain body where "m = SSMsg (cmd_of body) (Some body)" "addressee (cmd_of body) = Some AgentOfNs" "fields_ok G D body"
    using assms(1) by (rule well_typed_cases)
  then show ?thesis using assms(2) by (cases body) (auto simp: nsEvent_def split: option.splits)
qed

text \<open>The receivers never see anything but the beginning of a typed frame, and never fail.\<close>

lemma up_read:
  assumes "codec_ok mar unm" "stream_ok mar G D Nameserver st" "arrives st b" "s_sess_mgr s"
    and "s_conns s c = None \<Longrightarrow> st_frames st = []"
  shows "\<exists>t n. NsReceiver_OnMessage unm s c b = Some (t, n, False) \<and> in_sync (st_consume n st) \<and>
    (t = s \<or> (\<exists>m. well_typed G D Nameserver m \<and> NsReceiver_dispatch s c m = Some t))"
proof -
  have st: "in_sync st" "\<forall>f \<in> set (st_frames st). frame_typed mar G D Nameserver f" using assms(2) by (auto simp: stream_ok_def)
  from arrives_frame [OF assms(1) st assms(3)] show ?thesis
  proof cases
    case 1
    moreover have "st_consume 0 st = st" by (simp add: st_consume_def)
    ultimately show ?thesis using st(1) by (simp add: NsReceiver_OnMessage_def)
  next
    case (2 n d m)
    have "b \<noteq> []" using 2(1,2) Unpack_bounds [OF 2(1)] by auto
    then have "st_frames st \<noteq> []" using assms(3) by (auto simp: arrives_def)
    then obtain lr where "s_conns s c = Some lr" using assms(5) by (cases "s_conns s c") auto
    from readable_dispatched [OF this assms(4) well_typed_readable [OF 2(4)]] obtain t where "NsReceiver_dispatch s c m = Some t" by blast
    then show ?thesis using 2 by (auto simp: NsReceiver_OnMessage_def)
  qed
qed

lemma down_read:
  assumes "codec_ok mar unm" "stream_ok mar G (decodable junm) AgentOfNs st" "arrives st b"
  shows "\<exists>t n. NSDialerReceiver_OnMessage unm junm s b = Some (t, n, False) \<and> in_sync (st_consume n st) \<and>
    (t = s \<or> (\<exists>e. event_typed G e \<and> t = offerEvent s e))"
proof -
  have st: "in_sync st" "\<forall>f \<in> set (st_frames st). frame_typed mar G (decodable junm) AgentOfNs f"
    using assms(2) by (auto simp: stream_ok_def)
  from arrives_frame [OF assms(1) st assms(3)] show ?thesis
  proof cases
    case 1
    moreover have "st_consume 0 st = st" by (simp add: st_consume_def)
    ultimately show ?thesis using st(1) by (simp add: NSDialerReceiver_OnMessage_def)
  next
    case (2 n d m)
    from agent_dispatched [OF 2(4)] obtain e where e: "nsEvent junm (ssCmd m) (ssMsg m) = Some (Inr (Some e))"
      by (auto simp: decodable_def)
    with nsEvent_typed [OF 2(4) e] 2 show ?thesis by (auto simp: NSDialerReceiver_OnMessage_def)
  qed
qed

lemma peer_read:
  assumes "codec_ok mar unm" "stream_ok mar G D PeerAgent st" "arrives st b"
  shows "\<exists>t n. lisConnReceiver_OnMessage unm now s b = Some (t, n, False) \<and> in_sync (st_consume n st)"
proof -
  have st: "in_sync st" "\<forall>f \<in> set (st_frames st). frame_typed mar G D PeerAgent f" using assms(2) by (auto simp: stream_ok_def)
  from arrives_frame [OF assms(1) st assms(3)] show ?thesis
  proof cases
    case 1
    moreover have "st_consume 0 st = st" by (simp add: st_consume_def)
    ultimately show ?thesis using st(1) by (simp add: lisConnReceiver_OnMessage_def)
  next
    case (2 n d m)
    from peer_dispatched [OF 2(4)] obtain t where "lisConn_dispatch now s m = Some t" by blast
    with 2 show ?thesis by (auto simp: lisConnReceiver_OnMessage_def)
  qed
qed

subsection \<open>The name server\<close>

text \<open>A change of the name server that keeps connections and only appends typed frames.\<close>

definition ns_next :: "marshal \<Rightarrow> (PbServiceInfo \<Rightarrow> bool) \<Rightarrow> (bytes \<Rightarrow> bool) \<Rightarrow> NsServer \<Rightarrow> NsServer \<Rightarrow> bool" where
  "ns_next mar G D s t \<longleftrightarrow> ns_typed s mar G D t \<and> (\<forall>x \<in> set (s_msg_queue t). msg_typed G D x)"

lemma ns_typed_self: "ns_side_ok mar G D m \<Longrightarrow> ns_typed (me_ns m) mar G D (me_ns m)"
  by (simp add: ns_side_ok_def ns_typed_def)

lemma mesh_ns_inv:
  assumes inv: "mesh_inv mar G D m" and t: "ns_next mar G D (me_ns m) t" "ns_inv (t, me_now m)"
  shows "mesh_inv mar G D (m\<lparr>me_ns := t\<rparr>)"
proof -
  have n: "\<exists>new. sent_to t c = sent_to (me_ns m) c @ new \<and> (\<forall>f \<in> set new. frame_typed mar G D AgentOfNs f)" for c
    using t(1) by (auto simp: ns_next_def ns_typed_def)
  have "dom (s_conns t) = dom (s_conns (me_ns m))" using t(1) by (simp add: ns_next_def ns_typed_def)
  then have d: "s_conns t c = None \<longleftrightarrow> s_conns (me_ns m) c = None" for c by (metis domIff)
  have "frame_typed mar G D AgentOfNs f" if "f \<in> set (sent_to t c)" for c f
    using n [of c] that inv by (auto simp: mesh_inv_def ns_side_ok_def)
  moreover have "in_sync (me_downstream (m\<lparr>me_ns := t\<rparr>) c)" for c
  proof -
    obtain new where "sent_to t c = sent_to (me_ns m) c @ new" using n by blast
    then have "me_downstream (m\<lparr>me_ns := t\<rparr>) c = st_write new (me_downstream m c)"
      by (simp add: me_downstream_def st_write_def)
    then show ?thesis using inv in_sync_write by (simp add: mesh_inv_def)
  qed
  ultimately show ?thesis using inv t d
    by (simp add: mesh_inv_def ns_side_ok_def ns_next_def ns_typed_def)
qed

lemma serve_next:
  assumes "ns_side_ok mar G D m" "Server_Serve_step mar now (me_ns m) = Some t"
  shows "ns_next mar G D (me_ns m) t"
proof (cases "s_msg_queue (me_ns m)")
  case Nil
  then show ?thesis using assms ns_typed_self [OF assms(1)] by (simp add: Server_Serve_step_def ns_next_def ns_side_ok_def)
next
  case (Cons x rest)
  then obtain e where e: "Server_onMessage mar now ((me_ns m)\<lparr>s_msg_queue := rest\<rparr>) x = Some (t, e)"
    using assms(2) by (auto simp: Server_Serve_step_def)
  have "ns_typed (me_ns m) mar G D t"
    by (rule onMessage_typed [OF e]) (use ns_typed_self [OF assms(1)] assms(1) Cons in \<open>auto simp: ns_side_ok_def\<close>)
  moreover have "s_msg_queue t = rest" using onMessage_frame [OF e] by (simp add: serve_frame_def)
  ultimately show ?thesis using assms(1) Cons by (simp add: ns_next_def ns_side_ok_def)
qed

lemma ns_next_same:
  assumes "ns_side_ok mar G D m" "s_mem t = s_mem (me_ns m)" "\<And>c. sent_to t c = sent_to (me_ns m) c"
    and "\<And>c. s_conns t c = None \<longleftrightarrow> s_conns (me_ns m) c = None" "\<forall>x \<in> set (s_msg_queue t). msg_typed G D x"
  shows "ns_next mar G D (me_ns m) t"
proof -
  have "dom (s_conns t) = dom (s_conns (me_ns m))" using assms(4) by (auto simp: dom_def)
  then show ?thesis using assms by (simp add: ns_next_def ns_typed_def ns_side_ok_def)
qed

lemma OnClosed_next:
  assumes "ns_side_ok mar G D m" "NsReceiver_OnClosed (me_ns m) c = Some t"
  shows "ns_next mar G D (me_ns m) t"
  by (rule ns_next_same [OF assms(1)])
    (use assms in \<open>auto simp: NsReceiver_OnClosed_def ns_side_ok_def sent_to_def split: option.splits if_splits\<close>)

lemma up_next:
  assumes "ns_side_ok mar G D m" "NsReceiver_dispatch (me_ns m) c x = Some t" "well_typed G D Nameserver x"
  shows "ns_next mar G D (me_ns m) t"
proof -
  have q: "\<forall>x \<in> set (s_msg_queue (me_ns m)). msg_typed G D x" using assms(1) by (simp add: ns_side_ok_def)
  from dispatch_frame [OF assms(2)] dispatch_typed [OF assms(2,3) q] show ?thesis
    by (intro ns_next_same [OF assms(1)]) (simp_all add: recv_frame_def)
qed

section \<open>The invariant is kept\<close>

lemma mesh_stream_inv:
  "mesh_inv mar G D m \<Longrightarrow> stream_ok mar G D PeerAgent st \<Longrightarrow>
     mesh_inv mar G D (m\<lparr>me_peer := (me_peer m)(i := (me_peer m i)(url := st))\<rparr>)"
  by (simp add: mesh_inv_def ns_side_ok_def me_downstream_def)

lemma mesh_connect_inv:
  assumes inv: "mesh_inv mar G D m" and c: "s_conns (me_ns m) c = None" and fs: "\<forall>f \<in> set fs. frame_typed mar G D Nameserver f"
    and s: "s = NsReceiver_OnConnected ((me_ns m)\<lparr>s_conns := (s_conns (me_ns m))(c \<mapsto> newReceiver)\<rparr>) c"
  shows "mesh_inv mar G D (m\<lparr>me_ns := s, me_link := (me_link m)(i \<mapsto> c), me_down := (me_down m)(c := 0),
    me_up := (me_up m)(c := \<lparr>st_frames = fs, st_read = 0\<rparr>)\<rparr>)"
proof -
  have conns: "s_conns s d = (if d = c then Some (newReceiver\<lparr>lr_sender := True\<rparr>) else s_conns (me_ns m) d)" for d
    by (simp add: s NsReceiver_OnConnected_def)
  have sent: "sent_to s d = sent_to (me_ns m) d" for d
    using c by (simp add: sent_to_def conns newReceiver_def)
  have rest: "s_mem s = s_mem (me_ns m)" "s_msg_queue s = s_msg_queue (me_ns m)"
    by (simp_all add: s NsReceiver_OnConnected_def)
  have "ns_step mar (\<lambda>_. None) (me_ns m, me_now m) (s, me_now m)" unfolding s by (rule ns_step.accept [OF c])
  then have ni: "ns_inv (s, me_now m)" using ns_step_inv inv by (auto simp: mesh_inv_def ns_side_ok_def)
  then have "ns_side_ok mar G D (m\<lparr>me_ns := s\<rparr>)"
    using inv by (simp add: mesh_inv_def ns_side_ok_def sent rest)
  moreover have "in_sync \<lparr>st_frames = sent_to (me_ns m) d, st_read = (if d = c then 0 else me_down m d)\<rparr>" for d
    using inv by (auto simp: mesh_inv_def me_downstream_def)
  moreover have "stream_ok mar G D Nameserver \<lparr>st_frames = fs, st_read = 0\<rparr>" using fs by (simp add: stream_ok_def)
  ultimately show ?thesis using inv
    by (auto simp: mesh_inv_def ns_side_ok_def me_downstream_def sent conns)
qed

lemma mesh_consume_inv:
  assumes "mesh_inv mar G D m" "in_sync (st_consume n (me_up m c))"
  shows "mesh_inv mar G D (m\<lparr>me_up := (me_up m)(c := st_consume n (me_up m c))\<rparr>)"
  using assms stream_ok_consume [of mar G D Nameserver "me_up m c" n]
  by (auto simp: mesh_inv_def ns_side_ok_def me_downstream_def) (simp add: st_consume_def)

text \<open>The parameters of a run: the codecs decode what they encode, and names do not share handles.\<close>

definition mesh_env ::
  "marshal \<Rightarrow> unmarshal \<Rightarrow> (ServiceAttr \<Rightarrow> bytes option) \<Rightarrow> (bytes \<Rightarrow> ServiceAttr option) \<Rightarrow>
     (string \<Rightarrow> string \<Rightarrow> u64 \<Rightarrow> u64 option) \<Rightarrow> bool" where
  "mesh_env mar unm jmar junm mk \<longleftrightarrow> codec_ok mar unm \<and> (\<forall>a d. jmar a = Some d \<longrightarrow> junm d \<noteq> None) \<and> names_apart mk"

lemma mesh_step_inv:
  assumes env: "mesh_env mar unm jmar junm mk"
  shows "mesh_step mar unm jmar junm mk m n \<Longrightarrow> mesh_inv mar (made_by mk) (decodable junm) m \<Longrightarrow>
    mesh_inv mar (made_by mk) (decodable junm) n"
proof (induction rule: mesh_step.induct)
  case (own m i s)
  have "agent_side_ok mar (made_by mk) (decodable junm) s"
    by (rule own_ok [OF own.hyps]) (use own.prems env in \<open>auto simp: mesh_inv_def mesh_env_def\<close>)
  then show ?case by (rule put_agent_inv [OF own.prems])
next
  case (event env' m i s)
  have "agent_side_ok mar (made_by mk) (decodable junm) s"
    by (rule event_ok_step [OF event.hyps]) (use event.prems env in \<open>auto simp: mesh_inv_def mesh_env_def\<close>)
  then show ?case by (rule put_agent_inv [OF event.prems])
next
  case (regApp s m i env')
  have "agent_side_ok mar (made_by mk) (decodable junm) (me_agent m i)" using regApp.prems by (simp add: mesh_inv_def)
  from put_agent_inv [OF regApp.prems regApp_ok [OF this]] regApp.hyps show ?case by simp
next
  case (connect m c i)
  have "\<forall>f \<in> set (case NSDialerReceiver_OnConnected mar (me_agent m i) of None \<Rightarrow> [] | Some f \<Rightarrow> [f]).
      frame_typed mar (made_by mk) (decodable junm) Nameserver f" using start_typed(1) by (auto split: option.split)
  from mesh_connect_inv [OF connect.prems connect.hyps this refl] show ?case .
next
  case (lost m i)
  then show ?case by (simp add: mesh_inv_def ns_side_ok_def me_downstream_def)
next
  case (closed m c s)
  have "ns_side_ok mar (made_by mk) (decodable junm) m" using closed.prems by (simp add: mesh_inv_def)
  moreover have "ns_inv (s, me_now m)" using ns_step_inv [OF ns_step.close [OF closed.hyps]] calculation by (simp add: ns_side_ok_def)
  ultimately show ?case using mesh_ns_inv [OF closed.prems OnClosed_next] closed.hyps by blast
next
  case (redial m i url)
  then show ?case by (rule mesh_stream_inv) simp
next
  case (up m c b s skip)
  have inv: "ns_side_ok mar (made_by mk) (decodable junm) m" "ns_inv (me_ns m, me_now m)" "s_sess_mgr (me_ns m)"
    "stream_ok mar (made_by mk) (decodable junm) Nameserver (me_up m c)"
    "s_conns (me_ns m) c = None \<Longrightarrow> st_frames (me_up m c) = []"
    using up.prems by (auto simp: mesh_inv_def ns_side_ok_def ns_inv_def dir_okD(1))
  have "codec_ok mar unm" using env by (simp add: mesh_env_def)
  from up_read [OF this inv(4) up.hyps(1) inv(3), of c, OF inv(5)] up.hyps(2) have r: "in_sync (st_consume skip (me_up m c))"
    "s = me_ns m \<or> (\<exists>x. well_typed (made_by mk) (decodable junm) Nameserver x \<and> NsReceiver_dispatch (me_ns m) c x = Some s)"
    by auto
  have "ns_inv (s, me_now m)" using ns_step_inv [OF ns_step.recv [OF up.hyps(2)] inv(2)] .
  then have "mesh_inv mar (made_by mk) (decodable junm) (m\<lparr>me_ns := s\<rparr>)"
    using r(2) up.prems mesh_ns_inv [OF up.prems up_next [OF inv(1)]] by auto
  from mesh_consume_inv [OF this, of skip c] r(1) show ?case by simp
next
  case (down m i c b s skip)
  let ?st = "me_downstream m c" and ?a = "me_agent m i"
  have st: "stream_ok mar (made_by mk) (decodable junm) AgentOfNs ?st" and a: "agent_side_ok mar (made_by mk) (decodable junm) ?a"
    using down.prems by (auto simp: mesh_inv_def stream_ok_def ns_side_ok_def me_downstream_def)
  have "codec_ok mar unm" using env by (simp add: mesh_env_def)
  from down_read [OF this st down.hyps(2), of ?a] down.hyps(3) have r: "in_sync (st_consume skip ?st)"
    "s = ?a \<or> (\<exists>e. event_typed (made_by mk) e \<and> s = offerEvent ?a e)" by auto
  have "agent_inv s" using agent_step_inv [OF agent_step.a_fromNs [OF down.hyps(3)]] a by (simp add: agent_side_ok_def)
  then have "agent_side_ok mar (made_by mk) (decodable junm) s"
    using r(2) a by (auto simp: agent_side_ok_def offerEvent_def chan_offer_def split: if_splits)
  from put_agent_inv [OF down.prems this, of i] r(1) show ?case
    by (auto simp: mesh_inv_def me_downstream_def st_consume_def ns_side_ok_def)
next
  case (peer m j url i b now s skip)
  let ?a = "me_agent m j"
  have a: "agent_side_ok mar (made_by mk) (decodable junm) ?a" using peer.prems by (simp add: mesh_inv_def)
  have st: "stream_ok mar (made_by mk) (decodable junm) PeerAgent (me_peer m i url)" using peer.prems by (simp add: mesh_inv_def)
  have "codec_ok mar unm" using env by (simp add: mesh_env_def)
  from peer_read [OF this st peer.hyps(2), of now ?a] peer.hyps(4) have r: "in_sync (st_consume skip (me_peer m i url))" by auto
  have "agent_inv s" using agent_step_inv [OF agent_step.a_fromAgent [OF peer.hyps(4,3)]] a by (simp add: agent_side_ok_def)
  moreover have "agent_typed mar (made_by mk) (decodable junm) s \<and> as_eventQueue s = as_eventQueue ?a"
    using lisConn_effect [OF peer.hyps(4)] a agent_typedD by (auto simp: agent_side_ok_def recvPingAck_typed)
  ultimately have "agent_side_ok mar (made_by mk) (decodable junm) s" using a by (simp add: agent_side_ok_def)
  then show ?case by (intro put_agent_inv mesh_stream_inv stream_ok_consume peer.prems st r)
next
  case (tick m)
  let ?t = "(me_ns m)\<lparr>s_msg_queue := s_msg_queue (me_ns m) @ [TickMsg]\<rparr>"
  have side: "ns_side_ok mar (made_by mk) (decodable junm) m" using tick.prems by (simp add: mesh_inv_def)
  have "ns_inv (?t, me_now m)" using ns_step_inv [OF ns_step.tick [OF tick.hyps]] side by (simp add: ns_side_ok_def)
  moreover have "ns_next mar (made_by mk) (decodable junm) (me_ns m) ?t"
    by (rule ns_next_same [OF side]) (use side in \<open>auto simp: sent_to_def ns_side_ok_def\<close>)
  ultimately show ?case using mesh_ns_inv [OF tick.prems] by blast
next
  case (serve m s)
  have side: "ns_side_ok mar (made_by mk) (decodable junm) m" using serve.prems by (simp add: mesh_inv_def)
  have "ns_inv (s, me_now m)" using ns_step_inv [OF ns_step.serve [OF serve.hyps]] side by (simp add: ns_side_ok_def)
  then show ?case using mesh_ns_inv [OF serve.prems serve_next [OF side serve.hyps]] by blast
next
  case (clock m now)
  have "ns_inv (me_ns m, now)" using ns_step_inv [OF ns_step.clock [OF clock.hyps]] clock.prems
    by (auto simp: mesh_inv_def ns_side_ok_def)
  then show ?case using clock.prems by (simp add: mesh_inv_def ns_side_ok_def me_downstream_def)
next
  case (reorder apps m)
  let ?t = "(me_ns m)\<lparr>s_apps := apps\<rparr>"
  have side: "ns_side_ok mar (made_by mk) (decodable junm) m" using reorder.prems by (simp add: mesh_inv_def)
  have "ns_inv (?t, me_now m)" using ns_step_inv [OF ns_step.reorder [OF reorder.hyps]] side by (simp add: ns_side_ok_def)
  moreover have "ns_next mar (made_by mk) (decodable junm) (me_ns m) ?t"
    by (rule ns_next_same [OF side]) (use side in \<open>auto simp: sent_to_def ns_side_ok_def\<close>)
  ultimately show ?case using mesh_ns_inv [OF reorder.prems] by blast
qed

lemma agent_side_init: "agent_side_ok mar G D (srv_Init appID cfg ss0 rs0)"
  by (simp add: agent_side_ok_def agent_inv_init) (simp add: srv_Init_def)

lemma mesh_init_inv:
  assumes "G (pbOfAddr (si_serviceAddr si0))"
  shows "mesh_inv mar G D (mesh_init cfg si0 now (\<lambda>i. srv_Init (app i) (acfg i) (ss0 i) (rs0 i)))"
  using assms ns_inv_init [of cfg si0 now]
  by (auto simp: mesh_inv_def mesh_init_def ns_side_ok_def agent_side_init me_downstream_def sent_to_def stream_ok_def)
    (simp_all add: Server_Init_def empty_stream_def)

lemma mesh_reach_inv:
  assumes "mesh_env mar unm jmar junm mk"
  shows "mesh_reach mar unm jmar junm mk m n \<Longrightarrow> mesh_inv mar (made_by mk) (decodable junm) m \<Longrightarrow>
    mesh_inv mar (made_by mk) (decodable junm) n"
  by (induction rule: mesh_reach.induct) (auto intro: mesh_step_inv [OF assms])

section \<open>Properties\<close>

text \<open>
  C6: The protocol is type safe: in every state the mesh can reach, every connection carries only
  frames of messages its reader expects, with the body their command announces and every nested
  message present, and every reader stands at the beginning of a frame, however the network has cut
  and delayed the bytes and however often connections were lost and made again. \<open>si0\<close> only fills
  unallocated memory.
\<close>

theorem mesh_well_typed:
  assumes "mesh_env mar unm jmar junm mk" "made_by mk (pbOfAddr (si_serviceAddr si0))"
    and "mesh_reach mar unm jmar junm mk (mesh_init cfg si0 now (\<lambda>i. srv_Init (app i) (acfg i) (ss0 i) (rs0 i))) m"
  shows "in_sync (me_up m c) \<and> in_sync (me_downstream m c) \<and> in_sync (me_peer m i url) \<and>
    (\<forall>f \<in> set (st_frames (me_up m c)). \<exists>x. PackSSMsg mar x = Some f \<and> well_typed (made_by mk) (decodable junm) Nameserver x) \<and>
    (\<forall>f \<in> set (st_frames (me_downstream m c)).
       \<exists>x. PackSSMsg mar x = Some f \<and> well_typed (made_by mk) (decodable junm) AgentOfNs x) \<and>
    (\<forall>f \<in> set (st_frames (me_peer m i url)).
       \<exists>x. PackSSMsg mar x = Some f \<and> well_typed (made_by mk) (decodable junm) PeerAgent x)"
  using mesh_reach_inv [OF assms(1,3) mesh_init_inv [where G = "made_by mk", OF assms(2)]]
  by (simp add: mesh_inv_def ns_side_ok_def stream_ok_def frame_typed_def) (simp add: me_downstream_def)

text \<open>One agent that has connected and announced itself.\<close>

definition ex_mk :: "string \<Rightarrow> string \<Rightarrow> u64 \<Rightarrow> u64 option" where
  "ex_mk server name inst = (if name = ''svc'' then Some 9 else None)"

definition ex_announce :: SSMsg where
  "ex_announce = SSMsg NOTIFY_NAMESERVER_AGENT_INFO (Some (NotifyNameserverAgentInfo ''127.0.0.1:80'' ''app''))"

definition ex_mesh0 :: mesh where
  "ex_mesh0 = mesh_init (s_cfg ex_cast) \<lparr>si_serverAddr = [], si_appID = [], si_serviceAddr = ex_addr, si_lastRecvHbTime = 0,
     si_serviceOpts = defaultRegisterOptions\<rparr> 0 (\<lambda>_. ex_agent0)"

definition ex_mesh1 :: mesh where
  "ex_mesh1 = ex_mesh0\<lparr>me_ns := NsReceiver_OnConnected ((me_ns ex_mesh0)\<lparr>s_conns := [3 \<mapsto> newReceiver]\<rparr>) 3,
     me_link := [0 \<mapsto> 3], me_up := (me_up ex_mesh0)(3 := \<lparr>st_frames = [[0, 0, 0, 1, 0]], st_read = 0\<rparr>)\<rparr>"

lemma ex_mesh_env: "mesh_env (tab_mar [ex_announce]) (tab_unm [ex_announce]) (\<lambda>_. None) (\<lambda>_. None) ex_mk"
  by (auto simp: mesh_env_def names_apart_def ex_mk_def tab_codec_ok split: if_splits)

lemma ex_announced: "NSDialerReceiver_OnConnected (tab_mar [ex_announce]) ex_agent0 = Some [0, 0, 0, 1, 0]"
  by (simp add: NSDialerReceiver_OnConnected_def PackSSMsg_def tab_mar_def ex_announce_def ex_agent0_def srv_Init_def
      ex_cfg_def Pack_def be_PutUint32_def)

lemma ex_mesh_reach:
  "mesh_reach (tab_mar [ex_announce]) (tab_unm [ex_announce]) (\<lambda>_. None) (\<lambda>_. None) ex_mk ex_mesh0 ex_mesh1"
proof -
  have e: "me_agent ex_mesh0 0 = ex_agent0" "s_conns (me_ns ex_mesh0) = (\<lambda>_. None)" "me_link ex_mesh0 = (\<lambda>_. None)"
    by (simp_all add: ex_mesh0_def mesh_init_def Server_Init_def)
  have d: "(me_down ex_mesh0)(3 := 0) = me_down ex_mesh0" by (auto simp: ex_mesh0_def mesh_init_def)
  have "s_conns (me_ns ex_mesh0) 3 = None" by (simp add: e)
  from mesh_step.connect [OF this, of "tab_mar [ex_announce]" "tab_unm [ex_announce]" "\<lambda>_. None" "\<lambda>_. None" ex_mk 0]
  have "mesh_step (tab_mar [ex_announce]) (tab_unm [ex_announce]) (\<lambda>_. None) (\<lambda>_. None) ex_mk ex_mesh0 ex_mesh1"
    unfolding d unfolding e ex_announced option.case by (simp add: ex_mesh1_def)
  from mesh_reach.mesh_more [OF mesh_reach.mesh_refl this] show ?thesis .
qed

lemma ex_mesh_filler: "made_by ex_mk (pbOfAddr ex_addr)"
  by (simp add: made_by_def ex_mk_def pbOfAddr_def ex_addr_def)

theorem mesh_well_typed_witness:
  "\<exists>x. PackSSMsg (tab_mar [ex_announce]) x = Some [0, 0, 0, 1, 0] \<and> well_typed (made_by ex_mk) (decodable (\<lambda>_. None)) Nameserver x"
  using mesh_well_typed [OF ex_mesh_env _ ex_mesh_reach [unfolded ex_mesh0_def ex_agent0_def], of 3] ex_mesh_filler
  by (simp add: ex_mesh1_def)

text \<open>
  C5: No process of the mesh panics: in every reachable state the name server handles the next message of
  its queue, each receiver handles whatever part of its stream has arrived without a panic and without
  giving up the connection, and every agent handles its next event, which is consistent with the
  services it knows. This needs that the codecs decode what they encode and that services of different names do not share a
  handle.
\<close>

theorem mesh_no_panic:
  assumes "mesh_env mar unm jmar junm mk" "made_by mk (pbOfAddr (si_serviceAddr si0))"
    and "mesh_reach mar unm jmar junm mk (mesh_init cfg si0 now (\<lambda>i. srv_Init (app i) (acfg i) (ss0 i) (rs0 i))) m"
  shows "(\<exists>t. Server_Serve_step mar (me_now m) (me_ns m) = Some t) \<and>
    (\<forall>c b. arrives (me_up m c) b \<longrightarrow> (\<exists>t skip. NsReceiver_OnMessage unm (me_ns m) c b = Some (t, skip, False))) \<and>
    (\<forall>i c b. arrives (me_downstream m c) b \<longrightarrow>
       (\<exists>t skip. NSDialerReceiver_OnMessage unm junm (me_agent m i) b = Some (t, skip, False))) \<and>
    (\<forall>i j url b now. arrives (me_peer m i url) b \<longrightarrow>
       (\<exists>t skip. lisConnReceiver_OnMessage unm now (me_agent m j) b = Some (t, skip, False))) \<and>
    (\<forall>i env. (\<forall>e \<in> set (as_eventQueue (me_agent m i)). event_consistent (me_agent m i) e) \<and>
       (\<exists>t. srv_Serve_event mar env (me_agent m i) = Some t))"
proof -
  have inv: "mesh_inv mar (made_by mk) (decodable junm) m"
    by (rule mesh_reach_inv [OF assms(1,3) mesh_init_inv [where G = "made_by mk", OF assms(2)]])
  have env: "codec_ok mar unm" "names_apart mk" using assms(1) by (auto simp: mesh_env_def)
  have ns: "ns_inv (me_ns m, me_now m)" "s_sess_mgr (me_ns m)"
    using inv by (auto simp: mesh_inv_def ns_side_ok_def ns_inv_def dir_okD(1))
  have up: "\<exists>t skip. NsReceiver_OnMessage unm (me_ns m) c b = Some (t, skip, False)" if "arrives (me_up m c) b" for c b
    using up_read [OF env(1) _ that ns(2), of "made_by mk" "decodable junm" c] inv by (auto simp: mesh_inv_def)
  have down: "\<exists>t skip. NSDialerReceiver_OnMessage unm junm (me_agent m i) b = Some (t, skip, False)"
    if "arrives (me_downstream m c) b" for i c b
  proof -
    have "stream_ok mar (made_by mk) (decodable junm) AgentOfNs (me_downstream m c)"
      using inv by (simp add: mesh_inv_def stream_ok_def ns_side_ok_def) (simp add: me_downstream_def)
    from down_read [OF env(1) this that] show ?thesis by blast
  qed
  have peer: "\<exists>t skip. lisConnReceiver_OnMessage unm now (me_agent m j) b = Some (t, skip, False)"
    if "arrives (me_peer m i url) b" for i j url b now
    using peer_read [OF env(1) _ that, of "made_by mk" "decodable junm"] inv unfolding mesh_inv_def by blast
  have side: "agent_side_ok mar (made_by mk) (decodable junm) (me_agent m i)" for i using inv by (simp add: mesh_inv_def)
  have consistent: "event_consistent (me_agent m i) e" if "e \<in> set (as_eventQueue (me_agent m i))" for i e
    by (rule made_by_consistent [OF env(2) side that])
  have "\<exists>t. srv_Serve_event mar env (me_agent m i) = Some t" for i env
  proof (cases "as_eventQueue (me_agent m i)")
    case (Cons e es)
    have "agent_ok ((me_agent m i)\<lparr>as_eventQueue := es\<rparr>)" using side [of i] by (simp add: agent_side_ok_def agent_inv_def)
    from onEvent_ok [OF this, of e mar env] consistent [of e i] Cons show ?thesis by (auto simp: srv_Serve_event_def)
  qed (simp add: srv_Serve_event_def)
  then show ?thesis using Serve_step_inv [OF ns(1), of mar] up down peer consistent by blast
qed

theorem mesh_no_panic_witness:
  "\<exists>t skip. NsReceiver_OnMessage (tab_unm [ex_announce]) (me_ns ex_mesh1) 3 [0, 0, 0, 1, 0] = Some (t, skip, False)"
proof -
  have "arrives (me_up ex_mesh1 3) [0, 0, 0, 1, 0]" by (simp add: arrives_def ex_mesh1_def)
  then show ?thesis
    using mesh_no_panic [OF ex_mesh_env _ ex_mesh_reach [unfolded ex_mesh0_def ex_agent0_def]] ex_mesh_filler by simp
qed

end
