(* ===== verification/AgentPath.thy ===== *)
theory AgentPath
  imports AgentLife
begin

text \<open>
  The path of a message between two agents: the call of the sender, the frame on the connection, the
  receiver, the serving goroutine and the goroutine of the addressed service, composed from the
  operations of the two agents. The extensions and the example programs build on these legs.
\<close>

section \<open>Legs\<close>

text \<open>
  What an agent does with a frame from another agent and the service it is for: the receiver of the
  connection, the serving goroutine and the goroutine of service \<open>q\<close>, one turn each.
\<close>

definition agent_deliver :: "unmarshal \<Rightarrow> int \<Rightarrow> skymeshServer \<Rightarrow> bytes \<Rightarrow> nat \<Rightarrow> (skymeshServer \<times> AppCall list) option" where
  "agent_deliver unm now ag f q = do {
     (ag, skip, err) \<leftarrow> lisConnReceiver_OnMessage unm now ag f;
     let ag = srv_Serve_recv ag;
     case ss_Serve_step (as_mem ag q) of
       (svc, Handled cs ps) \<Rightarrow> Some (ag\<lparr>as_mem := (as_mem ag)(q := svc), as_calls := as_calls ag @ map CApp cs\<rparr>, cs)
     | (svc, BlockedNotify cs) \<Rightarrow> None }"

text \<open>The agent knows the service of a URL as \<open>dst\<close> of the process at \<open>addr\<close>, and the network is up.\<close>

definition routes :: "NetEnv \<Rightarrow> skymeshServer \<Rightarrow> string \<Rightarrow> Addr \<Rightarrow> string \<Rightarrow> bool" where
  "routes env ag url dst addr \<longleftrightarrow> mget (as_urlServices ag) url = None \<and> ne_dialErr env addr = None \<and> ne_sendErr env addr = None \<and>
     (\<exists>r. mget (sc_remoteUrlServices (as_sidecar ag)) url = Some r \<and> mget (sc_remoteServices (as_sidecar ag)) (AddrHandle dst) = Some r \<and>
        rs_serviceAddr (sc_mem (as_sidecar ag) r) = dst \<and> rs_serverAddr (sc_mem (as_sidecar ag) r) = addr)"

text \<open>The agent runs service \<open>q\<close> under the handle \<open>h\<close> and has no message waiting.\<close>

definition hosts :: "skymeshServer \<Rightarrow> u64 \<Rightarrow> nat \<Rightarrow> bool" where
  "hosts ag h q \<longleftrightarrow> mget (as_handleServices ag) h = Some q \<and> AddrHandle (ss_addr (as_mem ag q)) = h \<and> as_recvQueue ag = [] \<and>
     ss_msgQueue (as_mem ag q) = [] \<and> 0 < queueCap ag"

definition msgService :: "Addr \<Rightarrow> u64 \<Rightarrow> bytes \<Rightarrow> SSMsg" where
  "msgService src h b = SSMsg NOTIFY_SERVICE_MESSAGE (Some (NotifyServiceMessage (Some (pbOfAddr src)) h b))"

lemma send_leg:
  assumes "routes env ag url dst addr" "PackSSMsg mar (msgService src (AddrHandle dst) b) = Some f"
  shows "\<exists>sc. srv_sendBySvcUrl mar env ag src url b = (ag\<lparr>as_sidecar := sc\<rparr>, None) \<and>
    sc_agentOut sc = sc_agentOut (as_sidecar ag) @ [(addr, f)]"
proof -
  obtain r where r: "mget (as_urlServices ag) url = None" "mget (sc_remoteUrlServices (as_sidecar ag)) url = Some r"
    "mget (sc_remoteServices (as_sidecar ag)) (AddrHandle dst) = Some r" "rs_serviceAddr (sc_mem (as_sidecar ag) r) = dst"
    "rs_serverAddr (sc_mem (as_sidecar ag) r) = addr" "ne_dialErr env addr = None" "ne_sendErr env addr = None"
    using assms(1) by (auto simp: routes_def)
  then show ?thesis using assms(2)
    by (auto simp: srv_sendBySvcUrl_def with_sidecar_def sc_SendRemoteBySvcUrl_def sc_SendRemote_def AgentDialerMgr_GetDialer_def
        agentSend_def Let_def msgService_def)
qed

lemma deliver_exact:
  assumes "codec_ok mar unm" "PackSSMsg mar (msgService src h b) = Some f" "hosts ag h q"
  shows "agent_deliver unm now ag f q =
    Some (ag\<lparr>as_calls := as_calls ag @ [CApp (AppOnMessage h src b)]\<rparr>, [AppOnMessage h src b])"
proof -
  let ?ag = "ag\<lparr>as_recvQueue := [DataMessage src h b]\<rparr>"
  have q: "as_recvQueue ag = []" "ss_msgQueue (as_mem ag q) = []" "mget (as_handleServices ag) h = Some q" "0 < queueCap ag"
    "AddrHandle (ss_addr (as_mem ag q)) = h"
    using assms(3) by (auto simp: hosts_def)
  have "lisConn_dispatch now ag (msgService src h b) = Some ?ag" using q(1) by (simp add: lisConn_dispatch_def msgService_def)
  from lisConn_frame [OF assms(1,2) this, of "[]"]
  have recv: "lisConnReceiver_OnMessage unm now ag f = Some (?ag, length f, False)" by simp
  have serve: "srv_Serve_recv ?ag = ag\<lparr>as_mem := (as_mem ag)(q := (as_mem ag q)\<lparr>ss_msgQueue := [DataMessage src h b]\<rparr>)\<rparr>"
    using q by (simp add: srv_Serve_recv_def srv_onRecv_def srv_push_def ss_PushMessage_def chan_offer_def queueCap_def)
  have same: "(as_mem ag q)\<lparr>ss_msgQueue := []\<rparr> = as_mem ag q" using q(2) by simp
  have "ss_Serve_step ((as_mem ag q)\<lparr>ss_msgQueue := [DataMessage src h b]\<rparr>) = (as_mem ag q, Handled [AppOnMessage h src b] [])"
    using q(5) same by (simp add: ss_Serve_step_def ss_Serve_message_def)
  then show ?thesis using recv serve by (simp add: agent_deliver_def Let_def)
qed

lemma deliver_leg:
  assumes "codec_ok mar unm" "PackSSMsg mar (msgService src h b) = Some f" "hosts ag h q"
  shows "\<exists>ag'. agent_deliver unm now ag f q = Some (ag', [AppOnMessage h src b]) \<and> as_sidecar ag' = as_sidecar ag \<and>
    as_urlServices ag' = as_urlServices ag"
  using deliver_exact [OF assms, of now] by simp

text \<open>The agent knows the handle of \<open>dst\<close> as a service of the process at \<open>addr\<close>, and the network is up.\<close>

definition knows :: "NetEnv \<Rightarrow> skymeshServer \<Rightarrow> Addr \<Rightarrow> string \<Rightarrow> bool" where
  "knows env ag dst addr \<longleftrightarrow> mget (as_handleServices ag) (AddrHandle dst) = None \<and> ne_dialErr env addr = None \<and>
     ne_sendErr env addr = None \<and>
     (\<exists>r. mget (sc_remoteServices (as_sidecar ag)) (AddrHandle dst) = Some r \<and> rs_serverAddr (sc_mem (as_sidecar ag) r) = addr)"

lemma handle_leg:
  assumes "knows env ag dst addr" "PackSSMsg mar (msgService src (AddrHandle dst) b) = Some f"
  shows "\<exists>sc. srv_sendByHandle mar env ag src (AddrHandle dst) b = (ag\<lparr>as_sidecar := sc\<rparr>, None) \<and>
    sc_agentOut sc = sc_agentOut (as_sidecar ag) @ [(addr, f)]"
  using assms
  by (auto simp: knows_def srv_sendByHandle_def with_sidecar_def sc_SendRemote_def AgentDialerMgr_GetDialer_def
      agentSend_def Let_def msgService_def)

section \<open>Two processes\<close>

text \<open>Two processes, each with one service and the other one known.\<close>

definition ex_process :: "Addr \<Rightarrow> string \<Rightarrow> Addr \<Rightarrow> string \<Rightarrow> skymeshServer" where
  "ex_process own url other host = svc_added (ex_agent0\<lparr>as_sidecar := sc_notifyServiceOnline (as_sidecar ex_agent0) other host True defaultRegisterOptions\<rparr>)
     url (newService own defaultRegisterOptions) (GetServiceStateType defaultRegisterOptions)"

definition ex_peer_addr :: Addr where
  "ex_peer_addr = \<lparr>ServiceName = ''srv'', ServiceId = 1, AddrHandle = 11\<rparr>"

lemma ex_process_facts:
  assumes "AddrHandle own \<noteq> AddrHandle other" "url \<noteq> SkymeshAddr2Url other False"
  shows "routes ex_env (ex_process own url other host) (SkymeshAddr2Url other False) other host"
    "knows ex_env (ex_process own url other host) other host"
    "hosts (ex_process own url other host) (AddrHandle own) 0"
    "ss_addr (as_mem (ex_process own url other host) 0) = own"
  using assms
  by (auto simp: routes_def knows_def hosts_def ex_process_def svc_added_def ex_agent0_def srv_Init_def sc_Init_def
      sc_notifyServiceOnline_def newRemoteService_def newService_def queueCap_def ex_cfg_def ex_env_def Let_def)

lemma ex_urls: "SkymeshAddr2Url ex_addr False = ''svc/1''" "SkymeshAddr2Url ex_peer_addr False = ''srv/1''"
  using ex_url(3) by (simp_all add: addrServiceUrl_eq) (simp add: SkymeshAddr2Url_def ex_addr_def ex_peer_addr_def)

lemma ex_processes:
  "routes ex_env (ex_process ex_addr ''svc/1'' ex_peer_addr ''h2'') ''srv/1'' ex_peer_addr ''h2''"
  "routes ex_env (ex_process ex_peer_addr ''srv/1'' ex_addr ''h1'') ''svc/1'' ex_addr ''h1''"
  "hosts (ex_process ex_addr ''svc/1'' ex_peer_addr ''h2'') (AddrHandle ex_addr) 0"
  "hosts (ex_process ex_peer_addr ''srv/1'' ex_addr ''h1'') (AddrHandle ex_peer_addr) 0"
  using ex_process_facts [of ex_addr ex_peer_addr "''svc/1''" "''h2''"] ex_process_facts [of ex_peer_addr ex_addr "''srv/1''" "''h1''"]
    ex_urls
  by (simp_all add: ex_addr_def ex_peer_addr_def)

end
