(* ===== verification/Delivery.thy ===== *)
theory Delivery
  imports Mesh AgentPath
begin

text \<open>
  The three kinds of connections of the mesh, from an agent to the name server, from the name server
  to an agent and between two agents, as queues: the connection system of \<open>Pipe\<close> with the receivers of
  \<^verbatim>\<open>src/nameserver/receiver.go\<close> and \<^verbatim>\<open>src/agent/receiver.go\<close>.
\<close>

abbreviation ns_recv :: "unmarshal \<Rightarrow> connid \<Rightarrow> NsServer receiver" where
  "ns_recv unm c \<equiv> \<lambda>s b. NsReceiver_OnMessage unm s c b"

text \<open>The bodies a well-behaved peer sends.\<close>

definition body_typed :: "marshal \<Rightarrow> (PbServiceInfo \<Rightarrow> bool) \<Rightarrow> (bytes \<Rightarrow> bool) \<Rightarrow> Party \<Rightarrow> bytes \<Rightarrow> bool" where
  "body_typed mar G D p d \<longleftrightarrow> (\<exists>m. mar m = Some d \<and> well_typed G D p m)"

lemma body_typed_decodes:
  "codec_ok mar unm \<Longrightarrow> body_typed mar G D p d \<Longrightarrow> \<exists>m. unm d = Some m \<and> well_typed G D p m \<and> length d < 2 ^ 32"
  by (auto simp: body_typed_def codec_ok_def)

text \<open>An accepted connection stays accepted whatever message is dispatched.\<close>

lemma dispatch_accepted:
  assumes t: "NsReceiver_dispatch s c m = Some t" and m: "well_typed G D Nameserver m"
  shows "s_conns t c = None \<longleftrightarrow> s_conns s c = None"
proof -
  obtain body where "m = SSMsg (cmd_of body) (Some body)" "addressee (cmd_of body) = Some Nameserver" "fields_ok G D body"
    using m by (rule well_typed_cases)
  then show ?thesis using t
    by (cases body) (auto simp: NsReceiver_dispatch_def addSession_def NsRecv.deliver_def split: Option.bind_splits option.splits if_splits)
qed

definition ns_accepts :: "connid \<Rightarrow> NsServer \<Rightarrow> bool" where
  "ns_accepts c s \<longleftrightarrow> s_conns s c \<noteq> None \<and> s_sess_mgr s"

lemma ns_body_handled:
  assumes "codec_ok mar unm" "body_typed mar G D Nameserver d" "ns_accepts c s"
  shows "\<exists>t e. NsReceiver_body unm c s d = Some (t, e) \<and> ns_accepts c t"
proof -
  obtain m where m: "unm d = Some m" "well_typed G D Nameserver m" using body_typed_decodes [OF assms(1,2)] by blast
  obtain t where t: "NsReceiver_dispatch s c m = Some t"
    using readable_dispatched well_typed_readable [OF m(2)] assms(3) unfolding ns_accepts_def by blast
  have "ns_accepts c t" using dispatch_accepted [OF t m(2)] dispatch_frame [OF t] assms(3) by (simp add: ns_accepts_def recv_frame_def)
  then show ?thesis using m(1) t by (auto simp: NsReceiver_body_def)
qed

lemma peer_body_handled:
  assumes "codec_ok mar unm" "body_typed mar G D PeerAgent d"
  shows "\<exists>t e. lisConn_body unm s d = Some (t, e)"
proof -
  obtain m where m: "unm d = Some m" "well_typed G D PeerAgent m" using body_typed_decodes [OF assms] by blast
  obtain t where "lisConn_dispatch (snd s) (fst s) m = Some t" using peer_dispatched [OF m(2)] by blast
  then show ?thesis using m(1) by (auto simp: lisConn_body_def)
qed

lemma agent_body_handled:
  assumes "codec_ok mar unm" "\<And>d. D d \<Longrightarrow> junm d \<noteq> None" "body_typed mar G D AgentOfNs d"
  shows "\<exists>t e. NSDialer_body unm junm s d = Some (t, e)"
proof -
  obtain m where m: "unm d = Some m" "well_typed G D AgentOfNs m" using body_typed_decodes [OF assms(1,3)] by blast
  obtain e where "nsEvent junm (ssCmd m) (ssMsg m) = Some (Inr (Some e))" using agent_dispatched [OF m(2), of junm] assms(2) by blast
  then show ?thesis using m(1) by (auto simp: NSDialer_body_def)
qed

interpretation ns_live: live_frame_handler "ns_recv unm c" "NsReceiver_body unm c" "ns_accepts c"
  "\<lambda>d. codec_ok mar unm \<and> body_typed mar G D Nameserver d" for mar unm c G D
  by unfold_locales (use ns_body_handled in blast)

interpretation peer_live: live_frame_handler "lisConn_recv unm" "lisConn_body unm" "\<lambda>_. True"
  "\<lambda>d. codec_ok mar unm \<and> body_typed mar G D PeerAgent d" for mar unm G D
  by unfold_locales (use peer_body_handled in blast)

interpretation agent_live: live_frame_handler "NSDialerReceiver_OnMessage unm junm" "NSDialer_body unm junm" "\<lambda>_. True"
  "\<lambda>d. codec_ok mar unm \<and> (\<forall>d. D d \<longrightarrow> junm d \<noteq> None) \<and> body_typed mar G D AgentOfNs d" for mar unm junm G D
  by unfold_locales (use agent_body_handled in blast)

section \<open>Properties\<close>

text \<open>
  C15: A connection to the name server implements a queue of messages: whatever the interleaving of the
  senders, the write loop, the network, the read loop and the rest of the name server, and however the bytes
  are cut, every step puts a message at the end of the queue, takes the first one and hands it to the handler,
  is a step of the rest of the server, or leaves the queue and the server alone; the messages handled and those
  in the queue are together the messages sent, in order.
\<close>

theorem ns_connection_is_queue:
  assumes "pipe_steps (ns_recv unm c) E (Pipe_Init s) x" "pipe_step (ns_recv unm c) E x y"
  shows "(pipe_abs y = pipe_abs x \<or> fifo_step (NsReceiver_body unm c) E (pipe_abs x) (pipe_abs y)) \<and>
    pp_handled x @ pipe_queue x = pp_sent x"
proof -
  have "pipe_inv x" by (rule ns_stream.pipe_steps_inv [OF assms(1) pipe_inv_init])
  then show ?thesis using ns_stream.pipe_step_fifo [OF assms(2)] by (simp add: pipe_inv_def)
qed

lemma queue_from_sent: "set (pipe_queue x) \<subseteq> set (pp_sent x)"
  by (auto simp: pipe_queue_def dest: in_set_dropD)


text \<open>The same of the connections to the name server and from it.\<close>

theorem ns_message_delivered:
  assumes "codec_ok mar unm" "pipe_steps (ns_recv unm c) E (Pipe_Init s) x" "pp_pc x \<noteq> REnd" "ns_accepts c (pp_state x)"
    and "k_pc (pp_conn x) \<noteq> WSetWait" "\<And>e. k_pc (pp_conn x) \<noteq> WEnd e"
    and "\<forall>b \<in> set (pp_sent x). body_typed mar G D Nameserver b" "body_typed mar G D Nameserver d"
  shows "\<exists>y. pipe_steps (ns_recv unm c) E (pipe_send x d) y \<and> pp_handled y = pp_sent x @ [d] \<and> pp_rbuff y = [] \<and>
    rangeM (\<lambda>d s. map_option fst (NsReceiver_body unm c s d)) (pipe_queue x @ [d]) (pp_state x) = Some (pp_state y)"
proof -
  have inv: "pipe_inv x" by (rule ns_stream.pipe_steps_inv [OF assms(2) pipe_inv_init])
  have "length d < 2 ^ 32" using body_typed_decodes [OF assms(1,8)] by blast
  then show ?thesis
    using ns_live.send_delivers [where mar = mar and G = G and D = D, OF inv assms(3,4) _ assms(5,6)] assms(1,7,8)
      queue_from_sent [of x] by blast
qed

theorem agent_message_delivered:
  assumes "codec_ok mar unm" "\<And>d. D d \<Longrightarrow> junm d \<noteq> None"
    and "pipe_steps (NSDialerReceiver_OnMessage unm junm) E (Pipe_Init s) x" "pp_pc x \<noteq> REnd"
    and "k_pc (pp_conn x) \<noteq> WSetWait" "\<And>e. k_pc (pp_conn x) \<noteq> WEnd e"
    and "\<forall>b \<in> set (pp_sent x). body_typed mar G D AgentOfNs b" "body_typed mar G D AgentOfNs d"
  shows "\<exists>y. pipe_steps (NSDialerReceiver_OnMessage unm junm) E (pipe_send x d) y \<and> pp_handled y = pp_sent x @ [d] \<and> pp_rbuff y = [] \<and>
    rangeM (\<lambda>d s. map_option fst (NSDialer_body unm junm s d)) (pipe_queue x @ [d]) (pp_state x) = Some (pp_state y)"
proof -
  have inv: "pipe_inv x" by (rule ns_dialer_stream.pipe_steps_inv [OF assms(3) pipe_inv_init])
  have "length d < 2 ^ 32" using body_typed_decodes [OF assms(1,8)] by blast
  then show ?thesis
    using agent_live.send_delivers [where mar = mar and G = G and D = D, OF inv assms(4) TrueI _ assms(5,6)] assms(1,2,7,8)
      queue_from_sent [of x] by blast
qed

section \<open>The streams of the mesh\<close>

text \<open>
  The mesh keeps of a connection the frames written and the number of bytes consumed. A connection from end
  to end is such a stream: what its reader has in the buffer has arrived on the stream, sending writes a
  frame, a turn of the read loop consumes what it skips, and no other step changes the stream.
\<close>

definition stream_of :: "'s Pipe \<Rightarrow> stream" where
  "stream_of x = \<lparr>st_frames = map Pack (pp_sent x), st_read = length (concat (map Pack (pp_handled x)))\<rparr>"

lemma stream_of_arrives:
  assumes "pipe_inv x"
  shows "arrives (stream_of x) (pp_rbuff x)" "in_sync (stream_of x)"
proof -
  have s: "pp_sent x = pp_handled x @ pipe_queue x" using assms by (simp add: pipe_inv_def)
  have d: "drop (length (concat (map Pack (pp_handled x)))) (concat (map Pack (pp_sent x))) = concat (map Pack (pipe_queue x))"
    unfolding s by simp
  from pipe_rbuff(1) [OF assms] d show "arrives (stream_of x) (pp_rbuff x)"
    by (auto simp: arrives_def stream_of_def prefix_def)
  have "take (length (pp_handled x)) (map Pack (pp_sent x)) = map Pack (pp_handled x)" unfolding s by simp
  then have "length (concat (map Pack (pp_handled x))) = length (concat (take (length (pp_handled x)) (map Pack (pp_sent x))))" by simp
  then show "in_sync (stream_of x)" unfolding in_sync_def stream_of_def by (auto simp del: take_map)
qed

text \<open>Stated for the connection between two agents; the two others are the same.\<close>

theorem connection_is_mesh_stream:
  assumes "pipe_steps (lisConn_recv unm) E (Pipe_Init s) x" "pipe_step (lisConn_recv unm) E x y"
  shows "stream_of y = stream_of x \<or> (\<exists>d. stream_of y = st_write [Pack d] (stream_of x)) \<or>
    (\<exists>b n e. arrives (stream_of x) b \<and> lisConn_recv unm (pp_state x) b = Some (pp_state y, n, e) \<and>
       stream_of y = st_consume n (stream_of x))"
proof -
  have inv: "pipe_inv x" by (rule lis_stream.pipe_steps_inv [OF assms(1) pipe_inv_init])
  from assms(2) show ?thesis
  proof cases
    case (send d)
    then have "stream_of y = st_write [Pack d] (stream_of x)" by (simp add: stream_of_def st_write_def pipe_send_def)
    then show ?thesis by blast
  next
    case (turn t rn e)
    from inv turn(3) show ?thesis
    proof (cases rule: lis_stream.turn_cases)
      case 1
      then show ?thesis using turn by (simp add: stream_of_def)
    next
      case (2 d q)
      then have "stream_of y = st_consume rn (stream_of x)" "pp_state y = t" using turn by (simp_all add: stream_of_def st_consume_def)
      then show ?thesis using stream_of_arrives(1) [OF inv] turn(3) by blast
    qed
  qed (simp_all add: stream_of_def loopRead_read_def)
qed

section \<open>At concrete inputs\<close>

theorem ns_connection_is_queue_witness:
  "fifo_step (NsReceiver_body (tab_unm ex_msgs) 3) (=) (pipe_abs (Pipe_Init ex_accepted)) (pipe_abs (pipe_send (Pipe_Init ex_accepted) [1]))"
proof -
  have "pipe_step (ns_recv (tab_unm ex_msgs) 3) (=) (Pipe_Init ex_accepted) (pipe_send (Pipe_Init ex_accepted) [1])"
    by (rule pipe_step.send) simp
  from ns_connection_is_queue [OF pipe_steps.pipe_none this]
  have "pipe_abs (pipe_send (Pipe_Init ex_accepted) [1]) = pipe_abs (Pipe_Init ex_accepted) \<or>
    fifo_step (NsReceiver_body (tab_unm ex_msgs) 3) (=) (pipe_abs (Pipe_Init ex_accepted)) (pipe_abs (pipe_send (Pipe_Init ex_accepted) [1]))"
    by blast
  then show ?thesis by (auto simp: pipe_abs_def pipe_queue_def pipe_send_def Pipe_Init_def)
qed

definition ex_peer_msg :: SSMsg where
  "ex_peer_msg = msgService ex_peer_addr 7 [42]"


end
