(* ===== verification/Dialer.thy ===== *)
theory Dialer
  imports Conn
begin

text \<open>
  \<^verbatim>\<open>src/common/network/dialer.go\<close>, with the options of \<^verbatim>\<open>dialoptions.go\<close>: the connection
  of a client and its states. \<open>dial\<close> may run in several goroutines, from \<open>Start\<close>,
  \<open>Send\<close> and the reconnect loop; each run is a thread whose program counter is one of
  \<open>DialPc\<close>, and the threads interleave at every access to the shared state. The network
  answers as it likes.
\<close>

record dialOptions =
  retryInterval :: int
  dialTimeout :: int

definition defaultDialOptions :: dialOptions where
  "defaultDialOptions = \<lparr>retryInterval = 3, dialTimeout = 5\<rparr>"

definition WithRetryInterval :: "int \<Rightarrow> dialOptions \<Rightarrow> dialOptions" where
  "WithRetryInterval n d = d\<lparr>retryInterval := n\<rparr>"

definition WithDialTimeout :: "int \<Rightarrow> dialOptions \<Rightarrow> dialOptions" where
  "WithDialTimeout n d = d\<lparr>dialTimeout := n\<rparr>"

datatype DialState = Idle | Connecting | Ready | TransientFailure | Shutdown

fun State_String :: "DialState \<Rightarrow> string" where
  "State_String Idle = ''IDLE''"
| "State_String Connecting = ''CONNECTING''"
| "State_String Ready = ''READY''"
| "State_String TransientFailure = ''TRANSIENT_FAILURE''"
| "State_String Shutdown = ''SHUTDOWN''"

datatype DialErr = AlreadyConnecting | AlreadyShutdown | ConnectFailed | StateChanged | OnConnectedFailed | ConnectTimeout

text \<open>
  \<open>DStart\<close>: before the state is read. \<open>DSet\<close>: it was neither connecting, ready nor
  shut down, and will be set to connecting. \<open>DDial\<close>: in \<^verbatim>\<open>net.Dial\<close>. \<open>DCheck\<close>: connected,
  before the state is checked again. \<open>DConn\<close>: about to publish the connection. \<open>DInit\<close>:
  about to initialise it. \<open>DReady\<close>: about to set the state to ready. \<open>DEnd\<close>: returned.
\<close>

datatype DialPc = DStart | DSet | DDial | DCheck | DConn | DInit nat | DReady nat | DEnd "DialErr option"

record Dialer =
  d_opts :: dialOptions
  d_conn :: "nat option"
  d_quit :: Event
  d_state :: DialState
  d_notifys :: "nat list"
  d_told :: "(nat \<times> DialErr option) list"
  d_open :: "nat set"
  d_fresh :: nat
  d_threads :: "DialPc list"

definition NewDialer :: "(dialOptions \<Rightarrow> dialOptions) list \<Rightarrow> Dialer" where
  "NewDialer opts =
     \<lparr>d_opts = fold (\<lambda>opt d. opt d) opts defaultDialOptions, d_conn = None,
      d_quit = NewEvent ''gonet.Dialer.quit'', d_state = Idle, d_notifys = [], d_told = [],
      d_open = {}, d_fresh = 0, d_threads = []\<rparr>"

definition setState :: "DialState \<Rightarrow> Dialer \<Rightarrow> Dialer" where
  "setState st d = (if d_state d = Shutdown then d else d\<lparr>d_state := st\<rparr>)"

definition isInState :: "DialState \<Rightarrow> Dialer \<Rightarrow> bool" where
  "isInState st d = (st = d_state d)"

definition getNotify :: "nat \<Rightarrow> Dialer \<Rightarrow> Dialer" where
  "getNotify c d = d\<lparr>d_notifys := c # d_notifys d\<rparr>"

definition delNotify :: "nat \<Rightarrow> Dialer \<Rightarrow> Dialer" where
  "delNotify c d = d\<lparr>d_notifys := filter (\<lambda>x. x \<noteq> c) (d_notifys d)\<rparr>"

text \<open>Every registered channel is offered the result once and forgotten.\<close>

definition doNotify :: "DialErr option \<Rightarrow> Dialer \<Rightarrow> Dialer" where
  "doNotify err d = d\<lparr>d_told := d_told d @ map (\<lambda>c. (c, err)) (d_notifys d), d_notifys := []\<rparr>"

definition goto :: "nat \<Rightarrow> DialPc \<Rightarrow> Dialer \<Rightarrow> Dialer" where
  "goto i pc d = d\<lparr>d_threads := (d_threads d)[i := pc]\<rparr>"

text \<open>The first test of \<open>dial\<close>.\<close>

fun dial_entry :: "DialState \<Rightarrow> DialPc" where
  "dial_entry Connecting = DEnd (Some AlreadyConnecting)"
| "dial_entry Ready = DEnd None"
| "dial_entry Shutdown = DEnd (Some AlreadyShutdown)"
| "dial_entry _ = DSet"

text \<open>\<open>Close\<close> of the underlying connection.\<close>

definition closeConn :: "nat \<Rightarrow> Dialer \<Rightarrow> Dialer" where
  "closeConn c d = d\<lparr>d_open := d_open d - {c}\<rparr>"

definition Dialer_Shutdown :: "Dialer \<Rightarrow> (Dialer \<times> bool) option" where
  "Dialer_Shutdown d = do {
     (q, first) \<leftarrow> Event_Fire (d_quit d);
     let d = d\<lparr>d_quit := q\<rparr>;
     if first then
       (let d = setState Shutdown d in
        Some (case d_conn d of None \<Rightarrow> d | Some c \<Rightarrow> closeConn c d, True))
     else Some (d, False) }"

text \<open>What \<open>Send\<close> does in the state it reads: send on the connection, wait, fail, or dial first.\<close>

datatype SendAct = SendOn nat | SendPanic | SendWait | SendFail DialErr | SendDial

definition Dialer_Send :: "Dialer \<Rightarrow> SendAct" where
  "Dialer_Send d =
     (case d_state d of
        Ready \<Rightarrow> (case d_conn d of Some c \<Rightarrow> SendOn c | None \<Rightarrow> SendPanic)
      | Connecting \<Rightarrow> SendWait
      | Shutdown \<Rightarrow> SendFail AlreadyShutdown
      | _ \<Rightarrow> SendDial)"

inductive dial_step :: "Dialer \<Rightarrow> Dialer \<Rightarrow> bool" where
  call: "dial_step d (d\<lparr>d_threads := d_threads d @ [DStart]\<rparr>)"
| entry: "i < length (d_threads d) \<Longrightarrow> d_threads d ! i = DStart \<Longrightarrow>
    dial_step d (goto i (dial_entry (d_state d)) d)"
| connecting: "i < length (d_threads d) \<Longrightarrow> d_threads d ! i = DSet \<Longrightarrow>
    dial_step d (goto i DDial (setState Connecting d))"
| dial_fail: "i < length (d_threads d) \<Longrightarrow> d_threads d ! i = DDial \<Longrightarrow>
    dial_step d (goto i (DEnd (Some ConnectFailed)) (doNotify (Some ConnectFailed) (setState TransientFailure d)))"
| dial_ok: "i < length (d_threads d) \<Longrightarrow> d_threads d ! i = DDial \<Longrightarrow> dial_step d (goto i DCheck d)"
| check: "i < length (d_threads d) \<Longrightarrow> d_threads d ! i = DCheck \<Longrightarrow>
    dial_step d (if isInState Connecting d then goto i DConn d
                 else goto i (DEnd (Some StateChanged)) (doNotify (Some StateChanged) d))"
| publish: "i < length (d_threads d) \<Longrightarrow> d_threads d ! i = DConn \<Longrightarrow>
    dial_step d (goto i (DInit (d_fresh d)) (d\<lparr>d_conn := Some (d_fresh d), d_open := insert (d_fresh d) (d_open d), d_fresh := Suc (d_fresh d)\<rparr>))"
| init_fail: "i < length (d_threads d) \<Longrightarrow> d_threads d ! i = DInit c \<Longrightarrow>
    dial_step d (goto i (DEnd (Some OnConnectedFailed)) (doNotify (Some OnConnectedFailed) (setState TransientFailure d)))"
| init_ok: "i < length (d_threads d) \<Longrightarrow> d_threads d ! i = DInit c \<Longrightarrow> dial_step d (goto i (DReady c) d)"
| ready: "i < length (d_threads d) \<Longrightarrow> d_threads d ! i = DReady c \<Longrightarrow>
    dial_step d (goto i (DEnd None) (doNotify None (setState Ready d)))"
| loop_end: "c \<in> d_open d \<Longrightarrow> dial_step d (setState TransientFailure (closeConn c d))"
| wait: "c \<notin> set (d_notifys d) \<Longrightarrow> dial_step d (getNotify c d)"
| timeout: "dial_step d (delNotify c d)"
| shutdown: "Dialer_Shutdown d = Some (e, r) \<Longrightarrow> dial_step d e"

inductive dial_reach :: "(dialOptions \<Rightarrow> dialOptions) list \<Rightarrow> Dialer \<Rightarrow> bool" for opts where
  dial_init: "dial_reach opts (NewDialer opts)"
| dial_more: "dial_reach opts d \<Longrightarrow> dial_step d e \<Longrightarrow> dial_reach opts e"

section \<open>Invariant\<close>

text \<open>
  A dialer that is ready, or has a thread about to make it so, has a connection; the quit
  event and the final state go together; a thread that would publish a connection was not
  told so by a final state.
\<close>

definition has_conn :: "DialPc \<Rightarrow> bool" where
  "has_conn pc = (case pc of DInit c \<Rightarrow> True | DReady c \<Rightarrow> True | _ \<Rightarrow> False)"

definition dial_inv :: "Dialer \<Rightarrow> bool" where
  "dial_inv d \<longleftrightarrow> event_ok (d_quit d) \<and> (d_state d = Shutdown \<longleftrightarrow> Event_HasFired (d_quit d)) \<and>
     (d_state d = Ready \<or> list_ex has_conn (d_threads d) \<longrightarrow> d_conn d \<noteq> None) \<and>
     (\<forall>c. d_conn d = Some c \<longrightarrow> c < d_fresh d) \<and> (\<forall>c \<in> d_open d. c < d_fresh d)"

lemma list_ex_update:
  "i < length xs \<Longrightarrow> list_ex P (xs[i := y]) \<Longrightarrow> P y \<or> list_ex P xs"
  by (metis list_ex_iff set_update_subset_insert insertE subsetD)

lemma list_ex_nth: "i < length xs \<Longrightarrow> P (xs ! i) \<Longrightarrow> list_ex P xs"
  using list_ex_length by blast

lemma dial_inv_shutdown:
  assumes inv: "dial_inv d" and e: "Dialer_Shutdown d = Some (e, r)"
  shows "dial_inv e"
proof -
  have "event_ok (d_quit d)" using inv by (simp add: dial_inv_def)
  from Event_Fire_ok [OF this] obtain q where "Event_Fire (d_quit d) = Some (q, \<not> Event_HasFired (d_quit d))"
    "event_ok q" "Event_HasFired q" by blast
  then show ?thesis using inv e
    by (auto simp: dial_inv_def Dialer_Shutdown_def setState_def closeConn_def Let_def split: if_splits option.splits)
qed

lemma dial_step_inv: "dial_step d e \<Longrightarrow> dial_inv d \<Longrightarrow> dial_inv e"
proof (induction rule: dial_step.induct)
  case (shutdown d e r)
  then show ?case by (simp add: dial_inv_shutdown)
next
  case (entry i d)
  then show ?case
    by (cases "d_state d") (auto simp: dial_inv_def goto_def has_conn_def dest: list_ex_update)
next
  case (ready i d c)
  then have "list_ex has_conn (d_threads d)" by (intro list_ex_nth) (auto simp: has_conn_def)
  with ready show ?case by (auto simp: dial_inv_def goto_def setState_def doNotify_def)
next
  case (init_ok i d c)
  then have "list_ex has_conn (d_threads d)" by (intro list_ex_nth) (auto simp: has_conn_def)
  with init_ok show ?case by (auto simp: dial_inv_def goto_def)
next
  case (publish i d)
  then show ?case by (auto simp: dial_inv_def goto_def less_SucI)
qed (auto simp: dial_inv_def goto_def setState_def doNotify_def closeConn_def getNotify_def delNotify_def has_conn_def
    isInState_def dest: list_ex_update)

lemma dial_inv_init: "dial_inv (NewDialer opts)"
  by (simp add: dial_inv_def NewDialer_def)

lemma dial_reach_inv: "dial_reach opts d \<Longrightarrow> dial_inv d"
  by (induction rule: dial_reach.induct) (auto intro: dial_inv_init dial_step_inv)

lemma dial_step_shutdown: "dial_step d e \<Longrightarrow> d_state d = Shutdown \<Longrightarrow> d_state e = Shutdown"
  by (induction rule: dial_step.induct)
    (auto simp: goto_def setState_def doNotify_def closeConn_def getNotify_def delNotify_def Dialer_Shutdown_def Let_def
      split: Option.bind_splits if_splits option.splits)

section \<open>Properties\<close>

text \<open>
  \<open>Send\<close> never dereferences a nil connection: whenever the state it reads is ready, a connection
  has been published, whatever goroutines are dialling, failing or shutting down at the same time.
\<close>

theorem dialer_send_safe:
  assumes "dial_reach opts d"
  shows "Dialer_Send d \<noteq> SendPanic"
  using dial_reach_inv [OF assms]
  by (auto simp: Dialer_Send_def dial_inv_def split: DialState.splits option.splits)

theorem dialer_send_safe_witness: "Dialer_Send (NewDialer [WithRetryInterval 7]) \<noteq> SendPanic"
  by (rule dialer_send_safe [OF dial_reach.dial_init])

text \<open>
  A shut-down dialer stays shut down: no step of any goroutine leaves the state, and every
  \<open>Send\<close> from then on fails.
\<close>

theorem dialer_shutdown_final:
  assumes "d_state d = Shutdown" and "dial_step d e"
  shows "d_state e = Shutdown \<and> Dialer_Send e = SendFail AlreadyShutdown"
  using dial_step_shutdown [OF assms(2,1)] by (simp add: Dialer_Send_def)

theorem dialer_shutdown_final_witness:
  "d_state ((NewDialer [])\<lparr>d_state := Shutdown, d_threads := [DStart]\<rparr>) = Shutdown"
  using dialer_shutdown_final [of "(NewDialer [])\<lparr>d_state := Shutdown\<rparr>" "(NewDialer [])\<lparr>d_state := Shutdown, d_threads := [DStart]\<rparr>"]
    dial_step.call [of "(NewDialer [])\<lparr>d_state := Shutdown\<rparr>"]
  by (simp add: NewDialer_def)

text \<open>
  A shutdown that comes while a dial is between its check of the state and the publication of
  the connection does not close that connection: it is left open, with the dialer shut down and no
  goroutine dialling.
\<close>

theorem dialer_shutdown_leak:
  "\<exists>d c. dial_reach [] d \<and> d_state d = Shutdown \<and> d_conn d = Some c \<and> c \<in> d_open d \<and> d_threads d = [DEnd None]"
proof -
  let ?d1 = "(NewDialer [])\<lparr>d_threads := [DStart]\<rparr>"
  let ?d2 = "(NewDialer [])\<lparr>d_threads := [DSet]\<rparr>"
  let ?d3 = "(NewDialer [])\<lparr>d_state := Connecting, d_threads := [DDial]\<rparr>"
  let ?d4 = "?d3\<lparr>d_threads := [DCheck]\<rparr>"
  let ?d5 = "?d3\<lparr>d_threads := [DConn]\<rparr>"
  let ?q = "\<lparr>ev_fired = True, ev_tag = ''gonet.Dialer.quit'', ev_notifyFired = True, ev_fireOnce = True\<rparr>"
  let ?d6 = "?d5\<lparr>d_quit := ?q, d_state := Shutdown\<rparr>"
  let ?d7 = "?d6\<lparr>d_threads := [DInit 0], d_conn := Some 0, d_open := {0}, d_fresh := 1\<rparr>"
  let ?d8 = "?d7\<lparr>d_threads := [DReady 0]\<rparr>"
  let ?d9 = "?d7\<lparr>d_threads := [DEnd None]\<rparr>"
  have s1: "dial_step (NewDialer []) ?d1" using dial_step.call [of "NewDialer []"] by (simp add: NewDialer_def)
  have s2: "dial_step ?d1 ?d2" using dial_step.entry [of 0 ?d1] by (simp add: NewDialer_def goto_def)
  have s3: "dial_step ?d2 ?d3" using dial_step.connecting [of 0 ?d2] by (simp add: NewDialer_def goto_def setState_def)
  have s4: "dial_step ?d3 ?d4" using dial_step.dial_ok [of 0 ?d3] by (simp add: NewDialer_def goto_def)
  have s5: "dial_step ?d4 ?d5" using dial_step.check [of 0 ?d4] by (simp add: NewDialer_def goto_def isInState_def)
  have "Dialer_Shutdown ?d5 = Some (?d6, True)"
    by (simp add: Dialer_Shutdown_def NewDialer_def NewEvent_def Event_Fire_def setState_def Let_def)
  then have s6: "dial_step ?d5 ?d6" by (rule dial_step.shutdown)
  have s7: "dial_step ?d6 ?d7" using dial_step.publish [of 0 ?d6] by (simp add: NewDialer_def goto_def)
  have s8: "dial_step ?d7 ?d8" using dial_step.init_ok [of 0 ?d7 0] by (simp add: NewDialer_def goto_def)
  have s9: "dial_step ?d8 ?d9"
    using dial_step.ready [of 0 ?d8 0] by (simp add: NewDialer_def goto_def setState_def doNotify_def)
  have "dial_reach [] ?d9"
    by (rule dial_reach.dial_more [OF dial_reach.dial_more [OF dial_reach.dial_more [OF dial_reach.dial_more
      [OF dial_reach.dial_more [OF dial_reach.dial_more [OF dial_reach.dial_more [OF dial_reach.dial_more
      [OF dial_reach.dial_more [OF dial_reach.dial_init s1] s2] s3] s4] s5] s6] s7] s8] s9])
  then show ?thesis by (intro exI [of _ ?d9] exI [of _ 0]) simp
qed

end
