(* ===== verification/Redial.thy ===== *)
theory Redial
  imports Dialer
begin

text \<open>
  \<open>Start\<close> and \<open>reConnect\<close> of \<^verbatim>\<open>src/common/network/dialer.go\<close>: the goroutine that waits until the
  connection is closed and dials again until it succeeds or the dialer is shut down. It runs beside
  everything else a dialer does; its dials are threads of the dialer.
\<close>

section \<open>The goroutines\<close>

datatype StartPc = StCalled | StDial nat | StReturned "DialErr option"

text \<open>
  \<open>ReSelect\<close>: waiting for the connection or the end. \<open>ReRetry\<close>: at the head of the inner loop.
  \<open>ReDial\<close>: in a dial. \<open>ReSleep\<close>: sleeping after a failure. \<open>RePanic\<close>: a nil connection.
\<close>

datatype RePc = ReNone | ReSelect | ReRetry | ReDial nat | ReSleep | ReEnd | RePanic

record Redial =
  rd_d :: Dialer
  rd_start :: StartPc
  rd_pc :: RePc

definition redial_new :: "(dialOptions \<Rightarrow> dialOptions) list \<Rightarrow> Redial" where
  "redial_new opts = \<lparr>rd_d = NewDialer opts, rd_start = StCalled, rd_pc = ReNone\<rparr>"

text \<open>A call of \<open>dial\<close>: the dialer with a new thread, and the thread.\<close>

definition call_dial :: "Dialer \<Rightarrow> Dialer \<times> nat" where
  "call_dial d = (d\<lparr>d_threads := d_threads d @ [DStart]\<rparr>, length (d_threads d))"

definition dial_ended :: "Dialer \<Rightarrow> nat \<Rightarrow> DialErr option \<Rightarrow> bool" where
  "dial_ended d i res \<longleftrightarrow> i < length (d_threads d) \<and> d_threads d ! i = DEnd res"

text \<open>The returns of \<open>Start\<close>: an error of the dial, or the reconnecting goroutine if the options ask for it.\<close>

inductive start_step :: "Redial \<Rightarrow> Redial \<Rightarrow> bool" where
  st_call: "rd_start r = StCalled \<Longrightarrow> call_dial (rd_d r) = (d, i) \<Longrightarrow> start_step r (r\<lparr>rd_d := d, rd_start := StDial i\<rparr>)"
| st_fail: "rd_start r = StDial i \<Longrightarrow> dial_ended (rd_d r) i (Some e) \<Longrightarrow> start_step r (r\<lparr>rd_start := StReturned (Some e)\<rparr>)"
| st_ok: "rd_start r = StDial i \<Longrightarrow> dial_ended (rd_d r) i None \<Longrightarrow>
    start_step r (r\<lparr>rd_start := StReturned None, rd_pc := (if retryInterval (d_opts (rd_d r)) > 0 then ReSelect else ReNone)\<rparr>)"

text \<open>The select reads \<^verbatim>\<open>d.conn\<close> before it waits.\<close>

inductive re_step :: "Redial \<Rightarrow> Redial \<Rightarrow> bool" where
  re_nil: "rd_pc r = ReSelect \<Longrightarrow> d_conn (rd_d r) = None \<Longrightarrow> re_step r (r\<lparr>rd_pc := RePanic\<rparr>)"
| re_closed: "rd_pc r = ReSelect \<Longrightarrow> d_conn (rd_d r) = Some c \<Longrightarrow> c \<notin> d_open (rd_d r) \<Longrightarrow> re_step r (r\<lparr>rd_pc := ReRetry\<rparr>)"
| re_quit: "rd_pc r = ReSelect \<Longrightarrow> d_conn (rd_d r) = Some c \<Longrightarrow> Event_HasFired (d_quit (rd_d r)) \<Longrightarrow> re_step r (r\<lparr>rd_pc := ReEnd\<rparr>)"
| re_retry_quit: "rd_pc r = ReRetry \<Longrightarrow> Event_HasFired (d_quit (rd_d r)) \<Longrightarrow> re_step r (r\<lparr>rd_pc := ReEnd\<rparr>)"
| re_dial: "rd_pc r = ReRetry \<Longrightarrow> \<not> Event_HasFired (d_quit (rd_d r)) \<Longrightarrow> call_dial (rd_d r) = (d, i) \<Longrightarrow>
    re_step r (r\<lparr>rd_d := d, rd_pc := ReDial i\<rparr>)"
| re_failed: "rd_pc r = ReDial i \<Longrightarrow> dial_ended (rd_d r) i (Some e) \<Longrightarrow> re_step r (r\<lparr>rd_pc := ReSleep\<rparr>)"
| re_sleep: "rd_pc r = ReSleep \<Longrightarrow> re_step r (r\<lparr>rd_pc := ReRetry\<rparr>)"
| re_again: "rd_pc r = ReDial i \<Longrightarrow> dial_ended (rd_d r) i None \<Longrightarrow> re_step r (r\<lparr>rd_pc := ReSelect\<rparr>)"

inductive redial_reach :: "(dialOptions \<Rightarrow> dialOptions) list \<Rightarrow> Redial \<Rightarrow> bool" for opts where
  rd_init: "redial_reach opts (redial_new opts)"
| rd_other: "redial_reach opts r \<Longrightarrow> dial_step (rd_d r) d \<Longrightarrow> redial_reach opts (r\<lparr>rd_d := d\<rparr>)"
| rd_starts: "redial_reach opts r \<Longrightarrow> start_step r r' \<Longrightarrow> redial_reach opts r'"
| rd_redials: "redial_reach opts r \<Longrightarrow> re_step r r' \<Longrightarrow> redial_reach opts r'"

section \<open>Invariant\<close>

text \<open>A dial that returned without an error has left a connection, which is never taken away.\<close>

definition ended_conn :: "Dialer \<Rightarrow> bool" where
  "ended_conn d \<longleftrightarrow> (DEnd None \<in> set (d_threads d) \<longrightarrow> d_conn d \<noteq> None)"

lemma conn_stays: "dial_step d e \<Longrightarrow> d_conn d \<noteq> None \<Longrightarrow> d_conn e \<noteq> None"
  by (induction rule: dial_step.induct)
    (auto simp: goto_def setState_def doNotify_def closeConn_def getNotify_def delNotify_def Dialer_Shutdown_def Let_def
      split: Option.bind_splits if_splits option.splits)

lemma set_update_mem: "x \<in> set (xs[i := y]) \<Longrightarrow> x = y \<or> x \<in> set xs"
  using set_update_subset_insert [of xs i y] by blast

lemma ended_conn_step:
  assumes "dial_step d e" "dial_inv d" "ended_conn d"
  shows "ended_conn e"
  using assms
proof (induction rule: dial_step.induct)
  case (entry i d)
  then show ?case
    by (cases "d_state d") (auto simp: dial_inv_def ended_conn_def goto_def dest!: set_update_mem)
next
  case (ready i d c)
  then have "list_ex has_conn (d_threads d)" by (intro list_ex_nth) (auto simp: has_conn_def)
  with ready show ?case by (auto simp: dial_inv_def ended_conn_def goto_def setState_def doNotify_def)
qed (auto simp: ended_conn_def goto_def setState_def doNotify_def closeConn_def getNotify_def delNotify_def Dialer_Shutdown_def Let_def
    dest!: set_update_mem split: Option.bind_splits if_splits option.splits)

definition redial_inv :: "Redial \<Rightarrow> bool" where
  "redial_inv r \<longleftrightarrow> dial_inv (rd_d r) \<and> ended_conn (rd_d r) \<and> rd_pc r \<noteq> RePanic \<and>
     (rd_pc r \<noteq> ReNone \<longrightarrow> d_conn (rd_d r) \<noteq> None)"

lemma call_dial_inv:
  assumes "call_dial d = (e, i)"
  shows "dial_inv d \<Longrightarrow> dial_inv e" "ended_conn d \<Longrightarrow> ended_conn e" "d_conn e = d_conn d"
  using assms dial_step_inv [OF dial_step.call [of d]] by (auto simp: call_dial_def ended_conn_def)

lemma ended_has_conn: "dial_ended d i None \<Longrightarrow> ended_conn d \<Longrightarrow> d_conn d \<noteq> None"
  unfolding dial_ended_def ended_conn_def by (metis nth_mem)

lemma redial_reach_inv: "redial_reach opts r \<Longrightarrow> redial_inv r"
proof (induction rule: redial_reach.induct)
  case rd_init
  show ?case by (simp add: redial_inv_def redial_new_def dial_inv_init) (simp add: ended_conn_def NewDialer_def)
next
  case (rd_other r d)
  then show ?case using dial_step_inv [of "rd_d r" d] ended_conn_step [of "rd_d r" d] conn_stays [of "rd_d r" d]
    by (auto simp: redial_inv_def)
next
  case (rd_starts r r')
  from rd_starts.hyps(2) rd_starts.IH show ?case by (induction rule: start_step.induct) (auto simp: redial_inv_def call_dial_inv dest: ended_has_conn)
next
  case (rd_redials r r')
  from rd_redials.hyps(2) rd_redials.IH show ?case by (induction rule: re_step.induct) (auto simp: redial_inv_def call_dial_inv dest: ended_has_conn)
qed

section \<open>Properties\<close>

text \<open>
  The reconnecting goroutine never reads a nil connection, whatever the other goroutines do.
\<close>

theorem redial_safe:
  assumes "redial_reach opts r"
  shows "rd_pc r \<noteq> RePanic \<and> (\<forall>r'. re_step r r' \<longrightarrow> rd_pc r' \<noteq> RePanic)"
  using redial_reach_inv [OF assms] redial_reach_inv [OF rd_redials [OF assms]] by (auto simp: redial_inv_def)

text \<open>
  After a shutdown the goroutine ends: outside of a dial it can always go on, every step of its own
  brings it nearer to the end, and none of them begins another dial; a dial it is in when the shutdown comes is
  its last.
\<close>

fun re_rank :: "RePc \<Rightarrow> nat" where
  "re_rank (ReDial i) = 3"
| "re_rank ReSelect = 2"
| "re_rank ReSleep = 2"
| "re_rank ReRetry = 1"
| "re_rank _ = 0"

theorem redial_ends:
  assumes "redial_reach opts r" "Event_HasFired (d_quit (rd_d r))"
  shows "rd_pc r \<in> {ReSelect, ReRetry, ReSleep} \<longrightarrow> (\<exists>r'. re_step r r')"
    and "re_step r r' \<Longrightarrow> re_rank (rd_pc r') < re_rank (rd_pc r) \<and> rd_d r' = rd_d r"
    and "rd_pc r \<in> {ReSelect, ReRetry, ReSleep} \<Longrightarrow> \<exists>r'. re_step\<^sup>*\<^sup>* r r' \<and> rd_pc r' = ReEnd"
proof -
  obtain c where c: "d_conn (rd_d r) = Some c" if "rd_pc r \<noteq> ReNone"
    using redial_reach_inv [OF assms(1)] by (auto simp: redial_inv_def)
  show "rd_pc r \<in> {ReSelect, ReRetry, ReSleep} \<longrightarrow> (\<exists>r'. re_step r r')"
    using c assms(2) re_quit [of r] re_retry_quit [of r] re_sleep [of r] by auto
  show "re_step r r' \<Longrightarrow> re_rank (rd_pc r') < re_rank (rd_pc r) \<and> rd_d r' = rd_d r"
    using assms(2) by (elim re_step.cases) auto
  have retry: "re_step s (s\<lparr>rd_pc := ReEnd\<rparr>)" if "rd_pc s = ReRetry" "Event_HasFired (d_quit (rd_d s))" for s
    using that by (rule re_retry_quit)
  show "rd_pc r \<in> {ReSelect, ReRetry, ReSleep} \<Longrightarrow> \<exists>r'. re_step\<^sup>*\<^sup>* r r' \<and> rd_pc r' = ReEnd"
  proof (elim insertE emptyE)
    assume "rd_pc r = ReSelect"
    then show ?thesis using re_quit [of r c] c assms(2) by (intro exI [of _ "r\<lparr>rd_pc := ReEnd\<rparr>"]) auto
  next
    assume "rd_pc r = ReRetry"
    then show ?thesis using retry [of r] assms(2) by (intro exI [of _ "r\<lparr>rd_pc := ReEnd\<rparr>"]) auto
  next
    assume "rd_pc r = ReSleep"
    then have "re_step r (r\<lparr>rd_pc := ReRetry\<rparr>)" "re_step (r\<lparr>rd_pc := ReRetry\<rparr>) (r\<lparr>rd_pc := ReEnd\<rparr>)"
      using re_sleep [of r] retry [of "r\<lparr>rd_pc := ReRetry\<rparr>"] assms(2) by simp_all
    then show ?thesis by (intro exI [of _ "r\<lparr>rd_pc := ReEnd\<rparr>"]) (auto intro: rtranclp.rtrancl_into_rtrancl)
  qed
qed

text \<open>
  The state is read and then set in two steps, so two goroutines may dial at once: both succeed, the
  connection of the first is replaced by that of the second, and a shutdown closes the second only.
\<close>

theorem dialer_two_dials:
  "\<exists>d e. dial_reach [] d \<and> d_threads d = [DEnd None, DEnd None] \<and> d_state d = Ready \<and> d_open d = {0, 1} \<and> d_conn d = Some 1 \<and>
     Dialer_Shutdown d = Some (e, True) \<and> d_open e = {0}"
proof -
  let ?n = "NewDialer []"
  let ?t = "\<lambda>st ts. ?n\<lparr>d_state := st, d_threads := ts\<rparr>"
  let ?p = "\<lambda>st ts. ?n\<lparr>d_state := st, d_threads := ts, d_conn := Some 0, d_open := {0}, d_fresh := 1\<rparr>"
  let ?q = "\<lambda>st ts. ?n\<lparr>d_state := st, d_threads := ts, d_conn := Some 1, d_open := {0, 1}, d_fresh := 2\<rparr>"
  note more = dial_reach.dial_more
  note defs = NewDialer_def goto_def setState_def isInState_def doNotify_def
  have "dial_reach [] (?t Idle [DStart])" using more [OF dial_reach.dial_init dial_step.call [of ?n]] by (simp add: defs)
  from more [OF this dial_step.call] have "dial_reach [] (?t Idle [DStart, DStart])" by (simp add: defs)
  from more [OF this dial_step.entry [of 0]] have "dial_reach [] (?t Idle [DSet, DStart])" by (simp add: defs)
  from more [OF this dial_step.entry [of 1]] have "dial_reach [] (?t Idle [DSet, DSet])" by (simp add: defs)
  from more [OF this dial_step.connecting [of 0]] have "dial_reach [] (?t Connecting [DDial, DSet])" by (simp add: defs)
  from more [OF this dial_step.connecting [of 1]] have "dial_reach [] (?t Connecting [DDial, DDial])" by (simp add: defs)
  from more [OF this dial_step.dial_ok [of 0]] have "dial_reach [] (?t Connecting [DCheck, DDial])" by (simp add: defs)
  from more [OF this dial_step.dial_ok [of 1]] have "dial_reach [] (?t Connecting [DCheck, DCheck])" by (simp add: defs)
  from more [OF this dial_step.check [of 0]] have "dial_reach [] (?t Connecting [DConn, DCheck])" by (simp add: defs)
  from more [OF this dial_step.check [of 1]] have "dial_reach [] (?t Connecting [DConn, DConn])" by (simp add: defs)
  from more [OF this dial_step.publish [of 0]] have "dial_reach [] (?p Connecting [DInit 0, DConn])" by (simp add: defs)
  from more [OF this dial_step.init_ok [of 0 _ 0]] have "dial_reach [] (?p Connecting [DReady 0, DConn])" by (simp add: defs)
  from more [OF this dial_step.ready [of 0 _ 0]] have "dial_reach [] (?p Ready [DEnd None, DConn])" by (simp add: defs)
  from more [OF this dial_step.publish [of 1]] have "dial_reach [] (?q Ready [DEnd None, DInit 1])" by (simp add: defs insert_commute numeral_2_eq_2)
  from more [OF this dial_step.init_ok [of 1 _ 1]] have "dial_reach [] (?q Ready [DEnd None, DReady 1])" by (simp add: defs)
  from more [OF this dial_step.ready [of 1 _ 1]] have z: "dial_reach [] (?q Ready [DEnd None, DEnd None])" by (simp add: defs)
  have "\<exists>e. Dialer_Shutdown (?q Ready [DEnd None, DEnd None]) = Some (e, True) \<and> d_open e = {0}"
    by (simp add: Dialer_Shutdown_def defs NewEvent_def Event_Fire_def closeConn_def Let_def) auto
  then obtain e where e: "Dialer_Shutdown (?q Ready [DEnd None, DEnd None]) = Some (e, True)" "d_open e = {0}" by blast
  show ?thesis
    by (rule exI [of _ "?q Ready [DEnd None, DEnd None]"], rule exI [of _ e], intro conjI) (rule z e | simp)+
qed

end
