(* ===== verification/DialSend.thy ===== *)
theory DialSend
  imports Redial
begin

text \<open>
  \<open>Send\<close> of \<^verbatim>\<open>src/common/network/dialer.go\<close> as goroutines: any number of them run beside the dials, the
  reconnecting goroutine and a shutdown, each reading the state, sending, waiting for the dial in
  progress or dialling itself. The channel a waiting \<open>Send\<close> registers has no buffer: the notification
  of a dial reaches the goroutine only while it is in its select.
\<close>

section \<open>The goroutines\<close>

text \<open>
  \<open>SdRegister\<close>: read that a dial is in progress. \<open>SdNotify c\<close>: registered the channel \<open>c\<close>, not yet in the
  select. \<open>SdSelect c\<close>: in it. \<open>SdGot\<close>: told the result. \<open>SdDial i\<close>: in its own dial, thread \<open>i\<close>. \<open>SdOn\<close>: about
  to send on the connection.
\<close>

datatype SendPc =
    SdCalled | SdRegister | SdNotify nat | SdSelect nat | SdGot "DialErr option" | SdDial nat | SdOn
  | SdRet "DialErr option" | SdPanic

text \<open>\<open>ds_wire\<close> records which \<open>Send\<close> gave its bytes to which connection; \<open>ds_chan\<close> numbers the channels.\<close>

record DialSends =
  ds_d :: Dialer
  ds_sends :: "SendPc list"
  ds_chan :: nat
  ds_wire :: "(nat \<times> nat) list"

definition ds_new :: "(dialOptions \<Rightarrow> dialOptions) list \<Rightarrow> DialSends" where
  "ds_new opts = \<lparr>ds_d = NewDialer opts, ds_sends = [], ds_chan = 0, ds_wire = []\<rparr>"

definition sd_goto :: "nat \<Rightarrow> SendPc \<Rightarrow> DialSends \<Rightarrow> DialSends" where
  "sd_goto i pc x = x\<lparr>ds_sends := (ds_sends x)[i := pc]\<rparr>"

text \<open>The results offered by a step of the dialer, and what a goroutine hears of them.\<close>

definition offered :: "Dialer \<Rightarrow> Dialer \<Rightarrow> (nat \<times> DialErr option) list" where
  "offered d e = drop (length (d_told d)) (d_told e)"

fun hear :: "(nat \<times> DialErr option) list \<Rightarrow> SendPc \<Rightarrow> SendPc" where
  "hear ts (SdSelect c) = (case map_of ts c of None \<Rightarrow> SdSelect c | Some err \<Rightarrow> SdGot err)"
| "hear ts pc = pc"

text \<open>The branch \<open>Send\<close> takes in the state it reads.\<close>

definition Send_read :: "nat \<Rightarrow> DialSends \<Rightarrow> DialSends" where
  "Send_read i x =
     (case d_state (ds_d x) of
        Ready \<Rightarrow> sd_goto i SdOn x
      | Connecting \<Rightarrow> sd_goto i SdRegister x
      | Shutdown \<Rightarrow> sd_goto i (SdRet (Some AlreadyShutdown)) x
      | _ \<Rightarrow> (case call_dial (ds_d x) of (d, j) \<Rightarrow> sd_goto i (SdDial j) (x\<lparr>ds_d := d\<rparr>)))"

definition Send_conn :: "nat \<Rightarrow> DialSends \<Rightarrow> DialSends" where
  "Send_conn i x =
     (case d_conn (ds_d x) of
        None \<Rightarrow> sd_goto i SdPanic x
      | Some c \<Rightarrow> sd_goto i (SdRet None) (x\<lparr>ds_wire := ds_wire x @ [(c, i)]\<rparr>))"

text \<open>What \<open>Send\<close> does with the result of a dial, its own or the one it was told.\<close>

fun after_dial :: "DialErr option \<Rightarrow> SendPc" where
  "after_dial None = SdOn"
| "after_dial (Some e) = SdRet (Some e)"

abbreviation sd_at :: "nat \<Rightarrow> SendPc \<Rightarrow> DialSends \<Rightarrow> bool" where
  "sd_at i pc x \<equiv> i < length (ds_sends x) \<and> ds_sends x ! i = pc"

inductive send_step :: "DialSends \<Rightarrow> DialSends \<Rightarrow> bool" where
  sd_call: "send_step x (x\<lparr>ds_sends := ds_sends x @ [SdCalled]\<rparr>)"
| sd_read: "sd_at i SdCalled x \<Longrightarrow> send_step x (Send_read i x)"
| sd_register: "sd_at i SdRegister x \<Longrightarrow>
    send_step x (sd_goto i (SdNotify (ds_chan x)) (x\<lparr>ds_d := getNotify (ds_chan x) (ds_d x), ds_chan := Suc (ds_chan x)\<rparr>))"
| sd_select: "sd_at i (SdNotify c) x \<Longrightarrow> send_step x (sd_goto i (SdSelect c) x)"
| sd_timeout: "sd_at i (SdSelect c) x \<Longrightarrow>
    send_step x (sd_goto i (SdRet (Some ConnectTimeout)) (x\<lparr>ds_d := delNotify c (ds_d x)\<rparr>))"
| sd_got: "sd_at i (SdGot err) x \<Longrightarrow> send_step x (sd_goto i (after_dial err) x)"
| sd_dialed: "sd_at i (SdDial j) x \<Longrightarrow> dial_ended (ds_d x) j err \<Longrightarrow> send_step x (sd_goto i (after_dial err) x)"
| sd_on: "sd_at i SdOn x \<Longrightarrow> send_step x (Send_conn i x)"
| sd_other: "dial_step (ds_d x) d \<Longrightarrow> d_notifys d = d_notifys (ds_d x) \<or> d_told d \<noteq> d_told (ds_d x) \<Longrightarrow>
    send_step x (x\<lparr>ds_d := d, ds_sends := map (hear (offered (ds_d x) d)) (ds_sends x)\<rparr>)"

inductive send_reach :: "(dialOptions \<Rightarrow> dialOptions) list \<Rightarrow> DialSends \<Rightarrow> bool" for opts where
  sd_init: "send_reach opts (ds_new opts)"
| sd_more: "send_reach opts x \<Longrightarrow> send_step x y \<Longrightarrow> send_reach opts y"

section \<open>Invariant\<close>

definition needs_conn :: "SendPc \<Rightarrow> bool" where
  "needs_conn pc \<longleftrightarrow> pc = SdOn \<or> pc = SdGot None"

text \<open>A \<open>Send\<close> that has returned without an error has written once, any other one not yet.\<close>

definition written :: "DialSends \<Rightarrow> nat \<Rightarrow> nat" where
  "written x i = length (filter (\<lambda>w. snd w = i) (ds_wire x))"

definition sends_inv :: "DialSends \<Rightarrow> bool" where
  "sends_inv x \<longleftrightarrow> dial_inv (ds_d x) \<and> ended_conn (ds_d x) \<and> SdPanic \<notin> set (ds_sends x) \<and>
     ((\<exists>pc \<in> set (ds_sends x). needs_conn pc) \<longrightarrow> d_conn (ds_d x) \<noteq> None) \<and>
     (\<forall>i. written x i = (if i < length (ds_sends x) \<and> ds_sends x ! i = SdRet None then 1 else 0)) \<and>
     (\<forall>w \<in> set (ds_wire x). fst w < d_fresh (ds_d x))"

text \<open>A dial tells of success only when it has published a connection.\<close>

lemma offered_success:
  assumes "dial_step d e" "dial_inv d" "(c, None) \<in> set (offered d e)"
  shows "d_conn e \<noteq> None"
  using assms
proof (induction rule: dial_step.induct)
  case (ready i d k)
  then have "list_ex has_conn (d_threads d)" by (intro list_ex_nth) (auto simp: has_conn_def)
  with ready show ?case by (auto simp: dial_inv_def goto_def setState_def doNotify_def)
qed (auto simp: offered_def goto_def setState_def doNotify_def closeConn_def getNotify_def delNotify_def Dialer_Shutdown_def Let_def
    split: Option.bind_splits if_splits option.splits)

lemma dial_step_fresh: "dial_step d e \<Longrightarrow> d_fresh d \<le> d_fresh e"
  by (induction rule: dial_step.induct)
    (auto simp: goto_def setState_def doNotify_def closeConn_def getNotify_def delNotify_def Dialer_Shutdown_def Let_def
      split: Option.bind_splits if_splits option.splits)

lemma hear_simps [simp]:
  "hear ts pc = SdRet e \<longleftrightarrow> pc = SdRet e" "hear ts pc = SdPanic \<longleftrightarrow> pc = SdPanic" "hear ts pc = SdOn \<longleftrightarrow> pc = SdOn"
  "SdRet e = hear ts pc \<longleftrightarrow> pc = SdRet e" "SdPanic = hear ts pc \<longleftrightarrow> pc = SdPanic" "SdOn = hear ts pc \<longleftrightarrow> pc = SdOn"
  by (cases pc; auto split: option.splits)+

lemma hear_needs_conn: "needs_conn (hear ts pc) \<Longrightarrow> needs_conn pc \<or> (\<exists>c. (c, None) \<in> set ts)"
  by (cases pc) (auto simp: needs_conn_def split: option.splits dest: map_of_SomeD)

lemma sends_inv_goto:
  assumes inv: "sends_inv x" and i: "sd_at i old x" "old \<noteq> SdRet None"
    and pc: "pc \<noteq> SdRet None" "pc \<noteq> SdPanic" "needs_conn pc \<longrightarrow> d_conn (ds_d x) \<noteq> None"
  shows "sends_inv (sd_goto i pc x)"
proof -
  have "set ((ds_sends x)[i := pc]) \<subseteq> insert pc (set (ds_sends x))" by (rule set_update_subset_insert)
  moreover have "written (sd_goto i pc x) k = written x k" for k by (simp add: written_def sd_goto_def)
  ultimately show ?thesis using inv i pc unfolding sends_inv_def
    by (auto simp: sd_goto_def nth_list_update split: if_splits)
qed

text \<open>A change of the dialer that keeps its invariant and its connection.\<close>

lemma sends_inv_dialer:
  assumes "sends_inv x" "dial_inv d" "ended_conn d" "d_conn d = d_conn (ds_d x)" "d_fresh d = d_fresh (ds_d x)"
  shows "sends_inv (x\<lparr>ds_d := d, ds_chan := n\<rparr>)"
  using assms by (simp add: sends_inv_def written_def)

lemma sends_inv_dialer': "sends_inv x \<Longrightarrow> dial_inv d \<Longrightarrow> ended_conn d \<Longrightarrow> d_conn d = d_conn (ds_d x) \<Longrightarrow>
    d_fresh d = d_fresh (ds_d x) \<Longrightarrow> sends_inv (x\<lparr>ds_d := d\<rparr>)"
  using sends_inv_dialer [of x d "ds_chan x"] by simp

lemma notify_inv:
  "dial_inv (getNotify c d) = dial_inv d" "ended_conn (getNotify c d) = ended_conn d"
  "dial_inv (delNotify c d) = dial_inv d" "ended_conn (delNotify c d) = ended_conn d"
  "d_conn (getNotify c d) = d_conn d" "d_fresh (getNotify c d) = d_fresh d"
  "d_conn (delNotify c d) = d_conn d" "d_fresh (delNotify c d) = d_fresh d"
  by (simp_all add: getNotify_def delNotify_def dial_inv_def ended_conn_def)

lemma Send_read_inv:
  assumes inv: "sends_inv x" and i: "sd_at i SdCalled x"
  shows "sends_inv (Send_read i x)"
proof -
  note go = sends_inv_goto [OF inv i]
  have d: "dial_inv (ds_d x)" "ended_conn (ds_d x)" using inv by (simp_all add: sends_inv_def)
  obtain e j where e: "call_dial (ds_d x) = (e, j)" by fastforce
  have "sends_inv (x\<lparr>ds_d := e\<rparr>)"
    using call_dial_inv [OF e] d e by (intro sends_inv_dialer' [OF inv]) (auto simp: call_dial_def)
  then have dial: "sends_inv (sd_goto i (SdDial j) (x\<lparr>ds_d := e\<rparr>))"
    using i by (intro sends_inv_goto [of _ i SdCalled]) (simp_all add: needs_conn_def)
  have "d_conn (ds_d x) \<noteq> None" if "d_state (ds_d x) = Ready" using d that by (simp add: dial_inv_def)
  then show ?thesis using dial e go by (cases "d_state (ds_d x)") (simp_all add: Send_read_def needs_conn_def)
qed

lemma Send_conn_inv:
  assumes inv: "sends_inv x" and i: "sd_at i SdOn x"
  shows "sends_inv (Send_conn i x)"
proof -
  have "needs_conn SdOn" "SdOn \<in> set (ds_sends x)" using i by (auto simp: needs_conn_def in_set_conv_nth)
  then obtain c where c: "d_conn (ds_d x) = Some c" using inv unfolding sends_inv_def by blast
  have w: "written (sd_goto i (SdRet None) (x\<lparr>ds_wire := ds_wire x @ [(c, i)]\<rparr>)) k = (if k = i then Suc (written x k) else written x k)" for k
    by (simp add: written_def sd_goto_def)
  have "written x i = 0" using inv i by (simp add: sends_inv_def)
  then show ?thesis using inv i c w set_update_subset_insert [of "ds_sends x" i "SdRet None"]
    by (auto simp: Send_conn_def sends_inv_def sd_goto_def nth_list_update dial_inv_def needs_conn_def)
qed

lemma sd_other_inv:
  assumes inv: "sends_inv x" and d: "dial_step (ds_d x) d"
  shows "sends_inv (x\<lparr>ds_d := d, ds_sends := map (hear (offered (ds_d x) d)) (ds_sends x)\<rparr>)"
proof -
  let ?h = "hear (offered (ds_d x) d)"
  have di: "dial_inv (ds_d x)" "ended_conn (ds_d x)" using inv by (simp_all add: sends_inv_def)
  have "d_conn d \<noteq> None" if "pc \<in> set (ds_sends x)" "needs_conn (?h pc)" for pc
    using hear_needs_conn [OF that(2)] that(1) inv conn_stays [OF d] offered_success [OF d di(1)]
    unfolding sends_inv_def by blast
  moreover have "d_fresh (ds_d x) \<le> d_fresh d" using dial_step_fresh [OF d] .
  ultimately show ?thesis
    using inv dial_step_inv [OF d di(1)] ended_conn_step [OF d di]
    by (force simp: sends_inv_def written_def)
qed

lemma send_step_inv: "send_step x y \<Longrightarrow> sends_inv x \<Longrightarrow> sends_inv y"
proof (induction rule: send_step.induct)
  case (sd_call x)
  then show ?case by (auto simp: sends_inv_def written_def nth_append needs_conn_def)
next
  case (sd_read i x)
  then show ?case by (simp add: Send_read_inv)
next
  case (sd_register i x)
  have "sends_inv (x\<lparr>ds_d := getNotify (ds_chan x) (ds_d x), ds_chan := Suc (ds_chan x)\<rparr>)"
    using sd_register.prems by (intro sends_inv_dialer) (auto simp: notify_inv sends_inv_def)
  then show ?case using sd_register.hyps by (intro sends_inv_goto [of _ i SdRegister]) (simp_all add: needs_conn_def)
next
  case (sd_select i c x)
  then show ?case by (intro sends_inv_goto [of _ i "SdNotify c"]) (simp_all add: needs_conn_def)
next
  case (sd_timeout i c x)
  have "sends_inv (x\<lparr>ds_d := delNotify c (ds_d x)\<rparr>)"
    using sd_timeout.prems by (intro sends_inv_dialer') (auto simp: notify_inv sends_inv_def)
  then show ?case using sd_timeout.hyps by (intro sends_inv_goto [of _ i "SdSelect c"]) (simp_all add: needs_conn_def)
next
  case (sd_got i err x)
  have "SdGot err \<in> set (ds_sends x)" using sd_got.hyps by (auto simp: in_set_conv_nth)
  then have "err = None \<longrightarrow> d_conn (ds_d x) \<noteq> None"
    using sd_got.prems unfolding sends_inv_def needs_conn_def by blast
  then show ?case using sd_got by (intro sends_inv_goto [of _ i "SdGot err"]; cases err) (simp_all add: needs_conn_def)
next
  case (sd_dialed i j x err)
  have "err = None \<longrightarrow> d_conn (ds_d x) \<noteq> None"
    using sd_dialed ended_has_conn [of "ds_d x" j] by (auto simp: sends_inv_def)
  then show ?case using sd_dialed by (intro sends_inv_goto [of _ i "SdDial j"]; cases err) (simp_all add: needs_conn_def)
next
  case (sd_on i x)
  then show ?case by (simp add: Send_conn_inv)
next
  case (sd_other x d)
  then show ?case by (simp add: sd_other_inv)
qed

lemma send_reach_inv: "send_reach opts x \<Longrightarrow> sends_inv x"
proof (induction rule: send_reach.induct)
  case sd_init
  show ?case by (simp add: sends_inv_def ds_new_def dial_inv_init written_def) (simp add: ended_conn_def NewDialer_def)
qed (auto intro: send_step_inv)

section \<open>Properties\<close>


text \<open>A ready dialer, and a \<open>Send\<close> that finds it so.\<close>

definition ex_ready :: Dialer where
  "ex_ready = (NewDialer [])\<lparr>d_state := Ready, d_conn := Some 0, d_open := {0}, d_fresh := 1, d_threads := [DEnd None]\<rparr>"

definition ex_sent :: DialSends where
  "ex_sent = \<lparr>ds_d = ex_ready, ds_sends = [SdRet None], ds_chan = 0, ds_wire = [(0, 0)]\<rparr>"

text \<open>A dial that runs while the sends do what \<open>f\<close> says.\<close>

lemma sd_other_same:
  assumes "send_reach opts x" "dial_step (ds_d x) d" "d_notifys d = d_notifys (ds_d x)" "d_told d = d_told (ds_d x)"
  shows "send_reach opts (x\<lparr>ds_d := d\<rparr>)"
proof -
  have "hear [] pc = pc" for pc by (cases pc) auto
  then have "x\<lparr>ds_d := d\<rparr> = x\<lparr>ds_d := d, ds_sends := map (hear (offered (ds_d x) d)) (ds_sends x)\<rparr>"
    using assms(4) by (simp add: offered_def map_idI)
  moreover have "send_step x (x\<lparr>ds_d := d, ds_sends := map (hear (offered (ds_d x) d)) (ds_sends x)\<rparr>)"
    using assms(2,3) by (intro send_step.sd_other) simp_all
  ultimately show ?thesis using send_reach.sd_more [OF assms(1)] by simp
qed

lemma ex_dialling:
  "send_reach [] \<lparr>ds_d = (NewDialer [])\<lparr>d_state := Connecting, d_threads := [DDial]\<rparr>, ds_sends = [SdCalled], ds_chan = 0, ds_wire = []\<rparr>"
proof -
  note defs = NewDialer_def goto_def setState_def
  let ?x = "\<lambda>d. \<lparr>ds_d = d, ds_sends = [SdCalled], ds_chan = 0, ds_wire = []\<rparr>"
  have "send_reach [] (?x (NewDialer []))"
    using send_reach.sd_more [OF send_reach.sd_init send_step.sd_call, of "[]"] by (simp add: ds_new_def)
  from sd_other_same [OF this, of "(NewDialer [])\<lparr>d_threads := [DStart]\<rparr>"] dial_step.call [of "NewDialer []"]
  have "send_reach [] (?x ((NewDialer [])\<lparr>d_threads := [DStart]\<rparr>))" by (simp add: defs)
  from sd_other_same [OF this, of "(NewDialer [])\<lparr>d_threads := [DSet]\<rparr>"] dial_step.entry [of 0 "(NewDialer [])\<lparr>d_threads := [DStart]\<rparr>"]
  have "send_reach [] (?x ((NewDialer [])\<lparr>d_threads := [DSet]\<rparr>))" by (simp add: defs)
  from sd_other_same [OF this, of "(NewDialer [])\<lparr>d_state := Connecting, d_threads := [DDial]\<rparr>"]
    dial_step.connecting [of 0 "(NewDialer [])\<lparr>d_threads := [DSet]\<rparr>"]
  show ?thesis by (simp add: defs)
qed

lemma dial_completes:
  assumes "send_reach [] x" "ds_d x = (NewDialer [])\<lparr>d_state := Connecting, d_threads := [DDial], d_notifys := ns\<rparr>"
  shows "send_reach [] (x\<lparr>ds_d := ex_ready\<lparr>d_told := map (\<lambda>c. (c, None)) ns\<rparr>,
    ds_sends := map (hear (map (\<lambda>c. (c, None)) ns)) (ds_sends x)\<rparr>)"
proof -
  let ?d = "(NewDialer [])\<lparr>d_state := Connecting, d_notifys := ns\<rparr>"
  let ?p = "?d\<lparr>d_conn := Some 0, d_open := {0}, d_fresh := 1\<rparr>"
  note defs = NewDialer_def goto_def setState_def isInState_def
  from sd_other_same [OF assms(1), of "?d\<lparr>d_threads := [DCheck]\<rparr>"] dial_step.dial_ok [of 0 "ds_d x"]
  have "send_reach [] (x\<lparr>ds_d := ?d\<lparr>d_threads := [DCheck]\<rparr>\<rparr>)" by (simp add: assms(2) defs)
  from sd_other_same [OF this, of "?d\<lparr>d_threads := [DConn]\<rparr>"] dial_step.check [of 0 "?d\<lparr>d_threads := [DCheck]\<rparr>"]
  have "send_reach [] (x\<lparr>ds_d := ?d\<lparr>d_threads := [DConn]\<rparr>\<rparr>)" by (simp add: defs)
  from sd_other_same [OF this, of "?p\<lparr>d_threads := [DInit 0]\<rparr>"] dial_step.publish [of 0 "?d\<lparr>d_threads := [DConn]\<rparr>"]
  have "send_reach [] (x\<lparr>ds_d := ?p\<lparr>d_threads := [DInit 0]\<rparr>\<rparr>)" by (simp add: defs)
  from sd_other_same [OF this, of "?p\<lparr>d_threads := [DReady 0]\<rparr>"] dial_step.init_ok [of 0 "?p\<lparr>d_threads := [DInit 0]\<rparr>" 0]
  have r: "send_reach [] (x\<lparr>ds_d := ?p\<lparr>d_threads := [DReady 0]\<rparr>\<rparr>)" by (simp add: defs)
  let ?e = "goto 0 (DEnd None) (doNotify None (setState Ready (?p\<lparr>d_threads := [DReady 0]\<rparr>)))"
  have e: "?e = ex_ready\<lparr>d_told := map (\<lambda>c. (c, None)) ns\<rparr>" by (simp add: ex_ready_def defs doNotify_def)
  have "dial_step (?p\<lparr>d_threads := [DReady 0]\<rparr>) ?e" by (rule dial_step.ready [of 0 _ 0]) (simp_all add: defs)
  moreover have "d_notifys ?e = d_notifys (?p\<lparr>d_threads := [DReady 0]\<rparr>) \<or> d_told ?e \<noteq> d_told (?p\<lparr>d_threads := [DReady 0]\<rparr>)"
    by (auto simp: defs doNotify_def)
  ultimately have "send_step (x\<lparr>ds_d := ?p\<lparr>d_threads := [DReady 0]\<rparr>\<rparr>)
      (x\<lparr>ds_d := ?e, ds_sends := map (hear (offered (?p\<lparr>d_threads := [DReady 0]\<rparr>) ?e)) (ds_sends x)\<rparr>)"
    using send_step.sd_other [of "x\<lparr>ds_d := ?p\<lparr>d_threads := [DReady 0]\<rparr>\<rparr>" ?e] by simp
  moreover have "offered (?p\<lparr>d_threads := [DReady 0]\<rparr>) ?e = map (\<lambda>c. (c, None)) ns"
    by (simp add: offered_def defs doNotify_def)
  ultimately show ?thesis using send_reach.sd_more [OF r] unfolding e by simp
qed


text \<open>
  A \<open>Send\<close> can miss the end of the dial it waits for: when the dial succeeds after the \<open>Send\<close> has
  registered its channel and before it is in its select, the notification is dropped. The dialer is then
  ready, and the only thing that can happen to the \<open>Send\<close> is its timeout.
\<close>

theorem send_notification_missed:
  "\<exists>x. send_reach [] x \<and> d_state (ds_d x) = Ready \<and> ds_sends x = [SdSelect 0] \<and> 0 \<notin> set (d_notifys (ds_d x)) \<and> 0 < ds_chan x"
proof -
  have "send_reach [] \<lparr>ds_d = (NewDialer [])\<lparr>d_state := Connecting, d_threads := [DDial]\<rparr>, ds_sends = [SdRegister], ds_chan = 0, ds_wire = []\<rparr>"
    using send_reach.sd_more [OF ex_dialling send_step.sd_read [of 0]] by (simp add: Send_read_def sd_goto_def)
  from send_reach.sd_more [OF this send_step.sd_register [of 0]]
  have "send_reach [] \<lparr>ds_d = (NewDialer [])\<lparr>d_state := Connecting, d_threads := [DDial], d_notifys := [0]\<rparr>, ds_sends = [SdNotify 0], ds_chan = 1, ds_wire = []\<rparr>"
    by (simp add: sd_goto_def getNotify_def NewDialer_def)
  from dial_completes [OF this, of "[0]"]
  have "send_reach [] \<lparr>ds_d = ex_ready\<lparr>d_told := [(0, None)]\<rparr>, ds_sends = [SdNotify 0], ds_chan = 1, ds_wire = []\<rparr>" by simp
  from send_reach.sd_more [OF this send_step.sd_select [where i = 0 and c = 0]]
  have "send_reach [] \<lparr>ds_d = ex_ready\<lparr>d_told := [(0, None)]\<rparr>, ds_sends = [SdSelect 0], ds_chan = 1, ds_wire = []\<rparr>"
    by (simp add: sd_goto_def)
  then show ?thesis
    by (intro exI [of _ "\<lparr>ds_d = ex_ready\<lparr>d_told := [(0, None)]\<rparr>, ds_sends = [SdSelect 0], ds_chan = 1, ds_wire = []\<rparr>"])
      (simp add: ex_ready_def NewDialer_def)
qed

lemma offered_notifys: "dial_step d e \<Longrightarrow> (c, err) \<in> set (offered d e) \<Longrightarrow> c \<in> set (d_notifys d)"
  by (induction rule: dial_step.induct)
    (auto simp: offered_def goto_def setState_def doNotify_def closeConn_def getNotify_def delNotify_def Dialer_Shutdown_def Let_def
      split: Option.bind_splits if_splits option.splits)

lemma told_notifys: "dial_step d e \<Longrightarrow> d_notifys e = d_notifys d \<or> d_told e \<noteq> d_told d \<Longrightarrow> set (d_notifys e) \<subseteq> set (d_notifys d)"
  by (induction rule: dial_step.induct)
    (auto simp: goto_def setState_def doNotify_def closeConn_def getNotify_def delNotify_def Dialer_Shutdown_def Let_def
      split: Option.bind_splits if_splits option.splits)

text \<open>A goroutine in its select whose channel is no longer registered.\<close>

definition deaf :: "nat \<Rightarrow> nat \<Rightarrow> DialSends \<Rightarrow> bool" where
  "deaf i c x \<longleftrightarrow> sd_at i (SdSelect c) x \<and> c \<notin> set (d_notifys (ds_d x)) \<and> c < ds_chan x"

lemma deaf_goto: "deaf i c x \<Longrightarrow> j \<noteq> i \<Longrightarrow> deaf i c (sd_goto j pc x)"
  by (simp add: deaf_def sd_goto_def)

theorem send_deaf_times_out:
  assumes "deaf i c x" "send_step x y"
  shows "deaf i c y \<or> sd_at i (SdRet (Some ConnectTimeout)) y"
  using assms(2)
proof cases
  case sd_call
  then show ?thesis using assms(1) by (simp add: deaf_def nth_append)
next
  case (sd_read j)
  then have "j \<noteq> i" using assms(1) by (auto simp: deaf_def)
  then show ?thesis using sd_read assms(1)
    by (cases "d_state (ds_d x)") (simp_all add: Send_read_def deaf_goto call_dial_def, simp_all add: deaf_def sd_goto_def)
next
  case (sd_register j)
  then have "j \<noteq> i" using assms(1) by (auto simp: deaf_def)
  then show ?thesis using sd_register assms(1) by (simp add: deaf_def sd_goto_def getNotify_def)
next
  case (sd_select j k)
  then have "j \<noteq> i" using assms(1) by (auto simp: deaf_def)
  then show ?thesis using sd_select assms(1) deaf_goto by blast
next
  case (sd_timeout j k)
  then show ?thesis using assms(1) by (cases "j = i") (simp_all add: deaf_def sd_goto_def delNotify_def)
next
  case (sd_got j err)
  then have "j \<noteq> i" using assms(1) by (auto simp: deaf_def)
  then show ?thesis using sd_got assms(1) deaf_goto by blast
next
  case (sd_dialed j k err)
  then have "j \<noteq> i" using assms(1) by (auto simp: deaf_def)
  then show ?thesis using sd_dialed assms(1) deaf_goto by blast
next
  case (sd_on j)
  then have "j \<noteq> i" using assms(1) by (auto simp: deaf_def)
  then show ?thesis using sd_on assms(1) by (cases "d_conn (ds_d x)") (simp_all add: Send_conn_def deaf_def sd_goto_def)
next
  case (sd_other d)
  have "map_of (offered (ds_d x) d) c = None"
    using offered_notifys [OF sd_other(2)] assms(1) by (auto simp: deaf_def map_of_eq_None_iff)
  then show ?thesis using sd_other assms(1) told_notifys [OF sd_other(2,3)] by (auto simp: deaf_def)
qed

end
