(* ===== verification/DialerMgr.thy ===== *)
theory DialerMgr
  imports Redial AgentSidecar
begin

text \<open>
  The pool of connections to other agents (\<open>AgentDialerMgr\<close> of \<^verbatim>\<open>src/agent/sidecar.go\<close>) with its dialers
  (\<^verbatim>\<open>src/common/network/dialer.go\<close>): what \<open>GetDialer\<close> hands out, what \<open>Release\<close> leaves, and that
  the list of addresses the sidecar keeps is the table of the pool.
\<close>

section \<open>The pool\<close>

text \<open>A dialer with its goroutines is a number in the memory \<open>dm_mem\<close>.\<close>

record AgentDialerMgr =
  dm_dialers :: "(string, nat) gomap"
  dm_mem :: "nat \<Rightarrow> Redial"
  dm_next :: nat

definition DialerMgr_Init :: AgentDialerMgr where
  "DialerMgr_Init = \<lparr>dm_dialers = [], dm_mem = (\<lambda>_. redial_new []), dm_next = 0\<rparr>"

text \<open>
  \<open>GetDialer\<close> holds the lock of the manager while the new dialer starts; \<open>r\<close> is that dialer when its
  \<open>Start\<close> has returned. \<open>None\<close>: \<open>Start\<close> has not returned.
\<close>

definition DialerMgr_GetDialer :: "AgentDialerMgr \<Rightarrow> string \<Rightarrow> Redial \<Rightarrow> (AgentDialerMgr \<times> (DialErr + nat)) option" where
  "DialerMgr_GetDialer ds serverUrl r =
     (case mget (dm_dialers ds) serverUrl of
        Some d \<Rightarrow> Some (ds, Inr d)
      | None \<Rightarrow>
          (case rd_start r of
             StReturned (Some err) \<Rightarrow> Some (ds, Inl err)
           | StReturned None \<Rightarrow>
               (let d = dm_next ds in
                Some (ds\<lparr>dm_mem := (dm_mem ds)(d := r), dm_next := Suc d, dm_dialers := mput serverUrl d (dm_dialers ds)\<rparr>, Inr d))
           | _ \<Rightarrow> None))"

definition shut :: "nat \<Rightarrow> AgentDialerMgr \<Rightarrow> AgentDialerMgr option" where
  "shut d ds = do {
     (e, _) \<leftarrow> Dialer_Shutdown (rd_d (dm_mem ds d));
     Some (ds\<lparr>dm_mem := (dm_mem ds)(d := (dm_mem ds d)\<lparr>rd_d := e\<rparr>)\<rparr>) }"

definition DialerMgr_Release :: "AgentDialerMgr \<Rightarrow> AgentDialerMgr option" where
  "DialerMgr_Release ds = do {
     ds \<leftarrow> rangeM shut (mvals (dm_dialers ds)) ds;
     Some (ds\<lparr>dm_dialers := []\<rparr>) }"

text \<open>A step of a dialer: of a dial or a \<open>Send\<close>, of \<open>Start\<close>, or of the reconnecting goroutine.\<close>

definition redial_step :: "Redial \<Rightarrow> Redial \<Rightarrow> bool" where
  "redial_step r s \<longleftrightarrow> (\<exists>d. dial_step (rd_d r) d \<and> s = r\<lparr>rd_d := d\<rparr>) \<or> start_step r s \<or> re_step r s"

inductive pool_step :: "AgentDialerMgr \<Rightarrow> AgentDialerMgr \<Rightarrow> bool" where
  po_get: "redial_reach [] r \<Longrightarrow> DialerMgr_GetDialer ds url r = Some (ds', res) \<Longrightarrow> pool_step ds ds'"
| po_run: "d < dm_next ds \<Longrightarrow> redial_step (dm_mem ds d) r \<Longrightarrow> pool_step ds (ds\<lparr>dm_mem := (dm_mem ds)(d := r)\<rparr>)"
| po_release: "DialerMgr_Release ds = Some ds' \<Longrightarrow> pool_step ds ds'"

inductive pool_reach :: "AgentDialerMgr \<Rightarrow> bool" where
  po_init: "pool_reach DialerMgr_Init"
| po_more: "pool_reach ds \<Longrightarrow> pool_step ds ds' \<Longrightarrow> pool_reach ds'"

section \<open>Invariant\<close>

text \<open>
  Every dialer is a reachable one whose \<open>Start\<close> has returned without an error; one that is not in the
  table has been shut down.
\<close>

definition pool_inv :: "AgentDialerMgr \<Rightarrow> bool" where
  "pool_inv ds \<longleftrightarrow> mwf (dm_dialers ds) \<and> (\<forall>url d. mget (dm_dialers ds) url = Some d \<longrightarrow> d < dm_next ds) \<and>
     (\<forall>d < dm_next ds. redial_reach [] (dm_mem ds d) \<and> rd_start (dm_mem ds d) = StReturned None \<and> d_conn (rd_d (dm_mem ds d)) \<noteq> None \<and>
        (d \<in> set (mvals (dm_dialers ds)) \<or> d_state (rd_d (dm_mem ds d)) = Shutdown))"

lemma start_no_step: "start_step r s \<Longrightarrow> rd_start r \<noteq> StReturned e"
  by (auto elim: start_step.cases)

lemma redial_step_reach: "redial_step r s \<Longrightarrow> redial_reach opts r \<Longrightarrow> redial_reach opts s"
  by (auto simp: redial_step_def intro: redial_reach.intros)

lemma re_step_dialer: "re_step r s \<Longrightarrow> rd_start s = rd_start r \<and> d_conn (rd_d s) = d_conn (rd_d r) \<and> d_state (rd_d s) = d_state (rd_d r)"
  by (induction rule: re_step.induct) (auto simp: call_dial_def)

text \<open>A step of a started dialer keeps its connection, and a shut-down dialer stays shut down.\<close>

lemma redial_step_started:
  assumes "redial_step r s" "rd_start r = StReturned None" "d_conn (rd_d r) \<noteq> None"
  shows "rd_start s = StReturned None" "d_conn (rd_d s) \<noteq> None" "d_state (rd_d r) = Shutdown \<Longrightarrow> d_state (rd_d s) = Shutdown"
  using assms conn_stays dial_step_shutdown start_no_step [of r s] re_step_dialer [of r s]
  by (auto simp: redial_step_def) (metis option.distinct(1))+

text \<open>When \<open>Start\<close> has returned without an error, its dial has published a connection.\<close>

lemma started_conn: "redial_reach opts r \<Longrightarrow> rd_start r = StReturned None \<Longrightarrow> d_conn (rd_d r) \<noteq> None"
proof (induction rule: redial_reach.induct)
  case (rd_other r d)
  then show ?case using conn_stays [of "rd_d r" d] by simp
next
  case (rd_starts r s)
  have inv: "ended_conn (rd_d r)" using redial_reach_inv [OF rd_starts.hyps(1)] by (simp add: redial_inv_def)
  from rd_starts.hyps(2) show ?case
    by cases (use rd_starts.prems inv in \<open>auto dest: ended_has_conn\<close>)
next
  case (rd_redials r s)
  then show ?case using re_step_dialer [of r s] by simp
qed (simp add: redial_new_def)

lemma Dialer_Shutdown_total:
  assumes "dial_inv d"
  shows "\<exists>e r. Dialer_Shutdown d = Some (e, r) \<and> d_state e = Shutdown \<and> dial_step d e"
proof -
  have "event_ok (d_quit d)" "d_state d = Shutdown \<longleftrightarrow> Event_HasFired (d_quit d)" using assms by (simp_all add: dial_inv_def)
  with Event_Fire_ok [OF this(1)]
  have "\<exists>e. Dialer_Shutdown d = Some (e, \<not> Event_HasFired (d_quit d)) \<and> d_state e = Shutdown"
    by (auto simp: Dialer_Shutdown_def Let_def setState_def closeConn_def split: option.splits)
  then show ?thesis using dial_step.shutdown by blast
qed

lemma pool_inv_mem:
  assumes "pool_inv ds" "d < dm_next ds" "redial_step (dm_mem ds d) r"
  shows "pool_inv (ds\<lparr>dm_mem := (dm_mem ds)(d := r)\<rparr>)"
  using assms redial_step_started [OF assms(3)] redial_step_reach [OF assms(3), of "[]"]
  by (auto simp: pool_inv_def)

text \<open>Shutting down some of the dialers.\<close>

lemma shut_all:
  assumes "pool_inv ds" "\<forall>d \<in> set xs. d < dm_next ds"
  shows "\<exists>ds'. rangeM shut xs ds = Some ds' \<and> pool_inv ds' \<and> dm_dialers ds' = dm_dialers ds \<and> dm_next ds' = dm_next ds \<and>
    (\<forall>d. d_state (rd_d (dm_mem ds' d)) = Shutdown \<longleftrightarrow> d \<in> set xs \<or> d_state (rd_d (dm_mem ds d)) = Shutdown)"
  using assms
proof (induction xs arbitrary: ds)
  case (Cons x xs)
  have "dial_inv (rd_d (dm_mem ds x))"
    using Cons.prems redial_reach_inv by (auto simp: pool_inv_def redial_inv_def)
  from Dialer_Shutdown_total [OF this] obtain e r where
    e: "Dialer_Shutdown (rd_d (dm_mem ds x)) = Some (e, r)" "d_state e = Shutdown" "dial_step (rd_d (dm_mem ds x)) e" by blast
  let ?ds = "ds\<lparr>dm_mem := (dm_mem ds)(x := (dm_mem ds x)\<lparr>rd_d := e\<rparr>)\<rparr>"
  have "pool_inv ?ds" using Cons.prems e(3) by (intro pool_inv_mem) (auto simp: redial_step_def)
  with Cons.IH [of ?ds] Cons.prems(2) obtain ds' where ds': "rangeM shut xs ?ds = Some ds'" "pool_inv ds'" "dm_dialers ds' = dm_dialers ds"
    "dm_next ds' = dm_next ds" "\<forall>d. d_state (rd_d (dm_mem ds' d)) = Shutdown \<longleftrightarrow> d \<in> set xs \<or> d_state (rd_d (dm_mem ?ds d)) = Shutdown"
    by auto
  have "shut x ds = Some ?ds" using e(1) by (simp add: shut_def)
  then show ?case using ds' e(2) by auto
qed simp

lemma Release_total:
  assumes "pool_inv ds"
  shows "\<exists>ds'. DialerMgr_Release ds = Some ds' \<and> pool_inv ds' \<and> dm_dialers ds' = [] \<and> dm_next ds' = dm_next ds \<and>
    (\<forall>d < dm_next ds'. d_state (rd_d (dm_mem ds' d)) = Shutdown)"
proof -
  have "\<forall>d \<in> set (mvals (dm_dialers ds)). d < dm_next ds" using assms by (auto simp: pool_inv_def in_mvals_iff)
  from shut_all [OF assms this] obtain t where t: "rangeM shut (mvals (dm_dialers ds)) ds = Some t" "pool_inv t"
    "dm_dialers t = dm_dialers ds" "dm_next t = dm_next ds"
    "\<forall>d. d_state (rd_d (dm_mem t d)) = Shutdown \<longleftrightarrow> d \<in> set (mvals (dm_dialers ds)) \<or> d_state (rd_d (dm_mem ds d)) = Shutdown"
    by blast
  have "\<forall>d < dm_next ds. d_state (rd_d (dm_mem t d)) = Shutdown" using t(5) assms by (auto simp: pool_inv_def)
  then show ?thesis using t by (simp add: DialerMgr_Release_def pool_inv_def)
qed

lemma GetDialer_inv:
  assumes "pool_inv ds" "redial_reach [] r" "DialerMgr_GetDialer ds url r = Some (ds', res)"
  shows "pool_inv ds'"
proof (cases "mget (dm_dialers ds) url")
  case None
  show ?thesis
  proof (cases "rd_start r = StReturned None")
    case True
    have new: "ds' = ds\<lparr>dm_mem := (dm_mem ds)(dm_next ds := r), dm_next := Suc (dm_next ds), dm_dialers := mput url (dm_next ds) (dm_dialers ds)\<rparr>"
      using assms(3) None True by (simp add: DialerMgr_GetDialer_def Let_def)
    have wf: "mwf (dm_dialers ds)" "mwf (mput url (dm_next ds) (dm_dialers ds))" using assms(1) by (auto simp: pool_inv_def)
    have "d \<in> set (mvals (mput url (dm_next ds) (dm_dialers ds)))" if "d \<in> set (mvals (dm_dialers ds)) \<or> d = dm_next ds" for d
      using that None in_mvals_iff [OF wf(1)] in_mvals_iff [OF wf(2)] by auto (metis option.distinct(1))
    then show ?thesis using assms(1,2) True started_conn [OF assms(2) True] wf(2) unfolding new
      by (auto simp: pool_inv_def less_Suc_eq split: if_splits)
  next
    case False
    then show ?thesis using assms(1,3) None
      by (auto simp: DialerMgr_GetDialer_def split: StartPc.splits option.splits)
  qed
qed (use assms in \<open>simp add: DialerMgr_GetDialer_def\<close>)

lemma pool_reach_inv: "pool_reach ds \<Longrightarrow> pool_inv ds"
proof (induction rule: pool_reach.induct)
  case po_init
  show ?case by (simp add: pool_inv_def DialerMgr_Init_def)
next
  case (po_more ds ds')
  from po_more.hyps(2) po_more.IH show ?case
  proof cases
    case (po_release)
    then show ?thesis using Release_total [OF po_more.IH] by auto
  qed (auto intro: GetDialer_inv pool_inv_mem)
qed

section \<open>Properties\<close>

text \<open>
  The dialers of the pool: \<open>GetDialer\<close> gives the same dialer for an address until the release; every
  dialer it hands out has been started and has a connection, so no \<open>Send\<close> on it can find none. \<open>Release\<close> never panics
  and shuts down every dialer ever handed out.
\<close>

theorem dialer_pool:
  assumes "pool_reach ds"
  shows "mget (dm_dialers ds) url = Some d \<Longrightarrow> DialerMgr_GetDialer ds url r = Some (ds, Inr d)"
    and "redial_reach [] r \<Longrightarrow> DialerMgr_GetDialer ds url r = Some (ds', Inr d) \<Longrightarrow>
      mget (dm_dialers ds') url = Some d \<and> d_conn (rd_d (dm_mem ds' d)) \<noteq> None"
    and "\<exists>ds'. DialerMgr_Release ds = Some ds' \<and> dm_dialers ds' = [] \<and> (\<forall>d < dm_next ds'. d_state (rd_d (dm_mem ds' d)) = Shutdown)"
proof -
  note inv = pool_reach_inv [OF assms]
  show "mget (dm_dialers ds) url = Some d \<Longrightarrow> DialerMgr_GetDialer ds url r = Some (ds, Inr d)"
    by (simp add: DialerMgr_GetDialer_def)
  show "\<exists>ds'. DialerMgr_Release ds = Some ds' \<and> dm_dialers ds' = [] \<and> (\<forall>d < dm_next ds'. d_state (rd_d (dm_mem ds' d)) = Shutdown)"
    using Release_total [OF inv] by blast
  assume r: "redial_reach [] r" "DialerMgr_GetDialer ds url r = Some (ds', Inr d)"
  have m: "mget (dm_dialers ds') url = Some d"
    using r(2) by (auto simp: DialerMgr_GetDialer_def Let_def split: option.splits StartPc.splits)
  moreover have "pool_inv ds'" by (rule GetDialer_inv [OF inv r])
  ultimately show "mget (dm_dialers ds') url = Some d \<and> d_conn (rd_d (dm_mem ds' d)) \<noteq> None"
    by (auto simp: pool_inv_def)
qed

text \<open>
  After a release the pool still serves: a \<open>GetDialer\<close> that comes later opens a new dialer, which no
  release shuts down any more.
\<close>

theorem dialer_pool_reopened:
  assumes "pool_reach ds" "DialerMgr_Release ds = Some ds'" "redial_reach [] r" "rd_start r = StReturned None" "d_state (rd_d r) = Ready"
  shows "\<exists>d t. DialerMgr_GetDialer ds' url r = Some (t, Inr d) \<and> mget (dm_dialers t) url = Some d \<and> d_state (rd_d (dm_mem t d)) = Ready"
  using Release_total [OF pool_reach_inv [OF assms(1)]] assms(2,4,5) by (auto simp: DialerMgr_GetDialer_def Let_def)

text \<open>
  The sidecar keeps the addresses of the pool: where the network answers a \<open>Start\<close> as \<open>ne_dialErr\<close> says, the
  \<open>GetDialer\<close> of the sidecar is that of the pool.
\<close>

definition pool_of :: "skymeshSidecar \<Rightarrow> AgentDialerMgr \<Rightarrow> bool" where
  "pool_of sc ds \<longleftrightarrow> set (sc_dialers sc) = set (mkeys (dm_dialers ds))"

theorem sidecar_pool_refined:
  assumes "pool_of sc ds" "DialerMgr_GetDialer ds url r = Some (ds', res)" "ne_dialErr env url = None \<longleftrightarrow> rd_start r = StReturned None"
    and "AgentDialerMgr_GetDialer env sc url = (sc', err)"
  shows "pool_of sc' ds' \<and> (err = None \<longleftrightarrow> (\<exists>d. res = Inr d))"
proof (cases "mget (dm_dialers ds) url")
  case None
  then have "url \<notin> set (sc_dialers sc)" using assms(1) by (simp add: pool_of_def mget_None_keys)
  then show ?thesis using assms None
    by (auto simp: DialerMgr_GetDialer_def AgentDialerMgr_GetDialer_def Let_def pool_of_def split: StartPc.splits option.splits)
next
  case (Some d)
  then have "url \<in> set (sc_dialers sc)" using assms(1) mget_Some_keys by (auto simp: pool_of_def)
  then show ?thesis using assms Some by (auto simp: DialerMgr_GetDialer_def AgentDialerMgr_GetDialer_def)
qed

end
