(* ===== verification/Binary.thy ===== *)
theory Binary
  imports Prelude
begin

text \<open>
  Bytes and words as the extension packages use them: the little-endian half of
  \<^verbatim>\<open>encoding/binary\<close>, and the built-in \<^verbatim>\<open>copy\<close> into a slice of a fixed array. A write
  beyond the end of the slice given to \<^verbatim>\<open>PutUint64\<close> is a panic, \<open>None\<close>.
\<close>

unbundle bit_operations_syntax

section \<open>encoding/binary, little endian\<close>

definition le_Put :: "nat \<Rightarrow> 'a::len word \<Rightarrow> bytes" where
  "le_Put n v = map (\<lambda>i. ucast (drop_bit (8 * i) v)) [0..<n]"

primrec le_Get :: "bytes \<Rightarrow> 'a::len word" where
  "le_Get [] = 0"
| "le_Get (b # bs) = ucast b OR push_bit 8 (le_Get bs)"

lemma length_le_Put [simp]: "length (le_Put n v) = n"
  by (simp add: le_Put_def)

lemma bit_le_Get:
  "bit (le_Get bs :: 'a::len word) k \<longleftrightarrow> k < LENGTH('a) \<and> k div 8 < length bs \<and> bit (bs ! (k div 8)) (k mod 8)"
proof (induction bs arbitrary: k)
  case (Cons b bs)
  show ?case
  proof (cases "k < 8")
    case True
    then show ?thesis by (auto simp: bit_simps)
  next
    case False
    then obtain j where j: "k = j + 8" by (metis add.commute le_Suc_ex not_less)
    have "\<not> bit b k" using False by (auto dest: bit_imp_le_length)
    moreover have "(j + 8) div 8 = Suc (j div 8)" by simp
    ultimately show ?thesis using Cons.IH [of j] by (auto simp: bit_simps j)
  qed
qed simp

lemma le_Get_Put [simp]:
  fixes v :: "'a::len word"
  assumes "LENGTH('a) \<le> 8 * n"
  shows "le_Get (le_Put n v) = v"
proof (rule bit_word_eqI)
  fix k assume k: "k < LENGTH('a)"
  then have "k div 8 < n" using assms by (simp add: less_mult_imp_div_less mult.commute order_less_le_trans)
  then have "le_Put n v ! (k div 8) = ucast (drop_bit (8 * (k div 8)) v)" by (simp add: le_Put_def)
  then show "bit (le_Get (le_Put n v) :: 'a word) k = bit v k"
    using k \<open>k div 8 < n\<close> by (simp add: bit_le_Get bit_simps)
qed

lemma le_Put_Get:
  fixes bs :: bytes
  assumes "8 * length bs = LENGTH('a::len)"
  shows "le_Put (length bs) (le_Get bs :: 'a word) = bs"
proof (rule nth_equalityI)
  fix i assume i: "i < length (le_Put (length bs) (le_Get bs :: 'a word))"
  show "le_Put (length bs) (le_Get bs :: 'a word) ! i = bs ! i"
  proof (rule bit_word_eqI)
    fix k assume "k < LENGTH(8)"
    then have k: "(8 * i + k) div 8 = i" "(8 * i + k) mod 8 = k" "8 * i + k < LENGTH('a)" using i assms by auto
    then show "bit (le_Put (length bs) (le_Get bs :: 'a word) ! i) k = bit (bs ! i) k"
      using i \<open>k < LENGTH(8)\<close> by (simp add: le_Put_def bit_simps bit_le_Get)
  qed
qed simp

definition le_PutUint64 :: "nat \<Rightarrow> u64 \<Rightarrow> bytes \<Rightarrow> bytes option" where
  "le_PutUint64 pos v b =
     (if pos + 8 \<le> length b then Some (take pos b @ le_Put 8 v @ drop (pos + 8) b) else None)"

text \<open>The readers are only called where the code has checked that eight bytes are there.\<close>

definition le_Uint64 :: "nat \<Rightarrow> bytes \<Rightarrow> u64" where
  "le_Uint64 pos b = le_Get (take 8 (drop pos b))"

definition le_PutUint32 :: "nat \<Rightarrow> u32 \<Rightarrow> bytes \<Rightarrow> bytes option" where
  "le_PutUint32 pos v b =
     (if pos + 4 \<le> length b then Some (take pos b @ le_Put 4 v @ drop (pos + 4) b) else None)"

section \<open>copy\<close>

text \<open>\<open>copy_at pos src b\<close> is \<^verbatim>\<open>copy(b[pos:], src)\<close> for \<open>pos \<le> len b\<close>: as much as fits is overwritten.\<close>

definition copy_at :: "nat \<Rightarrow> 'a list \<Rightarrow> 'a list \<Rightarrow> 'a list" where
  "copy_at pos src b = take pos b @ take (length b - pos) src @ drop (pos + length src) b"

lemma length_copy_at [simp]: "pos \<le> length b \<Longrightarrow> length (copy_at pos src b) = length b"
  by (simp add: copy_at_def)

lemma take_copy_at: "pos + length src \<le> length b \<Longrightarrow> take (pos + length src) (copy_at pos src b) = take pos b @ src"
  by (simp add: copy_at_def)

lemma copy_at_fits: "pos + length src \<le> length b \<Longrightarrow> copy_at pos src b = take pos b @ src @ drop (pos + length src) b"
  by (simp add: copy_at_def)

lemma copy_at_copy_at:
  assumes "pos + length s1 + length s2 \<le> length b"
  shows "copy_at (pos + length s1) s2 (copy_at pos s1 b) = copy_at pos (s1 @ s2) b"
  using assms by (simp add: copy_at_def ac_simps)

lemma le_Uint64_at: "n = length p \<Longrightarrow> le_Uint64 n (p @ le_Put 8 v @ r) = v"
  by (simp add: le_Uint64_def)

lemma le_PutUint64_copy: "pos + 8 \<le> length b \<Longrightarrow> le_PutUint64 pos v b = Some (copy_at pos (le_Put 8 v) b)"
  by (simp add: le_PutUint64_def copy_at_def)

lemma le_PutUint32_copy: "pos + 4 \<le> length b \<Longrightarrow> le_PutUint32 pos v b = Some (copy_at pos (le_Put 4 v) b)"
  by (simp add: le_PutUint32_def copy_at_def)

end
