(* ===== verification/VirConn.thy ===== *)
theory VirConn
  imports Binary
begin

text \<open>
  \<^verbatim>\<open>src/extension/grpc/proto.go\<close>: the packets of virtual connections over skymesh. The head is
  written with \<^verbatim>\<open>encoding/binary\<close> and read by casting pointers into the packet, on a little-endian
  machine; \<open>behind\<close> is the memory after the slice, which a cast can read, and only the first byte of
  a field is checked against the bounds. \<open>None\<close> is a panic.
\<close>

definition KVConnCmdData :: u32 where [simp]: "KVConnCmdData = 1"
definition KVConnCmdConnect :: u32 where [simp]: "KVConnCmdConnect = 2"
definition KVConnCmdClose :: u32 where [simp]: "KVConnCmdClose = 4"

record VirConnHead =
  vh_vcmd :: u32
  vh_seq :: u32
  vh_connID :: u64

definition VirConnHead_Size :: nat where [simp]: "VirConnHead_Size = 16"

definition PackHead :: "VirConnHead \<Rightarrow> bytes option" where
  "PackHead vch = do {
     let b = replicate VirConnHead_Size 0;
     let pos = 0;
     b \<leftarrow> le_PutUint32 pos (vh_vcmd vch) b;
     let pos = pos + 4;
     b \<leftarrow> le_PutUint32 pos (vh_seq vch) b;
     let pos = pos + 4;
     b \<leftarrow> le_PutUint64 pos (vh_connID vch) b;
     let pos = pos + 8;
     Some (take pos b) }"

definition deref :: "nat \<Rightarrow> bytes \<Rightarrow> bytes \<Rightarrow> nat \<Rightarrow> 'a::len word option" where
  "deref n behind msg pos =
     (if pos < length msg then Some (le_Get (take n (drop pos (msg @ behind)))) else None)"

definition UnpackHead :: "bytes \<Rightarrow> bytes \<Rightarrow> (VirConnHead \<times> nat) option" where
  "UnpackHead behind msg = do {
     let pos = 0;
     vcmd \<leftarrow> deref 4 behind msg pos;
     let pos = pos + 4;
     seq \<leftarrow> deref 4 behind msg pos;
     let pos = pos + 4;
     connID \<leftarrow> deref 8 behind msg pos;
     let pos = pos + 8;
     Some (\<lparr>vh_vcmd = vcmd, vh_seq = seq, vh_connID = connID\<rparr>, pos) }"

text \<open>The argument \<open>ext\<close> is a sequence number or something else, which leaves the number 0.\<close>

definition PackPacket :: "u32 \<Rightarrow> u64 \<Rightarrow> bytes \<Rightarrow> u32 option \<Rightarrow> bytes option" where
  "PackPacket cmd connID msg ext = do {
     let vch = \<lparr>vh_vcmd = cmd, vh_seq = (case ext of Some seq \<Rightarrow> seq | None \<Rightarrow> 0), vh_connID = connID\<rparr>;
     h \<leftarrow> PackHead vch;
     Some (h @ msg) }"

definition UnpackPacket :: "bytes \<Rightarrow> bytes \<Rightarrow> (u32 \<times> u64 \<times> bytes \<times> u32 option) option" where
  "UnpackPacket behind packet = do {
     (vch, unpackLen) \<leftarrow> UnpackHead behind packet;
     if unpackLen \<le> length packet then
       Some (vh_vcmd vch, vh_connID vch, drop unpackLen packet, Some (vh_seq vch))
     else None }"

section \<open>Lemmas\<close>

lemma PackHead_eq: "PackHead vch = Some (le_Put 4 (vh_vcmd vch) @ le_Put 4 (vh_seq vch) @ le_Put 8 (vh_connID vch))"
  by (simp add: PackHead_def le_PutUint32_def le_PutUint64_def Let_def)

lemma PackPacket_eq:
  "PackPacket cmd connID msg ext =
     Some (le_Put 4 cmd @ le_Put 4 (case ext of Some seq \<Rightarrow> seq | None \<Rightarrow> 0) @ le_Put 8 connID @ msg)"
  by (simp add: PackPacket_def PackHead_eq)

lemma UnpackPacket_PackPacket:
  assumes "PackPacket cmd connID msg ext = Some p"
  shows "UnpackPacket behind p = Some (cmd, connID, msg, Some (case ext of Some seq \<Rightarrow> seq | None \<Rightarrow> 0))"
  using assms by (auto simp: PackPacket_eq UnpackPacket_def UnpackHead_def deref_def)

lemma UnpackPacket_parts:
  assumes "16 \<le> length p"
  shows "UnpackPacket behind p =
    Some (le_Get (take 4 p), le_Get (take 8 (drop 8 p)), drop 16 p, Some (le_Get (take 4 (drop 4 p))))"
  using assms by (auto simp: UnpackPacket_def UnpackHead_def deref_def)

lemma UnpackPacket_short: "length p < 16 \<Longrightarrow> UnpackPacket behind p = None"
  by (auto simp: UnpackPacket_def UnpackHead_def deref_def)

section \<open>The interface\<close>

text \<open>What connections rely on: a packet that was packed is unpacked with its parts.\<close>

locale vir_conn_proto =
  fixes pack :: "u32 \<Rightarrow> u64 \<Rightarrow> bytes \<Rightarrow> u32 option \<Rightarrow> bytes option"
    and unpack :: "bytes \<Rightarrow> (u32 \<times> u64 \<times> bytes \<times> u32 option) option"
  assumes pack_total: "\<exists>p. pack cmd connID msg ext = Some p"
    and unpack_pack: "pack cmd connID msg (Some seq) = Some p \<Longrightarrow> unpack p = Some (cmd, connID, msg, Some seq)"
begin

lemma pack_inj: "pack c i m (Some q) = Some p \<Longrightarrow> pack c' i' m' (Some q') = Some p \<Longrightarrow> c = c' \<and> i = i' \<and> m = m' \<and> q = q'"
  by (drule (1) unpack_pack [THEN sym, THEN trans, OF _ unpack_pack]) simp

end

interpretation vp: vir_conn_proto PackPacket "UnpackPacket behind" for behind
  by unfold_locales (simp add: PackPacket_eq, simp add: UnpackPacket_PackPacket)

section \<open>Properties\<close>

text \<open>
  C40: Packets are read back as written, and nothing else is accepted: unpacking panics exactly on
  packets shorter than the head of 16 bytes, whatever lies behind them in memory; any other packet is
  the packing of what is read from it, and the packing of a command is read as that command.
\<close>

theorem virconn_packet_exact:
  "(UnpackPacket behind p = None \<longleftrightarrow> length p < VirConnHead_Size) \<and>
   (UnpackPacket behind p = Some (cmd, connID, msg, Some seq) \<longleftrightarrow> PackPacket cmd connID msg (Some seq) = Some p)"
proof -
  have "PackPacket c i m (Some q) = Some p" if "UnpackPacket behind p = Some (c, i, m, Some q)" for c i m q
  proof -
    have l: "16 \<le> length p" using that UnpackPacket_short [of p behind] by fastforce
    have "le_Put 4 (le_Get (take 4 p) :: u32) = take 4 p" "le_Put 4 (le_Get (take 4 (drop 4 p)) :: u32) = take 4 (drop 4 p)"
      "le_Put 8 (le_Get (take 8 (drop 8 p)) :: u64) = take 8 (drop 8 p)"
      using l le_Put_Get [of "take 4 p", where 'a = 32] le_Put_Get [of "take 4 (drop 4 p)", where 'a = 32]
        le_Put_Get [of "take 8 (drop 8 p)", where 'a = 64] by simp_all
    moreover have "take 4 p @ take 4 (drop 4 p) @ take 8 (drop 8 p) @ drop 16 p = p"
      using append_take_drop_id [of 4 p] append_take_drop_id [of 4 "drop 4 p"] append_take_drop_id [of 8 "drop 8 p"] by simp
    ultimately show ?thesis using that l by (auto simp: UnpackPacket_parts PackPacket_eq)
  qed
  moreover have "UnpackPacket behind p = None \<longleftrightarrow> length p < 16"
    using UnpackPacket_short [of p behind] UnpackPacket_parts [of p behind] by (cases "length p < 16") auto
  ultimately show ?thesis using vp.unpack_pack [of cmd connID msg seq p behind] by auto
qed

end
