(* ===== verification/Smio.thy ===== *)
theory Smio
  imports Prelude
begin

text \<open>
  \<^verbatim>\<open>src/common/io/buffer.go\<close>: the linked list of byte segments and the blocking buffer on
  top of it. The list is the source's pointer structure: nodes live in a heap \<open>il_heap\<close>,
  \<open>head\<close> and \<open>tail\<close> are references, nil is \<open>None\<close>. It refines a FIFO queue, and the
  buffer, with producers and a consumer interleaving at every lock, delivers the bytes put
  into it in order and loses no wake-up.
\<close>

record readStream =
  rs_buf :: bytes
  rs_offset :: nat

record itemNode =
  nd_it :: readStream
  nd_next :: "nat option"

record itemList =
  il_heap :: "nat \<Rightarrow> itemNode"
  il_fresh :: nat
  il_head :: "nat option"
  il_tail :: "nat option"

definition itemList_new :: "itemNode \<Rightarrow> itemList" where
  "itemList_new n0 = \<lparr>il_heap = (\<lambda>_. n0), il_fresh = 0, il_head = None, il_tail = None\<rparr>"

definition enqueue :: "itemList \<Rightarrow> readStream \<Rightarrow> itemList" where
  "enqueue il i =
     (let n = il_fresh il;
          il = il\<lparr>il_heap := (il_heap il)(n := \<lparr>nd_it = i, nd_next = None\<rparr>), il_fresh := Suc n\<rparr> in
      case il_tail il of
        None \<Rightarrow> il\<lparr>il_head := Some n, il_tail := Some n\<rparr>
      | Some t \<Rightarrow>
          il\<lparr>il_heap := (il_heap il)(t := (il_heap il t)\<lparr>nd_next := Some n\<rparr>), il_tail := Some n\<rparr>)"

definition peek :: "itemList \<Rightarrow> readStream option" where
  "peek il = (case il_head il of None \<Rightarrow> None | Some h \<Rightarrow> Some (nd_it (il_heap il h)))"

definition dequeue :: "itemList \<Rightarrow> itemList \<times> readStream option" where
  "dequeue il =
     (case il_head il of
        None \<Rightarrow> (il, None)
      | Some h \<Rightarrow>
          (let i = nd_it (il_heap il h);
               il = il\<lparr>il_head := nd_next (il_heap il h)\<rparr>;
               il = (if il_head il = None then il\<lparr>il_tail := None\<rparr> else il)
           in (il, Some i)))"

definition dequeueAll :: "itemList \<Rightarrow> itemList \<times> nat option" where
  "dequeueAll il = (il\<lparr>il_head := None, il_tail := None\<rparr>, il_head il)"

definition isEmpty :: "itemList \<Rightarrow> bool" where
  "isEmpty il = (il_head il = None)"

text \<open>Writing \<open>s.offset\<close> through the pointer \<open>peek\<close> returned.\<close>

definition set_head_offset :: "itemList \<Rightarrow> nat \<Rightarrow> itemList" where
  "set_head_offset il off =
     (case il_head il of
        None \<Rightarrow> il
      | Some h \<Rightarrow>
          il\<lparr>il_heap := (il_heap il)(h := (il_heap il h)\<lparr>nd_it := (nd_it (il_heap il h))\<lparr>rs_offset := off\<rparr>\<rparr>)\<rparr>)"

section \<open>The list as a queue\<close>

text \<open>\<open>chain heap p ns\<close>: following \<open>next\<close> from \<open>p\<close> visits exactly the nodes \<open>ns\<close>.\<close>

fun chain :: "(nat \<Rightarrow> itemNode) \<Rightarrow> nat option \<Rightarrow> nat list \<Rightarrow> bool" where
  "chain hp p [] = (p = None)"
| "chain hp p (n # ns) = (p = Some n \<and> chain hp (nd_next (hp n)) ns)"

definition list_nodes :: "itemList \<Rightarrow> nat list \<Rightarrow> bool" where
  "list_nodes il ns \<longleftrightarrow> chain (il_heap il) (il_head il) ns \<and> distinct ns \<and>
     (\<forall>n \<in> set ns. n < il_fresh il) \<and> il_tail il = (if ns = [] then None else Some (last ns))"

definition items :: "itemList \<Rightarrow> nat list \<Rightarrow> readStream list" where
  "items il ns = map (\<lambda>n. nd_it (il_heap il n)) ns"

lemma chain_fun: "chain hp p ns \<Longrightarrow> chain hp p ms \<Longrightarrow> ns = ms"
proof (induction ns arbitrary: p ms)
  case Nil
  then show ?case by (cases ms) auto
next
  case (Cons n ns)
  then show ?case by (cases ms) auto
qed

lemma chain_frame:
  assumes "chain hp p ns" "\<And>n. n \<in> set ns \<Longrightarrow> nd_next (hp' n) = nd_next (hp n)"
  shows "chain hp' p ns"
  using assms by (induction ns arbitrary: p) auto

lemma chain_link:
  assumes "chain hp p ns" "ns \<noteq> []" "distinct ns" "n \<notin> set ns"
  shows "chain (hp(n := \<lparr>nd_it = i, nd_next = None\<rparr>, last ns := (hp (last ns))\<lparr>nd_next := Some n\<rparr>)) p (ns @ [n])"
  using assms
proof (induction ns arbitrary: p)
  case (Cons m ms)
  show ?case
  proof (cases "ms = []")
    case True
    then show ?thesis using Cons.prems by simp
  next
    case False
    then have "m \<noteq> last ms" using Cons.prems(3) last_in_set by fastforce
    then show ?thesis using Cons False by auto
  qed
qed simp

lemma enqueue_nodes:
  assumes "list_nodes il ns"
  shows "list_nodes (enqueue il i) (ns @ [il_fresh il])"
    and "items (enqueue il i) (ns @ [il_fresh il]) = items il ns @ [i]"
proof -
  have fr: "il_fresh il \<notin> set ns" using assms by (auto simp: list_nodes_def)
  show "list_nodes (enqueue il i) (ns @ [il_fresh il])"
  proof (cases "ns = []")
    case True
    then show ?thesis using assms by (simp add: list_nodes_def enqueue_def Let_def)
  next
    case False
    then have "last ns \<noteq> il_fresh il" using fr last_in_set by metis
    then show ?thesis using assms False fr chain_link [of "il_heap il" "il_head il" ns "il_fresh il" i]
      by (auto simp: list_nodes_def enqueue_def Let_def)
  qed
  have "nd_it (il_heap (enqueue il i) n) = (if n = il_fresh il then i else nd_it (il_heap il n))" if "n \<in> set (ns @ [il_fresh il])" for n
    using that assms fr by (auto simp: enqueue_def Let_def list_nodes_def split: option.splits)
  then show "items (enqueue il i) (ns @ [il_fresh il]) = items il ns @ [i]"
    using fr by (auto simp: items_def)
qed

lemma dequeue_nodes:
  assumes "list_nodes il (n # ns)"
  shows "snd (dequeue il) = Some (nd_it (il_heap il n))" "list_nodes (fst (dequeue il)) ns"
    "items (fst (dequeue il)) ns = items il ns"
proof -
  from assms have *: "il_head il = Some n" "chain (il_heap il) (nd_next (il_heap il n)) ns"
    by (auto simp: list_nodes_def)
  then show "snd (dequeue il) = Some (nd_it (il_heap il n))" by (simp add: dequeue_def Let_def)
  show "items (fst (dequeue il)) ns = items il ns" using * by (simp add: items_def dequeue_def Let_def)
  show "list_nodes (fst (dequeue il)) ns"
    using assms * by (cases ns) (auto simp: dequeue_def Let_def list_nodes_def)
qed

definition il_repr :: "itemList \<Rightarrow> readStream list \<Rightarrow> bool" where
  "il_repr il xs \<longleftrightarrow> (\<exists>ns. list_nodes il ns \<and> items il ns = xs)"

text \<open>What the buffer relies on: a representation relation under which the operations are a queue.\<close>

locale fifo =
  fixes enq :: "'q \<Rightarrow> 'a \<Rightarrow> 'q" and deq :: "'q \<Rightarrow> 'q \<times> 'a option" and front :: "'q \<Rightarrow> 'a option"
    and emptyq :: "'q \<Rightarrow> bool" and repr :: "'q \<Rightarrow> 'a list \<Rightarrow> bool"
  assumes repr_enq: "repr q xs \<Longrightarrow> repr (enq q x) (xs @ [x])"
    and repr_deq: "repr q (x # xs) \<Longrightarrow> snd (deq q) = Some x \<and> repr (fst (deq q)) xs"
    and repr_deq_empty: "repr q [] \<Longrightarrow> deq q = (q, None)"
    and repr_front: "repr q (x # xs) \<Longrightarrow> front q = Some x"
    and repr_empty: "repr q xs \<Longrightarrow> emptyq q = (xs = [])"
    and repr_unique: "repr q xs \<Longrightarrow> repr q ys \<Longrightarrow> xs = ys"
begin

lemma repr_fold_enq: "repr q xs \<Longrightarrow> repr (fold (\<lambda>x q. enq q x) ys q) (xs @ ys)"
proof (induction ys arbitrary: q xs)
  case (Cons y ys)
  from Cons.IH [OF repr_enq [OF Cons.prems, of y]] show ?case by simp
qed simp

lemma drain_all:
  "repr q xs \<Longrightarrow> length xs \<le> k \<Longrightarrow>
     (\<lambda>(q, out). repr q [] \<and> out = xs)
       (((\<lambda>(q, out). case deq q of (q', None) \<Rightarrow> (q', out) | (q', Some x) \<Rightarrow> (q', out @ [x])) ^^ k) (q, []))"
proof -
  let ?f = "\<lambda>(q, out). case deq q of (q', None) \<Rightarrow> (q', out) | (q', Some x) \<Rightarrow> (q', out @ [x])"
  have "case (?f ^^ k) (q, out) of (q', out') \<Rightarrow> repr q' (drop k xs) \<and> out' = out @ take k xs"
    if "repr q xs" for q xs out
    using that
  proof (induction k arbitrary: q xs out)
    case (Suc k)
    show ?case
    proof (cases xs)
      case Nil
      then have "?f (q, out) = (q, out)" using repr_deq_empty Suc.prems by simp
      with Suc.IH [OF Suc.prems, of out] Nil show ?thesis by (simp add: funpow_swap1 [symmetric] funpow_Suc_right del: funpow.simps)
    next
      case (Cons x ys)
      then have "snd (deq q) = Some x" and r: "repr (fst (deq q)) ys" using repr_deq Suc.prems by blast+
      then have "?f (q, out) = (fst (deq q), out @ [x])" by (cases "deq q") simp
      with Suc.IH [OF r, of "out @ [x]"] Cons show ?thesis by (simp add: funpow_Suc_right del: funpow.simps)
    qed
  qed simp
  then show "repr q xs \<Longrightarrow> length xs \<le> k \<Longrightarrow> (\<lambda>(q, out). repr q [] \<and> out = xs) ((?f ^^ k) (q, []))"
    by (fastforce split: prod.splits)
qed

end

interpretation il: fifo enqueue dequeue peek isEmpty il_repr
proof
  fix q :: itemList and xs x assume "il_repr q xs"
  then show "il_repr (enqueue q x) (xs @ [x])" using enqueue_nodes unfolding il_repr_def by blast
next
  fix q x xs assume "il_repr q (x # xs)"
  then obtain n ns where n: "list_nodes q (n # ns)" "items q (n # ns) = x # xs"
    unfolding il_repr_def items_def by (metis list.simps(9) map_eq_Cons_D)
  then show "snd (dequeue q) = Some x \<and> il_repr (fst (dequeue q)) xs" "peek q = Some x"
    using dequeue_nodes [OF n(1)] unfolding il_repr_def
    by (auto simp: items_def peek_def list_nodes_def)
next
  fix q assume "il_repr q []"
  then show "dequeue q = (q, None)"
    by (auto simp: il_repr_def items_def list_nodes_def dequeue_def)
next
  fix q xs assume "il_repr q xs"
  then obtain ns where "chain (il_heap q) (il_head q) ns" "xs = items q ns"
    by (auto simp: il_repr_def list_nodes_def)
  then show "isEmpty q = (xs = [])" by (cases ns) (auto simp: items_def isEmpty_def)
next
  fix q xs ys assume "il_repr q xs" "il_repr q ys"
  then show "xs = ys" unfolding il_repr_def list_nodes_def using chain_fun by blast
qed

lemma il_repr_new: "il_repr (itemList_new n0) []"
  by (auto simp: il_repr_def list_nodes_def itemList_new_def items_def intro: exI [of _ "[]"])

lemma il_repr_dequeueAll: "il_repr (fst (dequeueAll il)) []"
  by (auto simp: il_repr_def list_nodes_def dequeueAll_def items_def intro: exI [of _ "[]"])

lemma il_repr_set_offset:
  assumes "il_repr il (x # xs)"
  shows "il_repr (set_head_offset il off) (x\<lparr>rs_offset := off\<rparr> # xs)"
proof -
  obtain n ns where n: "list_nodes il (n # ns)" "items il (n # ns) = x # xs"
    using assms unfolding il_repr_def items_def by (metis list.simps(9) map_eq_Cons_D)
  have h: "il_head il = Some n" and d: "n \<notin> set ns" using n(1) by (auto simp: list_nodes_def)
  have "list_nodes (set_head_offset il off) (n # ns)"
    using n(1) h chain_frame [of "il_heap il" "il_head il" "n # ns" "il_heap (set_head_offset il off)"]
    by (auto simp: list_nodes_def set_head_offset_def)
  moreover have "items (set_head_offset il off) (n # ns) = x\<lparr>rs_offset := off\<rparr> # xs"
    using n(2) h d by (auto simp: items_def set_head_offset_def)
  ultimately show ?thesis unfolding il_repr_def by blast
qed

section \<open>The buffer\<close>

datatype IoErr = ErrCancel | ErrTimeout

record IoBuffer =
  ib_ch :: bool
  ib_consumerWaiting :: bool
  ib_list :: itemList
  ib_err :: "IoErr option"
  ib_armed :: bool
  ib_fired :: bool

text \<open>
  The timer: \<open>ib_armed\<close> while it runs, \<open>ib_fired\<close> when the time is in its channel and has not been
  received. A new one runs for \<^verbatim>\<open>IoLimitDuration\<close>, longer than any process.
\<close>

definition NewIoBuffer :: "itemNode \<Rightarrow> IoBuffer" where
  "NewIoBuffer n0 =
     \<lparr>ib_ch = False, ib_consumerWaiting = False, ib_list = itemList_new n0, ib_err = None, ib_armed = True, ib_fired = False\<rparr>"

definition IoBuffer_Clean :: "IoBuffer \<Rightarrow> IoBuffer" where
  "IoBuffer_Clean c =
     c\<lparr>ib_consumerWaiting := False, ib_list := fst (dequeueAll (ib_list c)), ib_err := None, ib_armed := False\<rparr>"

text \<open>
  \<open>SetTimeout\<close>: the zero time, \<open>None\<close>, stops the timer, any other starts it again. Neither empties the
  channel of the timer.
\<close>

definition IoBuffer_SetTimeout :: "IoBuffer \<Rightarrow> int option \<Rightarrow> IoBuffer" where
  "IoBuffer_SetTimeout c t = (case t of None \<Rightarrow> c\<lparr>ib_armed := False\<rparr> | Some d \<Rightarrow> c\<lparr>ib_armed := True\<rparr>)"

definition IoBuffer_expire :: "IoBuffer \<Rightarrow> IoBuffer" where
  "IoBuffer_expire c = c\<lparr>ib_armed := False, ib_fired := True\<rparr>"

text \<open>
  \<open>Put\<close> is a critical section, which decides whether to wake the consumer, and the
  non-blocking signal after the lock is released.
\<close>

definition IoBuffer_Put :: "IoBuffer \<Rightarrow> bytes \<Rightarrow> IoBuffer \<times> bool \<times> IoErr option" where
  "IoBuffer_Put c b =
     (case ib_err c of
        Some e \<Rightarrow> (c, False, Some e)
      | None \<Rightarrow>
          (let wakeUp = ib_consumerWaiting c;
               c = (if wakeUp then c\<lparr>ib_consumerWaiting := False\<rparr> else c)
           in (c\<lparr>ib_list := enqueue (ib_list c) \<lparr>rs_buf = b, rs_offset = 0\<rparr>\<rparr>, wakeUp, None)))"

definition IoBuffer_signal :: "IoBuffer \<Rightarrow> IoBuffer" where
  "IoBuffer_signal c = c\<lparr>ib_ch := True\<rparr>"

definition IoBuffer_Finish :: "IoBuffer \<Rightarrow> IoBuffer \<times> bool" where
  "IoBuffer_Finish c =
     (if ib_err c \<noteq> None then (c, False) else (c\<lparr>ib_err := Some ErrCancel\<rparr>, True))"

datatype ReadRes = Got bytes | Failed IoErr | MustWait

text \<open>The critical section at the label \<^verbatim>\<open>checklist\<close> of \<open>Pick\<close>.\<close>

definition Pick_check :: "IoBuffer \<Rightarrow> (IoBuffer \<times> ReadRes) option" where
  "Pick_check c =
     (let c = c\<lparr>ib_consumerWaiting := False\<rparr> in
      if \<not> isEmpty (ib_list c) then do {
        s \<leftarrow> peek (ib_list c);
        if rs_offset s \<le> length (rs_buf s) then
          Some (c\<lparr>ib_list := fst (dequeue (ib_list c))\<rparr>, Got (drop (rs_offset s) (rs_buf s)))
        else None }
      else case ib_err c of
        Some e \<Rightarrow> Some (c, Failed e)
      | None \<Rightarrow> Some (c\<lparr>ib_consumerWaiting := True\<rparr>, MustWait))"

text \<open>The inner loop of \<open>Get\<close>: \<open>acc\<close> is \<^verbatim>\<open>b[:n]\<close> and \<open>len\<close> is \<^verbatim>\<open>len(b)\<close>.\<close>

partial_function (option) Get_loop :: "nat \<Rightarrow> bytes \<Rightarrow> itemList \<Rightarrow> (itemList \<times> bytes) option" where
  "Get_loop len acc il = do {
     s \<leftarrow> peek il;
     let rest = drop (rs_offset s) (rs_buf s);
     let inc = min (len - length acc) (length rest);
     let acc = acc @ take inc rest;
     let off = rs_offset s + inc;
     let il = set_head_offset il off;
     if length (rs_buf s) \<le> off then
       (let il = fst (dequeue il) in
        if isEmpty il then Some (il, acc)
        else if len \<le> length acc then Some (il, acc)
        else Get_loop len acc il)
     else if len \<le> length acc then Some (il, acc)
     else Get_loop len acc il }"

definition Get_check :: "nat \<Rightarrow> IoBuffer \<Rightarrow> (IoBuffer \<times> ReadRes) option" where
  "Get_check len c =
     (let c = c\<lparr>ib_consumerWaiting := False\<rparr> in
      if \<not> isEmpty (ib_list c) then do {
        (il, acc) \<leftarrow> Get_loop len [] (ib_list c);
        Some (c\<lparr>ib_list := il\<rparr>, Got acc) }
      else case ib_err c of
        Some e \<Rightarrow> Some (c, Failed e)
      | None \<Rightarrow> Some (c\<lparr>ib_consumerWaiting := True\<rparr>, MustWait))"

section \<open>Bytes in order\<close>

definition stream :: "readStream list \<Rightarrow> bytes" where
  "stream xs = concat (map (\<lambda>s. drop (rs_offset s) (rs_buf s)) xs)"

lemma stream_simps [simp]:
  "stream [] = []" "stream (x # xs) = drop (rs_offset x) (rs_buf x) @ stream xs"
  "stream (xs @ ys) = stream xs @ stream ys"
  by (simp_all add: stream_def)

text \<open>One turn of the loop on the first segment \<open>x\<close>: it is used up, or the caller's slice is full.\<close>

lemma Get_loop_step:
  fixes len :: nat and acc :: bytes
  assumes r: "il_repr il (x # xs)"
  defines "rest \<equiv> drop (rs_offset x) (rs_buf x)" and "k \<equiv> len - length acc"
  shows "length rest \<le> k \<Longrightarrow> \<exists>il'. il_repr il' xs \<and>
      Get_loop len acc il = (if xs = [] \<or> len \<le> length (acc @ rest) then Some (il', acc @ rest)
        else Get_loop len (acc @ rest) il')"
    and "k < length rest \<Longrightarrow> \<exists>il' x'. il_repr il' (x' # xs) \<and>
      rs_offset x' \<le> length (rs_buf x') \<and> drop (rs_offset x') (rs_buf x') = drop k rest \<and> Get_loop len acc il = Some (il', acc @ take k rest)"
proof -
  note p = il.repr_front [OF r] and so = il_repr_set_offset [OF r]
  assume a: "length rest \<le> k"
  let ?il = "fst (dequeue (set_head_offset il (rs_offset x + length rest)))"
  have d: "il_repr ?il xs" using il.repr_deq [OF so] by blast
  moreover have "min k (length rest) = length rest" "length (rs_buf x) \<le> rs_offset x + length rest"
    "length (rs_buf x) \<le> rs_offset x + (length (rs_buf x) - rs_offset x)"
    using a by (auto simp: rest_def)
  ultimately have "Get_loop len acc il = (if xs = [] \<or> len \<le> length (acc @ rest) then Some (?il, acc @ rest)
        else Get_loop len (acc @ rest) ?il)"
    using il.repr_empty [OF d] by (subst Get_loop.simps) (simp add: p Let_def rest_def [symmetric] k_def [symmetric])
  with d show "\<exists>il'. il_repr il' xs \<and>
      Get_loop len acc il = (if xs = [] \<or> len \<le> length (acc @ rest) then Some (il', acc @ rest)
        else Get_loop len (acc @ rest) il')" by blast
next
  note p = il.repr_front [OF r] and so = il_repr_set_offset [OF r, of "rs_offset x + k"]
  assume a: "k < length rest"
  then have "min k (length rest) = k" "\<not> length (rs_buf x) \<le> rs_offset x + k" "len \<le> length (acc @ take k rest)"
    by (auto simp: rest_def k_def)
  then have "Get_loop len acc il = Some (set_head_offset il (rs_offset x + k), acc @ take k rest)"
    by (subst Get_loop.simps) (simp add: p Let_def rest_def [symmetric] k_def [symmetric])
  moreover have "drop (rs_offset (x\<lparr>rs_offset := rs_offset x + k\<rparr>)) (rs_buf (x\<lparr>rs_offset := rs_offset x + k\<rparr>)) = drop k rest"
    "rs_offset (x\<lparr>rs_offset := rs_offset x + k\<rparr>) \<le> length (rs_buf (x\<lparr>rs_offset := rs_offset x + k\<rparr>))"
    using a by (simp_all add: rest_def add.commute)
  ultimately show "\<exists>il' x'. il_repr il' (x' # xs) \<and>
      rs_offset x' \<le> length (rs_buf x') \<and> drop (rs_offset x') (rs_buf x') = drop k rest \<and> Get_loop len acc il = Some (il', acc @ take k rest)"
    using so by blast
qed

lemma Get_loop_correct:
  assumes "il_repr il (x # xs)" "\<forall>x \<in> set xs. rs_offset x \<le> length (rs_buf x)"
  shows "\<exists>il' ys. Get_loop len acc il = Some (il', acc @ take (len - length acc) (stream (x # xs))) \<and>
    il_repr il' ys \<and> (\<forall>x \<in> set ys. rs_offset x \<le> length (rs_buf x)) \<and> stream ys = drop (len - length acc) (stream (x # xs))"
  using assms
proof (induction xs arbitrary: il x acc)
  case (Nil il x acc)
  show ?case
  proof (cases "length (drop (rs_offset x) (rs_buf x)) \<le> len - length acc")
    case True
    from Get_loop_step(1) [OF Nil(1) this] True show ?thesis by (fastforce intro: exI [of _ "[]"])
  next
    case False
    from Get_loop_step(2) [OF Nil(1), of len acc] False show ?thesis by (fastforce intro: exI [of _ "[_]"])
  qed
next
  case (Cons y ys il x acc)
  let ?rest = "drop (rs_offset x) (rs_buf x)"
  show ?case
  proof (cases "length ?rest \<le> len - length acc")
    case True
    from Get_loop_step(1) [OF Cons.prems(1) True] obtain il' where il': "il_repr il' (y # ys)"
      "Get_loop len acc il = (if len \<le> length (acc @ ?rest) then Some (il', acc @ ?rest)
        else Get_loop len (acc @ ?rest) il')" by auto
    have k: "len - length (acc @ ?rest) = len - length acc - length ?rest" by simp
    show ?thesis
    proof (cases "len \<le> length (acc @ ?rest)")
      case full: True
      then have "len - length acc = length ?rest" using True k by linarith
      then show ?thesis using il' full Cons.prems(2) by (intro exI [of _ il'] exI [of _ "y # ys"]) simp
    next
      case False
      from Cons.IH [OF il'(1), of "acc @ ?rest"] il'(2) False True Cons.prems(2) show ?thesis unfolding k by simp
    qed
  next
    case False
    then obtain il' x' where "il_repr il' (x' # y # ys)" "rs_offset x' \<le> length (rs_buf x')" "drop (rs_offset x') (rs_buf x') = drop (len - length acc) ?rest"
        "Get_loop len acc il = Some (il', acc @ take (len - length acc) ?rest)"
      using Get_loop_step(2) [OF Cons.prems(1), of len acc] by auto
    then show ?thesis using False Cons.prems(2) by (intro exI [of _ il'] exI [of _ "x' # y # ys"]) simp
  qed
qed

section \<open>Producers and a consumer\<close>

text \<open>
  The buffer with its goroutines. \<open>w_wakes\<close> counts the producers that have left the critical
  section of \<open>Put\<close> and still have to signal; the consumer is idle, about to run its critical
  section, or blocked in the \<^verbatim>\<open>select\<close>. \<open>w_sent\<close> and \<open>w_recv\<close> record the bytes accepted
  by \<open>Put\<close> and returned by \<open>Pick\<close> and \<open>Get\<close>.
\<close>

datatype ReadOp = OpPick | OpGet nat

datatype ReadPc = PcIdle | PcCheck ReadOp | PcSelect ReadOp

record IoWorld =
  w_buf :: IoBuffer
  w_wakes :: nat
  w_pc :: ReadPc
  w_done :: bool
  w_sent :: bytes
  w_recv :: bytes

fun op_check :: "ReadOp \<Rightarrow> IoBuffer \<Rightarrow> (IoBuffer \<times> ReadRes) option" where
  "op_check OpPick c = Pick_check c"
| "op_check (OpGet len) c = Get_check len c"

definition io_start :: "itemNode \<Rightarrow> IoWorld" where
  "io_start n0 = \<lparr>w_buf = NewIoBuffer n0, w_wakes = 0, w_pc = PcIdle, w_done = False, w_sent = [], w_recv = []\<rparr>"

inductive io_step :: "IoWorld \<Rightarrow> IoWorld \<Rightarrow> bool" where
  put_ok: "IoBuffer_Put (w_buf w) b = (c, wk, None) \<Longrightarrow>
    io_step w (w\<lparr>w_buf := c, w_wakes := (if wk then Suc (w_wakes w) else w_wakes w), w_sent := w_sent w @ b\<rparr>)"
| put_err: "IoBuffer_Put (w_buf w) b = (c, wk, Some e) \<Longrightarrow> io_step w (w\<lparr>w_buf := c\<rparr>)"
| signal: "w_wakes w = Suc k \<Longrightarrow> io_step w (w\<lparr>w_buf := IoBuffer_signal (w_buf w), w_wakes := k\<rparr>)"
| call: "w_pc w = PcIdle \<Longrightarrow> io_step w (w\<lparr>w_pc := PcCheck rop\<rparr>)"
| check_got: "w_pc w = PcCheck rop \<Longrightarrow> op_check rop (w_buf w) = Some (c, Got b) \<Longrightarrow>
    io_step w (w\<lparr>w_buf := c, w_pc := PcIdle, w_recv := w_recv w @ b\<rparr>)"
| check_fail: "w_pc w = PcCheck rop \<Longrightarrow> op_check rop (w_buf w) = Some (c, Failed e) \<Longrightarrow>
    io_step w (w\<lparr>w_buf := c, w_pc := PcIdle\<rparr>)"
| check_wait: "w_pc w = PcCheck rop \<Longrightarrow> op_check rop (w_buf w) = Some (c, MustWait) \<Longrightarrow>
    io_step w (w\<lparr>w_buf := c, w_pc := PcSelect rop\<rparr>)"
| sel_ch: "w_pc w = PcSelect rop \<Longrightarrow> ib_ch (w_buf w) \<Longrightarrow>
    io_step w (w\<lparr>w_buf := (w_buf w)\<lparr>ib_ch := False\<rparr>, w_pc := PcCheck rop\<rparr>)"
| sel_timeout: "w_pc w = PcSelect rop \<Longrightarrow> ib_fired (w_buf w) \<Longrightarrow>
    io_step w (w\<lparr>w_buf := (w_buf w)\<lparr>ib_consumerWaiting := False, ib_fired := False\<rparr>, w_pc := PcIdle\<rparr>)"
| expire: "ib_armed (w_buf w) \<Longrightarrow> io_step w (w\<lparr>w_buf := IoBuffer_expire (w_buf w)\<rparr>)"
| set_timeout: "io_step w (w\<lparr>w_buf := IoBuffer_SetTimeout (w_buf w) t\<rparr>)"
| sel_done: "w_pc w = PcSelect rop \<Longrightarrow> w_done w \<Longrightarrow> IoBuffer_Finish (w_buf w) = (c, ok) \<Longrightarrow>
    io_step w (w\<lparr>w_buf := c, w_pc := (if ok then PcCheck rop else PcIdle)\<rparr>)"
| closing: "io_step w (w\<lparr>w_done := True\<rparr>)"

inductive io_reach :: "itemNode \<Rightarrow> IoWorld \<Rightarrow> bool" for n0 where
  io_init: "io_reach n0 (io_start n0)"
| io_more: "io_reach n0 w \<Longrightarrow> io_step w w' \<Longrightarrow> io_reach n0 w'"

definition io_inv :: "IoWorld \<Rightarrow> bool" where
  "io_inv w \<longleftrightarrow> (\<exists>xs. il_repr (ib_list (w_buf w)) xs \<and> (\<forall>x \<in> set xs. rs_offset x \<le> length (rs_buf x)) \<and>
     w_recv w @ stream xs = w_sent w \<and>
     ((\<exists>rop. w_pc w = PcSelect rop) \<longrightarrow>
        (ib_consumerWaiting (w_buf w) \<and> xs = []) \<or> ib_ch (w_buf w) \<or> 0 < w_wakes w))"

lemma op_check_correct:
  assumes r: "il_repr (ib_list c) xs" and off: "\<forall>x \<in> set xs. rs_offset x \<le> length (rs_buf x)"
  shows "\<exists>c' res ys. op_check rop c = Some (c', res) \<and> il_repr (ib_list c') ys \<and>
    (\<forall>x \<in> set ys. rs_offset x \<le> length (rs_buf x)) \<and> ib_ch c' = ib_ch c \<and> ib_err c' = ib_err c \<and>
    (case res of Got b \<Rightarrow> b @ stream ys = stream xs \<and> xs \<noteq> []
     | MustWait \<Rightarrow> ib_consumerWaiting c' \<and> xs = [] \<and> ys = [] \<and> ib_err c = None
     | Failed e \<Rightarrow> xs = [] \<and> ys = [] \<and> ib_err c = Some e)"
proof (cases xs)
  case Nil
  then have e: "isEmpty (ib_list c)" using il.repr_empty [OF r] by simp
  show ?thesis
  proof (cases rop)
    case OpPick
    then show ?thesis using e r Nil by (cases "ib_err c") (auto simp: Pick_check_def Let_def)
  next
    case (OpGet len)
    then show ?thesis using e r Nil by (cases "ib_err c") (auto simp: Get_check_def Let_def)
  qed
next
  case (Cons x zs)
  then have r': "il_repr (ib_list c) (x # zs)" and e: "\<not> isEmpty (ib_list c)" using r il.repr_empty [OF r] by auto
  show ?thesis
  proof (cases rop)
    case OpPick
    have "il_repr (fst (dequeue (ib_list c))) zs" using il.repr_deq [OF r'] by blast
    then show ?thesis using OpPick e off Cons il.repr_front [OF r'] 
      by (intro exI [of _ "c\<lparr>ib_consumerWaiting := False, ib_list := fst (dequeue (ib_list c))\<rparr>"]
          exI [of _ "Got (drop (rs_offset x) (rs_buf x))"] exI [of _ zs]) (simp add: Pick_check_def Let_def)
  next
    case (OpGet len)
    obtain il' ys where "Get_loop len [] (ib_list c) = Some (il', take len (stream xs))" "il_repr il' ys"
      "\<forall>x \<in> set ys. rs_offset x \<le> length (rs_buf x)" "stream ys = drop len (stream xs)"
      using Get_loop_correct [OF r', of len "[]"] off Cons by auto
    moreover have "xs \<noteq> []" using Cons by simp
    ultimately show ?thesis using OpGet e
      by (intro exI [of _ "c\<lparr>ib_consumerWaiting := False, ib_list := il'\<rparr>"] exI [of _ "Got (take len (stream xs))"] exI [of _ ys])
        (simp add: Get_check_def Let_def)
  qed
qed

lemma io_inv_start: "io_inv (io_start n0)"
  by (auto simp: io_inv_def io_start_def NewIoBuffer_def intro: exI [of _ "[]"] il_repr_new)

lemma io_inv_check:
  assumes inv: "io_inv w" and pc: "w_pc w = PcCheck rop" and c: "op_check rop (w_buf w) = Some (c, res)"
  shows "io_inv (w\<lparr>w_buf := c, w_pc := (case res of MustWait \<Rightarrow> PcSelect rop | _ \<Rightarrow> PcIdle),
    w_recv := w_recv w @ (case res of Got b \<Rightarrow> b | _ \<Rightarrow> [])\<rparr>)"
proof -
  from inv obtain xs where xs: "il_repr (ib_list (w_buf w)) xs" "\<forall>x \<in> set xs. rs_offset x \<le> length (rs_buf x)"
    "w_recv w @ stream xs = w_sent w" by (auto simp: io_inv_def)
  from op_check_correct [OF xs(1,2), of rop] c obtain ys where ys: "il_repr (ib_list c) ys"
    "\<forall>x \<in> set ys. rs_offset x \<le> length (rs_buf x)"
    "case res of Got b \<Rightarrow> b @ stream ys = stream xs \<and> xs \<noteq> []
     | MustWait \<Rightarrow> ib_consumerWaiting c \<and> xs = [] \<and> ys = [] \<and> ib_err (w_buf w) = None
     | Failed e \<Rightarrow> xs = [] \<and> ys = [] \<and> ib_err (w_buf w) = Some e" by auto
  then show ?thesis unfolding io_inv_def using xs(3)
    by (intro exI [of _ ys]) (cases res; simp)
qed

lemma io_inv_put:
  assumes inv: "io_inv w" and p: "IoBuffer_Put (w_buf w) b = (c, wk, None)"
  shows "io_inv (w\<lparr>w_buf := c, w_wakes := (if wk then Suc (w_wakes w) else w_wakes w), w_sent := w_sent w @ b\<rparr>)"
proof -
  from inv obtain xs where xs: "il_repr (ib_list (w_buf w)) xs" "\<forall>x \<in> set xs. rs_offset x \<le> length (rs_buf x)"
    "w_recv w @ stream xs = w_sent w"
    "(\<exists>rop. w_pc w = PcSelect rop) \<longrightarrow>
        (ib_consumerWaiting (w_buf w) \<and> xs = []) \<or> ib_ch (w_buf w) \<or> 0 < w_wakes w" by (auto simp: io_inv_def)
  let ?x = "\<lparr>rs_buf = b, rs_offset = 0\<rparr>"
  from p have c: "ib_list c = enqueue (ib_list (w_buf w)) ?x" "ib_ch c = ib_ch (w_buf w)"
    "wk = ib_consumerWaiting (w_buf w)"
    by (auto simp: IoBuffer_Put_def Let_def split: option.splits)
  have "w_recv w @ stream (xs @ [?x]) = w_sent w @ b" using xs(3) by simp
  then show ?thesis unfolding io_inv_def
    using xs(2,4) c il.repr_enq [OF xs(1), of ?x] by (intro exI [of _ "xs @ [?x]"]) auto
qed

lemma io_step_inv: "io_step w w' \<Longrightarrow> io_inv w \<Longrightarrow> io_inv w'"
proof (induction rule: io_step.induct)
  case (put_ok w b c wk)
  then show ?case by (simp add: io_inv_put)
next
  case (check_got w rop c b)
  from io_inv_check [OF check_got(3,1,2)] show ?case by simp
next
  case (check_fail w rop c e)
  from io_inv_check [OF check_fail(3,1,2)] show ?case by simp
next
  case (check_wait w rop c)
  from io_inv_check [OF check_wait(3,1,2)] show ?case by simp
next
  case (put_err w b c wk e)
  then have "c = w_buf w" by (auto simp: IoBuffer_Put_def Let_def split: option.splits)
  then show ?case using put_err by simp
qed (auto simp: io_inv_def IoBuffer_signal_def IoBuffer_Finish_def IoBuffer_expire_def IoBuffer_SetTimeout_def
  split: if_splits option.splits)

lemma io_reach_inv: "io_reach n0 w \<Longrightarrow> io_inv w"
  by (induction rule: io_reach.induct) (auto intro: io_inv_start io_step_inv)

text \<open>A run of the buffer: the consumer blocks on the empty list, then a producer puts a byte.\<close>

definition io_blocked :: "IoWorld" where
  "io_blocked =
     (let n0 = \<lparr>nd_it = \<lparr>rs_buf = [], rs_offset = 0\<rparr>, nd_next = None\<rparr>;
          w = (io_start n0)\<lparr>w_pc := PcCheck OpPick\<rparr>;
          w = w\<lparr>w_buf := (w_buf w)\<lparr>ib_consumerWaiting := True\<rparr>, w_pc := PcSelect OpPick\<rparr>;
          (c, wk, e) = IoBuffer_Put (w_buf w) [5]
      in w\<lparr>w_buf := c, w_wakes := (if wk then Suc (w_wakes w) else w_wakes w), w_sent := w_sent w @ [5]\<rparr>)"

lemma io_blocked_reach: "io_reach \<lparr>nd_it = \<lparr>rs_buf = [], rs_offset = 0\<rparr>, nd_next = None\<rparr> io_blocked"
proof -
  let ?n0 = "\<lparr>nd_it = \<lparr>rs_buf = [], rs_offset = 0\<rparr>, nd_next = None\<rparr>"
  let ?w = "(io_start ?n0)\<lparr>w_pc := PcCheck OpPick\<rparr>"
  let ?c = "(w_buf ?w)\<lparr>ib_consumerWaiting := True\<rparr>"
  let ?v = "?w\<lparr>w_buf := ?c, w_pc := PcSelect OpPick\<rparr>"
  have "io_reach ?n0 ?w"
    by (rule io_reach.io_more [OF io_reach.io_init io_step.call]) (simp add: io_start_def)
  moreover have "io_step ?w ?v"
    by (rule io_step.check_wait)
      (simp_all add: io_start_def NewIoBuffer_def Pick_check_def itemList_new_def isEmpty_def Let_def)
  ultimately have "io_reach ?n0 ?v" by (rule io_reach.io_more)
  from io_reach.io_more [OF this io_step.put_ok, of "[5]"] show ?thesis
    by (simp add: io_blocked_def IoBuffer_Put_def io_start_def NewIoBuffer_def Let_def)
qed

section \<open>Properties\<close>

text \<open>
  C33: Whatever the interleaving of producers and the consumer, the bytes returned by \<open>Pick\<close> and
  \<open>Get\<close> followed by the bytes still in the linked list are the bytes accepted by \<open>Put\<close>, in order.
\<close>

theorem io_fifo:
  assumes "io_reach n0 w"
  shows "\<exists>xs. il_repr (ib_list (w_buf w)) xs \<and> w_recv w @ stream xs = w_sent w"
  using io_reach_inv [OF assms] by (auto simp: io_inv_def)

theorem io_fifo_witness: "\<exists>xs. il_repr (ib_list (w_buf io_blocked)) xs \<and> stream xs = [5]"
  using io_fifo [OF io_blocked_reach] by (simp add: io_blocked_def IoBuffer_Put_def io_start_def NewIoBuffer_def Let_def)

text \<open>
  C34: No wake-up is lost: when the consumer is blocked in the select although the list holds data,
  the wake-up channel holds a token or a producer is about to put one there.
\<close>

theorem io_no_lost_wakeup:
  assumes "io_reach n0 w" and "w_pc w = PcSelect rop" and "\<not> isEmpty (ib_list (w_buf w))"
  shows "ib_ch (w_buf w) \<or> 0 < w_wakes w"
  using io_reach_inv [OF assms(1)] assms(2,3) il.repr_empty by (auto simp: io_inv_def)

theorem io_no_lost_wakeup_witness: "ib_ch (w_buf io_blocked) \<or> 0 < w_wakes io_blocked"
proof (rule io_no_lost_wakeup [OF io_blocked_reach, of OpPick])
  show "w_pc io_blocked = PcSelect OpPick"
    by (simp add: io_blocked_def IoBuffer_Put_def io_start_def NewIoBuffer_def Let_def)
  show "\<not> isEmpty (ib_list (w_buf io_blocked))"
    by (simp add: io_blocked_def IoBuffer_Put_def io_start_def NewIoBuffer_def Let_def enqueue_def itemList_new_def isEmpty_def)
qed

text \<open>
  \<open>Get\<close> on a buffer with data terminates and fills the caller's slice with the next bytes of
  the stream, as many as there are up to its length, across segment boundaries; the rest stays.
\<close>

theorem io_get_exact:
  assumes "il_repr (ib_list c) (x # xs)" and "list_all (\<lambda>s. rs_offset s \<le> length (rs_buf s)) xs"
  shows "\<exists>c' ys. Get_check len c = Some (c', Got (take len (stream (x # xs)))) \<and>
    il_repr (ib_list c') ys \<and> stream ys = drop len (stream (x # xs))"
proof -
  have ne: "\<not> isEmpty (ib_list c)" using il.repr_empty [OF assms(1)] by simp
  from Get_loop_correct [OF assms(1), of len "[]"] assms(2) obtain il' ys where
    "Get_loop len [] (ib_list c) = Some (il', take len (stream (x # xs)))" "il_repr il' ys"
    "stream ys = drop len (stream (x # xs))" by (auto simp: list_all_iff)
  then show ?thesis using ne
    by (intro exI [of _ "c\<lparr>ib_consumerWaiting := False, ib_list := il'\<rparr>"] exI [of _ ys]) (simp add: Get_check_def Let_def)
qed

theorem io_get_exact_witness:
  "\<exists>c' ys. Get_check 3 \<lparr>ib_ch = False, ib_consumerWaiting = False,
      ib_list = enqueue (enqueue (itemList_new \<lparr>nd_it = \<lparr>rs_buf = [], rs_offset = 0\<rparr>, nd_next = None\<rparr>) \<lparr>rs_buf = [1, 2], rs_offset = 0\<rparr>) \<lparr>rs_buf = [3, 4], rs_offset = 0\<rparr>,
      ib_err = None, ib_armed = True, ib_fired = False\<rparr> = Some (c', Got [1, 2, 3]) \<and> il_repr (ib_list c') ys \<and> stream ys = [4]"
proof -
  let ?l = "enqueue (enqueue (itemList_new \<lparr>nd_it = \<lparr>rs_buf = [], rs_offset = 0\<rparr>, nd_next = None\<rparr>) \<lparr>rs_buf = [1, 2], rs_offset = 0\<rparr>) \<lparr>rs_buf = [3, 4], rs_offset = 0\<rparr>"
  have "il_repr ?l ([] @ [\<lparr>rs_buf = [1, 2], rs_offset = 0\<rparr>] @ [\<lparr>rs_buf = [3, 4], rs_offset = 0\<rparr>])"
    using il.repr_enq [OF il.repr_enq [OF il_repr_new]] by simp
  then have "il_repr (ib_list \<lparr>ib_ch = False, ib_consumerWaiting = False, ib_list = ?l, ib_err = None, ib_armed = True, ib_fired = False\<rparr>)
      [\<lparr>rs_buf = [1, 2], rs_offset = 0\<rparr>, \<lparr>rs_buf = [3, 4], rs_offset = 0\<rparr>]" by simp
  from io_get_exact [OF this, of 3] show ?thesis by (simp add: eval_nat_numeral)
qed

text \<open>
  A deadline is told once and at any time: a read that blocks after the deadline passed unread ends with
  the error of the deadline, also when the deadline has been moved or withdrawn in between; and after
  that error no read ends by a deadline until the next \<open>SetTimeout\<close>.
\<close>

theorem io_deadline_stale:
  assumes "w_pc w = PcIdle" "isEmpty (ib_list (w_buf w))" "ib_err (w_buf w) = None" "ib_fired (w_buf w)"
  shows "\<exists>w1 w2 w3 w4. io_step w w1 \<and> w_buf w1 = IoBuffer_SetTimeout (w_buf w) t \<and> io_step w1 w2 \<and> w_pc w2 = PcCheck OpPick \<and>
    io_step w2 w3 \<and> io_step w3 w4 \<and> w_pc w4 = PcIdle \<and> w_recv w4 = w_recv w \<and> \<not> ib_fired (w_buf w4)"
proof -
  let ?c = "IoBuffer_SetTimeout (w_buf w) t"
  let ?w1 = "w\<lparr>w_buf := ?c\<rparr>" and ?w3 = "w\<lparr>w_buf := ?c\<lparr>ib_consumerWaiting := True\<rparr>, w_pc := PcSelect OpPick\<rparr>"
  have c: "isEmpty (ib_list ?c)" "ib_err ?c = None" "ib_fired ?c" using assms by (simp_all add: IoBuffer_SetTimeout_def split: option.split)
  have "io_step w ?w1" by (rule io_step.set_timeout)
  moreover have "io_step ?w1 (?w1\<lparr>w_pc := PcCheck OpPick\<rparr>)" by (rule io_step.call) (simp add: assms(1))
  moreover have "io_step (?w1\<lparr>w_pc := PcCheck OpPick\<rparr>) ?w3"
    using io_step.check_wait [of "?w1\<lparr>w_pc := PcCheck OpPick\<rparr>" OpPick "?c\<lparr>ib_consumerWaiting := True\<rparr>"] c by (simp add: Pick_check_def)
  moreover have "io_step ?w3 (?w3\<lparr>w_buf := (w_buf ?w3)\<lparr>ib_consumerWaiting := False, ib_fired := False\<rparr>, w_pc := PcIdle\<rparr>)"
    by (rule io_step.sel_timeout) (use c in simp_all)
  ultimately show ?thesis
    by (intro exI [of _ ?w1] exI [of _ "?w1\<lparr>w_pc := PcCheck OpPick\<rparr>"] exI [of _ ?w3]
        exI [of _ "?w3\<lparr>w_buf := (w_buf ?w3)\<lparr>ib_consumerWaiting := False, ib_fired := False\<rparr>, w_pc := PcIdle\<rparr>"]) simp
qed

lemma check_timer: "op_check rop c = Some (c', res) \<Longrightarrow> ib_armed c' = ib_armed c \<and> ib_fired c' = ib_fired c"
  by (cases rop) (auto simp: Pick_check_def Get_check_def Let_def split: if_splits option.splits Option.bind_splits)

theorem io_deadline_once:
  assumes "io_step w w'" "\<not> ib_armed (w_buf w)" "\<not> ib_fired (w_buf w)"
  shows "(\<not> ib_armed (w_buf w') \<and> \<not> ib_fired (w_buf w')) \<or> (\<exists>d. w_buf w' = IoBuffer_SetTimeout (w_buf w) (Some d))"
  using assms
proof (induction rule: io_step.induct)
  case (set_timeout w t)
  then show ?case by (cases t) (auto simp: IoBuffer_SetTimeout_def)
qed (auto simp: IoBuffer_Put_def IoBuffer_signal_def IoBuffer_Finish_def Let_def dest!: check_timer split: if_splits option.splits)

end
