(* ===== verification/SkymeshConn.thy ===== *)
theory SkymeshConn
  imports VirConn Smio AgentServer
begin

text \<open>
  \<^verbatim>\<open>src/extension/grpc/conn.go\<close> and \<^verbatim>\<open>conn_mngr.go\<close>: a virtual connection between two services,
  with sequence numbers and a stream buffer, and the manager of the connections of one service. A
  connection is shared by pointer between the manager, its list and the application, so connections
  live in the memory \<open>ep_mem\<close> of the \<open>Endpoint\<close>; a connection is pushed on the list once, so
  its reference stands for the list element. \<open>ep_out\<close> are the packets the transport accepted, with
  the handle they go to. \<open>terr\<close> is the error, if any, of \<^verbatim>\<open>SendByHandle\<close>, \<open>pack\<close> the packet
  format. \<open>None\<close> is a panic.
\<close>

unbundle bit_operations_syntax

type_synonym vpack = "u32 \<Rightarrow> u64 \<Rightarrow> bytes \<Rightarrow> u32 option \<Rightarrow> bytes option"
type_synonym vunpack = "bytes \<Rightarrow> (u32 \<times> u64 \<times> bytes \<times> u32 option) option"
type_synonym senderr = "u64 \<Rightarrow> SendErr option"

datatype ConnErr = VPackErr | VSendErr SendErr | InvalidRecvSeq | BufErr IoErr | ConnHasClosed | DupConnID u64 | ConnNotExist

definition SessionExpiredSecond :: int where [simp]: "SessionExpiredSecond = 60"
definition MaxExpiredConnNumPerCheck :: nat where [simp]: "MaxExpiredConnNumPerCheck = 128"

record SkymeshConn =
  vc_connID :: u64
  vc_rmtAddr :: Addr
  vc_done :: bool
  vc_cbuf :: IoBuffer
  vc_sendSeq :: u32
  vc_recvSeq :: u32
  vc_connMgr :: bool
  vc_lastUpTime :: int

record Endpoint =
  ep_mem :: "nat \<Rightarrow> SkymeshConn"
  ep_next :: nat
  ep_connLruList :: "nat list"
  ep_conns :: "(u64, (u64, nat) gomap) gomap"
  ep_connSeq :: u32
  ep_connSeed :: u32
  ep_out :: "(u64 \<times> bytes) list"

definition upd_conn :: "Endpoint \<Rightarrow> nat \<Rightarrow> (SkymeshConn \<Rightarrow> SkymeshConn) \<Rightarrow> Endpoint" where
  "upd_conn ep r f = ep\<lparr>ep_mem := (ep_mem ep)(r := f (ep_mem ep r))\<rparr>"

definition conn_handle :: "Endpoint \<Rightarrow> nat \<Rightarrow> u64" where
  "conn_handle ep r = AddrHandle (vc_rmtAddr (ep_mem ep r))"

section \<open>A connection\<close>

definition NewSkymeshConn :: "itemNode \<Rightarrow> int \<Rightarrow> Endpoint \<Rightarrow> u64 \<Rightarrow> Addr \<Rightarrow> Endpoint \<times> nat" where
  "NewSkymeshConn n0 now ep connID rmtAddr =
     (let r = ep_next ep in
      (ep\<lparr>ep_next := Suc r,
          ep_mem := (ep_mem ep)(r := \<lparr>vc_connID = connID, vc_rmtAddr = rmtAddr, vc_done = False, vc_cbuf = NewIoBuffer n0,
            vc_sendSeq = 0, vc_recvSeq = 0, vc_connMgr = False, vc_lastUpTime = now\<rparr>)\<rparr>, r))"

definition SkymeshConn_Send ::
  "vpack \<Rightarrow> senderr \<Rightarrow> Endpoint \<Rightarrow> nat \<Rightarrow> u32 \<Rightarrow> bytes \<Rightarrow> Endpoint \<times> ConnErr option" where
  "SkymeshConn_Send pack terr ep r vConnCmd msg =
     (case pack vConnCmd (vc_connID (ep_mem ep r)) msg (Some (vc_sendSeq (ep_mem ep r))) of
        None \<Rightarrow> (ep, Some VPackErr)
      | Some packets \<Rightarrow>
          (case terr (conn_handle ep r) of
             Some e \<Rightarrow> (ep, Some (VSendErr e))
           | None \<Rightarrow>
               (let ep = ep\<lparr>ep_out := ep_out ep @ [(conn_handle ep r, packets)]\<rparr> in
                if vConnCmd AND KVConnCmdData \<noteq> 0
                then (upd_conn ep r (\<lambda>c. c\<lparr>vc_sendSeq := vc_sendSeq c + 1\<rparr>), None)
                else (ep, None))))"

definition SkymeshConn_Connect :: "vpack \<Rightarrow> senderr \<Rightarrow> Endpoint \<Rightarrow> nat \<Rightarrow> Endpoint \<times> ConnErr option" where
  "SkymeshConn_Connect pack terr ep r = SkymeshConn_Send pack terr ep r KVConnCmdConnect []"

text \<open>\<open>Put\<close> and its wake-up on the buffer of the connection.\<close>

definition cbuf_put :: "IoBuffer \<Rightarrow> bytes \<Rightarrow> IoBuffer \<times> IoErr option" where
  "cbuf_put c b = (case IoBuffer_Put c b of (c, wakeUp, err) \<Rightarrow> ((if wakeUp then IoBuffer_signal c else c), err))"

definition SkymeshConn_OnRecv ::
  "vpack \<Rightarrow> senderr \<Rightarrow> int \<Rightarrow> Endpoint \<Rightarrow> nat \<Rightarrow> bytes \<Rightarrow> u32 option \<Rightarrow> Endpoint \<times> ConnErr option" where
  "SkymeshConn_OnRecv pack terr now ep r msg ext =
     (let ep = upd_conn ep r (\<lambda>c. c\<lparr>vc_lastUpTime := now\<rparr>) in
      if ext \<noteq> Some (vc_recvSeq (ep_mem ep r)) then
        (fst (SkymeshConn_Send pack terr ep r KVConnCmdClose []), Some InvalidRecvSeq)
      else
        (let ep = upd_conn ep r (\<lambda>c. c\<lparr>vc_recvSeq := vc_recvSeq c + 1\<rparr>);
             (buf, err) = cbuf_put (vc_cbuf (ep_mem ep r)) msg
         in (upd_conn ep r (\<lambda>c. c\<lparr>vc_cbuf := buf\<rparr>), map_option BufErr err)))"

text \<open>Closing a closed channel is a panic.\<close>

definition SkymeshConn_OnClose :: "Endpoint \<Rightarrow> nat \<Rightarrow> Endpoint option" where
  "SkymeshConn_OnClose ep r =
     (if vc_done (ep_mem ep r) then None else Some (upd_conn ep r (\<lambda>c. c\<lparr>vc_done := True\<rparr>)))"

definition SkymeshConn_CheckExpired :: "SkymeshConn \<Rightarrow> int \<Rightarrow> bool" where
  "SkymeshConn_CheckExpired c now = (vc_lastUpTime c + SessionExpiredSecond < now)"

definition SkymeshConn_Write :: "vpack \<Rightarrow> senderr \<Rightarrow> Endpoint \<Rightarrow> nat \<Rightarrow> bytes \<Rightarrow> Endpoint \<times> nat \<times> ConnErr option" where
  "SkymeshConn_Write pack terr ep r b =
     (case SkymeshConn_Send pack terr ep r KVConnCmdData b of
        (ep, Some e) \<Rightarrow> (ep, 0, Some e)
      | (ep, None) \<Rightarrow> (ep, length b, None))"

definition SkymeshConn_SetConnMngr :: "SkymeshConn \<Rightarrow> SkymeshConn" where
  [simp]: "SkymeshConn_SetConnMngr = vc_connMgr_update (\<lambda>_. True)"

text \<open>The addresses and deadlines of \<^verbatim>\<open>net.Conn\<close>; \<open>local\<close> is the address of the transport. Writes have no deadline.\<close>

definition SkymeshConn_LocalAddr :: "Addr \<Rightarrow> Endpoint \<Rightarrow> nat \<Rightarrow> Addr" where
  "SkymeshConn_LocalAddr local ep r = local"

definition SkymeshConn_RemoteAddr :: "Endpoint \<Rightarrow> nat \<Rightarrow> Addr" where
  "SkymeshConn_RemoteAddr ep r = vc_rmtAddr (ep_mem ep r)"

definition SkymeshConn_String :: "Addr \<Rightarrow> Endpoint \<Rightarrow> nat \<Rightarrow> string" where
  "SkymeshConn_String local ep r =
     (let c = ep_mem ep r in
      ''['' @ Addr_String local @ ''->'' @ Addr_String (vc_rmtAddr c) @ '' ('' @ dec (unat (AddrHandle (vc_rmtAddr c))) @
      '','' @ dec (unat (vc_connID c)) @ '')]'')"

definition SkymeshConn_SetReadDeadline :: "Endpoint \<Rightarrow> nat \<Rightarrow> int option \<Rightarrow> Endpoint" where
  "SkymeshConn_SetReadDeadline ep r t = upd_conn ep r (\<lambda>c. c\<lparr>vc_cbuf := IoBuffer_SetTimeout (vc_cbuf c) t\<rparr>)"

definition SkymeshConn_SetDeadline :: "Endpoint \<Rightarrow> nat \<Rightarrow> int option \<Rightarrow> Endpoint" where
  "SkymeshConn_SetDeadline ep r t = SkymeshConn_SetReadDeadline ep r t"

definition SkymeshConn_SetWriteDeadline :: "Endpoint \<Rightarrow> nat \<Rightarrow> int option \<Rightarrow> Endpoint" where
  "SkymeshConn_SetWriteDeadline ep r t = ep"

section \<open>The manager\<close>

definition NewConnMgr :: "SkymeshConn \<Rightarrow> int \<Rightarrow> Endpoint" where
  "NewConnMgr c0 nowMS =
     \<lparr>ep_mem = (\<lambda>_. c0), ep_next = 0, ep_connLruList = [], ep_conns = [], ep_connSeq = 0,
      ep_connSeed = word_of_int nowMS, ep_out = []\<rparr>"

definition GenerateConnID :: "Endpoint \<Rightarrow> Endpoint \<times> u64" where
  "GenerateConnID cm =
     (let seq = ep_connSeq cm + 1 in
      (cm\<lparr>ep_connSeq := seq\<rparr>, push_bit 32 (ucast (seq AND 0xffff)) OR ucast (ep_connSeed cm)))"

definition conns_of :: "Endpoint \<Rightarrow> u64 \<Rightarrow> (u64, nat) gomap" where
  "conns_of cm h = (case mget (ep_conns cm) h of None \<Rightarrow> [] | Some m \<Rightarrow> m)"

definition AddConn :: "Endpoint \<Rightarrow> u64 \<Rightarrow> u64 \<Rightarrow> nat \<Rightarrow> Endpoint \<times> ConnErr option" where
  "AddConn cm h connID r =
     (let cm = cm\<lparr>ep_conns := mput h (conns_of cm h) (ep_conns cm)\<rparr> in
      case mget (conns_of cm h) connID of
        Some _ \<Rightarrow> (cm, Some (DupConnID connID))
      | None \<Rightarrow>
          (let cm = cm\<lparr>ep_connLruList := ep_connLruList cm @ [r], ep_conns := mput h (mput connID r (conns_of cm h)) (ep_conns cm)\<rparr>
           in (upd_conn cm r SkymeshConn_SetConnMngr, None)))"

definition GetConn :: "Endpoint \<Rightarrow> u64 \<Rightarrow> u64 \<Rightarrow> bool \<Rightarrow> Endpoint \<times> nat option" where
  "GetConn cm h connID updateLru =
     (case mget (ep_conns cm) h of
        None \<Rightarrow> (cm, None)
      | Some connItems \<Rightarrow>
          (case mget connItems connID of
             None \<Rightarrow> (cm, None)
           | Some r \<Rightarrow>
               ((if updateLru then cm\<lparr>ep_connLruList := remove1 r (ep_connLruList cm) @ [r]\<rparr> else cm), Some r)))"

definition DelConn :: "Endpoint \<Rightarrow> u64 \<Rightarrow> u64 \<Rightarrow> (Endpoint \<times> bool) option" where
  "DelConn cm h connID =
     (case mget (ep_conns cm) h of
        None \<Rightarrow> Some (cm, False)
      | Some connItems \<Rightarrow>
          (case mget connItems connID of
             None \<Rightarrow> Some (cm, False)
           | Some r \<Rightarrow> do {
               cm \<leftarrow> SkymeshConn_OnClose cm r;
               Some (cm\<lparr>ep_connLruList := remove1 r (ep_connLruList cm),
                        ep_conns := mput h (mdel connID connItems) (ep_conns cm)\<rparr>, True) }))"

definition DelConns :: "Endpoint \<Rightarrow> u64 \<Rightarrow> Endpoint" where
  "DelConns cm h =
     (case mget (ep_conns cm) h of
        None \<Rightarrow> cm
      | Some connItems \<Rightarrow>
          (let cm = fold (\<lambda>r cm. cm\<lparr>ep_connLruList := remove1 r (ep_connLruList cm)\<rparr>) (mvals connItems) cm
           in cm\<lparr>ep_conns := mdel h (ep_conns cm)\<rparr>))"

definition SkymeshConn_Close :: "vpack \<Rightarrow> senderr \<Rightarrow> Endpoint \<Rightarrow> nat \<Rightarrow> (Endpoint \<times> ConnErr option) option" where
  "SkymeshConn_Close pack terr ep r = do {
     let ep = fst (SkymeshConn_Send pack terr ep r KVConnCmdClose []);
     (ep, ok) \<leftarrow> DelConn ep (conn_handle ep r) (vc_connID (ep_mem ep r));
     Some (ep, if ok then None else Some ConnHasClosed) }"

text \<open>The loop of \<open>CheckExpired\<close> from the front of the list, then the closing outside of the lock.\<close>

fun expired_conns :: "(nat \<Rightarrow> SkymeshConn) \<Rightarrow> int \<Rightarrow> nat \<Rightarrow> nat list \<Rightarrow> nat list" where
  "expired_conns mem now k [] = []"
| "expired_conns mem now k (r # rs) =
     (if k < MaxExpiredConnNumPerCheck then
        if \<not> SkymeshConn_CheckExpired (mem r) now then []
        else r # expired_conns mem now (Suc k) rs
      else [])"

definition ConnMgr_CheckExpired :: "vpack \<Rightarrow> senderr \<Rightarrow> int \<Rightarrow> Endpoint \<Rightarrow> Endpoint option" where
  "ConnMgr_CheckExpired pack terr now cm =
     rangeM (\<lambda>r cm. map_option fst (SkymeshConn_Close pack terr cm r)) (expired_conns (ep_mem cm) now 0 (ep_connLruList cm)) cm"

definition ConnMgr_Close :: "Endpoint \<Rightarrow> Endpoint" where
  "ConnMgr_Close cm = cm\<lparr>ep_conns := [], ep_connLruList := []\<rparr>"

section \<open>The invariant\<close>

text \<open>
  The table and the list hold the same connections, each under the handle of its peer and its number, and
  none of them is closed.
\<close>

definition conn_at :: "Endpoint \<Rightarrow> u64 \<Rightarrow> u64 \<Rightarrow> nat option" where
  "conn_at ep h i = mget (conns_of ep h) i"

definition ep_ok :: "Endpoint \<Rightarrow> bool" where
  "ep_ok ep \<longleftrightarrow> distinct (ep_connLruList ep) \<and>
     (\<forall>h m. mget (ep_conns ep) h = Some m \<longrightarrow> mwf m) \<and>
     (\<forall>h i r. conn_at ep h i = Some r \<longrightarrow> r \<in> set (ep_connLruList ep) \<and> r < ep_next ep \<and>
        vc_connID (ep_mem ep r) = i \<and> conn_handle ep r = h \<and> \<not> vc_done (ep_mem ep r)) \<and>
     (\<forall>r \<in> set (ep_connLruList ep). conn_at ep (conn_handle ep r) (vc_connID (ep_mem ep r)) = Some r)"

lemma ep_okD:
  assumes "ep_ok ep" "conn_at ep h i = Some r"
  shows "r \<in> set (ep_connLruList ep)" "r < ep_next ep" "vc_connID (ep_mem ep r) = i" "conn_handle ep r = h" "\<not> vc_done (ep_mem ep r)"
  using assms by (auto simp: ep_ok_def)

lemma ep_ok_lruD: "ep_ok ep \<Longrightarrow> r \<in> set (ep_connLruList ep) \<Longrightarrow> conn_at ep (conn_handle ep r) (vc_connID (ep_mem ep r)) = Some r"
  by (simp add: ep_ok_def)

lemma ep_ok_new: "ep_ok (NewConnMgr c0 t)"
  by (simp add: ep_ok_def NewConnMgr_def conn_at_def conns_of_def)

text \<open>Operations that change neither the tables nor what they say of the connections.\<close>

definition same_conns :: "Endpoint \<Rightarrow> Endpoint \<Rightarrow> bool" where
  "same_conns ep ep' \<longleftrightarrow> ep_next ep' = ep_next ep \<and> ep_conns ep' = ep_conns ep \<and> ep_connLruList ep' = ep_connLruList ep \<and>
     (\<forall>r. vc_connID (ep_mem ep' r) = vc_connID (ep_mem ep r) \<and> vc_rmtAddr (ep_mem ep' r) = vc_rmtAddr (ep_mem ep r) \<and>
        vc_done (ep_mem ep' r) = vc_done (ep_mem ep r))"

lemma same_conns_refl [simp, intro]: "same_conns ep ep"
  by (simp add: same_conns_def)

lemma same_conns_trans: "same_conns a b \<Longrightarrow> same_conns b c \<Longrightarrow> same_conns a c"
  by (simp add: same_conns_def)

lemma same_conns_at: "same_conns ep ep' \<Longrightarrow> conn_at ep' h i = conn_at ep h i \<and> conn_handle ep' r = conn_handle ep r"
  by (simp add: same_conns_def conn_at_def conns_of_def conn_handle_def)

lemma same_conns_ok: "same_conns ep ep' \<Longrightarrow> ep_ok ep \<Longrightarrow> ep_ok ep'"
  by (simp add: ep_ok_def same_conns_def conn_at_def conns_of_def conn_handle_def)

lemma Send_same: "same_conns ep (fst (SkymeshConn_Send pack terr ep r cmd msg))"
  by (auto simp: SkymeshConn_Send_def same_conns_def upd_conn_def Let_def split: option.splits)

lemma OnRecv_same: "same_conns ep (fst (SkymeshConn_OnRecv pack terr now ep r msg ext))"
proof -
  have "same_conns ep (upd_conn ep r (\<lambda>c. c\<lparr>vc_lastUpTime := now\<rparr>))" by (simp add: same_conns_def upd_conn_def)
  then show ?thesis using Send_same same_conns_trans
    by (auto simp: SkymeshConn_OnRecv_def Let_def same_conns_def upd_conn_def split: prod.splits)
qed

lemma Write_same: "same_conns ep (fst (SkymeshConn_Write pack terr ep r b))"
  using Send_same [of ep pack terr r KVConnCmdData b] by (auto simp: SkymeshConn_Write_def split: prod.splits option.splits)

lemma Generate_same: "same_conns ep (fst (GenerateConnID ep))"
  by (simp add: GenerateConnID_def same_conns_def Let_def)

section \<open>The manager keeps the invariant\<close>

lemma conns_of_mput: "conns_of (ep\<lparr>ep_conns := mput h m c\<rparr>) h' = (if h' = h then m else conns_of (ep\<lparr>ep_conns := c\<rparr>) h')"
  by (simp add: conns_of_def)

lemma conn_at_Some: "conn_at ep h i = Some r \<longleftrightarrow> (\<exists>m. mget (ep_conns ep) h = Some m \<and> mget m i = Some r)"
  by (auto simp: conn_at_def conns_of_def split: option.splits)

lemma conn_at_None: "conn_at ep h i = None \<longleftrightarrow> (\<forall>m. mget (ep_conns ep) h = Some m \<longrightarrow> mget m i = None)"
  by (auto simp: conn_at_def conns_of_def split: option.splits)

lemma ep_okI:
  assumes "distinct (ep_connLruList ep)" "\<And>h m. mget (ep_conns ep) h = Some m \<Longrightarrow> mwf m"
    and "\<And>h i r. conn_at ep h i = Some r \<Longrightarrow> r \<in> set (ep_connLruList ep) \<and> r < ep_next ep \<and>
        vc_connID (ep_mem ep r) = i \<and> conn_handle ep r = h \<and> \<not> vc_done (ep_mem ep r)"
    and "\<And>r. r \<in> set (ep_connLruList ep) \<Longrightarrow> conn_at ep (conn_handle ep r) (vc_connID (ep_mem ep r)) = Some r"
  shows "ep_ok ep"
  using assms by (auto simp: ep_ok_def)

lemma GetConn_eq:
  "GetConn ep h i b = (if b \<and> conn_at ep h i \<noteq> None
     then ep\<lparr>ep_connLruList := remove1 (the (conn_at ep h i)) (ep_connLruList ep) @ [the (conn_at ep h i)]\<rparr> else ep, conn_at ep h i)"
  by (auto simp: GetConn_def conn_at_def conns_of_def split: option.splits)

lemma GetConn_ok:
  assumes "ep_ok ep"
  shows "ep_ok (fst (GetConn ep h i b))" "conn_at (fst (GetConn ep h i b)) = conn_at ep" "ep_mem (fst (GetConn ep h i b)) = ep_mem ep"
    "ep_out (fst (GetConn ep h i b)) = ep_out ep" "snd (GetConn ep h i b) = conn_at ep h i"
proof -
  show at: "conn_at (fst (GetConn ep h i b)) = conn_at ep" by (auto simp: GetConn_eq conn_at_def conns_of_def fun_eq_iff)
  show "ep_mem (fst (GetConn ep h i b)) = ep_mem ep" "ep_out (fst (GetConn ep h i b)) = ep_out ep"
    "snd (GetConn ep h i b) = conn_at ep h i" by (simp_all add: GetConn_eq)
  have "set (ep_connLruList (fst (GetConn ep h i b))) = set (ep_connLruList ep)" "distinct (ep_connLruList (fst (GetConn ep h i b)))"
    using assms ep_okD(1) [OF assms, of h i] by (auto simp: GetConn_eq ep_ok_def)
  moreover have "ep_conns (fst (GetConn ep h i b)) = ep_conns ep" "ep_next (fst (GetConn ep h i b)) = ep_next ep"
    "ep_mem (fst (GetConn ep h i b)) = ep_mem ep" by (simp_all add: GetConn_eq)
  ultimately show "ep_ok (fst (GetConn ep h i b))" using assms at by (simp add: ep_ok_def conn_handle_def)
qed

lemma DelConn_eq:
  assumes "ep_ok ep"
  shows "DelConn ep h i = Some (case conn_at ep h i of None \<Rightarrow> (ep, False)
    | Some r \<Rightarrow> ((upd_conn ep r (\<lambda>c. c\<lparr>vc_done := True\<rparr>))\<lparr>ep_connLruList := remove1 r (ep_connLruList ep),
        ep_conns := mput h (mdel i (conns_of ep h)) (ep_conns ep)\<rparr>, True))"
  using ep_okD(5) [OF assms, of h i]
  by (auto simp: DelConn_def SkymeshConn_OnClose_def upd_conn_def conn_at_def conns_of_def split: option.splits)

lemma DelConn_ok:
  assumes "ep_ok ep"
  shows "\<exists>ep'. DelConn ep h i = Some (ep', conn_at ep h i \<noteq> None) \<and> ep_ok ep' \<and>
    conn_at ep' = (\<lambda>h' i'. if h' = h \<and> i' = i then None else conn_at ep h' i')"
proof (cases "conn_at ep h i")
  case None
  then show ?thesis using assms by (auto simp: DelConn_eq [OF assms] fun_eq_iff)
next
  case (Some r)
  let ?ep = "(upd_conn ep r (\<lambda>c. c\<lparr>vc_done := True\<rparr>))\<lparr>ep_connLruList := remove1 r (ep_connLruList ep),
        ep_conns := mput h (mdel i (conns_of ep h)) (ep_conns ep)\<rparr>"
  have at: "conn_at ?ep = (\<lambda>h' i'. if h' = h \<and> i' = i then None else conn_at ep h' i')"
    by (auto simp: conn_at_def conns_of_def fun_eq_iff upd_conn_def)
  have m: "mwf (conns_of ep h)" using assms by (auto simp: ep_ok_def conns_of_def split: option.splits)
  have d: "distinct (ep_connLruList ep)" using assms by (simp add: ep_ok_def)
  have k: "conn_handle ?ep r' = conn_handle ep r'" "vc_connID (ep_mem ?ep r') = vc_connID (ep_mem ep r')" for r'
    by (simp_all add: conn_handle_def upd_conn_def)
  have "ep_ok ?ep"
  proof (rule ep_okI)
    fix h' i' r' assume "conn_at ?ep h' i' = Some r'"
    then have "(h', i') \<noteq> (h, i)" "conn_at ep h' i' = Some r'" unfolding at by (auto split: if_splits)
    moreover from this have "r' \<noteq> r" using ep_okD(3,4) [OF assms Some] ep_okD(3,4) [OF assms, of h' i' r'] by auto
    ultimately show "r' \<in> set (ep_connLruList ?ep) \<and> r' < ep_next ?ep \<and> vc_connID (ep_mem ?ep r') = i' \<and> conn_handle ?ep r' = h' \<and>
        \<not> vc_done (ep_mem ?ep r')"
      using ep_okD [OF assms, of h' i' r'] d k by (simp add: upd_conn_def)
  next
    fix r' assume "r' \<in> set (ep_connLruList ?ep)"
    then have "r' \<in> set (ep_connLruList ep)" "r' \<noteq> r" using d by auto
    then have "conn_at ep (conn_handle ep r') (vc_connID (ep_mem ep r')) = Some r'" using assms by (simp add: ep_ok_def)
    moreover from this have "(conn_handle ep r', vc_connID (ep_mem ep r')) \<noteq> (h, i)" using Some \<open>r' \<noteq> r\<close> by auto
    ultimately show "conn_at ?ep (conn_handle ?ep r') (vc_connID (ep_mem ?ep r')) = Some r'" unfolding at k by auto
  qed (use d m assms in \<open>auto simp: ep_ok_def upd_conn_def split: if_splits\<close>)
  then show ?thesis using Some at by (simp add: DelConn_eq [OF assms])
qed

lemma fold_remove1_lru:
  "fold (\<lambda>r cm. cm\<lparr>ep_connLruList := remove1 r (ep_connLruList cm)\<rparr>) rs ep = ep\<lparr>ep_connLruList := fold remove1 rs (ep_connLruList ep)\<rparr>"
  by (induction rs arbitrary: ep) simp_all

lemma fold_remove1_distinct: "distinct xs \<Longrightarrow> fold remove1 rs xs = filter (\<lambda>r. r \<notin> set rs) xs"
  by (induction rs arbitrary: xs) (auto simp: distinct_remove1_removeAll removeAll_filter_not_eq intro!: filter_cong)

lemma DelConns_eq:
  assumes "ep_ok ep"
  shows "DelConns ep h = ep\<lparr>ep_connLruList := filter (\<lambda>r. r \<notin> set (mvals (conns_of ep h))) (ep_connLruList ep),
    ep_conns := (case mget (ep_conns ep) h of None \<Rightarrow> ep_conns ep | Some _ \<Rightarrow> mdel h (ep_conns ep))\<rparr>"
  using assms by (auto simp: DelConns_def fold_remove1_lru fold_remove1_distinct ep_ok_def conns_of_def split: option.splits)

lemma DelConns_ok:
  assumes "ep_ok ep"
  shows "ep_ok (DelConns ep h)" "conn_at (DelConns ep h) = (\<lambda>h' i'. if h' = h then None else conn_at ep h' i')"
proof -
  let ?ep = "DelConns ep h"
  show at: "conn_at ?ep = (\<lambda>h' i'. if h' = h then None else conn_at ep h' i')"
    by (auto simp: DelConns_eq [OF assms] conn_at_def conns_of_def fun_eq_iff split: option.splits)
  have m: "mwf (conns_of ep h)" using assms by (auto simp: ep_ok_def conns_of_def split: option.splits)
  have k: "ep_mem ?ep = ep_mem ep" "ep_next ?ep = ep_next ep" "conn_handle ?ep r = conn_handle ep r" for r
    by (simp_all add: DelConns_eq [OF assms] conn_handle_def)
  have v: "r \<in> set (mvals (conns_of ep h)) \<longleftrightarrow> (\<exists>i. conn_at ep h i = Some r)" for r
    using m by (simp add: in_mvals_iff conn_at_def)
  have l: "r \<in> set (ep_connLruList ?ep) \<longleftrightarrow> r \<in> set (ep_connLruList ep) \<and> conn_handle ep r \<noteq> h" for r
  proof -
    have "(\<exists>i. conn_at ep h i = Some r) \<longleftrightarrow> conn_handle ep r = h" if "r \<in> set (ep_connLruList ep)"
      using ep_ok_lruD [OF assms that] ep_okD(4) [OF assms, of h _ r] by metis
    then show ?thesis using v [of r] by (auto simp: DelConns_eq [OF assms])
  qed
  show "ep_ok ?ep"
  proof (rule ep_okI)
    fix h' i r assume "conn_at ?ep h' i = Some r"
    then have "h' \<noteq> h" "conn_at ep h' i = Some r" unfolding at by (auto split: if_splits)
    then show "r \<in> set (ep_connLruList ?ep) \<and> r < ep_next ?ep \<and> vc_connID (ep_mem ?ep r) = i \<and> conn_handle ?ep r = h' \<and>
        \<not> vc_done (ep_mem ?ep r)"
      using ep_okD [OF assms, of h' i r] l [of r] k by simp
  next
    fix r assume "r \<in> set (ep_connLruList ?ep)"
    then show "conn_at ?ep (conn_handle ?ep r) (vc_connID (ep_mem ?ep r)) = Some r"
      unfolding at k using l [of r] assms by (auto simp: ep_ok_def)
  qed (use assms in \<open>auto simp: DelConns_eq [OF assms] ep_ok_def split: option.splits if_splits\<close>)
qed

lemma AddConn_eq:
  "AddConn ep h i r = (case conn_at ep h i of
      Some _ \<Rightarrow> (ep\<lparr>ep_conns := mput h (conns_of ep h) (ep_conns ep)\<rparr>, Some (DupConnID i))
    | None \<Rightarrow> (upd_conn (ep\<lparr>ep_connLruList := ep_connLruList ep @ [r], ep_conns := mput h (mput i r (conns_of ep h)) (ep_conns ep)\<rparr>) r
        (\<lambda>c. c\<lparr>vc_connMgr := True\<rparr>), None))"
  by (simp add: AddConn_def conn_at_def conns_of_def Let_def split: option.splits)

text \<open>A new connection is put into the tables, unless its number is taken.\<close>

lemma AddConn_ok:
  assumes "ep_ok ep" "r < ep_next ep" "r \<notin> set (ep_connLruList ep)" "\<not> vc_done (ep_mem ep r)"
    "conn_handle ep r = h" "vc_connID (ep_mem ep r) = i"
  shows "ep_ok (fst (AddConn ep h i r))"
    "conn_at (fst (AddConn ep h i r)) = (if conn_at ep h i = None then (\<lambda>h' i'. if h' = h \<and> i' = i then Some r else conn_at ep h' i') else conn_at ep)"
proof -
  let ?ep = "fst (AddConn ep h i r)"
  show at: "conn_at ?ep = (if conn_at ep h i = None then (\<lambda>h' i'. if h' = h \<and> i' = i then Some r else conn_at ep h' i') else conn_at ep)"
    by (auto simp: AddConn_eq conn_at_def conns_of_def fun_eq_iff upd_conn_def split: option.splits)
  have m: "mwf (conns_of ep h)" using assms(1) by (auto simp: ep_ok_def conns_of_def split: option.splits)
  have k: "conn_handle ?ep r' = conn_handle ep r'" "vc_connID (ep_mem ?ep r') = vc_connID (ep_mem ep r')"
    "vc_done (ep_mem ?ep r') = vc_done (ep_mem ep r')" "ep_next ?ep = ep_next ep" for r'
    by (simp_all add: AddConn_eq conn_handle_def upd_conn_def split: option.splits)
  have l: "ep_connLruList ?ep = ep_connLruList ep @ (if conn_at ep h i = None then [r] else [])"
    by (simp add: AddConn_eq upd_conn_def split: option.splits)
  show "ep_ok ?ep"
  proof (rule ep_okI)
    fix h' i' r' assume "conn_at ?ep h' i' = Some r'"
    then show "r' \<in> set (ep_connLruList ?ep) \<and> r' < ep_next ?ep \<and> vc_connID (ep_mem ?ep r') = i' \<and> conn_handle ?ep r' = h' \<and>
        \<not> vc_done (ep_mem ?ep r')"
      unfolding at k l using ep_okD [OF assms(1), of h' i' r'] assms(2-6) by (auto split: if_splits)
  next
    fix r' assume "r' \<in> set (ep_connLruList ?ep)"
    then consider "r' \<in> set (ep_connLruList ep)" | "r' = r" "conn_at ep h i = None" unfolding l by (auto split: if_splits)
    then show "conn_at ?ep (conn_handle ?ep r') (vc_connID (ep_mem ?ep r')) = Some r'"
    proof cases
      case 1
      then show ?thesis unfolding at k using ep_ok_lruD [OF assms(1) 1] by auto
    next
      case 2
      then show ?thesis unfolding at k using assms(5,6) by simp
    qed
  next
    fix h' m' assume "mget (ep_conns ?ep) h' = Some m'"
    then show "mwf m'" using assms(1) m by (auto simp: AddConn_eq upd_conn_def ep_ok_def split: option.splits if_splits)
  qed (use assms l in \<open>auto simp: ep_ok_def\<close>)
qed

lemma New_ok:
  assumes "ep_ok ep" "NewSkymeshConn n0 now ep i addr = (ep1, r)"
  shows "ep_ok ep1" "r < ep_next ep1" "r \<notin> set (ep_connLruList ep1)" "\<not> vc_done (ep_mem ep1 r)" "conn_handle ep1 r = AddrHandle addr"
    "vc_connID (ep_mem ep1 r) = i" "conn_at ep1 = conn_at ep" "r = ep_next ep" "ep_out ep1 = ep_out ep"
proof -
  have e: "r = ep_next ep" "ep_connLruList ep1 = ep_connLruList ep" "ep_conns ep1 = ep_conns ep" "ep_next ep1 = Suc r"
    "r' \<noteq> r \<Longrightarrow> ep_mem ep1 r' = ep_mem ep r'" for r' using assms(2) by (auto simp: NewSkymeshConn_def Let_def)
  have lt: "r' < r" if "r' \<in> set (ep_connLruList ep)" for r'
    using that assms(1) ep_okD(2) [OF assms(1), of _ _ r'] e(1) by (auto simp: ep_ok_def)
  show "r < ep_next ep1" "\<not> vc_done (ep_mem ep1 r)" "conn_handle ep1 r = AddrHandle addr" "vc_connID (ep_mem ep1 r) = i"
    "ep_out ep1 = ep_out ep" "r = ep_next ep"
    using assms(2) by (auto simp: NewSkymeshConn_def Let_def conn_handle_def)
  show at: "conn_at ep1 = conn_at ep" by (simp add: conn_at_def conns_of_def e fun_eq_iff)
  show "r \<notin> set (ep_connLruList ep1)" using lt [of r] e by auto
  show "ep_ok ep1"
  proof (rule ep_okI)
    fix h' i' r' assume "conn_at ep1 h' i' = Some r'"
    then have "conn_at ep h' i' = Some r'" unfolding at .
    from ep_okD [OF assms(1) this] show "r' \<in> set (ep_connLruList ep1) \<and> r' < ep_next ep1 \<and> vc_connID (ep_mem ep1 r') = i' \<and>
        conn_handle ep1 r' = h' \<and> \<not> vc_done (ep_mem ep1 r')" using e(1-4) e(5) [of r'] by (simp add: conn_handle_def)
  next
    fix r' assume r': "r' \<in> set (ep_connLruList ep1)"
    then have "ep_mem ep1 r' = ep_mem ep r'" using lt [of r'] e(2) e(5) [of r'] by auto
    then show "conn_at ep1 (conn_handle ep1 r') (vc_connID (ep_mem ep1 r')) = Some r'"
      unfolding at using r' assms(1) e(2) by (simp add: ep_ok_def conn_handle_def)
  qed (use assms(1) e in \<open>auto simp: ep_ok_def\<close>)
qed

text \<open>Closing never panics; it tells the peer and removes the connection, once.\<close>

lemma Close_ok:
  assumes "ep_ok ep"
  shows "\<exists>ep' e. SkymeshConn_Close pack terr ep r = Some (ep', e) \<and> ep_ok ep' \<and>
    (e = None \<longleftrightarrow> conn_at ep (conn_handle ep r) (vc_connID (ep_mem ep r)) \<noteq> None) \<and>
    conn_at ep' = (\<lambda>h i. if h = conn_handle ep r \<and> i = vc_connID (ep_mem ep r) then None else conn_at ep h i)"
proof -
  let ?ep = "fst (SkymeshConn_Send pack terr ep r KVConnCmdClose [])"
  have s: "same_conns ep ?ep" by (rule Send_same)
  then have k: "conn_at ?ep = conn_at ep" "conn_handle ?ep r = conn_handle ep r" "vc_connID (ep_mem ?ep r) = vc_connID (ep_mem ep r)"
    using same_conns_at by (auto simp: fun_eq_iff same_conns_def)
  from DelConn_ok [OF same_conns_ok [OF s assms], of "conn_handle ep r" "vc_connID (ep_mem ep r)"] show ?thesis
    unfolding k by (auto simp: SkymeshConn_Close_def Let_def k simp del: KVConnCmdClose_def)
qed

lemma CheckExpired_ok: "ep_ok ep \<Longrightarrow> \<exists>ep'. ConnMgr_CheckExpired pack terr now ep = Some ep' \<and> ep_ok ep'"
  unfolding ConnMgr_CheckExpired_def
proof (rule rangeM_total)
  fix r t assume "ep_ok t"
  from Close_ok [OF this, of pack terr r] show "\<exists>t'. map_option fst (SkymeshConn_Close pack terr t r) = Some t' \<and> ep_ok t'" by auto
qed

lemma ConnMgr_Close_ok: "ep_ok (ConnMgr_Close ep)"
  by (simp add: ep_ok_def ConnMgr_Close_def conn_at_def conns_of_def)

section \<open>Connection numbers\<close>

lemma GenerateConnID_seq: "ep_connSeq (((\<lambda>c. fst (GenerateConnID c)) ^^ n) cm) = ep_connSeq cm + word_of_nat n"
  "ep_connSeed (((\<lambda>c. fst (GenerateConnID c)) ^^ n) cm) = ep_connSeed cm"
  by (induction n) (simp_all add: GenerateConnID_def Let_def)

lemma snd_GenerateConnID: "snd (GenerateConnID cm) = push_bit 32 (ucast ((ep_connSeq cm + 1) AND 0xffff)) OR ucast (ep_connSeed cm)"
  by (simp add: GenerateConnID_def Let_def)

lemma low16_add: "(ucast (a + b :: u32) :: 16 word) = ucast a + ucast b"
  by (rule word_uint_eqI) (simp add: uint_word_ariths unsigned_ucast_eq take_bit_eq_mod mod_simps mod_mod_cancel)

lemma low16_of_nat: "(ucast (word_of_nat n :: u32) :: 16 word) = word_of_nat n"
  by (rule bit_word_eqI) (simp add: bit_simps)

lemma low16: "(w :: u32) AND 0xffff = ucast (ucast w :: 16 word)"
proof -
  have "(0xffff :: u32) = mask 16" by (simp add: mask_eq_exp_minus_1)
  then show ?thesis by (auto simp: bit_eq_iff bit_simps)
qed

lemma connID_parts:
  "drop_bit 32 (push_bit 32 (ucast (w AND 0xffff :: u32)) OR ucast (seed :: u32) :: u64) = ucast (ucast w :: 16 word)"
  unfolding low16 by (rule bit_word_eqI) (auto simp: bit_simps dest: bit_imp_le_length)

text \<open>
  The numbers of a manager repeat with the period 65536 and not earlier: a number is free again only
  when the connection of 65536 dials before is gone.
\<close>

lemma connID_period:
  fixes cm :: Endpoint
  defines "cid \<equiv> \<lambda>n. snd (GenerateConnID (((\<lambda>c. fst (GenerateConnID c)) ^^ n) cm))"
  shows "cid i = cid j \<longleftrightarrow> i mod 65536 = j mod 65536"
proof -
  let ?s = "ep_connSeq cm + 1"
  have id: "cid n = push_bit 32 (ucast ((?s + word_of_nat n) AND 0xffff)) OR ucast (ep_connSeed cm)" for n
    unfolding cid_def snd_GenerateConnID GenerateConnID_seq by (simp add: algebra_simps)
  have "(ucast (ucast (x :: 16 word) :: u64) :: 16 word) = x" for x by (rule bit_word_eqI) (simp add: bit_simps)
  then have up: "(ucast (x :: 16 word) :: u64) = ucast y \<longleftrightarrow> x = y" for x y by metis
  have "cid i = cid j \<longleftrightarrow> (ucast (?s + word_of_nat i) :: 16 word) = ucast (?s + word_of_nat j)"
  proof
    assume "cid i = cid j"
    then have "drop_bit 32 (cid i) = drop_bit 32 (cid j)" by simp
    then show "(ucast (?s + word_of_nat i) :: 16 word) = ucast (?s + word_of_nat j)" unfolding id connID_parts up .
  qed (simp only: id low16)
  also have "\<dots> \<longleftrightarrow> (word_of_nat i :: 16 word) = word_of_nat j"
    by (simp only: low16_add add_left_cancel low16_of_nat)
  also have "\<dots> \<longleftrightarrow> i mod 65536 = j mod 65536" by (simp add: word_of_nat_eq_iff take_bit_eq_mod)
  finally show ?thesis .
qed

end
