(* ===== verification/GrpcEndpoint.thy ===== *)
theory GrpcEndpoint
  imports SkymeshConn
begin

text \<open>
  \<^verbatim>\<open>src/extension/grpc/dialer.go\<close> and \<^verbatim>\<open>listener.go\<close>: the two ends of the virtual connections. Each
  is an application service with a connection manager. The name routers it asks the agent for are
  entered under their service name; \<open>sl_watched\<close> are the names the listener watches. \<open>unpack\<close> is the
  packet format, a packet it cannot read is a panic, \<open>None\<close>.
\<close>

section \<open>What both ends do with a packet\<close>

definition resetConn :: "vpack \<Rightarrow> senderr \<Rightarrow> Endpoint \<Rightarrow> u64 \<Rightarrow> u64 \<Rightarrow> Endpoint" where
  "resetConn pack terr ep h connID =
     (case pack KVConnCmdClose connID [] None of
        None \<Rightarrow> ep
      | Some packets \<Rightarrow> (case terr h of Some _ \<Rightarrow> ep | None \<Rightarrow> ep\<lparr>ep_out := ep_out ep @ [(h, packets)]\<rparr>))"

text \<open>A data packet; the second component says whether the handler goes on.\<close>

definition ep_onData ::
  "vpack \<Rightarrow> senderr \<Rightarrow> int \<Rightarrow> Endpoint \<Rightarrow> u64 \<Rightarrow> u64 \<Rightarrow> bytes \<Rightarrow> u32 option \<Rightarrow> Endpoint \<times> bool" where
  "ep_onData pack terr now ep h connID msg ext =
     (case GetConn ep h connID True of
        (ep, None) \<Rightarrow> (resetConn pack terr ep h connID, False)
      | (ep, Some r) \<Rightarrow>
          (case SkymeshConn_OnRecv pack terr now ep r msg ext of
             (ep, None) \<Rightarrow> (ep, True)
           | (ep, Some err) \<Rightarrow> (resetConn pack terr ep h connID, True)))"

text \<open>The part of both handlers from the test for data on.\<close>

definition ep_onPacket ::
  "vpack \<Rightarrow> senderr \<Rightarrow> int \<Rightarrow> Endpoint \<Rightarrow> u64 \<Rightarrow> u32 \<Rightarrow> u64 \<Rightarrow> bytes \<Rightarrow> u32 option \<Rightarrow> Endpoint option" where
  "ep_onPacket pack terr now ep h cmd connID msg ext =
     (let (ep, go) = (if cmd AND KVConnCmdData \<noteq> 0 then ep_onData pack terr now ep h connID msg ext else (ep, True)) in
      if go \<and> cmd AND KVConnCmdClose \<noteq> 0 then map_option fst (DelConn ep h connID) else Some ep)"

section \<open>The dialer\<close>

record skymeshDialer =
  dl_ep :: Endpoint
  dl_resolvers :: "(string, string) gomap"
  dl_trans :: "Addr option"

definition newSkymeshDialer :: "SkymeshConn \<Rightarrow> int \<Rightarrow> skymeshDialer" where
  "newSkymeshDialer c0 nowMS = \<lparr>dl_ep = NewConnMgr c0 nowMS, dl_resolvers = [], dl_trans = None\<rparr>"

text \<open>\<open>OnRegister\<close>: the transport, given by its address; the dialer keeps it whatever the result.\<close>

definition Dialer_OnRegister :: "skymeshDialer \<Rightarrow> Addr \<Rightarrow> int \<Rightarrow> skymeshDialer" where
  "Dialer_OnRegister d tr result = d\<lparr>dl_trans := Some tr\<rparr>"

definition Dialer_OnMessage ::
  "vpack \<Rightarrow> vunpack \<Rightarrow> senderr \<Rightarrow> int \<Rightarrow> skymeshDialer \<Rightarrow> Addr \<Rightarrow> bytes \<Rightarrow> skymeshDialer option" where
  "Dialer_OnMessage pack unpack terr now d rmtAddr packet = do {
     (cmd, connID, msg, ext) \<leftarrow> unpack packet;
     ep \<leftarrow> ep_onPacket pack terr now (dl_ep d) (AddrHandle rmtAddr) cmd connID msg ext;
     Some (d\<lparr>dl_ep := ep\<rparr>) }"

definition Dialer_OnUnRegister :: "skymeshDialer \<Rightarrow> skymeshDialer" where
  "Dialer_OnUnRegister d = d\<lparr>dl_ep := ConnMgr_Close (dl_ep d)\<rparr>"

definition Dialer_dial ::
  "vpack \<Rightarrow> senderr \<Rightarrow> itemNode \<Rightarrow> int \<Rightarrow> skymeshDialer \<Rightarrow> Addr \<Rightarrow> skymeshDialer \<times> (ConnErr + nat)" where
  "Dialer_dial pack terr n0 now d rmtAddr =
     (let (ep, connID) = GenerateConnID (dl_ep d);
          (ep, conn) = NewSkymeshConn n0 now ep connID rmtAddr in
      case AddConn ep (AddrHandle rmtAddr) connID conn of
        (ep, Some e) \<Rightarrow> (d\<lparr>dl_ep := ep\<rparr>, Inl e)
      | (ep, None) \<Rightarrow>
          (case SkymeshConn_Connect pack terr ep conn of
             (ep, Some e) \<Rightarrow> (d\<lparr>dl_ep := ep\<rparr>, Inl e)
           | (ep, None) \<Rightarrow> (d\<lparr>dl_ep := ep\<rparr>, Inr conn)))"

text \<open>\<open>getRouter\<close> is \<open>GetNameRouter\<close> of the mesh server, acting on the agent.\<close>

definition getNameResolver :: "(string \<Rightarrow> 'n \<Rightarrow> 'n) \<Rightarrow> skymeshDialer \<times> 'n \<Rightarrow> string \<Rightarrow> skymeshDialer \<times> 'n" where
  "getNameResolver getRouter w target =
     (case mget (dl_resolvers (fst w)) target of
        Some _ \<Rightarrow> w
      | None \<Rightarrow> ((fst w)\<lparr>dl_resolvers := mput target target (dl_resolvers (fst w))\<rparr>, getRouter target (snd w)))"

section \<open>The listener\<close>

definition acceptQueueSize :: nat where [simp]: "acceptQueueSize = 1024"

record skymeshListener =
  sl_ep :: Endpoint
  sl_connected :: "nat list"
  sl_quit :: bool
  sl_resolvers :: "(string, string) gomap"
  sl_watched :: "string list"
  sl_trans :: "Addr option"

definition newSkymeshListener :: "SkymeshConn \<Rightarrow> int \<Rightarrow> skymeshListener" where
  "newSkymeshListener c0 nowMS =
     \<lparr>sl_ep = NewConnMgr c0 nowMS, sl_connected = [], sl_quit = False, sl_resolvers = [], sl_watched = [],
      sl_trans = None\<rparr>"

definition Listener_OnRegister :: "skymeshListener \<Rightarrow> Addr \<Rightarrow> int \<Rightarrow> skymeshListener" where
  "Listener_OnRegister l tr result = (if result = 0 then l\<lparr>sl_trans := Some tr\<rparr> else l)"

definition Listener_Addr :: "skymeshListener \<Rightarrow> Addr option" where
  "Listener_Addr l = sl_trans l"

definition Listener_watch :: "(string \<Rightarrow> 'n \<Rightarrow> 'n) \<Rightarrow> skymeshListener \<times> 'n \<Rightarrow> string \<Rightarrow> skymeshListener \<times> 'n" where
  "Listener_watch getRouter w name =
     (case mget (sl_resolvers (fst w)) name of
        Some _ \<Rightarrow> w
      | None \<Rightarrow>
          ((fst w)\<lparr>sl_resolvers := mput name name (sl_resolvers (fst w)), sl_watched := sl_watched (fst w) @ [name]\<rparr>,
           getRouter name (snd w)))"

text \<open>A connect packet: \<open>False\<close> when the handler returns.\<close>

definition Listener_onConnect ::
  "vpack \<Rightarrow> senderr \<Rightarrow> itemNode \<Rightarrow> int \<Rightarrow> skymeshListener \<Rightarrow> Addr \<Rightarrow> u64 \<Rightarrow> skymeshListener \<times> bool" where
  "Listener_onConnect pack terr n0 now l rmtAddr connID =
     (let (ep, conn) = NewSkymeshConn n0 now (sl_ep l) connID rmtAddr in
      case AddConn ep (AddrHandle rmtAddr) connID conn of
        (ep, Some e) \<Rightarrow> (l\<lparr>sl_ep := resetConn pack terr ep (AddrHandle rmtAddr) connID\<rparr>, False)
      | (ep, None) \<Rightarrow> (l\<lparr>sl_ep := ep, sl_connected := fst (chan_offer acceptQueueSize (sl_connected l) conn)\<rparr>, True))"

definition Listener_OnMessage ::
  "vpack \<Rightarrow> vunpack \<Rightarrow> (string \<Rightarrow> 'n \<Rightarrow> 'n) \<Rightarrow> senderr \<Rightarrow> itemNode \<Rightarrow> int \<Rightarrow> skymeshListener \<times> 'n \<Rightarrow> Addr \<Rightarrow> bytes \<Rightarrow>
     (skymeshListener \<times> 'n) option" where
  "Listener_OnMessage pack unpack getRouter terr n0 now w rmtAddr packet = do {
     (cmd, connID, msg, ext) \<leftarrow> unpack packet;
     let ((l, n), go) =
       (if cmd AND KVConnCmdConnect \<noteq> 0 then
          (let (l, n) = Listener_watch getRouter w (ServiceName rmtAddr);
               (l, go) = Listener_onConnect pack terr n0 now l rmtAddr connID
           in ((l, n), go))
        else (w, True));
     if \<not> go then Some (l, n)
     else do {
       ep \<leftarrow> ep_onPacket pack terr now (sl_ep l) (AddrHandle rmtAddr) cmd connID msg ext;
       Some (l\<lparr>sl_ep := ep\<rparr>, n) } }"

definition Listener_OnInstOffline :: "skymeshListener \<Rightarrow> Addr \<Rightarrow> skymeshListener" where
  "Listener_OnInstOffline l addr = l\<lparr>sl_ep := DelConns (sl_ep l) (AddrHandle addr)\<rparr>"

definition Listener_OnInstOnline :: "skymeshListener \<Rightarrow> Addr \<Rightarrow> skymeshListener" where
  "Listener_OnInstOnline l addr = l"

definition Listener_OnInstSyncAttr :: "skymeshListener \<Rightarrow> Addr \<Rightarrow> ServiceAttr \<Rightarrow> skymeshListener" where
  "Listener_OnInstSyncAttr l addr attrs = l"

definition Listener_OnUnRegister :: "skymeshListener \<Rightarrow> skymeshListener" where
  "Listener_OnUnRegister l = l\<lparr>sl_ep := ConnMgr_Close (sl_ep l)\<rparr>"

text \<open>\<open>Accept\<close> takes what is ready: a connection, or the end; it blocks when neither is.\<close>

inductive Listener_Accept :: "skymeshListener \<Rightarrow> skymeshListener \<Rightarrow> nat option \<Rightarrow> bool" where
  accept_conn: "sl_connected l = c # cs \<Longrightarrow> Listener_Accept l (l\<lparr>sl_connected := cs\<rparr>) (Some c)"
| accept_quit: "sl_quit l \<Longrightarrow> Listener_Accept l l None"

definition Listener_Close :: "skymeshListener \<Rightarrow> skymeshListener option" where
  "Listener_Close l = (if sl_quit l then None else Some (l\<lparr>sl_quit := True\<rparr>))"

section \<open>Safety\<close>

lemma resetConn_same [simp]: "same_conns ep (resetConn pack terr ep h i)"
  by (simp add: resetConn_def same_conns_def split: option.splits)

lemma resetConn_mem [simp]: "ep_mem (resetConn pack terr ep h i) = ep_mem ep"
  by (simp add: resetConn_def split: option.splits)

lemma ep_onData_ok:
  assumes "ep_ok ep"
  shows "ep_ok (fst (ep_onData pack terr now ep h i msg ext))"
    "conn_at (fst (ep_onData pack terr now ep h i msg ext)) = conn_at ep"
proof -
  let ?e1 = "fst (GetConn ep h i True)" and ?e = "fst (ep_onData pack terr now ep h i msg ext)"
  note g = GetConn_ok [OF assms, of h i True]
  have r: "same_conns ?e1 (resetConn pack terr (fst (SkymeshConn_OnRecv pack terr now ?e1 r msg ext)) h i)" for r
    by (rule same_conns_trans [OF OnRecv_same resetConn_same])
  have "same_conns ?e1 ?e"
    using r OnRecv_same [of ?e1 pack terr now _ msg ext]
    by (auto simp: ep_onData_def split: prod.splits option.splits) (metis fst_conv)+
  then show "ep_ok ?e" "conn_at ?e = conn_at ep"
    using same_conns_ok g(1,2) same_conns_at by (auto simp: fun_eq_iff)
qed

lemma ep_onPacket_ok:
  assumes "ep_ok ep"
  shows "\<exists>ep'. ep_onPacket pack terr now ep h cmd i msg ext = Some ep' \<and> ep_ok ep'"
proof -
  let ?e = "if cmd AND KVConnCmdData \<noteq> 0 then ep_onData pack terr now ep h i msg ext else (ep, True)"
  have "ep_ok (fst ?e)" using assms ep_onData_ok(1) by simp
  then show ?thesis using DelConn_ok [of "fst ?e" h i]
    by (cases ?e) (auto simp: ep_onPacket_def Let_def simp del: KVConnCmdData_def KVConnCmdClose_def)
qed

text \<open>
  What the application and the ticker do with the connections of an endpoint: the calls of \<^verbatim>\<open>net.Conn\<close>, on
  any connection at any time, the check for expired ones and the release of the manager.
\<close>

inductive ep_step :: "Endpoint \<Rightarrow> Endpoint \<Rightarrow> bool" where
  ep_write: "SkymeshConn_Write PackPacket terr ep r b = (ep', n, e) \<Longrightarrow> ep_step ep ep'"
| ep_read: "Get_check len (vc_cbuf (ep_mem ep r)) = Some (buf, res) \<Longrightarrow> ep_step ep (upd_conn ep r (\<lambda>c. c\<lparr>vc_cbuf := buf\<rparr>))"
| ep_close: "SkymeshConn_Close PackPacket terr ep r = Some (ep', e) \<Longrightarrow> ep_step ep ep'"
| ep_tick: "ConnMgr_CheckExpired PackPacket terr now ep = Some ep' \<Longrightarrow> ep_step ep ep'"
| ep_release: "ep_step ep (ConnMgr_Close ep)"
| ep_deadline: "ep_step ep (SkymeshConn_SetReadDeadline ep r t)"

lemma ep_step_ok: "ep_step ep ep' \<Longrightarrow> ep_ok ep \<Longrightarrow> ep_ok ep'"
proof (induction rule: ep_step.induct)
  case (ep_write terr ep r b ep' n e)
  then show ?case using Write_same [of ep PackPacket terr r b] same_conns_ok by auto
next
  case (ep_read len ep r buf res)
  have "same_conns ep (upd_conn ep r (\<lambda>c. c\<lparr>vc_cbuf := buf\<rparr>))" by (simp add: same_conns_def upd_conn_def)
  then show ?case using ep_read.prems by (rule same_conns_ok)
next
  case (ep_close terr ep r ep' e)
  then show ?case using Close_ok [OF ep_close.prems, of PackPacket terr r] by auto
next
  case (ep_tick terr now ep ep')
  then show ?case using CheckExpired_ok [OF ep_tick.prems, of PackPacket terr now] by auto
next
  case (ep_deadline ep r t)
  have "same_conns ep (SkymeshConn_SetReadDeadline ep r t)" by (simp add: same_conns_def upd_conn_def SkymeshConn_SetReadDeadline_def)
  then show ?case using ep_deadline.prems by (rule same_conns_ok)
qed (rule ConnMgr_Close_ok)

inductive listener_reach :: "(string \<Rightarrow> 'n \<Rightarrow> 'n) \<Rightarrow> skymeshListener \<times> 'n \<Rightarrow> skymeshListener \<times> 'n \<Rightarrow> bool" for getRouter w where
  l_start: "listener_reach getRouter w w"
| l_message: "listener_reach getRouter w v \<Longrightarrow>
    Listener_OnMessage PackPacket (UnpackPacket behind) getRouter terr n0 now v a p = Some v' \<Longrightarrow> listener_reach getRouter w v'"
| l_offline: "listener_reach getRouter w (l, n) \<Longrightarrow> listener_reach getRouter w (Listener_OnInstOffline l a, n)"
| l_register: "listener_reach getRouter w (l, n) \<Longrightarrow> listener_reach getRouter w (Listener_OnRegister l a result, n)"
| l_unregister: "listener_reach getRouter w (l, n) \<Longrightarrow> listener_reach getRouter w (Listener_OnUnRegister l, n)"
| l_conns: "listener_reach getRouter w (l, n) \<Longrightarrow> ep_step (sl_ep l) ep \<Longrightarrow> listener_reach getRouter w (l\<lparr>sl_ep := ep\<rparr>, n)"
| l_accept: "listener_reach getRouter w (l, n) \<Longrightarrow> Listener_Accept l l' c \<Longrightarrow> listener_reach getRouter w (l', n)"
| l_close: "listener_reach getRouter w (l, n) \<Longrightarrow> Listener_Close l = Some l' \<Longrightarrow> listener_reach getRouter w (l', n)"

inductive dialer_reach :: "skymeshDialer \<Rightarrow> skymeshDialer \<Rightarrow> bool" for d0 where
  d_start: "dialer_reach d0 d0"
| d_message: "dialer_reach d0 d \<Longrightarrow> Dialer_OnMessage PackPacket (UnpackPacket behind) terr now d a p = Some d' \<Longrightarrow> dialer_reach d0 d'"
| d_register: "dialer_reach d0 d \<Longrightarrow> dialer_reach d0 (Dialer_OnRegister d a result)"
| d_unregister: "dialer_reach d0 d \<Longrightarrow> dialer_reach d0 (Dialer_OnUnRegister d)"
| d_dial: "dialer_reach d0 d \<Longrightarrow> Dialer_dial PackPacket terr n0 now d a = (d', r) \<Longrightarrow> dialer_reach d0 d'"
| d_conns: "dialer_reach d0 d \<Longrightarrow> ep_step (dl_ep d) ep \<Longrightarrow> dialer_reach d0 (d\<lparr>dl_ep := ep\<rparr>)"

lemma onConnect_ok:
  assumes "ep_ok (sl_ep l)"
  shows "ep_ok (sl_ep (fst (Listener_onConnect pack terr n0 now l a i)))"
    "length (sl_connected l) \<le> acceptQueueSize \<Longrightarrow> length (sl_connected (fst (Listener_onConnect pack terr n0 now l a i))) \<le> acceptQueueSize"
proof -
  obtain ep r where n: "NewSkymeshConn n0 now (sl_ep l) i a = (ep, r)" by fastforce
  note N = New_ok [OF assms n]
  have A: "ep_ok (fst (AddConn ep (AddrHandle a) i r))" using AddConn_ok(1) [OF N(1-4)] N(5,6) by simp
  then show "ep_ok (sl_ep (fst (Listener_onConnect pack terr n0 now l a i)))"
    using same_conns_ok [OF resetConn_same A] by (auto simp: Listener_onConnect_def n split: prod.splits option.splits)
  show "length (sl_connected l) \<le> acceptQueueSize \<Longrightarrow> length (sl_connected (fst (Listener_onConnect pack terr n0 now l a i))) \<le> acceptQueueSize"
    using chan_offer_bound [of "sl_connected l" acceptQueueSize] by (auto simp: Listener_onConnect_def n split: prod.splits option.splits)
qed

definition listener_ok :: "skymeshListener \<Rightarrow> bool" where
  "listener_ok l \<longleftrightarrow> ep_ok (sl_ep l) \<and> length (sl_connected l) \<le> acceptQueueSize"

lemma Listener_OnMessage_ok:
  assumes "listener_ok l" "unpack p = Some x"
  shows "\<exists>l' n'. Listener_OnMessage pack unpack getRouter terr n0 now (l, n) a p = Some (l', n') \<and> listener_ok l'"
proof -
  obtain cmd i msg ext where x: "x = (cmd, i, msg, ext)" by (metis prod_cases4)
  obtain l1 n1 where w: "Listener_watch getRouter (l, n) (ServiceName a) = (l1, n1)" by fastforce
  have l1: "listener_ok l1" using w assms(1) by (auto simp: Listener_watch_def listener_ok_def split: option.splits)
  define l2 go where "l2 = (if cmd AND KVConnCmdConnect \<noteq> 0 then fst (Listener_onConnect pack terr n0 now l1 a i) else l)"
    and "go = (cmd AND KVConnCmdConnect \<noteq> 0 \<longrightarrow> snd (Listener_onConnect pack terr n0 now l1 a i))"
  have l2: "listener_ok l2" using l1 assms(1) onConnect_ok [of l1] by (simp add: listener_ok_def l2_def)
  then obtain ep where ep: "ep_onPacket pack terr now (sl_ep l2) (AddrHandle a) cmd i msg ext = Some ep" "ep_ok ep"
    using ep_onPacket_ok [of "sl_ep l2" pack terr now "AddrHandle a" cmd i msg ext] by (auto simp: listener_ok_def)
  have "\<exists>n'. Listener_OnMessage pack unpack getRouter terr n0 now (l, n) a p = Some (if go then l2\<lparr>sl_ep := ep\<rparr> else l2, n')"
    using ep(1) by (auto simp: Listener_OnMessage_def assms(2) x w l2_def go_def Let_def split: prod.splits)
  then show ?thesis using l2 ep(2) by (auto simp: listener_ok_def)
qed

lemma Dialer_OnMessage_ok:
  assumes "ep_ok (dl_ep d)" "unpack p = Some x"
  shows "\<exists>d'. Dialer_OnMessage pack unpack terr now d a p = Some d' \<and> ep_ok (dl_ep d')"
proof -
  obtain cmd i msg ext where x: "x = (cmd, i, msg, ext)" by (metis prod_cases4)
  then show ?thesis using ep_onPacket_ok [OF assms(1), of pack terr now "AddrHandle a" cmd i msg ext]
    by (auto simp: Dialer_OnMessage_def assms(2))
qed

lemma Dialer_dial_ok:
  assumes "ep_ok (dl_ep d)"
  shows "ep_ok (dl_ep (fst (Dialer_dial pack terr n0 now d a)))"
proof -
  obtain e0 i where g: "GenerateConnID (dl_ep d) = (e0, i)" by fastforce
  have e0: "ep_ok e0" using same_conns_ok [OF Generate_same assms] by (simp add: g)
  obtain ep r where n: "NewSkymeshConn n0 now e0 i a = (ep, r)" by fastforce
  note N = New_ok [OF e0 n]
  have A: "ep_ok (fst (AddConn ep (AddrHandle a) i r))" using AddConn_ok(1) [OF N(1-4)] N(5,6) by simp
  have "ep_ok (fst (SkymeshConn_Connect pack terr (fst (AddConn ep (AddrHandle a) i r)) r))"
    unfolding SkymeshConn_Connect_def by (rule same_conns_ok [OF Send_same A])
  then show ?thesis using A by (auto simp: Dialer_dial_def g n split: prod.splits option.splits)
qed

lemma listener_reach_ok: "listener_reach getRouter w v \<Longrightarrow> listener_ok (fst w) \<Longrightarrow> listener_ok (fst v)"
proof (induction rule: listener_reach.induct)
  case (l_message v behind terr n0 now a p v')
  obtain x where "UnpackPacket behind p = Some x" using l_message.hyps(2) by (auto simp: Listener_OnMessage_def split: Option.bind_splits)
  from Listener_OnMessage_ok [of "fst v" "UnpackPacket behind", OF l_message.IH [OF l_message.prems] this, of PackPacket getRouter terr n0 now "snd v" a]
    l_message.hyps(2) show ?case by auto
next
  case (l_conns l n ep)
  then show ?case using ep_step_ok by (auto simp: listener_ok_def)
next
  case (l_accept l n l' c)
  then show ?case by (auto simp: listener_ok_def elim!: Listener_Accept.cases)
qed (auto simp: listener_ok_def Listener_OnInstOffline_def DelConns_ok Listener_OnUnRegister_def Listener_OnRegister_def ConnMgr_Close_ok Listener_Close_def
    split: if_splits)

lemma dialer_reach_ok: "dialer_reach d0 d \<Longrightarrow> ep_ok (dl_ep d0) \<Longrightarrow> ep_ok (dl_ep d)"
proof (induction rule: dialer_reach.induct)
  case (d_message d behind terr now a p d')
  obtain x where "UnpackPacket behind p = Some x" using d_message.hyps(2) by (auto simp: Dialer_OnMessage_def split: Option.bind_splits)
  from Dialer_OnMessage_ok [of d "UnpackPacket behind", OF d_message.IH [OF d_message.prems] this, of PackPacket terr now a]
    d_message.hyps(2) show ?case by auto
next
  case (d_dial d terr n0 now a d' r)
  then show ?case using Dialer_dial_ok [of d PackPacket terr n0 now a] by simp
next
  case (d_conns d ep)
  then show ?case using ep_step_ok by simp
qed (auto simp: Dialer_OnUnRegister_def Dialer_OnRegister_def ConnMgr_Close_ok)

section \<open>The byte stream\<close>

text \<open>Connection \<open>r\<close> is entered for the peer \<open>h\<close> and the number \<open>i\<close>, expects \<open>q\<close> next and buffers \<open>xs\<close>.\<close>

definition receiving :: "Endpoint \<Rightarrow> u64 \<Rightarrow> u64 \<Rightarrow> nat \<Rightarrow> u32 \<Rightarrow> readStream list \<Rightarrow> bool" where
  "receiving ep h i r q xs \<longleftrightarrow> ep_ok ep \<and> conn_at ep h i = Some r \<and> vc_recvSeq (ep_mem ep r) = q \<and>
     il_repr (ib_list (vc_cbuf (ep_mem ep r))) xs \<and> ib_err (vc_cbuf (ep_mem ep r)) = None"

lemma cbuf_put_repr:
  assumes "il_repr (ib_list c) xs" "ib_err c = None"
  shows "\<exists>c'. cbuf_put c b = (c', None) \<and> il_repr (ib_list c') (xs @ [\<lparr>rs_buf = b, rs_offset = 0\<rparr>]) \<and> ib_err c' = None"
  using assms il.repr_enq by (simp add: cbuf_put_def IoBuffer_Put_def IoBuffer_signal_def Let_def)

lemma OnRecv_expected:
  assumes "il_repr (ib_list (vc_cbuf (ep_mem ep r))) xs" "ib_err (vc_cbuf (ep_mem ep r)) = None"
  shows "\<exists>ep'. SkymeshConn_OnRecv pack terr now ep r msg (Some (vc_recvSeq (ep_mem ep r))) = (ep', None) \<and>
    vc_recvSeq (ep_mem ep' r) = vc_recvSeq (ep_mem ep r) + 1 \<and>
    il_repr (ib_list (vc_cbuf (ep_mem ep' r))) (xs @ [\<lparr>rs_buf = msg, rs_offset = 0\<rparr>]) \<and> ib_err (vc_cbuf (ep_mem ep' r)) = None"
  using cbuf_put_repr [OF assms, of msg] by (auto simp: SkymeshConn_OnRecv_def Let_def upd_conn_def)

lemma OnRecv_unexpected:
  assumes "s \<noteq> vc_recvSeq (ep_mem ep r)"
  shows "\<exists>ep'. SkymeshConn_OnRecv pack terr now ep r msg (Some s) = (ep', Some InvalidRecvSeq) \<and>
    vc_recvSeq (ep_mem ep' r) = vc_recvSeq (ep_mem ep r) \<and> vc_cbuf (ep_mem ep' r) = vc_cbuf (ep_mem ep r)"
  using assms by (auto simp: SkymeshConn_OnRecv_def Let_def upd_conn_def SkymeshConn_Send_def split: option.splits)

lemma onData_receiving:
  assumes "receiving ep h i r q xs"
  shows "receiving (fst (ep_onData pack terr now ep h i msg (Some s))) h i r (if s = q then q + 1 else q)
    (if s = q then xs @ [\<lparr>rs_buf = msg, rs_offset = 0\<rparr>] else xs)"
proof -
  have a: "ep_ok ep" "conn_at ep h i = Some r" "vc_recvSeq (ep_mem ep r) = q"
    "il_repr (ib_list (vc_cbuf (ep_mem ep r))) xs" "ib_err (vc_cbuf (ep_mem ep r)) = None"
    using assms by (auto simp: receiving_def)
  obtain e1 where g: "GetConn ep h i True = (e1, Some r)" "ep_mem e1 = ep_mem ep"
    using GetConn_ok(3,5) [OF a(1), of h i True] a(2) by (metis fst_conv snd_conv prod.collapse)
  let ?e = "fst (ep_onData pack terr now ep h i msg (Some s))"
  have base: "ep_ok ?e" "conn_at ?e h i = Some r" using ep_onData_ok [OF a(1)] a(2) by auto
  show ?thesis
  proof (cases "s = q")
    case True
    obtain e2 where "SkymeshConn_OnRecv pack terr now e1 r msg (Some q) = (e2, None)" "vc_recvSeq (ep_mem e2 r) = q + 1"
      "il_repr (ib_list (vc_cbuf (ep_mem e2 r))) (xs @ [\<lparr>rs_buf = msg, rs_offset = 0\<rparr>])" "ib_err (vc_cbuf (ep_mem e2 r)) = None"
      using OnRecv_expected [of e1 r xs pack terr now msg] a g(2) by auto
    then show ?thesis using base True g(1) by (simp add: receiving_def ep_onData_def)
  next
    case False
    obtain e2 where "SkymeshConn_OnRecv pack terr now e1 r msg (Some s) = (e2, Some InvalidRecvSeq)" "vc_recvSeq (ep_mem e2 r) = q"
      "vc_cbuf (ep_mem e2 r) = vc_cbuf (ep_mem ep r)"
      using OnRecv_unexpected [of s e1 r pack terr now msg] False a g(2) by auto
    then show ?thesis using base False g(1) a by (simp add: receiving_def ep_onData_def)
  qed
qed

lemma data_bits: "(KVConnCmdData AND KVConnCmdConnect) = 0" "(KVConnCmdData AND KVConnCmdClose) = 0" "KVConnCmdData \<noteq> 0"
  by simp_all

lemma OnMessage_data:
  assumes "receiving (sl_ep l) (AddrHandle a) i r q xs" "PackPacket KVConnCmdData i msg (Some s) = Some p"
  shows "\<exists>l'. Listener_OnMessage PackPacket (UnpackPacket behind) getRouter terr n0 now (l, n) a p = Some (l', n) \<and>
    receiving (sl_ep l') (AddrHandle a) i r (if s = q then q + 1 else q) (if s = q then xs @ [\<lparr>rs_buf = msg, rs_offset = 0\<rparr>] else xs)"
proof -
  have "UnpackPacket behind p = Some (KVConnCmdData, i, msg, Some s)" using assms(2) by (rule vp.unpack_pack)
  then have "Listener_OnMessage PackPacket (UnpackPacket behind) getRouter terr n0 now (l, n) a p =
      Some (l\<lparr>sl_ep := fst (ep_onData PackPacket terr now (sl_ep l) (AddrHandle a) i msg (Some s))\<rparr>, n)"
    by (simp add: Listener_OnMessage_def ep_onPacket_def data_bits Let_def split: prod.splits del: KVConnCmdData_def KVConnCmdConnect_def KVConnCmdClose_def)
  then show ?thesis using onData_receiving [OF assms(1), of PackPacket terr now msg s] by simp
qed

text \<open>Which packet is expected after packets with the given positions have arrived.\<close>

fun expected :: "nat \<Rightarrow> nat list \<Rightarrow> nat" where
  "expected k [] = k"
| "expected k (j # js) = expected (if j = k then Suc k else k) js"

lemma expected_upt: "k \<le> n \<Longrightarrow> expected k [k..<n] = n"
  by (induction "n - k" arbitrary: k) (auto simp: upt_conv_Cons)

lemma arrivals:
  fixes q0 :: u32
  assumes "receiving (sl_ep l) (AddrHandle a) i r (q0 + word_of_nat k) (xs @ map (\<lambda>m. \<lparr>rs_buf = m, rs_offset = 0\<rparr>) (take k ms))"
    and "k \<le> length ms" "length ms < 2 ^ 32" "\<forall>j < length ms. PackPacket KVConnCmdData i (ms ! j) (Some (q0 + word_of_nat j)) = Some (ps ! j)"
    and "\<forall>j \<in> set js. j < length ms"
  shows "\<exists>l'. rangeM (\<lambda>p w. Listener_OnMessage PackPacket (UnpackPacket behind) getRouter terr n0 now w a p) (map ((!) ps) js) (l, n) = Some (l', n) \<and>
    expected k js \<le> length ms \<and> receiving (sl_ep l') (AddrHandle a) i r (q0 + word_of_nat (expected k js))
      (xs @ map (\<lambda>m. \<lparr>rs_buf = m, rs_offset = 0\<rparr>) (take (expected k js) ms))"
  using assms
proof (induction js arbitrary: l k)
  case (Cons j js)
  let ?seg = "\<lambda>m. \<lparr>rs_buf = m, rs_offset = 0\<rparr>"
  have j: "j < length ms" using Cons.prems(5) by simp
  have "unat (word_of_nat j :: u32) = j" "unat (word_of_nat k :: u32) = k" using j Cons.prems(2,3) by (simp_all add: unat_of_nat)
  then have eq: "q0 + word_of_nat j = q0 + word_of_nat k \<longleftrightarrow> j = k" by (metis add_left_cancel)
  obtain l1 where l1: "Listener_OnMessage PackPacket (UnpackPacket behind) getRouter terr n0 now (l, n) a (ps ! j) = Some (l1, n)"
    "receiving (sl_ep l1) (AddrHandle a) i r (if j = k then q0 + word_of_nat k + 1 else q0 + word_of_nat k)
       (if j = k then (xs @ map ?seg (take k ms)) @ [?seg (ms ! j)] else xs @ map ?seg (take k ms))"
    using OnMessage_data [OF Cons.prems(1) spec [OF Cons.prems(4), of j, THEN mp, OF j], of behind getRouter terr n0 now n] unfolding eq by blast
  let ?k = "if j = k then Suc k else k"
  have "receiving (sl_ep l1) (AddrHandle a) i r (q0 + word_of_nat ?k) (xs @ map ?seg (take ?k ms))"
    using l1(2) j by (cases "j = k") (simp_all add: take_Suc_conv_app_nth ac_simps)
  from Cons.IH [OF this] Cons.prems(2-5) j l1(1) show ?case by simp
qed auto

definition writes :: "senderr \<Rightarrow> Endpoint \<Rightarrow> nat \<Rightarrow> bytes list \<Rightarrow> Endpoint" where
  "writes terr ep s ms = fold (\<lambda>b ep. fst (SkymeshConn_Write PackPacket terr ep s b)) ms ep"

lemma Write_sends:
  assumes "terr (conn_handle ep s) = None"
  shows "\<exists>p. PackPacket KVConnCmdData (vc_connID (ep_mem ep s)) b (Some (vc_sendSeq (ep_mem ep s))) = Some p \<and>
    fst (SkymeshConn_Write PackPacket terr ep s b) =
      upd_conn (ep\<lparr>ep_out := ep_out ep @ [(conn_handle ep s, p)]\<rparr>) s (\<lambda>c. c\<lparr>vc_sendSeq := vc_sendSeq c + 1\<rparr>)"
  using vp.pack_total [of KVConnCmdData "vc_connID (ep_mem ep s)" b "Some (vc_sendSeq (ep_mem ep s))"] assms
  by (auto simp: SkymeshConn_Write_def SkymeshConn_Send_def Let_def)

lemma writes_out:
  assumes "terr (conn_handle ep s) = None"
  shows "\<exists>ps. length ps = length ms \<and> ep_out (writes terr ep s ms) = ep_out ep @ map (Pair (conn_handle ep s)) ps \<and>
    (\<forall>j < length ms. PackPacket KVConnCmdData (vc_connID (ep_mem ep s)) (ms ! j) (Some (vc_sendSeq (ep_mem ep s) + word_of_nat j)) = Some (ps ! j))"
  using assms
proof (induction ms arbitrary: ep)
  case (Cons m ms)
  obtain p where p: "PackPacket KVConnCmdData (vc_connID (ep_mem ep s)) m (Some (vc_sendSeq (ep_mem ep s))) = Some p"
    "fst (SkymeshConn_Write PackPacket terr ep s m) =
      upd_conn (ep\<lparr>ep_out := ep_out ep @ [(conn_handle ep s, p)]\<rparr>) s (\<lambda>c. c\<lparr>vc_sendSeq := vc_sendSeq c + 1\<rparr>)" (is "_ = ?ep")
    using Write_sends [of terr ep s m, OF Cons.prems] by blast
  have e: "conn_handle ?ep s = conn_handle ep s" "vc_connID (ep_mem ?ep s) = vc_connID (ep_mem ep s)"
    "vc_sendSeq (ep_mem ?ep s) = vc_sendSeq (ep_mem ep s) + 1" "ep_out ?ep = ep_out ep @ [(conn_handle ep s, p)]"
    by (simp_all add: upd_conn_def conn_handle_def)
  from Cons.IH [of ?ep] Cons.prems obtain ps where ps: "length ps = length ms"
    "ep_out (writes terr ?ep s ms) = ep_out ep @ [(conn_handle ep s, p)] @ map (Pair (conn_handle ep s)) ps"
    "\<forall>j < length ms. PackPacket KVConnCmdData (vc_connID (ep_mem ep s)) (ms ! j) (Some (vc_sendSeq (ep_mem ep s) + 1 + word_of_nat j)) = Some (ps ! j)"
    unfolding e by auto
  have "PackPacket KVConnCmdData (vc_connID (ep_mem ep s)) ((m # ms) ! j) (Some (vc_sendSeq (ep_mem ep s) + word_of_nat j)) = Some ((p # ps) ! j)"
    if "j < length (m # ms)" for j using that p(1) ps(3) by (cases j) (auto simp: add.assoc)
  moreover have "writes terr ep s (m # ms) = writes terr ?ep s ms" by (simp add: writes_def p(2))
  ultimately show ?case using ps(1,2) by (intro exI [of _ "p # ps"]) auto
qed (simp add: writes_def)

section \<open>Properties\<close>


definition ex_node :: itemNode where
  "ex_node = \<lparr>nd_it = \<lparr>rs_buf = [], rs_offset = 0\<rparr>, nd_next = None\<rparr>"

definition ex_peer :: "u64 \<Rightarrow> Addr" where
  "ex_peer h = \<lparr>ServiceName = [], ServiceId = h, AddrHandle = h\<rparr>"

definition ex_conn :: SkymeshConn where
  "ex_conn = \<lparr>vc_connID = 0, vc_rmtAddr = ex_peer 0, vc_done = False, vc_cbuf = NewIoBuffer ex_node,
     vc_sendSeq = 0, vc_recvSeq = 0, vc_connMgr = False, vc_lastUpTime = 0\<rparr>"

definition ex_dialed :: "skymeshDialer \<times> (ConnErr + nat)" where
  "ex_dialed = Dialer_dial PackPacket (\<lambda>_. None) ex_node 0 (newSkymeshDialer ex_conn 5) (ex_peer 8)"

lemma ex_dialed_conn: "snd ex_dialed = Inr 0"
  by (simp add: ex_dialed_def Dialer_dial_def newSkymeshDialer_def NewConnMgr_def GenerateConnID_def NewSkymeshConn_def AddConn_def conns_of_def
      SkymeshConn_Connect_def SkymeshConn_Send_def PackPacket_eq upd_conn_def Let_def)

lemma ex_dialed_eq: "Dialer_dial PackPacket (\<lambda>_. None) ex_node 0 (newSkymeshDialer ex_conn 5) (ex_peer 8) = (fst ex_dialed, Inr 0)"
  using ex_dialed_conn by (simp add: ex_dialed_def prod_eq_iff)

lemma new_endpoints:
  "ep_ok (dl_ep (newSkymeshDialer c0 t))" "ep_ok (sl_ep (newSkymeshListener c0 t))" "conn_at (NewConnMgr c0 t) h i = None"
  "conn_at (sl_ep (newSkymeshListener c0 t)) h i = None" "sl_connected (newSkymeshListener c0 t) = []"
  "ep_out (dl_ep (newSkymeshDialer c0 t)) = []" "ep_next (sl_ep (newSkymeshListener c0 t)) = 0"
  by (simp_all add: newSkymeshDialer_def newSkymeshListener_def ep_ok_new conn_at_def conns_of_def)
    (simp_all add: NewConnMgr_def)


lemma Send_no_data:
  assumes "cmd AND KVConnCmdData = 0" "SkymeshConn_Send PackPacket terr ep r cmd msg = (ep', None)"
  shows "\<exists>p. PackPacket cmd (vc_connID (ep_mem ep r)) msg (Some (vc_sendSeq (ep_mem ep r))) = Some p \<and>
    ep' = ep\<lparr>ep_out := ep_out ep @ [(conn_handle ep r, p)]\<rparr>"
  using assms by (auto simp: SkymeshConn_Send_def Let_def split: option.splits)

text \<open>A new connection in the tables starts with both sequence numbers at 0 and an empty buffer.\<close>

lemma New_Add_receiving:
  assumes "ep_ok ep" "conn_at ep (AddrHandle a) i = None" "NewSkymeshConn n0 now ep i a = (ep1, r)" "AddConn ep1 (AddrHandle a) i r = (ep2, e)"
  shows "e = None" "receiving ep2 (AddrHandle a) i r 0 []" "vc_sendSeq (ep_mem ep2 r) = 0" "vc_connID (ep_mem ep2 r) = i"
    "conn_handle ep2 r = AddrHandle a" "ep_out ep2 = ep_out ep" "r = ep_next ep"
proof -
  note N = New_ok [OF assms(1,3)]
  have none: "conn_at ep1 (AddrHandle a) i = None" using assms(2) N(7) by simp
  have A: "ep_ok ep2" "conn_at ep2 (AddrHandle a) i = Some r" using AddConn_ok [OF N(1-6)] none assms(4) by simp_all
  have m: "ep_mem ep1 r = \<lparr>vc_connID = i, vc_rmtAddr = a, vc_done = False, vc_cbuf = NewIoBuffer n0,
            vc_sendSeq = 0, vc_recvSeq = 0, vc_connMgr = False, vc_lastUpTime = now\<rparr>"
    using assms(3) by (auto simp: NewSkymeshConn_def Let_def)
  have e: "e = None" "ep_mem ep2 r = (ep_mem ep1 r)\<lparr>vc_connMgr := True\<rparr>" "ep_out ep2 = ep_out ep1"
    using assms(4) none by (auto simp: AddConn_eq upd_conn_def)
  show "e = None" "vc_sendSeq (ep_mem ep2 r) = 0" "vc_connID (ep_mem ep2 r) = i" "conn_handle ep2 r = AddrHandle a" "ep_out ep2 = ep_out ep"
    "r = ep_next ep" using e m N(8,9) by (simp_all add: conn_handle_def)
  show "receiving ep2 (AddrHandle a) i r 0 []" using A e m il_repr_new by (simp add: receiving_def NewIoBuffer_def)
qed

text \<open>
  A dial is accepted: when the number is not in use there and the accept queue has room, the one
  packet the dial sent makes the listener enter a connection for the dialling service under the same
  number and queue it for \<open>Accept\<close>, with an empty buffer and the sequence number the dialer starts with.
\<close>

theorem grpc_connect_accepted:
  assumes "ep_ok (dl_ep d)" "ep_ok (sl_ep l)" "Dialer_dial PackPacket terr n0 now d a = (d', Inr c)"
    and "conn_at (sl_ep l) (AddrHandle b) (vc_connID (ep_mem (dl_ep d') c)) = None" "length (sl_connected l) < acceptQueueSize"
  shows "\<exists>p l' n'. ep_out (dl_ep d') = ep_out (dl_ep d) @ [(AddrHandle a, p)] \<and> conn_handle (dl_ep d') c = AddrHandle a \<and>
    Listener_OnMessage PackPacket (UnpackPacket behind) getRouter terr' n0 now' (l, n) b p = Some (l', n') \<and>
    sl_connected l' = sl_connected l @ [ep_next (sl_ep l)] \<and>
    receiving (sl_ep l') (AddrHandle b) (vc_connID (ep_mem (dl_ep d') c)) (ep_next (sl_ep l)) (vc_sendSeq (ep_mem (dl_ep d') c)) []"
proof -
  obtain e0 i where g: "GenerateConnID (dl_ep d) = (e0, i)" by fastforce
  have e0: "ep_ok e0" "ep_out e0 = ep_out (dl_ep d)" using same_conns_ok [OF Generate_same assms(1)] g by (auto simp: GenerateConnID_def Let_def)
  obtain e1 r where n: "NewSkymeshConn n0 now e0 i a = (e1, r)" by fastforce
  obtain e2 e3 where A: "AddConn e1 (AddrHandle a) i r = (e2, None)" and S: "SkymeshConn_Connect PackPacket terr e2 r = (e3, None)"
    and d': "d' = d\<lparr>dl_ep := e3\<rparr>" "c = r"
    using assms(3) by (auto simp: Dialer_dial_def g n split: prod.splits option.splits)
  have "conn_at e0 (AddrHandle a) i = None" using A New_ok(7) [OF e0(1) n] by (auto simp: AddConn_eq split: option.splits)
  note R = New_Add_receiving [OF e0(1) this n A]
  obtain p where p: "PackPacket KVConnCmdConnect i [] (Some 0) = Some p" and e3: "e3 = e2\<lparr>ep_out := ep_out e2 @ [(AddrHandle a, p)]\<rparr>"
    using Send_no_data [of KVConnCmdConnect terr e2 r "[]" e3] S R(3-5) by (auto simp: SkymeshConn_Connect_def)
  have D: "vc_connID (ep_mem (dl_ep d') c) = i" "vc_sendSeq (ep_mem (dl_ep d') c) = 0" "conn_handle (dl_ep d') c = AddrHandle a"
    "ep_out (dl_ep d') = ep_out (dl_ep d) @ [(AddrHandle a, p)]" using R(3-6) d' e3 e0(2) by (simp_all add: conn_handle_def)
  obtain l1 n1 where "Listener_watch getRouter (l, n) (ServiceName b) = (l1, n1)" by fastforce
  moreover from this have "sl_ep l1 = sl_ep l" "sl_connected l1 = sl_connected l" by (auto simp: Listener_watch_def split: option.splits)
  ultimately have w: "Listener_watch getRouter (l, n) (ServiceName b) = (l1, n1)" "sl_ep l1 = sl_ep l" "sl_connected l1 = sl_connected l" .
  obtain f1 s f2 e where N: "NewSkymeshConn n0 now' (sl_ep l) i b = (f1, s)" "AddConn f1 (AddrHandle b) i s = (f2, e)" by fastforce
  note Q = New_Add_receiving [OF assms(2) assms(4) [unfolded D(1)] N]
  have o: "Listener_onConnect PackPacket terr' n0 now' l1 b i = (l1\<lparr>sl_ep := f2, sl_connected := sl_connected l @ [s]\<rparr>, True)"
    using N Q(1) w(2,3) assms(5) by (simp add: Listener_onConnect_def chan_offer_def)
  have "UnpackPacket behind p = Some (KVConnCmdConnect, i, [], Some 0)" using p by (rule vp.unpack_pack)
  then have "Listener_OnMessage PackPacket (UnpackPacket behind) getRouter terr' n0 now' (l, n) b p = Some (l1\<lparr>sl_ep := f2, sl_connected := sl_connected l @ [s]\<rparr>, n1)"
    by (simp add: Listener_OnMessage_def w(1) o ep_onPacket_def)
  then show ?thesis unfolding D using Q(2,7) by simp
qed

theorem grpc_connect_accepted_witness:
  "\<exists>p l'. ep_out (dl_ep (fst ex_dialed)) = [(8, p)] \<and>
     Listener_OnMessage PackPacket (UnpackPacket []) (\<lambda>_ n. n) (\<lambda>_. None) ex_node 0 (newSkymeshListener ex_conn 5, ()) (ex_peer 9) p = Some (l', ()) \<and>
     sl_connected l' = [0]"
proof -
  let ?d = "newSkymeshDialer ex_conn 5" and ?l = "newSkymeshListener ex_conn 5"
  have "length (sl_connected ?l) < acceptQueueSize" by (simp add: new_endpoints)
  from grpc_connect_accepted [where b = "ex_peer 9" and behind = "[]" and getRouter = "\<lambda>_ n. n" and terr' = "\<lambda>_. None" and now' = 0 and n = "()",
      OF new_endpoints(1,2) ex_dialed_eq new_endpoints(4) this]
  show ?thesis by (auto simp: new_endpoints ex_peer_def)
qed

text \<open>
  C17: A virtual connection is a stream: whatever of the written packets arrive at the other end, in
  whatever order and however often, the bytes put into the buffer of the connection are a prefix of the
  bytes written, cut at a packet boundary; when all packets arrive in order, they are all the bytes
  written. Fewer than \<open>2 ^ 32\<close> packets are written, so no sequence number returns.
\<close>

theorem grpc_stream_prefix:
  assumes "receiving (sl_ep l) (AddrHandle a) (vc_connID (ep_mem ep s)) r (vc_sendSeq (ep_mem ep s)) xs"
    and "terr (conn_handle ep s) = None" "length ms < 2 ^ 32"
    and "ep_out (writes terr ep s ms) = ep_out ep @ map (Pair (conn_handle ep s)) ps" "set arr \<subseteq> set ps"
  shows "\<exists>l' k q ys. rangeM (\<lambda>p w. Listener_OnMessage PackPacket (UnpackPacket behind) getRouter terr' n0 now w a p) arr (l, n) = Some (l', n) \<and>
    receiving (sl_ep l') (AddrHandle a) (vc_connID (ep_mem ep s)) r q (xs @ ys) \<and> k \<le> length ms \<and> stream ys = concat (take k ms) \<and>
    (arr = ps \<longrightarrow> k = length ms)"
proof -
  obtain ps' where ps': "length ps' = length ms" "ep_out (writes terr ep s ms) = ep_out ep @ map (Pair (conn_handle ep s)) ps'"
    "\<forall>j < length ms. PackPacket KVConnCmdData (vc_connID (ep_mem ep s)) (ms ! j) (Some (vc_sendSeq (ep_mem ep s) + word_of_nat j)) = Some (ps' ! j)"
    using writes_out [of terr ep s ms, OF assms(2)] by blast
  then have "ps' = ps" using assms(4) by (simp add: inj_map_eq_map inj_def)
  note ps = ps' [unfolded this]
  obtain js where js: "arr = map ((!) ps) js" "\<forall>j \<in> set js. j < length ms" "arr = ps \<longrightarrow> js = [0..<length ms]"
  proof (cases "arr = ps")
    case True
    then show ?thesis using that [of "[0..<length ms]"] ps(1) map_nth [of ps] by simp
  next
    case False
    have "\<exists>j < length ms. p = ps ! j" if "p \<in> set arr" for p using that assms(5) ps(1) by (metis in_set_conv_nth subsetD)
    then obtain f where "\<forall>p \<in> set arr. f p < length ms \<and> p = ps ! f p" by metis
    then show ?thesis using that [of "map f arr"] False by (simp add: map_idI)
  qed
  let ?k = "expected 0 js"
  have "receiving (sl_ep l) (AddrHandle a) (vc_connID (ep_mem ep s)) r (vc_sendSeq (ep_mem ep s) + word_of_nat 0)
      (xs @ map (\<lambda>m. \<lparr>rs_buf = m, rs_offset = 0\<rparr>) (take 0 ms))" using assms(1) by simp
  from arrivals [OF this _ assms(3) ps(3) js(2), of behind getRouter terr' n0 now n] obtain l' where
    "rangeM (\<lambda>p w. Listener_OnMessage PackPacket (UnpackPacket behind) getRouter terr' n0 now w a p) arr (l, n) = Some (l', n)"
    "?k \<le> length ms" "receiving (sl_ep l') (AddrHandle a) (vc_connID (ep_mem ep s)) r (vc_sendSeq (ep_mem ep s) + word_of_nat ?k)
      (xs @ map (\<lambda>m. \<lparr>rs_buf = m, rs_offset = 0\<rparr>) (take ?k ms))" unfolding js(1) by auto
  moreover have "stream (map (\<lambda>m. \<lparr>rs_buf = m, rs_offset = 0\<rparr>) ks) = concat ks" for ks by (induction ks) simp_all
  moreover have "arr = ps \<longrightarrow> ?k = length ms" using js(3) expected_upt [of 0] by auto
  ultimately show ?thesis by blast
qed

theorem grpc_stream_prefix_witness:
  "\<exists>l ep ps l' q ys. ep_out (writes (\<lambda>_. None) ep 0 [[1, 2], [3]]) = map (Pair 9) ps \<and>
     rangeM (\<lambda>p w. Listener_OnMessage PackPacket (UnpackPacket []) (\<lambda>_ n. n) (\<lambda>_. None) ex_node 0 w (ex_peer 9) p) ps (l, ()) = Some (l', ()) \<and>
     receiving (sl_ep l') 9 4 0 q ys \<and> stream ys = [1, 2, 3]"
proof -
  let ?e = "NewConnMgr ex_conn 5"
  obtain e1 r where n: "NewSkymeshConn ex_node 0 ?e 4 (ex_peer 9) = (e1, r)" by fastforce
  obtain e2 x where A: "AddConn e1 (AddrHandle (ex_peer 9)) 4 r = (e2, x)" by fastforce
  have "ep_ok ?e" "conn_at ?e (AddrHandle (ex_peer 9)) 4 = None" by (simp_all add: ep_ok_new new_endpoints)
  note R = New_Add_receiving [OF this n A]
  have r0: "r = 0" "ep_out e2 = []" using R(6,7) by (simp_all add: NewConnMgr_def)
  let ?l = "(newSkymeshListener ex_conn 5)\<lparr>sl_ep := e2\<rparr>"
  have h: "conn_handle e2 0 = 9" using R(5) r0 by (simp add: ex_peer_def)
  obtain ps where ps: "ep_out (writes (\<lambda>_. None) e2 0 [[1, 2], [3]]) = ep_out e2 @ map (Pair (conn_handle e2 0)) ps"
    using writes_out [of "\<lambda>_. None" e2 0 "[[1, 2], [3]]"] by auto
  have "receiving (sl_ep ?l) (AddrHandle (ex_peer 9)) (vc_connID (ep_mem e2 0)) 0 (vc_sendSeq (ep_mem e2 0)) []"
    using R(2-4) r0 by simp
  from grpc_stream_prefix [OF this _ _ ps, of ps "[]" "\<lambda>_ n. n" "\<lambda>_. None" ex_node 0 "()"] obtain l' q ys where
    "rangeM (\<lambda>p w. Listener_OnMessage PackPacket (UnpackPacket []) (\<lambda>_ n. n) (\<lambda>_. None) ex_node 0 w (ex_peer 9) p) ps (?l, ()) = Some (l', ())"
    "receiving (sl_ep l') 9 4 0 q ys" "stream ys = [1, 2, 3]" using R(4) r0 by (auto simp: ex_peer_def)
  moreover have "ep_out (writes (\<lambda>_. None) e2 0 [[1, 2], [3]]) = map (Pair 9) ps" using ps h r0 by simp
  ultimately show ?thesis by blast
qed

text \<open>
  When a peer goes offline its connections are dropped from the tables without being closed: the channel
  a reader waits for is never closed, and a later \<open>Close\<close> reports that the connection is closed already.
\<close>

theorem grpc_offline_not_closed:
  assumes "ep_ok (sl_ep l)" "conn_at (sl_ep l) (AddrHandle a) i = Some r"
  shows "\<exists>ep'. SkymeshConn_Close PackPacket terr (sl_ep (Listener_OnInstOffline l a)) r = Some (ep', Some ConnHasClosed) \<and> \<not> vc_done (ep_mem ep' r)"
proof -
  let ?ep = "sl_ep (Listener_OnInstOffline l a)"
  have m: "ep_mem ?ep = ep_mem (sl_ep l)" by (simp add: Listener_OnInstOffline_def DelConns_eq [OF assms(1)])
  note k = ep_okD [OF assms]
  have h: "conn_handle ?ep r = AddrHandle a" using k(4) m by (simp add: conn_handle_def)
  let ?s = "fst (SkymeshConn_Send PackPacket terr ?ep r KVConnCmdClose [])"
  have s: "same_conns ?ep ?s" by (rule Send_same)
  have "conn_at ?s (conn_handle ?s r) (vc_connID (ep_mem ?s r)) = None"
    using s same_conns_at [OF s] h DelConns_ok(2) [OF assms(1), of "AddrHandle a"] by (simp add: Listener_OnInstOffline_def)
  moreover have "ep_ok ?s" using same_conns_ok [OF s] DelConns_ok(1) [OF assms(1)] by (simp add: Listener_OnInstOffline_def)
  ultimately have "SkymeshConn_Close PackPacket terr ?ep r = Some (?s, Some ConnHasClosed)"
    by (simp add: SkymeshConn_Close_def Let_def DelConn_eq)
  moreover have "\<not> vc_done (ep_mem ?s r)" using s k(5) m by (simp add: same_conns_def)
  ultimately show ?thesis by blast
qed

end
