(* ===== verification/GrpcResolver.thy ===== *)
theory GrpcResolver
  imports GrpcEndpoint
begin

text \<open>
  \<^verbatim>\<open>src/extension/grpc/resolver.go\<close>, \<^verbatim>\<open>adaptor.go\<close>, \<^verbatim>\<open>api.go\<close>, \<^verbatim>\<open>defines.go\<close> and the name watcher
  of \<^verbatim>\<open>dialer.go\<close>: how a grpc client finds the instances of a service. The resolver goroutine
  publishes the addresses it reads from the name router and waits for the watcher; the router calls
  the watcher after it has released its lock, so a change and its call are two steps. JSON is a
  parameter: \<open>dump\<close> and \<open>load\<close> of \<open>dialAddr\<close>.
\<close>

section \<open>Addresses\<close>

record dialAddr =
  Laddr :: string
  Raddr :: Addr

type_synonym dumpjson = "dialAddr \<Rightarrow> string option"
type_synonym loadjson = "string \<Rightarrow> dialAddr option"

definition dumpDialAddr :: "dumpjson \<Rightarrow> dialAddr \<Rightarrow> string option" where
  "dumpDialAddr dump da = dump da"

definition loadDialAddr :: "loadjson \<Rightarrow> string \<Rightarrow> dialAddr option" where
  "loadDialAddr load adr = load adr"

section \<open>The name watcher\<close>

record dialNameWatcher =
  nw_resolver :: bool
  nw_waiting :: bool
  nw_quit :: bool

definition newNameWatcher :: dialNameWatcher where
  "newNameWatcher = \<lparr>nw_resolver = True, nw_waiting = False, nw_quit = False\<rparr>"

text \<open>The watcher of a target the dialer has a resolver for; its registration with the router is in \<open>resolver_start\<close>.\<close>

definition Dialer_newNameWatcher :: "skymeshDialer \<Rightarrow> string \<Rightarrow> dialNameWatcher option" where
  "Dialer_newNameWatcher d target = (case mget (dl_resolvers d) target of None \<Rightarrow> None | Some _ \<Rightarrow> Some newNameWatcher)"

text \<open>\<open>OnInstOnline\<close> and \<open>OnInstOffline\<close>: a token for a channel of capacity one, dropped when it is full.\<close>

definition nw_OnInst :: "dialNameWatcher \<Rightarrow> dialNameWatcher" where
  "nw_OnInst nw = nw\<lparr>nw_waiting := True\<rparr>"

datatype WaitErr = ErrWaitTimeout | ErrRouterMonitorClosed

text \<open>The ways \<open>wait\<close> can return; a select takes any case that is ready.\<close>

inductive nw_wait :: "int \<Rightarrow> dialNameWatcher \<Rightarrow> dialNameWatcher \<Rightarrow> WaitErr option \<Rightarrow> bool" where
  wait_zero: "nw_wait 0 nw nw (Some ErrWaitTimeout)"
| wait_expired: "0 < waitMs \<Longrightarrow> nw_wait waitMs nw nw (Some ErrWaitTimeout)"
| wait_token: "waitMs \<noteq> 0 \<Longrightarrow> nw_waiting nw \<Longrightarrow> nw_wait waitMs nw (nw\<lparr>nw_waiting := False\<rparr>) None"
| wait_closed: "waitMs \<noteq> 0 \<Longrightarrow> nw_quit nw \<Longrightarrow> nw_wait waitMs nw nw (Some ErrRouterMonitorClosed)"

definition nw_close :: "nat \<Rightarrow> dialNameWatcher \<times> skymeshNameRouter \<Rightarrow> dialNameWatcher \<times> skymeshNameRouter" where
  "nw_close w x =
     (if nw_resolver (fst x) then ((fst x)\<lparr>nw_resolver := False, nw_quit := True\<rparr>, sr_UnWatch (snd x) w) else x)"

section \<open>The resolver goroutine\<close>

datatype RvPc = RvRead | RvUpdate "string list" | RvWait | RvEnd | RvPanic

record resolver_world =
  rv_router :: skymeshNameRouter
  rv_calls :: nat
  rv_nw :: dialNameWatcher
  rv_pc :: RvPc
  rv_published :: "string list option"

text \<open>The list of dumped addresses; a failure to dump is a panic of the goroutine.\<close>

fun dump_all :: "dumpjson \<Rightarrow> string \<Rightarrow> Addr list \<Rightarrow> string list option" where
  "dump_all dump svcName [] = Some []"
| "dump_all dump svcName (a # as) = do {
     x \<leftarrow> dumpDialAddr dump \<lparr>Laddr = svcName, Raddr = a\<rparr>;
     xs \<leftarrow> dump_all dump svcName as;
     Some (x # xs) }"

definition resolver_read :: "dumpjson \<Rightarrow> string \<Rightarrow> resolver_world \<Rightarrow> RvPc" where
  "resolver_read dump svcName v =
     (if \<not> nw_resolver (rv_nw v) then RvPanic
      else case dump_all dump svcName (mvals (sr_GetInstsAddr (rv_router v))) of
        None \<Rightarrow> RvPanic
      | Some addrs \<Rightarrow> RvUpdate addrs)"

text \<open>The calls a router makes on the watcher \<open>w\<close> that put a token.\<close>

fun calls_for :: "nat \<Rightarrow> RouterCall list \<Rightarrow> nat" where
  "calls_for w [] = 0"
| "calls_for w (OnInstOnline v a # cs) = (if v = w then 1 else 0) + calls_for w cs"
| "calls_for w (OnInstOffline v a # cs) = (if v = w then 1 else 0) + calls_for w cs"
| "calls_for w (OnInstSyncAttr v a attrs # cs) = calls_for w cs"

definition resolver_start :: "nat \<Rightarrow> skymeshNameRouter \<Rightarrow> resolver_world" where
  "resolver_start w sr =
     (case sr_Watch sr w of (sr, cs) \<Rightarrow>
        \<lparr>rv_router = sr, rv_calls = 0, rv_nw = (if calls_for w cs = 0 then newNameWatcher else nw_OnInst newNameWatcher),
         rv_pc = RvRead, rv_published = None\<rparr>)"

inductive resolver_step :: "dumpjson \<Rightarrow> string \<Rightarrow> nat \<Rightarrow> resolver_world \<Rightarrow> resolver_world \<Rightarrow> bool" for dump svcName w where
  rv_read: "rv_pc v = RvRead \<Longrightarrow> resolver_step dump svcName w v (v\<lparr>rv_pc := resolver_read dump svcName v\<rparr>)"
| rv_update: "rv_pc v = RvUpdate addrs \<Longrightarrow> resolver_step dump svcName w v (v\<lparr>rv_published := Some addrs, rv_pc := RvWait\<rparr>)"
| rv_wait: "rv_pc v = RvWait \<Longrightarrow> nw_wait (-1) (rv_nw v) nw err \<Longrightarrow>
    resolver_step dump svcName w v (v\<lparr>rv_nw := nw, rv_pc := (if err = Some ErrRouterMonitorClosed then RvEnd else RvRead)\<rparr>)"
| rv_change: "router_op (rv_router v) op = (sr, cs) \<Longrightarrow> \<not> is_AddInst op \<Longrightarrow> op \<noteq> UnWatchBy w \<Longrightarrow> op \<noteq> WatchBy w \<Longrightarrow>
    resolver_step dump svcName w v (v\<lparr>rv_router := sr, rv_calls := rv_calls v + calls_for w cs\<rparr>)"
| rv_call: "rv_calls v = Suc n \<Longrightarrow> resolver_step dump svcName w v (v\<lparr>rv_calls := n, rv_nw := nw_OnInst (rv_nw v)\<rparr>)"
| rv_close: "nw_close w (rv_nw v, rv_router v) = (nw, sr) \<Longrightarrow> resolver_step dump svcName w v (v\<lparr>rv_nw := nw, rv_router := sr\<rparr>)"

inductive resolver_reach :: "dumpjson \<Rightarrow> string \<Rightarrow> nat \<Rightarrow> skymeshNameRouter \<Rightarrow> resolver_world \<Rightarrow> bool" for dump svcName w sr where
  rv_start: "resolver_reach dump svcName w sr (resolver_start w sr)"
| rv_step: "resolver_reach dump svcName w sr v \<Longrightarrow> resolver_step dump svcName w v v' \<Longrightarrow> resolver_reach dump svcName w sr v'"

section \<open>The adaptor\<close>

text \<open>Servers are identified by numbers. \<open>newServer\<close> is the result of \<open>NewServer\<close>, \<open>registered\<close> of \<open>Register\<close>.\<close>

datatype AdaptorErr = ErrAppReRegister | ErrAppNoRegister | AdUrl UrlError | AdServer string | AdReg RegErr | NoDialer | AdJson | AdConn ConnErr

record grpcAdaptor =
  ad_dia :: "(string, skymeshDialer) gomap"
  ad_servers :: "(string, nat) gomap"

definition adaptor_register :: "grpcAdaptor \<Rightarrow> string \<Rightarrow> string + nat \<Rightarrow> grpcAdaptor \<times> AdaptorErr option" where
  "adaptor_register ad appID newServer =
     (case mget (ad_servers ad) appID of
        Some _ \<Rightarrow> (ad, Some ErrAppReRegister)
      | None \<Rightarrow>
          (case newServer of
             Inl e \<Rightarrow> (ad, Some (AdServer e))
           | Inr s \<Rightarrow> (ad\<lparr>ad_servers := mput appID s (ad_servers ad)\<rparr>, None)))"

text \<open>The servers that are stopped, and the adaptor afterwards.\<close>

definition adaptor_release :: "grpcAdaptor \<Rightarrow> grpcAdaptor \<times> nat list" where
  "adaptor_release ad = (ad\<lparr>ad_dia := [], ad_servers := []\<rparr>, mvals (ad_servers ad))"

definition adaptor_newDialer ::
  "(string \<Rightarrow> 'n \<Rightarrow> 'n) \<Rightarrow> SkymeshConn \<Rightarrow> int \<Rightarrow> (nat \<Rightarrow> RegErr option) \<Rightarrow> grpcAdaptor \<times> 'n \<Rightarrow> string \<Rightarrow> string \<Rightarrow>
     (grpcAdaptor \<times> 'n) \<times> AdaptorErr option" where
  "adaptor_newDialer getRouter c0 nowMS registered w svcName target =
     (let ad = fst w; n = snd w in
      case mget (ad_dia ad) svcName of
        Some d \<Rightarrow>
          (let (d, n) = getNameResolver getRouter (d, n) target in ((ad\<lparr>ad_dia := mput svcName d (ad_dia ad)\<rparr>, n), None))
      | None \<Rightarrow>
          (case ParseSkymeshUrl svcName of
             Inl e \<Rightarrow> (w, Some (AdUrl e))
           | Inr (appID, _, _, _) \<Rightarrow>
               (case mget (ad_servers ad) appID of
                  None \<Rightarrow> (w, Some ErrAppNoRegister)
                | Some s \<Rightarrow>
                    (case registered s of
                       Some e \<Rightarrow> (w, Some (AdReg e))
                     | None \<Rightarrow>
                         (let (d, n) = getNameResolver getRouter (newSkymeshDialer c0 nowMS, n) target
                          in ((ad\<lparr>ad_dia := mput svcName d (ad_dia ad)\<rparr>, n), None))))))"

definition adaptor_getDialer :: "grpcAdaptor \<Rightarrow> string \<Rightarrow> skymeshDialer option" where
  "adaptor_getDialer ad svcURL = mget (ad_dia ad) svcURL"

definition adaptor_newListener ::
  "SkymeshConn \<Rightarrow> int \<Rightarrow> (nat \<Rightarrow> RegErr option) \<Rightarrow> grpcAdaptor \<Rightarrow> string \<Rightarrow> AdaptorErr + skymeshListener" where
  "adaptor_newListener c0 nowMS registered ad svcName =
     (case ParseSkymeshUrl svcName of
        Inl e \<Rightarrow> Inl (AdUrl e)
      | Inr (appID, _, _, _) \<Rightarrow>
          (case mget (ad_servers ad) appID of
             None \<Rightarrow> Inl ErrAppNoRegister
           | Some s \<Rightarrow> (case registered s of Some e \<Rightarrow> Inl (AdReg e) | None \<Rightarrow> Inr (newSkymeshListener c0 nowMS))))"

definition grpc_Dial ::
  "loadjson \<Rightarrow> vpack \<Rightarrow> senderr \<Rightarrow> itemNode \<Rightarrow> int \<Rightarrow> grpcAdaptor \<Rightarrow> string \<Rightarrow> grpcAdaptor \<times> (AdaptorErr + nat)" where
  "grpc_Dial load pack terr n0 now ad addr =
     (case loadDialAddr load addr of
        None \<Rightarrow> (ad, Inl AdJson)
      | Some da \<Rightarrow>
          (case adaptor_getDialer ad (Laddr da) of
             None \<Rightarrow> (ad, Inl NoDialer)
           | Some d \<Rightarrow>
               (case Dialer_dial pack terr n0 now d (Raddr da) of (d, r) \<Rightarrow>
                  (ad\<lparr>ad_dia := mput (Laddr da) d (ad_dia ad)\<rparr>,
                   case r of Inl e \<Rightarrow> Inl (AdConn e) | Inr c \<Rightarrow> Inr c))))"

definition skymeshCltName :: string where
  "skymeshCltName = ''__grpc_client''"

text \<open>The name under which \<open>start\<close> of the resolver registers its client service.\<close>

definition resolver_svcName :: "string \<Rightarrow> string \<Rightarrow> u64 \<Rightarrow> string" where
  "resolver_svcName gameID envName inst =
     gameID @ ''.'' @ envName @ ''.'' @ skymeshCltName @ ''/'' @ dec (unat inst)"

text \<open>The instance is the time in nanoseconds.\<close>

definition genSkymeshInstID :: "int \<Rightarrow> u64" where
  "genSkymeshInstID nowNS = word_of_int nowNS"

text \<open>
  What \<open>Build\<close> does for a target, up to the loop of its goroutine: the name of the client service, its
  dialer with the router of the target, and the watcher. \<open>None\<close> is \<^verbatim>\<open>log.Fatalf\<close>, which ends the process.
\<close>

definition resolver_prepare ::
  "(string \<Rightarrow> 'n \<Rightarrow> 'n) \<Rightarrow> SkymeshConn \<Rightarrow> int \<Rightarrow> int \<Rightarrow> (nat \<Rightarrow> RegErr option) \<Rightarrow> grpcAdaptor \<times> 'n \<Rightarrow> string \<Rightarrow>
     ((grpcAdaptor \<times> 'n) \<times> string \<times> dialNameWatcher) option" where
  "resolver_prepare getRouter c0 nowMS nowNS registered w target =
     (case ParseSkymeshUrl target of
        Inl _ \<Rightarrow> None
      | Inr (gameID, envName, _, _) \<Rightarrow>
          (let svcName = resolver_svcName gameID envName (genSkymeshInstID nowNS) in
           case adaptor_newDialer getRouter c0 nowMS registered w svcName target of
             (_, Some _) \<Rightarrow> None
           | (w, None) \<Rightarrow> do {
               d \<leftarrow> adaptor_getDialer (fst w) svcName;
               nw \<leftarrow> Dialer_newNameWatcher d target;
               Some (w, svcName, nw) }))"

text \<open>\<open>Scheme\<close> of the builder, and \<open>Close\<close>, which does nothing until the watcher is there.\<close>

definition resolver_Scheme :: string where
  "resolver_Scheme = GetSkymeshSchema"

definition resolver_Close :: "nat \<Rightarrow> dialNameWatcher option \<times> skymeshNameRouter \<Rightarrow> dialNameWatcher option \<times> skymeshNameRouter" where
  "resolver_Close w x =
     (case fst x of
        None \<Rightarrow> x
      | Some nw \<Rightarrow> (case nw_close w (nw, snd x) of (nw, sr) \<Rightarrow> (Some nw, sr)))"

section \<open>The entry points of an application\<close>

definition grpc_RegisterApp :: "(string \<Rightarrow> string \<Rightarrow> string + nat) \<Rightarrow> grpcAdaptor \<Rightarrow> string \<Rightarrow> string \<Rightarrow> grpcAdaptor \<times> AdaptorErr option" where
  "grpc_RegisterApp newServer ad conf appID = adaptor_register ad appID (newServer conf appID)"

text \<open>\<open>stop\<close> is \<open>GracefulStop\<close> of a server.\<close>

definition grpc_Release :: "(nat \<Rightarrow> 'n \<Rightarrow> 'n option) \<Rightarrow> grpcAdaptor \<times> 'n \<Rightarrow> (grpcAdaptor \<times> 'n) option" where
  "grpc_Release stop w =
     (case adaptor_release (fst w) of (ad, servers) \<Rightarrow>
        map_option (Pair ad) (fold (\<lambda>s n. Option.bind n (stop s)) servers (Some (snd w))))"

definition grpc_Listen ::
  "SkymeshConn \<Rightarrow> int \<Rightarrow> (nat \<Rightarrow> RegErr option) \<Rightarrow> grpcAdaptor \<Rightarrow> string \<Rightarrow> AdaptorErr + skymeshListener" where
  "grpc_Listen c0 nowMS registered ad address = adaptor_newListener c0 nowMS registered ad address"

lemma mget_mput_some: "mget m k \<noteq> None \<Longrightarrow> mget (mput k' v m) k \<noteq> None"
  by (cases "k = k'") simp_all

lemma newDialer_enters:
  assumes "adaptor_newDialer getRouter c0 nowMS registered w svcName target = (w', None)"
  shows "\<exists>d. adaptor_getDialer (fst w') svcName = Some d \<and> mget (dl_resolvers d) target \<noteq> None"
proof -
  have "mget (dl_resolvers (fst (getNameResolver getRouter x target))) target \<noteq> None" for x
    by (auto simp: getNameResolver_def split: option.splits)
  moreover obtain d n where "w' = ((fst w)\<lparr>ad_dia := mput svcName (fst (getNameResolver getRouter (d, n) target)) (ad_dia (fst w))\<rparr>,
      snd (getNameResolver getRouter (d, n) target))"
    using assms by (auto simp: adaptor_newDialer_def Let_def case_prod_beta split: option.splits sum.splits)
  ultimately show ?thesis by (auto simp: adaptor_getDialer_def)
qed

lemma newDialer_keeps:
  assumes "adaptor_getDialer (fst w) k \<noteq> None"
  shows "adaptor_getDialer (fst (fst (adaptor_newDialer getRouter c0 nowMS registered w svcName target))) k \<noteq> None"
  using assms mget_mput_some [of "ad_dia (fst w)" k]
  by (auto simp: adaptor_newDialer_def adaptor_getDialer_def Let_def case_prod_beta split: option.splits sum.splits)

lemma Dial_keeps:
  assumes "adaptor_getDialer ad k \<noteq> None"
  shows "adaptor_getDialer (fst (grpc_Dial load pack terr n0 now ad x)) k \<noteq> None"
  using assms mget_mput_some [of "ad_dia ad" k]
  by (auto simp: grpc_Dial_def adaptor_getDialer_def case_prod_beta split: option.splits)

text \<open>
  The goroutine of a resolver ends the process exactly when the target is no service name or the dialer
  cannot be registered: a dialer that is there has the router of the target.
\<close>

theorem resolver_prepare_fatal_iff:
  "resolver_prepare getRouter c0 nowMS nowNS registered w target = None \<longleftrightarrow>
     (case ParseSkymeshUrl target of
        Inl _ \<Rightarrow> True
      | Inr (gameID, envName, _, _) \<Rightarrow>
          snd (adaptor_newDialer getRouter c0 nowMS registered w (resolver_svcName gameID envName (genSkymeshInstID nowNS)) target) \<noteq> None)"
proof (cases "ParseSkymeshUrl target")
  case (Inr p)
  then obtain g e s i where p: "ParseSkymeshUrl target = Inr (g, e, s, i)" by (metis prod_cases4)
  let ?n = "resolver_svcName g e (genSkymeshInstID nowNS)"
  show ?thesis
  proof (cases "snd (adaptor_newDialer getRouter c0 nowMS registered w ?n target)")
    case None
    then obtain w' where w: "adaptor_newDialer getRouter c0 nowMS registered w ?n target = (w', None)" by (metis prod.collapse)
    from newDialer_enters [OF w] show ?thesis by (auto simp: resolver_prepare_def p w Dialer_newNameWatcher_def)
  qed (auto simp: resolver_prepare_def p Let_def split: prod.splits option.splits)
qed (simp add: resolver_prepare_def)

text \<open>
  Every address a resolver publishes leads \<open>Dial\<close> to the dialer of the resolver, now and after further
  dialers and connections.
\<close>

theorem published_address_has_dialer:
  assumes "resolver_prepare getRouter c0 nowMS nowNS registered w target = Some ((ad, n), svcName, nw)"
    and "loadDialAddr load x = Some \<lparr>Laddr = svcName, Raddr = a\<rparr>"
  shows "snd (grpc_Dial load pack terr n0 now ad x) \<noteq> Inl NoDialer"
    and "nw = newNameWatcher"
    and "adaptor_getDialer (fst (fst (adaptor_newDialer getRouter c1 nowMS' registered' (ad, n') svcName' target'))) svcName \<noteq> None"
    and "adaptor_getDialer (fst (grpc_Dial load pack terr n0 now ad y)) svcName \<noteq> None"
proof -
  obtain d where d: "adaptor_getDialer ad svcName = Some d" "Dialer_newNameWatcher d target = Some nw"
    using assms(1) by (auto simp: resolver_prepare_def Let_def split: sum.splits prod.splits option.splits Option.bind_splits)
  show "snd (grpc_Dial load pack terr n0 now ad x) \<noteq> Inl NoDialer"
    using assms(2) d(1) by (auto simp: grpc_Dial_def split: prod.splits sum.splits)
  show "nw = newNameWatcher" using d(2) by (auto simp: Dialer_newNameWatcher_def split: option.splits)
  show "adaptor_getDialer (fst (fst (adaptor_newDialer getRouter c1 nowMS' registered' (ad, n') svcName' target'))) svcName \<noteq> None"
    using newDialer_keeps [of "(ad, n')" svcName] d(1) by simp
  show "adaptor_getDialer (fst (grpc_Dial load pack terr n0 now ad y)) svcName \<noteq> None"
    using Dial_keeps [of ad svcName] d(1) by simp
qed

section \<open>What is published\<close>

lemma fold_mput:
  assumes "mwf m" "mwf c"
  shows "mget (fold (\<lambda>(k, v) c. mput k v c) m c) k = (case mget m k of Some v \<Rightarrow> Some v | None \<Rightarrow> mget c k) \<and>
    mwf (fold (\<lambda>(k, v) c. mput k v c) m c)"
  using assms
proof (induction m arbitrary: c)
  case (Cons p m)
  then have "mget m (fst p) = None" by (auto simp: mwf_def map_of_eq_None_iff)
  moreover have "mwf m" using Cons.prems(1) by (simp add: mwf_def)
  ultimately show ?case using Cons.IH [of "mput (fst p) (snd p) c"] Cons.prems(2) by (cases p) (auto split: option.splits)
qed simp

lemma GetInstsAddr_vals:
  assumes "mwf (sr_instAddrs sr)"
  shows "set (mvals (sr_GetInstsAddr sr)) = ran (mget (sr_instAddrs sr))"
proof -
  have "mget (sr_GetInstsAddr sr) k = mget (sr_instAddrs sr) k" "mwf (sr_GetInstsAddr sr)" for k
    using fold_mput [OF assms mwf_Nil, of k] by (auto simp: sr_GetInstsAddr_def split: option.splits)
  then show ?thesis by (auto simp: in_mvals_iff ran_def)
qed

lemma no_calls_view: "calls_for w cs = 0 \<Longrightarrow> view w m cs = m"
  by (induction w m cs rule: view.induct) (auto split: if_splits)

definition current :: "dumpjson \<Rightarrow> string \<Rightarrow> skymeshNameRouter \<Rightarrow> string list \<Rightarrow> bool" where
  "current dump svcName sr xs \<longleftrightarrow> (\<exists>as. dump_all dump svcName as = Some xs \<and> set as = ran (mget (sr_instAddrs sr)))"

definition resolver_inv :: "dumpjson \<Rightarrow> string \<Rightarrow> nat \<Rightarrow> resolver_world \<Rightarrow> bool" where
  "resolver_inv dump svcName w v \<longleftrightarrow> nw_resolver (rv_nw v) = (\<not> nw_quit (rv_nw v)) \<and>
     (\<not> nw_quit (rv_nw v) \<longrightarrow> insts_ok (rv_router v) \<and> w \<in> set (mkeys (sr_watchers (rv_router v)))) \<and>
     (\<not> nw_quit (rv_nw v) \<and> \<not> nw_waiting (rv_nw v) \<and> rv_calls v = 0 \<longrightarrow>
        (\<forall>xs. rv_pc v = RvUpdate xs \<longrightarrow> current dump svcName (rv_router v) xs) \<and>
        (rv_pc v = RvWait \<longrightarrow> (\<exists>xs. rv_published v = Some xs \<and> current dump svcName (rv_router v) xs)))"

lemma resolver_inv_start:
  assumes "insts_ok sr"
  shows "resolver_inv dump svcName w (resolver_start w sr)"
  using insts_ok_op [OF assms, of "WatchBy w"] by (simp add: resolver_inv_def resolver_start_def sr_Watch_def newNameWatcher_def nw_OnInst_def)

lemma resolver_inv_step:
  assumes "resolver_step dump svcName w v v'" "resolver_inv dump svcName w v"
  shows "resolver_inv dump svcName w v'"
  using assms
proof (induction rule: resolver_step.induct)
  case (rv_read v)
  then show ?case using GetInstsAddr_vals [of "rv_router v"]
    by (auto simp: resolver_inv_def resolver_read_def current_def insts_ok_def router_inv_def split: option.splits if_splits)
next
  case (rv_wait v nw err)
  from rv_wait.hyps(2) rv_wait.prems rv_wait.hyps(1) show ?case
    by (cases rule: nw_wait.cases) (auto simp: resolver_inv_def)
next
  case (rv_change v op sr cs)
  show ?case
  proof (cases "nw_quit (rv_nw v)")
    case True
    then show ?thesis using rv_change.prems by (simp add: resolver_inv_def)
  next
    case False
    have ok: "insts_ok (rv_router v)" "w \<in> set (mkeys (sr_watchers (rv_router v)))" using False rv_change.prems by (auto simp: resolver_inv_def)
    have "op_ok op" using rv_change.hyps(2) by (cases op) (auto simp: is_AddInst_def)
    from insts_ok_op [OF ok(1) this] view_op [OF ok rv_change.hyps(2,3)] rv_change.hyps(1)
    have k: "insts_ok sr" "w \<in> set (mkeys (sr_watchers sr))" "view w (mget (sr_instAddrs (rv_router v))) cs = mget (sr_instAddrs sr)" by auto
    then have "current dump svcName sr = current dump svcName (rv_router v)" if "calls_for w cs = 0"
      using no_calls_view [OF that, of "mget (sr_instAddrs (rv_router v))"] by (simp add: current_def fun_eq_iff)
    then show ?thesis using rv_change.prems k by (auto simp: resolver_inv_def)
  qed
next
  case (rv_close v nw sr)
  then show ?case by (auto simp: resolver_inv_def nw_close_def split: if_splits)
qed (auto simp: resolver_inv_def nw_OnInst_def)

lemma resolver_reach_inv: "resolver_reach dump svcName w sr v \<Longrightarrow> insts_ok sr \<Longrightarrow> resolver_inv dump svcName w v"
  by (induction rule: resolver_reach.induct) (auto intro: resolver_inv_start resolver_inv_step)

lemma dump_all_load:
  assumes "\<forall>da s. dump da = Some s \<longrightarrow> load s = Some da" "dump_all dump svcName as = Some xs"
  shows "a \<in> set as \<longleftrightarrow> (\<exists>x \<in> set xs. loadDialAddr load x = Some \<lparr>Laddr = svcName, Raddr = a\<rparr>)"
  using assms(2)
proof (induction "as" arbitrary: xs)
  case (Cons b bs)
  then obtain y ys where y: "dump \<lparr>Laddr = svcName, Raddr = b\<rparr> = Some y" "dump_all dump svcName bs = Some ys" "xs = y # ys"
    by (auto simp: dumpDialAddr_def split: Option.bind_splits)
  then have "load y = Some \<lparr>Laddr = svcName, Raddr = b\<rparr>" using assms(1) by blast
  then show ?case using Cons.IH [OF y(2)] y(3) by (auto simp: loadDialAddr_def)
qed simp

section \<open>Properties\<close>


definition ex_inst_router :: skymeshNameRouter where
  "ex_inst_router = fst (sr_notifyInstsChange (newNameRouter ''svc'') True 9 1 defaultRegisterOptions)"

definition ex_inst :: Addr where
  "ex_inst = \<lparr>ServiceName = ''svc'', ServiceId = 1, AddrHandle = 9\<rparr>"

definition ex_dump :: dumpjson where
  "ex_dump da = (if da = \<lparr>Laddr = ''client'', Raddr = ex_inst\<rparr> then Some ''x'' else None)"

definition ex_load :: loadjson where
  "ex_load s = (if s = ''x'' then Some \<lparr>Laddr = ''client'', Raddr = ex_inst\<rparr> else None)"

definition ex_published :: resolver_world where
  "ex_published = (resolver_start 0 ex_inst_router)\<lparr>rv_nw := newNameWatcher, rv_published := Some [''x''], rv_pc := RvWait\<rparr>"

lemma ex_inst_router_insts: "mvals (sr_GetInstsAddr (fst (sr_Watch ex_inst_router w))) = [ex_inst]"
  "sr_instAddrs (rv_router (resolver_start w ex_inst_router)) = [(1, ex_inst)]" "nw_waiting (rv_nw (resolver_start w ex_inst_router))"
  by (simp_all add: ex_inst_router_def ex_inst_def sr_notifyInstsChange_def newNameRouter_def sr_Watch_def sr_GetInstsAddr_def Let_def
      resolver_start_def nw_OnInst_def newNameWatcher_def)

lemma ex_read:
  assumes "nw_resolver (rv_nw v)" "rv_router v = fst (sr_Watch ex_inst_router 0)"
  shows "resolver_read ex_dump ''client'' v = RvUpdate [''x'']"
  using assms by (simp add: resolver_read_def ex_inst_router_insts dumpDialAddr_def ex_dump_def)

lemma ex_resolver_turn:
  assumes "resolver_reach ex_dump ''client'' 0 ex_inst_router v" "rv_pc v = RvRead" "nw_resolver (rv_nw v)"
    "rv_router v = fst (sr_Watch ex_inst_router 0)"
  shows "resolver_reach ex_dump ''client'' 0 ex_inst_router (v\<lparr>rv_published := Some [''x''], rv_pc := RvWait\<rparr>)"
proof -
  have "resolver_reach ex_dump ''client'' 0 ex_inst_router (v\<lparr>rv_pc := RvUpdate [''x'']\<rparr>)"
    using rv_step [OF assms(1) rv_read [OF assms(2)]] ex_read [OF assms(3,4)] by simp
  from rv_step [OF this rv_update [of _ "[''x'']"]] show ?thesis by simp
qed

lemma ex_published_reach: "resolver_reach ex_dump ''client'' 0 ex_inst_router ex_published"
proof -
  let ?s = "resolver_start 0 ex_inst_router"
  let ?p = "?s\<lparr>rv_published := Some [''x''], rv_pc := RvWait\<rparr>"
  have s: "rv_pc ?s = RvRead" "nw_resolver (rv_nw ?s)" "rv_router ?s = fst (sr_Watch ex_inst_router 0)"
    "(rv_nw ?s)\<lparr>nw_waiting := False\<rparr> = newNameWatcher"
    by (simp_all add: resolver_start_def sr_Watch_def nw_OnInst_def newNameWatcher_def)
  have 1: "resolver_reach ex_dump ''client'' 0 ex_inst_router ?p" by (rule ex_resolver_turn [OF rv_start s(1-3)])
  have "nw_wait (-1) (rv_nw ?p) newNameWatcher None"
    using wait_token [of "-1" "rv_nw ?s"] ex_inst_router_insts(3) [of 0] s(4) by simp
  from rv_step [OF 1 rv_wait [OF _ this]] have 2: "resolver_reach ex_dump ''client'' 0 ex_inst_router (?p\<lparr>rv_nw := newNameWatcher, rv_pc := RvRead\<rparr>)" by simp
  have "(?p\<lparr>rv_nw := newNameWatcher, rv_pc := RvRead\<rparr>)\<lparr>rv_published := Some [''x''], rv_pc := RvWait\<rparr> = ex_published"
    by (simp add: ex_published_def)
  with ex_resolver_turn [OF 2] show ?thesis using s(3) by (simp add: newNameWatcher_def)
qed


text \<open>
  Closing the resolver can end the process: the watcher forgets the router before it signals the end, and
  a goroutine that takes a token instead of the end reads from the router it no longer has.
\<close>

theorem resolver_close_panics:
  "\<exists>v. resolver_reach dump svcName w sr v \<and> rv_pc v = RvPanic"
proof -
  let ?s = "resolver_start w sr"
  obtain nw sr' where c: "nw_close w (rv_nw ?s, rv_router ?s) = (nw, sr')" by fastforce
  have "\<not> nw_resolver nw" using c by (auto simp: nw_close_def split: if_splits)
  moreover have "resolver_reach dump svcName w sr (?s\<lparr>rv_nw := nw, rv_router := sr'\<rparr>)" (is "resolver_reach _ _ _ _ ?v")
    by (rule rv_step [OF rv_start rv_close [OF c]])
  moreover have "rv_pc ?v = RvRead" by (simp add: resolver_start_def sr_Watch_def)
  ultimately have "resolver_reach dump svcName w sr (?v\<lparr>rv_pc := RvPanic\<rparr>)"
    using rv_step [OF _ rv_read [of ?v dump svcName w]] by (simp add: resolver_read_def)
  then show ?thesis by fastforce
qed

end
