(* ===== verification/Adaptor.thy ===== *)
theory Adaptor
  imports GrpcResolver
begin

text \<open>
  The applications registered with the grpc adaptor (\<^verbatim>\<open>src/extension/grpc/adaptor.go\<close>) when several
  goroutines register and one releases: \<open>register\<close> looks the application up, makes the server and
  enters it in three steps with the lock released in between, and \<open>release\<close> walks over the servers
  without the lock. Which servers are stopped in the end, and which are lost.
\<close>

section \<open>The goroutines\<close>

text \<open>\<open>ArAbsent\<close>: has not found the application. \<open>ArMade\<close>: \<open>NewServer\<close> has returned.\<close>

datatype AdRegPc = ArCalled string | ArAbsent string | ArMade string nat | ArRet "AdaptorErr option"

text \<open>
  Servers are numbered as they are made. \<open>ar_loop\<close> are the servers the loop of \<open>release\<close> still has to
  visit, \<open>None\<close> outside of it; a server entered meanwhile may be visited or not, as for any map of Go.
\<close>

record AdaptorRun =
  ar_ad :: grpcAdaptor
  ar_calls :: "AdRegPc list"
  ar_made :: nat
  ar_loop :: "nat set option"
  ar_stopped :: "nat set"

definition ar_start :: AdaptorRun where
  "ar_start = \<lparr>ar_ad = \<lparr>ad_dia = [], ad_servers = []\<rparr>, ar_calls = [], ar_made = 0, ar_loop = None, ar_stopped = {}\<rparr>"

definition ar_goto :: "nat \<Rightarrow> AdRegPc \<Rightarrow> AdaptorRun \<Rightarrow> AdaptorRun" where
  "ar_goto i pc x = x\<lparr>ar_calls := (ar_calls x)[i := pc]\<rparr>"

definition ar_at :: "AdaptorRun \<Rightarrow> nat \<Rightarrow> AdRegPc \<Rightarrow> bool" where
  "ar_at x i pc \<longleftrightarrow> i < length (ar_calls x) \<and> ar_calls x ! i = pc"

inductive adaptor_step :: "AdaptorRun \<Rightarrow> AdaptorRun \<Rightarrow> bool" where
  call: "adaptor_step x (x\<lparr>ar_calls := ar_calls x @ [ArCalled appID]\<rparr>)"
| found: "ar_at x i (ArCalled appID) \<Longrightarrow> mget (ad_servers (ar_ad x)) appID \<noteq> None \<Longrightarrow>
    adaptor_step x (ar_goto i (ArRet (Some ErrAppReRegister)) x)"
| absent: "ar_at x i (ArCalled appID) \<Longrightarrow> mget (ad_servers (ar_ad x)) appID = None \<Longrightarrow>
    adaptor_step x (ar_goto i (ArAbsent appID) x)"
| failed: "ar_at x i (ArAbsent appID) \<Longrightarrow> adaptor_step x (ar_goto i (ArRet (Some (AdServer e))) x)"
| made: "ar_at x i (ArAbsent appID) \<Longrightarrow>
    adaptor_step x (ar_goto i (ArMade appID (ar_made x)) (x\<lparr>ar_made := Suc (ar_made x)\<rparr>))"
| enter: "ar_at x i (ArMade appID s) \<Longrightarrow>
    adaptor_step x (ar_goto i (ArRet None) (x\<lparr>ar_ad := (ar_ad x)\<lparr>ad_servers := mput appID s (ad_servers (ar_ad x))\<rparr>\<rparr>))"
| release: "ar_loop x = None \<Longrightarrow> adaptor_step x (x\<lparr>ar_loop := Some (set (mvals (ad_servers (ar_ad x))))\<rparr>)"
| stop: "ar_loop x = Some rest \<Longrightarrow> s \<in> set (mvals (ad_servers (ar_ad x))) \<Longrightarrow> s \<notin> ar_stopped x \<Longrightarrow>
    adaptor_step x (x\<lparr>ar_stopped := insert s (ar_stopped x), ar_loop := Some (rest - {s})\<rparr>)"
| forget: "ar_loop x = Some {} \<Longrightarrow>
    adaptor_step x (x\<lparr>ar_ad := (ar_ad x)\<lparr>ad_dia := [], ad_servers := []\<rparr>, ar_loop := None\<rparr>)"

section \<open>Registrations one at a time\<close>

text \<open>The application a call is about to enter.\<close>

fun ar_pending :: "AdRegPc \<Rightarrow> string option" where
  "ar_pending (ArAbsent appID) = Some appID"
| "ar_pending (ArMade appID s) = Some appID"
| "ar_pending _ = None"

text \<open>
  What the callers have to see to: an application is not registered by two goroutines at once, nor any
  during the release.
\<close>

definition ar_serial :: "AdaptorRun \<Rightarrow> bool" where
  "ar_serial x \<longleftrightarrow>
     (\<forall>i j appID. i < length (ar_calls x) \<longrightarrow> j < length (ar_calls x) \<longrightarrow>
        ar_pending (ar_calls x ! i) = Some appID \<longrightarrow> ar_pending (ar_calls x ! j) = Some appID \<longrightarrow> i = j) \<and>
     (ar_loop x \<noteq> None \<longrightarrow> (\<forall>pc \<in> set (ar_calls x). ar_pending pc = None))"

inductive adaptor_reach :: "(AdaptorRun \<Rightarrow> bool) \<Rightarrow> AdaptorRun \<Rightarrow> bool" for P where
  ar_init: "adaptor_reach P ar_start"
| ar_step: "adaptor_reach P x \<Longrightarrow> adaptor_step x y \<Longrightarrow> P y \<Longrightarrow> adaptor_reach P y"

definition adaptor_inv :: "AdaptorRun \<Rightarrow> bool" where
  "adaptor_inv x \<longleftrightarrow> ar_serial x \<and> mwf (ad_servers (ar_ad x)) \<and>
     (\<forall>s < ar_made x. s \<in> ar_stopped x \<or> s \<in> set (mvals (ad_servers (ar_ad x))) \<or> (\<exists>appID. ArMade appID s \<in> set (ar_calls x))) \<and>
     (\<forall>pc \<in> set (ar_calls x). \<forall>appID. ar_pending pc = Some appID \<longrightarrow> mget (ad_servers (ar_ad x)) appID = None) \<and>
     (\<forall>rest. ar_loop x = Some rest \<longrightarrow> set (mvals (ad_servers (ar_ad x))) \<subseteq> ar_stopped x \<union> rest)"

lemma ar_goto_simps [simp]:
  "ar_calls (ar_goto i pc x) = (ar_calls x)[i := pc]" "ar_ad (ar_goto i pc x) = ar_ad x" "ar_made (ar_goto i pc x) = ar_made x"
  "ar_loop (ar_goto i pc x) = ar_loop x" "ar_stopped (ar_goto i pc x) = ar_stopped x"
  by (simp_all add: ar_goto_def)

lemma calls_kept: "ar_at x i pc \<Longrightarrow> c \<in> set (ar_calls x) \<Longrightarrow> c \<noteq> pc \<Longrightarrow> c \<in> set ((ar_calls x)[i := pc'])"
  by (auto simp: ar_at_def in_set_conv_nth) (metis length_list_update nth_list_update_neq)

lemma call_moved: "ar_at x i pc \<Longrightarrow> pc' \<in> set ((ar_calls x)[i := pc'])"
  by (simp add: ar_at_def set_update_memI)

lemma call_updated: "c \<in> set ((ar_calls x)[i := pc']) \<Longrightarrow> c = pc' \<or> c \<in> set (ar_calls x)"
  using set_update_subset_insert by fastforce

lemma serial_alone:
  assumes "ar_serial x" "ar_at x i pc" "ar_pending pc = Some appID" "c \<in> set ((ar_calls x)[i := ArRet e])"
  shows "ar_pending c \<noteq> Some appID"
proof
  assume p: "ar_pending c = Some appID"
  obtain j where j: "j < length (ar_calls x)" "(ar_calls x)[i := ArRet e] ! j = c"
    using assms(4) by (auto simp: in_set_conv_nth)
  then have "j \<noteq> i" using p by auto
  then show False using assms(1-3) j p unfolding ar_serial_def ar_at_def by (metis nth_list_update_neq)
qed

lemma serial_loop: "ar_serial x \<Longrightarrow> ar_at x i pc \<Longrightarrow> ar_pending pc = Some appID \<Longrightarrow> ar_loop x = None"
  unfolding ar_serial_def ar_at_def by (metis nth_mem option.distinct(1))

lemma pending_absent: "adaptor_inv x \<Longrightarrow> ar_at x i pc \<Longrightarrow> ar_pending pc = Some appID \<Longrightarrow> mget (ad_servers (ar_ad x)) appID = None"
  unfolding adaptor_inv_def ar_at_def by (metis nth_mem)

lemma goto_inv:
  assumes "adaptor_inv x" "ar_at x i pc" "\<And>a s. pc \<noteq> ArMade a s" "ar_serial (ar_goto i pc' x)"
    and "\<And>a. ar_pending pc' = Some a \<Longrightarrow> mget (ad_servers (ar_ad x)) a = None"
  shows "adaptor_inv (ar_goto i pc' x)"
proof -
  have "ArMade a u \<in> set ((ar_calls x)[i := pc'])" if "ArMade a u \<in> set (ar_calls x)" for a u
    using calls_kept [OF assms(2) that] assms(3) by metis
  then have "\<forall>u < ar_made x. u \<in> ar_stopped x \<or> u \<in> set (mvals (ad_servers (ar_ad x))) \<or> (\<exists>a. ArMade a u \<in> set ((ar_calls x)[i := pc']))"
    using assms(1) unfolding adaptor_inv_def by blast
  then show ?thesis using assms(1,4,5) by (auto simp: adaptor_inv_def dest!: call_updated)
qed

lemma adaptor_step_inv:
  assumes "adaptor_step x y" "adaptor_inv x" "ar_serial y"
  shows "adaptor_inv y"
  using assms
proof cases
  case (enter i appID s)
  have p: "ar_pending (ArMade appID s) = Some appID" by simp
  have ser: "ar_serial x" and wf: "mwf (ad_servers (ar_ad x))" using assms(2) by (simp_all add: adaptor_inv_def)
  note no = pending_absent [OF assms(2) enter(2) p]
  have vals: "set (mvals (mput appID s (ad_servers (ar_ad x)))) = insert s (set (mvals (ad_servers (ar_ad x))))"
    using no by (rule mvals_mput_new)
  have "\<forall>c \<in> set (ar_calls y). \<forall>a. ar_pending c = Some a \<longrightarrow> mget (ad_servers (ar_ad y)) a = None"
    using assms(2) serial_alone [OF ser enter(2) p] enter(1) by (auto simp: adaptor_inv_def dest: call_updated)
  moreover have "u \<in> ar_stopped y \<or> u \<in> set (mvals (ad_servers (ar_ad y))) \<or> (\<exists>a. ArMade a u \<in> set (ar_calls y))" if "u < ar_made y" for u
    using assms(2) that calls_kept [OF enter(2)] enter(1) vals by (auto simp: adaptor_inv_def) (metis AdRegPc.inject(3))
  ultimately show ?thesis
    using assms(3) wf serial_loop [OF ser enter(2) p] enter(1) by (simp add: adaptor_inv_def)
next
  case (made i appID)
  have "u \<in> ar_stopped y \<or> u \<in> set (mvals (ad_servers (ar_ad y))) \<or> (\<exists>a. ArMade a u \<in> set (ar_calls y))" if "u < ar_made y" for u
    using assms(2) that calls_kept [OF made(2)] call_moved [OF made(2)] made(1)
    by (cases "u = ar_made x") (auto simp: adaptor_inv_def less_Suc_eq, blast+)
  moreover have "mget (ad_servers (ar_ad x)) appID = None" using pending_absent [OF assms(2) made(2)] by simp
  ultimately show ?thesis using assms(2,3) made(1) by (auto simp: adaptor_inv_def dest!: call_updated)
next
  case (found i appID)
  show ?thesis unfolding found(1) by (rule goto_inv [OF assms(2) found(2)]) (use assms(3) found(1) in simp_all)
next
  case (absent i appID)
  show ?thesis unfolding absent(1) by (rule goto_inv [OF assms(2) absent(2)]) (use assms(3) absent(1,3) in simp_all)
next
  case (failed i appID e)
  show ?thesis unfolding failed(1) by (rule goto_inv [OF assms(2) failed(2)]) (use assms(3) failed(1) in simp_all)
qed (fastforce simp: adaptor_inv_def)+

lemma adaptor_reach_inv: "adaptor_reach ar_serial x \<Longrightarrow> adaptor_inv x"
proof (induction rule: adaptor_reach.induct)
  case ar_init
  show ?case by (simp add: adaptor_inv_def ar_serial_def ar_start_def)
next
  case (ar_step x y)
  show ?case by (rule adaptor_step_inv [OF ar_step(2,4,3)])
qed

text \<open>When the release ends, every server that was made so far has been stopped.\<close>

theorem release_stops_all:
  assumes "adaptor_reach ar_serial x" "ar_loop x = Some {}" "s < ar_made x"
  shows "s \<in> ar_stopped x"
proof -
  have "ar_serial x" using adaptor_reach_inv [OF assms(1)] by (simp add: adaptor_inv_def)
  then have "ArMade appID s \<notin> set (ar_calls x)" for appID using assms(2) by (force simp: ar_serial_def)
  then show ?thesis using adaptor_reach_inv [OF assms(1)] assms(2,3) by (auto simp: adaptor_inv_def)
qed

section \<open>Two registrations at once\<close>

text \<open>
  Two goroutines that register the same application both succeed: both find it absent, and the second
  replaces the entry of the first. The release stops the second server only; the first keeps running, with
  its connection to the name server, and no call of the package reaches it.
\<close>

theorem register_loses_server:
  "\<exists>x. adaptor_reach (\<lambda>_. True) x \<and> ar_calls x = [ArRet None, ArRet None] \<and> ar_loop x = None \<and> ad_servers (ar_ad x) = [] \<and>
     ar_made x = 2 \<and> ar_stopped x = {1}"
proof -
  let ?R = "adaptor_reach (\<lambda>_. True)" and ?a = "''app''"
  let ?ad = "\<lambda>m. \<lparr>ad_dia = [], ad_servers = m\<rparr>"
  let ?x = "\<lambda>m cs n l st. \<lparr>ar_ad = ?ad m, ar_calls = cs, ar_made = n, ar_loop = l, ar_stopped = st\<rparr>"
  note step = ar_step [OF _ _ TrueI]
  have "?R (?x [] [ArCalled ?a] 0 None {})" using step [OF ar_init call [of ar_start ?a]] by (simp add: ar_start_def)
  from step [OF this call [of _ ?a]] have "?R (?x [] [ArCalled ?a, ArCalled ?a] 0 None {})" by simp
  from step [OF this absent [of _ 0 ?a]] have "?R (?x [] [ArAbsent ?a, ArCalled ?a] 0 None {})" by (simp add: ar_at_def ar_goto_def)
  from step [OF this absent [of _ 1 ?a]] have "?R (?x [] [ArAbsent ?a, ArAbsent ?a] 0 None {})" by (simp add: ar_at_def ar_goto_def)
  from step [OF this made [of _ 0 ?a]] have "?R (?x [] [ArMade ?a 0, ArAbsent ?a] 1 None {})" by (simp add: ar_at_def ar_goto_def)
  from step [OF this made [of _ 1 ?a]] have "?R (?x [] [ArMade ?a 0, ArMade ?a 1] 2 None {})"
    by (simp add: ar_at_def ar_goto_def numeral_2_eq_2)
  from step [OF this enter [of _ 0 ?a 0]] have "?R (?x [(?a, 0)] [ArRet None, ArMade ?a 1] 2 None {})" by (simp add: ar_at_def ar_goto_def)
  from step [OF this enter [of _ 1 ?a 1]] have "?R (?x [(?a, 1)] [ArRet None, ArRet None] 2 None {})" by (simp add: ar_at_def ar_goto_def)
  from step [OF this adaptor_step.release] have "?R (?x [(?a, 1)] [ArRet None, ArRet None] 2 (Some {1}) {})" by simp
  from step [OF this adaptor_step.stop [of _ "{1}" 1]] have "?R (?x [(?a, 1)] [ArRet None, ArRet None] 2 (Some {}) {1})" by simp
  from step [OF this adaptor_step.forget] have "?R (?x [] [ArRet None, ArRet None] 2 None {1})" by simp
  then show ?thesis by (intro exI [of _ "?x [] [ArRet None, ArRet None] 2 None {1}"]) simp
qed

end
