(* ===== verification/Listener.thy ===== *)
theory Listener
  imports Conn
begin

text \<open>
  \<^verbatim>\<open>src/common/network/listener.go\<close>: accepting connections and stopping gracefully. The
  goroutines are the accept loop of \<open>Serve\<close>, a handler per accepted connection, the service
  of each connection and \<open>GracefulStop\<close>; they interleave at every lock. \<open>serveWG\<close> counts
  the accept loop and the handlers; \<open>l_conns\<close> is \<open>None\<close> once the map is nil.
\<close>

text \<open>
  \<open>SvNone\<close>: not called. \<open>SvAccept\<close>: in the loop. \<open>SvClose\<close>: left the loop, the deferred
  close to come. \<open>SvDone\<close>: \<open>serveWG.Done\<close> called, waiting for the end of a stop that has begun.
  \<open>SvRet\<close>: returned.
\<close>

datatype ServePc = SvNone | SvAccept | SvClose | SvDone | SvRet

text \<open>
  \<open>StNone\<close>: not called. \<open>StLock\<close>: \<open>quit\<close> fired, before the lock. \<open>StWait\<close>: the listener
  is closed, waiting for \<open>serveWG\<close>. \<open>StDrain\<close>: all connections closed, waiting for them to
  leave. \<open>StRet b\<close>: returned, \<open>b\<close> whether it went through the whole procedure.
\<close>

datatype StopPc = StNone | StLock | StWait | StDrain | StRet bool

text \<open>A handler: before the test of \<open>quit\<close>, or with its connection initialised.\<close>

datatype HandlerPc = HStart | HAdd nat

record Listener =
  l_lis :: bool
  l_conns :: "nat set option"
  l_quit :: Event
  l_done :: Event
  l_serve :: ServePc
  l_stop :: StopPc
  l_handlers :: "HandlerPc list"
  l_served :: "nat set"
  l_closed :: "nat set"
  l_fresh :: nat

definition NewListener :: Listener where
  "NewListener =
     \<lparr>l_lis = False, l_conns = Some {}, l_quit = NewEvent ''gonet.Listener.quit'',
      l_done = NewEvent ''gonet.Listener.done'', l_serve = SvNone, l_stop = StNone, l_handlers = [],
      l_served = {}, l_closed = {}, l_fresh = 0\<rparr>"

definition serveWG :: "Listener \<Rightarrow> nat" where
  "serveWG l = (if l_serve l = SvAccept \<or> l_serve l = SvClose then 1 else 0) + length (l_handlers l)"

definition addConn :: "Listener \<Rightarrow> nat \<Rightarrow> Listener \<times> bool" where
  "addConn l c =
     (case l_conns l of
        None \<Rightarrow> (l\<lparr>l_closed := insert c (l_closed l)\<rparr>, False)
      | Some cs \<Rightarrow> (l\<lparr>l_conns := Some (insert c cs)\<rparr>, True))"

definition removeConn :: "Listener \<Rightarrow> nat \<Rightarrow> Listener" where
  "removeConn l c = (case l_conns l of None \<Rightarrow> l | Some cs \<Rightarrow> l\<lparr>l_conns := Some (cs - {c})\<rparr>)"

text \<open>The two parts of \<open>handleRawConn\<close>; \<open>initErr\<close> is the error of the receiver's \<open>OnConnected\<close>.\<close>

definition remove_handler :: "nat \<Rightarrow> Listener \<Rightarrow> Listener" where
  "remove_handler i l = l\<lparr>l_handlers := take i (l_handlers l) @ drop (Suc i) (l_handlers l)\<rparr>"

definition handle_start :: "nat \<Rightarrow> bool \<Rightarrow> Listener \<Rightarrow> Listener" where
  "handle_start i initErr l =
     (if Event_HasFired (l_quit l) then remove_handler i l
      else
        let c = l_fresh l; l = l\<lparr>l_fresh := Suc c\<rparr> in
        if initErr then remove_handler i l
        else l\<lparr>l_handlers := (l_handlers l)[i := HAdd c]\<rparr>)"

definition handle_add :: "nat \<Rightarrow> nat \<Rightarrow> Listener \<Rightarrow> Listener" where
  "handle_add i c l =
     (let (l, ok) = addConn l c; l = remove_handler i l in
      if ok then l\<lparr>l_served := insert c (l_served l)\<rparr> else l)"

text \<open>\<open>Serve\<close> up to the loop; \<open>listenErr\<close> is the error of \<^verbatim>\<open>net.Listen\<close>.\<close>

definition Serve_start :: "bool \<Rightarrow> Listener \<Rightarrow> Listener" where
  "Serve_start listenErr l =
     (if Event_HasFired (l_quit l) \<or> l_lis l \<or> listenErr then l
      else l\<lparr>l_lis := True, l_serve := SvAccept\<rparr>)"

inductive lis_step :: "Listener \<Rightarrow> Listener \<Rightarrow> bool" where
  serve: "l_serve l = SvNone \<Longrightarrow> lis_step l (Serve_start err l)"
| accept: "l_serve l = SvAccept \<Longrightarrow> l_lis l \<Longrightarrow> lis_step l (l\<lparr>l_handlers := l_handlers l @ [HStart]\<rparr>)"
| accept_err: "l_serve l = SvAccept \<Longrightarrow> lis_step l (l\<lparr>l_serve := SvClose\<rparr>)"
| deferred: "l_serve l = SvClose \<Longrightarrow> lis_step l (l\<lparr>l_lis := False, l_serve := SvDone\<rparr>)"
| serve_ret: "l_serve l = SvDone \<Longrightarrow> (Event_HasFired (l_quit l) \<longrightarrow> Event_Done (l_done l)) \<Longrightarrow>
    lis_step l (l\<lparr>l_serve := SvRet\<rparr>)"
| hstart: "i < length (l_handlers l) \<Longrightarrow> l_handlers l ! i = HStart \<Longrightarrow> lis_step l (handle_start i err l)"
| hadd: "i < length (l_handlers l) \<Longrightarrow> l_handlers l ! i = HAdd c \<Longrightarrow> lis_step l (handle_add i c l)"
| finished: "c \<in> l_served l \<Longrightarrow> lis_step l (removeConn (l\<lparr>l_served := l_served l - {c}, l_closed := insert c (l_closed l)\<rparr>) c)"
| stop: "Event_Fire (l_quit l) = Some (q, first) \<Longrightarrow>
    lis_step l (l\<lparr>l_quit := q, l_stop := (if first then StLock else l_stop l)\<rparr>)"
| stop_nolis: "l_stop l = StLock \<Longrightarrow> \<not> l_lis l \<Longrightarrow> Event_Fire (l_done l) = Some (d, first) \<Longrightarrow>
    lis_step l (l\<lparr>l_done := d, l_stop := StRet False\<rparr>)"
| stop_close: "l_stop l = StLock \<Longrightarrow> l_lis l \<Longrightarrow> lis_step l (l\<lparr>l_lis := False, l_stop := StWait\<rparr>)"
| stop_waited: "l_stop l = StWait \<Longrightarrow> serveWG l = 0 \<Longrightarrow> l_conns l = Some cs \<Longrightarrow>
    lis_step l (l\<lparr>l_closed := l_closed l \<union> cs, l_stop := StDrain\<rparr>)"
| stop_drained: "l_stop l = StDrain \<Longrightarrow> l_conns l = Some {} \<Longrightarrow> Event_Fire (l_done l) = Some (d, first) \<Longrightarrow>
    lis_step l (l\<lparr>l_conns := None, l_done := d, l_stop := StRet True\<rparr>)"

inductive lis_reach :: "Listener \<Rightarrow> bool" where
  lis_init: "lis_reach NewListener"
| lis_more: "lis_reach l \<Longrightarrow> lis_step l m \<Longrightarrow> lis_reach m"

section \<open>Invariant\<close>

definition stopping :: "StopPc \<Rightarrow> bool" where
  "stopping pc = (pc \<in> {StLock, StWait, StDrain})"

definition lis_inv :: "Listener \<Rightarrow> bool" where
  "lis_inv l \<longleftrightarrow> event_ok (l_quit l) \<and> event_ok (l_done l) \<and>
     (l_stop l \<noteq> StNone \<longleftrightarrow> Event_HasFired (l_quit l)) \<and>
     (l_conns l = None \<longleftrightarrow> l_stop l = StRet True) \<and>
     (\<forall>cs. l_conns l = Some cs \<longrightarrow> l_served l = cs) \<and>
     (l_stop l = StRet True \<longrightarrow> l_served l = {}) \<and>
     (l_stop l \<in> {StWait, StDrain, StRet True} \<longrightarrow> \<not> l_lis l) \<and>
     (l_stop l \<in> {StDrain, StRet True} \<longrightarrow> serveWG l = 0 \<and> l_serve l \<noteq> SvNone \<and> l_served l \<subseteq> l_closed l) \<and>
     (l_stop l = StWait \<longrightarrow> l_serve l \<noteq> SvNone) \<and>
     (l_lis l \<longrightarrow> l_serve l \<in> {SvAccept, SvClose})"

lemma lis_inv_init: "lis_inv NewListener"
  by (simp add: lis_inv_def NewListener_def)

lemma length_remove_handler: "i < length (l_handlers l) \<Longrightarrow> length (l_handlers (remove_handler i l)) = length (l_handlers l) - 1"
  by (simp add: remove_handler_def)

lemma remove_handler_fields [simp]:
  "l_lis (remove_handler i l) = l_lis l" "l_conns (remove_handler i l) = l_conns l"
  "l_quit (remove_handler i l) = l_quit l" "l_done (remove_handler i l) = l_done l"
  "l_serve (remove_handler i l) = l_serve l" "l_stop (remove_handler i l) = l_stop l"
  "l_served (remove_handler i l) = l_served l" "l_closed (remove_handler i l) = l_closed l"
  by (simp_all add: remove_handler_def)

lemma lis_inv_stop:
  assumes inv: "lis_inv l" and f: "Event_Fire (l_quit l) = Some (q, first)"
  shows "lis_inv (l\<lparr>l_quit := q, l_stop := (if first then StLock else l_stop l)\<rparr>)"
proof -
  have "event_ok (l_quit l)" using inv by (simp add: lis_inv_def)
  from Event_Fire_ok [OF this] f have q: "event_ok q" "Event_HasFired q" "first = (\<not> Event_HasFired (l_quit l))" by auto
  show ?thesis
  proof (cases first)
    case True
    then have "l_stop l = StNone" using inv q(3) by (auto simp: lis_inv_def)
    then show ?thesis using inv q True by (auto simp: lis_inv_def serveWG_def)
  next
    case False
    then have "l_stop l \<noteq> StNone" using inv q(3) by (simp add: lis_inv_def)
    then show ?thesis using inv q(1,2) False by (simp add: lis_inv_def serveWG_def)
  qed
qed

lemma lis_inv_fire_done:
  assumes "lis_inv l" "Event_Fire (l_done l) = Some (d, first)"
  shows "event_ok d"
  using assms Event_Fire_ok [of "l_done l"] by (auto simp: lis_inv_def)

lemma handlers_zero: "i < length (l_handlers l) \<Longrightarrow> serveWG l \<noteq> 0"
  by (auto simp: serveWG_def)

lemma lis_step_inv: "lis_step l m \<Longrightarrow> lis_inv l \<Longrightarrow> lis_inv m"
proof (induction rule: lis_step.induct)
  case (stop l q first)
  then show ?case by (simp add: lis_inv_stop)
next
  case (hstart i l err)
  then have "l_stop l \<notin> {StDrain, StRet True}" using handlers_zero by (auto simp: lis_inv_def)
  with hstart.prems show ?case by (auto simp: lis_inv_def handle_start_def Let_def)
next
  case (hadd i l c)
  then have "l_stop l \<notin> {StDrain, StRet True}" using handlers_zero by (auto simp: lis_inv_def)
  with hadd.prems show ?case by (auto simp: lis_inv_def handle_add_def addConn_def Let_def split: option.splits)
next
  case (stop_nolis l d first)
  then have "event_ok d" by (auto intro: lis_inv_fire_done)
  with stop_nolis show ?case by (auto simp: lis_inv_def)
next
  case (stop_drained l d first)
  then have "event_ok d" by (auto intro: lis_inv_fire_done)
  with stop_drained show ?case by (auto simp: lis_inv_def serveWG_def)
next
  case (finished c l)
  then obtain cs where cs: "l_conns l = Some cs" "l_served l = cs" "l_stop l \<noteq> StRet True"
    by (cases "l_conns l") (auto simp: lis_inv_def)
  have "l_stop l = StDrain \<longrightarrow> cs - {c} \<subseteq> insert c (l_closed l)" using finished.prems cs by (auto simp: lis_inv_def)
  with finished.prems cs show ?case by (simp add: lis_inv_def removeConn_def serveWG_def)
next
  case (stop_waited l cs)
  then show ?case by (auto simp: lis_inv_def serveWG_def)
next
  case (accept l)
  then have "l_stop l \<notin> {StWait, StDrain, StRet True}" by (auto simp: lis_inv_def)
  with accept show ?case by (auto simp: lis_inv_def)
qed (auto simp: lis_inv_def serveWG_def Serve_start_def)

lemma lis_reach_inv: "lis_reach l \<Longrightarrow> lis_inv l"
  by (induction rule: lis_reach.induct) (auto intro: lis_inv_init lis_step_inv)

section \<open>Properties\<close>


definition stopped_listener :: Listener where
  "stopped_listener = NewListener\<lparr>l_conns := None, l_serve := SvDone, l_stop := StRet True,
     l_quit := \<lparr>ev_fired = True, ev_tag = ''gonet.Listener.quit'', ev_notifyFired = True, ev_fireOnce = True\<rparr>,
     l_done := \<lparr>ev_fired = True, ev_tag = ''gonet.Listener.done'', ev_notifyFired = True, ev_fireOnce = True\<rparr>\<rparr>"

lemma stopped_listener_reach: "lis_reach stopped_listener"
proof -
  let ?q = "\<lparr>ev_fired = True, ev_tag = ''gonet.Listener.quit'', ev_notifyFired = True, ev_fireOnce = True\<rparr>"
  let ?d = "\<lparr>ev_fired = True, ev_tag = ''gonet.Listener.done'', ev_notifyFired = True, ev_fireOnce = True\<rparr>"
  let ?l1 = "NewListener\<lparr>l_lis := True, l_serve := SvAccept\<rparr>"
  let ?l2 = "?l1\<lparr>l_quit := ?q, l_stop := StLock\<rparr>"
  let ?l3 = "?l2\<lparr>l_lis := False, l_stop := StWait\<rparr>"
  let ?l4 = "?l3\<lparr>l_serve := SvClose\<rparr>"
  let ?l5 = "?l3\<lparr>l_serve := SvDone\<rparr>"
  let ?l6 = "?l5\<lparr>l_stop := StDrain\<rparr>"
  have s1: "lis_step NewListener ?l1"
    using lis_step.serve [of NewListener False] by (simp add: Serve_start_def NewListener_def)
  have s2: "lis_step ?l1 ?l2"
    using lis_step.stop [of ?l1 ?q True] by (simp add: NewListener_def NewEvent_def Event_Fire_def Let_def)
  have s3: "lis_step ?l2 ?l3" using lis_step.stop_close [of ?l2] by (simp add: NewListener_def)
  have s4: "lis_step ?l3 ?l4" using lis_step.accept_err [of ?l3] by (simp add: NewListener_def)
  have s5: "lis_step ?l4 ?l5" using lis_step.deferred [of ?l4] by (simp add: NewListener_def)
  have s6: "lis_step ?l5 ?l6" using lis_step.stop_waited [of ?l5 "{}"] by (simp add: NewListener_def serveWG_def)
  have s7: "lis_step ?l6 stopped_listener"
    using lis_step.stop_drained [of ?l6 ?d True]
    by (simp add: stopped_listener_def NewListener_def NewEvent_def Event_Fire_def Let_def)
  show ?thesis
    by (rule lis_reach.lis_more [OF lis_reach.lis_more [OF lis_reach.lis_more [OF lis_reach.lis_more
      [OF lis_reach.lis_more [OF lis_reach.lis_more [OF lis_reach.lis_more [OF lis_reach.lis_init s1] s2] s3] s4] s5] s6] s7])
qed


end
