(* ===== verification/Bootstrap.thy ===== *)
theory Bootstrap
  imports AgentPath NsLife
begin

text \<open>
  The main programs: what a process does from its command line to its end. \<open>WaitSignalToStop\<close> of
  \<^verbatim>\<open>src/agent/api.go\<close>, \<^verbatim>\<open>src/nameserver/bootstrap/main.go\<close>, and what the main programs of
  \<^verbatim>\<open>src/examples\<close> share: a server, a registration that blocks, and an end. What the other goroutines do
  while the main one blocks is an argument, as are the file system, the network and the signals that
  arrive. The theory \<open>Apps\<close> has the applications themselves.
\<close>

section \<open>Signals\<close>

datatype Signal = SIGINT | SIGTERM | SIGQUIT | OtherSignal nat

text \<open>
  Where a main program has got to: it returned because there was no server or no service, it is in the
  loop over its ticker, it waits for a signal, or it stopped the server and returned.
\<close>

datatype 'x MainEnd = MainNoServer InitErr | MainNoService RegErr 'x | MainTicks 'x | MainWaits 'x | MainQuit 'x

text \<open>
  \<open>signal.Notify\<close> relays the signals named, all of them when none is. \<open>incoming\<close> are the signals the
  process gets, \<open>stop\<close> is \<open>GracefulStop\<close>.
\<close>

definition relayed :: "Signal list \<Rightarrow> Signal \<Rightarrow> bool" where
  "relayed sigs sig \<longleftrightarrow> sigs = [] \<or> sig \<in> set sigs"

definition WaitSignalToStop :: "Signal list \<Rightarrow> Signal list \<Rightarrow> ('x \<Rightarrow> 'x option) \<Rightarrow> 'x \<Rightarrow> 'x MainEnd option" where
  "WaitSignalToStop sigs incoming stop x =
     (case filter (relayed sigs) incoming of
        [] \<Rightarrow> Some (MainWaits x)
      | sig # _ \<Rightarrow> map_option MainQuit (stop x))"

definition main_signals :: "Signal list" where
  "main_signals = [SIGINT, SIGTERM, SIGQUIT]"

section \<open>A process with an agent\<close>

text \<open>The environment of a process: files, codecs, network, handles, and the fillers of the memories.\<close>

record Process =
  pr_readFile :: readfile
  pr_jcfg :: jsoncfg
  pr_mar :: marshal
  pr_jmar :: "ServiceAttr \<Rightarrow> bytes option"
  pr_env :: NetEnv
  pr_mk :: "string \<Rightarrow> string \<Rightarrow> u64 \<Rightarrow> u64 option"
  pr_startErr :: "string option"
  pr_window :: "skymeshServer \<Rightarrow> ServeWindow"
  pr_cfg0 :: AgentConfig
  pr_ss0 :: skymeshService
  pr_rs0 :: remoteService

definition process_NewServer :: "Process \<Rightarrow> string \<Rightarrow> string \<Rightarrow> (InitErr + skymeshServer) option" where
  "process_NewServer P conf appID =
     NewServer (pr_readFile P) (pr_jcfg P) (pr_mar P) (pr_env P) (pr_startErr P) (pr_window P) (pr_cfg0 P) (pr_ss0 P)
       (pr_rs0 P) conf appID"

text \<open>
  \<open>Register\<close> as its caller sees it: \<open>meanwhile\<close> is what the other goroutines do to the application
  object and the agent until the result arrives, \<open>Some\<close> code, or the three seconds are over, \<open>None\<close>.
\<close>

type_synonym 'a app = "'a \<times> skymeshServer"

definition process_Register ::
  "Process \<Rightarrow> (nat \<Rightarrow> 'a app \<Rightarrow> ('a app \<times> int option) option) \<Rightarrow> string \<Rightarrow> 'a app \<Rightarrow> ('a app \<times> (RegErr + nat)) option" where
  "process_Register P meanwhile url w = do {
     (s, res) \<leftarrow> srv_Register (pr_mar P) (pr_env P) (pr_mk P) (snd w) url [];
     case res of
       Inl e \<Rightarrow> Some ((fst w, s), Inl e)
     | Inr r \<Rightarrow> do {
         (w, result) \<leftarrow> meanwhile r (fst w, s);
         (s, res) \<leftarrow> srv_RegisterWait (pr_mar P) (pr_env P) (snd w) url r result;
         Some ((fst w, s), res) } }"

text \<open>
  The beginning all the main programs share; \<open>go\<close> is the rest of the program, given the service.
\<close>

definition main_start ::
  "Process \<Rightarrow> (nat \<Rightarrow> 'a app \<Rightarrow> ('a app \<times> int option) option) \<Rightarrow> string \<Rightarrow> string \<Rightarrow> string \<Rightarrow> 'a \<Rightarrow>
     (nat \<Rightarrow> 'a app \<Rightarrow> 'a app MainEnd option) \<Rightarrow> 'a app MainEnd option" where
  "main_start P meanwhile conf appID svcUrl obj go = do {
     r \<leftarrow> process_NewServer P conf appID;
     case r of
       Inl e \<Rightarrow> Some (MainNoServer e)
     | Inr s \<Rightarrow> do {
         (w, res) \<leftarrow> process_Register P meanwhile svcUrl (obj, s);
         case res of
           Inl e \<Rightarrow> Some (MainNoService e w)
         | Inr q \<Rightarrow> go q w } }"

section \<open>The name server\<close>

datatype NsMainEnd = NsInitFailed NsInitErr | NsServed "string option" NsServer

text \<open>
  \<^verbatim>\<open>nameserver/bootstrap/main.go\<close>: \<open>serve\<close> is \<open>Serve\<close> with the goroutine that waits for a signal; it
  returns the error of the listener, if any.
\<close>

definition nameserver_main ::
  "(string \<Rightarrow> string + bytes) \<Rightarrow> (bytes \<Rightarrow> string + NsConfigJson) \<Rightarrow> ServiceInfo \<Rightarrow> (NsServer \<Rightarrow> (string option \<times> NsServer) option) \<Rightarrow>
     string \<Rightarrow> NsMainEnd option" where
  "nameserver_main readFile jcfg si0 serve conf = do {
     r \<leftarrow> Server_Init_all readFile jcfg si0 conf;
     case r of
       Inl e \<Rightarrow> Some (NsInitFailed e)
     | Inr s \<Rightarrow> do { (err, s) \<leftarrow> serve s; Some (NsServed err s) } }"

section \<open>Applications\<close>

text \<open>
  What an application object sees: the calls the agent makes on it, and the steps of everything else
  on the agent in between. A method is a function on the object and the agent; \<open>None\<close> is a panic.
\<close>

datatype AppTurn = TCall AppCall | TOther "skymeshServer \<Rightarrow> skymeshServer"

fun app_turns :: "(AppCall \<Rightarrow> 'a app \<Rightarrow> 'a app option) \<Rightarrow> AppTurn list \<Rightarrow> 'a app \<Rightarrow> 'a app option" where
  "app_turns call [] w = Some w"
| "app_turns call (TCall c # ts) w = do { w \<leftarrow> call c w; app_turns call ts w }"
| "app_turns call (TOther f # ts) w = app_turns call ts (fst w, f (snd w))"

text \<open>
  The contract of the applications of the repository: the method \<open>OnRegister\<close> gives the object its
  transport, and with it every later call returns and keeps it. \<open>quiet\<close> is what the rest of the agent
  must leave alone.
\<close>

locale app_service =
  fixes call :: "AppCall \<Rightarrow> 'a app \<Rightarrow> 'a app option"
    and able :: "'a app \<Rightarrow> bool"
    and quiet :: "(skymeshServer \<Rightarrow> skymeshServer) \<Rightarrow> bool"
    and fit :: "'a app \<Rightarrow> bool"
  assumes registered: "fit w \<Longrightarrow> \<exists>w'. call (AppOnRegister h res) w = Some w' \<and> able w'"
    and serves: "able w \<Longrightarrow> \<exists>w'. call c w = Some w' \<and> able w'"
    and undisturbed: "able w \<Longrightarrow> quiet f \<Longrightarrow> able (fst w, f (snd w))"
begin

definition quiet_turns :: "AppTurn list \<Rightarrow> bool" where
  "quiet_turns ts \<longleftrightarrow> (\<forall>f. TOther f \<in> set ts \<longrightarrow> quiet f)"

lemma turns_able: "able w \<Longrightarrow> quiet_turns ts \<Longrightarrow> \<exists>w'. app_turns call ts w = Some w' \<and> able w'"
proof (induction ts arbitrary: w)
  case (Cons t ts)
  have q: "quiet_turns ts" using Cons.prems(2) by (auto simp: quiet_turns_def)
  show ?case
  proof (cases t)
    case (TCall c)
    obtain w' where w': "call c w = Some w'" "able w'" using serves [OF Cons.prems(1)] by blast
    then show ?thesis using Cons.IH [OF w'(2) q] TCall by simp
  next
    case (TOther f)
    have "able (fst w, f (snd w))" using undisturbed [OF Cons.prems(1)] Cons.prems(2) TOther by (simp add: quiet_turns_def)
    from Cons.IH [OF this q] TOther show ?thesis by simp
  qed
qed simp

lemma turns_after_register:
  assumes "fit w" "quiet_turns ts"
  shows "\<exists>w'. app_turns call (TCall (AppOnRegister h res) # ts) w = Some w' \<and> able w'"
proof -
  obtain w' where "call (AppOnRegister h res) w = Some w'" "able w'" using registered [OF assms(1)] by blast
  with turns_able [OF _ assms(2)] show ?thesis by simp
qed

lemma calls_after_register:
  assumes "fit w"
  shows "app_turns call (map TCall (AppOnRegister h res # cs)) w \<noteq> None"
  using turns_after_register [OF assms, of "map TCall cs" h res] by (auto simp: quiet_turns_def)

end

section \<open>A process whose network is up\<close>

definition ex_proc :: "marshal \<Rightarrow> Process" where
  "ex_proc mar = \<lparr>pr_readFile = (\<lambda>_. Inr []), pr_jcfg = (\<lambda>_ c. Inr c), pr_mar = mar, pr_jmar = (\<lambda>_. Some []), pr_env = ex_env,
     pr_mk = (\<lambda>_ _ _. Some 9), pr_startErr = None, pr_window = (\<lambda>s. ServeElapsed (s\<lparr>as_state := SkymeshServerRunning\<rparr>)),
     pr_cfg0 = ex_cfg, pr_ss0 = newService ex_addr defaultRegisterOptions,
     pr_rs0 = newRemoteService ''h2'' ex_addr defaultRegisterOptions\<rparr>"

section \<open>Lemmas\<close>

lemma WaitSignal_waits:
  "WaitSignalToStop main_signals incoming stop x = Some (MainWaits x) \<longleftrightarrow> set incoming \<inter> set main_signals = {}"
proof (cases "filter (relayed main_signals) incoming")
  case Nil
  then have "set incoming \<inter> set main_signals = {}" by (auto simp: filter_empty_conv relayed_def main_signals_def)
  then show ?thesis using Nil by (simp add: WaitSignalToStop_def)
next
  case (Cons sig sigs)
  then have "sig \<in> set (filter (relayed main_signals) incoming)" by simp
  then have "sig \<in> set incoming \<inter> set main_signals" by (auto simp: relayed_def main_signals_def)
  then show ?thesis using Cons by (auto simp: WaitSignalToStop_def)
qed

lemma WaitSignal_stops:
  assumes "set incoming \<inter> set main_signals \<noteq> {}"
  shows "WaitSignalToStop main_signals incoming stop x = map_option MainQuit (stop x)"
proof (cases "filter (relayed main_signals) incoming")
  case Nil
  then show ?thesis using assms by (auto simp: filter_empty_conv relayed_def)
qed (simp add: WaitSignalToStop_def)

end
