(* ===== verification/Interface.thy ===== *)
theory Interface
  imports Bootstrap
begin

text \<open>
  \<^verbatim>\<open>src/agent/interface.go\<close>: what the framework offers to an application, as records of methods. A
  method acts on the world \<open>'w\<close> the implementation lives in. The contracts are locales, interpreted on
  the service, the router and the server of the agent. The calls in the other direction are the values
  \<open>AppCall\<close>, \<open>RouterCall\<close> and \<open>ElectionCall\<close> of the traces.
\<close>

section \<open>The interfaces\<close>

record 'w MeshService =
  ms_SendBySvcNameAndInstID :: "string \<Rightarrow> u64 \<Rightarrow> bytes \<Rightarrow> 'w \<Rightarrow> 'w \<times> SendErr option"
  ms_SendByHandle :: "u64 \<Rightarrow> bytes \<Rightarrow> 'w \<Rightarrow> 'w \<times> SendErr option"
  ms_SendBySvcUrl :: "string \<Rightarrow> bytes \<Rightarrow> 'w \<Rightarrow> 'w \<times> SendErr option"
  ms_BroadcastBySvcName :: "string \<Rightarrow> bytes \<Rightarrow> 'w \<Rightarrow> 'w"
  ms_GetLocalAddr :: "'w \<Rightarrow> Addr"
  ms_SetAttribute :: "ServiceAttr \<Rightarrow> 'w \<Rightarrow> 'w \<times> SendErr option"
  ms_GetAttribute :: "'w \<Rightarrow> ServiceAttr"
  ms_RunForElection :: "nat option \<Rightarrow> 'w \<Rightarrow> 'w \<times> (ElectionErr + SendErr) option"
  ms_GiveUpElection :: "'w \<Rightarrow> 'w \<times> (ElectionErr + SendErr) option"
  ms_WatchElection :: "string \<Rightarrow> nat option \<Rightarrow> 'w \<Rightarrow> 'w \<times> ElectionErr option"
  ms_UnWatchElection :: "string \<Rightarrow> 'w \<Rightarrow> 'w \<times> ElectionErr option"
  ms_IsLeader :: "'w \<Rightarrow> 'w \<times> bool"

text \<open>A selection that indexes out of range is a panic.\<close>

record 'w MeshRouter =
  mr_Watch :: "nat \<Rightarrow> 'w \<Rightarrow> 'w"
  mr_UnWatch :: "nat \<Rightarrow> 'w \<Rightarrow> 'w"
  mr_GetInstsAddr :: "'w \<Rightarrow> (u64, Addr) gomap"
  mr_GetInstsAttr :: "'w \<Rightarrow> (u64, ServiceAttr) gomap"
  mr_SelectRouterByModHash :: "u64 \<Rightarrow> 'w \<Rightarrow> u64 option"
  mr_SelectRouterByLoop :: "'w \<Rightarrow> ('w \<times> u64) option"
  mr_SelectRouterByQuality :: "'w \<Rightarrow> u64 option"

text \<open>\<open>Register\<close> blocks; the service and the router it gives are known by a number and a name.\<close>

record 'w MeshServer =
  sv_Register :: "string \<Rightarrow> RegisterOption list \<Rightarrow> 'w \<Rightarrow> ('w \<times> (RegErr + nat)) option"
  sv_UnRegister :: "string \<Rightarrow> 'w \<Rightarrow> 'w option"
  sv_GetNameRouter :: "string \<Rightarrow> 'w \<Rightarrow> 'w"
  sv_GetElectionLeader :: "string \<Rightarrow> 'w \<Rightarrow> 'w \<times> Addr option"
  sv_GracefulStop :: "'w \<Rightarrow> 'w option"

section \<open>Their implementations\<close>

definition skymesh_service :: "Process \<Rightarrow> nat \<Rightarrow> skymeshServer MeshService" where
  "skymesh_service P q =
     \<lparr>ms_SendBySvcNameAndInstID = (\<lambda>n i b s. ss_SendBySvcNameAndInstID (pr_mar P) (pr_env P) s (ss_addr (as_mem s q)) n i b),
      ms_SendByHandle = (\<lambda>h b s. ss_SendByHandle (pr_mar P) (pr_env P) s q h b),
      ms_SendBySvcUrl = (\<lambda>url b s. ss_SendBySvcUrl (pr_mar P) (pr_env P) s q url b),
      ms_BroadcastBySvcName = (\<lambda>n b s. ss_BroadcastBySvcName (pr_mar P) (pr_env P) s q n b),
      ms_GetLocalAddr = (\<lambda>s. ss_GetLocalAddr s q),
      ms_SetAttribute = (\<lambda>attrs s. ss_SetAttribute (pr_mar P) (pr_jmar P) (pr_env P) s q attrs),
      ms_GetAttribute = (\<lambda>s. ss_GetAttribute (as_mem s q)),
      ms_RunForElection = (\<lambda>c s. ss_RunForElection (pr_mar P) (pr_env P) s q c),
      ms_GiveUpElection = (\<lambda>s. ss_GiveUpElection (pr_mar P) (pr_env P) s q),
      ms_WatchElection = (\<lambda>n w s. ss_WatchElection s q n w),
      ms_UnWatchElection = (\<lambda>n s. ss_UnWatchElection s q n),
      ms_IsLeader = (\<lambda>s. ss_IsLeader s q)\<rparr>"

text \<open>The object behind the router of a name; it stays entered until the release of the server.\<close>

definition routerOf :: "string \<Rightarrow> skymeshServer \<Rightarrow> skymeshNameRouter" where
  "routerOf n s = (case mget (as_nameRouters s) n of None \<Rightarrow> newNameRouter n | Some nr \<Rightarrow> nr)"

definition skymesh_router :: "string \<Rightarrow> skymeshServer MeshRouter" where
  "skymesh_router n =
     \<lparr>mr_Watch = (\<lambda>w s. setRouter s n (sr_Watch (routerOf n s) w)),
      mr_UnWatch = (\<lambda>w s. setRouter s n (sr_UnWatch (routerOf n s) w, [])),
      mr_GetInstsAddr = (\<lambda>s. sr_GetInstsAddr (routerOf n s)),
      mr_GetInstsAttr = (\<lambda>s. sr_GetInstsAttr (routerOf n s)),
      mr_SelectRouterByModHash = (\<lambda>key s. SelectRouterByModHash (routerOf n s) key),
      mr_SelectRouterByLoop = (\<lambda>s. map_option (\<lambda>(nr, i). (setRouter s n (nr, []), i)) (SelectRouterByLoop (routerOf n s))),
      mr_SelectRouterByQuality = (\<lambda>s. SelectRouterByQuality (routerOf n s) (srv_GetBestQualityService s n))\<rparr>"

text \<open>\<open>meanwhile\<close> and \<open>stop\<close> are the other goroutines while a caller of \<open>Register\<close> or \<open>GracefulStop\<close> waits.\<close>

definition skymesh_server ::
  "Process \<Rightarrow> (nat \<Rightarrow> skymeshServer \<Rightarrow> (skymeshServer \<times> int option) option) \<Rightarrow> (skymeshServer \<Rightarrow> skymeshServer option) \<Rightarrow>
     skymeshServer MeshServer" where
  "skymesh_server P meanwhile stop =
     \<lparr>sv_Register = (\<lambda>url opts s. do {
        (s, res) \<leftarrow> srv_Register (pr_mar P) (pr_env P) (pr_mk P) s url opts;
        case res of
          Inl e \<Rightarrow> Some (s, Inl e)
        | Inr r \<Rightarrow> do {
            (s, result) \<leftarrow> meanwhile r s;
            srv_RegisterWait (pr_mar P) (pr_env P) s url r result } }),
      sv_UnRegister = (\<lambda>url s. srv_UnRegister (pr_mar P) (pr_env P) s url),
      sv_GetNameRouter = (\<lambda>n s. srv_GetNameRouter (pr_mar P) (pr_env P) s n),
      sv_GetElectionLeader = (\<lambda>n s. srv_GetElectionLeader s n),
      sv_GracefulStop = stop\<rparr>"

section \<open>What a service promises\<close>

text \<open>The calls of an application on its service that may change something.\<close>

datatype ServiceUse =
    UseSendInst string u64 bytes
  | UseSendHandle u64 bytes
  | UseSendUrl string bytes
  | UseBroadcast string bytes
  | UseSetAttribute ServiceAttr
  | UseRunForElection "nat option"
  | UseGiveUpElection
  | UseWatchElection string "nat option"
  | UseUnWatchElection string
  | UseIsLeader

fun use_service :: "'w MeshService \<Rightarrow> ServiceUse \<Rightarrow> 'w \<Rightarrow> 'w" where
  "use_service ms (UseSendInst n i b) w = fst (ms_SendBySvcNameAndInstID ms n i b w)"
| "use_service ms (UseSendHandle h b) w = fst (ms_SendByHandle ms h b w)"
| "use_service ms (UseSendUrl url b) w = fst (ms_SendBySvcUrl ms url b w)"
| "use_service ms (UseBroadcast n b) w = ms_BroadcastBySvcName ms n b w"
| "use_service ms (UseSetAttribute attrs) w = fst (ms_SetAttribute ms attrs w)"
| "use_service ms (UseRunForElection c) w = fst (ms_RunForElection ms c w)"
| "use_service ms UseGiveUpElection w = fst (ms_GiveUpElection ms w)"
| "use_service ms (UseWatchElection n x) w = fst (ms_WatchElection ms n x w)"
| "use_service ms (UseUnWatchElection n) w = fst (ms_UnWatchElection ms n w)"
| "use_service ms UseIsLeader w = fst (ms_IsLeader ms w)"

text \<open>The attributes after some calls: those set last.\<close>

fun attrs_after :: "ServiceUse list \<Rightarrow> (string \<rightharpoonup> GoAny) \<Rightarrow> (string \<rightharpoonup> GoAny)" where
  "attrs_after [] m = m"
| "attrs_after (UseSetAttribute attrs # us) m = attrs_after us (mget attrs)"
| "attrs_after (_ # us) m = attrs_after us m"

definition proper_use :: "ServiceUse \<Rightarrow> bool" where
  "proper_use u \<longleftrightarrow> (case u of UseSetAttribute attrs \<Rightarrow> mwf attrs | _ \<Rightarrow> True)"

locale mesh_service =
  fixes ms :: "'w MeshService"
    and ok :: "'w \<Rightarrow> bool"
  assumes keeps: "ok w \<Longrightarrow> ok (use_service ms u w)"
    and addr_fixed: "ms_GetLocalAddr ms (use_service ms u w) = ms_GetLocalAddr ms w"
    and attr_set: "mwf attrs \<Longrightarrow> mget (ms_GetAttribute ms (use_service ms (UseSetAttribute attrs) w)) = mget attrs"
    and attr_kept: "\<forall>attrs. u \<noteq> UseSetAttribute attrs \<Longrightarrow> ms_GetAttribute ms (use_service ms u w) = ms_GetAttribute ms w"
begin

lemma uses_keep: "ok w \<Longrightarrow> ok (fold (use_service ms) us w)"
  by (induction us arbitrary: w) (auto intro: keeps)

lemma uses_addr: "ms_GetLocalAddr ms (fold (use_service ms) us w) = ms_GetLocalAddr ms w"
  by (induction us arbitrary: w) (auto simp: addr_fixed)

lemma uses_attrs:
  "\<forall>u \<in> set us. proper_use u \<Longrightarrow> mget (ms_GetAttribute ms (fold (use_service ms) us w)) = attrs_after us (mget (ms_GetAttribute ms w))"
proof (induction us arbitrary: w)
  case (Cons u us)
  then have "mget (ms_GetAttribute ms (fold (use_service ms) us (use_service ms u w))) =
      attrs_after us (mget (ms_GetAttribute ms (use_service ms u w)))" by simp
  then show ?case using attr_set [of _ w] attr_kept [of u w] Cons.prems by (cases u) (auto simp: proper_use_def)
qed simp

end

section \<open>The service of the agent keeps the promise\<close>

lemma skymesh_service_methods [simp]:
  "ms_SendBySvcNameAndInstID (skymesh_service P q) n i b s = ss_SendBySvcNameAndInstID (pr_mar P) (pr_env P) s (ss_addr (as_mem s q)) n i b"
  "ms_SendByHandle (skymesh_service P q) h b s = ss_SendByHandle (pr_mar P) (pr_env P) s q h b"
  "ms_SendBySvcUrl (skymesh_service P q) url b s = ss_SendBySvcUrl (pr_mar P) (pr_env P) s q url b"
  "ms_BroadcastBySvcName (skymesh_service P q) n b s = ss_BroadcastBySvcName (pr_mar P) (pr_env P) s q n b"
  "ms_GetLocalAddr (skymesh_service P q) s = ss_GetLocalAddr s q"
  "ms_SetAttribute (skymesh_service P q) attrs s = ss_SetAttribute (pr_mar P) (pr_jmar P) (pr_env P) s q attrs"
  "ms_GetAttribute (skymesh_service P q) s = ss_GetAttribute (as_mem s q)"
  "ms_RunForElection (skymesh_service P q) c s = ss_RunForElection (pr_mar P) (pr_env P) s q c"
  "ms_GiveUpElection (skymesh_service P q) s = ss_GiveUpElection (pr_mar P) (pr_env P) s q"
  "ms_WatchElection (skymesh_service P q) n w s = ss_WatchElection s q n w"
  "ms_UnWatchElection (skymesh_service P q) n s = ss_UnWatchElection s q n"
  "ms_IsLeader (skymesh_service P q) s = ss_IsLeader s q"
  by (simp_all add: skymesh_service_def)

lemmas ss_methods = ss_SendBySvcNameAndInstID_def ss_SendByHandle_def ss_SendBySvcUrl_def ss_BroadcastBySvcName_def
  ss_RunForElection_def ss_GiveUpElection_def ss_WatchElection_def ss_UnWatchElection_def ss_IsLeader_def
  srv_isElectionLeader_def srv_getNameElection_def Let_def

lemma service_uses_ok:
  assumes "agent_inv s"
  shows "agent_inv (use_service (skymesh_service P q) u s)"
proof (rule agent_inv_of [OF assms])
  show "same_queues s (use_service (skymesh_service P q) u s)"
    by (cases u) (auto simp: ss_methods same_queues_sends same_queues_election same_queues_setAttr)
  show "agent_ok s \<Longrightarrow> agent_ok (use_service (skymesh_service P q) u s)"
    by (cases u) (auto simp: ss_methods agent_ok_sendByHandle agent_ok_UrlSend agent_ok_RouterSend agent_ok_broadcast agent_ok_election agent_ok_setAttr)
qed

lemma service_uses_addr: "ss_addr (as_mem (use_service (skymesh_service P q) u s) q) = ss_addr (as_mem s q)"
proof -
  have "same_live s (use_service (skymesh_service P q) u s)"
    by (cases u) (auto simp: ss_methods same_live_sends same_live_election same_live_setAttr)
  then show ?thesis by (simp add: same_live_def)
qed

definition same_attrs :: "skymeshServer \<Rightarrow> skymeshServer \<Rightarrow> bool" where
  "same_attrs s t \<longleftrightarrow> (\<forall>r. ss_attrs (as_mem t r) = ss_attrs (as_mem s r))"

lemma same_attrs_ops [simp]:
  "same_attrs s s"
  "same_attrs s (srv_push t r m) = same_attrs s t" "same_attrs s (setElection t n x) = same_attrs s t"
  "same_attrs s (setRouter t n y) = same_attrs s t" "same_attrs s (fst (with_sidecar t z)) = same_attrs s t"
  "same_attrs s (t\<lparr>as_sidecar := c\<rparr>) = same_attrs s t" "same_attrs s (t\<lparr>as_nameElections := d\<rparr>) = same_attrs s t"
  by (auto simp: srv_push_def setElection_def setRouter_def with_sidecar_def same_attrs_def ss_PushMessage_def split: prod.split)

lemma same_attrs_pushes: "same_attrs s (fold (\<lambda>(lh, r) s. srv_push s r (DataMessage src lh b)) xs s)"
  by (rule fold_keeps [where P = "same_attrs s"]) auto

lemma service_uses_attrs:
  assumes "\<forall>attrs. u \<noteq> UseSetAttribute attrs"
  shows "same_attrs s (use_service (skymesh_service P q) u s)"
  using assms
  by (cases u) (auto simp: ss_methods srv_sendByHandle_def srv_sendBySvcUrl_def srv_sendByRouter_def srv_broadcastBySvcName_def Let_def
      srv_runForElection_def srv_giveUpElection_def srv_watchElection_def srv_unWatchElection_def with_sidecar_def same_attrs_pushes
      split: option.split prod.split)

lemma SetAttribute_sets: "ss_attrs (as_mem (fst (ss_SetAttribute mar jmar env s q attrs)) q) = copyAttrs attrs"
  by (auto simp: ss_SetAttribute_def srv_setAttribute_def Let_def with_sidecar_def setRouter_def split: option.split)

interpretation service: mesh_service "skymesh_service P q" agent_inv
proof unfold_locales
  show "mwf attrs \<Longrightarrow> mget (ms_GetAttribute (skymesh_service P q) (use_service (skymesh_service P q) (UseSetAttribute attrs) w)) = mget attrs" for attrs w
    by (rule ext) (simp add: ss_GetAttribute_def SetAttribute_sets copyAttrs_get copyAttrs_wf)
  show "\<forall>attrs. u \<noteq> UseSetAttribute attrs \<Longrightarrow>
      ms_GetAttribute (skymesh_service P q) (use_service (skymesh_service P q) u w) = ms_GetAttribute (skymesh_service P q) w" for u w
    using service_uses_attrs [of u w P q] by (simp add: same_attrs_def ss_GetAttribute_def)
  show "ms_GetLocalAddr (skymesh_service P q) (use_service (skymesh_service P q) u w) = ms_GetLocalAddr (skymesh_service P q) w" for u w
    using service_uses_addr [of P q u w] by (simp add: ss_GetLocalAddr_def)
qed (rule service_uses_ok)

section \<open>What a router promises\<close>

text \<open>
  A selection gives an instance whose address the router has, or no instance; watchers and selections
  leave the addresses alone. The selection in turn is the one that may panic, when its counter has
  become negative.
\<close>

locale mesh_router =
  fixes mr :: "'w MeshRouter"
    and ok :: "'w \<Rightarrow> bool"
  assumes watch: "ok w \<Longrightarrow> ok (mr_Watch mr x w) \<and> mget (mr_GetInstsAddr mr (mr_Watch mr x w)) = mget (mr_GetInstsAddr mr w)"
    and unwatch: "ok w \<Longrightarrow> ok (mr_UnWatch mr x w) \<and> mget (mr_GetInstsAddr mr (mr_UnWatch mr x w)) = mget (mr_GetInstsAddr mr w)"
    and loop: "ok w \<Longrightarrow> mr_SelectRouterByLoop mr w = Some (w', i) \<Longrightarrow>
      ok w' \<and> mget (mr_GetInstsAddr mr w') = mget (mr_GetInstsAddr mr w) \<and> (i = INVALID_ROUTER_ID \<or> mget (mr_GetInstsAddr mr w) i \<noteq> None)"
    and hash: "ok w \<Longrightarrow> \<exists>i. mr_SelectRouterByModHash mr key w = Some i \<and> (i = INVALID_ROUTER_ID \<or> mget (mr_GetInstsAddr mr w) i \<noteq> None)"
    and quality: "ok w \<Longrightarrow> \<exists>i. mr_SelectRouterByQuality mr w = Some i \<and> (i = INVALID_ROUTER_ID \<or> mget (mr_GetInstsAddr mr w) i \<noteq> None)"
begin

text \<open>Some selections in turn, as a client spreads its messages.\<close>

fun loops :: "nat \<Rightarrow> 'w \<Rightarrow> ('w \<times> u64 list) option" where
  "loops 0 w = Some (w, [])"
| "loops (Suc n) w = do { (w, i) \<leftarrow> mr_SelectRouterByLoop mr w; (w, is) \<leftarrow> loops n w; Some (w, i # is) }"

lemma loops_known:
  "ok w \<Longrightarrow> loops n w = Some (w', is) \<Longrightarrow>
     ok w' \<and> (\<forall>i \<in> set is. i = INVALID_ROUTER_ID \<or> mget (mr_GetInstsAddr mr w) i \<noteq> None)"
proof (induction n arbitrary: w "is")
  case (Suc n)
  then obtain u i js where u: "mr_SelectRouterByLoop mr w = Some (u, i)" "loops n u = Some (w', js)" "is = i # js"
    by (auto split: Option.bind_splits)
  note l = loop [OF Suc.prems(1) u(1)]
  from Suc.IH [OF _ u(2)] l u(3) show ?case by auto
qed simp

end

section \<open>The router of the agent keeps the promise\<close>

lemma routerOf_inv: "agent_inv s \<Longrightarrow> router_inv (routerOf n s)"
  by (auto simp: routerOf_def agent_inv_def router_inv_new dest: agent_ok_routerD split: option.split)

lemma routerOf_set [simp]: "routerOf n (setRouter s n x) = fst x"
  by (simp add: routerOf_def setRouter_def)

lemma GetInstsAddr_get: "router_inv nr \<Longrightarrow> mget (sr_GetInstsAddr nr) = mget (sr_instAddrs nr)"
  using mget_perm [of "sr_instAddrs nr" "rev (sr_instAddrs nr)"] router_invD(1) [of nr]
  by (intro ext) (simp add: sr_GetInstsAddr_def fold_mput_get split: option.split)

lemma inst_known: "router_inv nr \<Longrightarrow> i \<in> set (sr_instIDs nr) \<Longrightarrow> mget (sr_GetInstsAddr nr) i \<noteq> None"
  using router_invD(6) [of nr] by (simp add: GetInstsAddr_get in_mkeys_iff)

lemma index_mem: "index_or_panic xs k = Some x \<Longrightarrow> x \<in> set xs"
  by (auto simp: index_or_panic_def split: if_splits)

lemma agent_inv_setRouter: "agent_inv s \<Longrightarrow> router_inv (fst x) \<Longrightarrow> agent_inv (setRouter s n x)"
  by (rule agent_inv_of [of s]) (auto intro: agent_ok_setRouter)

lemma mod_index:
  fixes key :: u64
  assumes "xs \<noteq> []" "length xs < 2 ^ 64"
  shows "\<exists>x. index_or_panic xs (uint (key mod word_of_nat (length xs))) = Some x"
proof -
  have "unat (word_of_nat (length xs) :: u64) = length xs" using assms(2) by (simp add: unsigned_of_nat take_bit_nat_eq_self)
  then have "unat (key mod word_of_nat (length xs)) < length xs" using assms(1) by (simp add: unat_mod)
  then have "uint (key mod word_of_nat (length xs)) < int (length xs)" by (metis of_nat_less_iff uint_nat)
  then show ?thesis by (simp add: index_or_panic_def)
qed

definition router_ok :: "string \<Rightarrow> skymeshServer \<Rightarrow> bool" where
  "router_ok n s \<longleftrightarrow> agent_inv s \<and> length (sr_instIDs (routerOf n s)) < 2 ^ 64"

lemma Loop_facts:
  assumes "SelectRouterByLoop nr = Some (nr', i)"
  shows "nr' = nr\<lparr>sr_loopSeq := sr_loopSeq nr'\<rparr>" "i = INVALID_ROUTER_ID \<or> i \<in> set (sr_instIDs nr)"
  using assms by (auto simp: SelectRouterByLoop_def Let_def split: if_splits Option.bind_splits dest: index_mem)

lemma router_inv_loopSeq [simp]: "router_inv (nr\<lparr>sr_loopSeq := k\<rparr>) = router_inv nr"
  by (simp add: router_inv_def refresh_ring)

lemma Quality_facts:
  assumes "SelectRouterByQuality nr a = Some i"
  shows "i = INVALID_ROUTER_ID \<or> i \<in> set (sr_instIDs nr)"
  using assms by (auto simp: SelectRouterByQuality_def split: if_splits option.splits dest: index_mem)

lemma ModHash_facts:
  assumes "SelectRouterByModHash nr key = Some i"
  shows "i = INVALID_ROUTER_ID \<or> i \<in> set (sr_instIDs nr)"
  using assms by (auto simp: SelectRouterByModHash_def split: if_splits dest: index_mem)

interpretation router: mesh_router "skymesh_router n" "router_ok n"
proof unfold_locales
  fix s assume ok: "router_ok n s"
  then have inv: "router_inv (routerOf n s)" "agent_inv s" by (simp_all add: router_ok_def routerOf_inv)
  note known = inst_known [OF inv(1)]
  show "router_ok n (mr_Watch (skymesh_router n) x s) \<and>
      mget (mr_GetInstsAddr (skymesh_router n) (mr_Watch (skymesh_router n) x s)) = mget (mr_GetInstsAddr (skymesh_router n) s)" for x
    using ok agent_inv_setRouter [OF inv(2) router_inv_Watch [OF inv(1)]]
    by (simp add: skymesh_router_def router_ok_def sr_Watch_def sr_GetInstsAddr_def)
  show "router_ok n (mr_UnWatch (skymesh_router n) x s) \<and>
      mget (mr_GetInstsAddr (skymesh_router n) (mr_UnWatch (skymesh_router n) x s)) = mget (mr_GetInstsAddr (skymesh_router n) s)" for x
    using ok agent_inv_setRouter [OF inv(2), of "(sr_UnWatch (routerOf n s) x, [])" n] router_inv_UnWatch [OF inv(1)]
    by (simp add: skymesh_router_def router_ok_def sr_UnWatch_def sr_GetInstsAddr_def)
  show "\<exists>i. mr_SelectRouterByModHash (skymesh_router n) key s = Some i \<and>
      (i = INVALID_ROUTER_ID \<or> mget (mr_GetInstsAddr (skymesh_router n) s) i \<noteq> None)" for key
  proof -
    obtain i where i: "SelectRouterByModHash (routerOf n s) key = Some i"
      using mod_index [of "sr_instIDs (routerOf n s)" key] ok
      by (cases "sr_instIDs (routerOf n s) = [] \<or> sr_state (routerOf n s) \<noteq> NameRouterReady")
        (auto simp: SelectRouterByModHash_def router_ok_def)
    with ModHash_facts [OF i] known show ?thesis by (auto simp: skymesh_router_def)
  qed
  show "\<exists>i. mr_SelectRouterByQuality (skymesh_router n) s = Some i \<and>
      (i = INVALID_ROUTER_ID \<or> mget (mr_GetInstsAddr (skymesh_router n) s) i \<noteq> None)"
  proof -
    have "SelectRouterByQuality (routerOf n s) (srv_GetBestQualityService s n) \<noteq> None"
      by (auto simp: SelectRouterByQuality_def index_or_panic_def split: option.splits)
    then obtain i where i: "SelectRouterByQuality (routerOf n s) (srv_GetBestQualityService s n) = Some i" by blast
    with Quality_facts [OF i] known show ?thesis by (auto simp: skymesh_router_def)
  qed
  fix s' i assume l: "mr_SelectRouterByLoop (skymesh_router n) s = Some (s', i)"
  then obtain nr where nr: "SelectRouterByLoop (routerOf n s) = Some (nr, i)" "s' = setRouter s n (nr, [])"
    by (auto simp: skymesh_router_def)
  have "router_inv nr" using inv(1) router_inv_loopSeq [of "sr_loopSeq nr" "routerOf n s"] Loop_facts(1) [OF nr(1)] by simp
  then have "agent_inv s'" using agent_inv_setRouter [OF inv(2), of "(nr, [])"] nr(2) by simp
  moreover have "sr_instIDs nr = sr_instIDs (routerOf n s)" "sr_instAddrs nr = sr_instAddrs (routerOf n s)"
    using arg_cong [OF Loop_facts(1) [OF nr(1)], of sr_instIDs] arg_cong [OF Loop_facts(1) [OF nr(1)], of sr_instAddrs] by simp_all
  ultimately show "router_ok n s' \<and>
      mget (mr_GetInstsAddr (skymesh_router n) s') = mget (mr_GetInstsAddr (skymesh_router n) s) \<and>
      (i = INVALID_ROUTER_ID \<or> mget (mr_GetInstsAddr (skymesh_router n) s) i \<noteq> None)"
    using ok Loop_facts(2) [OF nr(1)] known nr(2) by (auto simp: skymesh_router_def router_ok_def sr_GetInstsAddr_def)
qed

section \<open>Properties\<close>

text \<open>
  Whatever an application calls on its service, the agent stays well-formed, the service keeps its address,
  and its attributes are those it set last.
\<close>

theorem service_interface_contract:
  assumes "agent_inv s" "\<forall>u \<in> set us. proper_use u"
  shows "agent_inv (fold (use_service (skymesh_service P q)) us s)"
    "ss_GetLocalAddr (fold (use_service (skymesh_service P q)) us s) q = ss_GetLocalAddr s q"
    "mget (ss_GetAttribute (as_mem (fold (use_service (skymesh_service P q)) us s) q)) =
       attrs_after us (mget (ss_GetAttribute (as_mem s q)))"
  using service.uses_keep [OF assms(1)] service.uses_addr [of P q us s] service.uses_attrs [OF assms(2), of P q s] by simp_all

text \<open>
  Every instance a client of a router is given by selections in turn is one whose address the router had,
  or the number that stands for none.
\<close>

theorem router_interface_contract:
  assumes "router_ok n s" "router.loops n k s = Some (s', is)" "i \<in> set is" "i \<noteq> INVALID_ROUTER_ID"
  shows "\<exists>a. mget (sr_instAddrs (routerOf n s)) i = Some a"
  using router.loops_known [OF assms(1,2)] assms(3,4) GetInstsAddr_get [OF routerOf_inv, of s n] assms(1)
  by (auto simp: skymesh_router_def router_ok_def)

end
