(* ===== verification/Apps.thy ===== *)
theory Apps
  imports Bootstrap
begin

text \<open>
  The applications of \<^verbatim>\<open>src/examples\<close>: \<^verbatim>\<open>helloworld\<close> (a greeting and its answer), \<^verbatim>\<open>features/election\<close>
  (servers that run for leader and a client that makes each leader give up) and \<^verbatim>\<open>features/name_router\<close>
  (servers that count what they receive in their attributes and a client that spreads messages over
  them). The methods of the objects are functions on the object and the agent; the service whose
  goroutine calls them is \<open>q\<close>. Log lines are left out.
\<close>

definition string_of_bytes :: "bytes \<Rightarrow> string" where
  "string_of_bytes b = map (\<lambda>x. char_of (unat x)) b"

definition apps_appID :: string where
  "apps_appID = ''testApp''"

section \<open>helloworld\<close>

record greeterServer =
  gs_transport :: "nat option"

definition gs_svcUrl :: string where
  "gs_svcUrl = apps_appID @ ''.weixin1.greeterServer/101''"

definition gs_greetMessage :: bytes where
  "gs_greetMessage = bytes_of_string ''Nice to meet you too.''"

definition gs_call :: "Process \<Rightarrow> nat \<Rightarrow> AppCall \<Rightarrow> greeterServer app \<Rightarrow> greeterServer app option" where
  "gs_call P q c w =
     (case c of
        AppOnRegister h result \<Rightarrow> Some ((fst w)\<lparr>gs_transport := Some q\<rparr>, snd w)
      | AppOnUnRegister h \<Rightarrow> Some w
      | AppOnMessage h rmtAddr msg \<Rightarrow>
          (case gs_transport (fst w) of
             None \<Rightarrow> None
           | Some r \<Rightarrow> Some (fst w, fst (ss_SendByHandle (pr_mar P) (pr_env P) (snd w) r (AddrHandle rmtAddr) gs_greetMessage))))"

definition greeter_server_main ::
  "Process \<Rightarrow> (nat \<Rightarrow> greeterServer app \<Rightarrow> (greeterServer app \<times> int option) option) \<Rightarrow> Signal list \<Rightarrow>
     (greeterServer app \<Rightarrow> greeterServer app option) \<Rightarrow> string \<Rightarrow> greeterServer app MainEnd option" where
  "greeter_server_main P meanwhile incoming stop conf =
     main_start P meanwhile conf apps_appID gs_svcUrl \<lparr>gs_transport = None\<rparr>
       (\<lambda>_. WaitSignalToStop main_signals incoming stop)"

record greeterClient =
  gc_trans :: "nat option"

definition gc_svcUrl :: string where
  "gc_svcUrl = apps_appID @ ''.weixin1.greeterClient/101''"

definition gc_dstUrl :: string where
  "gc_dstUrl = apps_appID @ ''.weixin1.greeterServer/101''"

definition gc_greetMessage :: bytes where
  "gc_greetMessage = bytes_of_string ''Nice to meet you.''"

definition gc_call :: "Process \<Rightarrow> nat \<Rightarrow> AppCall \<Rightarrow> greeterClient app \<Rightarrow> greeterClient app option" where
  "gc_call P q c w =
     (case c of
        AppOnRegister h result \<Rightarrow> Some ((fst w)\<lparr>gc_trans := Some q\<rparr>, snd w)
      | AppOnUnRegister h \<Rightarrow> Some w
      | AppOnMessage h rmtAddr msg \<Rightarrow> Some w)"

text \<open>
  The body of \<^verbatim>\<open>for range ticker.C\<close>. Nobody closes the channel of a ticker, so the loop does not end
  and what follows it in the program, the wait for a signal, is never reached.
\<close>

definition gc_tick :: "Process \<Rightarrow> greeterClient app \<Rightarrow> greeterClient app option" where
  "gc_tick P w =
     (case gc_trans (fst w) of
        None \<Rightarrow> None
      | Some r \<Rightarrow> Some (fst w, fst (ss_SendBySvcUrl (pr_mar P) (pr_env P) (snd w) r gc_dstUrl gc_greetMessage)))"

definition greeter_client_main ::
  "Process \<Rightarrow> (nat \<Rightarrow> greeterClient app \<Rightarrow> (greeterClient app \<times> int option) option) \<Rightarrow> string \<Rightarrow> greeterClient app MainEnd option" where
  "greeter_client_main P meanwhile conf =
     main_start P meanwhile conf apps_appID gc_svcUrl \<lparr>gc_trans = None\<rparr> (\<lambda>_ w. Some (MainTicks w))"

section \<open>features/election\<close>

record electionServer =
  es_service :: "nat option"

record electionListener =
  el_service :: "u64 option"

definition es_svcUrl :: "u64 \<Rightarrow> string" where
  "es_svcUrl svcInstId = apps_appID @ ''.weixin1.Server/'' @ dec (unat svcInstId)"

definition giveUpMessage :: string where
  "giveUpMessage = ''GiveUp''"

definition es_call :: "Process \<Rightarrow> nat \<Rightarrow> AppCall \<Rightarrow> electionServer app \<Rightarrow> electionServer app option" where
  "es_call P q c w =
     (case c of
        AppOnRegister h result \<Rightarrow> Some ((fst w)\<lparr>es_service := Some q\<rparr>, snd w)
      | AppOnUnRegister h \<Rightarrow> Some w
      | AppOnMessage h rmtAddr msg \<Rightarrow>
          if string_of_bytes msg = giveUpMessage then
            (case es_service (fst w) of
               None \<Rightarrow> None
             | Some r \<Rightarrow> Some (fst w, fst (ss_GiveUpElection (pr_mar P) (pr_env P) (snd w) r)))
          else Some w)"

text \<open>The candidate: both methods ask a service for its address, and a nil one panics.\<close>

definition el_call :: "u64 ElectionCall \<Rightarrow> electionListener \<Rightarrow> electionListener option" where
  "el_call c l =
     (case c of
        OnRegisterLeader _ svc result \<Rightarrow> (case svc of None \<Rightarrow> None | Some h \<Rightarrow> Some (l\<lparr>el_service := svc\<rparr>))
      | OnUnRegisterLeader _ \<Rightarrow> (case el_service l of None \<Rightarrow> None | Some h \<Rightarrow> Some l)
      | OnLeaderChange _ leader event \<Rightarrow> Some l)"

text \<open>The candidate object of the process has the number 0.\<close>

definition election_server_main ::
  "Process \<Rightarrow> (nat \<Rightarrow> electionServer app \<Rightarrow> (electionServer app \<times> int option) option) \<Rightarrow> Signal list \<Rightarrow>
     (electionServer app \<Rightarrow> electionServer app option) \<Rightarrow> string \<Rightarrow> u64 \<Rightarrow> electionServer app MainEnd option" where
  "election_server_main P meanwhile incoming stop conf svcInstId =
     main_start P meanwhile conf apps_appID (es_svcUrl svcInstId) \<lparr>es_service = None\<rparr>
       (\<lambda>q w. WaitSignalToStop main_signals incoming stop
                (fst w, fst (ss_RunForElection (pr_mar P) (pr_env P) (snd w) q (Some 0))))"

text \<open>The client: an object without state, and a watcher that holds the service.\<close>

definition ec_svcUrl :: string where
  "ec_svcUrl = apps_appID @ ''.weixin1.Client/101''"

definition ec_watchSvcName :: string where
  "ec_watchSvcName = apps_appID @ ''.weixin1.Server''"

definition ec_call :: "AppCall \<Rightarrow> unit app \<Rightarrow> unit app option" where
  "ec_call c w = Some w"

definition ec_OnLeaderChange :: "Process \<Rightarrow> nat \<Rightarrow> Addr \<Rightarrow> LeaderChangeEvent \<Rightarrow> skymeshServer \<Rightarrow> skymeshServer" where
  "ec_OnLeaderChange P q leader event s =
     (if event = KGotElectionLeader
      then fst (ss_SendBySvcNameAndInstID (pr_mar P) (pr_env P) s (ss_addr (as_mem s q)) ec_watchSvcName (ServiceId leader)
                  (bytes_of_string giveUpMessage))
      else s)"

fun ec_changes :: "Process \<Rightarrow> nat \<Rightarrow> u64 ElectionCall list \<Rightarrow> skymeshServer \<Rightarrow> skymeshServer" where
  "ec_changes P q [] s = s"
| "ec_changes P q (OnLeaderChange w leader event # cs) s = ec_changes P q cs (ec_OnLeaderChange P q leader event s)"
| "ec_changes P q (_ # cs) s = ec_changes P q cs s"

text \<open>\<open>WatchElection\<close> tells the new watcher of the leader there is, before it returns.\<close>

definition ec_watch :: "Process \<Rightarrow> nat \<Rightarrow> skymeshServer \<Rightarrow> skymeshServer" where
  "ec_watch P q s =
     (let (e, cs, err) = se_watchElection (electionOf s ec_watchSvcName) (ss_addr (as_mem s q)) 0
      in ec_changes P q cs (fst (ss_WatchElection s q ec_watchSvcName (Some 0))))"

definition election_client_main ::
  "Process \<Rightarrow> (nat \<Rightarrow> unit app \<Rightarrow> (unit app \<times> int option) option) \<Rightarrow> Signal list \<Rightarrow> (unit app \<Rightarrow> unit app option) \<Rightarrow>
     string \<Rightarrow> unit app MainEnd option" where
  "election_client_main P meanwhile incoming stop conf =
     main_start P meanwhile conf apps_appID ec_svcUrl ()
       (\<lambda>q w. WaitSignalToStop main_signals incoming stop (fst w, ec_watch P q (snd w)))"

section \<open>features/name_router\<close>

record routerServer =
  rv_service :: "nat option"

definition rv_svcUrl :: "u64 \<Rightarrow> string" where
  "rv_svcUrl svcInstId = apps_appID @ ''.weixin1.Server/'' @ dec (unat svcInstId)"

text \<open>The type assertion panics on anything that is not an \<^verbatim>\<open>int\<close>.\<close>

definition rv_count :: "ServiceAttr \<Rightarrow> string \<Rightarrow> ServiceAttr option" where
  "rv_count attrs smsg =
     (case mget attrs smsg of
        None \<Rightarrow> Some (mput smsg (GoInt 1) attrs)
      | Some (GoInt n) \<Rightarrow> Some (mput smsg (GoInt (go_inc n)) attrs)
      | Some (GoAny _) \<Rightarrow> None)"

definition rv_call :: "Process \<Rightarrow> nat \<Rightarrow> AppCall \<Rightarrow> routerServer app \<Rightarrow> routerServer app option" where
  "rv_call P q c w =
     (case c of
        AppOnRegister h result \<Rightarrow> Some ((fst w)\<lparr>rv_service := Some q\<rparr>, snd w)
      | AppOnUnRegister h \<Rightarrow> Some w
      | AppOnMessage h rmtAddr msg \<Rightarrow>
          (case rv_service (fst w) of
             None \<Rightarrow> None
           | Some r \<Rightarrow> do {
               attrs \<leftarrow> rv_count (ss_GetAttribute (as_mem (snd w) r)) (string_of_bytes msg);
               Some (fst w, fst (ss_SetAttribute (pr_mar P) (pr_jmar P) (pr_env P) (snd w) r attrs)) }))"

definition router_server_main ::
  "Process \<Rightarrow> (nat \<Rightarrow> routerServer app \<Rightarrow> (routerServer app \<times> int option) option) \<Rightarrow> Signal list \<Rightarrow>
     (routerServer app \<Rightarrow> routerServer app option) \<Rightarrow> string \<Rightarrow> u64 \<Rightarrow> routerServer app MainEnd option" where
  "router_server_main P meanwhile incoming stop conf svcInstId =
     main_start P meanwhile conf apps_appID (rv_svcUrl svcInstId) \<lparr>rv_service = None\<rparr>
       (\<lambda>_. WaitSignalToStop main_signals incoming stop)"

text \<open>
  The client: its object, the transport of its watcher, the name router \<open>ns\<close> and the counter of the
  loop. The router is the one in the table of the agent; after the table has been emptied the
  program still holds the object.
\<close>

record routerClient =
  rc_transport :: "nat option"
  rc_watcher :: "nat option"
  rc_ns :: skymeshNameRouter
  rc_loopSeq :: int

definition rc_svcUrl :: string where
  "rc_svcUrl = apps_appID @ ''.weixin1.Client/101''"

definition rc_watchUrl :: string where
  "rc_watchUrl = apps_appID @ ''.weixin1.Server''"

definition rc_greetMessage :: bytes where
  "rc_greetMessage = bytes_of_string ''Hello.''"

definition rc_call :: "Process \<Rightarrow> nat \<Rightarrow> AppCall \<Rightarrow> routerClient app \<Rightarrow> routerClient app option" where
  "rc_call P q c w =
     (case c of
        AppOnRegister h result \<Rightarrow> Some ((fst w)\<lparr>rc_transport := Some q\<rparr>, snd w)
      | AppOnUnRegister h \<Rightarrow> Some w
      | AppOnMessage h rmtAddr msg \<Rightarrow> Some w)"

definition rc_watcher_call :: "Process \<Rightarrow> RouterCall \<Rightarrow> routerClient app \<Rightarrow> routerClient app option" where
  "rc_watcher_call P c w =
     (case c of
        OnInstOnline _ addr \<Rightarrow>
          (case rc_watcher (fst w) of
             None \<Rightarrow> None
           | Some r \<Rightarrow> Some (fst w, fst (ss_SendByHandle (pr_mar P) (pr_env P) (snd w) r (AddrHandle addr) rc_greetMessage)))
      | OnInstOffline _ addr \<Rightarrow> Some w
      | OnInstSyncAttr _ addr attrs \<Rightarrow> Some w)"

fun rc_watcher_calls :: "Process \<Rightarrow> RouterCall list \<Rightarrow> routerClient app \<Rightarrow> routerClient app option" where
  "rc_watcher_calls P [] w = Some w"
| "rc_watcher_calls P (c # cs) w = do { w \<leftarrow> rc_watcher_call P c w; rc_watcher_calls P cs w }"

definition rc_router :: "routerClient app \<Rightarrow> skymeshNameRouter" where
  "rc_router w = (case mget (as_nameRouters (snd w)) rc_watchUrl of Some sr \<Rightarrow> sr | None \<Rightarrow> rc_ns (fst w))"

definition rc_set_router :: "skymeshNameRouter \<Rightarrow> RouterCall list \<Rightarrow> routerClient app \<Rightarrow> routerClient app" where
  "rc_set_router sr cs w =
     ((fst w)\<lparr>rc_ns := sr\<rparr>,
      case mget (as_nameRouters (snd w)) rc_watchUrl of
        Some _ \<Rightarrow> setRouter (snd w) rc_watchUrl (sr, cs)
      | None \<Rightarrow> (snd w)\<lparr>as_calls := as_calls (snd w) @ map CRouter cs\<rparr>)"

text \<open>\<open>GetNameRouter\<close> and \<open>Watch\<close>: the new watcher, number 0, is told of the instances there are.\<close>

definition rc_watch :: "Process \<Rightarrow> routerClient app \<Rightarrow> routerClient app option" where
  "rc_watch P w =
     (let w = ((fst w)\<lparr>rc_watcher := rc_transport (fst w)\<rparr>, srv_GetNameRouter (pr_mar P) (pr_env P) (snd w) rc_watchUrl);
          (sr, cs) = sr_Watch (rc_router w) 0
      in rc_watcher_calls P cs (rc_set_router sr cs w))"

definition rc_send :: "Process \<Rightarrow> u64 \<Rightarrow> string \<Rightarrow> routerClient app \<Rightarrow> routerClient app option" where
  "rc_send P router_id text w =
     (case rc_transport (fst w) of
        None \<Rightarrow> None
      | Some r \<Rightarrow> Some (fst w, fst (ss_SendBySvcNameAndInstID (pr_mar P) (pr_env P) (snd w) (ss_addr (as_mem (snd w) r))
                                 rc_watchUrl router_id (bytes_of_string text))))"

definition rc_tick :: "Process \<Rightarrow> routerClient app \<Rightarrow> routerClient app option" where
  "rc_tick P w = do {
     (sr, router_id) \<leftarrow> SelectRouterByLoop (rc_router w);
     w \<leftarrow> rc_send P router_id ''RouterByLoop'' (rc_set_router sr [] w);
     router_id \<leftarrow> SelectRouterByModHash (rc_router w) (word_of_int (rc_loopSeq (fst w)));
     w \<leftarrow> rc_send P router_id ''RouterByModHash'' w;
     Some ((fst w)\<lparr>rc_loopSeq := go_inc (rc_loopSeq (fst w))\<rparr>, snd w) }"

definition router_client_main ::
  "Process \<Rightarrow> (nat \<Rightarrow> routerClient app \<Rightarrow> (routerClient app \<times> int option) option) \<Rightarrow> string \<Rightarrow> routerClient app MainEnd option" where
  "router_client_main P meanwhile conf =
     main_start P meanwhile conf apps_appID rc_svcUrl
       \<lparr>rc_transport = None, rc_watcher = None, rc_ns = newNameRouter rc_watchUrl, rc_loopSeq = 1\<rparr>
       (\<lambda>_ w. map_option MainTicks (rc_watch P w))"

section \<open>Once registered, an application does not panic\<close>

lemma string_of_bytes_of_string [simp]: "string_of_bytes (bytes_of_string s) = s"
proof -
  have "char_of (unat (word_of_nat (of_char ch) :: u8)) = ch" for ch
    by (simp add: unat_of_nat)
  then show ?thesis by (simp add: string_of_bytes_def bytes_of_string_def o_def)
qed

interpretation greeter_server: app_service "gs_call P q" "\<lambda>w. gs_transport (fst w) \<noteq> None" "\<lambda>_. True" "\<lambda>_. True" for P q
  by unfold_locales (auto simp: gs_call_def split: AppCall.split)

interpretation greeter_client: app_service "gc_call P q" "\<lambda>w. gc_trans (fst w) \<noteq> None" "\<lambda>_. True" "\<lambda>_. True" for P q
  by unfold_locales (auto simp: gc_call_def split: AppCall.split)

interpretation election_server: app_service "es_call P q" "\<lambda>w. es_service (fst w) \<noteq> None" "\<lambda>_. True" "\<lambda>_. True" for P q
  by unfold_locales (auto simp: es_call_def split: AppCall.split)

text \<open>The counters of a router server: every attribute is an \<^verbatim>\<open>int\<close>.\<close>

definition ints :: "ServiceAttr \<Rightarrow> bool" where
  "ints attrs \<longleftrightarrow> mwf attrs \<and> (\<forall>k v. mget attrs k = Some v \<longrightarrow> (\<exists>n. v = GoInt n))"

definition attrs_of :: "'a app \<Rightarrow> nat \<Rightarrow> ServiceAttr" where
  "attrs_of w q = ss_attrs (as_mem (snd w) q)"

definition leaves_attrs :: "nat \<Rightarrow> (skymeshServer \<Rightarrow> skymeshServer) \<Rightarrow> bool" where
  "leaves_attrs q f \<longleftrightarrow> (\<forall>s. ss_attrs (as_mem (f s) q) = ss_attrs (as_mem s q))"

lemma SetAttribute_attrs: "ss_attrs (as_mem (fst (ss_SetAttribute mar jmar env s r attrs)) r) = copyAttrs attrs"
  by (simp add: ss_SetAttribute_def srv_setAttribute_def with_sidecar_def setRouter_def Let_def split: option.split)

lemma count_message:
  assumes "ints (ss_attrs (as_mem s q))"
  shows "\<exists>attrs. rv_count (ss_GetAttribute (as_mem s q)) k = Some attrs \<and> ints (copyAttrs attrs) \<and>
    mget (copyAttrs attrs) k = (case mget (ss_attrs (as_mem s q)) k of Some (GoInt n) \<Rightarrow> Some (GoInt (go_inc n)) | _ \<Rightarrow> Some (GoInt 1)) \<and>
    (\<forall>l. l \<noteq> k \<longrightarrow> mget (copyAttrs attrs) l = mget (ss_attrs (as_mem s q)) l)"
proof -
  let ?a = "ss_attrs (as_mem s q)"
  have wf: "mwf ?a" and int: "mget ?a k = Some v \<Longrightarrow> \<exists>n. v = GoInt n" for k v using assms by (auto simp: ints_def)
  have get: "mget (copyAttrs ?a) l = mget ?a l" for l by (rule copyAttrs_get [OF wf])
  have put: "mget (copyAttrs (mput k v (copyAttrs ?a))) l = (if l = k then Some v else mget ?a l)" for v l
    by (simp add: copyAttrs_get copyAttrs_wf get)
  show ?thesis
  proof (cases "mget ?a k")
    case None
    have "ints (copyAttrs (mput k (GoInt 1) (copyAttrs ?a)))" unfolding ints_def put using int by (auto simp: copyAttrs_wf)
    with None show ?thesis by (simp add: rv_count_def ss_GetAttribute_def get put)
  next
    case (Some v)
    then obtain n where n: "mget ?a k = Some (GoInt n)" using int by blast
    have "ints (copyAttrs (mput k (GoInt (go_inc n)) (copyAttrs ?a)))" unfolding ints_def put using int by (auto simp: copyAttrs_wf)
    with n show ?thesis by (simp add: rv_count_def ss_GetAttribute_def get put)
  qed
qed

lemma rv_message:
  assumes "rv_service (fst w) = Some q" "ints (attrs_of w q)"
  shows "\<exists>w'. rv_call P q (AppOnMessage h a b) w = Some w' \<and> rv_service (fst w') = Some q \<and> ints (attrs_of w' q) \<and>
    mget (attrs_of w' q) (string_of_bytes b) =
      (case mget (attrs_of w q) (string_of_bytes b) of Some (GoInt n) \<Rightarrow> Some (GoInt (go_inc n)) | _ \<Rightarrow> Some (GoInt 1)) \<and>
    (\<forall>l. l \<noteq> string_of_bytes b \<longrightarrow> mget (attrs_of w' q) l = mget (attrs_of w q) l)"
proof -
  obtain attrs where "rv_count (ss_GetAttribute (as_mem (snd w) q)) (string_of_bytes b) = Some attrs" "ints (copyAttrs attrs)"
    "mget (copyAttrs attrs) (string_of_bytes b) =
      (case mget (attrs_of w q) (string_of_bytes b) of Some (GoInt n) \<Rightarrow> Some (GoInt (go_inc n)) | _ \<Rightarrow> Some (GoInt 1))"
    "\<forall>l. l \<noteq> string_of_bytes b \<longrightarrow> mget (copyAttrs attrs) l = mget (attrs_of w q) l"
    using count_message assms(2) unfolding attrs_of_def by blast
  then show ?thesis using assms(1) by (simp add: rv_call_def attrs_of_def SetAttribute_attrs)
qed

lemma rv_call_simps [simp]:
  "rv_call P q (AppOnRegister h res) w = Some ((fst w)\<lparr>rv_service := Some q\<rparr>, snd w)"
  "rv_call P q (AppOnUnRegister h) w = Some w"
  by (simp_all add: rv_call_def)

interpretation router_server: app_service "rv_call P q" "\<lambda>w. rv_service (fst w) = Some q \<and> ints (attrs_of w q)"
  "leaves_attrs q" "\<lambda>w. ints (attrs_of w q)" for P q
proof
  fix w :: "routerServer app" and c h res
  show "\<exists>w'. rv_call P q (AppOnRegister h res) w = Some w' \<and> rv_service (fst w') = Some q \<and> ints (attrs_of w' q)"
    if "ints (attrs_of w q)" using that by (simp add: attrs_of_def)
  show "\<exists>w'. rv_call P q c w = Some w' \<and> rv_service (fst w') = Some q \<and> ints (attrs_of w' q)"
    if able: "rv_service (fst w) = Some q \<and> ints (attrs_of w q)"
  proof (cases c)
    case (AppOnMessage h a b)
    then show ?thesis using rv_message [of w q P h a b] able by blast
  qed (use able in \<open>simp_all add: attrs_of_def\<close>)
qed (auto simp: leaves_attrs_def attrs_of_def)

section \<open>Properties\<close>

text \<open>How often a text has been received.\<close>

fun received :: "string \<Rightarrow> AppTurn list \<Rightarrow> nat" where
  "received k [] = 0"
| "received k (TCall (AppOnMessage h a b) # ts) = (if string_of_bytes b = k then 1 else 0) + received k ts"
| "received k (_ # ts) = received k ts"

definition counter :: "nat \<Rightarrow> GoAny option" where
  "counter n = (if n = 0 then None else Some (GoInt (int n)))"

lemma counter_suc:
  assumes "int n + 1 < 2 ^ 63"
  shows "(case counter n of Some (GoInt m) \<Rightarrow> Some (GoInt (go_inc m)) | _ \<Rightarrow> Some (GoInt 1)) = counter (Suc n)"
  using assms by (auto simp: counter_def go_inc_def)

lemma turns_count:
  assumes "rv_service (fst w) = Some q" "ints (attrs_of w q)" "\<And>k. mget (attrs_of w q) k = counter (c k)"
    and "\<forall>f. TOther f \<in> set ts \<longrightarrow> leaves_attrs q f" "\<And>k. int (c k + received k ts) < 2 ^ 63"
  shows "\<exists>w'. app_turns (rv_call P q) ts w = Some w' \<and> (\<forall>k. mget (attrs_of w' q) k = counter (c k + received k ts))"
  using assms
proof (induction ts arbitrary: w c)
  case (Cons t ts)
  show ?case
  proof (cases t)
    case (TOther f)
    have "attrs_of (fst w, f (snd w)) q = attrs_of w q" using Cons.prems(4) TOther by (simp add: leaves_attrs_def attrs_of_def)
    then show ?thesis using Cons.IH [of "(fst w, f (snd w))" c] Cons.prems TOther by simp
  next
    case (TCall x)
    show ?thesis
    proof (cases x)
      case (AppOnMessage h a b)
      let ?k = "string_of_bytes b"
      let ?c = "\<lambda>k. c k + (if ?k = k then 1 else 0)"
      obtain w' where w': "rv_call P q (AppOnMessage h a b) w = Some w'" "rv_service (fst w') = Some q" "ints (attrs_of w' q)"
        "mget (attrs_of w' q) ?k = (case mget (attrs_of w q) ?k of Some (GoInt n) \<Rightarrow> Some (GoInt (go_inc n)) | _ \<Rightarrow> Some (GoInt 1))"
        "\<forall>l. l \<noteq> ?k \<longrightarrow> mget (attrs_of w' q) l = mget (attrs_of w q) l"
        using rv_message [OF Cons.prems(1,2), of P h a b] by blast
      have "int (c ?k) + 1 < 2 ^ 63" using Cons.prems(5) [of ?k] TCall AppOnMessage by simp
      then have "mget (attrs_of w' q) k = counter (?c k)" for k
        using w'(4,5) Cons.prems(3) counter_suc [of "c ?k"] by (cases "k = ?k") simp_all
      moreover have "int (?c k + received k ts) < 2 ^ 63" for k
        using Cons.prems(5) [of k] TCall AppOnMessage by (simp add: add.commute add.left_commute)
      moreover have "\<forall>f. TOther f \<in> set ts \<longrightarrow> leaves_attrs q f" using Cons.prems(4) by simp
      ultimately obtain w'' where "app_turns (rv_call P q) ts w' = Some w''"
        "\<forall>k. mget (attrs_of w'' q) k = counter (?c k + received k ts)"
        using Cons.IH [OF w'(2,3), of ?c] by blast
      then show ?thesis using w'(1) TCall AppOnMessage by (simp add: add.assoc)
    next
      case (AppOnRegister h res)
      let ?w = "((fst w)\<lparr>rv_service := Some q\<rparr>, snd w)"
      have "\<exists>w'. app_turns (rv_call P q) ts ?w = Some w' \<and> (\<forall>k. mget (attrs_of w' q) k = counter (c k + received k ts))"
        using Cons.prems TCall AppOnRegister by (intro Cons.IH) (simp_all add: attrs_of_def)
      then show ?thesis using TCall AppOnRegister by simp
    next
      case (AppOnUnRegister h)
      then show ?thesis using Cons.IH [OF Cons.prems(1,2,3)] Cons.prems(4,5) TCall by simp
    qed
  qed
qed simp

text \<open>
  C22: A router server counts what it receives: started without attributes, once the agent has told it of
  its registration it handles any sequence of messages without a panic, whatever the rest of the agent
  does meanwhile apart from its attributes, and then the attribute of every text is the number of
  messages that carried it, and absent when there was none.
\<close>

theorem router_server_counts:
  assumes "attrs_of w q = []" "\<forall>f. TOther f \<in> set ts \<longrightarrow> leaves_attrs q f" "\<forall>k. int (received k ts) < 2 ^ 63"
  shows "\<exists>w'. app_turns (rv_call P q) (TCall (AppOnRegister h res) # ts) w = Some w' \<and>
    (\<forall>k. mget (ss_GetAttribute (as_mem (snd w') q)) k =
      (if received k ts = 0 then None else Some (GoInt (int (received k ts)))))"
proof -
  let ?w = "((fst w)\<lparr>rv_service := Some q\<rparr>, snd w)"
  have a: "attrs_of ?w q = []" using assms(1) by (simp add: attrs_of_def)
  have i: "ints (attrs_of ?w q)" unfolding a by (simp add: ints_def)
  have "\<exists>w'. app_turns (rv_call P q) ts ?w = Some w' \<and> (\<forall>k. mget (attrs_of w' q) k = counter (0 + received k ts))"
    by (rule turns_count [where c = "\<lambda>_. 0"]) (use assms(2,3) i a in \<open>simp_all add: counter_def\<close>)
  then obtain w' where w': "app_turns (rv_call P q) ts ?w = Some w'" "\<forall>k. mget (attrs_of w' q) k = counter (received k ts)" by auto
  have turns: "app_turns (rv_call P q) (TCall (AppOnRegister h res) # ts) w = Some w'" using w'(1) by simp
  obtain v where v: "app_turns (rv_call P q) (TCall (AppOnRegister h res) # ts) w = Some v" "ints (attrs_of v q)"
    using router_server.turns_after_register [of w q ts P h res] assms(1,2)
    by (auto simp: ints_def router_server.quiet_turns_def)
  have "mwf (ss_attrs (as_mem (snd w') q))" using v turns by (simp add: ints_def attrs_of_def)
  with w'(2) turns show ?thesis
    by (intro exI [of _ w']) (simp add: ss_GetAttribute_def copyAttrs_get attrs_of_def counter_def)
qed

theorem router_server_counts_witness:
  "\<exists>w'. app_turns (rv_call (ex_proc (\<lambda>_. None)) 0) (TCall (AppOnRegister 9 0) # map (\<lambda>x. TCall (AppOnMessage 9 ex_peer_addr (bytes_of_string x))) [''A'', ''B'', ''A''])
      (\<lparr>rv_service = None\<rparr>, ex_process ex_addr ''svc/1'' ex_peer_addr ''h2'') = Some w' \<and>
    mget (ss_GetAttribute (as_mem (snd w') 0)) ''A'' = Some (GoInt 2) \<and> mget (ss_GetAttribute (as_mem (snd w') 0)) ''C'' = None"
proof -
  let ?w = "(\<lparr>rv_service = None\<rparr>, ex_process ex_addr ''svc/1'' ex_peer_addr ''h2'')"
  let ?ts = "map (\<lambda>x. TCall (AppOnMessage 9 ex_peer_addr (bytes_of_string x))) [''A'', ''B'', ''A'']"
  have a: "attrs_of ?w 0 = []"
    by (simp add: attrs_of_def ex_process_def svc_added_def ex_agent0_def srv_Init_def newService_def Let_def)
  have k: "\<forall>k. int (received k ?ts) < 2 ^ 63" by simp
  have n: "received ''A'' ?ts = 2" "received ''C'' ?ts = 0" by simp_all
  from router_server_counts [OF a _ k, of "ex_proc (\<lambda>_. None)" 9 0] n show ?thesis by auto
qed

text \<open>What \<open>n\<close> turns of the goroutine of a service call on the application.\<close>

fun ss_turns :: "nat \<Rightarrow> skymeshService \<Rightarrow> AppCall list" where
  "ss_turns 0 s = []"
| "ss_turns (Suc n) s =
     (case ss_Serve_step s of (s, Handled cs ps) \<Rightarrow> cs @ ss_turns n s | (s, BlockedNotify cs) \<Rightarrow> cs)"

lemma ss_turns_2: "ss_turns 2 s = ss_turns (Suc (Suc 0)) s"
  by (simp add: numeral_2_eq_2)

lemma serve_both:
  assumes "mget (as_handleServices ag) h = Some q" "AddrHandle (ss_addr (as_mem ag q)) = h" "ss_msgQueue (as_mem ag q) = []"
    "ss_regNotify (as_mem ag q) = []" "2 \<le> queueCap ag"
    and "as_recvQueue ag = DataMessage src h b # ms" "as_eventQueue ag = RegServiceEvent h result # es"
  shows "\<exists>x y. srv_Serve_event mar env (srv_Serve_recv ag) = Some x \<and> map_option srv_Serve_recv (srv_Serve_event mar env ag) = Some y \<and>
    ss_turns 2 (as_mem x q) = [AppOnMessage h src b, AppOnRegister h result] \<and>
    ss_turns 2 (as_mem y q) = [AppOnRegister h result, AppOnMessage h src b]"
  using assms
  by (simp add: srv_Serve_event_def srv_Serve_recv_def srv_onRecv_def srv_onEvent_def srv_push_def ss_PushMessage_def
      ss_OnRegister_def chan_offer_def queueCap_def ss_turns_2 ss_Serve_step_def ss_Serve_message_def) linarith

text \<open>
  A message can overtake the registration: when an agent has both the answer of the name server for a
  new service and a message for it, its serving goroutine may take either first. Taking the answer first, the
  applications that use their transport in \<open>OnMessage\<close> handle both; taking the message first, each of
  them panics on the transport it does not have yet.
\<close>

theorem early_message_panics:
  assumes "mget (as_handleServices ag) h = Some q" "AddrHandle (ss_addr (as_mem ag q)) = h" "ss_msgQueue (as_mem ag q) = []"
    "ss_regNotify (as_mem ag q) = []" "2 \<le> queueCap ag" "ss_attrs (as_mem ag q) = []"
    and "as_recvQueue ag = DataMessage src h b # ms" "as_eventQueue ag = RegServiceEvent h result # es"
  shows "\<exists>x y cx cy. srv_Serve_event mar env (srv_Serve_recv ag) = Some x \<and>
      map_option srv_Serve_recv (srv_Serve_event mar env ag) = Some y \<and>
      ss_turns 2 (as_mem x q) = cx \<and> ss_turns 2 (as_mem y q) = cy \<and>
      app_turns (gs_call P q) (map TCall cx) (\<lparr>gs_transport = None\<rparr>, x) = None \<and>
      app_turns (rv_call P q) (map TCall cx) (\<lparr>rv_service = None\<rparr>, x) = None \<and>
      (string_of_bytes b = giveUpMessage \<longrightarrow> app_turns (es_call P q) (map TCall cx) (\<lparr>es_service = None\<rparr>, x) = None) \<and>
      app_turns (gs_call P q) (map TCall cy) (\<lparr>gs_transport = None\<rparr>, y) \<noteq> None \<and>
      app_turns (rv_call P q) (map TCall cy) (\<lparr>rv_service = None\<rparr>, y) \<noteq> None \<and>
      app_turns (es_call P q) (map TCall cy) (\<lparr>es_service = None\<rparr>, y) \<noteq> None"
proof -
  let ?cx = "[AppOnMessage h src b, AppOnRegister h result]" and ?cy = "[AppOnRegister h result, AppOnMessage h src b]"
  obtain x y where xy: "srv_Serve_event mar env (srv_Serve_recv ag) = Some x" "map_option srv_Serve_recv (srv_Serve_event mar env ag) = Some y"
    "ss_turns 2 (as_mem x q) = ?cx" "ss_turns 2 (as_mem y q) = ?cy"
    using serve_both [OF assms(1-5,7,8)] by blast
  have "ss_attrs (as_mem y q) = []"
    using xy(2) assms(1,6,7,8)
    by (auto simp: srv_Serve_event_def srv_Serve_recv_def srv_onRecv_def srv_onEvent_def srv_push_def ss_PushMessage_def
        ss_OnRegister_def chan_offer_def queueCap_def split: if_splits)
  then have i: "ints (attrs_of (v, y) q)" for v :: routerServer by (simp add: attrs_of_def ints_def)
  note total = greeter_server.calls_after_register election_server.calls_after_register router_server.calls_after_register [OF i]
  show ?thesis
    by (intro exI [of _ x] exI [of _ y] exI conjI, rule xy(1), rule xy(2), rule xy(3), rule xy(4))
      (simp_all only: total simp_thms, simp_all add: gs_call_def rv_call_def es_call_def)
qed

theorem early_message_panics_witness:
  "\<exists>ag x. as_eventQueue ag = [RegServiceEvent 9 0] \<and> as_recvQueue ag = [DataMessage ex_peer_addr 9 [1]] \<and>
    srv_Serve_event (\<lambda>_. None) ex_env (srv_Serve_recv ag) = Some x \<and>
    app_turns (gs_call (ex_proc (\<lambda>_. None)) 0) (map TCall (ss_turns 2 (as_mem x 0))) (\<lparr>gs_transport = None\<rparr>, x) = None"
proof -
  let ?ag = "(ex_process ex_addr ''svc/1'' ex_peer_addr ''h2'')\<lparr>as_recvQueue := [DataMessage ex_peer_addr 9 [1]],
    as_eventQueue := [RegServiceEvent 9 0]\<rparr>"
  have "mget (as_handleServices ?ag) 9 = Some 0" "AddrHandle (ss_addr (as_mem ?ag 0)) = 9" "ss_msgQueue (as_mem ?ag 0) = []"
    "ss_regNotify (as_mem ?ag 0) = []" "2 \<le> queueCap ?ag" "ss_attrs (as_mem ?ag 0) = []"
    "as_recvQueue ?ag = [DataMessage ex_peer_addr 9 [1]]" "as_eventQueue ?ag = [RegServiceEvent 9 0]"
    by (simp_all add: ex_process_def svc_added_def ex_agent0_def srv_Init_def newService_def Let_def ex_addr_def queueCap_def ex_cfg_def)
  from early_message_panics [OF this, of "\<lambda>_. None" ex_env "ex_proc (\<lambda>_. None)"] obtain x
    where "srv_Serve_event (\<lambda>_. None) ex_env (srv_Serve_recv ?ag) = Some x"
      "app_turns (gs_call (ex_proc (\<lambda>_. None)) 0) (map TCall (ss_turns 2 (as_mem x 0))) (\<lparr>gs_transport = None\<rparr>, x) = None"
    by blast
  then show ?thesis by (intro exI [of _ ?ag] exI [of _ x] conjI) simp_all
qed

text \<open>
  The greeting crosses the mesh and is answered: a tick of the client writes one frame to the agent of the
  server; the server gets the greeting with the address of the client, and its answer is one frame to
  the agent of the client, which hands the client the answer with the address of the server.
\<close>

theorem greeting_answered:
  assumes "codec_ok (pr_mar P) unm" "pr_mar P' = pr_mar P"
    and "pr_mar P (msgService ca (AddrHandle sa) gc_greetMessage) \<noteq> None"
    and "pr_mar P (msgService sa (AddrHandle ca) gs_greetMessage) \<noteq> None"
    and "gc_trans c = Some qc" "ss_addr (as_mem A qc) = ca" "hosts A (AddrHandle ca) qc" "routes (pr_env P) A gc_dstUrl sa addrB"
    and "gs_transport s = Some qs" "ss_addr (as_mem B qs) = sa" "hosts B (AddrHandle sa) qs" "knows (pr_env P') B ca addrA"
  shows "\<exists>A1 f B1 B2 g A2.
    gc_tick P (c, A) = Some (c, A1) \<and> sc_agentOut (as_sidecar A1) = sc_agentOut (as_sidecar A) @ [(addrB, f)] \<and>
    agent_deliver unm now B f qs = Some (B1, [AppOnMessage (AddrHandle sa) ca gc_greetMessage]) \<and>
    gs_call P' qs (AppOnMessage (AddrHandle sa) ca gc_greetMessage) (s, B1) = Some (s, B2) \<and>
    sc_agentOut (as_sidecar B2) = sc_agentOut (as_sidecar B) @ [(addrA, g)] \<and>
    agent_deliver unm now' A1 g qc = Some (A2, [AppOnMessage (AddrHandle ca) sa gs_greetMessage]) \<and>
    gc_call P qc (AppOnMessage (AddrHandle ca) sa gs_greetMessage) (c, A2) = Some (c, A2)"
proof -
  obtain f g where f: "PackSSMsg (pr_mar P) (msgService ca (AddrHandle sa) gc_greetMessage) = Some f"
    and g: "PackSSMsg (pr_mar P) (msgService sa (AddrHandle ca) gs_greetMessage) = Some g"
    using assms(3,4) by (auto simp: PackSSMsg_def msgService_def)
  obtain sc where sc: "srv_sendBySvcUrl (pr_mar P) (pr_env P) A ca gc_dstUrl gc_greetMessage = (A\<lparr>as_sidecar := sc\<rparr>, None)"
    "sc_agentOut sc = sc_agentOut (as_sidecar A) @ [(addrB, f)]" using send_leg [OF assms(8) f] by blast
  let ?A1 = "A\<lparr>as_sidecar := sc\<rparr>"
  let ?B1 = "B\<lparr>as_calls := as_calls B @ [CApp (AppOnMessage (AddrHandle sa) ca gc_greetMessage)]\<rparr>"
  have "knows (pr_env P') ?B1 ca addrA" using assms(12) by (simp add: knows_def)
  from handle_leg [OF this g] obtain sd where sd: "srv_sendByHandle (pr_mar P) (pr_env P') ?B1 sa (AddrHandle ca) gs_greetMessage =
      (?B1\<lparr>as_sidecar := sd\<rparr>, None)" "sc_agentOut sd = sc_agentOut (as_sidecar B) @ [(addrA, g)]" by auto
  have "hosts ?A1 (AddrHandle ca) qc" using assms(7) by (simp add: hosts_def queueCap_def)
  note reply = deliver_exact [OF assms(1) g this, of now']
  have tick: "gc_tick P (c, A) = Some (c, ?A1)" using assms(5,6) sc(1) by (simp add: gc_tick_def ss_SendBySvcUrl_def)
  have answer: "gs_call P' qs (AppOnMessage (AddrHandle sa) ca gc_greetMessage) (s, ?B1) = Some (s, ?B1\<lparr>as_sidecar := sd\<rparr>)"
    using assms(2,9,10) sd(1) by (simp add: gs_call_def ss_SendByHandle_def)
  show ?thesis
    by (intro exI conjI, rule tick, simp add: sc(2), rule deliver_exact [OF assms(1) f assms(11)], rule answer, simp add: sd(2),
        rule reply, simp add: gc_call_def)
qed

definition ex_gs_addr :: Addr where
  "ex_gs_addr = \<lparr>ServiceName = ''testApp.weixin1.greeterServer'', ServiceId = 101, AddrHandle = 21\<rparr>"

definition ex_gc_addr :: Addr where
  "ex_gc_addr = \<lparr>ServiceName = ''testApp.weixin1.greeterClient'', ServiceId = 101, AddrHandle = 20\<rparr>"

lemma ex_greeter_urls: "SkymeshAddr2Url ex_gs_addr False = gc_dstUrl" "SkymeshAddr2Url ex_gc_addr False = gc_svcUrl"
proof -
  have "dec 101 = ''101''" by code_simp
  then show "SkymeshAddr2Url ex_gs_addr False = gc_dstUrl" "SkymeshAddr2Url ex_gc_addr False = gc_svcUrl"
    by (simp_all add: SkymeshAddr2Url_def ex_gs_addr_def ex_gc_addr_def gc_dstUrl_def gc_svcUrl_def apps_appID_def)
qed

lemma ex_greeters:
  "routes ex_env (ex_process ex_gc_addr gc_svcUrl ex_gs_addr ''h2'') gc_dstUrl ex_gs_addr ''h2''"
  "hosts (ex_process ex_gc_addr gc_svcUrl ex_gs_addr ''h2'') (AddrHandle ex_gc_addr) 0"
  "ss_addr (as_mem (ex_process ex_gc_addr gc_svcUrl ex_gs_addr ''h2'') 0) = ex_gc_addr"
  "knows ex_env (ex_process ex_gs_addr gs_svcUrl ex_gc_addr ''h1'') ex_gc_addr ''h1''"
  "hosts (ex_process ex_gs_addr gs_svcUrl ex_gc_addr ''h1'') (AddrHandle ex_gs_addr) 0"
  "ss_addr (as_mem (ex_process ex_gs_addr gs_svcUrl ex_gc_addr ''h1'') 0) = ex_gs_addr"
proof -
  have h: "AddrHandle ex_gc_addr \<noteq> AddrHandle ex_gs_addr" by (simp add: ex_gc_addr_def ex_gs_addr_def)
  have u: "gc_svcUrl \<noteq> gc_dstUrl" "gs_svcUrl \<noteq> gc_svcUrl" by (simp_all add: gc_svcUrl_def gc_dstUrl_def gs_svcUrl_def)
  note c = ex_process_facts [OF h, of gc_svcUrl, unfolded ex_greeter_urls, OF u(1), of "''h2''"]
  note s = ex_process_facts [OF h [symmetric], of gs_svcUrl, unfolded ex_greeter_urls, OF u(2), of "''h1''"]
  show "routes ex_env (ex_process ex_gc_addr gc_svcUrl ex_gs_addr ''h2'') gc_dstUrl ex_gs_addr ''h2''"
    "hosts (ex_process ex_gc_addr gc_svcUrl ex_gs_addr ''h2'') (AddrHandle ex_gc_addr) 0"
    "ss_addr (as_mem (ex_process ex_gc_addr gc_svcUrl ex_gs_addr ''h2'') 0) = ex_gc_addr"
    "knows ex_env (ex_process ex_gs_addr gs_svcUrl ex_gc_addr ''h1'') ex_gc_addr ''h1''"
    "hosts (ex_process ex_gs_addr gs_svcUrl ex_gc_addr ''h1'') (AddrHandle ex_gs_addr) 0"
    "ss_addr (as_mem (ex_process ex_gs_addr gs_svcUrl ex_gc_addr ''h1'') 0) = ex_gs_addr"
    by (rule c s)+
qed

theorem greeting_answered_witness:
  "\<exists>mar A f A1. gc_tick (ex_proc mar) (\<lparr>gc_trans = Some 0\<rparr>, A) = Some (\<lparr>gc_trans = Some 0\<rparr>, A1) \<and>
     sc_agentOut (as_sidecar A1) = sc_agentOut (as_sidecar A) @ [(''h2'', f)]"
proof -
  let ?A = "ex_process ex_gc_addr gc_svcUrl ex_gs_addr ''h2''" and ?B = "ex_process ex_gs_addr gs_svcUrl ex_gc_addr ''h1''"
  let ?ms = "[msgService ex_gc_addr (AddrHandle ex_gs_addr) gc_greetMessage, msgService ex_gs_addr (AddrHandle ex_gc_addr) gs_greetMessage]"
  let ?P = "ex_proc (tab_mar ?ms)"
  have codec: "codec_ok (pr_mar ?P) (tab_unm ?ms)" unfolding ex_proc_def Process.select_convs by (rule tab_codec_ok) (simp add: msgService_def ex_gc_addr_def ex_gs_addr_def)
  have mem: "pr_mar ?P (msgService ex_gc_addr (AddrHandle ex_gs_addr) gc_greetMessage) \<noteq> None"
    "pr_mar ?P (msgService ex_gs_addr (AddrHandle ex_gc_addr) gs_greetMessage) \<noteq> None"
    unfolding ex_proc_def Process.select_convs by (rule tab_mar_mem, simp)+
  have env: "pr_env ?P = ex_env" by (simp add: ex_proc_def)
  from greeting_answered [OF codec refl mem, of "\<lparr>gc_trans = Some 0\<rparr>" 0 ?A "''h2''" "\<lparr>gs_transport = Some 0\<rparr>" 0 ?B "''h1''" 0 0]
    ex_greeters env
  show ?thesis by (auto intro!: exI [of _ "tab_mar ?ms"] exI [of _ ?A])
qed

text \<open>The calls on the candidate object of a process, number 0, among those an agent makes.\<close>

fun on_candidate :: "'v ElectionCall \<Rightarrow> bool" where
  "on_candidate (OnRegisterLeader c svc result) = (c = 0)"
| "on_candidate (OnUnRegisterLeader c) = (c = 0)"
| "on_candidate (OnLeaderChange w leader event) = False"

fun el_calls :: "u64 ElectionCall list \<Rightarrow> electionListener \<Rightarrow> electionListener option" where
  "el_calls [] l = Some l"
| "el_calls (c # cs) l = (if on_candidate c then do { l \<leftarrow> el_call c l; el_calls cs l } else el_calls cs l)"

lemma el_calls_append [simp]: "el_calls (xs @ ys) l = do { l \<leftarrow> el_calls xs l; el_calls ys l }"
  by (induction xs arbitrary: l) (auto split: Option.bind_split)

lemma el_calls_changes [simp]: "el_calls (map (\<lambda>w. OnLeaderChange w a e) ws) l = Some l"
  by (induction ws) auto

text \<open>The object is the candidate of handle \<open>h\<close> alone, and knows its service when the agent sees it lead.\<close>

definition el_inv :: "u64 \<Rightarrow> skymeshElection \<Rightarrow> electionListener \<Rightarrow> bool" where
  "el_inv h se l \<longleftrightarrow> (\<forall>k. mget (se_candidates se) k = Some 0 \<longrightarrow> k = h) \<and>
     (leader_of_view se = Some h \<and> mget (se_candidates se) h = Some 0 \<longrightarrow> el_service l \<noteq> None)"

lemma el_told:
  assumes "\<forall>k. mget cs k = Some 0 \<longrightarrow> k = h" "gs h = Some v"
  shows "\<exists>l'. el_calls (case mget cs a of None \<Rightarrow> [] | Some c \<Rightarrow> [OnRegisterLeader c (gs a) r]) l = Some l' \<and>
    (el_service l \<noteq> None \<longrightarrow> el_service l' \<noteq> None) \<and> (a = h \<and> mget cs h = Some 0 \<longrightarrow> el_service l' \<noteq> None)"
proof (cases "mget cs a = Some 0")
  case True
  then have "a = h" using assms(1) by blast
  then show ?thesis using True assms(2) by (simp add: el_call_def)
next
  case False
  then show ?thesis by (cases "mget cs a") auto
qed

lemma el_resigned:
  assumes "mget cs a = Some 0 \<longrightarrow> el_service l \<noteq> None"
  shows "el_calls (case mget cs a of None \<Rightarrow> [] | Some c \<Rightarrow> [OnUnRegisterLeader c]) l = Some l"
  using assms by (cases "mget cs a") (auto simp: el_call_def)

lemma el_runfor:
  assumes "el_inv h se l" "gs h = Some v"
  shows "\<exists>l'. el_calls (snd (se_onRunForElectionResultNotify gs se a r)) l = Some l' \<and>
    el_inv h (fst (se_onRunForElectionResultNotify gs se a r)) l'"
proof -
  have only: "\<forall>k. mget (se_candidates se) k = Some 0 \<longrightarrow> k = h" using assms(1) by (simp add: el_inv_def)
  obtain l' where l': "el_calls (case mget (se_candidates se) (AddrHandle a) of None \<Rightarrow> [] | Some c \<Rightarrow> [OnRegisterLeader c (gs (AddrHandle a)) r]) l = Some l'"
    "el_service l \<noteq> None \<longrightarrow> el_service l' \<noteq> None" "AddrHandle a = h \<and> mget (se_candidates se) h = Some 0 \<longrightarrow> el_service l' \<noteq> None"
    using el_told [where gs = gs and l = l and r = r and a = "AddrHandle a", OF only assms(2)] by blast
  show ?thesis
  proof (cases "r = KElectionResultOK")
    case False
    then show ?thesis using l' assms(1) by (auto simp: se_onRunForElectionResultNotify_def el_inv_def)
  next
    case True
    note l' = l' [unfolded True]
    show ?thesis
    proof (cases "se_leader se")
      case None
      with l' show ?thesis using True only by (intro exI [of _ l']) (simp add: se_onRunForElectionResultNotify_def Let_def el_inv_def leader_of_view_def del: KElectionResultOK_def)
    next
      case (Some old)
      show ?thesis
      proof (cases "AddrHandle old = AddrHandle a")
        case same: True
        then show ?thesis using True Some assms(1) by (simp add: se_onRunForElectionResultNotify_def Let_def el_inv_def leader_of_view_def del: KElectionResultOK_def)
      next
        case False
        have "mget (se_candidates se) (AddrHandle old) = Some 0 \<longrightarrow> el_service l \<noteq> None"
          using only Some assms(1) by (auto simp: el_inv_def leader_of_view_def)
        note r = el_resigned [OF this]
        with l' show ?thesis using True Some False only
          by (intro exI [of _ l'])
            (simp add: se_onRunForElectionResultNotify_def Let_def el_inv_def leader_of_view_def del: KElectionResultOK_def, blast)
      qed
    qed
  qed
qed

lemma el_giveup:
  assumes "el_inv h se l"
  shows "el_calls (snd (se_onGiveUpElectionResultNotify se a r)) l = Some l \<and>
    el_inv h (fst (se_onGiveUpElectionResultNotify se a r)) l"
proof (cases "r = KElectionResultOK \<and> leader_of_view se = Some (AddrHandle a)")
  case True
  then obtain old where old: "se_leader se = Some old" "AddrHandle old = AddrHandle a" by (auto simp: leader_of_view_def)
  have "mget (se_candidates se) (AddrHandle a) = Some 0 \<longrightarrow> el_service l \<noteq> None"
    using True assms by (auto simp: el_inv_def)
  note r = el_resigned [OF this]
  then show ?thesis using True old assms
    by (simp add: se_onGiveUpElectionResultNotify_def Let_def el_inv_def leader_of_view_def)
next
  case False
  then show ?thesis using assms
    by (auto simp: se_onGiveUpElectionResultNotify_def Let_def el_inv_def leader_of_view_def split: option.split)
qed

lemma el_event:
  assumes "el_inv h se l" "gs h = Some v"
  shows "\<exists>l'. el_calls (snd (se_onElectionEvent gs se n)) l = Some l' \<and> el_inv h (fst (se_onElectionEvent gs se n)) l'"
proof (cases n)
  case (fields c e r)
  show ?thesis
    unfolding fields se_onElectionEvent_def prod.case
    using el_runfor [where gs = gs and a = c and r = r, OF assms] el_giveup [where a = c and r = r, OF assms(1)] assms(1)
    by auto
qed

lemma se_events_snd: "snd (se_events gs se (n # ns)) =
    snd (se_onElectionEvent gs se n) @ snd (se_events gs (fst (se_onElectionEvent gs se n)) ns)"
  by (simp add: split_def Let_def)

lemma el_events:
  "el_inv h se l \<Longrightarrow> gs h = Some v \<Longrightarrow> el_calls (snd (se_events gs se ns)) l \<noteq> None"
proof (induction ns arbitrary: se l)
  case (Cons n ns)
  obtain l' where l': "el_calls (snd (se_onElectionEvent gs se n)) l = Some l'" "el_inv h (fst (se_onElectionEvent gs se n)) l'"
    using el_event [of h se l gs v n] Cons.prems by blast
  from Cons.IH [OF l'(2) Cons.prems(2)] l'(1) show ?case unfolding se_events_snd by simp
qed simp

text \<open>
  C23: The candidate of the election servers handles every sequence of notifications without a panic exactly
  when its service is registered and the agent did not take it for the leader when it ran: with a view left
  from before, its election is not told, and its resignation finds no service; without the service,
  its election is told with none.
\<close>

theorem election_listener_safe_iff:
  assumes "mget (se_candidates se) h = Some 0" "\<forall>k. mget (se_candidates se) k = Some 0 \<longrightarrow> k = h"
  shows "(\<forall>ns. el_calls (snd (se_events gs se ns)) \<lparr>el_service = None\<rparr> \<noteq> None) \<longleftrightarrow>
    gs h \<noteq> None \<and> leader_of_view se \<noteq> Some h"
proof (intro iffI conjI allI)
  fix ns
  assume ok: "gs h \<noteq> None \<and> leader_of_view se \<noteq> Some h"
  then have "el_inv h se \<lparr>el_service = None\<rparr>" using assms(2) by (simp add: el_inv_def)
  then show "el_calls (snd (se_events gs se ns)) \<lparr>el_service = None\<rparr> \<noteq> None" using el_events ok by blast
next
  assume all: "\<forall>ns. el_calls (snd (se_events gs se ns)) \<lparr>el_service = None\<rparr> \<noteq> None"
  let ?a = "\<lparr>ServiceName = [], ServiceId = 0, AddrHandle = h\<rparr>"
  show lead: "leader_of_view se \<noteq> Some h"
  proof
    assume h: "leader_of_view se = Some h"
    have e: "se_onElectionEvent gs se (?a, KElectionRunForLeader, KElectionResultOK) = (se\<lparr>se_leader := Some ?a\<rparr>, [])"
      using h by (auto simp: se_onElectionEvent_def se_onRunForElectionResultNotify_def leader_of_view_def Let_def)
    have f: "snd (se_onElectionEvent gs (se\<lparr>se_leader := Some ?a\<rparr>) (?a, KElectionGiveUpLeader, KElectionResultOK)) =
        OnUnRegisterLeader 0 # map (\<lambda>w. OnLeaderChange w ?a KLostElectionLeader) (mvals (se_watchers se))"
      using assms(1) by (simp add: se_onElectionEvent_def se_onGiveUpElectionResultNotify_def Let_def)
    have "el_calls (snd (se_events gs se [(?a, KElectionRunForLeader, KElectionResultOK), (?a, KElectionGiveUpLeader, KElectionResultOK)]))
        \<lparr>el_service = None\<rparr> = None"
      unfolding se_events_snd e fst_conv snd_conv f by (simp add: el_call_def)
    with all show False by blast
  qed
  show "gs h \<noteq> None"
  proof
    assume none: "gs h = None"
    have "\<exists>xs ys. snd (se_onElectionEvent gs se (?a, KElectionRunForLeader, KElectionResultOK)) = xs @ OnRegisterLeader 0 None KElectionResultOK # ys \<and>
        (\<forall>c \<in> set xs. \<not> on_candidate c)"
    proof (cases "se_leader se")
      case None
      then show ?thesis using none assms(1)
        by (intro exI [of _ "[]"] exI [of _ "map (\<lambda>w. OnLeaderChange w ?a KGotElectionLeader) (mvals (se_watchers se))"])
          (simp add: se_onElectionEvent_def se_onRunForElectionResultNotify_def Let_def)
    next
      case (Some old)
      have "AddrHandle old \<noteq> h" using lead Some by (simp add: leader_of_view_def)
      moreover from this have "mget (se_candidates se) (AddrHandle old) \<noteq> Some 0" using assms(2) by blast
      ultimately show ?thesis using none assms(1) Some
        by (intro exI [of _ "(case mget (se_candidates se) (AddrHandle old) of None \<Rightarrow> [] | Some c \<Rightarrow> [OnUnRegisterLeader c])
              @ map (\<lambda>w. OnLeaderChange w old KLostElectionLeader) (mvals (se_watchers se))"]
              exI [of _ "map (\<lambda>w. OnLeaderChange w ?a KGotElectionLeader) (mvals (se_watchers se))"])
           (auto simp: se_onElectionEvent_def se_onRunForElectionResultNotify_def Let_def split: option.split)
    qed
    then obtain xs ys where xs: "snd (se_onElectionEvent gs se (?a, KElectionRunForLeader, KElectionResultOK)) =
        xs @ OnRegisterLeader 0 None KElectionResultOK # ys" "\<forall>c \<in> set xs. \<not> on_candidate c" by blast
    from xs(2) have "el_calls xs l = Some l" for l by (induction xs) auto
    then have "el_calls (snd (se_events gs se [(?a, KElectionRunForLeader, KElectionResultOK)])) \<lparr>el_service = None\<rparr> = None"
      unfolding se_events_snd xs(1) by (simp add: el_call_def)
    with all show False by blast
  qed
qed

theorem election_listener_safe_iff_witness:
  "(\<forall>ns. el_calls (snd (se_events (\<lambda>_. Some 9) (fst (se_runForElection (newElection ''s'') ex_addr 0)) ns)) \<lparr>el_service = None\<rparr> \<noteq> None) \<and>
   \<not> (\<forall>ns. el_calls (snd (se_events (\<lambda>_. Some 9) ((fst (se_runForElection (newElection ''s'') ex_addr 0))\<lparr>se_leader := Some ex_addr\<rparr>) ns))
        \<lparr>el_service = None\<rparr> \<noteq> None)"
proof -
  let ?e = "fst (se_runForElection (newElection ''s'') ex_addr 0)"
  have c: "mget (se_candidates ?e) 9 = Some 0" "\<forall>k. mget (se_candidates ?e) k = Some 0 \<longrightarrow> k = 9"
    by (simp_all add: se_runForElection_def newElection_def ex_addr_def)
  have d: "mget (se_candidates (?e\<lparr>se_leader := Some ex_addr\<rparr>)) 9 = Some 0"
    "\<forall>k. mget (se_candidates (?e\<lparr>se_leader := Some ex_addr\<rparr>)) k = Some 0 \<longrightarrow> k = 9"
    by (simp_all add: se_runForElection_def newElection_def ex_addr_def)
  have l: "leader_of_view ?e = None" "leader_of_view (?e\<lparr>se_leader := Some ex_addr\<rparr>) = Some 9"
    by (simp_all add: leader_of_view_def se_runForElection_def newElection_def ex_addr_def)
  show ?thesis
    unfolding election_listener_safe_iff [OF c, of "\<lambda>_. Some 9"] election_listener_safe_iff [OF d, of "\<lambda>_. Some 9"] l by simp
qed

text \<open>
  C21: The election example passes the leadership on: when its client is told of a leader, it writes one
  frame for that instance; the leader's process hands the message to the server, which resigns with
  one frame to the name server; there the frame is offered to the queue of messages as the resignation
  of the leader.
\<close>

theorem leader_made_to_resign:
  assumes "codec_ok (pr_mar P) unm" "pr_mar P' = pr_mar P"
    and "pr_mar P (msgService ca (AddrHandle leader) (bytes_of_string giveUpMessage)) \<noteq> None"
    and "pr_mar P (SSMsg NOTIFY_NAMESERVER_ELECTION (Some (NotifyNameserverElection (AddrHandle leader) KElectionGiveUpLeader))) \<noteq> None"
    and "ss_addr (as_mem A qc) = ca" "routes (pr_env P) A (MakeSkymeshUrl ec_watchSvcName (ServiceId leader)) leader addrB"
    and "ServiceId leader \<noteq> INVALID_ROUTER_ID"
    and "es_service s = Some qs" "ss_addr (as_mem B qs) = leader" "hosts B (AddrHandle leader) qs" "ne_nsErr (pr_env P') = None"
    and "mget (se_candidates (electionOf B (ServiceName leader))) (AddrHandle leader) \<noteq> None"
  shows "\<exists>f B1 B2 g. sc_agentOut (as_sidecar (ec_changes P qc [OnLeaderChange w leader KGotElectionLeader] A)) =
      sc_agentOut (as_sidecar A) @ [(addrB, f)] \<and>
    agent_deliver unm now B f qs = Some (B1, [AppOnMessage (AddrHandle leader) ca (bytes_of_string giveUpMessage)]) \<and>
    es_call P' qs (AppOnMessage (AddrHandle leader) ca (bytes_of_string giveUpMessage)) (s, B1) = Some (s, B2) \<and>
    sc_nsOut (as_sidecar B2) = sc_nsOut (as_sidecar B) @ [g] \<and>
    (\<forall>ns c. NsReceiver_OnMessage unm ns c g = Some (NsRecv.deliver ns (ServiceElection (AddrHandle leader) KElectionGiveUpLeader), length g, False))"
proof -
  let ?b = "bytes_of_string giveUpMessage"
  let ?m = "SSMsg NOTIFY_NAMESERVER_ELECTION (Some (NotifyNameserverElection (AddrHandle leader) KElectionGiveUpLeader))"
  obtain f g where f: "PackSSMsg (pr_mar P) (msgService ca (AddrHandle leader) ?b) = Some f" and g: "PackSSMsg (pr_mar P) ?m = Some g"
    using assms(3,4) by (auto simp: PackSSMsg_def msgService_def)
  obtain sc where sc: "srv_sendBySvcUrl (pr_mar P) (pr_env P) A ca (MakeSkymeshUrl ec_watchSvcName (ServiceId leader)) ?b = (A\<lparr>as_sidecar := sc\<rparr>, None)"
    "sc_agentOut sc = sc_agentOut (as_sidecar A) @ [(addrB, f)]" using send_leg [OF assms(6) f] by blast
  have asked: "ec_changes P qc [OnLeaderChange w leader KGotElectionLeader] A = A\<lparr>as_sidecar := sc\<rparr>"
    using sc(1) assms(5,7) by (simp add: ec_OnLeaderChange_def ss_SendBySvcNameAndInstID_def)
  let ?B1 = "B\<lparr>as_calls := as_calls B @ [CApp (AppOnMessage (AddrHandle leader) ca ?b)]\<rparr>"
  let ?B2 = "(srv_getNameElection ?B1 (ServiceName leader))\<lparr>as_sidecar := (as_sidecar B)\<lparr>sc_nsOut := sc_nsOut (as_sidecar B) @ [g]\<rparr>\<rparr>"
  have resigns: "es_call P' qs (AppOnMessage (AddrHandle leader) ca ?b) (s, ?B1) = Some (s, ?B2)"
    using assms(2,8,9,11,12) g
    by (simp add: es_call_def ss_GiveUpElection_def srv_giveUpElection_def se_giveUpElection_def electionOf_def srv_getNameElection_def
        Let_def with_sidecar_def sc_SyncNameServerElection_def nsSendMsg_def nsSend_def)
  have queued: "NsReceiver_OnMessage unm ns c g = Some (NsRecv.deliver ns (ServiceElection (AddrHandle leader) KElectionGiveUpLeader), length g, False)" for ns c
    using OnMessage_frame_first(1) [OF assms(1) g, of ns c "[]"] by (simp add: NsReceiver_dispatch_def)
  show ?thesis
    by (intro exI conjI allI, simp add: asked sc(2) del: ec_changes.simps, rule deliver_exact [OF assms(1) f assms(10)], rule resigns, simp, rule queued)
qed

definition ex_leader :: Addr where
  "ex_leader = \<lparr>ServiceName = ''testApp.weixin1.Server'', ServiceId = 101, AddrHandle = 21\<rparr>"

definition ex_watcher :: Addr where
  "ex_watcher = \<lparr>ServiceName = ''testApp.weixin1.Client'', ServiceId = 101, AddrHandle = 20\<rparr>"

lemma ex_election_urls: "SkymeshAddr2Url ex_leader False = MakeSkymeshUrl ec_watchSvcName (ServiceId ex_leader)"
  "SkymeshAddr2Url ex_watcher False = ec_svcUrl" "es_svcUrl 101 \<noteq> ec_svcUrl" "ec_svcUrl \<noteq> MakeSkymeshUrl ec_watchSvcName (ServiceId ex_leader)"
proof -
  have d: "dec 101 = ''101''" by code_simp
  show "SkymeshAddr2Url ex_leader False = MakeSkymeshUrl ec_watchSvcName (ServiceId ex_leader)"
    "SkymeshAddr2Url ex_watcher False = ec_svcUrl" "es_svcUrl 101 \<noteq> ec_svcUrl" "ec_svcUrl \<noteq> MakeSkymeshUrl ec_watchSvcName (ServiceId ex_leader)"
    by (simp_all add: SkymeshAddr2Url_def MakeSkymeshUrl_def ex_leader_def ex_watcher_def ec_svcUrl_def ec_watchSvcName_def es_svcUrl_def
        apps_appID_def d)
qed

theorem leader_made_to_resign_witness:
  "\<exists>mar A B f s B2 g. sc_agentOut (as_sidecar (ec_changes (ex_proc mar) 0 [OnLeaderChange 0 ex_leader KGotElectionLeader] A)) =
       sc_agentOut (as_sidecar A) @ [(''h2'', f)] \<and>
     es_call (ex_proc mar) 0 (AppOnMessage (AddrHandle ex_leader) ex_watcher (bytes_of_string giveUpMessage)) (s, B) = Some (s, B2) \<and>
     sc_nsOut (as_sidecar B2) = [g]"
proof -
  let ?A = "ex_process ex_watcher ec_svcUrl ex_leader ''h2''"
  let ?B = "(ex_process ex_leader (es_svcUrl 101) ex_watcher ''h1'')\<lparr>as_nameElections :=
    [(ServiceName ex_leader, (newElection (ServiceName ex_leader))\<lparr>se_candidates := [(21, 0)]\<rparr>)]\<rparr>"
  let ?ms = "[msgService ex_watcher (AddrHandle ex_leader) (bytes_of_string giveUpMessage),
    SSMsg NOTIFY_NAMESERVER_ELECTION (Some (NotifyNameserverElection (AddrHandle ex_leader) KElectionGiveUpLeader))]"
  let ?P = "ex_proc (tab_mar ?ms)"
  have codec: "codec_ok (pr_mar ?P) (tab_unm ?ms)" unfolding ex_proc_def Process.select_convs by (rule tab_codec_ok) (simp add: msgService_def)
  have mem: "pr_mar ?P (msgService ex_watcher (AddrHandle ex_leader) (bytes_of_string giveUpMessage)) \<noteq> None"
    "pr_mar ?P (SSMsg NOTIFY_NAMESERVER_ELECTION (Some (NotifyNameserverElection (AddrHandle ex_leader) KElectionGiveUpLeader))) \<noteq> None"
    unfolding ex_proc_def Process.select_convs by (rule tab_mar_mem, simp)+
  have env: "pr_env ?P = ex_env" "ne_nsErr (pr_env ?P) = None" by (simp_all add: ex_proc_def ex_env_def)
  have h: "AddrHandle ex_watcher \<noteq> AddrHandle ex_leader" by (simp add: ex_watcher_def ex_leader_def)
  note a = ex_process_facts [OF h, of ec_svcUrl, unfolded ex_election_urls, OF ex_election_urls(4), of "''h2''"]
  note b = ex_process_facts [OF h [symmetric], of "es_svcUrl 101", unfolded ex_election_urls, OF ex_election_urls(3), of "''h1''"]
  have hosts: "hosts ?B (AddrHandle ex_leader) 0" "ss_addr (as_mem ?B 0) = ex_leader"
    using b(3,4) by (simp_all add: hosts_def queueCap_def)
  have rest: "ServiceId ex_leader \<noteq> INVALID_ROUTER_ID" "ne_nsErr ex_env = None" "sc_nsOut (as_sidecar ?B) = []"
    "mget (se_candidates (electionOf ?B (ServiceName ex_leader))) (AddrHandle ex_leader) \<noteq> None"
    by (simp_all add: ex_leader_def ex_env_def electionOf_def ex_process_def svc_added_def ex_agent0_def srv_Init_def sc_Init_def
        sc_notifyServiceOnline_def newRemoteService_def Let_def)
  obtain f B1 B2 g where w: "sc_agentOut (as_sidecar (ec_changes ?P 0 [OnLeaderChange 0 ex_leader KGotElectionLeader] ?A)) =
      sc_agentOut (as_sidecar ?A) @ [(''h2'', f)]"
    "es_call ?P 0 (AppOnMessage (AddrHandle ex_leader) ex_watcher (bytes_of_string giveUpMessage)) (\<lparr>es_service = Some 0\<rparr>, B1) = Some (\<lparr>es_service = Some 0\<rparr>, B2)"
    "sc_nsOut (as_sidecar B2) = sc_nsOut (as_sidecar ?B) @ [g]"
    using leader_made_to_resign [OF codec refl mem a(4) a(1) [folded env(1)] rest(1) electionServer.select_convs(1) hosts(2,1) env(2) rest(4)]
    by blast
  show ?thesis using w rest(3) by (intro exI conjI) (rule w(1), rule w(2), simp)
qed

end
