(* ===== verification/SmRpc.thy ===== *)
theory SmRpc
  imports Binary
begin

text \<open>
  \<^verbatim>\<open>src/extension/inner_service/proto.go\<close> and \<^verbatim>\<open>error.go\<close>: the head of an RPC message. The
  method name is a fixed array of 32 bytes of which the first \<open>methodLen\<close> count; the head on the
  wire has only these, so its length varies.
\<close>

datatype RpcErr =
    RPC_SESSION_REPEAT_ERR | RPC_SESSION_NOEXIST_ERR | RPC_TIMEOUT_ERR | RPC_WAKEUP_ERR
  | RPC_METHOD_LEN_OVER_ERR | RPC_RETVALUE_NUM_ERR | RPC_RETVALUE_TYPE_ERR
  | PACK_BUFFER_SHORT_ERR | UNPACK_BUFFER_SHORT_ERR

definition RPC_METHOD_MAX_LEN :: nat where [simp]: "RPC_METHOD_MAX_LEN = 32"
definition PACK_BUFFER_LEN :: nat where [simp]: "PACK_BUFFER_LEN = 4096"
definition kMsgTypeReq :: u8 where [simp]: "kMsgTypeReq = 1"
definition kMsgTypeRsp :: u8 where [simp]: "kMsgTypeRsp = 2"

record SMRpcHead =
  rh_msgType :: u8
  rh_methodLen :: u8
  rh_method :: bytes
  rh_seq :: u64
  rh_timeUS :: u64
  rh_version :: u8

text \<open>The zero value of the structure; \<open>Init\<close> does nothing.\<close>

definition SMRpcHead_Init :: SMRpcHead where
  "SMRpcHead_Init = \<lparr>rh_msgType = 0, rh_methodLen = 0, rh_method = replicate RPC_METHOD_MAX_LEN 0,
     rh_seq = 0, rh_timeUS = 0, rh_version = 0\<rparr>"

text \<open>The sum of the sizes of the fields, without padding.\<close>

definition SMRpcHead_Size :: nat where
  "SMRpcHead_Size = sum_list [1, 1, RPC_METHOD_MAX_LEN, 8, 8, 1]"

definition array_slice :: "'a list \<Rightarrow> nat \<Rightarrow> 'a list option" where
  "array_slice a n = (if n \<le> length a then Some (take n a) else None)"

definition SMRpcHead_Pack :: "SMRpcHead \<Rightarrow> bytes \<Rightarrow> (bytes \<times> RpcErr option \<times> nat) option" where
  "SMRpcHead_Pack h b =
     (if length b < SMRpcHead_Size then Some (b, Some PACK_BUFFER_SHORT_ERR, 0)
      else do {
        let pos = 0;
        let b = copy_at pos [rh_msgType h] b;
        let pos = pos + 1;
        let b = copy_at pos [rh_methodLen h] b;
        let pos = pos + 1;
        m \<leftarrow> array_slice (rh_method h) (unat (rh_methodLen h));
        let b = copy_at pos m b;
        let pos = pos + unat (rh_methodLen h);
        b \<leftarrow> le_PutUint64 pos (rh_seq h) b;
        let pos = pos + 8;
        b \<leftarrow> le_PutUint64 pos (rh_timeUS h) b;
        let pos = pos + 8;
        let b = copy_at pos [rh_version h] b;
        let pos = pos + 1;
        Some (b, None, pos) })"

definition SMRpcHead_Unpack :: "SMRpcHead \<Rightarrow> bytes \<Rightarrow> SMRpcHead \<times> RpcErr option \<times> nat" where
  "SMRpcHead_Unpack h b =
     (let pos = 0; nextPos = pos + 1 in
      if length b < nextPos then (h, Some UNPACK_BUFFER_SHORT_ERR, pos) else
      let h = h\<lparr>rh_msgType := b ! pos\<rparr>; pos = nextPos; nextPos = pos + 1 in
      if length b < nextPos then (h, Some UNPACK_BUFFER_SHORT_ERR, pos) else
      let h = h\<lparr>rh_methodLen := b ! pos\<rparr>; pos = nextPos; nextPos = pos + unat (rh_methodLen h) in
      if length b < nextPos then (h, Some UNPACK_BUFFER_SHORT_ERR, pos) else
      let h = h\<lparr>rh_method := copy_at 0 (drop pos (take nextPos b)) (rh_method h)\<rparr>; pos = nextPos; nextPos = pos + 8 in
      if length b < nextPos then (h, Some UNPACK_BUFFER_SHORT_ERR, pos) else
      let h = h\<lparr>rh_seq := le_Uint64 pos b\<rparr>; pos = nextPos; nextPos = pos + 8 in
      if length b < nextPos then (h, Some UNPACK_BUFFER_SHORT_ERR, pos) else
      let h = h\<lparr>rh_timeUS := le_Uint64 pos b\<rparr>; pos = nextPos; nextPos = pos + 1 in
      if length b < nextPos then (h, Some UNPACK_BUFFER_SHORT_ERR, pos) else
      let h = h\<lparr>rh_version := b ! pos\<rparr>; pos = nextPos in
      (h, None, pos))"

section \<open>The bytes of a head\<close>

definition head_ok :: "SMRpcHead \<Rightarrow> bool" where
  "head_ok h \<longleftrightarrow> length (rh_method h) = RPC_METHOD_MAX_LEN \<and> unat (rh_methodLen h) \<le> RPC_METHOD_MAX_LEN"

definition head_bytes :: "SMRpcHead \<Rightarrow> bytes" where
  "head_bytes h = [rh_msgType h, rh_methodLen h] @ take (unat (rh_methodLen h)) (rh_method h) @
     le_Put 8 (rh_seq h) @ le_Put 8 (rh_timeUS h) @ [rh_version h]"

lemma head_bytes_length: "head_ok h \<Longrightarrow> length (head_bytes h) = 19 + unat (rh_methodLen h)"
  by (simp add: head_ok_def head_bytes_def)

lemma SMRpcHead_Size_eq [simp]: "SMRpcHead_Size = 51"
  by (simp add: SMRpcHead_Size_def)

lemma copy_at_snoc:
  assumes "length s1 + length s2 \<le> length b" "n = length s1"
  shows "copy_at n s2 (copy_at 0 s1 b) = copy_at 0 (s1 @ s2) b"
  using copy_at_copy_at [of 0 s1 s2 b] assms by simp

lemma SMRpcHead_Pack_ok:
  assumes "head_ok h" "SMRpcHead_Size \<le> length b"
  shows "SMRpcHead_Pack h b = Some (copy_at 0 (head_bytes h) b, None, length (head_bytes h))"
proof -
  let ?n = "unat (rh_methodLen h)"
  let ?m = "take ?n (rh_method h)"
  have n: "?n \<le> 32" "length ?m = ?n" using assms(1) by (auto simp: head_ok_def)
  have l: "51 \<le> length b" using assms(2) by simp
  have s: "copy_at (Suc 0) [rh_methodLen h] (copy_at 0 [rh_msgType h] b) = copy_at 0 [rh_msgType h, rh_methodLen h] b"
    "copy_at (Suc (Suc 0)) ?m (copy_at 0 [rh_msgType h, rh_methodLen h] b) = copy_at 0 ([rh_msgType h, rh_methodLen h] @ ?m) b"
    using n l by (subst copy_at_snoc, simp_all)+
  have p: "le_PutUint64 k v (copy_at 0 s1 b) = Some (copy_at 0 (s1 @ le_Put 8 v) b)" if "k = length s1" "k + 8 \<le> 51" for k v s1
    using that l by (simp add: le_PutUint64_copy copy_at_snoc)
  have e: "copy_at k [x] (copy_at 0 s1 b) = copy_at 0 (s1 @ [x]) b" if "k = length s1" "k + 1 \<le> 51" for k x s1
    using that l by (simp add: copy_at_snoc)
  show ?thesis using assms n
    by (simp add: SMRpcHead_Pack_def Let_def s array_slice_def p e head_bytes_def head_ok_def)
qed

lemma SMRpcHead_Unpack_bytes:
  assumes "head_ok h" "length (rh_method h0) = RPC_METHOD_MAX_LEN"
  shows "SMRpcHead_Unpack h0 (head_bytes h @ body) =
    (h\<lparr>rh_method := copy_at 0 (take (unat (rh_methodLen h)) (rh_method h)) (rh_method h0)\<rparr>, None, length (head_bytes h))"
proof -
  let ?n = "unat (rh_methodLen h)"
  have n: "?n \<le> 32" "length (take ?n (rh_method h)) = ?n" using assms(1) by (auto simp: head_ok_def)
  let ?b = "head_bytes h @ body"
  have b: "?b ! 0 = rh_msgType h" "?b ! Suc 0 = rh_methodLen h" "?b ! (18 + ?n) = rh_version h"
    "drop 2 (take (2 + ?n) ?b) = take ?n (rh_method h)"
    "le_Uint64 (2 + ?n) ?b = rh_seq h"
    using n by (auto simp: head_bytes_def le_Uint64_def nth_append)
  have "le_Uint64 (10 + ?n) ?b = rh_timeUS h"
    using n le_Uint64_at [of "10 + ?n" "[rh_msgType h, rh_methodLen h] @ take ?n (rh_method h) @ le_Put 8 (rh_seq h)"]
    by (simp add: head_bytes_def)
  note b = b this
  show ?thesis using n b head_bytes_length [OF assms(1)]
    by (simp add: SMRpcHead_Unpack_def Let_def add.commute numeral_2_eq_2)
qed

lemma SMRpcHead_Unpack_None:
  "fst (snd (SMRpcHead_Unpack h0 d)) = (if 2 \<le> length d \<and> 19 + unat (d ! 1) \<le> length d then None else Some UNPACK_BUFFER_SHORT_ERR)"
  by (simp add: SMRpcHead_Unpack_def Let_def numeral_2_eq_2)

lemma copy_at_zeros: "n \<le> length m \<Longrightarrow> drop n m = replicate (length m - n) 0 \<Longrightarrow> copy_at 0 (take n m) (replicate (length m) 0) = m"
proof -
  assume n: "n \<le> length m" and z: "drop n m = replicate (length m - n) 0"
  then have "copy_at 0 (take n m) (replicate (length m) 0) = take n m @ replicate (length m - n) 0"
    by (simp add: copy_at_def min_absorb2)
  also have "\<dots> = m" by (simp only: z [symmetric] append_take_drop_id)
  finally show ?thesis .
qed

section \<open>Properties\<close>

text \<open>
  C31: A packed head is read back as it was: packing into a buffer of at least 51 bytes writes only the
  bytes of the head, and unpacking them, whatever body follows, gives the same head and its length;
  no proper prefix of the head is taken for one.
\<close>

theorem rpc_head_roundtrip:
  assumes "head_ok h" "drop (unat (rh_methodLen h)) (rh_method h) = replicate (RPC_METHOD_MAX_LEN - unat (rh_methodLen h)) 0"
    and "SMRpcHead_Size \<le> length b"
  shows "\<exists>b' n. SMRpcHead_Pack h b = Some (b', None, n) \<and> length b' = length b \<and> drop n b' = drop n b \<and>
    SMRpcHead_Unpack SMRpcHead_Init (take n b' @ body) = (h, None, n) \<and>
    (\<forall>k < n. fst (snd (SMRpcHead_Unpack SMRpcHead_Init (take k b'))) = Some UNPACK_BUFFER_SHORT_ERR)"
proof -
  let ?n = "length (head_bytes h)" and ?b' = "copy_at 0 (head_bytes h) b"
  have n: "?n = 19 + unat (rh_methodLen h)" by (rule head_bytes_length [OF assms(1)])
  have m: "unat (rh_methodLen h) \<le> 32" "length (rh_method h) = 32" using assms(1) by (auto simp: head_ok_def)
  have le: "?n \<le> length b" using n m assms(3) by simp
  have t: "take ?n ?b' = head_bytes h" "drop ?n ?b' = drop ?n b" using le by (simp_all add: copy_at_def)
  have "rh_method h = copy_at 0 (take (unat (rh_methodLen h)) (rh_method h)) (replicate 32 0)"
    using copy_at_zeros [of "unat (rh_methodLen h)" "rh_method h"] assms(2) m by simp
  then have u: "SMRpcHead_Unpack SMRpcHead_Init (head_bytes h @ body) = (h, None, ?n)"
    using SMRpcHead_Unpack_bytes [OF assms(1), of SMRpcHead_Init body] by (simp add: SMRpcHead_Init_def)
  have "fst (snd (SMRpcHead_Unpack SMRpcHead_Init (take k ?b'))) = Some UNPACK_BUFFER_SHORT_ERR" if "k < ?n" for k
  proof -
    have "take k ?b' = take k (head_bytes h)" using that le by (simp add: copy_at_def)
    then show ?thesis using that n by (auto simp: SMRpcHead_Unpack_None head_bytes_def)
  qed
  then show ?thesis using SMRpcHead_Pack_ok [OF assms(1,3)] le t u
    by (intro exI [of _ ?b'] exI [of _ ?n]) simp
qed

theorem rpc_head_roundtrip_witness:
  "\<exists>h b' n. rh_seq h = 7 \<and> SMRpcHead_Pack h (replicate 51 0) = Some (b', None, n) \<and>
     SMRpcHead_Unpack SMRpcHead_Init (take n b' @ [1, 2, 3]) = (h, None, n)"
proof -
  let ?h = "SMRpcHead_Init\<lparr>rh_methodLen := 2, rh_method := [104, 105] @ replicate 30 0, rh_seq := 7\<rparr>"
  have "head_ok ?h" "drop (unat (rh_methodLen ?h)) (rh_method ?h) = replicate (RPC_METHOD_MAX_LEN - unat (rh_methodLen ?h)) 0"
    "SMRpcHead_Size \<le> length (replicate 51 0 :: bytes)"
    by (simp_all add: head_ok_def SMRpcHead_Init_def)
  from rpc_head_roundtrip [OF this, of "[1, 2, 3]"] obtain b' n where
    "SMRpcHead_Pack ?h (replicate 51 0) = Some (b', None, n)"
    "SMRpcHead_Unpack SMRpcHead_Init (take n b' @ [1, 2, 3]) = (?h, None, n)" by blast
  moreover have "rh_seq ?h = 7" by simp
  ultimately show ?thesis by blast
qed

end
