(* ===== verification/RpcFramework.thy ===== *)
theory RpcFramework
  imports SmRpc
begin

text \<open>
  \<^verbatim>\<open>src/extension/inner_service/framework.go\<close>: sessions of remote calls. A call waits on a
  channel of capacity one that is entered under its session; the goroutine that receives the
  response takes the entry out and sends on the channel. Channels live in a memory
  \<open>fw_chans\<close>. The operations are split where the code releases the lock, and waiting and
  waking goroutines interleave in \<open>rpc_step\<close>. \<open>'v\<close> is the type of the values passed.
\<close>

record 'v RpcFramework =
  fw_pending :: "(u64, nat) gomap"
  fw_seq :: u64
  fw_chans :: "nat \<Rightarrow> 'v list list"
  fw_next :: nat

definition RpcFramework_Init :: "'v RpcFramework \<Rightarrow> 'v RpcFramework" where
  "RpcFramework_Init fw = fw\<lparr>fw_pending := []\<rparr>"

definition RpcFramework_new :: "'v RpcFramework" where
  "RpcFramework_new = \<lparr>fw_pending = [], fw_seq = 0, fw_chans = (\<lambda>_. []), fw_next = 0\<rparr>"

definition RpcFramework_Exit :: "'v RpcFramework \<Rightarrow> 'v RpcFramework" where
  "RpcFramework_Exit fw = fw\<lparr>fw_pending := []\<rparr>"

definition setSeqID :: "'v RpcFramework \<Rightarrow> u64 \<Rightarrow> 'v RpcFramework" where
  "setSeqID fw seqid = fw\<lparr>fw_seq := seqid\<rparr>"

definition genSessID :: "'v RpcFramework \<Rightarrow> 'v RpcFramework \<times> u64" where
  "genSessID fw = (let seq = fw_seq fw + 1 in (fw\<lparr>fw_seq := seq\<rparr>, seq))"

partial_function (option) genSessIdWithExclude ::
  "u64 list \<Rightarrow> 'v RpcFramework \<Rightarrow> ('v RpcFramework \<times> u64) option" where
  "genSessIdWithExclude exclusions fw =
     (let seq = fw_seq fw + 1; fw = fw\<lparr>fw_seq := seq\<rparr> in
      if seq \<in> set exclusions then genSessIdWithExclude exclusions fw else Some (fw, seq))"

text \<open>\<open>WakeUp\<close>: the critical section, then the non-blocking send.\<close>

definition WakeUp_lock :: "'v RpcFramework \<Rightarrow> u64 \<Rightarrow> 'v RpcFramework \<times> nat option" where
  "WakeUp_lock fw session =
     (case mget (fw_pending fw) session of
        None \<Rightarrow> (fw, None)
      | Some ch \<Rightarrow> (fw\<lparr>fw_pending := mdel session (fw_pending fw)\<rparr>, Some ch))"

definition WakeUp_send :: "'v RpcFramework \<Rightarrow> nat \<Rightarrow> 'v list \<Rightarrow> 'v RpcFramework \<times> RpcErr option" where
  "WakeUp_send fw ch args =
     (case chan_offer 1 (fw_chans fw ch) args of
        (q, True) \<Rightarrow> (fw\<lparr>fw_chans := (fw_chans fw)(ch := q)\<rparr>, None)
      | (q, False) \<Rightarrow> (fw, Some RPC_WAKEUP_ERR))"

definition RpcFramework_WakeUp :: "'v RpcFramework \<Rightarrow> u64 \<Rightarrow> 'v list \<Rightarrow> 'v RpcFramework \<times> RpcErr option" where
  "RpcFramework_WakeUp fw session args =
     (case WakeUp_lock fw session of
        (fw, None) \<Rightarrow> (fw, Some RPC_SESSION_NOEXIST_ERR)
      | (fw, Some ch) \<Rightarrow> WakeUp_send fw ch args)"

text \<open>\<open>Wait\<close>: the critical section, the receive and what follows an expired timer.\<close>

definition Wait_lock :: "'v RpcFramework \<Rightarrow> u64 \<Rightarrow> 'v RpcFramework \<times> (RpcErr + nat)" where
  "Wait_lock fw session =
     (case mget (fw_pending fw) session of
        Some _ \<Rightarrow> (fw, Inl RPC_SESSION_REPEAT_ERR)
      | None \<Rightarrow>
          (let ch = fw_next fw in
           (fw\<lparr>fw_chans := (fw_chans fw)(ch := []), fw_next := Suc ch,
               fw_pending := mput session ch (fw_pending fw)\<rparr>, Inr ch)))"

definition Wait_recv :: "'v RpcFramework \<Rightarrow> nat \<Rightarrow> ('v RpcFramework \<times> 'v list) option" where
  "Wait_recv fw ch =
     (case fw_chans fw ch of
        [] \<Rightarrow> None
      | args # q \<Rightarrow> Some (fw\<lparr>fw_chans := (fw_chans fw)(ch := q)\<rparr>, args))"

definition Wait_timeout :: "'v RpcFramework \<Rightarrow> u64 \<Rightarrow> 'v RpcFramework" where
  "Wait_timeout fw session = fw\<lparr>fw_pending := mdel session (fw_pending fw)\<rparr>"

section \<open>Session numbers\<close>

text \<open>The numbers that are tried, and the first one that is not excluded.\<close>

lemma genSess_first:
  assumes "fw_seq fw + word_of_nat (Suc k) \<notin> set exc" "\<forall>j < k. fw_seq fw + word_of_nat (Suc j) \<in> set exc"
  shows "genSessIdWithExclude exc fw =
    Some (fw\<lparr>fw_seq := fw_seq fw + word_of_nat (Suc k)\<rparr>, fw_seq fw + word_of_nat (Suc k))"
  using assms
proof (induction k arbitrary: fw)
  case 0
  then show ?case by (subst genSessIdWithExclude.simps) (simp add: Let_def)
next
  case (Suc k)
  let ?fw = "fw\<lparr>fw_seq := fw_seq fw + 1\<rparr>"
  have "fw_seq fw + 1 \<in> set exc" using Suc.prems(2) by force
  then have "genSessIdWithExclude exc fw = genSessIdWithExclude exc ?fw"
    by (subst genSessIdWithExclude.simps) (simp add: Let_def)
  also have "\<forall>j < k. fw_seq ?fw + word_of_nat (Suc j) \<in> set exc"
    using Suc.prems(2) by (auto simp: add.assoc dest: spec [of _ "Suc _"])
  then have "genSessIdWithExclude exc ?fw =
      Some (?fw\<lparr>fw_seq := fw_seq ?fw + word_of_nat (Suc k)\<rparr>, fw_seq ?fw + word_of_nat (Suc k))"
    using Suc.prems(1) by (intro Suc.IH) (simp_all add: add.assoc)
  finally show ?case by (simp add: add.assoc)
qed

lemma genSess_terminates:
  assumes "length exc < 2 ^ 64"
  shows "\<exists>k \<le> length exc. fw_seq fw + word_of_nat (Suc k) \<notin> set exc \<and>
    (\<forall>j < k. fw_seq fw + word_of_nat (Suc j) \<in> set exc)"
proof -
  let ?P = "\<lambda>k. fw_seq fw + word_of_nat (Suc k) \<notin> set exc"
  have "\<exists>k \<le> length exc. ?P k"
  proof (rule ccontr)
    assume "\<not> ?thesis"
    then have "(\<lambda>k. fw_seq fw + word_of_nat (Suc k)) ` {..length exc} \<subseteq> set exc" by auto
    moreover have "inj_on (\<lambda>k. fw_seq fw + word_of_nat (Suc k)) {..length exc}"
    proof (rule inj_onI)
      fix i j assume ij: "i \<in> {..length exc}" "j \<in> {..length exc}"
        and "fw_seq fw + word_of_nat (Suc i) = fw_seq fw + word_of_nat (Suc j)"
      then have "unat (word_of_nat i :: u64) = unat (word_of_nat j :: u64)" by simp
      then show "i = j" using ij assms by (simp add: unat_of_nat)
    qed
    ultimately have "card {..length exc} \<le> card (set exc)" by (metis card_inj_on_le finite_set)
    then show False using card_length [of exc] by simp
  qed
  then obtain k where k: "k \<le> length exc" "?P k" by blast
  have "?P (LEAST k. ?P k)" "(LEAST k. ?P k) \<le> k"
    by (rule LeastI [of ?P], rule k(2)) (rule Least_le [of ?P], rule k(2))
  moreover have "\<forall>j < (LEAST k. ?P k). \<not> ?P j" using not_less_Least [of _ ?P] by blast
  ultimately show ?thesis using k(1) by (meson le_trans)
qed

definition nextSess :: "u64 \<Rightarrow> u64" where
  "nextSess x = (if x + 1 = 0 then 1 else x + 1)"

lemma genSess_nextSess: "genSessIdWithExclude [0] fw = Some (fw\<lparr>fw_seq := nextSess (fw_seq fw)\<rparr>, nextSess (fw_seq fw))"
proof (cases "fw_seq fw + 1 = 0")
  case True
  then have "fw_seq fw = - 1" by (simp add: eq_neg_iff_add_eq_0)
  then show ?thesis using genSess_first [of fw 1 "[0]"] by (simp add: nextSess_def)
next
  case False
  then show ?thesis using genSess_first [of fw 0 "[0]"] by (simp add: nextSess_def)
qed

lemma unat_nextSess: "unat (nextSess x) = unat x mod (2 ^ 64 - 1) + 1"
proof (cases "x + 1 = 0")
  case True
  then have "x = - 1" by (simp add: eq_neg_iff_add_eq_0)
  then have "unat x = 2 ^ 64 - 1" by (simp add: unsigned_minus_1_eq_mask mask_eq_exp_minus_1)
  then show ?thesis using True by (simp add: nextSess_def)
next
  case False
  then have u: "unat (x + 1) = unat x + 1" by (simp add: unatSuc add.commute)
  moreover have "unat (x + 1) < 2 ^ 64" using unsigned_less [of "x + 1", where 'a = nat] by simp
  ultimately show ?thesis using False by (simp add: nextSess_def)
qed

lemma unat_nextSess_funpow: "unat ((nextSess ^^ Suc k) x) = (unat x + k) mod (2 ^ 64 - 1) + 1"
proof (induction k)
  case 0
  then show ?case by (simp add: unat_nextSess)
next
  case (Suc k)
  have "unat ((nextSess ^^ Suc (Suc k)) x) = unat ((nextSess ^^ Suc k) x) mod (2 ^ 64 - 1) + 1"
    by (simp only: funpow.simps o_apply unat_nextSess)
  then show ?case unfolding Suc by (simp add: mod_simps)
qed

lemma add_mod_cancel:
  fixes a i j m :: nat
  assumes "(a + i) mod m = (a + j) mod m" "i < m" "j < m"
  shows "i = j"
  using assms
proof (induction i j rule: linorder_wlog)
  case (le i j)
  then have "m dvd (a + j) - (a + i)" by (metis add_le_cancel_left mod_eq_dvd_iff_nat)
  then show ?case using le by (auto dest: dvd_imp_le)
qed auto

text \<open>Several calls in a row, from whichever goroutines.\<close>

fun genSess_n :: "nat \<Rightarrow> 'v RpcFramework \<Rightarrow> ('v RpcFramework \<times> u64 list) option" where
  "genSess_n 0 fw = Some (fw, [])"
| "genSess_n (Suc n) fw = do {
     (fw, x) \<leftarrow> genSessIdWithExclude [0] fw;
     (fw, xs) \<leftarrow> genSess_n n fw;
     Some (fw, x # xs) }"

lemma genSess_n_eq:
  "genSess_n n fw = Some (fw\<lparr>fw_seq := (nextSess ^^ n) (fw_seq fw)\<rparr>, map (\<lambda>k. (nextSess ^^ Suc k) (fw_seq fw)) [0..<n])"
proof (induction n arbitrary: fw)
  case (Suc n)
  show ?case by (simp add: genSess_nextSess Suc funpow_swap1 map_upt_Suc del: upt_Suc)
qed simp

section \<open>Waiting and waking\<close>

text \<open>
  A goroutine in \<open>Wait\<close>: before the critical section, in the select on its channel, with the timer
  expired and the entry still to be deleted, returned. A goroutine in \<open>WakeUp\<close>: before the critical
  section, before the send, returned. The goroutines form a multiset; \<open>rw_sess\<close> records for which
  session a channel was made.
\<close>

datatype 'v WaitPc = WCall u64 int | WSelect u64 int nat | WTimer u64 | WDone u64 "RpcErr + 'v list"

datatype 'v WakePc = KCall u64 "'v list" | KSend u64 nat "'v list" | KDone u64 "'v list" "RpcErr option"

primrec wait_session :: "'v WaitPc \<Rightarrow> u64" where
  "wait_session (WCall s t) = s"
| "wait_session (WSelect s t ch) = s"
| "wait_session (WTimer s) = s"
| "wait_session (WDone s r) = s"

record 'v rpc_world =
  rw_fw :: "'v RpcFramework"
  rw_waits :: "'v WaitPc multiset"
  rw_wakes :: "'v WakePc multiset"
  rw_sess :: "nat \<Rightarrow> u64"

definition wait_result :: "u64 \<Rightarrow> int \<Rightarrow> RpcErr + nat \<Rightarrow> 'v WaitPc" where
  "wait_result s t r = (case r of Inl e \<Rightarrow> WDone s (Inl e) | Inr ch \<Rightarrow> WSelect s t ch)"

definition wake_result :: "u64 \<Rightarrow> 'v list \<Rightarrow> nat option \<Rightarrow> 'v WakePc" where
  "wake_result s args r = (case r of None \<Rightarrow> KDone s args (Some RPC_SESSION_NOEXIST_ERR) | Some ch \<Rightarrow> KSend s ch args)"

text \<open>
  Every call of \<open>Wait\<close> has a session of its own, as the sessions come from \<open>genSessIdWithExclude\<close>.
  \<open>WakeUp\<close> may be called with any session at any time: it comes from the network.
\<close>

inductive rpc_step :: "'v rpc_world \<Rightarrow> 'v rpc_world \<Rightarrow> bool" where
  wait_call: "s \<notin># image_mset wait_session (rw_waits w) \<Longrightarrow>
    rpc_step w (w\<lparr>rw_waits := add_mset (WCall s t) (rw_waits w)\<rparr>)"
| wait_lock: "rw_waits w = add_mset (WCall s t) W \<Longrightarrow> Wait_lock (rw_fw w) s = (fw, r) \<Longrightarrow>
    rpc_step w (w\<lparr>rw_fw := fw, rw_waits := add_mset (wait_result s t r) W,
      rw_sess := (rw_sess w)(fw_next (rw_fw w) := s)\<rparr>)"
| wait_recv: "rw_waits w = add_mset (WSelect s t ch) W \<Longrightarrow> Wait_recv (rw_fw w) ch = Some (fw, args) \<Longrightarrow>
    rpc_step w (w\<lparr>rw_fw := fw, rw_waits := add_mset (WDone s (Inr args)) W\<rparr>)"
| wait_timer: "rw_waits w = add_mset (WSelect s t ch) W \<Longrightarrow> 0 < t \<Longrightarrow>
    rpc_step w (w\<lparr>rw_waits := add_mset (WTimer s) W\<rparr>)"
| wait_delete: "rw_waits w = add_mset (WTimer s) W \<Longrightarrow>
    rpc_step w (w\<lparr>rw_fw := Wait_timeout (rw_fw w) s, rw_waits := add_mset (WDone s (Inl RPC_TIMEOUT_ERR)) W\<rparr>)"
| wake_call: "rpc_step w (w\<lparr>rw_wakes := add_mset (KCall s args) (rw_wakes w)\<rparr>)"
| wake_lock: "rw_wakes w = add_mset (KCall s args) K \<Longrightarrow> WakeUp_lock (rw_fw w) s = (fw, r) \<Longrightarrow>
    rpc_step w (w\<lparr>rw_fw := fw, rw_wakes := add_mset (wake_result s args r) K\<rparr>)"
| wake_send: "rw_wakes w = add_mset (KSend s ch args) K \<Longrightarrow> WakeUp_send (rw_fw w) ch args = (fw, e) \<Longrightarrow>
    rpc_step w (w\<lparr>rw_fw := fw, rw_wakes := add_mset (KDone s args e) K\<rparr>)"

definition rpc_start :: "'v rpc_world" where
  "rpc_start = \<lparr>rw_fw = RpcFramework_new, rw_waits = {#}, rw_wakes = {#}, rw_sess = (\<lambda>_. 0)\<rparr>"

inductive rpc_reach :: "'v rpc_world \<Rightarrow> bool" where
  start: "rpc_reach rpc_start"
| step: "rpc_reach w \<Longrightarrow> rpc_step w w' \<Longrightarrow> rpc_reach w'"

section \<open>The invariant\<close>

primrec got_of :: "'v WaitPc \<Rightarrow> (u64 \<times> 'v list) multiset" where
  "got_of (WCall s t) = {#}"
| "got_of (WSelect s t ch) = {#}"
| "got_of (WTimer s) = {#}"
| "got_of (WDone s r) = (case r of Inl e \<Rightarrow> {#} | Inr args \<Rightarrow> {#(s, args)#})"

primrec sent_of :: "'v WakePc \<Rightarrow> (u64 \<times> 'v list) multiset" where
  "sent_of (KCall s args) = {#}"
| "sent_of (KSend s ch args) = {#}"
| "sent_of (KDone s args e) = (if e = None then {#(s, args)#} else {#})"

definition answers_got :: "'v WaitPc multiset \<Rightarrow> (u64 \<times> 'v list) multiset" where
  "answers_got W = (\<Sum>pc \<in># W. got_of pc)"

definition answers_accepted :: "'v WakePc multiset \<Rightarrow> (u64 \<times> 'v list) multiset" where
  "answers_accepted K = (\<Sum>pc \<in># K. sent_of pc)"

definition answers_queued :: "(nat \<Rightarrow> u64) \<Rightarrow> nat \<Rightarrow> (nat \<Rightarrow> 'v list list) \<Rightarrow> (u64 \<times> 'v list) multiset" where
  "answers_queued sess n chans = (\<Sum>ch < n. image_mset (Pair (sess ch)) (mset (chans ch)))"

primrec send_chan :: "'v WakePc \<Rightarrow> nat multiset" where
  "send_chan (KCall s args) = {#}"
| "send_chan (KSend s ch args) = {#ch#}"
| "send_chan (KDone s args e) = {#}"

definition sending :: "'v WakePc multiset \<Rightarrow> nat multiset" where
  "sending K = (\<Sum>pc \<in># K. send_chan pc)"

text \<open>
  A channel whose session is pending is empty and nobody is about to send on it; at most one goroutine
  is about to send on any channel, and it is empty; a call in its select is pending, or is about to
  be sent its answer, or has it.
\<close>

definition pending_ok :: "'v RpcFramework \<Rightarrow> 'v WaitPc multiset \<Rightarrow> 'v WakePc multiset \<Rightarrow> (nat \<Rightarrow> u64) \<Rightarrow> bool" where
  "pending_ok fw W K sess \<longleftrightarrow>
     (\<forall>s ch. mget (fw_pending fw) s = Some ch \<longrightarrow> ch < fw_next fw \<and> sess ch = s \<and>
        fw_chans fw ch = [] \<and> ch \<notin># sending K \<and> s \<in># image_mset wait_session W) \<and>
     (\<forall>s t. WCall s t \<in># W \<longrightarrow> mget (fw_pending fw) s = None)"

definition sends_ok :: "'v RpcFramework \<Rightarrow> 'v WakePc multiset \<Rightarrow> (nat \<Rightarrow> u64) \<Rightarrow> bool" where
  "sends_ok fw K sess \<longleftrightarrow>
     (\<forall>s ch args. KSend s ch args \<in># K \<longrightarrow> ch < fw_next fw \<and> sess ch = s \<and> fw_chans fw ch = []) \<and>
     (\<forall>ch. count (sending K) ch \<le> 1) \<and>
     (\<forall>s args e. KDone s args e \<in># K \<longrightarrow> e = None \<or> e = Some RPC_SESSION_NOEXIST_ERR)"

definition waits_ok :: "'v RpcFramework \<Rightarrow> 'v WaitPc multiset \<Rightarrow> 'v WakePc multiset \<Rightarrow> (nat \<Rightarrow> u64) \<Rightarrow> bool" where
  "waits_ok fw W K sess \<longleftrightarrow>
     (\<forall>s t ch. WSelect s t ch \<in># W \<longrightarrow> ch < fw_next fw \<and> sess ch = s \<and>
        (mget (fw_pending fw) s = Some ch \<or> ch \<in># sending K \<or> fw_chans fw ch \<noteq> [])) \<and>
     (\<forall>s. count (image_mset wait_session W) s \<le> 1) \<and>
     (\<forall>s e. WDone s (Inl e) \<in># W \<longrightarrow> e = RPC_TIMEOUT_ERR)"

definition rpc_inv :: "'v rpc_world \<Rightarrow> bool" where
  "rpc_inv w \<longleftrightarrow> pending_ok (rw_fw w) (rw_waits w) (rw_wakes w) (rw_sess w) \<and> sends_ok (rw_fw w) (rw_wakes w) (rw_sess w) \<and>
     waits_ok (rw_fw w) (rw_waits w) (rw_wakes w) (rw_sess w) \<and>
     answers_got (rw_waits w) + answers_queued (rw_sess w) (fw_next (rw_fw w)) (fw_chans (rw_fw w)) = answers_accepted (rw_wakes w)"

lemma answers_simps [simp]:
  "answers_got {#} = {#}" "answers_got (add_mset x W) = got_of x + answers_got W"
  "answers_accepted {#} = {#}" "answers_accepted (add_mset y K) = sent_of y + answers_accepted K"
  "sending {#} = {#}" "sending (add_mset y K) = send_chan y + sending K"
  by (simp_all add: answers_got_def answers_accepted_def sending_def)

lemma rpc_inv_start: "rpc_inv rpc_start"
  by (simp add: rpc_inv_def rpc_start_def RpcFramework_new_def pending_ok_def sends_ok_def waits_ok_def answers_queued_def)

lemma sending_iff: "ch \<in># sending K \<longleftrightarrow> (\<exists>s args. KSend s ch args \<in># K)"
proof (induction K)
  case (add y K)
  then show ?case by (cases y) auto
qed simp

lemma count_image_zero: "x \<notin> f ` set_mset M \<Longrightarrow> count (image_mset f M) x = 0"
  by (metis count_inI set_image_mset)

lemma count_add_le:
  "\<forall>s. count (image_mset f (add_mset x M)) s \<le> 1 \<Longrightarrow> y \<in># M \<Longrightarrow> f y \<noteq> f x"
proof
  assume le: "\<forall>s. count (image_mset f (add_mset x M)) s \<le> 1" and "y \<in># M" "f y = f x"
  then obtain N where "M = add_mset y N" by (meson multi_member_split)
  then show False using spec [OF le, of "f x"] \<open>f y = f x\<close> by simp
qed

lemma queued_upd:
  assumes "ch < n"
  shows "answers_queued f n (g(ch := q)) + image_mset (Pair (f ch)) (mset (g ch)) =
    answers_queued f n g + image_mset (Pair (f ch)) (mset q)"
proof -
  have "(\<Sum>c \<in> {..<n} - {ch}. image_mset (Pair (f c)) (mset ((g(ch := q)) c))) =
      (\<Sum>c \<in> {..<n} - {ch}. image_mset (Pair (f c)) (mset (g c)))"
    by (rule sum.cong) auto
  then show ?thesis using assms by (simp add: answers_queued_def sum.remove [of "{..<n}" ch])
qed

lemma queued_new: "answers_queued (f(n := s)) (Suc n) (g(n := [])) = answers_queued f n g"
proof -
  have "(\<Sum>c < n. image_mset (Pair ((f(n := s)) c)) (mset ((g(n := [])) c))) = (\<Sum>c < n. image_mset (Pair (f c)) (mset (g c)))"
    by (rule sum.cong) auto
  then show ?thesis by (simp add: answers_queued_def)
qed

lemma rpc_inv_sendsD:
  "rpc_inv w \<Longrightarrow> KSend s ch args \<in># rw_wakes w \<Longrightarrow> ch < fw_next (rw_fw w) \<and> rw_sess w ch = s \<and> fw_chans (rw_fw w) ch = []"
  unfolding rpc_inv_def sends_ok_def by blast

lemma rpc_inv_selectD:
  "rpc_inv w \<Longrightarrow> WSelect s t ch \<in># rw_waits w \<Longrightarrow> ch < fw_next (rw_fw w) \<and> rw_sess w ch = s \<and>
     (mget (fw_pending (rw_fw w)) s = Some ch \<or> ch \<in># sending (rw_wakes w) \<or> fw_chans (rw_fw w) ch \<noteq> [])"
  unfolding rpc_inv_def waits_ok_def by blast

lemma rpc_inv_wait_call:
  assumes "rpc_inv w" "s \<notin># image_mset wait_session (rw_waits w)"
  shows "rpc_inv (w\<lparr>rw_waits := add_mset (WCall s t) (rw_waits w)\<rparr>)"
proof -
  have "mget (fw_pending (rw_fw w)) s = None"
    using assms by (cases "mget (fw_pending (rw_fw w)) s") (auto simp: rpc_inv_def pending_ok_def)
  moreover have "count (image_mset wait_session (rw_waits w)) s = 0" using assms(2) by (simp add: count_image_zero)
  ultimately show ?thesis using assms(1) by (auto simp: rpc_inv_def pending_ok_def waits_ok_def)
qed

lemma rpc_inv_wait_lock:
  assumes "rpc_inv w" "rw_waits w = add_mset (WCall s t) W" "Wait_lock (rw_fw w) s = (fw, r)"
  shows "rpc_inv (w\<lparr>rw_fw := fw, rw_waits := add_mset (wait_result s t r) W, rw_sess := (rw_sess w)(fw_next (rw_fw w) := s)\<rparr>)"
proof -
  let ?n = "fw_next (rw_fw w)"
  have none: "mget (fw_pending (rw_fw w)) s = None" using assms(1,2) by (simp add: rpc_inv_def pending_ok_def)
  then have fw: "r = Inr ?n" "fw = (rw_fw w)\<lparr>fw_chans := (fw_chans (rw_fw w))(?n := []),
      fw_next := Suc ?n, fw_pending := mput s ?n (fw_pending (rw_fw w))\<rparr>"
    using assms(3) by (auto simp: Wait_lock_def Let_def)
  have sk: "ch < ?n" if "ch \<in># sending (rw_wakes w)" for ch
    using assms(1) that by (auto simp: rpc_inv_def sends_ok_def sending_iff)
  have W: "wait_session x \<noteq> s" if "x \<in># W" for x
    using assms(1,2) count_add_le [OF _ that, of wait_session "WCall s t"] by (simp add: rpc_inv_def waits_ok_def)
  then have N: "WCall s t' \<notin># W" "WSelect s t' ch' \<notin># W" for t' ch' by force+
  have B: "WSelect s' t' ?n \<notin># W" for s' t' using rpc_inv_selectD [OF assms(1), of s' t' ?n] assms(2) by auto
  from N have "pending_ok fw (add_mset (WSelect s t ?n) W) (rw_wakes w) ((rw_sess w)(?n := s))"
    using assms(1,2) sk W by (auto simp: rpc_inv_def pending_ok_def fw less_Suc_eq)
  moreover have "sends_ok fw (rw_wakes w) ((rw_sess w)(?n := s))"
    using assms(1) by (auto simp: rpc_inv_def sends_ok_def fw less_Suc_eq)
  moreover have "waits_ok fw (add_mset (WSelect s t ?n) W) (rw_wakes w) ((rw_sess w)(?n := s))"
    using assms(1,2) N B by (auto simp: rpc_inv_def waits_ok_def fw less_Suc_eq)
  ultimately show ?thesis using assms(1,2) by (simp add: rpc_inv_def fw wait_result_def queued_new)
qed

lemma rpc_inv_wait_recv:
  assumes "rpc_inv w" "rw_waits w = add_mset (WSelect s t ch) W" "Wait_recv (rw_fw w) ch = Some (fw, args)"
  shows "rpc_inv (w\<lparr>rw_fw := fw, rw_waits := add_mset (WDone s (Inr args)) W\<rparr>)"
proof -
  obtain q where q: "fw_chans (rw_fw w) ch = args # q" "fw = (rw_fw w)\<lparr>fw_chans := (fw_chans (rw_fw w))(ch := q)\<rparr>"
    using assms(3) by (auto simp: Wait_recv_def split: list.splits)
  have ch: "ch < fw_next (rw_fw w)" "rw_sess w ch = s" using assms(1,2) by (auto simp: rpc_inv_def waits_ok_def)
  have W: "wait_session x \<noteq> s" if "x \<in># W" for x
    using assms(1,2) count_add_le [OF _ that, of wait_session "WSelect s t ch"] by (simp add: rpc_inv_def waits_ok_def)
  have "pending_ok fw (add_mset (WDone s (Inr args)) W) (rw_wakes w) (rw_sess w)"
    using assms(1,2) q(1) by (auto simp: rpc_inv_def pending_ok_def q(2))
  moreover have "KSend s' ch a \<notin># rw_wakes w" for s' a using rpc_inv_sendsD [OF assms(1)] q(1) by force
  then have "sends_ok fw (rw_wakes w) (rw_sess w)"
    using assms(1) q(1) by (auto simp: rpc_inv_def sends_ok_def q(2))
  moreover have "WSelect s t' ch' \<notin># W" for t' ch' using W by force
  then have "waits_ok fw (add_mset (WDone s (Inr args)) W) (rw_wakes w) (rw_sess w)"
    using assms(1,2) W ch by (auto simp: rpc_inv_def waits_ok_def q(2))
  moreover have "answers_queued (rw_sess w) (fw_next (rw_fw w)) (fw_chans (rw_fw w)) =
      add_mset (s, args) (answers_queued (rw_sess w) (fw_next (rw_fw w)) ((fw_chans (rw_fw w))(ch := q)))"
    using queued_upd [OF ch(1), of "rw_sess w" "fw_chans (rw_fw w)" q] q(1) ch by simp
  ultimately show ?thesis using assms(1,2) by (simp add: rpc_inv_def q(2))
qed

lemma rpc_inv_wait_timer:
  assumes "rpc_inv w" "rw_waits w = add_mset (WSelect s t ch) W"
  shows "rpc_inv (w\<lparr>rw_waits := add_mset (WTimer s) W\<rparr>)"
  using assms unfolding rpc_inv_def pending_ok_def waits_ok_def by simp

lemma rpc_inv_wait_delete:
  assumes "rpc_inv w" "rw_waits w = add_mset (WTimer s) W"
  shows "rpc_inv (w\<lparr>rw_fw := Wait_timeout (rw_fw w) s, rw_waits := add_mset (WDone s (Inl RPC_TIMEOUT_ERR)) W\<rparr>)"
proof -
  have W: "wait_session x \<noteq> s" if "x \<in># W" for x
    using assms count_add_le [OF _ that, of wait_session "WTimer s"] by (simp add: rpc_inv_def waits_ok_def)
  then have "WSelect s t ch \<notin># W" for t ch by (metis wait_session.simps(2))
  then have "waits_ok (Wait_timeout (rw_fw w) s) (add_mset (WDone s (Inl RPC_TIMEOUT_ERR)) W) (rw_wakes w) (rw_sess w)"
    using assms by (auto simp: rpc_inv_def waits_ok_def Wait_timeout_def)
  then show ?thesis using assms by (auto simp: rpc_inv_def pending_ok_def sends_ok_def Wait_timeout_def)
qed

lemma rpc_inv_wake_lock:
  assumes "rpc_inv w" "rw_wakes w = add_mset (KCall s args) K" "WakeUp_lock (rw_fw w) s = (fw, r)"
  shows "rpc_inv (w\<lparr>rw_fw := fw, rw_wakes := add_mset (wake_result s args r) K\<rparr>)"
proof (cases "mget (fw_pending (rw_fw w)) s")
  case None
  then show ?thesis using assms
    by (auto simp: rpc_inv_def pending_ok_def sends_ok_def waits_ok_def WakeUp_lock_def wake_result_def)
next
  case (Some ch)
  then have fw: "r = Some ch" "fw = (rw_fw w)\<lparr>fw_pending := mdel s (fw_pending (rw_fw w))\<rparr>"
    using assms(3) by (auto simp: WakeUp_lock_def)
  have ch: "ch < fw_next (rw_fw w)" "rw_sess w ch = s" "fw_chans (rw_fw w) ch = []" "ch \<notin># sending K"
    using assms(1,2) Some by (auto simp: rpc_inv_def pending_ok_def)
  have "pending_ok fw (rw_waits w) (add_mset (KSend s ch args) K) (rw_sess w)"
    using assms(1,2) ch by (auto simp: rpc_inv_def pending_ok_def fw)
  moreover have "sends_ok fw (add_mset (KSend s ch args) K) (rw_sess w)"
    using assms(1,2) ch by (auto simp: rpc_inv_def sends_ok_def fw not_in_iff)
  moreover have "waits_ok fw (rw_waits w) (add_mset (KSend s ch args) K) (rw_sess w)"
    using assms(1) rpc_inv_selectD [OF assms(1)] Some unfolding rpc_inv_def waits_ok_def fw assms(2) by (fastforce split: if_splits)
  ultimately show ?thesis using assms(1,2) by (simp add: rpc_inv_def fw wake_result_def)
qed

lemma rpc_inv_wake_send:
  assumes "rpc_inv w" "rw_wakes w = add_mset (KSend s ch args) K" "WakeUp_send (rw_fw w) ch args = (fw, e)"
  shows "rpc_inv (w\<lparr>rw_fw := fw, rw_wakes := add_mset (KDone s args e) K\<rparr>)"
proof -
  have ch: "ch < fw_next (rw_fw w)" "rw_sess w ch = s" "fw_chans (rw_fw w) ch = []"
    using assms(1,2) by (auto simp: rpc_inv_def sends_ok_def)
  then have fw: "e = None" "fw = (rw_fw w)\<lparr>fw_chans := (fw_chans (rw_fw w))(ch := [args])\<rparr>"
    using assms(3) by (auto simp: WakeUp_send_def chan_offer_def)
  have "\<forall>c. count (add_mset ch (sending K)) c \<le> 1" using assms(1,2) by (simp add: rpc_inv_def sends_ok_def)
  then have "Suc (count (sending K) ch) \<le> 1" and L: "count (sending K) c \<le> 1" for c
    using spec [of "\<lambda>c. count (add_mset ch (sending K)) c \<le> 1"] by (metis count_add_mset, metis Suc_leD count_add_mset)
  then have K: "ch \<notin># sending K" by (simp add: not_in_iff)
  have "pending_ok fw (rw_waits w) (add_mset (KDone s args e) K) (rw_sess w)"
    using assms(1,2) by (auto simp: rpc_inv_def pending_ok_def fw)
  moreover have "sends_ok fw (add_mset (KDone s args e) K) (rw_sess w)"
    using assms(1,2) K L by (auto simp: rpc_inv_def sends_ok_def fw sending_iff)
  moreover have "waits_ok fw (rw_waits w) (add_mset (KDone s args e) K) (rw_sess w)"
    using assms(1,2) by (auto simp: rpc_inv_def waits_ok_def fw)
  ultimately show ?thesis using assms(1,2) queued_upd [OF ch(1), of "rw_sess w" "fw_chans (rw_fw w)" "[args]"] ch
    by (simp add: rpc_inv_def fw)
qed

lemma rpc_inv_step: "rpc_step w w' \<Longrightarrow> rpc_inv w \<Longrightarrow> rpc_inv w'"
proof (induction rule: rpc_step.induct)
  case (wake_call w s args)
  then show ?case by (simp add: rpc_inv_def pending_ok_def sends_ok_def waits_ok_def)
qed (auto intro: rpc_inv_wait_call rpc_inv_wait_lock rpc_inv_wait_recv rpc_inv_wait_timer rpc_inv_wait_delete
    rpc_inv_wake_lock rpc_inv_wake_send)

lemma rpc_reach_inv: "rpc_reach w \<Longrightarrow> rpc_inv w"
  by (induction rule: rpc_reach.induct) (auto intro: rpc_inv_start rpc_inv_step)

section \<open>Properties\<close>

text \<open>
  C18: Responses find their call: however waiting and waking goroutines interleave, and whatever sessions
  the responses carry, every response that was accepted ends at most one call, the one of its session; a
  wake-up fails only when nobody waits for the session, a call ends without a response only by its
  timeout, and a call that still waits is registered, or its response is in its channel or about to be.
\<close>

theorem rpc_wait_sound:
  assumes "rpc_reach w"
  shows "answers_got (rw_waits w) \<subseteq># answers_accepted (rw_wakes w) \<and>
    (\<forall>s args e. KDone s args (Some e) \<in># rw_wakes w \<longrightarrow> e = RPC_SESSION_NOEXIST_ERR) \<and>
    (\<forall>s e. WDone s (Inl e) \<in># rw_waits w \<longrightarrow> e = RPC_TIMEOUT_ERR) \<and>
    (\<forall>s t ch. WSelect s t ch \<in># rw_waits w \<longrightarrow> mget (fw_pending (rw_fw w)) s = Some ch \<or>
       fw_chans (rw_fw w) ch \<noteq> [] \<or> (\<exists>args. KSend s ch args \<in># rw_wakes w))"
proof -
  have inv: "rpc_inv w" using assms by (rule rpc_reach_inv)
  then have "answers_got (rw_waits w) \<subseteq># answers_accepted (rw_wakes w)"
    unfolding rpc_inv_def by (metis mset_subset_eq_add_left)
  moreover have "\<exists>args. KSend s ch args \<in># rw_wakes w" if "WSelect s t ch \<in># rw_waits w" "ch \<in># sending (rw_wakes w)" for s t ch
    using that rpc_inv_selectD [OF inv] rpc_inv_sendsD [OF inv] by (metis sending_iff)
  ultimately show ?thesis using inv rpc_inv_selectD [OF inv] unfolding rpc_inv_def sends_ok_def waits_ok_def by blast
qed

text \<open>One call, answered: the steps in the order of the code.\<close>

definition ex_called :: "u64 \<Rightarrow> int \<Rightarrow> 'v rpc_world" where
  "ex_called s t = \<lparr>rw_fw = RpcFramework_new\<lparr>fw_next := 1, fw_pending := [(s, 0)]\<rparr>, rw_waits = {#WSelect s t 0#},
     rw_wakes = {#}, rw_sess = (\<lambda>_. 0)(0 := s)\<rparr>"

definition ex_answered :: "u64 \<Rightarrow> 'v list \<Rightarrow> 'v rpc_world" where
  "ex_answered s args = \<lparr>rw_fw = RpcFramework_new\<lparr>fw_next := 1\<rparr>, rw_waits = {#WDone s (Inr args)#},
     rw_wakes = {#KDone s args None#}, rw_sess = (\<lambda>_. 0)(0 := s)\<rparr>"

lemma ex_called_reach: "rpc_reach (ex_called s t)"
proof -
  have "rpc_reach (rpc_start\<lparr>rw_waits := {#WCall s t#}\<rparr> :: 'a rpc_world)"
    using rpc_reach.step [OF rpc_reach.start rpc_step.wait_call [of s rpc_start t]] by (simp add: rpc_start_def)
  from rpc_reach.step [OF this rpc_step.wait_lock [of _ s t "{#}"]] show ?thesis
    by (simp add: rpc_start_def ex_called_def Wait_lock_def RpcFramework_new_def wait_result_def Let_def fun_upd_idem)
qed

lemma ex_answered_reach: "rpc_reach (ex_answered s args)"
proof -
  note defs = ex_called_def ex_answered_def RpcFramework_new_def
  have 1: "rpc_reach ((ex_called s 0)\<lparr>rw_wakes := {#KCall s args#}\<rparr>)"
    using rpc_reach.step [OF ex_called_reach rpc_step.wake_call [of "ex_called s 0" s args]] by (simp add: defs)
  have 2: "rpc_reach ((ex_called s 0)\<lparr>rw_fw := RpcFramework_new\<lparr>fw_next := 1\<rparr>, rw_wakes := {#KSend s 0 args#}\<rparr>)"
    using rpc_reach.step [OF 1 rpc_step.wake_lock [of _ s args "{#}"]] by (simp add: defs WakeUp_lock_def wake_result_def)
  have 3: "rpc_reach ((ex_called s 0)\<lparr>rw_fw := RpcFramework_new\<lparr>fw_next := 1, fw_chans := (\<lambda>_. [])(0 := [args])\<rparr>,
      rw_wakes := {#KDone s args None#}\<rparr>)"
    using rpc_reach.step [OF 2 rpc_step.wake_send [of _ s 0 args "{#}"]] by (simp add: defs WakeUp_send_def chan_offer_def)
  show ?thesis
    using rpc_reach.step [OF 3 rpc_step.wait_recv [of _ s 0 0 "{#}"]] by (simp add: defs Wait_recv_def fun_upd_idem)
qed

theorem rpc_wait_sound_witness:
  "\<exists>w :: nat rpc_world. rpc_reach w \<and> answers_got (rw_waits w) = {#(7, [5])#} \<and> answers_got (rw_waits w) \<subseteq># answers_accepted (rw_wakes w)"
  using rpc_wait_sound [OF ex_answered_reach [of 7 "[5::nat]"]] ex_answered_reach [of 7 "[5::nat]"]
  by (intro exI [of _ "ex_answered 7 [5]"]) (simp add: ex_answered_def)

text \<open>
  C32: Session numbers are fresh: asking for a number always returns, the number is never 0, which
  stands for a notification, and the next \<open>2 ^ 64 - 1\<close> numbers are different from one another, also
  where the counter wraps around.
\<close>

theorem rpc_sessions_distinct:
  assumes "n < 2 ^ 64"
  shows "\<exists>fw' ids. genSess_n n fw = Some (fw', ids) \<and> length ids = n \<and> distinct ids \<and> 0 \<notin> set ids"
proof -
  let ?id = "\<lambda>k. (nextSess ^^ Suc k) (fw_seq fw)"
  have "inj_on ?id {0..<n}"
  proof (rule inj_onI)
    fix i j assume ij: "i \<in> {0..<n}" "j \<in> {0..<n}" and "?id i = ?id j"
    then have "(unat (fw_seq fw) + i) mod (2 ^ 64 - 1) = (unat (fw_seq fw) + j) mod (2 ^ 64 - 1)"
      by (metis unat_nextSess_funpow add_right_cancel)
    then show "i = j" by (rule add_mod_cancel) (use ij assms in auto)
  qed
  moreover have "?id k \<noteq> 0" for k using unat_nextSess_funpow [of k "fw_seq fw"] by (metis Suc_eq_plus1 nat.distinct(1) unsigned_0)
  ultimately show ?thesis by (simp add: genSess_n_eq distinct_map image_iff del: funpow.simps)
qed

theorem rpc_sessions_distinct_witness:
  "\<exists>fw' ids. genSess_n 3 (RpcFramework_new\<lparr>fw_seq := - 2\<rparr>) = Some (fw', ids) \<and> length ids = 3 \<and> distinct ids \<and> 0 \<notin> set ids"
  by (rule rpc_sessions_distinct) simp

text \<open>
  A response that arrives before its call waits is lost: the session is entered by \<open>Wait\<close>, after the
  request has been sent, so the wake-up finds no session and the call, without a timeout, waits with
  nobody left to wake it.
\<close>

theorem rpc_early_response_lost:
  "\<exists>w :: nat rpc_world. rpc_reach w \<and> rw_wakes w = {#KDone 7 [5] (Some RPC_SESSION_NOEXIST_ERR)#} \<and>
     rw_waits w = {#WSelect 7 0 0#} \<and> fw_chans (rw_fw w) 0 = []"
proof -
  let ?k = "{#KDone 7 [5] (Some RPC_SESSION_NOEXIST_ERR)#} :: nat WakePc multiset"
  have 1: "rpc_reach (rpc_start\<lparr>rw_wakes := {#KCall 7 [5]#}\<rparr> :: nat rpc_world)"
    using rpc_reach.step [OF rpc_reach.start rpc_step.wake_call [of rpc_start 7 "[5]"]] by (simp add: rpc_start_def)
  have 2: "rpc_reach (rpc_start\<lparr>rw_wakes := ?k\<rparr>)"
    using rpc_reach.step [OF 1 rpc_step.wake_lock [of _ 7 "[5]" "{#}"]]
    by (simp add: rpc_start_def WakeUp_lock_def RpcFramework_new_def wake_result_def)
  have 3: "rpc_reach (rpc_start\<lparr>rw_waits := {#WCall 7 0#}, rw_wakes := ?k\<rparr>)"
    using rpc_reach.step [OF 2 rpc_step.wait_call [of 7 _ 0]] by (simp add: rpc_start_def)
  from rpc_reach.step [OF 3 rpc_step.wait_lock [of _ 7 0 "{#}"]] show ?thesis
    by (fastforce simp: rpc_start_def Wait_lock_def RpcFramework_new_def wait_result_def Let_def)
qed

end
