(* ===== verification/SmService.thy ===== *)
theory SmService
  imports RpcFramework AgentServer
begin

text \<open>
  \<^verbatim>\<open>src/extension/inner_service/service.go\<close>: services that call each other's methods over
  skymesh. The part of the service object that sending and receiving change is \<open>SMLink\<close>; the tables
  of methods and interceptors are \<open>SMServiceImpl\<close>. \<open>'n\<close> is the rest of the world: the agent below
  and the state of the application. Handlers and interceptors are functions on the link and the
  world; \<open>None\<close> is a panic. \<open>send\<close> is \<^verbatim>\<open>SendBySvcUrl\<close> of the transport. The context argument,
  which the code only passes on, is left out, and a method name is the bytes of the Go string.
\<close>

datatype GoVal = VNil | VBytes bytes | VOther nat

datatype GoErr = ERpc RpcErr | ESend SendErr | EApp string

record SMLink =
  sk_transport :: bool
  sk_packBuffer :: bytes
  sk_rpc :: "GoVal RpcFramework"

type_synonym 'n smworld = "SMLink \<times> 'n"
type_synonym 'w HandlerFunc = "bytes \<Rightarrow> 'w \<Rightarrow> ('w \<times> GoVal \<times> GoErr option) option"
type_synonym 'w SMInterceptor = "bytes \<Rightarrow> 'w HandlerFunc \<Rightarrow> 'w \<Rightarrow> ('w \<times> GoVal \<times> GoErr option) option"
type_synonym 'n transport = "string \<Rightarrow> bytes \<Rightarrow> 'n \<Rightarrow> 'n \<times> SendErr option"

section \<open>Chains of interceptors\<close>

record 'w chainMethodHandler =
  mh_handler :: "'w HandlerFunc"
  mh_interceptors :: "'w SMInterceptor list"

text \<open>The loop from \<open>n - 1\<close> down to 0; the index is one less than the argument.\<close>

fun chain_loop :: "'w SMInterceptor list \<Rightarrow> nat \<Rightarrow> 'w HandlerFunc \<Rightarrow> 'w HandlerFunc" where
  "chain_loop interceptors 0 chained = chained"
| "chain_loop interceptors (Suc i) chained =
     chain_loop interceptors i (\<lambda>msg. (interceptors ! i) msg chained)"

definition chainHandler :: "'w SMInterceptor list \<Rightarrow> 'w HandlerFunc \<Rightarrow> 'w HandlerFunc" where
  "chainHandler interceptors handler = chain_loop interceptors (length interceptors) handler"

definition onMethod :: "'w chainMethodHandler \<Rightarrow> 'w HandlerFunc" where
  "onMethod h = chainHandler (mh_interceptors h) (mh_handler h)"

section \<open>The service\<close>

record 'n SMServiceImpl =
  sm_serviceUrl :: string
  sm_methods :: "(bytes, 'n smworld chainMethodHandler) gomap"
  sm_serverInterceptors :: "'n smworld SMInterceptor list"
  sm_clientInterceptors :: "'n smworld SMInterceptor list"

definition newSMService :: "string \<Rightarrow> 'n SMServiceImpl \<times> SMLink" where
  "newSMService serviceUrl =
     (\<lparr>sm_serviceUrl = serviceUrl, sm_methods = [], sm_serverInterceptors = [], sm_clientInterceptors = []\<rparr>,
      \<lparr>sk_transport = False, sk_packBuffer = replicate PACK_BUFFER_LEN 0, sk_rpc = RpcFramework_new\<rparr>)"

text \<open>\<open>reg\<close> and \<open>unreg\<close> are \<open>Register\<close> and \<open>UnRegister\<close> of the mesh server, with the callbacks they make.\<close>

definition SMService_init ::
  "(string \<Rightarrow> 'n smworld \<Rightarrow> 'n smworld \<times> RegErr option) \<Rightarrow> 'n SMServiceImpl \<Rightarrow> 'n smworld \<Rightarrow> 'n smworld \<times> RegErr option" where
  "SMService_init reg s w = reg (sm_serviceUrl s) ((fst w)\<lparr>sk_rpc := RpcFramework_Init (sk_rpc (fst w))\<rparr>, snd w)"

definition SMService_RegisterService ::
  "(string \<Rightarrow> 'n smworld \<Rightarrow> 'n smworld \<times> RegErr option) \<Rightarrow> string \<Rightarrow> 'n \<Rightarrow> 'n SMServiceImpl \<times> 'n smworld \<times> RegErr option" where
  "SMService_RegisterService reg serviceUrl n =
     (let (s, l) = newSMService serviceUrl; (w, err) = SMService_init reg s (l, n) in (s, w, err))"

definition SMService_close ::
  "(string \<Rightarrow> 'n smworld \<Rightarrow> 'n smworld option) \<Rightarrow> 'n SMServiceImpl \<Rightarrow> 'n smworld \<Rightarrow> 'n smworld option" where
  "SMService_close unreg s w = unreg (sm_serviceUrl s) w"

definition SMService_UnRegisterService ::
  "(string \<Rightarrow> 'n smworld \<Rightarrow> 'n smworld option) \<Rightarrow> 'n SMServiceImpl \<Rightarrow> 'n smworld \<Rightarrow> 'n smworld option" where
  "SMService_UnRegisterService unreg s w = SMService_close unreg s w"

definition RegisterFunc :: "'n SMServiceImpl \<Rightarrow> bytes \<Rightarrow> 'n smworld HandlerFunc \<Rightarrow> 'n SMServiceImpl" where
  "RegisterFunc s methodName handler =
     s\<lparr>sm_methods := mput methodName \<lparr>mh_handler = handler, mh_interceptors = sm_serverInterceptors s\<rparr> (sm_methods s)\<rparr>"

definition ApplyServerInterceptors :: "'n SMServiceImpl \<Rightarrow> 'n smworld SMInterceptor list \<Rightarrow> 'n SMServiceImpl" where
  "ApplyServerInterceptors s interceptors =
     fold (\<lambda>i s. s\<lparr>sm_serverInterceptors := sm_serverInterceptors s @ [i]\<rparr>) interceptors s"

definition ApplyClientInterceptors :: "'n SMServiceImpl \<Rightarrow> 'n smworld SMInterceptor list \<Rightarrow> 'n SMServiceImpl" where
  "ApplyClientInterceptors s interceptors =
     fold (\<lambda>i s. s\<lparr>sm_clientInterceptors := sm_clientInterceptors s @ [i]\<rparr>) interceptors s"

definition SMService_OnRegister :: "SMLink \<Rightarrow> int \<Rightarrow> SMLink" where
  "SMService_OnRegister l result = (if result = 0 then l\<lparr>sk_transport := True\<rparr> else l)"

definition SMService_OnUnRegister :: "SMLink \<Rightarrow> SMLink" where
  "SMService_OnUnRegister l = l"

section \<open>Sending\<close>

text \<open>\<open>rawSend\<close> up to the call of the transport: the message is the slice \<^verbatim>\<open>packBuffer[:n]\<close>.\<close>

definition rawPack :: "int \<Rightarrow> SMLink \<Rightarrow> u8 \<Rightarrow> u64 \<Rightarrow> bytes \<Rightarrow> bytes \<Rightarrow> (SMLink \<times> (RpcErr + nat)) option" where
  "rawPack nowUS l msgType seq meth msgBody =
     (if RPC_METHOD_MAX_LEN < length meth then Some (l, Inl RPC_METHOD_LEN_OVER_ERR)
      else if PACK_BUFFER_LEN < length msgBody + SMRpcHead_Size then Some (l, Inl PACK_BUFFER_SHORT_ERR)
      else do {
        let head = SMRpcHead_Init\<lparr>rh_msgType := msgType, rh_methodLen := word_of_nat (length meth),
          rh_method := copy_at 0 meth (rh_method SMRpcHead_Init), rh_timeUS := word_of_int nowUS, rh_seq := seq\<rparr>;
        (b, err, packLen) \<leftarrow> SMRpcHead_Pack head (sk_packBuffer l);
        case err of
          Some e \<Rightarrow> Some (l\<lparr>sk_packBuffer := b\<rparr>, Inl e)
        | None \<Rightarrow>
            (let n = min (length msgBody) (length b - packLen);
                 b = copy_at packLen msgBody b
             in Some (l\<lparr>sk_packBuffer := b\<rparr>, Inr (packLen + n))) })"

definition rawSend ::
  "'n transport \<Rightarrow> int \<Rightarrow> string \<Rightarrow> u8 \<Rightarrow> u64 \<Rightarrow> bytes \<Rightarrow> bytes \<Rightarrow> 'n smworld \<Rightarrow> ('n smworld \<times> GoErr option) option" where
  "rawSend send nowUS targetSvcUrl msgType seq meth msgBody w = do {
     (l, r) \<leftarrow> rawPack nowUS (fst w) msgType seq meth msgBody;
     case r of
       Inl e \<Rightarrow> Some ((l, snd w), Some (ERpc e))
     | Inr packLen \<Rightarrow>
         if \<not> sk_transport l then None
         else (let (n, err) = send targetSvcUrl (take packLen (sk_packBuffer l)) (snd w)
               in Some ((l, n), map_option ESend err)) }"

definition SendResponse ::
  "'n transport \<Rightarrow> int \<Rightarrow> Addr \<Rightarrow> u64 \<Rightarrow> bytes \<Rightarrow> 'n smworld \<Rightarrow> ('n smworld \<times> GoErr option) option" where
  "SendResponse send nowUS rmtAddr rspSeq rsp =
     rawSend send nowUS (SkymeshAddr2Url rmtAddr False) kMsgTypeRsp rspSeq [] rsp"

definition NotifyService ::
  "'n transport \<Rightarrow> int \<Rightarrow> string \<Rightarrow> bytes \<Rightarrow> bytes \<Rightarrow> 'n smworld \<Rightarrow> ('n smworld \<times> GoErr option) option" where
  "NotifyService send nowUS targetSvcUrl meth req = rawSend send nowUS targetSvcUrl kMsgTypeReq 0 meth req"

text \<open>
  The call itself. \<open>wait\<close> is what the blocking \<open>Wait\<close> of the framework returns for a session, with
  the world as it is then.
\<close>

definition call_remote ::
  "'n transport \<Rightarrow> (u64 \<Rightarrow> int \<Rightarrow> 'n smworld \<Rightarrow> 'n smworld \<times> (RpcErr + GoVal list)) \<Rightarrow> int \<Rightarrow> string \<Rightarrow> bytes \<Rightarrow> int \<Rightarrow>
     'n smworld HandlerFunc" where
  "call_remote send wait nowUS targetSvcUrl meth timeout_ms currMsg w = do {
     (fw, reqSession) \<leftarrow> genSessIdWithExclude [0] (sk_rpc (fst w));
     (w, err) \<leftarrow> rawSend send nowUS targetSvcUrl kMsgTypeReq reqSession meth currMsg ((fst w)\<lparr>sk_rpc := fw\<rparr>, snd w);
     case err of
       Some e \<Rightarrow> Some (w, VNil, Some e)
     | None \<Rightarrow>
         (case wait reqSession timeout_ms w of
            (w, Inl e) \<Rightarrow> Some (w, VNil, Some (ERpc e))
          | (w, Inr rets) \<Rightarrow>
              if length rets \<noteq> 1 then Some (w, VNil, Some (ERpc RPC_RETVALUE_NUM_ERR))
              else (case rets ! 0 of
                      VBytes b \<Rightarrow> Some (w, VBytes b, None)
                    | _ \<Rightarrow> Some (w, VNil, Some (ERpc RPC_RETVALUE_TYPE_ERR)))) }"

text \<open>The result of the chain is asserted to be a byte slice before the error is looked at.\<close>

definition CallService ::
  "'n transport \<Rightarrow> (u64 \<Rightarrow> int \<Rightarrow> 'n smworld \<Rightarrow> 'n smworld \<times> (RpcErr + GoVal list)) \<Rightarrow> int \<Rightarrow> 'n SMServiceImpl \<Rightarrow>
     string \<Rightarrow> bytes \<Rightarrow> bytes \<Rightarrow> int \<Rightarrow> 'n smworld \<Rightarrow> ('n smworld \<times> bytes \<times> GoErr option) option" where
  "CallService send wait nowUS s targetSvcUrl meth req timeout_ms w = do {
     (w, rsp, err) \<leftarrow> chainHandler (sm_clientInterceptors s) (call_remote send wait nowUS targetSvcUrl meth timeout_ms) req w;
     case rsp of
       VBytes b \<Rightarrow> Some (w, b, err)
     | _ \<Rightarrow> None }"

section \<open>Receiving\<close>

definition SMService_OnMessage ::
  "'n transport \<Rightarrow> int \<Rightarrow> 'n SMServiceImpl \<Rightarrow> Addr \<Rightarrow> bytes \<Rightarrow> 'n smworld \<Rightarrow> 'n smworld option" where
  "SMService_OnMessage send nowUS s rmtAddr data w =
     (let (head, err, unpackLen) = SMRpcHead_Unpack SMRpcHead_Init data in
      if err \<noteq> None then Some w
      else if rh_msgType head = kMsgTypeRsp then
        (let (fw, err) = RpcFramework_WakeUp (sk_rpc (fst w)) (rh_seq head) [VBytes (drop unpackLen data)]
         in Some ((fst w)\<lparr>sk_rpc := fw\<rparr>, snd w))
      else if rh_msgType head = kMsgTypeReq then do {
        meth \<leftarrow> array_slice (rh_method head) (unat (rh_methodLen head));
        case mget (sm_methods s) meth of
          None \<Rightarrow> Some w
        | Some handler \<Rightarrow> do {
            (w, rsp, err) \<leftarrow> onMethod handler (drop unpackLen data) w;
            if err \<noteq> None then Some w
            else if rh_seq head \<noteq> 0 then
              (case rsp of
                 VBytes b \<Rightarrow> do { (w, _) \<leftarrow> SendResponse send nowUS rmtAddr (rh_seq head) b w; Some w }
               | _ \<Rightarrow> None)
            else Some w } }
      else Some w)"

section \<open>Frames\<close>

definition rpc_head :: "int \<Rightarrow> u8 \<Rightarrow> u64 \<Rightarrow> bytes \<Rightarrow> SMRpcHead" where
  "rpc_head nowUS msgType seq meth =
     \<lparr>rh_msgType = msgType, rh_methodLen = word_of_nat (length meth),
      rh_method = copy_at 0 meth (replicate RPC_METHOD_MAX_LEN 0), rh_seq = seq, rh_timeUS = word_of_int nowUS, rh_version = 0\<rparr>"

definition rpc_frame :: "int \<Rightarrow> u8 \<Rightarrow> u64 \<Rightarrow> bytes \<Rightarrow> bytes \<Rightarrow> bytes" where
  "rpc_frame nowUS msgType seq meth body = head_bytes (rpc_head nowUS msgType seq meth) @ body"

definition rpc_fits :: "bytes \<Rightarrow> bytes \<Rightarrow> bool" where
  "rpc_fits meth body \<longleftrightarrow> length meth \<le> RPC_METHOD_MAX_LEN \<and> length body + SMRpcHead_Size \<le> PACK_BUFFER_LEN"

definition link_ok :: "SMLink \<Rightarrow> bool" where
  "link_ok l \<longleftrightarrow> sk_transport l \<and> length (sk_packBuffer l) = PACK_BUFFER_LEN"

lemma unat_method_len: "length m \<le> 32 \<Longrightarrow> unat (word_of_nat (length m) :: u8) = length m"
  by (simp add: unat_of_nat)

lemma rpc_head_ok: "length meth \<le> 32 \<Longrightarrow> head_ok (rpc_head nowUS mt seq meth)"
  by (simp add: head_ok_def rpc_head_def unat_method_len)

lemma rpc_head_method:
  "length meth \<le> 32 \<Longrightarrow> take (unat (rh_methodLen (rpc_head nowUS mt seq meth))) (rh_method (rpc_head nowUS mt seq meth)) = meth"
  by (simp add: rpc_head_def unat_method_len copy_at_def)

lemma rpc_head_length: "length meth \<le> 32 \<Longrightarrow> length (head_bytes (rpc_head nowUS mt seq meth)) = 19 + length meth"
  using head_bytes_length [OF rpc_head_ok] by (simp add: rpc_head_def unat_method_len)

lemma rpc_frame_unpack:
  assumes "length meth \<le> 32"
  shows "SMRpcHead_Unpack SMRpcHead_Init (rpc_frame nowUS mt seq meth body) =
    (rpc_head nowUS mt seq meth, None, 19 + length meth)"
proof -
  have "SMRpcHead_Unpack SMRpcHead_Init (head_bytes (rpc_head nowUS mt seq meth) @ body) =
      ((rpc_head nowUS mt seq meth)\<lparr>rh_method := copy_at 0 meth (replicate 32 0)\<rparr>, None, 19 + length meth)"
    using SMRpcHead_Unpack_bytes [of "rpc_head nowUS mt seq meth" SMRpcHead_Init body, OF rpc_head_ok [OF assms]]
    unfolding rpc_head_method [OF assms] rpc_head_length [OF assms] by (simp add: SMRpcHead_Init_def)
  then show ?thesis by (simp add: rpc_frame_def rpc_head_def)
qed

lemma rpc_frame_body: "length meth \<le> 32 \<Longrightarrow> drop (19 + length meth) (rpc_frame nowUS mt seq meth body) = body"
  by (simp add: rpc_frame_def rpc_head_length)

lemma rawPack_ok:
  assumes "link_ok l" "rpc_fits meth body"
  shows "rawPack nowUS l mt seq meth body =
    Some (l\<lparr>sk_packBuffer := copy_at 0 (rpc_frame nowUS mt seq meth body) (sk_packBuffer l)\<rparr>,
      Inr (length (rpc_frame nowUS mt seq meth body)))"
proof -
  let ?h = "rpc_head nowUS mt seq meth" and ?b = "sk_packBuffer l"
  have m: "length meth \<le> 32" "length body + 51 \<le> 4096" "length ?b = 4096" using assms by (auto simp: rpc_fits_def link_ok_def)
  have "SMRpcHead_Pack ?h ?b = Some (copy_at 0 (head_bytes ?h) ?b, None, 19 + length meth)"
    using SMRpcHead_Pack_ok [OF rpc_head_ok [OF m(1)], where b = ?b] m rpc_head_length [OF m(1)] by simp
  moreover have "copy_at (19 + length meth) body (copy_at 0 (head_bytes ?h) ?b) = copy_at 0 (head_bytes ?h @ body) ?b"
    using m by (intro copy_at_snoc) (simp_all add: rpc_head_length)
  ultimately show ?thesis using m
    by (simp add: rawPack_def Let_def rpc_frame_def rpc_head_length) (simp add: rpc_head_def SMRpcHead_Init_def)
qed

lemma rawSend_ok:
  assumes "link_ok (fst w)" "rpc_fits meth body"
  shows "\<exists>l'. link_ok l' \<and> sk_rpc l' = sk_rpc (fst w) \<and>
    rawSend send nowUS url mt seq meth body w =
      (let (n, err) = send url (rpc_frame nowUS mt seq meth body) (snd w) in Some ((l', n), map_option ESend err))"
proof -
  let ?f = "rpc_frame nowUS mt seq meth body" and ?b = "sk_packBuffer (fst w)"
  let ?l = "(fst w)\<lparr>sk_packBuffer := copy_at 0 ?f ?b\<rparr>"
  have "length ?f \<le> length ?b" using assms by (simp add: rpc_frame_def rpc_head_length rpc_fits_def link_ok_def)
  then have "take (length ?f) (copy_at 0 ?f ?b) = ?f" by (simp add: copy_at_def)
  moreover have "link_ok ?l" using assms(1) by (simp add: link_ok_def)
  ultimately show ?thesis using rawPack_ok [OF assms, of nowUS mt seq] assms(1)
    by (intro exI [of _ ?l]) (simp add: rawSend_def link_ok_def)
qed

lemma rawSend_total:
  assumes "link_ok (fst w)" "length meth \<le> RPC_METHOD_MAX_LEN"
  shows "\<exists>w' e. rawSend send nowUS url mt seq meth body w = Some (w', e)"
proof (cases "rpc_fits meth body")
  case True
  then show ?thesis using rawSend_ok [OF assms(1), of meth body send nowUS url mt seq]
    by (cases "send url (rpc_frame nowUS mt seq meth body) (snd w)") auto
next
  case False
  then show ?thesis using assms(2) by (simp add: rpc_fits_def rawSend_def rawPack_def)
qed

lemma SMRpcHead_Unpack_fields:
  assumes "SMRpcHead_Unpack h0 d = (h, None, n)"
  shows "rh_msgType h = d ! 0" "rh_methodLen h = d ! 1" "length (rh_method h) = length (rh_method h0)"
  using assms by (auto simp: SMRpcHead_Unpack_def Let_def copy_at_def split: if_splits)

section \<open>Interceptors\<close>

lemma chain_loop_foldr:
  "n \<le> length is \<Longrightarrow> chain_loop is n h = foldr (\<lambda>i g msg. i msg g) (take n is) h"
  by (induction n arbitrary: h) (simp_all add: take_Suc_conv_app_nth)

lemma chainHandler_foldr: "chainHandler is h = foldr (\<lambda>i g msg. i msg g) is h"
  by (simp add: chainHandler_def chain_loop_foldr)

lemma ApplyServerInterceptors_eq:
  "ApplyServerInterceptors s is = s\<lparr>sm_serverInterceptors := sm_serverInterceptors s @ is\<rparr>"
  by (induction "is" arbitrary: s) (simp_all add: ApplyServerInterceptors_def)

text \<open>
  A registered method keeps the interceptors of the moment: those added later wrap only methods
  registered after them, and the first one added is the outermost.
\<close>

lemma RegisterFunc_interceptors:
  "map_option onMethod (mget (sm_methods (ApplyServerInterceptors (RegisterFunc (ApplyServerInterceptors s is) m h) js)) m) =
     Some (foldr (\<lambda>i g msg. i msg g) (sm_serverInterceptors s @ is) h)"
  by (simp add: ApplyServerInterceptors_eq RegisterFunc_def onMethod_def chainHandler_foldr)

text \<open>What a request does at the service that knows the method, and a response at the client that waits for it.\<close>

lemma OnMessage_request:
  assumes "rpc_fits meth req" "seq \<noteq> 0" "mget (sm_methods s) meth = Some h" "onMethod h req ws = Some (ws', VBytes rsp, None)"
    and "link_ok (fst ws')" "rpc_fits [] rsp"
  shows "\<exists>ls. link_ok ls \<and> SMService_OnMessage sends t' s caller (rpc_frame t kMsgTypeReq seq meth req) ws =
    (let (n, e) = sends (SkymeshAddr2Url caller False) (rpc_frame t' kMsgTypeRsp seq [] rsp) (snd ws') in Some (ls, n))"
proof -
  let ?g = "rpc_frame t' kMsgTypeRsp seq [] rsp"
  have m: "length meth \<le> 32" using assms(1) by (simp add: rpc_fits_def)
  obtain ls where s: "link_ok ls" "SendResponse sends t' caller seq rsp ws' =
      (let (n, e) = sends (SkymeshAddr2Url caller False) ?g (snd ws') in Some ((ls, n), map_option ESend e))"
    using rawSend_ok [OF assms(5,6)] unfolding SendResponse_def by blast
  have slice: "array_slice (rh_method (rpc_head t kMsgTypeReq seq meth)) (unat (rh_methodLen (rpc_head t kMsgTypeReq seq meth))) = Some meth"
    using m rpc_head_method [OF m, of t kMsgTypeReq seq] rpc_head_ok [OF m, of t kMsgTypeReq seq] by (simp add: array_slice_def head_ok_def)
  have "rh_msgType (rpc_head k mt q mm) = mt" "rh_seq (rpc_head k mt q mm) = q" for k mt q mm by (simp_all add: rpc_head_def)
  then show ?thesis using slice assms(2-4) s
    by (intro exI [of _ ls])
      (simp add: SMService_OnMessage_def rpc_frame_unpack [OF m] rpc_frame_body [OF m] split: prod.splits)
qed

lemma OnMessage_response:
  assumes "mget (fw_pending (sk_rpc l)) seq = Some ch" "fw_chans (sk_rpc l) ch = []"
  shows "SMService_OnMessage sendc t'' cl callee (rpc_frame t' kMsgTypeRsp seq [] rsp) (l, nc) =
    Some (l\<lparr>sk_rpc := (sk_rpc l)\<lparr>fw_pending := mdel seq (fw_pending (sk_rpc l)), fw_chans := (fw_chans (sk_rpc l))(ch := [[VBytes rsp]])\<rparr>\<rparr>, nc)"
proof -
  have "rh_msgType (rpc_head k mt q mm) = mt" "rh_seq (rpc_head k mt q mm) = q" for k mt q mm by (simp_all add: rpc_head_def)
  then show ?thesis
    using rpc_frame_unpack [of "[]" t' kMsgTypeRsp seq rsp] rpc_frame_body [of "[]" t' kMsgTypeRsp seq rsp] assms
    by (simp add: SMService_OnMessage_def RpcFramework_WakeUp_def WakeUp_lock_def WakeUp_send_def chan_offer_def)
qed

section \<open>Properties\<close>

text \<open>
  A remote call is answered: the request a client writes, handled by a service that knows the
  method, calls the handler with the bytes of the request; the response frame it sends to the URL of
  the caller, handled by the client while the call waits, puts the bytes of the handler's result into
  the channel of that call and of no other.
\<close>

theorem rpc_call_roundtrip:
  assumes "link_ok (fst wc)" "rpc_fits meth req" "seq \<noteq> 0"
    and "mget (sm_methods s) meth = Some h" "onMethod h req ws = Some (ws', VBytes rsp, None)" "link_ok (fst ws')" "rpc_fits [] rsp"
    and "mget (fw_pending (sk_rpc l)) seq = Some ch" "fw_chans (sk_rpc l) ch = []"
  shows "\<exists>reqFrame rspFrame lc ls l' fw.
    rawSend sendc t url kMsgTypeReq seq meth req wc = (let (n, e) = sendc url reqFrame (snd wc) in Some ((lc, n), map_option ESend e)) \<and>
    SMService_OnMessage sends t' s caller reqFrame ws =
      (let (n, e) = sends (SkymeshAddr2Url caller False) rspFrame (snd ws') in Some (ls, n)) \<and>
    SMService_OnMessage sendc t'' cl callee rspFrame (l, nc) = Some (l', nc) \<and>
    Wait_recv (sk_rpc l') ch = Some (fw, [VBytes rsp]) \<and>
    (\<forall>c. c \<noteq> ch \<longrightarrow> fw_chans (sk_rpc l') c = fw_chans (sk_rpc l) c) \<and> mget (fw_pending (sk_rpc l')) seq = None"
proof -
  let ?f = "rpc_frame t kMsgTypeReq seq meth req" and ?g = "rpc_frame t' kMsgTypeRsp seq [] rsp"
  obtain lc where c: "rawSend sendc t url kMsgTypeReq seq meth req wc =
      (let (n, e) = sendc url ?f (snd wc) in Some ((lc, n), map_option ESend e))"
    using rawSend_ok [OF assms(1,2)] by blast
  obtain ls where s: "SMService_OnMessage sends t' s caller ?f ws =
      (let (n, e) = sends (SkymeshAddr2Url caller False) ?g (snd ws') in Some (ls, n))"
    using OnMessage_request [OF assms(2-7)] by blast
  let ?fw = "(sk_rpc l)\<lparr>fw_pending := mdel seq (fw_pending (sk_rpc l)), fw_chans := (fw_chans (sk_rpc l))(ch := [[VBytes rsp]])\<rparr>"
  show ?thesis using c s OnMessage_response [OF assms(8,9), of sendc t'' cl callee t' rsp nc]
    by (intro exI [of _ ?f] exI [of _ ?g] exI [of _ lc] exI [of _ ls] exI [of _ "l\<lparr>sk_rpc := ?fw\<rparr>"]) (simp add: Wait_recv_def)
qed

definition ex_echo :: "unit SMServiceImpl" where
  "ex_echo = RegisterFunc (fst (newSMService [])) [104, 105] (\<lambda>msg w. Some (w, VBytes (rev msg), None))"

definition ex_link :: SMLink where
  "ex_link = SMService_OnRegister (snd (newSMService [] :: unit SMServiceImpl \<times> SMLink)) 0"

definition ex_waiting :: SMLink where
  "ex_waiting = ex_link\<lparr>sk_rpc := fst (Wait_lock (sk_rpc ex_link) 7)\<rparr>"

lemma ex_rpc_facts: "link_ok ex_link" "rpc_fits [104, 105] [1, 2, 3]" "rpc_fits [] [3, 2, 1]"
  "mget (sm_methods ex_echo) [104, 105] = Some \<lparr>mh_handler = (\<lambda>msg w. Some (w, VBytes (rev msg), None)), mh_interceptors = []\<rparr>"
  "mget (fw_pending (sk_rpc ex_waiting)) 7 = Some 0" "fw_chans (sk_rpc ex_waiting) 0 = []"
  by (simp_all add: link_ok_def ex_link_def SMService_OnRegister_def newSMService_def rpc_fits_def ex_echo_def RegisterFunc_def
      ex_waiting_def Wait_lock_def RpcFramework_Init_def RpcFramework_new_def)

theorem rpc_call_roundtrip_witness:
  "\<exists>reqFrame rspFrame lc ls l' fw.
    rawSend (\<lambda>url b n. (n, None)) 0 [] kMsgTypeReq 7 [104, 105] [1, 2, 3] (ex_link, ()) = Some ((lc, ()), None) \<and>
    SMService_OnMessage (\<lambda>url b n. (n, None)) 0 ex_echo \<lparr>ServiceName = [], ServiceId = 1, AddrHandle = 2\<rparr> reqFrame (ex_link, ()) = Some (ls, ()) \<and>
    SMService_OnMessage (\<lambda>url b n. (n, None)) 0 ex_echo \<lparr>ServiceName = [], ServiceId = 1, AddrHandle = 2\<rparr> rspFrame (ex_waiting, ()) = Some (l', ()) \<and>
    Wait_recv (sk_rpc l') 0 = Some (fw, [VBytes [3, 2, 1]])"
proof -
  have "onMethod \<lparr>mh_handler = (\<lambda>msg w. Some (w, VBytes (rev msg), None)), mh_interceptors = []\<rparr> [1, 2, 3] (ex_link, ()) =
      Some ((ex_link, ()), VBytes [3, 2, 1], None)"
    by (simp add: onMethod_def chainHandler_def)
  from rpc_call_roundtrip [of "(ex_link, ())" "[104, 105]" "[1, 2, 3]" 7 ex_echo, OF _ ex_rpc_facts(2) _ ex_rpc_facts(4) this _ ex_rpc_facts(3,5,6),
      of "\<lambda>url b n. (n, None)" 0 "[]" "\<lambda>url b n. (n, None)" 0 "\<lparr>ServiceName = [], ServiceId = 1, AddrHandle = 2\<rparr>" 0 ex_echo
        "\<lparr>ServiceName = [], ServiceId = 1, AddrHandle = 2\<rparr>" "()"]
  show ?thesis by (simp add: ex_rpc_facts(1)) blast
qed



text \<open>
  An error of a call never reaches the caller: the result is asserted to be a byte slice before
  the error is returned, so a call that times out panics.
\<close>

theorem rpc_call_error_panics:
  assumes "sm_clientInterceptors s = []" "link_ok (fst w)" "rpc_fits meth req"
    and "\<And>q w. wait q timeout_ms w = (w, Inl e)"
  shows "CallService send wait nowUS s url meth req timeout_ms w = None"
proof -
  let ?fw = "(sk_rpc (fst w))\<lparr>fw_seq := nextSess (fw_seq (sk_rpc (fst w)))\<rparr>" and ?q = "nextSess (fw_seq (sk_rpc (fst w)))"
  let ?w = "((fst w)\<lparr>sk_rpc := ?fw\<rparr>, snd w)"
  obtain w' err where "rawSend send nowUS url kMsgTypeReq ?q meth req ?w = Some (w', err)"
    using rawSend_total [of ?w meth send nowUS url kMsgTypeReq ?q req] assms(2,3) by (auto simp: link_ok_def rpc_fits_def)
  then show ?thesis using assms(1,4)
    by (cases err) (simp_all add: CallService_def chainHandler_def call_remote_def genSess_nextSess)
qed

text \<open>
  All messages of a service are packed into one buffer, and a local receiver gets a slice of it: when a
  second message is packed before the first is handled, the first reads the bytes of the second.
\<close>

theorem rpc_local_send_overwritten:
  assumes "link_ok l" "rpc_fits m1 b1" "rpc_fits m2 b2" "length m1 + length b1 \<le> length m2 + length b2"
  shows "\<exists>l1 l2 n1 n2. rawPack t1 l mt1 q1 m1 b1 = Some (l1, Inr n1) \<and> take n1 (sk_packBuffer l1) = rpc_frame t1 mt1 q1 m1 b1 \<and>
    rawPack t2 l1 mt2 q2 m2 b2 = Some (l2, Inr n2) \<and> take n1 (sk_packBuffer l2) = take n1 (rpc_frame t2 mt2 q2 m2 b2)"
proof -
  let ?f = "rpc_frame t1 mt1 q1 m1 b1" and ?g = "rpc_frame t2 mt2 q2 m2 b2" and ?b = "sk_packBuffer l"
  let ?l1 = "l\<lparr>sk_packBuffer := copy_at 0 ?f ?b\<rparr>"
  have len: "length ?f \<le> length ?g" "length ?g \<le> length ?b"
    using assms by (simp_all add: rpc_frame_def rpc_head_length rpc_fits_def link_ok_def)
  have ok: "link_ok ?l1" using assms(1) by (simp add: link_ok_def)
  have "take (length ?f) (copy_at 0 ?f ?b) = ?f" "take (length ?f) (copy_at 0 ?g (copy_at 0 ?f ?b)) = take (length ?f) ?g"
    using len by (simp_all add: copy_at_def)
  then show ?thesis using rawPack_ok [OF assms(1,2), of t1 mt1 q1] rawPack_ok [OF ok assms(3), of t2 mt2 q2] by simp
qed

end
