(* ===== verification/AppsRpc.thy ===== *)
theory AppsRpc
  imports Apps SmService
begin

text \<open>
  \<^verbatim>\<open>src/examples/inner_service\<close>: a server with one method and a client that notifies and calls it. The
  generated code of \<^verbatim>\<open>smservice.proto\<close> is a parameter: the encoders may fail, and the decoders
  give nothing on an error.
\<close>

section \<open>Messages\<close>

record HelloCodec =
  hc_marRequest :: "string \<Rightarrow> bytes option"
  hc_unmRequest :: "bytes \<Rightarrow> string option"
  hc_marReply :: "string \<Rightarrow> bytes option"
  hc_unmReply :: "bytes \<Rightarrow> string option"

definition hello_codec :: "HelloCodec \<Rightarrow> bool" where
  "hello_codec hc \<longleftrightarrow> (\<forall>s b. hc_marRequest hc s = Some b \<longrightarrow> hc_unmRequest hc b = Some s) \<and>
     (\<forall>s b. hc_marReply hc s = Some b \<longrightarrow> hc_unmReply hc b = Some s)"

definition sayHello :: bytes where
  "sayHello = bytes_of_string ''SayHello''"

section \<open>The server\<close>

definition sms_svcUrl :: string where
  "sms_svcUrl = apps_appID @ ''.weixin1.SMgreeterServer/101''"

definition replyMessage :: string where
  "replyMessage = ''Nice to meet you ''"

text \<open>A failed encoding returns an empty slice with its error.\<close>

definition onSayHello :: "HelloCodec \<Rightarrow> 'w HandlerFunc" where
  "onSayHello hc msg w =
     (case hc_unmRequest hc msg of
        None \<Rightarrow> Some (w, VNil, Some (EApp ''invail request''))
      | Some name \<Rightarrow>
          (case hc_marReply hc (replyMessage @ name) of
             None \<Rightarrow> Some (w, VBytes [], Some (EApp ''marshal''))
           | Some b \<Rightarrow> Some (w, VBytes b, None)))"

text \<open>The interceptor of both programs measures the time and passes everything on.\<close>

definition greetInterceptor :: "'w SMInterceptor" where
  "greetInterceptor b handler w = do { (w, rsp, err) \<leftarrow> handler b w; Some (w, rsp, err) }"

definition sm_server_impl :: "HelloCodec \<Rightarrow> skymeshServer SMServiceImpl" where
  "sm_server_impl hc =
     RegisterFunc (ApplyServerInterceptors (fst (newSMService sms_svcUrl)) [greetInterceptor]) sayHello (onSayHello hc)"

text \<open>The link of a new service is what its registration starts with.\<close>

definition newLink :: "string \<Rightarrow> SMLink" where
  "newLink url =
     (let (s :: skymeshServer SMServiceImpl, l) = newSMService url in l\<lparr>sk_rpc := RpcFramework_Init (sk_rpc l)\<rparr>)"

definition sm_call ::
  "Process \<Rightarrow> int \<Rightarrow> skymeshServer SMServiceImpl \<Rightarrow> nat \<Rightarrow> AppCall \<Rightarrow> SMLink app \<Rightarrow> SMLink app option" where
  "sm_call P nowUS impl q c w =
     (case c of
        AppOnRegister h result \<Rightarrow> Some (SMService_OnRegister (fst w) result, snd w)
      | AppOnUnRegister h \<Rightarrow> Some (SMService_OnUnRegister (fst w), snd w)
      | AppOnMessage h rmtAddr msg \<Rightarrow>
          SMService_OnMessage (\<lambda>url b s. ss_SendBySvcUrl (pr_mar P) (pr_env P) s q url b) nowUS impl rmtAddr msg w)"

definition sm_server_main ::
  "Process \<Rightarrow> HelloCodec \<Rightarrow> (nat \<Rightarrow> SMLink app \<Rightarrow> (SMLink app \<times> int option) option) \<Rightarrow> Signal list \<Rightarrow>
     (SMLink app \<Rightarrow> SMLink app option) \<Rightarrow> string \<Rightarrow> (skymeshServer SMServiceImpl \<times> SMLink app MainEnd) option" where
  "sm_server_main P hc meanwhile incoming stop conf =
     map_option (\<lambda>e. (sm_server_impl hc, e))
       (main_start P meanwhile conf apps_appID sms_svcUrl (newLink sms_svcUrl) (\<lambda>_. WaitSignalToStop main_signals incoming stop))"

section \<open>The client\<close>

definition smc_svcUrl :: string where
  "smc_svcUrl = apps_appID @ ''.weixin1.SMgreeterClient/101''"

definition smc_dstUrl :: string where
  "smc_dstUrl = apps_appID @ ''.weixin1.SMgreeterServer/101''"

definition NotifyName :: string where
  "NotifyName = ''Jerry''"

definition CallName :: string where
  "CallName = ''Bob''"

text \<open>
  How a greeting ended: the errors are logged and end it, but for the first encoding, whose error is
  logged and the notification sent without a body, and the last decoding.
\<close>

datatype GreetEnd = NotifyFailed GoErr | CallNotEncoded | CallFailed GoErr | Greeting "string option"

definition greetServer ::
  "'n transport \<Rightarrow> (u64 \<Rightarrow> int \<Rightarrow> 'n smworld \<Rightarrow> 'n smworld \<times> (RpcErr + GoVal list)) \<Rightarrow> int \<Rightarrow> int \<Rightarrow> HelloCodec \<Rightarrow>
     'n SMServiceImpl \<Rightarrow> 'n smworld \<Rightarrow> ('n smworld \<times> GreetEnd) option" where
  "greetServer send wait t1 t2 hc s w = do {
     let reqMsg = (case hc_marRequest hc NotifyName of None \<Rightarrow> [] | Some b \<Rightarrow> b);
     (w, err) \<leftarrow> NotifyService send t1 smc_dstUrl sayHello reqMsg w;
     case err of
       Some e \<Rightarrow> Some (w, NotifyFailed e)
     | None \<Rightarrow>
         (case hc_marRequest hc CallName of
            None \<Rightarrow> Some (w, CallNotEncoded)
          | Some reqMsg \<Rightarrow> do {
              (w, rspMsg, err) \<leftarrow> CallService send wait t2 s smc_dstUrl sayHello reqMsg 10000 w;
              case err of
                Some e \<Rightarrow> Some (w, CallFailed e)
              | None \<Rightarrow> Some (w, Greeting (hc_unmReply hc rspMsg)) }) }"

definition sm_client_impl :: "'n SMServiceImpl" where
  "sm_client_impl = ApplyClientInterceptors (fst (newSMService smc_svcUrl)) [greetInterceptor]"

text \<open>The loop over the ticker, as in the other clients, does not end; each tick is a \<open>greetServer\<close>.\<close>

definition sm_client_main ::
  "Process \<Rightarrow> (nat \<Rightarrow> SMLink app \<Rightarrow> (SMLink app \<times> int option) option) \<Rightarrow> string \<Rightarrow>
     (skymeshServer SMServiceImpl \<times> SMLink app MainEnd) option" where
  "sm_client_main P meanwhile conf =
     map_option (\<lambda>e. (sm_client_impl, e))
       (main_start P meanwhile conf apps_appID smc_svcUrl (newLink smc_svcUrl) (\<lambda>_ w. Some (MainTicks w)))"

section \<open>Lemmas\<close>

lemma greetInterceptor_pass [simp]: "greetInterceptor b handler = handler b"
  by (rule ext) (auto simp: greetInterceptor_def split: Option.bind_splits)

lemma server_method:
  "mget (sm_methods (sm_server_impl hc)) sayHello = Some \<lparr>mh_handler = onSayHello hc, mh_interceptors = [greetInterceptor]\<rparr>"
  by (simp add: sm_server_impl_def RegisterFunc_def ApplyServerInterceptors_def newSMService_def)

lemma server_answers:
  assumes "hello_codec hc" "hc_marRequest hc name = Some req" "hc_marReply hc (replyMessage @ name) = Some rsp"
  shows "onMethod \<lparr>mh_handler = onSayHello hc, mh_interceptors = [greetInterceptor]\<rparr> req w = Some (w, VBytes rsp, None)"
  using assms by (simp add: onMethod_def chainHandler_foldr onSayHello_def hello_codec_def)

lemma client_chain: "chainHandler (sm_clientInterceptors sm_client_impl) h = h"
  by (rule ext) (simp add: chainHandler_foldr sm_client_impl_def ApplyClientInterceptors_def newSMService_def)

lemma OnMessage_notify:
  assumes "rpc_fits meth req" "mget (sm_methods s) meth = Some h" "onMethod h req w = Some (w', rsp, None)"
  shows "SMService_OnMessage send t' s caller (rpc_frame t kMsgTypeReq 0 meth req) w = Some w'"
proof -
  have m: "length meth \<le> 32" using assms(1) by (simp add: rpc_fits_def)
  have slice: "array_slice (rh_method (rpc_head t kMsgTypeReq 0 meth)) (unat (rh_methodLen (rpc_head t kMsgTypeReq 0 meth))) = Some meth"
    using m rpc_head_method [OF m, of t kMsgTypeReq 0] rpc_head_ok [OF m, of t kMsgTypeReq 0] by (simp add: array_slice_def head_ok_def)
  have "rh_msgType (rpc_head k mt q mm) = mt" "rh_seq (rpc_head k mt q mm) = q" for k mt q mm by (simp_all add: rpc_head_def)
  then show ?thesis using slice assms(2,3)
    by (simp add: SMService_OnMessage_def rpc_frame_unpack [OF m] rpc_frame_body [OF m])
qed

lemma sayHello_fits: "length b + SMRpcHead_Size \<le> PACK_BUFFER_LEN \<Longrightarrow> rpc_fits sayHello b"
  by (simp add: rpc_fits_def sayHello_def bytes_of_string_def)

section \<open>Properties\<close>

text \<open>
  The client is greeted by its name: a tick sends two requests for the method of the server, one with the
  session number 0 and one with a fresh one; the server answers the first with nothing and the second
  with the greeting; when the call gets that answer, the client reads the greeting for the name it
  called with.
\<close>

theorem greeted_by_name:
  assumes "hello_codec hc" "hc_marRequest hc NotifyName = Some reqJ" "hc_marRequest hc CallName = Some req"
    "hc_marReply hc (replyMessage @ NotifyName) = Some rspJ" "hc_marReply hc (replyMessage @ CallName) = Some rsp"
    and "length reqJ + SMRpcHead_Size \<le> PACK_BUFFER_LEN" "length req + SMRpcHead_Size \<le> PACK_BUFFER_LEN"
    "length rsp + SMRpcHead_Size \<le> PACK_BUFFER_LEN"
    and "link_ok (fst w)" "\<forall>url b n. snd (send url b n) = None" "link_ok (fst ws)"
  shows "\<exists>seq frameJ frame rspFrame ls. seq \<noteq> 0 \<and>
    SMService_OnMessage sends t' (sm_server_impl hc) caller frameJ ws = Some ws \<and>
    SMService_OnMessage sends t' (sm_server_impl hc) caller frame ws =
      (let (n, e) = sends (SkymeshAddr2Url caller False) rspFrame (snd ws) in Some (ls, n)) \<and>
    rspFrame = rpc_frame t' kMsgTypeRsp seq [] rsp \<and>
    ((\<forall>w. wait seq 10000 w = (w, Inr [VBytes rsp])) \<longrightarrow>
      (\<exists>l. greetServer send wait t1 t2 hc sm_client_impl w =
        Some ((l, fst (send smc_dstUrl frame (fst (send smc_dstUrl frameJ (snd w))))), Greeting (Some ''Nice to meet you Bob''))))"
proof -
  let ?fJ = "rpc_frame t1 kMsgTypeReq 0 sayHello reqJ"
  have fits: "rpc_fits sayHello reqJ" "rpc_fits sayHello req" "rpc_fits [] rsp"
    using sayHello_fits assms(6,7,8) by (auto simp: rpc_fits_def)
  have send: "send url b n = (fst (send url b n), None)" for url b n using assms(10) by (metis prod.collapse)
  obtain l1 where l1: "link_ok l1" "sk_rpc l1 = sk_rpc (fst w)"
    "rawSend send t1 smc_dstUrl kMsgTypeReq 0 sayHello reqJ w = Some ((l1, fst (send smc_dstUrl ?fJ (snd w))), None)"
    using rawSend_ok [OF assms(9) fits(1), of send t1 smc_dstUrl kMsgTypeReq 0] send [of smc_dstUrl ?fJ "snd w"]
    by (metis (mono_tags, lifting) case_prod_conv option.map_disc_iff)
  let ?fw = "(sk_rpc l1)\<lparr>fw_seq := nextSess (fw_seq (sk_rpc l1))\<rparr>" and ?q = "nextSess (fw_seq (sk_rpc l1))"
  let ?f = "rpc_frame t2 kMsgTypeReq ?q sayHello req" and ?n = "fst (send smc_dstUrl ?fJ (snd w))"
  have q: "?q \<noteq> 0" by (simp add: nextSess_def)
  have ok: "link_ok (l1\<lparr>sk_rpc := ?fw\<rparr>)" using l1(1) by (simp add: link_ok_def)
  obtain l2 where l2: "rawSend send t2 smc_dstUrl kMsgTypeReq ?q sayHello req (l1\<lparr>sk_rpc := ?fw\<rparr>, ?n) =
      Some ((l2, fst (send smc_dstUrl ?f ?n)), None)"
    using rawSend_ok [of "(l1\<lparr>sk_rpc := ?fw\<rparr>, ?n)", OF _ fits(2), of send t2 smc_dstUrl kMsgTypeReq ?q] ok send [of smc_dstUrl ?f ?n]
    by (metis (mono_tags, lifting) case_prod_conv fst_conv option.map_disc_iff snd_conv)
  have call: "greetServer send wait t1 t2 hc sm_client_impl w = Some ((l2, fst (send smc_dstUrl ?f ?n)), Greeting (Some ''Nice to meet you Bob''))"
    if "\<forall>w. wait ?q 10000 w = (w, Inr [VBytes rsp])"
    using that assms(1,2,3,5) l1(3) l2
    by (simp add: greetServer_def NotifyService_def CallService_def client_chain call_remote_def genSess_nextSess hello_codec_def
        replyMessage_def CallName_def)
  note smeth = server_method [of hc]
  have silent: "SMService_OnMessage sends t' (sm_server_impl hc) caller ?fJ ws = Some ws"
    by (rule OnMessage_notify [OF fits(1) smeth server_answers [OF assms(1,2,4)]])
  obtain ls where answer: "SMService_OnMessage sends t' (sm_server_impl hc) caller ?f ws =
      (let (n, e) = sends (SkymeshAddr2Url caller False) (rpc_frame t' kMsgTypeRsp ?q [] rsp) (snd ws) in Some (ls, n))"
    using OnMessage_request [OF fits(2) q smeth server_answers [OF assms(1,3,5)] assms(11) fits(3)] by blast
  show ?thesis using q silent answer call by blast
qed

definition ex_codec :: HelloCodec where
  "ex_codec = \<lparr>hc_marRequest = (\<lambda>s. Some (bytes_of_string s)), hc_unmRequest = (\<lambda>b. Some (string_of_bytes b)),
     hc_marReply = (\<lambda>s. Some (bytes_of_string s)), hc_unmReply = (\<lambda>b. Some (string_of_bytes b))\<rparr>"

theorem greeted_by_name_witness:
  "\<exists>seq wait (w :: nat smworld). seq \<noteq> 0 \<and> (\<forall>w. wait seq 10000 w = (w, Inr [VBytes (bytes_of_string ''Nice to meet you Bob'')])) \<and>
     greetServer (\<lambda>url b n. (n + 1, None)) wait 0 1 ex_codec sm_client_impl (ex_link, 0) = Some (w, Greeting (Some ''Nice to meet you Bob'')) \<and>
     snd w = 2"
proof -
  let ?wait = "\<lambda>(q :: u64) (t :: int) (w :: nat smworld). (w, Inr [VBytes (bytes_of_string (replyMessage @ CallName))])"
  let ?send = "\<lambda>(url :: string) (b :: bytes) (n :: nat). (n + 1, None :: SendErr option)"
  have codec: "hello_codec ex_codec" by (auto simp: hello_codec_def ex_codec_def)
  have enc: "hc_marRequest ex_codec s = Some (bytes_of_string s)" "hc_marReply ex_codec s = Some (bytes_of_string s)" for s
    by (simp_all add: ex_codec_def)
  have len: "length (bytes_of_string NotifyName) + SMRpcHead_Size \<le> PACK_BUFFER_LEN"
    "length (bytes_of_string CallName) + SMRpcHead_Size \<le> PACK_BUFFER_LEN"
    "length (bytes_of_string (replyMessage @ CallName)) + SMRpcHead_Size \<le> PACK_BUFFER_LEN"
    by (simp_all add: bytes_of_string_def NotifyName_def CallName_def replyMessage_def)
  have ok: "link_ok (fst (ex_link, 0 :: nat))" "link_ok (fst (ex_link, ex_agent0))" using ex_rpc_facts(1) by simp_all
  have quiet: "\<forall>url b n. snd (?send url b n) = None" by simp
  note g = greeted_by_name [where wait = ?wait and sends = "\<lambda>_ _ n. (n, None)" and t' = 0 and ?t1.0 = 0 and ?t2.0 = 1 and caller = ex_addr,
      OF codec enc(1) enc(1) enc(2) enc(2) len ok(1) quiet ok(2)]
  from g have "\<exists>seq :: u64. seq \<noteq> 0 \<and>
      (\<exists>l. greetServer ?send ?wait 0 1 ex_codec sm_client_impl (ex_link, 0) = Some ((l, 2), Greeting (Some ''Nice to meet you Bob'')))"
    by (elim exE conjE) (rule exI, rule conjI, assumption, simp add: numeral_2_eq_2)
  then obtain seq :: u64 and l where q: "seq \<noteq> 0"
    and "greetServer ?send ?wait 0 1 ex_codec sm_client_impl (ex_link, 0) = Some ((l, 2), Greeting (Some ''Nice to meet you Bob''))" by blast
  with q show ?thesis
    by (intro exI [of _ seq] exI [of _ ?wait] exI [of _ "(l, 2)"]) (simp add: replyMessage_def CallName_def)
qed

end
