(* ===== verification/AppsGrpc.thy ===== *)
theory AppsGrpc
  imports Apps GrpcResolver
begin

text \<open>
  \<^verbatim>\<open>src/examples/grpc/helloworld\<close>: a grpc server on two addresses of the mesh and its client. The
  library of grpc is a parameter: \<open>dial\<close>, the call of a method, and \<open>Serve\<close>, which gets the listener
  and the method and returns its error. \<open>None\<close> is \<^verbatim>\<open>log.Fatalf\<close>.
\<close>

section \<open>The server\<close>

definition grpc_appID :: string where
  "grpc_appID = ''testGrpc''"

definition gsrv_serverUrl :: string where
  "gsrv_serverUrl = ''skymesh://'' @ grpc_appID @ ''.qq1.greeterServer/''"

definition gsrv_addrs :: "string list" where
  "gsrv_addrs = [gsrv_serverUrl @ ''50051'', gsrv_serverUrl @ ''50052'']"

record greeterGrpcServer =
  gg_addr :: string

definition gg_SayHello :: "greeterGrpcServer \<Rightarrow> string \<Rightarrow> string + string" where
  "gg_SayHello s name = Inr (''Hello '' @ name)"

definition gg_startServer ::
  "(string \<Rightarrow> 'w \<Rightarrow> 'w \<times> (AdaptorErr + 'l)) \<Rightarrow> (greeterGrpcServer \<Rightarrow> 'l \<Rightarrow> 'w \<Rightarrow> 'w \<times> string option) \<Rightarrow> string \<Rightarrow> 'w \<Rightarrow> 'w option" where
  "gg_startServer listen serve addr w =
     (case listen addr w of
        (w, Inl e) \<Rightarrow> None
      | (w, Inr lis) \<Rightarrow>
          (case serve \<lparr>gg_addr = addr\<rparr> lis w of
             (w, Some e) \<Rightarrow> None
           | (w, None) \<Rightarrow> Some w))"

text \<open>
  The two goroutines of the main program, in the order in which they come to an end; \<open>register\<close> and
  \<open>release\<close> are those of the adaptor. A failed registration returns at once.
\<close>

fun gg_startAll :: "(string \<Rightarrow> 'w \<Rightarrow> 'w option) \<Rightarrow> string list \<Rightarrow> 'w \<Rightarrow> 'w option" where
  "gg_startAll start [] w = Some w"
| "gg_startAll start (a # as) w = do { w \<leftarrow> start a w; gg_startAll start as w }"

definition grpc_server_main ::
  "(string \<Rightarrow> string \<Rightarrow> 'w \<Rightarrow> 'w \<times> AdaptorErr option) \<Rightarrow> ('w \<Rightarrow> 'w option) \<Rightarrow> (string \<Rightarrow> 'w \<Rightarrow> 'w option) \<Rightarrow> string list \<Rightarrow>
     string \<Rightarrow> 'w \<Rightarrow> 'w option" where
  "grpc_server_main register release start order conf w =
     (case register conf grpc_appID w of
        (w, Some e) \<Rightarrow> Some w
      | (w, None) \<Rightarrow> do { w \<leftarrow> gg_startAll start order w; release w })"

section \<open>The client\<close>

definition gcl_serverUrl :: string where
  "gcl_serverUrl = ''skymesh:///'' @ grpc_appID @ ''.qq1.greeterServer''"

text \<open>One call: the greeting and the address of the peer, or the error, is printed.\<close>

definition gcl_call :: "(string \<Rightarrow> 'w \<Rightarrow> 'w \<times> (string + string \<times> Addr)) \<Rightarrow> 'w \<times> (string + string \<times> Addr) list \<Rightarrow> 'w \<times> (string + string \<times> Addr) list" where
  "gcl_call sayHello v = (case sayHello ''world'' (fst v) of (w, r) \<Rightarrow> (w, snd v @ [r]))"

text \<open>What was printed; the connection and the adaptor are released in the order of the deferred calls.\<close>

definition grpc_client_main ::
  "(string \<Rightarrow> string \<Rightarrow> 'w \<Rightarrow> 'w \<times> AdaptorErr option) \<Rightarrow> ('w \<Rightarrow> 'w option) \<Rightarrow> (string \<Rightarrow> 'w \<Rightarrow> 'w \<times> (string + 'c)) \<Rightarrow>
     ('c \<Rightarrow> string \<Rightarrow> 'w \<Rightarrow> 'w \<times> (string + string \<times> Addr)) \<Rightarrow> ('c \<Rightarrow> 'w \<Rightarrow> 'w) \<Rightarrow> string \<Rightarrow> 'w \<Rightarrow>
     ('w \<times> (string + string \<times> Addr) list) option" where
  "grpc_client_main register release dial sayHello closeConn conf w =
     (case register conf grpc_appID w of
        (w, Some e) \<Rightarrow> Some (w, [])
      | (w, None) \<Rightarrow>
          (case dial gcl_serverUrl w of
             (w, Inl e) \<Rightarrow> map_option (\<lambda>w. (w, [])) (release w)
           | (w, Inr conn) \<Rightarrow>
               (case (gcl_call (sayHello conn) ^^ 2) (w, []) of (w, out) \<Rightarrow>
                  map_option (\<lambda>w. (w, out)) (release (closeConn conn w)))))"

section \<open>Both find the server of their application\<close>

text \<open>What grpc takes for the endpoint of the client's target.\<close>

definition gcl_endpoint :: string where
  "gcl_endpoint = grpc_appID @ ''.qq1.greeterServer''"

lemma gcl_url: "gcl_serverUrl = GetSkymeshSchema @ '':///'' @ gcl_endpoint"
  by (simp add: gcl_serverUrl_def gcl_endpoint_def GetSkymeshSchema_def skymeshSchema_def)

lemma parse_plain:
  assumes "CHR ''/'' \<notin> set s" "Split (CHR ''.'') s = [a, b, c]"
  shows "ParseSkymeshUrl (s @ ''/'' @ dec (unat (i :: u64))) = Inr (a, b, c, i)"
  using assms Strip_plain [OF assms(1) dec_no_slash(1)]
  by (simp add: ParseSkymeshUrl_def Let_def Split_url ParseUint_u64)

lemma parse_client: "ParseSkymeshUrl (resolver_svcName grpc_appID ''qq1'' i) = Inr (grpc_appID, ''qq1'', skymeshCltName, i)"
proof -
  let ?s = "grpc_appID @ ''.'' @ ''qq1'' @ ''.'' @ skymeshCltName"
  have "Split (CHR ''.'') ?s = [grpc_appID, ''qq1'', skymeshCltName]"
    using Split_name [of grpc_appID "''qq1''" skymeshCltName] by (simp add: grpc_appID_def skymeshCltName_def)
  moreover have "CHR ''/'' \<notin> set ?s" by (simp add: grpc_appID_def skymeshCltName_def)
  ultimately show ?thesis using parse_plain [of ?s] by (simp add: resolver_svcName_def)
qed

lemma parse_endpoint: "ParseSkymeshUrl gcl_endpoint = Inr (grpc_appID, ''qq1'', ''greeterServer'', 0)"
  by code_simp

lemma parse_addrs: "map ParseSkymeshUrl gsrv_addrs =
    [Inr (grpc_appID, ''qq1'', ''greeterServer'', 50051), Inr (grpc_appID, ''qq1'', ''greeterServer'', 50052)]"
proof -
  have s: "CHR ''/'' \<notin> set gcl_endpoint" "Split (CHR ''.'') gcl_endpoint = [grpc_appID, ''qq1'', ''greeterServer'']"
    using Split_name [of grpc_appID "''qq1''" "''greeterServer''"] by (simp_all add: gcl_endpoint_def grpc_appID_def)
  have "dec 50051 = ''50051''" "dec 50052 = ''50052''" by (simp_all add: dec.simps char_of_eq_iff)
  then have g: "gsrv_addrs = map (\<lambda>i :: u64. urlPrefix @ gcl_endpoint @ ''/'' @ dec (unat i)) [50051, 50052]"
    by (simp add: gsrv_addrs_def gsrv_serverUrl_def urlPrefix_def skymeshSchema_def gcl_endpoint_def grpc_appID_def)
  have p: "ParseSkymeshUrl (urlPrefix @ gcl_endpoint @ ''/'' @ dec (unat i)) = Inr (grpc_appID, ''qq1'', ''greeterServer'', i)" for i :: u64
    using parse_plain [OF s, of i] Strip_plain [OF s(1) dec_no_slash(1)]
    by (simp add: ParseSkymeshUrl_def)
  show ?thesis unfolding g list.map p ..
qed

text \<open>
  After a successful registration of the application, the server listens on both of its addresses and
  the resolver of the client gets its dialer, as soon as the agent takes the services.
\<close>

theorem grpc_greeter_starts:
  assumes "grpc_RegisterApp newServer ad conf grpc_appID = (ad', None)" "mget (ad_dia ad) = Map.empty"
    and "\<forall>s. registered s = None"
  shows "addr \<in> set gsrv_addrs \<Longrightarrow> grpc_Listen c0 nowMS registered ad' addr = Inr (newSkymeshListener c0 nowMS)"
    and "resolver_prepare getRouter c0 nowMS nowNS registered (ad', n) gcl_endpoint \<noteq> None"
proof -
  obtain s where s: "mget (ad_servers ad') grpc_appID = Some s" "ad_dia ad' = ad_dia ad"
    using assms(1) by (auto simp: grpc_RegisterApp_def adaptor_register_def split: option.splits sum.splits)
  have "ParseSkymeshUrl a \<in> set (map ParseSkymeshUrl gsrv_addrs)" if "a \<in> set gsrv_addrs" for a using that by simp
  then show "addr \<in> set gsrv_addrs \<Longrightarrow> grpc_Listen c0 nowMS registered ad' addr = Inr (newSkymeshListener c0 nowMS)"
    using s(1) assms(3) by (fastforce simp: grpc_Listen_def adaptor_newListener_def parse_addrs)
  show "resolver_prepare getRouter c0 nowMS nowNS registered (ad', n) gcl_endpoint \<noteq> None"
    using s assms(2,3)
    by (simp add: resolver_prepare_fatal_iff parse_endpoint adaptor_newDialer_def parse_client case_prod_beta Let_def)
qed

text \<open>A greeting is never an error, and the client prints the two greetings it gets.\<close>

lemma grpc_greeted:
  assumes "register conf grpc_appID w = (w, None)" "dial gcl_serverUrl w = (w, Inr conn)" "release = Some"
    "\<forall>name. sayHello conn name w = (w, map_sum id (\<lambda>m. (m, a)) (gg_SayHello s name))" "closeConn conn w = w"
  shows "grpc_client_main register release dial sayHello closeConn conf w =
    Some (w, [Inr (''Hello world'', a), Inr (''Hello world'', a)])"
  using assms by (simp add: grpc_client_main_def gcl_call_def gg_SayHello_def numeral_2_eq_2)

end
