(* ===== verification/SmLog.thy ===== *)
theory SmLog
  imports Prelude
begin

text \<open>
  \<^verbatim>\<open>src/log\<close>: the levels, the standard logger with its filter, and the package functions that write to
  the default logger. \<open>lg_out\<close> is what has been handed to \<^verbatim>\<open>log.Output\<close>. The formatting of the
  arguments by \<^verbatim>\<open>fmt\<close> is a parameter: \<open>text\<close> is the formatted message.
\<close>

type_synonym LogLevel = int

definition LevelDebug :: LogLevel where [simp]: "LevelDebug = 0"
definition LevelInfo :: LogLevel where [simp]: "LevelInfo = 1"
definition LevelWarning :: LogLevel where [simp]: "LevelWarning = 2"
definition LevelError :: LogLevel where [simp]: "LevelError = 3"

definition LogLevel_String :: "LogLevel \<Rightarrow> string" where
  "LogLevel_String l =
     (if l = LevelDebug then ''DEBUG'' else if l = LevelInfo then ''INFO'' else if l = LevelWarning then ''WARNING''
      else if l = LevelError then ''ERROR'' else ''UNKNOW'')"

record LoggerStd =
  lg_level :: LogLevel
  lg_out :: "string list"

definition LoggerStd_Log :: "LoggerStd \<Rightarrow> LogLevel \<Rightarrow> string \<Rightarrow> LoggerStd" where
  "LoggerStd_Log logger lv text =
     (if lg_level logger > lv then logger
      else logger\<lparr>lg_out := lg_out logger @ [''['' @ LogLevel_String lv @ '']'' @ text @ [CHR 0x0A]]\<rparr>)"

definition LoggerStd_SetLevel :: "LoggerStd \<Rightarrow> LogLevel \<Rightarrow> LoggerStd" where
  "LoggerStd_SetLevel logger level = logger\<lparr>lg_level := level\<rparr>"

definition LoggerStd_GetLevel :: "LoggerStd \<Rightarrow> LogLevel" where
  "LoggerStd_GetLevel logger = lg_level logger"

section \<open>The package\<close>

text \<open>
  \<open>Logger\<close> of \<^verbatim>\<open>logger.go\<close>; the formatted variants differ in how the text is made. The default logger is
  a variable of the package, which an application may set, also to nil: then a message panics.
\<close>

record 'l Logger =
  lo_Log :: "'l \<Rightarrow> LogLevel \<Rightarrow> string \<Rightarrow> 'l"
  lo_SetLevel :: "'l \<Rightarrow> LogLevel \<Rightarrow> 'l"
  lo_GetLevel :: "'l \<Rightarrow> LogLevel"

definition logger_std :: "LoggerStd Logger" where
  "logger_std = \<lparr>lo_Log = LoggerStd_Log, lo_SetLevel = LoggerStd_SetLevel, lo_GetLevel = LoggerStd_GetLevel\<rparr>"

definition DefaultLogger :: "LoggerStd option" where
  "DefaultLogger = Some \<lparr>lg_level = LevelInfo, lg_out = []\<rparr>"

definition SetLogger :: "'l option \<Rightarrow> 'l option \<Rightarrow> 'l option" where
  "SetLogger logger dl = logger"

definition log_Debug :: "'l Logger \<Rightarrow> 'l option \<Rightarrow> string \<Rightarrow> 'l option" where
  "log_Debug L dl text = map_option (\<lambda>l. lo_Log L l LevelDebug text) dl"

definition log_Info :: "'l Logger \<Rightarrow> 'l option \<Rightarrow> string \<Rightarrow> 'l option" where
  "log_Info L dl text = map_option (\<lambda>l. lo_Log L l LevelInfo text) dl"

definition log_Warning :: "'l Logger \<Rightarrow> 'l option \<Rightarrow> string \<Rightarrow> 'l option" where
  "log_Warning L dl text = map_option (\<lambda>l. lo_Log L l LevelWarning text) dl"

definition log_Error :: "'l Logger \<Rightarrow> 'l option \<Rightarrow> string \<Rightarrow> 'l option" where
  "log_Error L dl text = map_option (\<lambda>l. lo_Log L l LevelError text) dl"

text \<open>The contract of a logger: what is written are the messages at or above its level, each as a line.\<close>

locale logger_contract =
  fixes L :: "'l Logger"
    and out :: "'l \<Rightarrow> string list"
    and line :: "LogLevel \<Rightarrow> string \<Rightarrow> string"
  assumes writes: "out (lo_Log L l lv text) = (if lo_GetLevel L l > lv then out l else out l @ [line lv text])"
    and level_kept: "lo_GetLevel L (lo_Log L l lv text) = lo_GetLevel L l"
    and level_set: "lo_GetLevel L (lo_SetLevel L l k) = k \<and> out (lo_SetLevel L l k) = out l"
begin

lemma logs:
  "out (fold (\<lambda>(lv, text) l. lo_Log L l lv text) ms l) =
     out l @ map (\<lambda>(lv, text). line lv text) (filter (\<lambda>(lv, text). lo_GetLevel L l \<le> lv) ms)"
proof (induction ms arbitrary: l)
  case (Cons m ms)
  then show ?case by (cases m) (auto simp: writes level_kept)
qed simp

lemma logs_at:
  "out (fold (\<lambda>(lv, text) l. lo_Log L l lv text) ms (lo_SetLevel L l k)) =
     out l @ map (\<lambda>(lv, text). line lv text) (filter (\<lambda>(lv, text). k \<le> lv) ms)"
  by (simp add: logs level_set)

end

interpretation std: logger_contract logger_std lg_out "\<lambda>lv text. ''['' @ LogLevel_String lv @ '']'' @ text @ [CHR 0x0A]"
  by unfold_locales (simp_all add: logger_std_def LoggerStd_Log_def LoggerStd_SetLevel_def LoggerStd_GetLevel_def)

text \<open>
  The default logger drops the messages of \<open>Debug\<close> until its level is lowered; a package without a logger
  panics at its first message.
\<close>

theorem default_logger:
  "map_option lg_out (log_Error logger_std (log_Debug logger_std DefaultLogger x) y) = Some [''[ERROR]'' @ y @ [CHR 0x0A]]"
  "log_Warning L (SetLogger None dl) text = None" "log_Info L (SetLogger (Some l) dl) text = Some (lo_Log L l LevelInfo text)"
  by (simp_all add: log_Error_def log_Debug_def log_Warning_def log_Info_def DefaultLogger_def SetLogger_def std.writes)
    (simp add: logger_std_def LoggerStd_Log_def LoggerStd_GetLevel_def LogLevel_String_def)

text \<open>
  A message is written exactly when its level is not below that of the logger, and the line it becomes
  begins with the name of its level; the names of the four levels differ.
\<close>

theorem log_filter:
  "(lg_out (LoggerStd_Log (LoggerStd_SetLevel logger level) lv text) \<noteq> lg_out logger \<longleftrightarrow> level \<le> lv) \<and>
   (level \<le> lv \<longrightarrow> (\<exists>rest. last (lg_out (LoggerStd_Log (LoggerStd_SetLevel logger level) lv text)) = ''['' @ LogLevel_String lv @ '']'' @ rest)) \<and>
   distinct (map LogLevel_String [LevelDebug, LevelInfo, LevelWarning, LevelError])"
  by (auto simp: LoggerStd_Log_def LoggerStd_SetLevel_def LogLevel_String_def)

end
