(* ===== verification/Spec2Isabelle.thy ===== *)
theory Spec2Isabelle
  imports NsServe Delivery DialSend DialerMgr Adaptor Listener Mesh Interface AppsRpc AppsGrpc SmLog
begin

text \<open>
  \<^bold>\<open>skymesh\<close> is a mesh of services. Every process runs an \<^emph>\<open>agent\<close> (\<^verbatim>\<open>src/agent\<close>); the agents register
  their services with one \<^emph>\<open>name server\<close> (\<^verbatim>\<open>src/nameserver\<close>), which tells the agents of an application
  which services exist and who leads an election; messages between services go from agent to agent. Both
  programs use the connections of \<^verbatim>\<open>src/common/network\<close> and the frames of \<^verbatim>\<open>src/proto/pack.go\<close>. Two
  extensions run on top of an agent: remote calls (\<^verbatim>\<open>src/extension/inner_service\<close>) and virtual
  connections for grpc (\<^verbatim>\<open>src/extension/grpc\<close>).

  \<^bold>\<open>Theories and sources.\<close> Definitions keep the names of the source; where a name is used twice it has
  the receiver type or the package in front. The fields of a record are the fields of the struct with a
  short prefix.

  \<^item> \<open>Prelude\<close>: machine integers, byte slices, Go maps as association lists, bounded channels, loops
    whose body may panic. \<open>Binary\<close>: little-endian words and \<^verbatim>\<open>copy\<close>.
  \<^item> \<open>Smpack\<close>, \<open>Ssproto\<close>: \<^verbatim>\<open>proto/pack.go\<close> and the message types of \<^verbatim>\<open>proto/ssproto.proto\<close>.
  \<^item> \<open>Smsync\<close>, \<open>Smio\<close>, \<open>Conn\<close>, \<open>Dialer\<close>, \<open>Redial\<close>, \<open>DialSend\<close>, \<open>Listener\<close>: \<^verbatim>\<open>common/sync/event.go\<close>,
    \<^verbatim>\<open>common/io/buffer.go\<close> and \<^verbatim>\<open>common/network/{conn,dialer,listener}.go\<close>. Goroutines are step relations that
    interleave at every lock (\<open>io_step\<close>, \<open>conn_step\<close>, \<open>dial_step\<close>, \<open>re_step\<close>, \<open>send_step\<close>, \<open>lis_step\<close>). \<open>Pipe\<close>: a
    connection from the sender's write loop to the receiver's read loop (\<open>pipe_step\<close>); \<open>Delivery\<close>: the
    connections of the mesh as such systems, with their receivers.
  \<^item> \<open>NsDefs\<close>, \<open>NsApp\<close>, \<open>NsElection\<close>, \<open>NsRouter\<close>, \<open>NsServer\<close>, \<open>NsRecv\<close>:
    \<^verbatim>\<open>nameserver/{define,app,router,server,receiver}.go\<close>. One definition per handler of the message queue;
    \<open>ns_step\<close> is the server with its receivers, its ticker and its serving goroutine. \<open>NsInv\<close> and \<open>NsLru\<close>
    hold the invariant, \<open>NsSpec\<close> the abstract directory and the refinement, \<open>NsLife\<close> start and stop,
    and \<open>NsServe\<close> the server from its start to its end with the stop statement by statement (\<open>ns_life_step\<close>).
  \<^item> \<open>AgentDefs\<close>, \<open>AgentUtils\<close>, \<open>AgentElection\<close>, \<open>AgentRouter\<close>, \<open>AgentService\<close>, \<open>AgentSidecar\<close>,
    \<open>AgentServer\<close>, \<open>AgentReceiver\<close>: \<^verbatim>\<open>agent/{define,options,utils,election,router,service,sidecar,server,receiver}.go\<close>.
    \<open>AgentInv\<close>: the agent as a transition system and its invariant. \<open>AgentLife\<close>: its start, and the serving
    goroutine with the goroutines that stop it (\<open>life_step\<close>), with \<open>NewServer\<close> of \<^verbatim>\<open>agent/api.go\<close>.
    \<open>AgentPath\<close>: the way of a message from the application of one process to that of another. \<open>DialerMgr\<close>:
    the pool of dialers to other agents, which the sidecar keeps by address.
  \<^item> \<open>Wire\<close>: the protocol as types of the messages, kept by everything the agent and the name server
    write. \<open>Mesh\<close>: one name server, any number of agents and the streams between them (\<open>mesh_step\<close>).
  \<^item> \<open>Bootstrap\<close>: what a main program does, \<^verbatim>\<open>agent/api.go\<close> and \<^verbatim>\<open>nameserver/bootstrap/main.go\<close>.
    \<open>Interface\<close>: \<^verbatim>\<open>agent/interface.go\<close>, the methods offered to an application.
  \<^item> \<open>SmRpc\<close>, \<open>RpcFramework\<close>, \<open>SmService\<close>: \<^verbatim>\<open>extension/inner_service/{proto,error,framework,service}.go\<close>.
  \<^item> \<open>VirConn\<close>, \<open>SkymeshConn\<close>, \<open>GrpcEndpoint\<close>, \<open>GrpcResolver\<close>: \<^verbatim>\<open>extension/grpc/{proto,conn,conn_mngr}.go\<close>,
    \<^verbatim>\<open>{dialer,listener}.go\<close> and \<^verbatim>\<open>{resolver,adaptor,api,defines,errors}.go\<close>. \<open>Adaptor\<close>: the registrations of
    several goroutines with the adaptor (\<open>adaptor_step\<close>).
  \<^item> \<open>Apps\<close>, \<open>AppsRpc\<close>, \<open>AppsGrpc\<close>: the applications of \<^verbatim>\<open>examples\<close>: greetings, an election, counters behind
    a name router, a remote method and a grpc server, each with its object, its ticks and its main program.
  \<^item> \<open>SmLog\<close>: \<^verbatim>\<open>log\<close>.
  \<^item> This theory: the properties that need the name server and an agent, or two agents.

  \<^bold>\<open>How the model stands for the code.\<close> Objects shared by pointer live in a memory (\<open>s_mem\<close>, \<open>sc_mem\<close>,
  \<open>as_mem\<close>, \<open>ep_mem\<close>, \<open>il_heap\<close>, \<open>fw_chans\<close>) and tables hold references. A panic is \<open>None\<close>; a Go error is a
  value. Integers that can overflow are words or wrap as written. A map is a list of pairs in the order the
  next iteration takes, and every statement holds for every order. Calls on objects of the application are
  recorded in a trace. Time is an argument of the operations that read the clock; a timer or a deadline is
  a step that may be taken at any moment.

  \<^bold>\<open>Interfaces.\<close> \<open>stream_receiver\<close> (\<open>Conn\<close>) is what the read loop asks of a receiver; the receivers of
  the name server and of the agent are interpretations, and the independence of the cuts of the stream is
  proved once. \<open>frame_handler\<close> (\<open>Conn\<close>) and \<open>live_frame_handler\<close> (\<open>Pipe\<close>) extend it: such a receiver unpacks a
  frame and handles its body, and does so without a panic; under them a connection is a queue of messages and
  what is sent can be delivered. \<open>leader_election\<close> (\<open>NsElection\<close>) is the contract of an election, interpreted on the tables
  of the name server. \<open>fifo\<close> (\<open>Smio\<close>) is a queue, interpreted on the linked list of the stream buffer.
  \<open>vir_conn_proto\<close> (\<open>VirConn\<close>) is a packet format that reads back what it writes. \<open>mesh_service\<close> and
  \<open>mesh_router\<close> (\<open>Interface\<close>) are what an application may rely on, interpreted on the service and the router
  of the agent; \<open>app_service\<close> (\<open>Bootstrap\<close>) is what the agent may rely on, interpreted on the objects of the
  applications. \<open>logger_contract\<close> (\<open>SmLog\<close>) is a logger, interpreted on the standard one.

  \<^bold>\<open>What is shown.\<close>

  \<^item> Name server: every reachable state satisfies the invariant of the tables, and the next message is
    handled without a panic; every message acts on an abstract directory as specified; a tick evicts
    expired services, oldest first; a name has a leader exactly when it has a candidate, a leader stays until it
    resigns, the most recently heard candidate follows; a confirmation ends by its deadline; a broadcast
    reaches every other process once. Nothing panics before a stop takes the session manager away, and
    the stop can be completed unless a registration is then in the queue.
  \<^item> Agent: the same kind of invariant; a graceful stop returns with every service stopped and told; a kick-off removes a service; watchers of instances and of leaders know what the agent
    knows; the selections of a router are fair, minimal or stable as intended; URLs are read back.
  \<^item> Name server and agents: the agents agree with the name server on the leader, a registration becomes
    known at the other agents, a message reaches the addressed service unchanged, a remote call crosses the
    mesh and brings back the result. However they run and however the streams are cut, every frame is one
    its reader expects, and nothing in the mesh panics.
  \<^item> Transport: frames are recognised exactly, the stream is dispatched in order however it is cut, the
    buffer is a queue of bytes under every interleaving and loses no wake-up, the socket gets the bytes in the order of the
    sends, a connection implements a queue of messages from end to end, a message sent can always be brought to
    the receiver's handler while both loops run, the streams of the mesh are such connections, a stopped listener
    leaves nothing behind, a dialer never uses a nil connection and a send writes at most once, its
    reconnecting goroutine ends after a shutdown, the pool of dialers keeps one per address.
  \<^item> Extensions: heads and packets are read back; a response ends the call of its session and no other;
    a remote call returns the result of the handler; virtual connections deliver a prefix of the stream; a dial is
    accepted; both ends keep their tables consistent; the resolver's addresses are up to date when it is idle.
  \<^item> Applications: once registered they handle every sequence of calls; the counters count, the leadership
    is passed on, a greeting is answered, both ends of the grpc example find each other; a service keeps its
    address and the attributes set last. A message before the registration panics.
  \<^item> Where the code does not do what it means to, the behaviour is a theorem too: messages with another
    body than announced panic, a late close removes a newer session, a send can be left in the write
    buffer, a connection outlives a shut-down, two dials at once leave one open, a response before its wait is lost, a registration during
    the stop blocks it or ends the name server, a waiting send may miss the result of a dial, a registration with
    the adaptor may lose a server, and others next to the definitions they are about.

  \<^bold>\<open>Hypotheses and parameters.\<close> The protobuf codec is \<open>mar\<close> and \<open>unm\<close>, with \<open>codec_ok\<close>: decoding an
  encoded message gives it back. The JSON codecs are \<open>jmar\<close>, \<open>junm\<close>, \<open>dump\<close> and \<open>load\<close>, with the same law, and
  the message codec of the remote method is \<open>hello_codec\<close>. \<open>mesh_env\<close> collects what a run of the mesh needs,
  with \<open>names_apart\<close>: services of different names never share a handle, which is a hash. The
  network is given by the errors it may report (\<open>env\<close>, \<open>terr\<close>, \<open>send\<close>) and delivers whatever it likes. The
  steps of remote calls take a session number that is not in use, which \<open>genSessID\<close> gives for fewer
  than \<open>2 ^ 64 - 1\<close> calls.

  \<^bold>\<open>Loops.\<close> No definition uses fuel. Loops over maps and lists are structural recursions; the dispatch
  loop of a connection, the copying loop of the stream buffer and the search for a session number are partial
  functions with value \<open>None\<close> when they do not return, and they are shown to return.

  \<^bold>\<open>Not modelled.\<close> The generated protobuf code; the formatting of messages by \<^verbatim>\<open>fmt\<close>, the log lines of
  the handlers; the grpc library, whose server and connections are
  parameters of the grpc example, and the registration of the resolver with it. The goroutines and tickers that
  the \<^verbatim>\<open>Init\<close> functions start are the steps they take. A handler of the name server or of an agent is
  one step: other goroutines, a stop included, run before and after it, not inside. One goroutine at a
  time runs \<^verbatim>\<open>Serve\<close> of an agent, and one the release of the grpc adaptor. \<^verbatim>\<open>sort.Slice\<close> is the stable sort; ties of hash keys are the only case that could tell.
  The dialer and the listener of the grpc extension handle packets with their transport set; a packet that
  overtakes the registration is treated for the applications only.
\<close>

section \<open>Elections: name server and agents\<close>

definition noticed :: "marshal \<Rightarrow> bytes \<Rightarrow> Addr \<times> int \<times> int \<Rightarrow> bool" where
  "noticed mar f n = (case n of (cand, ev, result) \<Rightarrow>
     PackSSMsg mar (SSMsg NOTIFY_SERVICE_ELECTION_RESULT (Some (NotifyServiceElectionResult (Some (pbOfAddr cand)) ev result))) = Some f)"

lemma noticed_msg: "noticed mar f (si_serviceAddr si, ev, result) \<longleftrightarrow> PackSSMsg mar (msgElectionResult si ev result) = Some f"
  by (simp add: noticed_def msgElectionResult_def)

text \<open>What the agent makes of a notification frame.\<close>

lemma noticed_event:
  assumes "codec_ok mar unm" "noticed mar f (cand, ev, result)"
  shows "NSDialerReceiver_OnMessage unm junm ag (f @ rest) = Some (offerEvent ag (ElectionEvent cand ev result), length f, False)"
  by (rule NSDialer_frame [OF assms(1)]) (use assms(2) in \<open>auto simp: noticed_def nsEvent_def\<close>)

definition session_of :: "NsServer \<Rightarrow> string \<Rightarrow> connid \<Rightarrow> string \<Rightarrow> bool" where
  "session_of s app c x \<longleftrightarrow> s_sess_mgr s \<and> is_open s c \<and> (\<forall>y. SessionMgr_GetSession (s_sm s) y app = Some c \<longleftrightarrow> y = x)"

definition packs_elections :: "marshal \<Rightarrow> (sref \<Rightarrow> ServiceInfo) \<Rightarrow> AppInfo \<Rightarrow> bool" where
  "packs_elections mar mem a \<longleftrightarrow> (\<forall>r \<in> set (mvals (ai_services a)). \<forall>ev \<in> {KElectionRunForLeader, KElectionGiveUpLeader}.
     \<forall>res \<in> {KElectionResultOK, KElectionResultRunForFail, KElectionResultAlreadyLeader, KElectionResultQuitCandidate}.
       mar (msgElectionResult (mem r) ev res) \<noteq> None)"

lemma packs_electionsD:
  assumes "packs_elections mar mem a" "mget (ai_services a) h = Some r"
    "ev \<in> {KElectionRunForLeader, KElectionGiveUpLeader}"
    "res \<in> {KElectionResultOK, KElectionResultRunForFail, KElectionResultAlreadyLeader, KElectionResultQuitCandidate}"
  shows "\<exists>f. PackSSMsg mar (msgElectionResult (mem r) ev res) = Some f"
  using assms mget_mem_mvals [OF assms(2)] unfolding packs_elections_def by (auto simp: PackSSMsg_def split: option.split)

lemma broadcast_all:
  assumes "session_of s (ai_appID a) c x" "r \<in> set (mvals (ai_services a))" "si_serverAddr (s_mem s r) = x"
    and "AppInfo_Broadcast s a None b = Some t"
  shows "sent_to t c = sent_to s c @ [b]"
proof -
  have so: "s_sess_mgr s" "is_open s c" "\<forall>y. SessionMgr_GetSession (s_sm s) y (ai_appID a) = Some c \<longleftrightarrow> y = x"
    using assms(1) unfolding session_of_def by blast+
  have here: "(\<exists>r \<in> set (mvals (ai_services a)). si_serverAddr (s_mem s r) = x) \<and> (\<forall>e. None = Some e \<longrightarrow> si_serverAddr e \<noteq> x)"
    using assms(2,3) by blast
  obtain t' where "AppInfo_Broadcast s a None b = Some t'" "sent_to t' c = sent_to s c @ [b]"
    using Broadcast_once [OF so, of None b] unfolding if_P [OF here] by blast
  then show ?thesis using assms(4) by simp
qed

lemma send_one:
  assumes "session_of s app c x" "sendToSession app b y s = Some t"
  shows "sent_to t c = sent_to s c @ (if y = x then [b] else [])"
proof -
  have so: "s_sess_mgr s" "is_open s c" and y: "SessionMgr_GetSession (s_sm s) y app = Some c \<longleftrightarrow> y = x"
    using assms(1) unfolding session_of_def by blast+
  have "t = (case SessionMgr_GetSession (s_sm s) y app of None \<Rightarrow> s | Some d \<Rightarrow> NsReceiver_Send s d b)"
    using assms(2) so(1) by (simp add: sendToSession_def Server_GetSession_def split: option.splits)
  then show ?thesis using y so(2) by (auto simp: sent_to_Send split: option.splits)
qed

lemma session_of_apps [simp]: "session_of (s\<lparr>s_apps := y\<rparr>) app c x = session_of s app c x"
  by (simp add: session_of_def is_open_def)

lemma sent_to_apps [simp]: "sent_to (s\<lparr>s_apps := y\<rparr>) c = sent_to s c"
  by (simp add: sent_to_def)

text \<open>The agent's view follows one notification.\<close>

lemma view_one: "leader_of_view (fst (se_events gs se [(cand, ev, res)])) = leader_of_view (fst (se_onElectionEvent gs se (cand, ev, res)))"
  by (simp add: split_def)

lemma leader_handle_runfor:
  assumes "app_election_ok mem a" "mget (ai_services a) h = Some r" "si_name (mem r) = n" "RunForElection_update mem a h r = (a', res)"
  shows "leader_handle mem n a' = (if res = KElectionResultOK then Some h else leader_handle mem n a)"
    and "res \<in> {KElectionResultOK, KElectionResultRunForFail, KElectionResultAlreadyLeader}"
proof -
  have m: "registered_as mem n a h" using assms(2,3) by (auto simp: registered_as_def)
  have "run_for mem h a = (a', res)" using assms(2,4) by (simp add: run_for_def)
  with ns_election.leader_run [OF assms(1) m] ns_election.result_run [OF assms(1) m]
  show "leader_handle mem n a' = (if res = KElectionResultOK then Some h else leader_handle mem n a)"
    "res \<in> {KElectionResultOK, KElectionResultRunForFail, KElectionResultAlreadyLeader}"
    by (auto split: option.splits if_splits)
qed

lemma leader_handle_giveup:
  assumes ok: "app_election_ok mem a" and r: "mget (ai_services a) h = Some r" "si_name (mem r) = n"
    and u: "GiveupElection_update mem a h r = (a', out)"
  shows "leader_handle mem n a' = (case out of LeaderTo l \<Rightarrow> Some (si_handle (mem l)) | LeaderGone \<Rightarrow> None | _ \<Rightarrow> leader_handle mem n a)"
    and "out = LeaderTo l \<Longrightarrow> mget (ai_services a) (si_handle (mem l)) = Some l"
    and "out = LeaderGone \<Longrightarrow> leader_handle mem n a = Some h"
proof -
  have e: "election_ok mem a" "services_ok mem a" using ok by (auto simp: app_election_ok_def)
  have l: "mget (ai_services a) (si_handle (mem l)) = Some l" if "out = LeaderTo l" for l
    using that u r reelect_candidate(3) [OF e, of h n l]
    by (auto simp: GiveupElection_update_def Let_def split: if_splits option.splits)
  then show "out = LeaderTo l \<Longrightarrow> mget (ai_services a) (si_handle (mem l)) = Some l" .
  show "out = LeaderGone \<Longrightarrow> leader_handle mem n a = Some h"
    using u r by (auto simp: GiveupElection_update_def leader_handle_def Let_def split: if_splits option.splits)
  show "leader_handle mem n a' = (case out of LeaderTo l \<Rightarrow> Some (si_handle (mem l)) | LeaderGone \<Rightarrow> None | _ \<Rightarrow> leader_handle mem n a)"
    using u r l by (auto simp: GiveupElection_update_def leader_handle_def leaderOf_def Let_def split: if_splits option.splits)
qed

text \<open>
  The step the two sides take together: the name server handles an election message, the frames it
  writes to the agent become notifications, and the agent's view of the leader follows.
\<close>

definition agrees_after ::
  "marshal \<Rightarrow> string \<Rightarrow> string \<Rightarrow> connid \<Rightarrow> NsServer \<Rightarrow> NsServer \<Rightarrow> skymeshElection \<Rightarrow> bool" where
  "agrees_after mar app n c s t se \<longleftrightarrow> (\<exists>fs ns a'. sent_to t c = sent_to s c @ fs \<and> list_all2 (noticed mar) fs ns \<and>
     mget (s_apps t) app = Some a' \<and>
     leader_of_view (fst (se_events (\<lambda>_. None :: u64 option) se ns)) = leader_handle (s_mem t) n a')"

lemma agrees_afterI:
  assumes "sent_to t c = sent_to s c @ fs" "list_all2 (noticed mar) fs ns" "mget (s_apps t) app = Some a'"
    "leader_of_view (fst (se_events (\<lambda>_. None :: u64 option) se ns)) = leader_handle (s_mem t) n a'"
  shows "agrees_after mar app n c s t se"
  using assms unfolding agrees_after_def by blast

lemma agrees_sends:
  assumes "only_sends (s\<lparr>s_apps := mput app a' (s_apps s)\<rparr>) t" "sent_to t c = sent_to s c @ fs" "list_all2 (noticed mar) fs ns"
    "leader_of_view (fst (se_events (\<lambda>_. None :: u64 option) se ns)) = leader_handle (s_mem s) n a'"
  shows "agrees_after mar app n c s t se"
  using only_sends_fields [OF assms(1)] assms(2-4) by (intro agrees_afterI) simp_all

lemma runfor_agrees:
  assumes ok: "dir_ok s" and a: "mget (s_apps s) app = Some a" and r: "mget (ai_services a) h = Some r" "si_name (s_mem s r) = n"
    and so: "session_of s app c x" and here: "r' \<in> set (mvals (ai_services a))" "si_serverAddr (s_mem s r') = x"
    and pk: "packs_elections mar (s_mem s) a" and view: "leader_of_view se = leader_handle (s_mem s) n a"
    and t: "AppInfo_OnServiceRunForElection mar s app h = Some t"
  shows "agrees_after mar app n c s t se"
proof -
  have e: "app_election_ok (s_mem s) a" "ai_appID a = app" "si_handle (s_mem s r) = h"
    using dir_okD(4,5,6) [OF ok a] r(1) services_okD(4) by (auto simp: app_election_ok_def)
  obtain a' res where u: "RunForElection_update (s_mem s) a h r = (a', res)" by fastforce
  note l = leader_handle_runfor [OF e(1) r u]
  have same: "ai_services a' = ai_services a" "ai_appID a' = app"
    using u RunFor_services(1,3) [of "s_mem s" a h r] e(2) by simp_all
  let ?s = "s\<lparr>s_apps := mput app a' (s_apps s)\<rparr>"
  obtain b where b: "PackSSMsg mar (msgElectionResult (s_mem s r) KElectionRunForLeader res) = Some b"
    using packs_electionsD [OF pk r(1)] l(2) by auto
  have n: "noticed mar b (si_serviceAddr (s_mem s r), KElectionRunForLeader, res)" using b by (simp only: noticed_msg)
  show ?thesis
  proof (cases "res = KElectionResultOK")
    case True
    then have bc: "AppInfo_Broadcast ?s a' None b = Some t"
      using t a r u b by (simp add: AppInfo_OnServiceRunForElection_def Let_def)
    have "sent_to t c = sent_to s c @ [b]"
      using broadcast_all [of ?s a' c x r' b t] so here same bc by simp
    then show ?thesis
      by (rule agrees_sends [OF Broadcast_only_sends [OF bc], where ns = "[(si_serviceAddr (s_mem s r), KElectionRunForLeader, res)]"])
        (use n l(1) True e(3) in \<open>simp_all add: view_one event_leader\<close>)
  next
    case False
    then have sd: "sendToSession app b (si_serverAddr (s_mem s r)) ?s = Some t"
      using t a r u b same by (simp add: AppInfo_OnServiceRunForElection_def Let_def)
    have "sent_to t c = sent_to s c @ (if si_serverAddr (s_mem s r) = x then [b] else [])"
      using send_one [of ?s app c x b _ t] so sd by simp
    then show ?thesis
      by (rule agrees_sends [OF sendToSession_only_sends [OF sd], where ns = "if si_serverAddr (s_mem s r) = x
            then [(si_serviceAddr (s_mem s r), KElectionRunForLeader, res)] else []"])
        (use n l(1) False view in \<open>simp_all add: view_one event_leader\<close>)
  qed
qed

lemma giveup_agrees:
  assumes ok: "dir_ok s" and a: "mget (s_apps s) app = Some a" and r: "mget (ai_services a) h = Some r" "si_name (s_mem s r) = n"
    and so: "session_of s app c x" and here: "r' \<in> set (mvals (ai_services a))" "si_serverAddr (s_mem s r') = x"
    and pk: "packs_elections mar (s_mem s) a" and view: "leader_of_view se = leader_handle (s_mem s) n a"
    and t: "AppInfo_OnServiceGiveupElection mar s app h = Some t"
  shows "agrees_after mar app n c s t se"
proof -
  have e: "app_election_ok (s_mem s) a" "ai_appID a = app" "si_handle (s_mem s r) = h"
    using dir_okD(4,5,6) [OF ok a] r(1) services_okD(4) by (auto simp: app_election_ok_def)
  obtain a' out where u: "GiveupElection_update (s_mem s) a h r = (a', out)" by fastforce
  note l = leader_handle_giveup [OF e(1) r u]
  have same: "ai_services a' = ai_services a" "ai_appID a' = app"
    using u Giveup_services(1,3) [of "s_mem s" a h r] e(2) by simp_all
  let ?s = "s\<lparr>s_apps := mput app a' (s_apps s)\<rparr>"
  have bcast: "sent_to t c = sent_to s c @ [b] \<and> only_sends ?s t" if "AppInfo_Broadcast ?s a' None b = Some t" for b
    using broadcast_all [of ?s a' c x r' b t] so here same that Broadcast_only_sends by simp
  show ?thesis
  proof (cases out)
    case NotCandidate
    then have "t = ?s" using t a r u by (simp add: AppInfo_OnServiceGiveupElection_def Let_def)
    then show ?thesis by (intro agrees_sends [where fs = "[]" and ns = "[]" and a' = a']) (use l(1) view NotCandidate in simp_all)
  next
    case QuitCandidate
    obtain b where b: "PackSSMsg mar (msgElectionResult (s_mem s r) KElectionGiveUpLeader KElectionResultQuitCandidate) = Some b"
      using packs_electionsD [OF pk r(1)] by blast
    have n: "noticed mar b (si_serviceAddr (s_mem s r), KElectionGiveUpLeader, KElectionResultQuitCandidate)"
      using b by (simp only: noticed_msg)
    have sd: "sendToSession app b (si_serverAddr (s_mem s r)) ?s = Some t"
      using t a r u b same QuitCandidate by (simp add: AppInfo_OnServiceGiveupElection_def Let_def)
    have "sent_to t c = sent_to s c @ (if si_serverAddr (s_mem s r) = x then [b] else [])"
      using send_one [of ?s app c x b _ t] so sd by simp
    then show ?thesis
      by (rule agrees_sends [OF sendToSession_only_sends [OF sd], where ns = "if si_serverAddr (s_mem s r) = x
            then [(si_serviceAddr (s_mem s r), KElectionGiveUpLeader, KElectionResultQuitCandidate)] else []"])
        (use n l(1) QuitCandidate view in \<open>simp_all add: view_one event_leader\<close>)
  next
    case (LeaderTo nl)
    obtain b where b: "PackSSMsg mar (msgElectionResult (s_mem s nl) KElectionRunForLeader KElectionResultOK) = Some b"
      using packs_electionsD [OF pk l(2) [OF LeaderTo]] by blast
    have n: "noticed mar b (si_serviceAddr (s_mem s nl), KElectionRunForLeader, KElectionResultOK)"
      using b by (simp only: noticed_msg)
    have "AppInfo_Broadcast ?s a' None b = Some t"
      using t a r u b LeaderTo by (simp add: AppInfo_OnServiceGiveupElection_def Let_def)
    from bcast [OF this] show ?thesis
      by (intro agrees_sends [where ns = "[(si_serviceAddr (s_mem s nl), KElectionRunForLeader, KElectionResultOK)]"])
        (use n l(1) LeaderTo in \<open>auto simp: view_one event_leader\<close>)
  next
    case LeaderGone
    obtain b where b: "PackSSMsg mar (msgElectionResult (s_mem s r) KElectionGiveUpLeader KElectionResultOK) = Some b"
      using packs_electionsD [OF pk r(1)] by blast
    have n: "noticed mar b (si_serviceAddr (s_mem s r), KElectionGiveUpLeader, KElectionResultOK)"
      using b by (simp only: noticed_msg)
    have "AppInfo_Broadcast ?s a' None b = Some t"
      using t a r u b LeaderGone by (simp add: AppInfo_OnServiceGiveupElection_def Let_def)
    from bcast [OF this] show ?thesis
      by (intro agrees_sends [where ns = "[(si_serviceAddr (s_mem s r), KElectionGiveUpLeader, KElectionResultOK)]"])
        (use n l(1,3) LeaderGone view e(3) in \<open>auto simp: view_one event_leader\<close>)
  qed
qed

text \<open>
  C1: Name server and agents agree on the leader: when an agent that hosts a service of the application
  has the leader the name server has, then after the name server has handled a candidacy or a
  resignation, the notifications it wrote to that agent, decoded by the agent and applied to its view,
  give the leader of the name server again.
\<close>

theorem election_agreement:
  assumes "dir_ok s" "mget (s_apps s) app = Some a" "mget (ai_services a) h = Some r" "si_name (s_mem s r) = n"
    and "session_of s app c x" "r' \<in> set (mvals (ai_services a))" "si_serverAddr (s_mem s r') = x"
    and "codec_ok mar unm" "packs_elections mar (s_mem s) a" "leader_of_view se = leader_handle (s_mem s) n a"
    and "ev \<in> {KElectionRunForLeader, KElectionGiveUpLeader}"
  shows "\<exists>t. Server_OnServiceElectionEvent mar s h ev = Some (t, None) \<and> agrees_after mar app n c s t se \<and>
    (\<forall>f cand e res. noticed mar f (cand, e, res) \<longrightarrow>
       (\<forall>ag. NSDialerReceiver_OnMessage unm junm ag f = Some (offerEvent ag (ElectionEvent cand e res), length f, False)))"
proof -
  have app: "si_appID (s_mem s r) = app" "mget (s_handleServices s) h = Some r"
    using dir_okD(4,5) [OF assms(1,2)] services_okD(5) dir_okD(9) [OF assms(1,2,3)] assms(3) by auto
  obtain t e where t: "Server_OnServiceElectionEvent mar s h ev = Some (t, e)"
    using onMessage_ok [OF assms(1), of mar 0 "ServiceElection h ev"] by auto
  have e: "e = None" using t app assms(2) by (auto simp: Server_OnServiceElectionEvent_def Let_def split: Option.bind_splits if_splits)
  have "agrees_after mar app n c s t se"
  proof (cases "ev = KElectionRunForLeader")
    case True
    then have "AppInfo_OnServiceRunForElection mar s app h = Some t"
      using t app assms(2) by (auto simp: Server_OnServiceElectionEvent_def Let_def split: Option.bind_splits if_splits)
    then show ?thesis using runfor_agrees [OF assms(1-7,9,10)] by blast
  next
    case False
    then have "AppInfo_OnServiceGiveupElection mar s app h = Some t"
      using t app assms(2,11) by (auto simp: Server_OnServiceElectionEvent_def Let_def split: Option.bind_splits if_splits)
    then show ?thesis using giveup_agrees [OF assms(1-7,9,10)] by blast
  qed
  then show ?thesis using t e noticed_event [OF assms(8), where rest = "[]"] by simp
qed

definition ex_notices :: "SSMsg list" where
  "ex_notices = [msgElectionResult (s_mem ex_dir 0) ev res. ev \<leftarrow> [KElectionRunForLeader, KElectionGiveUpLeader],
     res \<leftarrow> [KElectionResultOK, KElectionResultRunForFail, KElectionResultAlreadyLeader, KElectionResultQuitCandidate]]"

definition ex_dir_app :: AppInfo where
  "ex_dir_app = (AppInfo_Init ''app'')\<lparr>ai_services := [(7, 0)], ai_svclruList := [0]\<rparr>"

lemma ex_dir_facts:
  "mget (s_apps ex_dir) ''app'' = Some ex_dir_app" "mget (ai_services ex_dir_app) 7 = Some 0" "si_name (s_mem ex_dir 0) = ''svc''"
  "session_of ex_dir ''app'' 4 ''h1''" "(0::nat) \<in> set (mvals (ai_services ex_dir_app))" "si_serverAddr (s_mem ex_dir 0) = ''h1''"
  "leader_of_view (newElection ''svc'') = leader_handle (s_mem ex_dir) ''svc'' ex_dir_app"
  by (auto simp: ex_dir_def ex_dir_app_def ex_cast_def session_of_def is_open_def SessionMgr_GetSession_def
      leader_of_view_def newElection_def leader_handle_def leaderOf_def AppInfo_Init_def split: if_splits)

lemma ex_dir_packs: "packs_elections (tab_mar ex_notices) (s_mem ex_dir) ex_dir_app"
  unfolding packs_elections_def
proof (intro ballI)
  fix r ev res assume "r \<in> set (mvals (ai_services ex_dir_app))" "ev \<in> {KElectionRunForLeader, KElectionGiveUpLeader}"
    "res \<in> {KElectionResultOK, KElectionResultRunForFail, KElectionResultAlreadyLeader, KElectionResultQuitCandidate}"
  then have "msgElectionResult (s_mem ex_dir r) ev res \<in> set ex_notices" by (auto simp: ex_notices_def ex_dir_app_def AppInfo_Init_def)
  then show "tab_mar ex_notices (msgElectionResult (s_mem ex_dir r) ev res) \<noteq> None" by (rule tab_mar_mem)
qed

lemma ex_notices_codec: "codec_ok (tab_mar ex_notices) (tab_unm ex_notices)"
  by (rule tab_codec_ok) (simp add: ex_notices_def)

theorem election_agreement_witness:
  "\<exists>t. Server_OnServiceElectionEvent (tab_mar ex_notices) ex_dir 7 KElectionRunForLeader = Some (t, None) \<and>
     agrees_after (tab_mar ex_notices) ''app'' ''svc'' 4 ex_dir t (newElection ''svc'')"
  using election_agreement [OF ex_dir_ok(1) ex_dir_facts(1-6) ex_notices_codec ex_dir_packs ex_dir_facts(7),
      of KElectionRunForLeader "\<lambda>_. None"]
  by auto

section \<open>Registration: from the name server to the other agents\<close>

lemma NotifyApp_other:
  assumes "session_of s app c x" "si_appID si = app" "si_serverAddr si \<noteq> x"
  shows "sent_to (ServiceInfo_NotifyApp s si b) c = sent_to s c" "session_of (ServiceInfo_NotifyApp s si b) app c x"
proof -
  have so: "is_open s c" "SessionMgr_GetSession (s_sm s) (si_serverAddr si) app \<noteq> Some c"
    using assms(1,3) unfolding session_of_def by blast+
  show "sent_to (ServiceInfo_NotifyApp s si b) c = sent_to s c" using so assms(2) by (simp add: sent_to_NotifyApp)
  have "is_open (ServiceInfo_NotifyApp s si b) c = is_open s c" by (simp add: ServiceInfo_NotifyApp_def split: option.split)
  then show "session_of (ServiceInfo_NotifyApp s si b) app c x"
    using assms(1) only_sends_fields(2,3) [OF ServiceInfo_NotifyApp_only_sends [of s si b]] by (simp add: session_of_def)
qed


definition ex_new :: ServiceInfo where
  "ex_new = \<lparr>si_serverAddr = ''h2'', si_appID = ''app'', si_serviceAddr = \<lparr>ServiceName = ''svc'', ServiceId = 2, AddrHandle = 8\<rparr>,
     si_lastRecvHbTime = 20, si_serviceOpts = defaultRegisterOptions\<rparr>"

definition ex_reg_msgs :: "SSMsg list" where
  "ex_reg_msgs = [msgRegisterServiceRsp 8 SSError_OK, msgServiceOnline ex_new True]"


section \<open>Messages: from one agent to a service of another\<close>

lemma serve_recvs:
  "(srv_Serve_recv ^^ length ms) (s\<lparr>as_recvQueue := ms\<rparr>) = (fold (\<lambda>m s. srv_onRecv s m) ms s)\<lparr>as_recvQueue := []\<rparr>"
proof (induction ms arbitrary: s)
  case (Cons m ms)
  have "srv_Serve_recv (s\<lparr>as_recvQueue := m # ms\<rparr>) = (srv_onRecv s m)\<lparr>as_recvQueue := ms\<rparr>"
    by (simp add: srv_Serve_recv_def srv_onRecv_def srv_push_def queueCap_def split: option.split)
  then show ?case using Cons.IH [of "srv_onRecv s m"] by (simp add: funpow_swap1)
qed simp

text \<open>
  C3: A message sent to a remote service arrives, in order: the sender writes one frame to the agent of the
  process the name server announced; there the frame becomes the last entry of the receive queue, and
  once the serving goroutine has moved what is in front of it, it is the last entry of the queue of the
  addressed service, behind the messages that were there and those that came before it; when its turn comes,
  the service calls the application with the sender's address and the bytes as they were sent.
\<close>

theorem remote_send_delivers:
  assumes "mget (sc_remoteServices sc) h = Some r" "ne_dialErr env (rs_serverAddr (sc_mem sc r)) = None"
    "ne_sendErr env (rs_serverAddr (sc_mem sc r)) = None"
    and "codec_ok mar unm" "mar (SSMsg NOTIFY_SERVICE_MESSAGE (Some (NotifyServiceMessage (Some (pbOfAddr src)) h b))) \<noteq> None"
    and "agent_ok ag" "mget (as_handleServices ag) h = Some q"
    and "length (ss_msgQueue (as_mem ag q) @ filter (\<lambda>m. GetDstHandle m = h) (as_recvQueue ag)) < queueCap ag"
  shows "\<exists>sc' f ag'. sc_SendRemote mar env sc src h b = (sc', None) \<and>
    sc_agentOut sc' = sc_agentOut sc @ [(rs_serverAddr (sc_mem sc r), f)] \<and>
    lisConnReceiver_OnMessage unm now ag f = Some (ag', length f, False) \<and>
    as_recvQueue ag' = as_recvQueue ag @ [DataMessage src h b] \<and>
    (let ag'' = (srv_Serve_recv ^^ length (as_recvQueue ag')) ag' in as_recvQueue ag'' = [] \<and>
      ss_msgQueue (as_mem ag'' q) =
        ss_msgQueue (as_mem ag q) @ filter (\<lambda>m. GetDstHandle m = h) (as_recvQueue ag) @ [DataMessage src h b] \<and>
      (\<forall>msgs. ss_Serve_step ((as_mem ag'' q)\<lparr>ss_msgQueue := DataMessage src h b # msgs\<rparr>) =
        ((as_mem ag'' q)\<lparr>ss_msgQueue := msgs\<rparr>, Handled [AppOnMessage h src b] [])))"
proof -
  let ?m = "SSMsg NOTIFY_SERVICE_MESSAGE (Some (NotifyServiceMessage (Some (pbOfAddr src)) h b))"
  obtain f where f: "PackSSMsg mar ?m = Some f" using assms(5) by (auto simp: PackSSMsg_def)
  let ?q = "as_recvQueue ag @ [DataMessage src h b]"
  have "lisConn_dispatch now ag ?m = Some (ag\<lparr>as_recvQueue := ?q\<rparr>)" by (simp add: lisConn_dispatch_def)
  from lisConn_frame [OF assms(4) f this, of "[]"]
  have recv: "lisConnReceiver_OnMessage unm now ag f = Some (ag\<lparr>as_recvQueue := ?q\<rparr>, length f, False)" by simp
  let ?t = "fold (\<lambda>m s. srv_onRecv s m) ?q ag"
  have "ss_msgQueue (as_mem ?t q) = ss_msgQueue (as_mem ag q) @ filter (\<lambda>m. GetDstHandle m = h) (as_recvQueue ag) @ [DataMessage src h b]"
    using recvs_queue [OF assms(6,7), of ?q] assms(8) by simp
  moreover have "AddrHandle (ss_addr (as_mem ?t q)) = h"
    using recvs_ok(2) [OF assms(6), of ?q] index_okD(6) [of ag h q] assms(6,7) by (simp add: same_live_def agent_ok_def)
  moreover have "sc_SendRemote mar env sc src h b = (fst (sc_SendRemote mar env sc src h b), None)"
    "sc_agentOut (fst (sc_SendRemote mar env sc src h b)) = sc_agentOut sc @ [(rs_serverAddr (sc_mem sc r), f)]"
    using assms(1-3) f by (auto simp: sc_SendRemote_def AgentDialerMgr_GetDialer_def agentSend_def Let_def)
  ultimately show ?thesis using recv serve_recvs [of ?q ag]
    by (intro exI [of _ "fst (sc_SendRemote mar env sc src h b)"] exI [of _ f] exI [of _ "ag\<lparr>as_recvQueue := ?q\<rparr>"])
      (simp add: Let_def ss_Serve_step_def ss_Serve_message_def)
qed

theorem remote_send_delivers_witness:
  "\<exists>sc' f. sc_SendRemote (tab_mar [SSMsg NOTIFY_SERVICE_MESSAGE (Some (NotifyServiceMessage (Some (pbOfAddr ex_addr)) 9 [1, 2]))])
      ex_env (sc_notifyServiceOnline ex_side ex_addr ''h2'' True defaultRegisterOptions) ex_addr 9 [1, 2] = (sc', None) \<and>
     sc_agentOut sc' = [(''h2'', f)]"
proof -
  let ?ms = "[SSMsg NOTIFY_SERVICE_MESSAGE (Some (NotifyServiceMessage (Some (pbOfAddr ex_addr)) 9 [1, 2]))]"
  let ?sc = "sc_notifyServiceOnline ex_side ex_addr ''h2'' True defaultRegisterOptions"
  have codec: "codec_ok (tab_mar ?ms) (tab_unm ?ms)" by (rule tab_codec_ok) simp
  have mem: "tab_mar ?ms (SSMsg NOTIFY_SERVICE_MESSAGE (Some (NotifyServiceMessage (Some (pbOfAddr ex_addr)) 9 [1, 2]))) \<noteq> None"
    by (rule tab_mar_mem) simp
  have sc: "mget (sc_remoteServices ?sc) 9 = Some 1" "rs_serverAddr (sc_mem ?sc 1) = ''h2''" "sc_agentOut ?sc = []"
    by (simp_all add: ex_side_def sc_notifyServiceOnline_def sc_Init_def newRemoteService_def Let_def ex_addr_def)
  have ag: "length (ss_msgQueue (as_mem ex_agent1 0) @ filter (\<lambda>m. GetDstHandle m = 9) (as_recvQueue ex_agent1)) < queueCap ex_agent1"
    by (simp add: ex_agent1_def ex_agent0_def srv_Init_def svc_added_def newService_def Let_def queueCap_def ex_cfg_def)
  have env: "ne_dialErr ex_env x = None" "ne_sendErr ex_env x = None" for x by (simp_all add: ex_env_def)
  from remote_send_delivers [OF sc(1) env codec mem ex_agent1_ok ex_agent1_svc(1) ag, of 0] sc(2,3) show ?thesis by auto
qed

section \<open>Remote calls over the mesh\<close>

text \<open>
  C4: A remote call crosses the mesh and comes back: the client's request leaves its agent as one frame
  for the process of the server; that agent calls the application of the addressed service, whose
  service object runs the handler and sends the result to the URL of the caller; the agent of the
  client delivers it, and the waiting call gets the bytes the handler returned.
\<close>

theorem rpc_over_mesh:
  assumes "codec_ok mar unm" "mar (msgService ca (AddrHandle sa) (rpc_frame t kMsgTypeReq seq meth req)) \<noteq> None"
    and "mar (msgService sa (AddrHandle ca) (rpc_frame t' kMsgTypeRsp seq [] rsp)) \<noteq> None"
    and "routes envA A url sa addrB" "hosts A (AddrHandle ca) qc"
    and "routes envB B (SkymeshAddr2Url ca False) ca addrA" "hosts B (AddrHandle sa) qs"
    and "link_ok lc0" "link_ok ls0" "rpc_fits meth req" "rpc_fits [] rsp" "seq \<noteq> 0"
    and "mget (sm_methods s) meth = Some h" "\<And>w. onMethod h req w = Some (w, VBytes rsp, None)"
    and "Wait_lock fw0 seq = (sk_rpc l, Inr ch)"
  shows "\<exists>lc A' f B1 reqFrame ls B2 g A2 rspFrame l' fw.
    rawSend (\<lambda>u b ag. srv_sendBySvcUrl mar envA ag ca u b) t url kMsgTypeReq seq meth req (lc0, A) = Some ((lc, A'), None) \<and>
    sc_agentOut (as_sidecar A') = sc_agentOut (as_sidecar A) @ [(addrB, f)] \<and>
    agent_deliver unm now B f qs = Some (B1, [AppOnMessage (AddrHandle sa) ca reqFrame]) \<and>
    SMService_OnMessage (\<lambda>u b ag. srv_sendBySvcUrl mar envB ag sa u b) t' s ca reqFrame (ls0, B1) = Some (ls, B2) \<and>
    sc_agentOut (as_sidecar B2) = sc_agentOut (as_sidecar B) @ [(addrA, g)] \<and>
    agent_deliver unm now' A' g qc = Some (A2, [AppOnMessage (AddrHandle ca) sa rspFrame]) \<and>
    SMService_OnMessage (\<lambda>u b ag. srv_sendBySvcUrl mar envA ag ca u b) t'' cl sa rspFrame (l, A2) = Some (l', A2) \<and>
    Wait_recv (sk_rpc l') ch = Some (fw, [VBytes rsp])"
proof -
  have w: "mget (fw_pending (sk_rpc l)) seq = Some ch" "fw_chans (sk_rpc l) ch = []"
    using assms(15) by (auto simp: Wait_lock_def Let_def split: option.splits dest: sym)
  let ?f = "rpc_frame t kMsgTypeReq seq meth req" and ?g = "rpc_frame t' kMsgTypeRsp seq [] rsp"
  obtain f g where f: "PackSSMsg mar (msgService ca (AddrHandle sa) ?f) = Some f" and g: "PackSSMsg mar (msgService sa (AddrHandle ca) ?g) = Some g"
    using assms(2,3) by (auto simp: PackSSMsg_def msgService_def)
  obtain sc where sc: "srv_sendBySvcUrl mar envA A ca url ?f = (A\<lparr>as_sidecar := sc\<rparr>, None)" "sc_agentOut sc = sc_agentOut (as_sidecar A) @ [(addrB, f)]"
    using send_leg [OF assms(4) f] by blast
  obtain lc where c: "rawSend (\<lambda>u b ag. srv_sendBySvcUrl mar envA ag ca u b) t url kMsgTypeReq seq meth req (lc0, A) =
      Some ((lc, A\<lparr>as_sidecar := sc\<rparr>), None)"
    using rawSend_ok [of "(lc0, A)", OF _ assms(10), of "\<lambda>u b ag. srv_sendBySvcUrl mar envA ag ca u b" t url kMsgTypeReq seq]
      assms(8) sc(1) by (auto simp del: kMsgTypeReq_def)
  obtain B1 where B1: "agent_deliver unm now B f qs = Some (B1, [AppOnMessage (AddrHandle sa) ca ?f])" "as_sidecar B1 = as_sidecar B"
    "as_urlServices B1 = as_urlServices B" using deliver_leg [OF assms(1) f assms(7)] by blast
  have "routes envB B1 (SkymeshAddr2Url ca False) ca addrA" using assms(6) B1(2,3) by (simp add: routes_def)
  from send_leg [OF this g] obtain sd where sd: "srv_sendBySvcUrl mar envB B1 sa (SkymeshAddr2Url ca False) ?g = (B1\<lparr>as_sidecar := sd\<rparr>, None)"
    "sc_agentOut sd = sc_agentOut (as_sidecar B) @ [(addrA, g)]" unfolding B1(2) by blast
  obtain ls where s: "SMService_OnMessage (\<lambda>u b ag. srv_sendBySvcUrl mar envB ag sa u b) t' s ca ?f (ls0, B1) = Some (ls, B1\<lparr>as_sidecar := sd\<rparr>)"
    using OnMessage_request [OF assms(10,12,13) assms(14) [of "(ls0, B1)"] _ assms(11), of "\<lambda>u b ag. srv_sendBySvcUrl mar envB ag sa u b" t' ca t]
      assms(9) sd(1) by (auto simp del: kMsgTypeReq_def kMsgTypeRsp_def)
  have "hosts (A\<lparr>as_sidecar := sc\<rparr>) (AddrHandle ca) qc" using assms(5) by (simp add: hosts_def queueCap_def)
  from deliver_leg [OF assms(1) g this] obtain A2 where A2: "agent_deliver unm now' (A\<lparr>as_sidecar := sc\<rparr>) g qc = Some (A2, [AppOnMessage (AddrHandle ca) sa ?g])"
    by blast
  let ?fw = "(sk_rpc l)\<lparr>fw_pending := mdel seq (fw_pending (sk_rpc l)), fw_chans := (fw_chans (sk_rpc l))(ch := [[VBytes rsp]])\<rparr>"
  have r: "Wait_recv (sk_rpc (l\<lparr>sk_rpc := ?fw\<rparr>)) ch = Some (?fw\<lparr>fw_chans := (fw_chans ?fw)(ch := [])\<rparr>, [VBytes rsp])" by (simp add: Wait_recv_def)
  have o: "sc_agentOut (as_sidecar (A\<lparr>as_sidecar := sc\<rparr>)) = sc_agentOut (as_sidecar A) @ [(addrB, f)]"
    "sc_agentOut (as_sidecar (B1\<lparr>as_sidecar := sd\<rparr>)) = sc_agentOut (as_sidecar B) @ [(addrA, g)]" using sc(2) sd(2) by simp_all
  note resp = OnMessage_response [OF w, of "\<lambda>u b ag. srv_sendBySvcUrl mar envA ag ca u b" t'' cl sa t' rsp A2]
  show ?thesis
    by (intro exI conjI, rule c, rule o(1), rule B1(1), rule s, rule o(2), rule A2, rule resp, rule r)
qed


text \<open>A method that reverses its argument.\<close>

definition ex_reverse :: "skymeshServer SMServiceImpl" where
  "ex_reverse = RegisterFunc (fst (newSMService [])) [104, 105] (\<lambda>msg w. Some (w, VBytes (rev msg), None))"

theorem rpc_over_mesh_witness:
  "\<exists>unm B1 reqFrame sends ls B2 g A' A2 rspFrame sendc l' fw.
    agent_deliver unm 0 (ex_process ex_peer_addr ''srv/1'' ex_addr ''h1'') g 0 = Some (B1, [AppOnMessage 11 ex_addr reqFrame]) \<and>
    SMService_OnMessage sends 0 ex_reverse ex_addr reqFrame (ex_link, B1) = Some (ls, B2) \<and>
    SMService_OnMessage sendc 0 ex_reverse ex_peer_addr rspFrame (ex_waiting, A2) = Some (l', A2) \<and>
    Wait_recv (sk_rpc l') 0 = Some (fw, [VBytes [3, 2, 1]])"
proof -
  let ?A = "ex_process ex_addr ''svc/1'' ex_peer_addr ''h2''" and ?B = "ex_process ex_peer_addr ''srv/1'' ex_addr ''h1''"
  let ?ms = "[msgService ex_addr (AddrHandle ex_peer_addr) (rpc_frame 0 kMsgTypeReq 7 [104, 105] [1, 2, 3]),
    msgService ex_peer_addr (AddrHandle ex_addr) (rpc_frame 0 kMsgTypeRsp 7 [] [3, 2, 1])]"
  let ?h = "\<lparr>mh_handler = (\<lambda>msg w. Some (w, VBytes (rev msg), None)), mh_interceptors = []\<rparr>"
  have codec: "codec_ok (tab_mar ?ms) (tab_unm ?ms)" by (rule tab_codec_ok) simp
  have mem: "tab_mar ?ms (?ms ! 0) \<noteq> None" "tab_mar ?ms (?ms ! 1) \<noteq> None" by (rule tab_mar_mem, simp)+
  have h: "mget (sm_methods ex_reverse) [104, 105] = Some ?h" by (simp add: ex_reverse_def RegisterFunc_def newSMService_def)
  have on: "onMethod ?h [1, 2, 3] w = Some (w, VBytes [3, 2, 1], None)" for w :: "skymeshServer smworld"
    by (simp add: onMethod_def chainHandler_def)
  have w: "Wait_lock (sk_rpc ex_link) 7 = (sk_rpc ex_waiting, Inr 0)"
    by (simp add: ex_waiting_def Wait_lock_def ex_link_def SMService_OnRegister_def newSMService_def RpcFramework_Init_def RpcFramework_new_def Let_def)
  have "(7 :: u64) \<noteq> 0" by simp
  from rpc_over_mesh [OF codec mem [unfolded nth_Cons_0 nth_Cons_Suc One_nat_def] ex_processes(1,3) ex_processes(2) [folded ex_urls(1)] ex_processes(4)
      ex_rpc_facts(1,1,2,3) this h on w, of 0 0 0 ex_reverse]
  show ?thesis by (simp add: ex_peer_addr_def) blast
qed

end
